(* ===== verification/Xasmos_Prelude.thy ===== *)
theory Xasmos_Prelude
  imports Main "HOL-Library.Word"
begin

text \<open>
  Shared vocabulary of the XASMOS development.

  \<^item> the C integer types as words (\<open>u8\<close>, \<open>u16\<close>, \<open>u32\<close>, \<open>u64\<close>), byte buffers as
    lists of bytes;
  \<^item> C strings: a pointer to a NUL-terminated string is a byte list, a read at or past the
    end of the list is the terminator (\<open>at\<close>), and \<open>cstr\<close> is the text before the first NUL;
  \<^item> the little-endian accessors \<open>put32\<close>, \<open>put64\<close>, \<open>get32\<close>, \<open>get64\<close> that
    \<open>core/exfs/sb.c\<close> and \<open>core/exfs/exfs.c\<close> both define, with their round-trip and
    frame laws in the collection \<open>le_simps\<close>;
  \<^item> bitmaps kept in byte arrays, with their laws in \<open>bitmap_simps\<close>;
  \<^item> the word lemmas the components share, in \<open>unat_simps\<close>.
\<close>

unbundle bit_operations_syntax

named_theorems le_simps "reading little-endian fields back from a buffer"
named_theorems bitmap_simps "reading bits back from a bitmap"
named_theorems unat_simps "unsigned values of word expressions"

type_synonym u8 = "8 word"
type_synonym u16 = "16 word"
type_synonym u32 = "32 word"
type_synonym u64 = "64 word"
type_synonym bytes = "u8 list"

section \<open>C strings\<close>

text \<open>A string literal of the source as bytes.\<close>

definition cs :: "string \<Rightarrow> bytes" where
  "cs s = map of_char s"

abbreviation NUL :: u8 where "NUL \<equiv> 0"
abbreviation BAR :: u8 where "BAR \<equiv> 124"
abbreviation BLANK :: u8 where "BLANK \<equiv> 32"

definition at :: "bytes \<Rightarrow> nat \<Rightarrow> u8" where
  "at s i = (if i < length s then s ! i else NUL)"

text \<open>The text a C string holds: everything before the first NUL.\<close>

definition cstr :: "bytes \<Rightarrow> bytes" where
  "cstr s = takeWhile (\<lambda>c. c \<noteq> NUL) s"

text \<open>\<open>while (s[n] != 0) n++\<close>\<close>

fun slen :: "bytes \<Rightarrow> nat" where
  "slen [] = 0"
| "slen (c # s) = (if c = NUL then 0 else Suc (slen s))"

text \<open>\<open>while (*a != 0 && *a == *b) { a++; b++; } return *a == *b;\<close>\<close>

fun str_eq :: "bytes \<Rightarrow> bytes \<Rightarrow> bool" where
  "str_eq [] b = (at b 0 = NUL)"
| "str_eq (x # a) b =
     (if x \<noteq> NUL \<and> x = at b 0 then str_eq a (tl b) else x = at b 0)"

section \<open>Little-endian fields\<close>

definition put32 :: "bytes \<Rightarrow> nat \<Rightarrow> u32 \<Rightarrow> bytes" where
  "put32 p off v = p[off := ucast v, off + 1 := ucast (drop_bit 8 v),
     off + 2 := ucast (drop_bit 16 v), off + 3 := ucast (drop_bit 24 v)]"

definition put64 :: "bytes \<Rightarrow> nat \<Rightarrow> u64 \<Rightarrow> bytes" where
  "put64 p off v = put32 (put32 p off (ucast v)) (off + 4) (ucast (drop_bit 32 v))"

definition get32 :: "bytes \<Rightarrow> nat \<Rightarrow> u32" where
  "get32 p off = ucast (p ! off) OR push_bit 8 (ucast (p ! (off + 1)))
     OR push_bit 16 (ucast (p ! (off + 2))) OR push_bit 24 (ucast (p ! (off + 3)))"

definition get64 :: "bytes \<Rightarrow> nat \<Rightarrow> u64" where
  "get64 p off = ucast (get32 p off) OR push_bit 32 (ucast (get32 p (off + 4)))"

section \<open>Bitmaps in byte arrays\<close>

text \<open>\<open>(b[i >> 3] >> (i & 7)) & 1\<close>, and setting or clearing that bit.\<close>

definition bit_of :: "bytes \<Rightarrow> nat \<Rightarrow> bool" where
  "bit_of b i \<longleftrightarrow> (drop_bit (i AND 7) (b ! drop_bit 3 i)) AND 1 = 1"

definition bit_put :: "bytes \<Rightarrow> nat \<Rightarrow> bool \<Rightarrow> bytes" where
  "bit_put b i v =
     (if v then b[drop_bit 3 i := (b ! drop_bit 3 i) OR push_bit (i AND 7) 1]
      else b[drop_bit 3 i := (b ! drop_bit 3 i) AND NOT (push_bit (i AND 7) 1)])"

section \<open>Copy loops\<close>

text \<open>\<open>for (i = 0; i < n; i++) dst[d + i] = src[s + i];\<close>, and the loop that fills \<open>n\<close> bytes.\<close>

definition copy_bytes :: "'a list \<Rightarrow> nat \<Rightarrow> 'a list \<Rightarrow> nat \<Rightarrow> nat \<Rightarrow> 'a list" where
  "copy_bytes dst d src s n = fold (\<lambda>i xs. xs[d + i := src ! (s + i)]) [0..<n] dst"

definition fill_bytes :: "'a list \<Rightarrow> nat \<Rightarrow> nat \<Rightarrow> 'a \<Rightarrow> 'a list" where
  "fill_bytes dst d n v = fold (\<lambda>i xs. xs[d + i := v]) [0..<n] dst"

text \<open>\<open>k = 0; while (src[k] != 0) { dst[k] = src[k]; k++; } dst[k] = 0;\<close>\<close>

definition copy_cstr :: "bytes \<Rightarrow> bytes \<Rightarrow> bytes" where
  "copy_cstr dst src = (copy_bytes dst 0 src 0 (slen src))[slen src := NUL]"

section \<open>Lemmas on C strings\<close>

lemma at_Nil [simp]: "at [] i = NUL"
  by (simp add: at_def)

lemma at_Cons_0 [simp]: "at (x # s) 0 = x"
  by (simp add: at_def)

lemma at_Cons_Suc [simp]: "at (x # s) (Suc i) = at s i"
  by (simp add: at_def)

lemma cstr_Nil [simp]: "cstr [] = []"
  by (simp add: cstr_def)

lemma cstr_Cons [simp]: "cstr (x # s) = (if x = NUL then [] else x # cstr s)"
  by (simp add: cstr_def)

lemma slen_cstr: "slen s = length (cstr s)"
  by (induction s) auto

lemma NUL_notin_cstr [simp]: "NUL \<notin> set (cstr s)"
  by (induction s) auto

lemma cstr_cstr [simp]: "cstr (cstr s) = cstr s"
  by (induction s) auto

lemma cstr_id: "NUL \<notin> set s \<Longrightarrow> cstr s = s"
  by (induction s) auto

lemma cstr_append_NUL: "NUL \<notin> set s \<Longrightarrow> cstr (s @ NUL # t) = s"
  by (induction s) auto

lemma length_cstr_le: "length (cstr s) \<le> length s"
  by (induction s) auto

lemma at_cstr: "i < length (cstr s) \<Longrightarrow> at s i = cstr s ! i"
proof (induction s arbitrary: i)
  case (Cons x s)
  then show ?case by (cases i) (auto split: if_splits)
qed simp

lemma at_cstr_end: "at s (length (cstr s)) = NUL"
  by (induction s) auto

lemma at_nonzero_before: "i < length (cstr s) \<Longrightarrow> at s i \<noteq> NUL"
  by (metis NUL_notin_cstr at_cstr nth_mem)

lemma str_eq_iff: "str_eq a b \<longleftrightarrow> cstr a = cstr b"
proof (induction a b rule: str_eq.induct)
  case (1 b)
  then show ?case by (cases b) auto
next
  case (2 x a b)
  then show ?case by (cases b) auto
qed

section \<open>Lemmas on little-endian fields\<close>

lemma length_put32 [simp]: "length (put32 p off v) = length p"
  by (simp add: put32_def)

lemma length_put64 [simp]: "length (put64 p off v) = length p"
  by (simp add: put64_def)

lemma join_le32:
  "(ucast (ucast v :: u8) :: u32) OR push_bit 8 (ucast (ucast (drop_bit 8 v) :: u8))
     OR push_bit 16 (ucast (ucast (drop_bit 16 v) :: u8))
     OR push_bit 24 (ucast (ucast (drop_bit 24 v) :: u8)) = v"
proof (rule bit_word_eqI)
  fix n :: nat
  assume n: "n < LENGTH(32)"
  have "n < 8 \<or> (8 \<le> n \<and> n < 16) \<or> (16 \<le> n \<and> n < 24) \<or> (24 \<le> n \<and> n < 32)"
    using n by (simp, arith)
  then show "bit ((ucast (ucast v :: u8) :: u32) OR push_bit 8 (ucast (ucast (drop_bit 8 v) :: u8))
     OR push_bit 16 (ucast (ucast (drop_bit 16 v) :: u8))
     OR push_bit 24 (ucast (ucast (drop_bit 24 v) :: u8))) n \<longleftrightarrow> bit v n"
    by (elim disjE conjE) (auto simp: bit_simps)
qed

lemma join_le64:
  "(ucast (ucast v :: u32) :: u64) OR push_bit 32 (ucast (ucast (drop_bit 32 v) :: u32)) = v"
proof (rule bit_word_eqI)
  fix n :: nat
  assume n: "n < LENGTH(64)"
  have "n < 32 \<or> (32 \<le> n \<and> n < 64)"
    using n by (simp, arith)
  then show "bit ((ucast (ucast v :: u32) :: u64)
      OR push_bit 32 (ucast (ucast (drop_bit 32 v) :: u32))) n \<longleftrightarrow> bit v n"
    by (elim disjE conjE) (auto simp: bit_simps)
qed

lemma nth_put32_other [le_simps]:
  "i < off \<or> off + 4 \<le> i \<Longrightarrow> put32 p off v ! i = p ! i"
  by (auto simp: put32_def)

lemma nth_put64_other [le_simps]:
  "i < off \<or> off + 8 \<le> i \<Longrightarrow> put64 p off v ! i = p ! i"
  by (auto simp: put64_def nth_put32_other)

lemma get32_cong:
  "(\<And>i. off \<le> i \<Longrightarrow> i < off + 4 \<Longrightarrow> p ! i = q ! i) \<Longrightarrow> get32 p off = get32 q off"
  by (simp add: get32_def)

lemma get64_cong:
  "(\<And>i. off \<le> i \<Longrightarrow> i < off + 8 \<Longrightarrow> p ! i = q ! i) \<Longrightarrow> get64 p off = get64 q off"
  using get32_cong [of off p q] get32_cong [of "off + 4" p q] by (simp add: get64_def)

lemma get32_put32_same [le_simps]:
  "off + 4 \<le> length p \<Longrightarrow> get32 (put32 p off v) off = v"
  using join_le32 [of v] by (simp add: get32_def put32_def nth_list_update)

lemma get32_put32_other [le_simps]:
  "off' + 4 \<le> off \<or> off + 4 \<le> off' \<Longrightarrow> get32 (put32 p off v) off' = get32 p off'"
  by (rule get32_cong) (auto intro: nth_put32_other)

lemma get64_put32_other [le_simps]:
  "off' + 8 \<le> off \<or> off + 4 \<le> off' \<Longrightarrow> get64 (put32 p off v) off' = get64 p off'"
  by (rule get64_cong) (auto intro: nth_put32_other)

lemma get32_put64_other [le_simps]:
  "off' + 4 \<le> off \<or> off + 8 \<le> off' \<Longrightarrow> get32 (put64 p off v) off' = get32 p off'"
  by (rule get32_cong) (auto intro: nth_put64_other)

lemma get64_put64_other [le_simps]:
  "off' + 8 \<le> off \<or> off + 8 \<le> off' \<Longrightarrow> get64 (put64 p off v) off' = get64 p off'"
  by (rule get64_cong) (auto intro: nth_put64_other)

lemma get64_put64_same [le_simps]:
  "off + 8 \<le> length p \<Longrightarrow> get64 (put64 p off v) off = v"
  unfolding get64_def put64_def
  by (simp add: get32_put32_other get32_put32_same join_le64)

lemma get32_list_update_other [le_simps]:
  "i < off \<or> off + 4 \<le> i \<Longrightarrow> get32 (p[i := c]) off = get32 p off"
  by (rule get32_cong) auto

lemma get64_list_update_other [le_simps]:
  "i < off \<or> off + 8 \<le> i \<Longrightarrow> get64 (p[i := c]) off = get64 p off"
  by (rule get64_cong) auto

lemma get32_byte:
  "(ucast (get32 p off) :: u8) = p ! off"
  "(ucast (drop_bit 8 (get32 p off)) :: u8) = p ! (off + 1)"
  "(ucast (drop_bit 16 (get32 p off)) :: u8) = p ! (off + 2)"
  "(ucast (drop_bit 24 (get32 p off)) :: u8) = p ! (off + 3)"
     by (rule bit_word_eqI; auto simp: get32_def bit_simps dest: bit_imp_le_length)+
lemma get64_lo: "(ucast (get64 p off) :: u32) = get32 p off"
  by (rule bit_word_eqI) (auto simp: get64_def bit_simps dest: bit_imp_le_length)
lemma get64_hi: "(ucast (drop_bit 32 (get64 p off)) :: u32) = get32 p (off + 4)"
  by (rule bit_word_eqI) (auto simp: get64_def bit_simps dest: bit_imp_le_length)
lemma get64_byte0: "(ucast (get64 p off) :: u8) = p ! off"
proof -
  have "(ucast (get64 p off) :: u8) = ucast (ucast (get64 p off) :: u32)"
    by (rule bit_word_eqI) (simp add: bit_simps)
  then show ?thesis by (simp add: get64_lo get32_byte)
qed

lemma get64_nth_cong:
  assumes "get64 p off = get64 q off" "off \<le> k" "k < off + 8"
  shows "p ! k = q ! k"
proof -
  have a: "get32 p off = get32 q off" "get32 p (off + 4) = get32 q (off + 4)"
    using assms(1) by (metis get64_lo, metis get64_hi)
  have "k = off \<or> k = off + 1 \<or> k = off + 2 \<or> k = off + 3 \<or> k = off + 4 \<or>
      k = off + 4 + 1 \<or> k = off + 4 + 2 \<or> k = off + 4 + 3"
    using assms(2,3) by (simp, arith)
  then show ?thesis
    using get32_byte [of p off] get32_byte [of q off] get32_byte [of p "off + 4"] get32_byte [of q "off + 4"]
    unfolding a by (elim disjE) simp_all
qed

section \<open>Lemmas on bitmaps\<close>

lemma nat_and_7: "(i::nat) AND 7 = i mod 8"
  using take_bit_eq_mask [of 3 i] by (simp add: take_bit_eq_mod mask_eq_exp_minus_1)

lemma nat_drop_3: "drop_bit 3 (i::nat) = i div 8"
  by (simp add: drop_bit_eq_div)

lemma bit_of_iff: "bit_of b i \<longleftrightarrow> bit (b ! (i div 8)) (i mod 8)"
proof -
  have "(drop_bit (i mod 8) (b ! (i div 8))) AND 1 = of_bool (bit (b ! (i div 8)) (i mod 8))"
    by (simp add: and_one_eq mod_2_eq_odd bit_iff_odd_drop_bit)
  then show ?thesis by (simp add: bit_of_def nat_and_7 nat_drop_3)
qed

lemma length_bit_put [simp]: "length (bit_put b i v) = length b"
  by (simp add: bit_put_def)

lemma bit_byte_set: "k < 8 \<Longrightarrow> l < 8 \<Longrightarrow> bit ((w :: u8) OR 2 ^ k) l \<longleftrightarrow> l = k \<or> bit w l"
  by (auto simp: bit_simps)

lemma bit_byte_clear:
  "k < 8 \<Longrightarrow> l < 8 \<Longrightarrow> bit ((w :: u8) AND NOT (2 ^ k)) l \<longleftrightarrow> l \<noteq> k \<and> bit w l"
  by (auto simp: bit_simps)

lemma div_mod_8_eq_iff: "i = j \<longleftrightarrow> i div 8 = j div 8 \<and> i mod 8 = j mod (8::nat)"
  by (metis div_mult_mod_eq)

lemma bit_of_bit_put [bitmap_simps]:
  assumes i: "i < 8 * length b"
  shows "bit_of (bit_put b i v) j = (if i = j then v else bit_of b j)"
proof -
  have b: "i div 8 < length b" using i by auto
  have m: "i mod 8 < 8" "j mod 8 < 8" by simp_all
  show ?thesis
    unfolding bit_of_iff bit_put_def nat_and_7 nat_drop_3 div_mod_8_eq_iff [of i j]
    using b bit_byte_set [OF m] bit_byte_clear [OF m]
    by (cases "i div 8 = j div 8") (auto simp: nth_list_update)
qed

section \<open>Unsigned values\<close>

lemma unat_ucast_up [unat_simps]:
  "LENGTH('a) \<le> LENGTH('b) \<Longrightarrow> unat (ucast (w :: 'a::len word) :: 'b::len word) = unat w"
  by (simp add: unsigned_ucast_eq take_bit_nat_eq_self_iff
      less_le_trans [OF unsigned_less, OF power_increasing])

lemma unat_ucast_32_64 [simp]: "unat (ucast (w :: u32) :: u64) = unat w"
  by (rule unat_ucast_up) simp

lemma unat_ucast_8_64 [simp]: "unat (ucast (w :: u8) :: u64) = unat w"
  by (rule unat_ucast_up) simp

lemma unat_ucast_8_32 [simp]: "unat (ucast (w :: u8) :: u32) = unat w"
  by (rule unat_ucast_up) simp

lemma unat_add_less: "unat (a :: 'a::len word) + unat b < 2 ^ LENGTH('a) \<Longrightarrow>
    unat (a + b) = unat a + unat b"
  by (simp add: unat_word_ariths)

lemma unat_mult_less: "unat (a :: 'a::len word) * unat b < 2 ^ LENGTH('a) \<Longrightarrow>
    unat (a * b) = unat a * unat b"
  by (simp add: unat_word_ariths)

lemma unat_u64_bound: "unat (w :: u64) < 18446744073709551616"
  using unsigned_less [of w, where ?'a = nat] by simp

lemma unat_u32_bound: "unat (w :: u32) < 4294967296"
  using unsigned_less [of w, where ?'a = nat] by simp

lemma unat_u8_bound: "unat (w :: u8) < 256"
  using unsigned_less [of w, where ?'a = nat] by simp

lemma unat_of_nat_u64: "n < 18446744073709551616 \<Longrightarrow> unat (of_nat n :: u64) = n"
  by (simp add: unat_of_nat)

lemma unat_of_nat_u32: "n < 4294967296 \<Longrightarrow> unat (of_nat n :: u32) = n"
  by (simp add: unat_of_nat)

lemma unat_ucast_64_32: "unat (w :: u64) < 4294967296 \<Longrightarrow> unat (ucast w :: u32) = unat w"
  by (simp add: unsigned_ucast_eq take_bit_eq_mod)

section \<open>Lemmas on copy loops\<close>

lemma length_copy_bytes [simp]: "length (copy_bytes dst d src s n) = length dst"
  unfolding copy_bytes_def by (induction n) simp_all

lemma nth_copy_bytes:
  "d + n \<le> length dst \<Longrightarrow> copy_bytes dst d src s n ! j =
     (if d \<le> j \<and> j < d + n then src ! (s + (j - d)) else dst ! j)"
proof (induction n)
  case (Suc n)
  have "length (copy_bytes dst d src s n) = length dst" by simp
  then show ?case using Suc by (auto simp: copy_bytes_def nth_list_update)
qed (auto simp: copy_bytes_def)

lemma nth_copy_bytes_outside:
  "j < d \<or> d + n \<le> j \<Longrightarrow> copy_bytes dst d src s n ! j = dst ! j"
  unfolding copy_bytes_def by (induction n) auto

lemma copy_bytes_all:
  "length dst = n \<Longrightarrow> copy_bytes dst 0 src s n = map (\<lambda>i. src ! (s + i)) [0..<n]"
  by (rule nth_equalityI) (auto simp: nth_copy_bytes)

lemma length_fill_bytes [simp]: "length (fill_bytes dst d n v) = length dst"
  unfolding fill_bytes_def by (induction n) simp_all

lemma nth_fill_bytes:
  "d + n \<le> length dst \<Longrightarrow> fill_bytes dst d n v ! j = (if d \<le> j \<and> j < d + n then v else dst ! j)"
proof (induction n)
  case (Suc n)
  have "length (fill_bytes dst d n v) = length dst" by simp
  then show ?case using Suc by (auto simp: fill_bytes_def nth_list_update)
qed (auto simp: fill_bytes_def)

lemma fill_bytes_all: "length dst = n \<Longrightarrow> fill_bytes dst 0 n v = replicate n v"
  by (rule nth_equalityI) (auto simp: nth_fill_bytes)

lemma length_fold_update [simp]: "length (fold (\<lambda>i xs. xs[f i := h i]) is xs) = length xs"
  by (induction "is" arbitrary: xs) simp_all

lemma nth_fold_update:
  "n \<le> length xs \<Longrightarrow> fold (\<lambda>i xs. xs[i := h i]) [0..<n] xs ! j = (if j < n then h j else xs ! j)"
  by (induction n) (auto simp: nth_list_update)

lemma fold_update_all: "length xs = n \<Longrightarrow> fold (\<lambda>i xs. xs[i := h i]) [0..<n] xs = map h [0..<n]"
  by (rule nth_equalityI) (simp_all add: nth_fold_update)

lemma length_copy_cstr [simp]: "length (copy_cstr dst src) = length dst"
  by (simp add: copy_cstr_def)

lemma cstr_eqI:
  assumes "n < length s" "s ! n = NUL" "\<And>i. i < n \<Longrightarrow> s ! i \<noteq> NUL"
  shows "cstr s = take n s"
proof -
  have "takeWhile (\<lambda>c. c \<noteq> NUL) s = take n s"
    by (rule takeWhile_eq_take_P_nth) (use assms in auto)
  then show ?thesis by (simp add: cstr_def)
qed

lemma nth_cstr: "i < length (cstr s) \<Longrightarrow> cstr s ! i = s ! i"
  by (simp add: cstr_def takeWhile_nth)

lemma cstr_copy_cstr:
  assumes "slen src < length dst"
  shows "cstr (copy_cstr dst src) = cstr src"
proof -
  let ?n = "slen src" and ?r = "copy_cstr dst src"
  have len: "?n = length (cstr src)" by (rule slen_cstr)
  have ri: "?r ! i = cstr src ! i" if "i < ?n" for i
    using that assms len by (simp add: copy_cstr_def nth_copy_bytes nth_cstr)
  have "?r ! ?n = NUL" using assms by (simp add: copy_cstr_def)
  moreover have "?r ! i \<noteq> NUL" if "i < ?n" for i
    using ri [OF that] that len by (metis NUL_notin_cstr nth_mem)
  ultimately have "cstr ?r = take ?n ?r"
    using assms by (intro cstr_eqI) simp_all
  also have "\<dots> = cstr src"
    by (rule nth_equalityI) (use assms len ri in auto)
  finally show ?thesis .
qed

section \<open>Lists\<close>

lemma map_upt_shift: "map f [a..<a + n] = map (\<lambda>i. f (a + i)) [0..<n]"
  by (rule nth_equalityI) auto

end
