(* ===== verification/Dev.thy ===== *)
theory Dev
  imports Xasmos_Prelude
begin

text \<open>
  The device registry of \<open>source/core/dev/dev.c\<close>: eight slots, each a name and a pointer to
  a device. A slot is free when its pointer is null; its name bytes then are stale. The type
  of device pointers is a parameter.

  The registry refines a partial map from device names to devices (\<open>dev_map\<close>): lookup of
  \<open>|dev|name\<close> reads the map and registration extends it.
\<close>

section \<open>The registry\<close>

record 'p DevSlot =
  ds_name :: bytes
  ds_dev :: "'p option"

abbreviation DEV_MAX :: nat where "DEV_MAX \<equiv> 8"
abbreviation DEV_NAME_MAX :: nat where "DEV_NAME_MAX \<equiv> 8"
abbreviation DEV_OK :: int where "DEV_OK \<equiv> 0"
abbreviation DEV_EEXIST :: int where "DEV_EEXIST \<equiv> -1"
abbreviation DEV_EFULL :: int where "DEV_EFULL \<equiv> -2"
abbreviation DEV_EINVAL :: int where "DEV_EINVAL \<equiv> -3"

definition DEV_PREFIX :: bytes where "DEV_PREFIX = cs ''|dev|''"

definition dev_name_ok :: "bytes \<Rightarrow> bool" where
  "dev_name_ok name \<longleftrightarrow> 0 < slen name \<and> slen name \<le> DEV_NAME_MAX"

text \<open>The scan of \<open>dev_register\<close>: the first free slot, or \<open>DEV_EEXIST\<close>.\<close>

fun dev_scan :: "'p DevSlot list \<Rightarrow> nat \<Rightarrow> bytes \<Rightarrow> nat option \<Rightarrow> int + nat option" where
  "dev_scan [] i name free_slot = Inr free_slot"
| "dev_scan (s # rest) i name free_slot =
     (if ds_dev s = None
      then dev_scan rest (Suc i) name (if free_slot = None then Some i else free_slot)
      else if str_eq (ds_name s) name then Inl DEV_EEXIST
      else dev_scan rest (Suc i) name free_slot)"

definition dev_register ::
  "bytes option \<Rightarrow> 'p option \<Rightarrow> 'p DevSlot list \<Rightarrow> int \<times> 'p DevSlot list" where
  "dev_register name d devs =
     (if d = None \<or> name = None \<or> \<not> dev_name_ok (the name) then (DEV_EINVAL, devs)
      else (case dev_scan devs 0 (the name) None of
              Inl e \<Rightarrow> (e, devs)
            | Inr None \<Rightarrow> (DEV_EFULL, devs)
            | Inr (Some i) \<Rightarrow>
                (DEV_OK, devs[i := \<lparr>ds_name = copy_cstr (ds_name (devs ! i)) (the name),
                                    ds_dev = d\<rparr>])))"

fun dev_skip :: "bytes \<Rightarrow> bytes \<Rightarrow> bytes option" where
  "dev_skip p [] = Some p"
| "dev_skip p (c # pre) = (if at p 0 \<noteq> c then None else dev_skip (drop 1 p) pre)"

fun dev_find :: "'p DevSlot list \<Rightarrow> bytes \<Rightarrow> 'p option" where
  "dev_find [] p = None"
| "dev_find (s # rest) p =
     (if ds_dev s \<noteq> None \<and> str_eq (ds_name s) p then ds_dev s else dev_find rest p)"

definition dev_lookup :: "bytes \<Rightarrow> 'p DevSlot list \<Rightarrow> 'p option" where
  "dev_lookup path devs =
     (case dev_skip path DEV_PREFIX of None \<Rightarrow> None | Some p \<Rightarrow> dev_find devs p)"

text \<open>\<open>dev_list\<close> with the callback as a transformer of the caller's state.\<close>

definition dev_list :: "(bytes \<Rightarrow> 'p \<Rightarrow> 's \<Rightarrow> 's) \<Rightarrow> 'p DevSlot list \<Rightarrow> 's \<Rightarrow> nat \<times> 's" where
  "dev_list cb devs st =
     fold (\<lambda>s (n, st). case ds_dev s of None \<Rightarrow> (n, st)
                        | Some d \<Rightarrow> (Suc n, cb (ds_name s) d st)) devs (0, st)"

section \<open>Invariant and abstraction\<close>

definition dev_used :: "'p DevSlot list \<Rightarrow> 'p DevSlot list" where
  "dev_used devs = filter (\<lambda>s. ds_dev s \<noteq> None) devs"

definition dev_inv :: "'p DevSlot list \<Rightarrow> bool" where
  "dev_inv devs \<longleftrightarrow> length devs = DEV_MAX \<and>
     (\<forall>s \<in> set devs. length (ds_name s) = DEV_NAME_MAX + 1) \<and>
     (\<forall>s \<in> set (dev_used devs). dev_name_ok (ds_name s)) \<and>
     distinct (map (\<lambda>s. cstr (ds_name s)) (dev_used devs))"

definition dev_map :: "'p DevSlot list \<Rightarrow> bytes \<Rightarrow> 'p option" where
  "dev_map devs = map_of (map (\<lambda>s. (cstr (ds_name s), the (ds_dev s))) (dev_used devs))"

section \<open>Lemmas\<close>

lemma dev_skip_append:
  "dev_skip p pre = (if take (length pre) p = pre then Some (drop (length pre) p) else None)"
  if "NUL \<notin> set pre"
  using that
proof (induction p pre rule: dev_skip.induct)
  case (2 p c pre)
  then show ?case by (cases p) (auto simp: at_def)
qed simp

lemma NUL_notin_prefix: "NUL \<notin> set DEV_PREFIX"
  by (simp add: DEV_PREFIX_def cs_def)

lemma dev_find_map: "dev_find devs p = dev_map devs (cstr p)"
  by (induction devs) (auto simp: dev_map_def dev_used_def str_eq_iff)

lemma dev_lookup_map:
  "dev_lookup (DEV_PREFIX @ p) devs = dev_map devs (cstr p)"
  by (simp add: dev_lookup_def dev_skip_append NUL_notin_prefix dev_find_map)

lemma dev_lookup_other:
  "take (length DEV_PREFIX) p \<noteq> DEV_PREFIX \<Longrightarrow> dev_lookup p devs = None"
  by (simp add: dev_lookup_def dev_skip_append NUL_notin_prefix)

lemma dev_scan_Inl:
  "dev_scan devs i name fs = Inl e \<Longrightarrow> e = DEV_EEXIST \<and> dev_map devs (cstr name) \<noteq> None"
  by (induction devs i name fs rule: dev_scan.induct)
    (auto simp: dev_map_def dev_used_def str_eq_iff split: if_splits)

lemma dev_map_free: "ds_dev s = None \<Longrightarrow> dev_map (s # rest) = dev_map rest"
  by (simp add: dev_map_def dev_used_def)

lemma dev_map_taken:
  "ds_dev s = Some d \<Longrightarrow> dev_map (s # rest) x = (if x = cstr (ds_name s) then Some d else dev_map rest x)"
  by (simp add: dev_map_def dev_used_def)

lemma dev_scan_keeps_slot: "dev_scan devs i name (Some k) = Inr r \<Longrightarrow> r = Some k"
  by (induction devs arbitrary: i) (auto split: if_splits)

lemma dev_scan_Inr:
  "dev_scan devs i name fs = Inr r \<Longrightarrow> dev_map devs (cstr name) = None"
proof (induction devs i name fs rule: dev_scan.induct)
  case (2 s rest i name fs)
  then show ?case
    by (cases "ds_dev s") (simp_all add: dev_map_free dev_map_taken str_eq_iff split: if_splits)
qed (simp add: dev_map_def dev_used_def)

lemma dev_scan_full:
  "dev_scan devs i name fs = Inr None \<Longrightarrow> \<forall>s \<in> set devs. ds_dev s \<noteq> None"
proof (induction devs i name fs rule: dev_scan.induct)
  case (2 s rest i name fs)
  then show ?case
    by (cases fs; cases "ds_dev s") (auto dest: dev_scan_keeps_slot split: if_splits)
qed simp

lemma dev_used_full: "\<forall>s \<in> set devs. ds_dev s \<noteq> None \<Longrightarrow> dev_used devs = devs"
  by (simp add: dev_used_def)

lemma dev_scan_slot:
  "dev_scan devs i name fs = Inr (Some k) \<Longrightarrow> fs = Some k \<or>
     (\<exists>j < length devs. k = i + j \<and> ds_dev (devs ! j) = None)"
proof (induction devs i name fs rule: dev_scan.induct)
  case (2 s rest i name fs)
  have step: "\<exists>j<length (s # rest). k = i + j \<and> ds_dev ((s # rest) ! j) = None"
    if "\<exists>j<length rest. k = Suc i + j \<and> ds_dev (rest ! j) = None"
  proof -
    from that obtain j where "j < length rest" "k = Suc i + j" "ds_dev (rest ! j) = None" by blast
    then show ?thesis by (intro exI [of _ "Suc j"]) simp
  qed
  have here: "\<exists>j<length (s # rest). i = i + j \<and> ds_dev ((s # rest) ! j) = None"
    if "ds_dev s = None" using that by (intro exI [of _ 0]) simp
  show ?case
  proof (cases "ds_dev s = None")
    case True
    with 2 have "(if fs = None then Some i else fs) = Some k \<or>
        (\<exists>j<length rest. k = Suc i + j \<and> ds_dev (rest ! j) = None)" by simp
    with step here [OF True] show ?thesis by (metis option.inject)
  next
    case False
    with 2 step show ?thesis by (auto split: if_splits)
  qed
qed simp

lemma dev_used_update:
  assumes "i < length devs" "ds_dev (devs ! i) = None" "ds_dev s \<noteq> None"
  shows "dev_used (devs[i := s]) = dev_used (take i devs) @ s # dev_used (drop (Suc i) devs)"
    and "dev_used devs = dev_used (take i devs) @ dev_used (drop (Suc i) devs)"
proof -
  show "dev_used (devs[i := s]) = dev_used (take i devs) @ s # dev_used (drop (Suc i) devs)"
    using assms by (simp add: upd_conv_take_nth_drop dev_used_def)
  have "devs = take i devs @ devs ! i # drop (Suc i) devs"
    using assms(1) by (rule id_take_nth_drop)
  then have "dev_used devs = dev_used (take i devs @ devs ! i # drop (Suc i) devs)" by simp
  then show "dev_used devs = dev_used (take i devs) @ dev_used (drop (Suc i) devs)"
    using assms(2) by (simp add: dev_used_def)
qed

lemma map_of_insert_mid:
  "k \<notin> fst ` set xs \<Longrightarrow> map_of (xs @ (k, v) # ys) = (map_of (xs @ ys))(k \<mapsto> v)"
  by (induction xs) (auto simp: fun_eq_iff)

lemma dev_register_success:
  assumes inv: "dev_inv devs" and reg: "dev_register (Some name) (Some d) devs = (DEV_OK, devs')"
  shows "dev_inv devs'" and "dev_map devs' = (dev_map devs)(cstr name \<mapsto> d)"
    and "dev_map devs (cstr name) = None"
proof -
  from reg obtain i where ok: "dev_name_ok name" and sc: "dev_scan devs 0 name None = Inr (Some i)"
    and devs': "devs' = devs[i := \<lparr>ds_name = copy_cstr (ds_name (devs ! i)) name, ds_dev = Some d\<rparr>]"
    by (auto simp: dev_register_def split: if_splits sum.splits option.splits dest: dev_scan_Inl)
  let ?s = "\<lparr>ds_name = copy_cstr (ds_name (devs ! i)) name, ds_dev = Some d\<rparr>"
  from dev_scan_slot [OF sc] have i: "i < length devs" "ds_dev (devs ! i) = None" by auto
  from dev_scan_Inr [OF sc] show none: "dev_map devs (cstr name) = None" by simp
  have len: "length (ds_name (devs ! i)) = DEV_NAME_MAX + 1"
    using inv i by (simp add: dev_inv_def)
  with ok have cn: "cstr (ds_name ?s) = cstr name"
    by (simp add: cstr_copy_cstr dev_name_ok_def)
  define A where "A = dev_used (take i devs)"
  define B where "B = dev_used (drop (Suc i) devs)"
  have u: "dev_used devs = A @ B" "dev_used devs' = A @ ?s # B"
    using dev_used_update [OF i, of ?s] by (simp_all add: A_def B_def devs')
  have fresh: "cstr name \<notin> (\<lambda>s. cstr (ds_name s)) ` set (A @ B)"
    using none by (force simp: dev_map_def map_of_eq_None_iff u)
  let ?f = "\<lambda>s. (cstr (ds_name s), the (ds_dev s))"
  have "map_of (map ?f A @ (cstr name, d) # map ?f B) = (map_of (map ?f A @ map ?f B))(cstr name \<mapsto> d)"
    by (rule map_of_insert_mid) (use fresh in auto)
  then show "dev_map devs' = (dev_map devs)(cstr name \<mapsto> d)"
    by (simp only: dev_map_def u map_append list.map cn [simplified] DevSlot.simps option.sel)
  have okn: "dev_name_ok (ds_name ?s)"
    using ok cn by (simp add: dev_name_ok_def slen_cstr)
  have "length devs' = DEV_MAX" using inv by (simp add: devs' dev_inv_def)
  moreover have "\<forall>s \<in> set devs'. length (ds_name s) = DEV_NAME_MAX + 1"
    using inv len set_update_subset_insert [of devs i ?s]
    unfolding devs' dev_inv_def by fastforce
  moreover have "\<forall>s \<in> set (dev_used devs'). dev_name_ok (ds_name s)"
    using inv okn unfolding dev_inv_def u by simp
  moreover have "distinct (map (\<lambda>s. cstr (ds_name s)) (dev_used devs'))"
    using inv fresh cn unfolding dev_inv_def u by auto
  ultimately show "dev_inv devs'" unfolding dev_inv_def by blast
qed

lemma dev_list_eq:
  "dev_list cb devs st =
     (length (dev_used devs), fold (\<lambda>s. cb (ds_name s) (the (ds_dev s))) (dev_used devs) st)"
proof -
  have "fold (\<lambda>s (n, st). case ds_dev s of None \<Rightarrow> (n, st)
                        | Some d \<Rightarrow> (Suc n, cb (ds_name s) d st)) devs (k, st) =
     (k + length (dev_used devs), fold (\<lambda>s. cb (ds_name s) (the (ds_dev s))) (dev_used devs) st)" for k
    by (induction devs arbitrary: k st) (auto simp: dev_used_def split: option.splits)
  then show ?thesis by (simp add: dev_list_def)
qed

section \<open>Properties\<close>

definition dev_sample :: "nat DevSlot list" where
  "dev_sample = replicate 8 \<lparr>ds_name = replicate 9 0, ds_dev = None\<rparr>"

lemma dev_sample_inv: "dev_inv dev_sample" "dev_map dev_sample = Map.empty"
  by (simp_all add: dev_inv_def dev_sample_def dev_used_def dev_map_def)

text \<open>C16. The registry implements a finite map from names to devices. Registering a valid name
  either adds exactly that binding, or returns an error and changes nothing: the name is taken,
  or every slot is. Looking up a path under the device prefix reads the map.\<close>

theorem dev_register_refines:
  assumes inv: "dev_inv devs" and ok: "dev_name_ok name"
    and reg: "dev_register (Some name) (Some d) devs = (rc, devs')"
  shows "dev_inv devs' \<and>
     (rc = DEV_OK \<longrightarrow> dev_map devs (cstr name) = None \<and> dev_map devs' = (dev_map devs)(cstr name \<mapsto> d)) \<and>
     (rc \<noteq> DEV_OK \<longrightarrow> devs' = devs \<and>
        (if dev_map devs (cstr name) \<noteq> None then rc = DEV_EEXIST
         else rc = DEV_EFULL \<and> length (dev_used devs) = DEV_MAX)) \<and>
     (\<forall>p. dev_lookup (DEV_PREFIX @ p) devs' = dev_map devs' (cstr p))"
proof (cases "rc = DEV_OK")
  case True
  with dev_register_success [OF inv] reg show ?thesis by (simp add: dev_lookup_map)
next
  case False
  with reg ok have "devs' = devs \<and> (if dev_map devs (cstr name) \<noteq> None then rc = DEV_EEXIST
      else rc = DEV_EFULL \<and> dev_used devs = devs)"
    by (auto simp: dev_register_def split: sum.splits option.splits
        dest: dev_scan_Inl dev_scan_Inr dev_scan_full dev_used_full)
  with inv False show ?thesis by (auto simp: dev_lookup_map dev_inv_def split: if_splits)
qed

theorem dev_register_refines_witness:
  "dev_lookup (cs ''|dev|nd0'') (snd (dev_register (Some (cs ''nd0'')) (Some 7) dev_sample)) = Some 7"
proof -
  have ok: "dev_name_ok (cs ''nd0'')" by (simp add: dev_name_ok_def cs_def)
  have sc: "dev_scan dev_sample 0 (cs ''nd0'') None = Inr (Some 0)"
    by (simp add: dev_sample_def numeral_eq_Suc)
  have r: "dev_register (Some (cs ''nd0'')) (Some 7) dev_sample =
     (DEV_OK, snd (dev_register (Some (cs ''nd0'')) (Some 7) dev_sample))"
    by (simp add: dev_register_def ok sc)
  note t = dev_register_refines [OF dev_sample_inv(1) ok r]
  have "DEV_PREFIX @ cs ''nd0'' = cs ''|dev|nd0''" by (simp add: DEV_PREFIX_def cs_def)
  with t show ?thesis by (metis fun_upd_same)
qed

end
