(* ===== verification/Blk.thy ===== *)
theory Blk
  imports Xasmos_Prelude
begin

text \<open>
  The block layer: \<open>source/core/blk/blk.c\<close> and \<open>blk.h\<close>, and the RAM disk of
  \<open>source/core/blk/ramdisk.c\<close>.

  A driver is the table of function pointers of \<open>BlkOps\<close>; its state (\<open>ctx\<close>) is a type
  parameter. A null pointer is \<open>None\<close>. A read takes the caller's buffer and returns it
  as the driver left it.

  The locale \<open>blk_medium\<close> is the contract of \<open>blk.h\<close> that EXFS relies on: a read that
  succeeds returns what the medium holds and changes nothing, a write that succeeds puts the
  buffer on the medium, and a write that fails may leave anything in the sectors it named but
  touches no other. \<open>blk_reliable\<close> adds that in-range requests succeed. The RAM disk is shown
  to satisfy both.
\<close>

section \<open>Data\<close>

record 'd BlkOps =
  op_read :: "('d \<Rightarrow> u64 \<Rightarrow> u32 \<Rightarrow> bytes \<Rightarrow> int \<times> bytes \<times> 'd) option"
  op_write :: "('d \<Rightarrow> u64 \<Rightarrow> u32 \<Rightarrow> bytes \<Rightarrow> int \<times> 'd) option"
  op_flush :: "('d \<Rightarrow> int \<times> 'd) option"

record 'd BlkDev =
  ctx :: 'd
  ops :: "'d BlkOps option"
  sector_size :: u32
  sector_count :: u64

abbreviation BLK_OK :: int where "BLK_OK \<equiv> 0"
abbreviation BLK_E_ARG :: int where "BLK_E_ARG \<equiv> -1"
abbreviation BLK_E_RANGE :: int where "BLK_E_RANGE \<equiv> -2"
abbreviation BLK_E_IO :: int where "BLK_E_IO \<equiv> -3"
abbreviation BLK_E_TIMEOUT :: int where "BLK_E_TIMEOUT \<equiv> -4"

section \<open>Range checks and dispatch\<close>

definition check :: "'d BlkDev option \<Rightarrow> u64 \<Rightarrow> u32 \<Rightarrow> bytes option \<Rightarrow> int" where
  "check d lba count buf =
     (if d = None \<or> ops (the d) = None \<or> buf = None \<or> count = 0 then BLK_E_ARG
      else if lba > sector_count (the d) then BLK_E_RANGE
      else if ucast count > sector_count (the d) - lba then BLK_E_RANGE
      else BLK_OK)"

definition blk_read ::
  "'d BlkDev option \<Rightarrow> u64 \<Rightarrow> u32 \<Rightarrow> bytes option \<Rightarrow> int \<times> bytes option \<times> 'd BlkDev option" where
  "blk_read d lba count buf =
     (let rc = check d lba count buf in
      if rc \<noteq> BLK_OK then (rc, buf, d)
      else (case op_read (the (ops (the d))) of
              None \<Rightarrow> (BLK_E_IO, buf, d)
            | Some rd \<Rightarrow> (let (r, b, c) = rd (ctx (the d)) lba count (the buf)
                          in (r, Some b, Some ((the d)\<lparr>ctx := c\<rparr>)))))"

definition blk_write ::
  "'d BlkDev option \<Rightarrow> u64 \<Rightarrow> u32 \<Rightarrow> bytes option \<Rightarrow> int \<times> 'd BlkDev option" where
  "blk_write d lba count buf =
     (let rc = check d lba count buf in
      if rc \<noteq> BLK_OK then (rc, d)
      else (case op_write (the (ops (the d))) of
              None \<Rightarrow> (BLK_E_IO, d)
            | Some wr \<Rightarrow> (let (r, c) = wr (ctx (the d)) lba count (the buf)
                          in (r, Some ((the d)\<lparr>ctx := c\<rparr>)))))"

definition blk_flush :: "'d BlkDev option \<Rightarrow> int \<times> 'd BlkDev option" where
  "blk_flush d =
     (if d = None \<or> ops (the d) = None then (BLK_E_ARG, d)
      else (case op_flush (the (ops (the d))) of
              None \<Rightarrow> (BLK_OK, d)
            | Some fl \<Rightarrow> (let (r, c) = fl (ctx (the d)) in (r, Some ((the d)\<lparr>ctx := c\<rparr>)))))"

definition blk_sector_size :: "'d BlkDev option \<Rightarrow> u32" where
  "blk_sector_size d = (case d of Some D \<Rightarrow> sector_size D | None \<Rightarrow> 0)"

definition blk_sector_count :: "'d BlkDev option \<Rightarrow> u64" where
  "blk_sector_count d = (case d of Some D \<Rightarrow> sector_count D | None \<Rightarrow> 0)"

section \<open>The RAM disk\<close>

record RamDisk =
  rd_mem :: bytes
  rd_sector_size :: u32
  rd_sector_count :: u64

definition rd_read :: "RamDisk \<Rightarrow> u64 \<Rightarrow> u32 \<Rightarrow> bytes \<Rightarrow> int \<times> bytes \<times> RamDisk" where
  "rd_read r lba n buf =
     (let bytes = ucast n * ucast (rd_sector_size r) :: u64;
          src = lba * ucast (rd_sector_size r)
      in (BLK_OK, copy_bytes buf 0 (rd_mem r) (unat src) (unat bytes), r))"

definition rd_write :: "RamDisk \<Rightarrow> u64 \<Rightarrow> u32 \<Rightarrow> bytes \<Rightarrow> int \<times> RamDisk" where
  "rd_write r lba n buf =
     (let bytes = ucast n * ucast (rd_sector_size r) :: u64;
          dst = lba * ucast (rd_sector_size r)
      in (BLK_OK, r\<lparr>rd_mem := copy_bytes (rd_mem r) (unat dst) buf 0 (unat bytes)\<rparr>))"

definition rd_flush :: "RamDisk \<Rightarrow> int \<times> RamDisk" where
  "rd_flush r = (BLK_OK, r)"

definition rd_ops :: "RamDisk BlkOps" where
  "rd_ops = \<lparr>op_read = Some rd_read, op_write = Some rd_write, op_flush = Some rd_flush\<rparr>"

definition ramdisk_init ::
  "RamDisk option \<Rightarrow> bytes option \<Rightarrow> u64 \<Rightarrow> u32 \<Rightarrow> int \<times> RamDisk option" where
  "ramdisk_init r mem bytes ss =
     (if r = None \<or> mem = None then (BLK_E_ARG, r)
      else if ss < 512 \<or> ss > 4096 \<or> ss AND (ss - 1) \<noteq> 0 then (BLK_E_ARG, r)
      else if bytes = 0 \<or> bytes mod ucast ss \<noteq> 0 then (BLK_E_ARG, r)
      else (BLK_OK, Some \<lparr>rd_mem = fill_bytes (the mem) 0 (unat bytes) 0,
                          rd_sector_size = ss, rd_sector_count = bytes div ucast ss\<rparr>))"

definition ramdisk_device :: "RamDisk option \<Rightarrow> RamDisk BlkDev option" where
  "ramdisk_device r =
     (case r of None \<Rightarrow> None
      | Some d \<Rightarrow> Some \<lparr>ctx = d, ops = Some rd_ops,
                        sector_size = rd_sector_size d, sector_count = rd_sector_count d\<rparr>)"

section \<open>The contract of blk.h\<close>

text \<open>The bytes a request names, as offsets on the medium.\<close>

definition req_span :: "'d BlkDev \<Rightarrow> u64 \<Rightarrow> u32 \<Rightarrow> nat set" where
  "req_span D lba count =
     {unat lba * unat (sector_size D) ..< (unat lba + unat count) * unat (sector_size D)}"

definition same_geometry :: "'d BlkDev \<Rightarrow> 'd BlkDev \<Rightarrow> bool" where
  "same_geometry D E \<longleftrightarrow> sector_size E = sector_size D \<and> sector_count E = sector_count D"

locale blk_medium =
  fixes img :: "'d BlkDev \<Rightarrow> nat \<Rightarrow> u8"
    and ok :: "'d BlkDev \<Rightarrow> bool"
  assumes read_state:
    "ok D \<Longrightarrow> blk_read (Some D) lba count (Some b) = (rc, b', D') \<Longrightarrow>
       \<exists>E c. D' = Some E \<and> ok E \<and> img E = img D \<and> same_geometry D E \<and>
             b' = Some c \<and> length c = length b"
    and read_data:
    "ok D \<Longrightarrow> blk_read (Some D) lba count (Some b) = (BLK_OK, b', D') \<Longrightarrow>
       length b = unat count * unat (sector_size D) \<Longrightarrow>
       b' = Some (map (\<lambda>i. img D (unat lba * unat (sector_size D) + i)) [0..<length b])"
    and write_state:
    "ok D \<Longrightarrow> blk_write (Some D) lba count (Some b) = (rc, D') \<Longrightarrow>
       \<exists>E. D' = Some E \<and> ok E \<and> same_geometry D E \<and>
           (\<forall>i. i \<notin> req_span D lba count \<longrightarrow> img E i = img D i)"
    and write_data:
    "ok D \<Longrightarrow> blk_write (Some D) lba count (Some b) = (BLK_OK, Some E) \<Longrightarrow>
       length b = unat count * unat (sector_size D) \<Longrightarrow> i < length b \<Longrightarrow>
       img E (unat lba * unat (sector_size D) + i) = b ! i"

locale blk_reliable = blk_medium img ok
  for img :: "'d BlkDev \<Rightarrow> nat \<Rightarrow> u8" and ok :: "'d BlkDev \<Rightarrow> bool" +
  assumes read_succeeds:
    "ok D \<Longrightarrow> count \<noteq> 0 \<Longrightarrow> unat lba + unat count \<le> unat (sector_count D) \<Longrightarrow>
       fst (blk_read (Some D) lba count (Some b)) = BLK_OK"
    and write_succeeds:
    "ok D \<Longrightarrow> count \<noteq> 0 \<Longrightarrow> unat lba + unat count \<le> unat (sector_count D) \<Longrightarrow>
       fst (blk_write (Some D) lba count (Some b)) = BLK_OK"

section \<open>Lemmas\<close>

lemma same_geometry_refl [simp]: "same_geometry D D"
  by (simp add: same_geometry_def)

lemma same_geometry_trans: "same_geometry D E \<Longrightarrow> same_geometry E F \<Longrightarrow> same_geometry D F"
  by (simp add: same_geometry_def)

lemma check_ok_iff:
  "check (Some D) lba count (Some b) = BLK_OK \<longleftrightarrow>
     ops D \<noteq> None \<and> count \<noteq> 0 \<and> unat lba + unat count \<le> unat (sector_count D)"
  by (auto simp: check_def word_le_nat_alt word_less_nat_alt not_less unat_sub)

text \<open>The RAM disk as a medium.\<close>

definition ram_ok :: "RamDisk BlkDev \<Rightarrow> bool" where
  "ram_ok D \<longleftrightarrow> ops D = Some rd_ops \<and> sector_size D = rd_sector_size (ctx D) \<and>
     sector_count D = rd_sector_count (ctx D) \<and>
     unat (sector_count D) * unat (sector_size D) \<le> length (rd_mem (ctx D)) \<and>
     unat (sector_count D) * unat (sector_size D) < 2 ^ 64"

definition ram_img :: "RamDisk BlkDev \<Rightarrow> nat \<Rightarrow> u8" where
  "ram_img D i = rd_mem (ctx D) ! i"

lemma ram_offsets:
  fixes lba :: u64 and count :: u32
  assumes "ram_ok D" "unat lba + unat count \<le> unat (sector_count D)"
  shows "unat (lba * ucast (sector_size D)) = unat lba * unat (sector_size D)"
    and "unat (ucast count * ucast (sector_size D) :: u64) = unat count * unat (sector_size D)"
    and "(unat lba + unat count) * unat (sector_size D) \<le> length (rd_mem (ctx D))"
proof -
  let ?s = "unat (sector_size D)"
  have "(unat lba + unat count) * ?s \<le> unat (sector_count D) * ?s"
    using assms(2) by (rule mult_le_mono1)
  with assms(1) have b: "(unat lba + unat count) * ?s < 2 ^ 64"
    and l: "(unat lba + unat count) * ?s \<le> length (rd_mem (ctx D))"
    unfolding ram_ok_def by linarith+
  from b have "unat lba * ?s < 2 ^ 64" "unat count * ?s < 2 ^ 64"
    by (simp_all add: add_mult_distrib)
  then show "unat (lba * ucast (sector_size D)) = unat lba * ?s"
    and "unat (ucast count * ucast (sector_size D) :: u64) = unat count * ?s"
    by (simp_all add: unat_word_ariths)
  show "(unat lba + unat count) * ?s \<le> length (rd_mem (ctx D))" by (rule l)
qed

lemma ram_read_eq:
  assumes "ram_ok D" "check (Some D) lba count (Some b) = BLK_OK"
  shows "blk_read (Some D) lba count (Some b) =
     (BLK_OK, Some (copy_bytes b 0 (rd_mem (ctx D)) (unat lba * unat (sector_size D))
                      (unat count * unat (sector_size D))), Some D)"
proof -
  have "unat lba + unat count \<le> unat (sector_count D)" using assms by (simp add: check_ok_iff)
  from ram_offsets [OF assms(1) this] show ?thesis
    using assms by (simp add: blk_read_def ram_ok_def rd_ops_def rd_read_def Let_def)
qed

lemma ram_write_eq:
  assumes "ram_ok D" "check (Some D) lba count (Some b) = BLK_OK"
  shows "blk_write (Some D) lba count (Some b) =
     (BLK_OK, Some (D\<lparr>ctx := (ctx D)\<lparr>rd_mem := copy_bytes (rd_mem (ctx D))
        (unat lba * unat (sector_size D)) b 0 (unat count * unat (sector_size D))\<rparr>\<rparr>))"
proof -
  have "unat lba + unat count \<le> unat (sector_count D)" using assms by (simp add: check_ok_iff)
  from ram_offsets [OF assms(1) this] show ?thesis
    using assms by (simp add: blk_write_def ram_ok_def rd_ops_def rd_write_def Let_def)
qed

lemma ram_read_fail:
  "check (Some D) lba count (Some b) \<noteq> BLK_OK \<Longrightarrow>
     blk_read (Some D) lba count (Some b) = (check (Some D) lba count (Some b), Some b, Some D)"
  by (simp add: blk_read_def Let_def)

lemma ram_write_fail:
  "check (Some D) lba count (Some b) \<noteq> BLK_OK \<Longrightarrow>
     blk_write (Some D) lba count (Some b) = (check (Some D) lba count (Some b), Some D)"
  by (simp add: blk_write_def Let_def)

lemma ram_read_state:
  assumes "ram_ok D" "blk_read (Some D) lba count (Some b) = (rc, b', D')"
  shows "D' = Some D" and "\<exists>c. b' = Some c \<and> length c = length b"
  using assms by (cases "check (Some D) lba count (Some b) = BLK_OK";
    auto simp: ram_read_eq ram_read_fail)+

lemma ram_write_state:
  assumes "ram_ok D" "blk_write (Some D) lba count (Some b) = (rc, D')"
  shows "\<exists>E. D' = Some E \<and> ram_ok E \<and> same_geometry D E \<and>
           (\<forall>i. i \<notin> req_span D lba count \<longrightarrow> ram_img E i = ram_img D i)"
proof (cases "check (Some D) lba count (Some b) = BLK_OK")
  case True
  with assms show ?thesis
    by (auto simp: ram_write_eq ram_ok_def same_geometry_def ram_img_def req_span_def
        add_mult_distrib intro!: nth_copy_bytes_outside)
next
  case False
  with assms show ?thesis by (auto simp: ram_write_fail)
qed

lemma blk_read_ok_check: "blk_read d lba count b = (BLK_OK, b', d') \<Longrightarrow> check d lba count b = BLK_OK"
  by (auto simp: blk_read_def Let_def split: if_splits)

lemma blk_write_ok_check: "blk_write d lba count b = (BLK_OK, d') \<Longrightarrow> check d lba count b = BLK_OK"
  by (auto simp: blk_write_def Let_def split: if_splits)

lemma ram_medium: "blk_medium ram_img ram_ok"
proof (unfold_locales, goal_cases)
  case (1 D lba count b rc b' D')
  then show ?case by (auto dest: ram_read_state)
next
  case (2 D lba count b b' D')
  then have c: "check (Some D) lba count (Some b) = BLK_OK" by (blast dest: blk_read_ok_check)
  with 2 show ?case by (simp add: ram_read_eq copy_bytes_all ram_img_def)
next
  case (3 D lba count b rc D')
  then show ?case by (rule ram_write_state)
next
  case (4 D lba count b E i)
  then have c: "check (Some D) lba count (Some b) = BLK_OK" by (blast dest: blk_write_ok_check)
  then have "(unat lba + unat count) * unat (sector_size D) \<le> length (rd_mem (ctx D))"
    using 4 by (simp add: check_ok_iff ram_offsets)
  with 4 c show ?case by (auto simp: ram_write_eq ram_img_def nth_copy_bytes add_mult_distrib)
qed

interpretation ram: blk_reliable ram_img ram_ok
proof (intro blk_reliable.intro ram_medium blk_reliable_axioms.intro)
  fix D :: "RamDisk BlkDev" and count :: u32 and lba :: u64 and b
  assume "ram_ok D" "count \<noteq> 0" "unat lba + unat count \<le> unat (sector_count D)"
  then have "check (Some D) lba count (Some b) = BLK_OK"
    by (simp add: check_ok_iff ram_ok_def)
  then show "fst (blk_read (Some D) lba count (Some b)) = BLK_OK"
    and "fst (blk_write (Some D) lba count (Some b)) = BLK_OK"
    using \<open>ram_ok D\<close> by (simp_all add: ram_read_eq ram_write_eq)
qed

lemma ramdisk_init_ok:
  assumes "ramdisk_init (Some r) (Some mem) bytes ss = (BLK_OK, Some r')"
    and "length mem = unat bytes"
    and "ramdisk_device (Some r') = Some D"
  shows "ram_ok D" and "unat (sector_count D) * unat (sector_size D) = unat bytes"
    and "\<And>i. i < unat bytes \<Longrightarrow> ram_img D i = 0"
proof -
  from assms have r: "r' = \<lparr>rd_mem = fill_bytes mem 0 (unat bytes) 0, rd_sector_size = ss,
      rd_sector_count = bytes div ucast ss\<rparr>" and m: "bytes mod ucast ss = 0"
    by (auto simp: ramdisk_init_def split: if_splits)
  have "unat bytes mod unat ss = 0"
    using m by (metis unat_0 unat_mod unat_ucast_32_64)
  then have e: "unat bytes div unat ss * unat ss = unat bytes"
    using div_mult_mod_eq [of "unat bytes" "unat ss"] by simp
  from assms(3) r have D: "D = \<lparr>ctx = r', ops = Some rd_ops, sector_size = ss,
      sector_count = bytes div ucast ss\<rparr>"
    by (simp add: ramdisk_device_def)
  show "unat (sector_count D) * unat (sector_size D) = unat bytes"
    using e by (simp add: D unat_div)
  then show "ram_ok D"
    using assms(2) r unat_u64_bound [of bytes] by (simp add: D ram_ok_def)
  show "ram_img D i = 0" if "i < unat bytes" for i
    using that assms(2) by (simp add: D r ram_img_def nth_fill_bytes)
qed

section \<open>Blocks of 4096 bytes\<close>

text \<open>EXFS moves whole blocks: \<open>spb\<close> sectors starting at sector \<open>blk * spb\<close>.\<close>

definition blk_bytes :: "('d BlkDev \<Rightarrow> nat \<Rightarrow> u8) \<Rightarrow> 'd BlkDev \<Rightarrow> nat \<Rightarrow> bytes" where
  "blk_bytes img D b = map (\<lambda>i. img D (b * 4096 + i)) [0..<4096]"

lemma length_blk_bytes [simp]: "length (blk_bytes img D b) = 4096"
  by (simp add: blk_bytes_def)

lemma blk_bytes_img: "img E = img D \<Longrightarrow> blk_bytes img E b = blk_bytes img D b"
  by (simp add: blk_bytes_def)

text \<open>The relation between the geometry of the device and the sectors per block.\<close>

definition spb_ok :: "'d BlkDev \<Rightarrow> u32 \<Rightarrow> bool" where
  "spb_ok D spb \<longleftrightarrow> unat spb * unat (sector_size D) = 4096"

lemma spb_ok_geometry: "same_geometry D E \<Longrightarrow> spb_ok E spb = spb_ok D spb"
  by (simp add: spb_ok_def same_geometry_def)

lemma spb_ok_bound: "spb_ok D spb \<Longrightarrow> 0 < unat spb \<and> unat spb \<le> 4096"
  by (cases "unat spb"; cases "unat (sector_size D)") (auto simp: spb_ok_def)

lemma block_lba:
  assumes "spb_ok D spb" "unat (blk :: u64) < 2 ^ 52"
  shows "unat (blk * ucast spb) = unat blk * unat spb"
proof -
  have "unat blk * unat spb < 2 ^ 52 * 2 ^ 12"
    using assms spb_ok_bound [OF assms(1)] by (intro mult_less_le_imp_less) auto
  then show ?thesis by (simp add: unat_word_ariths)
qed

context blk_medium
begin

lemma block_write:
  assumes ok: "ok D" and spb: "spb_ok D spb" and blk: "unat blk < 2 ^ 52"
    and w: "blk_write (Some D) (blk * ucast spb) spb (Some b) = (rc, D')"
  obtains E where "D' = Some E" "ok E" "same_geometry D E"
    "\<And>c. c \<noteq> unat blk \<Longrightarrow> blk_bytes img E c = blk_bytes img D c"
    "rc = BLK_OK \<Longrightarrow> length b = 4096 \<Longrightarrow> blk_bytes img E (unat blk) = b"
proof -
  from write_state [OF ok w] obtain E where E: "D' = Some E" "ok E" "same_geometry D E"
    and fr: "\<And>i. i \<notin> req_span D (blk * ucast spb) spb \<Longrightarrow> img E i = img D i" by blast
  have off: "unat (blk * ucast spb) * unat (sector_size D) = unat blk * 4096"
    using spb by (simp add: block_lba [OF spb blk] spb_ok_def mult.assoc)
  have span: "req_span D (blk * ucast spb) spb = {unat blk * 4096 ..< unat blk * 4096 + 4096}"
    using spb off by (simp add: req_span_def add_mult_distrib spb_ok_def)
  have "blk_bytes img E c = blk_bytes img D c" if "c \<noteq> unat blk" for c
  proof -
    have "c * 4096 + i \<notin> req_span D (blk * ucast spb) spb" if "i < 4096" for i
      using \<open>c \<noteq> unat blk\<close> that unfolding span by (cases "c < unat blk") auto
    then show ?thesis using fr by (simp add: blk_bytes_def)
  qed
  moreover have "blk_bytes img E (unat blk) = b" if "rc = BLK_OK" "length b = 4096"
  proof (rule nth_equalityI)
    fix i assume i: "i < length (blk_bytes img E (unat blk))"
    have "img E (unat (blk * ucast spb) * unat (sector_size D) + i) = b ! i"
      using w E that i spb by (intro write_data [OF ok]) (simp_all add: spb_ok_def)
    then show "blk_bytes img E (unat blk) ! i = b ! i"
      using i by (simp add: blk_bytes_def off)
  qed (simp add: that)
  ultimately show thesis using E that by blast
qed

lemma block_read:
  assumes ok: "ok D" and spb: "spb_ok D spb" and blk: "unat blk < 2 ^ 52"
    and r: "blk_read (Some D) (blk * ucast spb) spb (Some b) = (rc, b', D')"
  obtains E c where "D' = Some E" "ok E" "same_geometry D E" "img E = img D"
    "b' = Some c" "length c = length b"
    "rc = BLK_OK \<Longrightarrow> length b = 4096 \<Longrightarrow> c = blk_bytes img D (unat blk)"
proof -
  from read_state [OF ok r] obtain E c where E: "D' = Some E" "ok E" "same_geometry D E" "img E = img D"
    "b' = Some c" "length c = length b" by blast
  have off: "unat (blk * ucast spb) * unat (sector_size D) = unat blk * 4096"
    using spb by (simp add: block_lba [OF spb blk] spb_ok_def mult.assoc)
  have "c = blk_bytes img D (unat blk)" if "rc = BLK_OK" "length b = 4096"
    using read_data [OF ok, of "blk * ucast spb" spb b b' D'] r that spb E
    by (simp add: spb_ok_def off blk_bytes_def)
  with E that show thesis by blast
qed

end

context blk_reliable
begin

lemma block_io_succeeds:
  assumes ok: "ok D" and spb: "spb_ok D spb" and blk: "unat blk < 2 ^ 52"
    and fits: "unat blk * unat spb + unat spb \<le> unat (sector_count D)"
  shows "fst (blk_read (Some D) (blk * ucast spb) spb (Some b)) = BLK_OK"
    and "fst (blk_write (Some D) (blk * ucast spb) spb (Some b)) = BLK_OK"
proof -
  have "spb \<noteq> 0" using spb_ok_bound [OF spb] by auto
  then show "fst (blk_read (Some D) (blk * ucast spb) spb (Some b)) = BLK_OK"
    and "fst (blk_write (Some D) (blk * ucast spb) spb (Some b)) = BLK_OK"
    using fits by (auto intro!: read_succeeds write_succeeds ok simp: block_lba [OF spb blk])
qed

end

section \<open>Reading back what was written\<close>

text \<open>On any medium that keeps the contract, a read of sectors just written returns the buffer,
  and a read of other sectors returns what it would have returned before.\<close>

context blk_reliable
begin

lemma write_then_read:
  assumes "ok D" "count \<noteq> 0" "unat lba + unat count \<le> unat (sector_count D)"
    and "length b = unat count * unat (sector_size D)" "length b' = length b"
  shows "\<exists>E F. blk_write (Some D) lba count (Some b) = (BLK_OK, Some E) \<and>
           blk_read (Some E) lba count (Some b') = (BLK_OK, Some b, Some F) \<and>
           (\<forall>i. i \<notin> req_span D lba count \<longrightarrow> img F i = img D i)"
proof -
  obtain rc D' where w: "blk_write (Some D) lba count (Some b) = (rc, D')" by fastforce
  have rc: "rc = BLK_OK" using write_succeeds [OF assms(1-3), of b] w by simp
  from write_state [OF assms(1) w] obtain E where E: "D' = Some E" "ok E" "same_geometry D E"
    and frame: "\<forall>i. i \<notin> req_span D lba count \<longrightarrow> img E i = img D i" by blast
  obtain rc2 c D2 where r: "blk_read (Some E) lba count (Some b') = (rc2, c, D2)"
    by (metis prod_cases3)
  have rc2: "rc2 = BLK_OK"
    using read_succeeds [OF E(2) assms(2), of lba b'] assms(3) E(3) r
    by (simp add: same_geometry_def)
  from read_state [OF E(2) r] obtain F where F: "D2 = Some F" "img F = img E" by blast
  have "c = Some (map (\<lambda>i. img E (unat lba * unat (sector_size E) + i)) [0..<length b'])"
    using read_data [OF E(2)] r rc2 assms(4,5) E(3) by (simp add: same_geometry_def)
  also have "\<dots> = Some b"
    using write_data [OF assms(1), of lba count b E] w rc E assms(4,5)
    by (auto simp: same_geometry_def intro!: nth_equalityI)
  finally show ?thesis using w r rc rc2 E F frame by auto
qed

end

section \<open>Properties\<close>

text \<open>C34. On the RAM disk, an in-range write succeeds, reading the same sectors back returns the
  buffer that was written, and every byte outside those sectors keeps its value.\<close>

theorem ramdisk_write_read:
  assumes "ram_ok D" "count \<noteq> 0" "unat lba + unat count \<le> unat (sector_count D)"
    and "length b = unat count * unat (sector_size D)" "length b' = length b"
  shows "\<exists>E F. blk_write (Some D) lba count (Some b) = (BLK_OK, Some E) \<and>
           blk_read (Some E) lba count (Some b') = (BLK_OK, Some b, Some F) \<and>
           (\<forall>i. i \<notin> req_span D lba count \<longrightarrow> ram_img F i = ram_img D i)"
  by (rule ram.write_then_read [OF assms])

text \<open>A zeroed RAM disk with sectors of 512 bytes, as \<open>ramdisk_init\<close> leaves it.\<close>

definition ram_sample :: "nat \<Rightarrow> u64 \<Rightarrow> RamDisk BlkDev" where
  "ram_sample n secs = \<lparr>ctx = \<lparr>rd_mem = replicate n 0, rd_sector_size = 512, rd_sector_count = secs\<rparr>,
     ops = Some rd_ops, sector_size = 512, sector_count = secs\<rparr>"

lemma ram_sample_ok: "n = unat secs * 512 \<Longrightarrow> n < 2 ^ 64 \<Longrightarrow> ram_ok (ram_sample n secs)"
  by (simp add: ram_ok_def ram_sample_def)

theorem ramdisk_write_read_witness:
  "\<exists>E F. blk_write (Some (ram_sample 4096 8)) 3 1 (Some (replicate 512 9)) = (BLK_OK, Some E) \<and>
     blk_read (Some E) 3 1 (Some (replicate 512 0)) = (BLK_OK, Some (replicate 512 9), Some F) \<and>
     (\<forall>i. i \<notin> req_span (ram_sample 4096 8) 3 1 \<longrightarrow> ram_img F i = ram_img (ram_sample 4096 8) i)"
  by (rule ramdisk_write_read) (simp_all add: ram_sample_ok, simp_all add: ram_sample_def)

end
