(* ===== verification/Sb.thy ===== *)
theory Sb
  imports Xasmos_Prelude
begin

text \<open>
  The EXFS superblock encoding of \<open>source/core/exfs/sb.c\<close> and \<open>sb.h\<close>, with the layout
  constants of \<open>exfs.h\<close> and \<open>gmap.h\<close> it checks. A page is a list of 4096 bytes; the encoder
  and the decoder return the page or the fields they write beside their return code.

  The lemmas show that decoding inverts encoding and that the FNV-1a checksum rejects every
  change of a single byte.
\<close>

section \<open>Constants and data\<close>

abbreviation EXFS_BLOCK :: nat where "EXFS_BLOCK \<equiv> 4096"
abbreviation EXFS_MAX_BLOCKS :: u64 where "EXFS_MAX_BLOCKS \<equiv> 16777216"
abbreviation EXFS_INODES :: nat where "EXFS_INODES \<equiv> 128"
abbreviation EXFS_ITAB_BLOCKS :: nat where "EXFS_ITAB_BLOCKS \<equiv> 8"
abbreviation EXFS_ITAB_AREA0 :: u64 where "EXFS_ITAB_AREA0 \<equiv> 2"
abbreviation EXFS_ITAB_AREA1 :: u64 where "EXFS_ITAB_AREA1 \<equiv> 10"
abbreviation EXFS_DATA_START :: u64 where "EXFS_DATA_START \<equiv> 18"
abbreviation SB_VERSION :: u32 where "SB_VERSION \<equiv> 3"
abbreviation SB_MAX_GROUPS :: nat where "SB_MAX_GROUPS \<equiv> 512"
abbreviation SB_CHECK_OFF :: nat where "SB_CHECK_OFF \<equiv> 4088"

abbreviation SB_OK :: int where "SB_OK \<equiv> 0"
abbreviation SB_EBAD :: int where "SB_EBAD \<equiv> -1"
abbreviation SB_ECHECK :: int where "SB_ECHECK \<equiv> -2"
abbreviation SB_EFIELD :: int where "SB_EFIELD \<equiv> -3"

record SbFields =
  sb_gen :: u64
  sb_itab :: u64
  sb_nitab :: u32
  sb_ninodes :: u32
  sb_total :: u64
  sb_ngroups :: u32
  sb_slot :: bytes
  sb_free :: "u32 list"

definition MAGIC :: bytes where "MAGIC = cs ''XASMFS2'' @ [NUL]"

section \<open>Encoding\<close>

definition fnv_step :: "u64 \<Rightarrow> u8 \<Rightarrow> u64" where
  "fnv_step h b = (h XOR ucast b) * 1099511628211"

definition fnv64 :: "bytes \<Rightarrow> nat \<Rightarrow> u64" where
  "fnv64 p n = foldl (\<lambda>h i. fnv_step h (p ! i)) 14695981039346656037 [0..<n]"

definition fields_ok :: "SbFields \<Rightarrow> bool" where
  "fields_ok f \<longleftrightarrow>
     \<not> (sb_ngroups f = 0 \<or> sb_ngroups f > 512) \<and>
     \<not> (sb_itab f \<noteq> EXFS_ITAB_AREA0 \<and> sb_itab f \<noteq> EXFS_ITAB_AREA1) \<and>
     sb_nitab f = 8 \<and>
     sb_ninodes f = 128 \<and>
     \<not> (sb_total f < EXFS_DATA_START + 16 \<or> sb_total f > EXFS_MAX_BLOCKS) \<and>
     sb_itab f = (if sb_gen f AND 1 \<noteq> 0 then EXFS_ITAB_AREA1 else EXFS_ITAB_AREA0) \<and>
     (\<forall>g < unat (sb_ngroups f). \<not> sb_slot f ! g > 1) \<and>
     (\<forall>g < SB_MAX_GROUPS. unat (sb_ngroups f) \<le> g \<longrightarrow> sb_slot f ! g = 0 \<and> sb_free f ! g = 0)"

definition sb_header :: "bytes \<Rightarrow> SbFields \<Rightarrow> bytes" where
  "sb_header page f =
     (let p = fill_bytes page 0 EXFS_BLOCK 0;
          p = copy_bytes p 0 MAGIC 0 8;
          p = put32 p 8 SB_VERSION;
          p = put64 p 16 (sb_gen f);
          p = put64 p 24 (sb_itab f);
          p = put32 p 32 (sb_nitab f);
          p = put32 p 36 (sb_ninodes f);
          p = put64 p 40 (sb_total f)
      in put32 p 48 (sb_ngroups f))"

definition sb_tables :: "bytes \<Rightarrow> SbFields \<Rightarrow> nat \<Rightarrow> bytes" where
  "sb_tables page f n =
     fold (\<lambda>g p. put32 (p[64 + g := sb_slot f ! g]) (576 + g * 4) (sb_free f ! g)) [0..<n] page"

definition sb_encode :: "bytes \<Rightarrow> SbFields \<Rightarrow> int \<times> bytes" where
  "sb_encode page f =
     (if \<not> fields_ok f then (SB_EFIELD, page)
      else (let p = sb_tables (sb_header page f) f SB_MAX_GROUPS
            in (SB_OK, put64 p SB_CHECK_OFF (fnv64 p SB_CHECK_OFF))))"

definition sb_decode :: "bytes \<Rightarrow> SbFields \<Rightarrow> int \<times> SbFields" where
  "sb_decode page f =
     (if \<exists>i < 8. page ! i \<noteq> MAGIC ! i then (SB_EBAD, f)
      else if get32 page 8 \<noteq> SB_VERSION then (SB_EBAD, f)
      else if get64 page SB_CHECK_OFF \<noteq> fnv64 page SB_CHECK_OFF then (SB_ECHECK, f)
      else (let f' = \<lparr>sb_gen = get64 page 16, sb_itab = get64 page 24,
                      sb_nitab = get32 page 32, sb_ninodes = get32 page 36,
                      sb_total = get64 page 40, sb_ngroups = get32 page 48,
                      sb_slot = copy_bytes (sb_slot f) 0 page 64 SB_MAX_GROUPS,
                      sb_free = fold (\<lambda>g fr. fr[g := get32 page (576 + g * 4)])
                                  [0..<SB_MAX_GROUPS] (sb_free f)\<rparr>
            in (if fields_ok f' then SB_OK else SB_EFIELD, f')))"

section \<open>Round trip\<close>

definition sb_shape :: "SbFields \<Rightarrow> bool" where
  "sb_shape f \<longleftrightarrow> length (sb_slot f) = SB_MAX_GROUPS \<and> length (sb_free f) = SB_MAX_GROUPS"

lemma length_sb_header [simp]: "length (sb_header page f) = length page"
  by (simp add: sb_header_def Let_def)

lemma length_sb_tables [simp]: "length (sb_tables page f n) = length page"
  unfolding sb_tables_def by (induction n) simp_all

lemma sb_tables_Suc:
  "sb_tables page f (Suc n) =
     put32 ((sb_tables page f n)[64 + n := sb_slot f ! n]) (576 + n * 4) (sb_free f ! n)"
  by (simp add: sb_tables_def)

lemma sb_tables_outside:
  "n \<le> 512 \<Longrightarrow> i < 64 \<or> 2624 \<le> i \<Longrightarrow> sb_tables page f n ! i = page ! i"
proof (induction n)
  case (Suc n)
  then have "i < 576 + n * 4 \<or> 576 + n * 4 + 4 \<le> i" "i \<noteq> 64 + n" by auto
  with Suc show ?case by (simp add: sb_tables_Suc nth_put32_other)
qed (simp add: sb_tables_def)

lemma sb_tables_slot:
  "n \<le> 512 \<Longrightarrow> length page = EXFS_BLOCK \<Longrightarrow> g < n \<Longrightarrow> sb_tables page f n ! (64 + g) = sb_slot f ! g"
proof (induction n)
  case (Suc n)
  have "64 + g < 576 + n * 4" using Suc.prems by simp
  with Suc show ?case
    by (cases "g = n") (simp_all add: sb_tables_Suc nth_put32_other)
qed simp

lemma sb_tables_free:
  "n \<le> 512 \<Longrightarrow> length page = EXFS_BLOCK \<Longrightarrow> g < n \<Longrightarrow>
     get32 (sb_tables page f n) (576 + g * 4) = sb_free f ! g"
proof (induction n)
  case (Suc n)
  show ?case
  proof (cases "g = n")
    case True
    with Suc.prems show ?thesis by (simp add: sb_tables_Suc get32_put32_same)
  next
    case False
    with Suc.prems have "g < n" by simp
    with Suc show ?thesis
      by (simp add: sb_tables_Suc get32_put32_other get32_list_update_other)
  qed
qed simp

lemma sb_tables_get32:
  "n \<le> 512 \<Longrightarrow> off + 4 \<le> 64 \<Longrightarrow> get32 (sb_tables page f n) off = get32 page off"
  by (rule get32_cong) (simp add: sb_tables_outside)

lemma sb_tables_get64:
  "n \<le> 512 \<Longrightarrow> off + 8 \<le> 64 \<Longrightarrow> get64 (sb_tables page f n) off = get64 page off"
  by (rule get64_cong) (simp add: sb_tables_outside)

lemma sb_header_fields:
  assumes "length page = EXFS_BLOCK"
  shows "get32 (sb_header page f) 8 = SB_VERSION"
    and "get64 (sb_header page f) 16 = sb_gen f" and "get64 (sb_header page f) 24 = sb_itab f"
    and "get32 (sb_header page f) 32 = sb_nitab f" and "get32 (sb_header page f) 36 = sb_ninodes f"
    and "get64 (sb_header page f) 40 = sb_total f" and "get32 (sb_header page f) 48 = sb_ngroups f"
  using assms by (simp_all add: sb_header_def Let_def le_simps)

lemma sb_header_magic:
  assumes "length page = EXFS_BLOCK" "i < 8"
  shows "sb_header page f ! i = MAGIC ! i"
  using assms
  by (simp add: sb_header_def Let_def nth_put32_other nth_put64_other nth_copy_bytes)

lemma fnv64_cong: "(\<And>i. i < n \<Longrightarrow> p ! i = q ! i) \<Longrightarrow> fnv64 p n = fnv64 q n"
  unfolding fnv64_def by (rule foldl_cong) simp_all

lemma sb_roundtrip_aux:
  assumes "length page = EXFS_BLOCK" "sb_shape f" "sb_shape f0" "fields_ok f"
  shows "sb_decode (snd (sb_encode page f)) f0 = (SB_OK, f)"
proof -
  let ?t = "sb_tables (sb_header page f) f SB_MAX_GROUPS"
  let ?p = "put64 ?t SB_CHECK_OFF (fnv64 ?t SB_CHECK_OFF)"
  have p: "snd (sb_encode page f) = ?p" using assms by (simp add: sb_encode_def Let_def)
  have below: "?p ! i = ?t ! i" if "i < SB_CHECK_OFF" for i
    using that by (simp add: nth_put64_other)
  have g32: "get32 ?p off = get32 ?t off" if "off + 4 \<le> SB_CHECK_OFF" for off
    using that by (intro get32_cong) (simp add: below)
  have g64: "get64 ?p off = get64 ?t off" if "off + 8 \<le> SB_CHECK_OFF" for off
    using that by (intro get64_cong) (simp add: below)
  have chk: "get64 ?p SB_CHECK_OFF = fnv64 ?p SB_CHECK_OFF"
    using assms(1) fnv64_cong [of SB_CHECK_OFF ?p ?t] below by (simp add: get64_put64_same)
  have mg: "?p ! i = MAGIC ! i" if "i < 8" for i
    using that assms(1) by (simp add: below sb_tables_outside sb_header_magic)
  have slot: "copy_bytes (sb_slot f0) 0 ?p 64 SB_MAX_GROUPS = sb_slot f"
    using assms(1-3) by (intro nth_equalityI)
      (simp_all add: sb_shape_def nth_copy_bytes below sb_tables_slot)
  have free: "fold (\<lambda>g fr. fr[g := get32 ?p (576 + g * 4)]) [0..<SB_MAX_GROUPS] (sb_free f0) = sb_free f"
    using assms(1-3) by (intro nth_equalityI)
      (simp_all add: sb_shape_def nth_fold_update g32 sb_tables_free)
  have rec: "\<lparr>sb_gen = sb_gen f, sb_itab = sb_itab f, sb_nitab = sb_nitab f,
      sb_ninodes = sb_ninodes f, sb_total = sb_total f, sb_ngroups = sb_ngroups f,
      sb_slot = sb_slot f, sb_free = sb_free f\<rparr> = f" by simp
  show ?thesis
    using assms chk mg unfolding p sb_decode_def slot free
    by (simp add: rec g32 g64 sb_tables_get32 sb_tables_get64 sb_header_fields Let_def)
qed

section \<open>The checksum\<close>

text \<open>The FNV prime is odd, so it has an inverse modulo \<open>2 ^ 64\<close>.\<close>

lemma fnv_prime_cancel:
  assumes "(x :: u64) * 1099511628211 = y * 1099511628211"
  shows "x = y"
proof -
  have inv: "(1099511628211 :: u64) * 14886173955864302971 = 1" by simp
  have "x * 1099511628211 * 14886173955864302971 = y * 1099511628211 * 14886173955864302971"
    by (simp only: assms)
  then show ?thesis by (simp only: mult.assoc inv mult_1_right)
qed

lemma fnv_step_inj1: "fnv_step h b = fnv_step h' b \<longleftrightarrow> h = h'"
proof
  assume "fnv_step h b = fnv_step h' b"
  then have "h XOR ucast b = h' XOR ucast b" unfolding fnv_step_def by (rule fnv_prime_cancel)
  then have "(h XOR ucast b) XOR ucast b = (h' XOR ucast b) XOR ucast b" by simp
  then show "h = h'" by (simp add: xor.assoc)
qed simp

lemma fnv_step_inj2: "fnv_step h b = fnv_step h b' \<longleftrightarrow> b = b'"
proof
  assume "fnv_step h b = fnv_step h b'"
  then have "h XOR ucast b = h XOR ucast b'" unfolding fnv_step_def by (rule fnv_prime_cancel)
  then have "h XOR (h XOR ucast b) = h XOR (h XOR ucast b')" by simp
  then have "(ucast b :: u64) = ucast b'" by (simp add: xor.assoc [symmetric])
  then have "unat (ucast b :: u64) = unat (ucast b' :: u64)" by simp
  then show "b = b'" by (simp add: word_unat_eq_iff)
qed simp

lemma fnv_fold_inj:
  "foldl (\<lambda>h i. fnv_step h (p ! i)) h is = foldl (\<lambda>h i. fnv_step h (p ! i)) h' is \<longleftrightarrow> h = h'"
  by (induction "is" arbitrary: h h') (simp_all add: fnv_step_inj1)

lemma fnv64_change:
  assumes "k < n" "n \<le> length p" "c \<noteq> p ! k"
  shows "fnv64 (p[k := c]) n \<noteq> fnv64 p n"
proof -
  let ?F = "\<lambda>p h i. fnv_step h (p ! i)"
  have split: "[0..<n] = [0..<k] @ k # [Suc k..<n]"
    using assms(1) upt_add_eq_append [of 0 k "n - k"] by (simp add: upt_conv_Cons)
  have pre: "foldl (?F (p[k := c])) h [0..<k] = foldl (?F p) h [0..<k]" for h
    by (rule foldl_cong) simp_all
  have post: "foldl (?F (p[k := c])) h [Suc k..<n] = foldl (?F p) h [Suc k..<n]" for h
    by (rule foldl_cong) simp_all
  show ?thesis
    using assms unfolding fnv64_def split by (simp add: pre post fnv_fold_inj fnv_step_inj2)
qed

text \<open>A page with one byte changed still fails the comparison, whether the byte is in the
  checksummed part or in the stored checksum.\<close>

lemma checksum_change:
  assumes "length p = EXFS_BLOCK" "k < EXFS_BLOCK" "c \<noteq> p ! k"
    and "get64 p SB_CHECK_OFF = fnv64 p SB_CHECK_OFF"
  shows "get64 (p[k := c]) SB_CHECK_OFF \<noteq> fnv64 (p[k := c]) SB_CHECK_OFF"
proof (cases "k < SB_CHECK_OFF")
  case True
  then have "get64 (p[k := c]) SB_CHECK_OFF = get64 p SB_CHECK_OFF"
    by (simp add: get64_list_update_other)
  with True assms fnv64_change [of k SB_CHECK_OFF p c] show ?thesis by simp
next
  case False
  then have "fnv64 (p[k := c]) SB_CHECK_OFF = fnv64 p SB_CHECK_OFF"
    by (intro fnv64_cong) simp
  moreover have "get64 (p[k := c]) SB_CHECK_OFF \<noteq> get64 p SB_CHECK_OFF"
    using False assms get64_nth_cong [of "p[k := c]" SB_CHECK_OFF p k] by auto
  ultimately show ?thesis using assms(4) by simp
qed

lemma sb_decode_ok_iff:
  "fst (sb_decode page f) = SB_OK \<Longrightarrow> get64 page SB_CHECK_OFF = fnv64 page SB_CHECK_OFF"
  by (auto simp: sb_decode_def split: if_splits)

lemma sb_decode_ok_fields: "sb_decode page f = (SB_OK, f') \<Longrightarrow> fields_ok f'"
  by (auto simp: sb_decode_def Let_def split: if_splits)

lemma sb_decode_shape: "sb_decode page f = (rc, f') \<Longrightarrow> sb_shape f \<Longrightarrow> sb_shape f'"
  by (auto simp: sb_decode_def Let_def sb_shape_def split: if_splits)

section \<open>Properties\<close>

text \<open>C14. Encoding then decoding a superblock gives back exactly the fields that were
  encoded, for every field value the encoder accepts and whatever the page held before.\<close>

theorem sb_roundtrip:
  assumes "length page = EXFS_BLOCK" and "sb_shape f" and "sb_shape f0" and "fields_ok f"
  shows "fst (sb_encode page f) = SB_OK \<and> sb_decode (snd (sb_encode page f)) f0 = (SB_OK, f)"
  using assms sb_roundtrip_aux [OF assms] by (simp add: sb_encode_def Let_def)

definition sb_sample :: SbFields where
  "sb_sample = \<lparr>sb_gen = 5, sb_itab = 10, sb_nitab = 8, sb_ninodes = 128, sb_total = 100,
     sb_ngroups = 1, sb_slot = 1 # replicate 511 0, sb_free = 64 # replicate 511 0\<rparr>"

lemma sb_sample_ok: "sb_shape sb_sample" "fields_ok sb_sample"
  by (auto simp: sb_sample_def sb_shape_def fields_ok_def nth_Cons')

theorem sb_roundtrip_witness:
  "fst (sb_encode (replicate 4096 0) sb_sample) = SB_OK \<and>
   sb_decode (snd (sb_encode (replicate 4096 0) sb_sample)) sb_sample = (SB_OK, sb_sample)"
  by (rule sb_roundtrip) (simp_all add: sb_sample_ok)

text \<open>C15. A superblock page that decodes successfully is rejected after any change of one of
  its bytes, wherever the byte lies: the checksum detects every single-byte corruption.\<close>

theorem sb_detects_corruption:
  assumes "length page = EXFS_BLOCK" and "fst (sb_decode page f) = SB_OK"
    and "k < EXFS_BLOCK" and "c \<noteq> page ! k"
  shows "fst (sb_decode (page[k := c]) f) \<in> {SB_EBAD, SB_ECHECK}"
proof -
  have "get64 (page[k := c]) SB_CHECK_OFF \<noteq> fnv64 (page[k := c]) SB_CHECK_OFF"
    using assms by (intro checksum_change sb_decode_ok_iff) auto
  then show ?thesis by (simp add: sb_decode_def)
qed

theorem sb_detects_corruption_witness:
  "fst (sb_decode ((snd (sb_encode (replicate 4096 0) sb_sample))[40 := 7]) sb_sample)
     \<in> {SB_EBAD, SB_ECHECK}"
proof (rule sb_detects_corruption)
  let ?p = "snd (sb_encode (replicate 4096 0) sb_sample)"
  have dec: "sb_decode ?p sb_sample = (SB_OK, sb_sample)"
    by (rule sb_roundtrip_aux) (simp_all add: sb_sample_ok)
  then show "fst (sb_decode ?p sb_sample) = SB_OK" by simp
  show "length ?p = EXFS_BLOCK" by (simp add: sb_encode_def Let_def sb_sample_ok)
  have "get64 ?p 40 = 100"
    using dec by (auto simp: sb_decode_def Let_def sb_sample_def split: if_splits)
  then show "7 \<noteq> ?p ! 40"
    using get64_byte0 [of ?p 40] by auto
qed simp

end
