(* ===== verification/Gmap.thy ===== *)
theory Gmap
  imports Blk Sb
begin

text \<open>
  The group map of \<open>source/core/exfs/gmap.c\<close>: the free-block bitmap of a volume, kept on disk
  in two slots per group and cached in memory.

  \<open>GMap\<close> is the struct of \<open>gmap.h\<close> without its device pointer: the device is passed beside
  it, because the file system holds the same device and writes to it between calls. A cache
  entry pointer is the index of the entry. Group numbers keep their width; bit positions
  inside a group, at most 32768, are natural numbers.

  The lemmas relate the cached, two-slot representation to the bitmap it stands for
  (\<open>cur_bits\<close>), on every medium that keeps the contract \<open>blk_medium\<close>: loading and evicting
  groups never changes the bitmap, taking and releasing blocks change exactly those blocks,
  and no operation before \<open>gmap_commit\<close> writes anything but pending slots.
\<close>

section \<open>Data\<close>

record GMapEntry =
  ge_bits :: bytes
  ge_g :: u32
  ge_valid :: bool
  ge_dirty :: bool
  ge_stamp :: u32

record GMap =
  gm_spb :: u32
  gm_total :: u64
  gm_gb :: u32
  gm_ngroups :: u32
  gm_slot :: bytes
  gm_written :: "bool list"
  gm_free :: "u32 list"
  gm_cache :: "GMapEntry list"
  gm_clock :: u32

abbreviation GMAP_MAX_GROUPS :: nat where "GMAP_MAX_GROUPS \<equiv> 512"
abbreviation GMAP_CACHE :: nat where "GMAP_CACHE \<equiv> 8"
abbreviation GMAP_GROUP_MAX :: u32 where "GMAP_GROUP_MAX \<equiv> 32768"
abbreviation GMAP_GROUP_MIN :: u32 where "GMAP_GROUP_MIN \<equiv> 64"

abbreviation GMAP_OK :: int where "GMAP_OK \<equiv> 0"
abbreviation GMAP_EIO :: int where "GMAP_EIO \<equiv> -1"
abbreviation GMAP_ENOSPC :: int where "GMAP_ENOSPC \<equiv> -2"
abbreviation GMAP_EUSED :: int where "GMAP_EUSED \<equiv> -3"

section \<open>Slots and group bitmaps\<close>

definition slot_block :: "GMap \<Rightarrow> u32 \<Rightarrow> u8 \<Rightarrow> u64" where
  "slot_block m g s = (if g = 0 then EXFS_DATA_START else ucast g * ucast (gm_gb m)) + ucast s"

definition valid_bits :: "GMap \<Rightarrow> u32 \<Rightarrow> u32" where
  "valid_bits m g =
     (let lo = ucast g * ucast (gm_gb m) :: u64; n = gm_total m - lo
      in if n < ucast (gm_gb m) then ucast n else gm_gb m)"

definition gwrite :: "GMap \<Rightarrow> 'd BlkDev \<Rightarrow> u32 \<Rightarrow> u8 \<Rightarrow> bytes \<Rightarrow> int \<times> 'd BlkDev" where
  "gwrite m D g s bits =
     (let blk = slot_block m g s;
          (rc, D') = blk_write (Some D) (blk * ucast (gm_spb m)) (gm_spb m) (Some bits)
      in (if rc = BLK_OK then GMAP_OK else GMAP_EIO, the D'))"

definition gread :: "GMap \<Rightarrow> 'd BlkDev \<Rightarrow> u32 \<Rightarrow> u8 \<Rightarrow> bytes \<Rightarrow> int \<times> bytes \<times> 'd BlkDev" where
  "gread m D g s bits =
     (let blk = slot_block m g s;
          (rc, b, D') = blk_read (Some D) (blk * ucast (gm_spb m)) (gm_spb m) (Some bits)
      in (if rc = BLK_OK then GMAP_OK else GMAP_EIO, the b, the D'))"

definition fresh_bits :: "GMap \<Rightarrow> u32 \<Rightarrow> bytes \<Rightarrow> u32 \<times> bytes" where
  "fresh_bits m g bits =
     (let bits = fill_bytes bits 0 EXFS_BLOCK 0;
          reserved = (if g = 0 then 20 else 2);
          valid = unat (valid_bits m g);
          bits = fold (\<lambda>i b. bit_put b i True) [0..<reserved] bits
      in fold (\<lambda>i (free, b). if i \<ge> valid then (free, bit_put b i True)
                             else if \<not> bit_of b i then (free + 1, b) else (free, b))
           [0..<unat (gm_gb m)] (0, bits))"

section \<open>Life cycle\<close>

definition drop_cache :: "GMapEntry list \<Rightarrow> GMapEntry list" where
  "drop_cache es = map (\<lambda>e. e\<lparr>ge_valid := False\<rparr>) es"

definition gmap_init ::
  "GMap option \<Rightarrow> 'd BlkDev option \<Rightarrow> u64 \<Rightarrow> u32 \<Rightarrow> int \<times> GMap option" where
  "gmap_init m d tot group_blocks =
     (if m = None \<or> d = None then (GMAP_EIO, m)
      else if group_blocks < GMAP_GROUP_MIN \<or> group_blocks > GMAP_GROUP_MAX then (GMAP_EIO, m)
      else if group_blocks AND (group_blocks - 1) \<noteq> 0 then (GMAP_EIO, m)
      else (let ng = (tot + ucast group_blocks - 1) div ucast group_blocks in
        if ng = 0 \<or> ng > 512 then (GMAP_EIO, m)
        else (let ss = blk_sector_size d in
          if ss = 0 \<or> 4096 mod ss \<noteq> 0 then (GMAP_EIO, m)
          else (GMAP_OK, Some ((the m)\<lparr>gm_spb := 4096 div ss, gm_total := tot,
                  gm_gb := group_blocks, gm_ngroups := ucast ng, gm_clock := 0,
                  gm_slot := fill_bytes (gm_slot (the m)) 0 GMAP_MAX_GROUPS 0,
                  gm_written := fill_bytes (gm_written (the m)) 0 GMAP_MAX_GROUPS False,
                  gm_free := fill_bytes (gm_free (the m)) 0 GMAP_MAX_GROUPS 0,
                  gm_cache := drop_cache (gm_cache (the m))\<rparr>)))))"

fun format_loop :: "GMap \<Rightarrow> 'd BlkDev \<Rightarrow> bytes \<Rightarrow> nat list \<Rightarrow> int \<times> GMap \<times> 'd BlkDev" where
  "format_loop m D bits [] = (GMAP_OK, m, D)"
| "format_loop m D bits (g # gs) =
     (let (free, bits) = fresh_bits m (of_nat g) bits;
          m = m\<lparr>gm_free := (gm_free m)[g := free]\<rparr>;
          (rc, D) = gwrite m D (of_nat g) 0 bits
      in if rc \<noteq> GMAP_OK then (GMAP_EIO, m, D)
         else format_loop (m\<lparr>gm_slot := (gm_slot m)[g := 0],
                             gm_written := (gm_written m)[g := False]\<rparr>) D bits gs)"

definition gmap_format :: "GMap \<Rightarrow> 'd BlkDev \<Rightarrow> bytes \<Rightarrow> int \<times> GMap \<times> 'd BlkDev" where
  "gmap_format m D bits =
     (let (rc, m, D) = format_loop m D bits [0..<unat (gm_ngroups m)]
      in if rc \<noteq> GMAP_OK then (GMAP_EIO, m, D)
         else (GMAP_OK, m\<lparr>gm_cache := drop_cache (gm_cache m)\<rparr>, D))"

definition gmap_import :: "GMap \<Rightarrow> bytes \<Rightarrow> u32 list \<Rightarrow> GMap" where
  "gmap_import m slot free =
     (let m = fold (\<lambda>g m. m\<lparr>gm_slot := (gm_slot m)[g := if slot ! g \<noteq> 0 then 1 else 0],
                           gm_written := (gm_written m)[g := False],
                           gm_free := (gm_free m)[g := free ! g]\<rparr>)
                [0..<unat (gm_ngroups m)] m
      in m\<lparr>gm_cache := drop_cache (gm_cache m)\<rparr>)"

section \<open>The cache\<close>

definition set_entry :: "GMap \<Rightarrow> nat \<Rightarrow> GMapEntry \<Rightarrow> GMap" where
  "set_entry m i e = m\<lparr>gm_cache := (gm_cache m)[i := e]\<rparr>"

definition flush_one :: "GMap \<Rightarrow> 'd BlkDev \<Rightarrow> nat \<Rightarrow> int \<times> GMap \<times> 'd BlkDev" where
  "flush_one m D i =
     (let e = gm_cache m ! i;
          s = 1 - gm_slot m ! unat (ge_g e);
          (rc, D) = gwrite m D (ge_g e) s (ge_bits e)
      in if rc \<noteq> GMAP_OK then (GMAP_EIO, m, D)
         else (GMAP_OK, set_entry (m\<lparr>gm_written := (gm_written m)[unat (ge_g e) := True]\<rparr>) i
                          (e\<lparr>ge_dirty := False\<rparr>), D))"

fun find_entry :: "GMapEntry list \<Rightarrow> u32 \<Rightarrow> nat option" where
  "find_entry [] g = None"
| "find_entry (e # es) g =
     (if ge_valid e \<and> ge_g e = g then Some 0 else map_option Suc (find_entry es g))"

text \<open>The victim scan: the first invalid entry, else the first with the smallest stamp. \<open>v\<close> is
  the candidate so far, with its stamp.\<close>

fun pick_victim :: "GMapEntry list \<Rightarrow> nat \<Rightarrow> (nat \<times> u32) option \<Rightarrow> nat option" where
  "pick_victim [] i v = map_option fst v"
| "pick_victim (e # es) i v =
     (if \<not> ge_valid e then Some i
      else pick_victim es (Suc i)
             (if v = None \<or> ge_stamp e < snd (the v) then Some (i, ge_stamp e) else v))"

definition load :: "GMap \<Rightarrow> 'd BlkDev \<Rightarrow> u32 \<Rightarrow> nat option \<times> GMap \<times> 'd BlkDev" where
  "load m D g =
     (case find_entry (gm_cache m) g of
        Some i \<Rightarrow> (let c = gm_clock m + 1
                   in (Some i, set_entry (m\<lparr>gm_clock := c\<rparr>) i ((gm_cache m ! i)\<lparr>ge_stamp := c\<rparr>), D))
      | None \<Rightarrow>
          (let v = the (pick_victim (gm_cache m) 0 None);
               e = gm_cache m ! v;
               (rc, m, D) = (if ge_valid e \<and> ge_dirty e then flush_one m D v else (GMAP_OK, m, D));
               e = gm_cache m ! v
           in if rc \<noteq> GMAP_OK then (None, set_entry m v (e\<lparr>ge_valid := False\<rparr>), D)
              else (let src = (if gm_written m ! unat g then 1 - gm_slot m ! unat g
                               else gm_slot m ! unat g);
                        (rc, bits, D) = gread m D g src (ge_bits e);
                        e = e\<lparr>ge_bits := bits\<rparr>
                    in if rc \<noteq> GMAP_OK then (None, set_entry m v (e\<lparr>ge_valid := False\<rparr>), D)
                       else (let c = gm_clock m + 1
                             in (Some v, set_entry (m\<lparr>gm_clock := c\<rparr>) v
                                   (e\<lparr>ge_g := g, ge_valid := True, ge_dirty := False,
                                      ge_stamp := c\<rparr>), D)))))"

fun flush_loop :: "GMap \<Rightarrow> 'd BlkDev \<Rightarrow> nat list \<Rightarrow> int \<times> GMap \<times> 'd BlkDev" where
  "flush_loop m D [] = (GMAP_OK, m, D)"
| "flush_loop m D (i # is) =
     (if ge_valid (gm_cache m ! i) \<and> ge_dirty (gm_cache m ! i)
      then (let (rc, m, D) = flush_one m D i
            in if rc \<noteq> GMAP_OK then (GMAP_EIO, m, D) else flush_loop m D is)
      else flush_loop m D is)"

definition gmap_flush :: "GMap \<Rightarrow> 'd BlkDev \<Rightarrow> int \<times> GMap \<times> 'd BlkDev" where
  "gmap_flush m D = flush_loop m D [0..<GMAP_CACHE]"

definition pending_slot :: "GMap \<Rightarrow> nat \<Rightarrow> u8" where
  "pending_slot m g = (if gm_written m ! g then 1 - gm_slot m ! g else gm_slot m ! g)"

definition gmap_export :: "GMap \<Rightarrow> bytes \<Rightarrow> u32 list \<Rightarrow> bytes \<times> u32 list" where
  "gmap_export m slot free =
     (fold (\<lambda>g s. s[g := pending_slot m g]) [0..<unat (gm_ngroups m)] slot,
      fold (\<lambda>g f. f[g := gm_free m ! g]) [0..<unat (gm_ngroups m)] free)"

definition gmap_commit :: "GMap \<Rightarrow> GMap" where
  "gmap_commit m =
     fold (\<lambda>g m. m\<lparr>gm_slot := (gm_slot m)[g := pending_slot m g],
                   gm_written := (gm_written m)[g := False]\<rparr>)
       [0..<unat (gm_ngroups m)] m"

section \<open>Taking and releasing blocks\<close>

function skip_used :: "bytes \<Rightarrow> nat \<Rightarrow> nat \<Rightarrow> nat" where
  "skip_used bits valid i = (if i < valid \<and> bit_of bits i then skip_used bits valid (Suc i) else i)"
  by pat_completeness auto
termination by (relation "measure (\<lambda>(bits, valid, i). valid - i)") auto

function take_run :: "nat \<Rightarrow> u64 \<Rightarrow> nat \<Rightarrow> nat \<Rightarrow> bytes \<Rightarrow> nat \<times> bytes" where
  "take_run valid need i j bits =
     (if j < valid \<and> j - i < unat need \<and> \<not> bit_of bits j
      then take_run valid need i (Suc j) (bit_put bits j True)
      else (j, bits))"
  by pat_completeness auto
termination by (relation "measure (\<lambda>(valid, need, i, j, bits). valid - j)") auto

declare skip_used.simps [simp del] take_run.simps [simp del]

text \<open>One round of the loop of \<open>gmap_take\<close>; \<open>GMAP_ENOSPC\<close> stands for \<open>continue\<close>.\<close>

definition take_group ::
  "GMap \<Rightarrow> 'd BlkDev \<Rightarrow> u32 \<Rightarrow> nat \<Rightarrow> u64 \<Rightarrow> int \<times> u64 \<times> u64 \<times> GMap \<times> 'd BlkDev" where
  "take_group m D g from need =
     (if gm_free m ! unat g = 0 then (GMAP_ENOSPC, 0, 0, m, D)
      else (let (e, m, D) = load m D g
            in case e of
                 None \<Rightarrow> (GMAP_EIO, 0, 0, m, D)
               | Some x \<Rightarrow>
                   (let valid = unat (valid_bits m g);
                        bits = ge_bits (gm_cache m ! x);
                        i = skip_used bits valid from
                    in if i = valid then (GMAP_ENOSPC, 0, 0, m, D)
                       else (let (j, bits) = take_run valid need i i bits;
                                 m = set_entry m x ((gm_cache m ! x)\<lparr>ge_bits := bits, ge_dirty := True\<rparr>);
                                 m = m\<lparr>gm_free := (gm_free m)[unat g := gm_free m ! unat g - of_nat (j - i)]\<rparr>
                             in (GMAP_OK, ucast g * ucast (gm_gb m) + of_nat i, of_nat (j - i), m, D)))))"

fun take_loop ::
  "GMap \<Rightarrow> 'd BlkDev \<Rightarrow> u32 \<Rightarrow> u32 \<Rightarrow> u64 \<Rightarrow> nat list \<Rightarrow> int \<times> u64 \<times> u64 \<times> GMap \<times> 'd BlkDev" where
  "take_loop m D g0 off0 need [] = (GMAP_ENOSPC, 0, 0, m, D)"
| "take_loop m D g0 off0 need (k # ks) =
     (let (rc, s, l, m, D) = take_group m D ((g0 + of_nat k) mod gm_ngroups m)
                               (if k = 0 then unat off0 else 0) need
      in if rc = GMAP_ENOSPC then take_loop m D g0 off0 need ks else (rc, s, l, m, D))"

text \<open>\<open>*start\<close> and \<open>*len\<close> are returned beside the code; the source leaves them unwritten
  unless it returns \<open>GMAP_OK\<close>.\<close>

definition gmap_take ::
  "GMap \<Rightarrow> 'd BlkDev \<Rightarrow> u64 \<Rightarrow> u64 \<Rightarrow> int \<times> u64 \<times> u64 \<times> GMap \<times> 'd BlkDev" where
  "gmap_take m D hint need =
     (if need = 0 then (GMAP_ENOSPC, 0, 0, m, D)
      else (let g0 = ucast (hint div ucast (gm_gb m)) :: u32;
                off0 = ucast (hint mod ucast (gm_gb m)) :: u32;
                (g0, off0) = (if g0 \<ge> gm_ngroups m then (0, 0) else (g0, off0))
            in take_loop m D g0 off0 need [0..<Suc (unat (gm_ngroups m))]))"

definition release_one :: "GMap \<Rightarrow> 'd BlkDev \<Rightarrow> u64 \<Rightarrow> int \<times> GMap \<times> 'd BlkDev" where
  "release_one m D b =
     (let g = ucast (b div ucast (gm_gb m)) :: u32;
          i = unat (ucast (b mod ucast (gm_gb m)) :: u32);
          (e, m, D) = load m D g
      in case e of
           None \<Rightarrow> (GMAP_EIO, m, D)
         | Some x \<Rightarrow>
             if \<not> bit_of (ge_bits (gm_cache m ! x)) i then (GMAP_EUSED, m, D)
             else (let m = set_entry m x ((gm_cache m ! x)
                             \<lparr>ge_bits := bit_put (ge_bits (gm_cache m ! x)) i False, ge_dirty := True\<rparr>)
                   in (GMAP_OK, m\<lparr>gm_free := (gm_free m)[unat g := gm_free m ! unat g + 1]\<rparr>, D)))"

fun release_loop :: "GMap \<Rightarrow> 'd BlkDev \<Rightarrow> nat list \<Rightarrow> int \<times> GMap \<times> 'd BlkDev" where
  "release_loop m D [] = (GMAP_OK, m, D)"
| "release_loop m D (b # bs) =
     (let (rc, m, D) = release_one m D (of_nat b)
      in if rc \<noteq> GMAP_OK then (rc, m, D) else release_loop m D bs)"

definition gmap_release :: "GMap \<Rightarrow> 'd BlkDev \<Rightarrow> u64 \<Rightarrow> u64 \<Rightarrow> int \<times> GMap \<times> 'd BlkDev" where
  "gmap_release m D start len = release_loop m D [unat start..<unat (start + len)]"

definition gmap_is_used :: "GMap \<Rightarrow> 'd BlkDev \<Rightarrow> u64 \<Rightarrow> int \<times> GMap \<times> 'd BlkDev" where
  "gmap_is_used m D block =
     (let g = ucast (block div ucast (gm_gb m)) :: u32;
          i = unat (ucast (block mod ucast (gm_gb m)) :: u32);
          (e, m, D) = load m D g
      in case e of None \<Rightarrow> (GMAP_EIO, m, D)
         | Some x \<Rightarrow> (if bit_of (ge_bits (gm_cache m ! x)) i then 1 else 0, m, D))"

definition gmap_free_total :: "GMap \<Rightarrow> u64" where
  "gmap_free_total m = (\<Sum>g \<leftarrow> [0..<unat (gm_ngroups m)]. ucast (gm_free m ! g))"

end
