(* ===== verification/Gmap_Cache.thy ===== *)
theory Gmap_Cache
  imports Gmap
begin

text \<open>
  The group map's invariant, the bitmap it stands for, and the proof that the cache (loading,
  evicting and flushing groups) is transparent to it.
\<close>

section \<open>Geometry over natural numbers\<close>

definition gm_geo :: "GMap \<Rightarrow> bool" where
  "gm_geo m \<longleftrightarrow> 64 \<le> unat (gm_gb m) \<and> unat (gm_gb m) \<le> 32768 \<and> 34 \<le> unat (gm_total m) \<and>
     0 < unat (gm_ngroups m) \<and> unat (gm_ngroups m) \<le> GMAP_MAX_GROUPS \<and>
     (unat (gm_ngroups m) - 1) * unat (gm_gb m) < unat (gm_total m) \<and>
     unat (gm_total m) \<le> unat (gm_ngroups m) * unat (gm_gb m)"

definition sblk :: "GMap \<Rightarrow> nat \<Rightarrow> nat \<Rightarrow> nat" where
  "sblk m g s = (if g = 0 then 18 else g * unat (gm_gb m)) + s"

definition nvalid :: "GMap \<Rightarrow> nat \<Rightarrow> nat" where
  "nvalid m g = min (unat (gm_gb m)) (unat (gm_total m) - g * unat (gm_gb m))"

definition nresv :: "nat \<Rightarrow> nat" where
  "nresv g = (if g = 0 then 20 else 2)"

lemma gm_geo_total: "gm_geo m \<Longrightarrow> unat (gm_total m) \<le> 16777216"
proof -
  assume g: "gm_geo m"
  then have "unat (gm_ngroups m) * unat (gm_gb m) \<le> 512 * 32768"
    by (intro mult_le_mono) (simp_all add: gm_geo_def)
  with g show ?thesis by (simp add: gm_geo_def)
qed

lemma gm_geo_mult:
  assumes "gm_geo m" "g < unat (gm_ngroups m)"
  shows "g * unat (gm_gb m) < unat (gm_total m)" and "g * unat (gm_gb m) \<le> 16777216"
proof -
  have "g \<le> unat (gm_ngroups m) - 1" using assms(2) by simp
  then have "g * unat (gm_gb m) \<le> (unat (gm_ngroups m) - 1) * unat (gm_gb m)"
    by (rule mult_le_mono1)
  with assms(1) show lt: "g * unat (gm_gb m) < unat (gm_total m)"
    unfolding gm_geo_def by linarith
  with gm_geo_total [OF assms(1)] show "g * unat (gm_gb m) \<le> 16777216" by simp
qed

lemma unat_group_base:
  fixes g :: u32
  assumes "gm_geo m" "unat g < unat (gm_ngroups m)"
  shows "unat (ucast g * ucast (gm_gb m) :: u64) = unat g * unat (gm_gb m)"
  using gm_geo_mult(2) [OF assms] by (simp add: unat_word_ariths)

lemma unat_slot_block:
  assumes "gm_geo m" "unat g < unat (gm_ngroups m)" "s \<le> 1"
  shows "unat (slot_block m g s) = sblk m (unat g) (unat s)"
proof -
  have s: "unat s \<le> 1" using assms(3) by (simp add: word_le_nat_alt)
  show ?thesis
  proof (cases "g = 0")
    case True
    then show ?thesis using s by (simp add: slot_block_def sblk_def unat_word_ariths)
  next
    case False
    then have "unat g \<noteq> 0" by (simp add: unat_eq_zero)
    moreover have "unat (slot_block m g s) = (unat (ucast g * ucast (gm_gb m) :: u64) + unat s) mod 2 ^ 64"
      using False by (simp add: slot_block_def unat_word_ariths)
    ultimately show ?thesis
      using s gm_geo_mult(2) [OF assms(1,2)] unat_group_base [OF assms(1,2)] by (simp add: sblk_def)
  qed
qed

lemma sblk_bound:
  assumes "gm_geo m" "g < unat (gm_ngroups m)" "s \<le> 1"
  shows "sblk m g s < 2 ^ 52"
  using gm_geo_mult(2) [OF assms(1,2)] assms(3) by (simp add: sblk_def)

lemma sblk_inj:
  assumes "gm_geo m" "s \<le> 1" "t \<le> 1"
  shows "sblk m g s = sblk m h t \<longleftrightarrow> g = h \<and> s = t"
proof
  assume e: "sblk m g s = sblk m h t"
  let ?b = "unat (gm_gb m)"
  have b: "64 \<le> ?b" using assms(1) by (simp add: gm_geo_def)
  have ge: "64 \<le> k * ?b" if "k \<noteq> 0" for k using b that by (cases k) auto
  show "g = h \<and> s = t"
  proof (cases "g = 0 \<or> h = 0")
    case True
    then show ?thesis using e assms(2,3) ge [of g] ge [of h]
      by (cases "g = 0"; cases "h = 0") (auto simp: sblk_def)
  next
    case False
    with e have m: "g * ?b + s = h * ?b + t" by (simp add: sblk_def)
    have "(g * ?b + s) div ?b = g" "(h * ?b + t) div ?b = h" using b assms by auto
    with m have "g = h" by metis
    with m show ?thesis by simp
  qed
qed simp

lemma unat_valid_bits:
  assumes "gm_geo m" "unat g < unat (gm_ngroups m)"
  shows "unat (valid_bits m g) = nvalid m (unat g)"
proof -
  let ?lo = "ucast g * ucast (gm_gb m) :: u64"
  have lo: "unat ?lo = unat g * unat (gm_gb m)" by (rule unat_group_base [OF assms])
  have le: "?lo \<le> gm_total m"
    using gm_geo_mult(1) [OF assms] lo by (simp add: word_le_nat_alt)
  then have n: "unat (gm_total m - ?lo) = unat (gm_total m) - unat g * unat (gm_gb m)"
    by (simp add: unat_sub lo)
  show ?thesis
  proof (cases "gm_total m - ?lo < ucast (gm_gb m)")
    case True
    then have lt: "unat (gm_total m - ?lo) < unat (gm_gb m)"
      using n by (simp add: word_less_nat_alt)
    then have "unat (gm_total m - ?lo) < 2 ^ 32"
      using assms(1) by (simp add: gm_geo_def)
    with True lt n show ?thesis
      by (simp add: valid_bits_def Let_def nvalid_def unat_ucast_64_32)
  next
    case False
    then have "unat (gm_gb m) \<le> unat (gm_total m - ?lo)"
      by (simp add: word_less_nat_alt not_less)
    with False n show ?thesis by (simp add: valid_bits_def Let_def nvalid_def)
  qed
qed

section \<open>The cache scan\<close>

lemma find_entry_Some:
  "find_entry es g = Some i \<Longrightarrow> i < length es \<and> ge_valid (es ! i) \<and> ge_g (es ! i) = g"
  by (induction es arbitrary: i) (auto split: if_splits)

lemma find_entry_None:
  "find_entry es g = None \<longleftrightarrow> (\<forall>i < length es. \<not> (ge_valid (es ! i) \<and> ge_g (es ! i) = g))"
  by (induction es) (auto simp: All_less_Suc2)

lemma pick_victim_bound:
  "pick_victim es i v = Some k \<Longrightarrow> (i \<le> k \<and> k < i + length es) \<or> (\<exists>s. v = Some (k, s))"
  by (induction es i v rule: pick_victim.induct) (fastforce split: if_splits)+

lemma pick_victim_found: "v \<noteq> None \<or> es \<noteq> [] \<Longrightarrow> pick_victim es i v \<noteq> None"
  by (induction es i v rule: pick_victim.induct) auto

lemma pick_victim_ok:
  assumes "es \<noteq> []"
  obtains k where "pick_victim es 0 None = Some k" "k < length es"
  using pick_victim_found [of None es 0] pick_victim_bound [of es 0 None] assms by fastforce

section \<open>Invariant and abstraction\<close>

text \<open>The struct is well formed: array lengths, slots, and no group cached twice.\<close>

definition gm_wf :: "GMap \<Rightarrow> bool" where
  "gm_wf m \<longleftrightarrow> gm_geo m \<and> length (gm_slot m) = GMAP_MAX_GROUPS \<and>
     length (gm_written m) = GMAP_MAX_GROUPS \<and> length (gm_free m) = GMAP_MAX_GROUPS \<and>
     length (gm_cache m) = GMAP_CACHE \<and>
     (\<forall>g < unat (gm_ngroups m). gm_slot m ! g \<le> 1) \<and>
     (\<forall>i < GMAP_CACHE. length (ge_bits (gm_cache m ! i)) = EXFS_BLOCK) \<and>
     (\<forall>i < GMAP_CACHE. ge_valid (gm_cache m ! i) \<longrightarrow> unat (ge_g (gm_cache m ! i)) < unat (gm_ngroups m)) \<and>
     (\<forall>i < GMAP_CACHE. \<forall>j < GMAP_CACHE. ge_valid (gm_cache m ! i) \<longrightarrow> ge_valid (gm_cache m ! j) \<longrightarrow>
        ge_g (gm_cache m ! i) = ge_g (gm_cache m ! j) \<longrightarrow> i = j)"

text \<open>The block that holds the newest flushed bitmap of a group, and its bitmap now.\<close>

definition newest :: "GMap \<Rightarrow> nat \<Rightarrow> nat" where
  "newest m g = sblk m g (unat (pending_slot m g))"

definition committed :: "GMap \<Rightarrow> nat \<Rightarrow> nat" where
  "committed m g = sblk m g (unat (gm_slot m ! g))"

definition spare :: "GMap \<Rightarrow> nat \<Rightarrow> nat" where
  "spare m g = sblk m g (1 - unat (gm_slot m ! g))"

definition cur_bits ::
  "('d BlkDev \<Rightarrow> nat \<Rightarrow> u8) \<Rightarrow> 'd BlkDev \<Rightarrow> GMap \<Rightarrow> nat \<Rightarrow> bytes" where
  "cur_bits img D m g =
     (case find_entry (gm_cache m) (of_nat g) of
        Some i \<Rightarrow> ge_bits (gm_cache m ! i)
      | None \<Rightarrow> blk_bytes img D (newest m g))"

text \<open>Clean entries agree with the disk.\<close>

definition gm_sync :: "('d BlkDev \<Rightarrow> nat \<Rightarrow> u8) \<Rightarrow> 'd BlkDev \<Rightarrow> GMap \<Rightarrow> bool" where
  "gm_sync img D m \<longleftrightarrow>
     (\<forall>i < GMAP_CACHE. ge_valid (gm_cache m ! i) \<longrightarrow> \<not> ge_dirty (gm_cache m ! i) \<longrightarrow>
        ge_bits (gm_cache m ! i) = blk_bytes img D (newest m (unat (ge_g (gm_cache m ! i)))))"

definition gm_st ::
  "('d BlkDev \<Rightarrow> nat \<Rightarrow> u8) \<Rightarrow> ('d BlkDev \<Rightarrow> bool) \<Rightarrow> 'd BlkDev \<Rightarrow> GMap \<Rightarrow> bool" where
  "gm_st img ok D m \<longleftrightarrow> ok D \<and> spb_ok D (gm_spb m) \<and> gm_wf m \<and> gm_sync img D m"

text \<open>What no operation but \<open>gmap_commit\<close> changes, and the only blocks it may write.\<close>

definition gm_same :: "GMap \<Rightarrow> GMap \<Rightarrow> bool" where
  "gm_same m m' \<longleftrightarrow> gm_spb m' = gm_spb m \<and> gm_total m' = gm_total m \<and> gm_gb m' = gm_gb m \<and>
     gm_ngroups m' = gm_ngroups m \<and> gm_slot m' = gm_slot m"

definition spare_frame ::
  "('d BlkDev \<Rightarrow> nat \<Rightarrow> u8) \<Rightarrow> GMap \<Rightarrow> 'd BlkDev \<Rightarrow> 'd BlkDev \<Rightarrow> bool" where
  "spare_frame img m D D' \<longleftrightarrow>
     (\<forall>b. b \<notin> spare m ` {..<unat (gm_ngroups m)} \<longrightarrow> blk_bytes img D' b = blk_bytes img D b)"

lemma gm_same_refl [simp]: "gm_same m m"
  by (simp add: gm_same_def)

lemma gm_same_trans: "gm_same m m' \<Longrightarrow> gm_same m' m'' \<Longrightarrow> gm_same m m''"
  by (simp add: gm_same_def)

lemma gm_same_fun:
  assumes "gm_same m m'"
  shows "sblk m' = sblk m" "nvalid m' = nvalid m" "spare m' = spare m" "committed m' = committed m"
    "gm_geo m' = gm_geo m"
  using assms by (auto simp: gm_same_def sblk_def nvalid_def spare_def committed_def gm_geo_def fun_eq_iff)

lemma spare_frame_refl [simp]: "spare_frame img m D D"
  by (simp add: spare_frame_def)

lemma spare_frame_trans:
  "spare_frame img m D D' \<Longrightarrow> spare_frame img m' D' D'' \<Longrightarrow> gm_same m m' \<Longrightarrow> spare_frame img m D D''"
  using gm_same_fun [of m m'] by (simp add: spare_frame_def gm_same_def)

lemma slot_le1: "gm_wf m \<Longrightarrow> g < unat (gm_ngroups m) \<Longrightarrow> unat (gm_slot m ! g) \<le> 1"
  by (simp add: gm_wf_def word_le_nat_alt)

lemma unat_eq_iff_word: "unat a = unat b \<longleftrightarrow> a = (b :: 'a::len word)"
  by (simp add: word_unat_eq_iff)

lemma unat_flip: "(s :: u8) \<le> 1 \<Longrightarrow> unat (1 - s) = 1 - unat s \<and> 1 - s \<le> 1"
  by (simp add: unat_sub word_le_nat_alt)

lemma unat_pending:
  assumes "gm_wf m" "g < unat (gm_ngroups m)"
  shows "unat (pending_slot m g) = (if gm_written m ! g then 1 - unat (gm_slot m ! g) else unat (gm_slot m ! g))"
    and "pending_slot m g \<le> 1"
  using assms unat_flip [of "gm_slot m ! g"] by (auto simp: pending_slot_def gm_wf_def)

lemma newest_cases:
  assumes "gm_wf m" "g < unat (gm_ngroups m)"
  shows "newest m g = (if gm_written m ! g then spare m g else committed m g)"
  using unat_pending [OF assms] by (simp add: newest_def spare_def committed_def)

lemma spare_inj:
  assumes "gm_wf m" "g < unat (gm_ngroups m)" "h < unat (gm_ngroups m)"
  shows "spare m g = spare m h \<longleftrightarrow> g = h" and "spare m g \<noteq> committed m h"
    and "spare m g = newest m h \<longleftrightarrow> g = h \<and> gm_written m ! g"
proof -
  have geo: "gm_geo m" using assms(1) by (simp add: gm_wf_def)
  note s = slot_le1 [OF assms(1,2)] slot_le1 [OF assms(1,3)]
  have flip: "1 - k \<noteq> k" for k :: nat by arith
  show a: "spare m g = spare m h \<longleftrightarrow> g = h"
    using s by (auto simp: spare_def sblk_inj [OF geo])
  show b: "spare m g \<noteq> committed m h"
    using s flip [of "unat (gm_slot m ! h)"] by (auto simp: spare_def committed_def sblk_inj [OF geo])
  show "spare m g = newest m h \<longleftrightarrow> g = h \<and> gm_written m ! g"
    using a b newest_cases [OF assms(1,3)] by auto
qed

lemma cur_bits_cached:
  assumes "gm_wf m" "i < GMAP_CACHE" "ge_valid (gm_cache m ! i)"
  shows "find_entry (gm_cache m) (ge_g (gm_cache m ! i)) = Some i"
    and "cur_bits img D m (unat (ge_g (gm_cache m ! i))) = ge_bits (gm_cache m ! i)"
proof -
  show f: "find_entry (gm_cache m) (ge_g (gm_cache m ! i)) = Some i"
  proof (cases "find_entry (gm_cache m) (ge_g (gm_cache m ! i))")
    case None
    with assms show ?thesis by (auto simp: find_entry_None gm_wf_def)
  next
    case (Some j)
    with find_entry_Some [OF Some] assms show ?thesis by (auto simp: gm_wf_def)
  qed
  then show "cur_bits img D m (unat (ge_g (gm_cache m ! i))) = ge_bits (gm_cache m ! i)"
    by (simp add: cur_bits_def)
qed

lemma length_cur_bits: "gm_wf m \<Longrightarrow> length (cur_bits img D m g) = EXFS_BLOCK"
  using find_entry_Some [of "gm_cache m" "of_nat g"]
  by (auto simp: cur_bits_def gm_wf_def split: option.split)

text \<open>Fields that the bitmap does not depend on.\<close>

lemma gm_clock_irrelevant [simp]:
  "gm_geo (m\<lparr>gm_clock := c\<rparr>) = gm_geo m" "sblk (m\<lparr>gm_clock := c\<rparr>) = sblk m"
  "gm_wf (m\<lparr>gm_clock := c\<rparr>) = gm_wf m" "newest (m\<lparr>gm_clock := c\<rparr>) = newest m"
  "gm_sync img D (m\<lparr>gm_clock := c\<rparr>) = gm_sync img D m"
  "cur_bits img D (m\<lparr>gm_clock := c\<rparr>) = cur_bits img D m" "gm_same m (m\<lparr>gm_clock := c\<rparr>)"
proof -
  show sb: "sblk (m\<lparr>gm_clock := c\<rparr>) = sblk m" by (simp add: sblk_def fun_eq_iff)
  show nw: "newest (m\<lparr>gm_clock := c\<rparr>) = newest m"
    by (simp add: newest_def sb pending_slot_def fun_eq_iff)
  show "gm_geo (m\<lparr>gm_clock := c\<rparr>) = gm_geo m" "gm_same m (m\<lparr>gm_clock := c\<rparr>)"
    by (simp_all add: gm_geo_def gm_same_def)
  then show "gm_wf (m\<lparr>gm_clock := c\<rparr>) = gm_wf m" by (simp add: gm_wf_def)
  show "gm_sync img D (m\<lparr>gm_clock := c\<rparr>) = gm_sync img D m"
    "cur_bits img D (m\<lparr>gm_clock := c\<rparr>) = cur_bits img D m"
    by (simp_all add: gm_sync_def cur_bits_def nw fun_eq_iff split: option.split)
qed

lemma gm_free_irrelevant [simp]:
  "gm_geo (m\<lparr>gm_free := c\<rparr>) = gm_geo m" "sblk (m\<lparr>gm_free := c\<rparr>) = sblk m"
  "newest (m\<lparr>gm_free := c\<rparr>) = newest m" "gm_sync img D (m\<lparr>gm_free := c\<rparr>) = gm_sync img D m"
  "cur_bits img D (m\<lparr>gm_free := c\<rparr>) = cur_bits img D m" "gm_same m (m\<lparr>gm_free := c\<rparr>)"
  "length c = length (gm_free m) \<Longrightarrow> gm_wf (m\<lparr>gm_free := c\<rparr>) = gm_wf m"
proof -
  show sb: "sblk (m\<lparr>gm_free := c\<rparr>) = sblk m" by (simp add: sblk_def fun_eq_iff)
  show nw: "newest (m\<lparr>gm_free := c\<rparr>) = newest m"
    by (simp add: newest_def sb pending_slot_def fun_eq_iff)
  show ge: "gm_geo (m\<lparr>gm_free := c\<rparr>) = gm_geo m" "gm_same m (m\<lparr>gm_free := c\<rparr>)"
    by (simp_all add: gm_geo_def gm_same_def)
  show "gm_wf (m\<lparr>gm_free := c\<rparr>) = gm_wf m" if "length c = length (gm_free m)"
    using that by (simp add: gm_wf_def ge)
  show "gm_sync img D (m\<lparr>gm_free := c\<rparr>) = gm_sync img D m"
    "cur_bits img D (m\<lparr>gm_free := c\<rparr>) = cur_bits img D m"
    by (simp_all add: gm_sync_def cur_bits_def nw fun_eq_iff split: option.split)
qed

text \<open>Replacing one cache entry.\<close>

lemma set_entry_simps [simp]:
  "gm_spb (set_entry m v e) = gm_spb m" "gm_total (set_entry m v e) = gm_total m"
  "gm_gb (set_entry m v e) = gm_gb m" "gm_ngroups (set_entry m v e) = gm_ngroups m"
  "gm_slot (set_entry m v e) = gm_slot m" "gm_written (set_entry m v e) = gm_written m"
  "gm_free (set_entry m v e) = gm_free m" "gm_cache (set_entry m v e) = (gm_cache m)[v := e]"
  "gm_geo (set_entry m v e) = gm_geo m" "newest (set_entry m v e) = newest m"
  "gm_same m (set_entry m v e)" "valid_bits (set_entry m v e) = valid_bits m"
  by (simp_all add: set_entry_def gm_geo_def newest_def pending_slot_def sblk_def gm_same_def
      valid_bits_def fun_eq_iff Let_def)

definition fits :: "GMap \<Rightarrow> nat \<Rightarrow> GMapEntry \<Rightarrow> bool" where
  "fits m v e \<longleftrightarrow> length (ge_bits e) = EXFS_BLOCK \<and>
     (ge_valid e \<longrightarrow> unat (ge_g e) < unat (gm_ngroups m) \<and>
        (\<forall>k < GMAP_CACHE. k \<noteq> v \<longrightarrow> ge_valid (gm_cache m ! k) \<longrightarrow> ge_g (gm_cache m ! k) \<noteq> ge_g e))"

lemma set_entry_wf:
  assumes "gm_wf m" "v < GMAP_CACHE" "fits m v e"
  shows "gm_wf (set_entry m v e)"
proof -
  have len: "length (gm_cache m) = GMAP_CACHE" using assms(1) by (simp add: gm_wf_def)
  have nth: "gm_cache (set_entry m v e) ! k = (if k = v then e else gm_cache m ! k)" for k
    using assms(2) len by (simp add: nth_list_update)
  have "\<forall>i<GMAP_CACHE. \<forall>j<GMAP_CACHE. ge_valid (gm_cache (set_entry m v e) ! i) \<longrightarrow>
      ge_valid (gm_cache (set_entry m v e) ! j) \<longrightarrow>
      ge_g (gm_cache (set_entry m v e) ! i) = ge_g (gm_cache (set_entry m v e) ! j) \<longrightarrow> i = j"
    unfolding nth using assms(1,3) unfolding gm_wf_def fits_def by (simp, metis)
  moreover have "\<forall>i<GMAP_CACHE. length (ge_bits (gm_cache (set_entry m v e) ! i)) = EXFS_BLOCK"
    "\<forall>i<GMAP_CACHE. ge_valid (gm_cache (set_entry m v e) ! i) \<longrightarrow>
       unat (ge_g (gm_cache (set_entry m v e) ! i)) < unat (gm_ngroups m)"
    unfolding nth using assms(1,3) by (simp_all add: gm_wf_def fits_def)
  ultimately show ?thesis using assms(1) len unfolding gm_wf_def by simp
qed

lemma set_entry_sync:
  assumes "gm_wf m" "v < GMAP_CACHE"
    and "\<And>k. k < GMAP_CACHE \<Longrightarrow> k \<noteq> v \<Longrightarrow> ge_valid (gm_cache m ! k) \<Longrightarrow> \<not> ge_dirty (gm_cache m ! k) \<Longrightarrow>
       ge_bits (gm_cache m ! k) = blk_bytes img D (newest m (unat (ge_g (gm_cache m ! k))))"
    and "ge_valid e \<Longrightarrow> \<not> ge_dirty e \<Longrightarrow> ge_bits e = blk_bytes img D (newest m (unat (ge_g e)))"
  shows "gm_sync img D (set_entry m v e)"
  using assms by (auto simp: gm_sync_def nth_list_update gm_wf_def)

lemma cur_bits_uncached:
  assumes "gm_wf m" "h < unat (gm_ngroups m)"
    and "\<And>k. k < GMAP_CACHE \<Longrightarrow> ge_valid (gm_cache m ! k) \<Longrightarrow> unat (ge_g (gm_cache m ! k)) \<noteq> h"
  shows "cur_bits img D m h = blk_bytes img D (newest m h)"
proof -
  have "h < 2 ^ 32" using assms(1,2) by (simp add: gm_wf_def gm_geo_def)
  then have "unat (of_nat h :: u32) = h" by (simp add: unat_of_nat_u32)
  then have "find_entry (gm_cache m) (of_nat h) = None"
    using assms(1,3) unfolding find_entry_None gm_wf_def by metis
  then show ?thesis by (simp add: cur_bits_def)
qed

lemma set_entry_cur_bits:
  assumes wf: "gm_wf m" and v: "v < GMAP_CACHE" and fit: "fits m v e" and h: "h < unat (gm_ngroups m)"
  shows "cur_bits img D (set_entry m v e) h =
     (if ge_valid e \<and> unat (ge_g e) = h then ge_bits e
      else if ge_valid (gm_cache m ! v) \<and> unat (ge_g (gm_cache m ! v)) = h then blk_bytes img D (newest m h)
      else cur_bits img D m h)"
proof -
  let ?m = "set_entry m v e"
  have wf': "gm_wf ?m" by (rule set_entry_wf [OF wf v fit])
  have len: "length (gm_cache m) = GMAP_CACHE" using wf by (simp add: gm_wf_def)
  have nth: "gm_cache ?m ! k = (if k = v then e else gm_cache m ! k)" for k
    using v len by (simp add: nth_list_update)
  show ?thesis
  proof (cases "\<exists>k<GMAP_CACHE. ge_valid (gm_cache ?m ! k) \<and> unat (ge_g (gm_cache ?m ! k)) = h")
    case True
    then obtain k where k: "k < GMAP_CACHE" "ge_valid (gm_cache ?m ! k)" "unat (ge_g (gm_cache ?m ! k)) = h"
      by blast
    have c: "cur_bits img D ?m h = ge_bits (gm_cache ?m ! k)"
      using cur_bits_cached(2) [OF wf' k(1,2)] k(3) by simp
    show ?thesis
    proof (cases "k = v")
      case True
      then show ?thesis using c k nth by simp
    next
      case False
      then have kv: "ge_valid (gm_cache m ! k)" "unat (ge_g (gm_cache m ! k)) = h"
        using k nth by simp_all
      then have "cur_bits img D m h = ge_bits (gm_cache m ! k)"
        using cur_bits_cached(2) [OF wf k(1)] by auto
      moreover have "\<not> (ge_valid e \<and> unat (ge_g e) = h)"
        using fit k(1) kv False unfolding fits_def by (metis word_unat_eq_iff)
      moreover have "\<not> (ge_valid (gm_cache m ! v) \<and> unat (ge_g (gm_cache m ! v)) = h)"
        using wf k(1) v kv False unfolding gm_wf_def by (metis word_unat_eq_iff)
      ultimately show ?thesis using c nth False by auto
    qed
  next
    case False
    then have c: "cur_bits img D ?m h = blk_bytes img D (newest m h)"
      using cur_bits_uncached [OF wf', of h img D] h by simp
    have e: "\<not> (ge_valid e \<and> unat (ge_g e) = h)" using False v nth [of v] by metis
    show ?thesis
    proof (cases "ge_valid (gm_cache m ! v) \<and> unat (ge_g (gm_cache m ! v)) = h")
      case True
      with c e show ?thesis by auto
    next
      case nv: False
      have "cur_bits img D m h = blk_bytes img D (newest m h)"
        using False nv nth by (intro cur_bits_uncached [OF wf h]) metis
      with c e nv show ?thesis by auto
    qed
  qed
qed

section \<open>The cache is transparent\<close>

lemma gm_st_dest:
  assumes "gm_st img ok D m"
  shows "ok D" "spb_ok D (gm_spb m)" "gm_wf m" "gm_sync img D m" "gm_geo m"
    "length (gm_cache m) = GMAP_CACHE"
  using assms by (simp_all add: gm_st_def gm_wf_def)

context blk_medium
begin

lemma gwrite_spec:
  assumes "ok D" "spb_ok D (gm_spb m)" "gm_geo m" "unat g < unat (gm_ngroups m)" "s \<le> 1"
    and "length bits = EXFS_BLOCK" "gwrite m D g s bits = (rc, D')"
  shows "ok D'" "same_geometry D D'" "rc = GMAP_OK \<or> rc = GMAP_EIO"
    "\<And>c. c \<noteq> sblk m (unat g) (unat s) \<Longrightarrow> blk_bytes img D' c = blk_bytes img D c"
    "rc = GMAP_OK \<Longrightarrow> blk_bytes img D' (sblk m (unat g) (unat s)) = bits"
proof -
  have u: "unat (slot_block m g s) = sblk m (unat g) (unat s)"
    using assms by (intro unat_slot_block)
  have b: "unat (slot_block m g s) < 2 ^ 52"
    using assms unfolding u by (intro sblk_bound) (simp_all add: word_le_nat_alt)
  obtain r DD where w: "blk_write (Some D) (slot_block m g s * ucast (gm_spb m)) (gm_spb m) (Some bits) = (r, DD)"
    by fastforce
  from block_write [OF assms(1,2) b w] obtain E where E: "DD = Some E" "ok E" "same_geometry D E"
    "\<And>c. c \<noteq> unat (slot_block m g s) \<Longrightarrow> blk_bytes img E c = blk_bytes img D c"
    "r = BLK_OK \<Longrightarrow> length bits = 4096 \<Longrightarrow> blk_bytes img E (unat (slot_block m g s)) = bits"
    by metis
  have eq: "D' = E" "rc = (if r = BLK_OK then GMAP_OK else GMAP_EIO)"
    using assms(7) w E(1) by (simp_all add: gwrite_def Let_def)
  show "ok D'" "same_geometry D D'" "rc = GMAP_OK \<or> rc = GMAP_EIO" using eq E by auto
  show "blk_bytes img D' c = blk_bytes img D c" if "c \<noteq> sblk m (unat g) (unat s)" for c
    using E(4) that by (simp add: eq u)
  show "blk_bytes img D' (sblk m (unat g) (unat s)) = bits" if "rc = GMAP_OK"
    using E(5) that eq assms(6) u by (auto split: if_splits)
qed

lemma gread_spec:
  assumes "ok D" "spb_ok D (gm_spb m)" "gm_geo m" "unat g < unat (gm_ngroups m)" "s \<le> 1"
    and "length bits = EXFS_BLOCK" "gread m D g s bits = (rc, bits', D')"
  shows "ok D'" "same_geometry D D'" "img D' = img D" "length bits' = EXFS_BLOCK"
    "rc = GMAP_OK \<Longrightarrow> bits' = blk_bytes img D (sblk m (unat g) (unat s))"
proof -
  have u: "unat (slot_block m g s) = sblk m (unat g) (unat s)"
    using assms by (intro unat_slot_block)
  have b: "unat (slot_block m g s) < 2 ^ 52"
    using assms unfolding u by (intro sblk_bound) (simp_all add: word_le_nat_alt)
  obtain r bb DD where w: "blk_read (Some D) (slot_block m g s * ucast (gm_spb m)) (gm_spb m) (Some bits) = (r, bb, DD)"
    by (metis prod_cases3)
  from block_read [OF assms(1,2) b w] obtain E c where E: "DD = Some E" "ok E" "same_geometry D E" "img E = img D"
    "bb = Some c" "length c = length bits"
    "r = BLK_OK \<Longrightarrow> length bits = 4096 \<Longrightarrow> c = blk_bytes img D (unat (slot_block m g s))"
    by metis
  have eq: "D' = E" "bits' = c" "rc = (if r = BLK_OK then GMAP_OK else GMAP_EIO)"
    using assms(7) w E(1,5) by (simp_all add: gread_def Let_def)
  show "ok D'" "same_geometry D D'" "img D' = img D" "length bits' = EXFS_BLOCK"
    using eq E assms(6) by auto
  show "bits' = blk_bytes img D (sblk m (unat g) (unat s))" if "rc = GMAP_OK"
    using E(7) that eq assms(6) u by (auto split: if_splits)
qed

text \<open>Flushing one valid entry keeps the bitmap. Only that group's spare slot is written.\<close>

lemma flush_one_spec:
  assumes st: "gm_st img ok D m" and i: "i < GMAP_CACHE" "ge_valid (gm_cache m ! i)"
    and fl: "flush_one m D i = (rc, m', D')"
  shows "spare_frame img m D D'" "gm_same m m'" "gm_free m' = gm_free m"
    "rc = GMAP_OK \<or> rc = GMAP_EIO" "ok D'" "same_geometry D D'"
    "rc \<noteq> GMAP_OK \<Longrightarrow> m' = m"
    "rc \<noteq> GMAP_OK \<Longrightarrow> b \<noteq> spare m (unat (ge_g (gm_cache m ! i))) \<Longrightarrow> blk_bytes img D' b = blk_bytes img D b"
    "rc = GMAP_OK \<Longrightarrow> m' = set_entry (m\<lparr>gm_written := (gm_written m)[unat (ge_g (gm_cache m ! i)) := True]\<rparr>) i
        ((gm_cache m ! i)\<lparr>ge_dirty := False\<rparr>)"
    "rc = GMAP_OK \<Longrightarrow> gm_st img ok D' m'"
    "rc = GMAP_OK \<Longrightarrow> g < unat (gm_ngroups m) \<Longrightarrow> cur_bits img D' m' g = cur_bits img D m g"
proof -
  note d = gm_st_dest [OF st]
  let ?e = "gm_cache m ! i"
  let ?g = "unat (ge_g ?e)"
  have g: "?g < unat (gm_ngroups m)" and len: "length (ge_bits ?e) = EXFS_BLOCK"
    using d(3) i by (simp_all add: gm_wf_def)
  have sl: "gm_slot m ! ?g \<le> 1" using d(3) g by (simp add: gm_wf_def)
  note fp = unat_flip [OF sl]
  obtain r E where w: "gwrite m D (ge_g ?e) (1 - gm_slot m ! ?g) (ge_bits ?e) = (r, E)" by fastforce
  note gw = gwrite_spec [OF d(1,2,5) g conjunct2 [OF fp] len w]
  have sp: "sblk m ?g (unat (1 - gm_slot m ! ?g)) = spare m ?g" using fp by (simp add: spare_def)
  let ?m = "set_entry (m\<lparr>gm_written := (gm_written m)[?g := True]\<rparr>) i (?e\<lparr>ge_dirty := False\<rparr>)"
  have eq: "D' = E" "rc = r" "m' = (if r = GMAP_OK then ?m else m)"
    using fl w gw(3) by (cases "r = GMAP_OK"; simp add: flush_one_def Let_def)+
  show fr: "spare_frame img m D D'"
  proof (unfold spare_frame_def, intro allI impI)
    fix b assume "b \<notin> spare m ` {..<unat (gm_ngroups m)}"
    with g have "b \<noteq> spare m ?g" by blast
    then show "blk_bytes img D' b = blk_bytes img D b" using gw(4) sp eq by simp
  qed
  show "gm_same m m'" "gm_free m' = gm_free m" "ok D'" "same_geometry D D'" "rc = GMAP_OK \<or> rc = GMAP_EIO"
    using eq gw by (auto simp: gm_same_def set_entry_def)
  show "rc \<noteq> GMAP_OK \<Longrightarrow> m' = m"
    "rc = GMAP_OK \<Longrightarrow> m' = ?m" using eq by auto
  show "blk_bytes img D' b = blk_bytes img D b" if "b \<noteq> spare m ?g" for b
    using gw(4) that sp eq by simp
  assume "rc = GMAP_OK"
  then have m': "m' = ?m" and dat: "blk_bytes img D' (spare m ?g) = ge_bits ?e"
    using eq gw(5) sp by auto
  have wr: "gm_written m' = (gm_written m)[?g := True]" by (simp add: m' set_entry_def)
  have ca: "gm_cache m' = (gm_cache m)[i := ?e\<lparr>ge_dirty := False\<rparr>]" by (simp add: m' set_entry_def)
  have same: "gm_same m m'" by (simp add: m' gm_same_def set_entry_def)
  have nth: "ge_valid (gm_cache m' ! k) = ge_valid (gm_cache m ! k)"
    "ge_g (gm_cache m' ! k) = ge_g (gm_cache m ! k)" "ge_bits (gm_cache m' ! k) = ge_bits (gm_cache m ! k)" for k
    using i d(6) by (cases "k = i"; simp add: ca)+
  have fre: "gm_free m' = gm_free m" by (simp add: m' set_entry_def)
  have lens: "length (gm_written m') = length (gm_written m)" "length (gm_cache m') = length (gm_cache m)"
    by (simp_all add: wr ca)
  have wf': "gm_wf m'"
    using d(3) same fre gm_same_fun(5) [OF same] lens unfolding gm_wf_def gm_same_def
    by (simp only: nth) blast
  have "?g < length (gm_written m)" using d(3) g by (simp add: gm_wf_def gm_geo_def)
  then have wrn: "gm_written m' ! h \<longleftrightarrow> h = ?g \<or> gm_written m ! h" for h
    by (auto simp: wr nth_list_update)
  have nw: "newest m' h = (if h = ?g then spare m ?g else newest m h)"
    if "h < unat (gm_ngroups m)" for h
    using that newest_cases [OF wf', of h] newest_cases [OF d(3), of h] same
    by (simp add: wrn gm_same_fun [OF same] gm_same_def)
  have keep: "blk_bytes img D' (newest m h) = blk_bytes img D (newest m h)"
    if "h < unat (gm_ngroups m)" "h \<noteq> ?g" for h
    using gw(4) [of "newest m h"] spare_inj(3) [OF d(3) g that(1)] that sp eq by auto
  have sync': "gm_sync img D' m'"
  proof (unfold gm_sync_def, intro allI impI)
    fix k assume k: "k < GMAP_CACHE" "ge_valid (gm_cache m' ! k)" "\<not> ge_dirty (gm_cache m' ! k)"
    let ?h = "unat (ge_g (gm_cache m ! k))"
    have h: "?h < unat (gm_ngroups m)" using k nth d(3) by (simp add: gm_wf_def)
    show "ge_bits (gm_cache m' ! k) = blk_bytes img D' (newest m' (unat (ge_g (gm_cache m' ! k))))"
    proof (cases "k = i")
      case True
      then show ?thesis using nth dat nw [OF g] by simp
    next
      case False
      then have "?h \<noteq> ?g" using d(3) i k nth by (auto simp: gm_wf_def unat_eq_iff_word)
      moreover have "\<not> ge_dirty (gm_cache m ! k)" using k(3) False by (simp add: ca)
      ultimately show ?thesis
        using k nth nw [OF h] keep [OF h] d(4) unfolding gm_sync_def by simp
    qed
  qed
  have sb: "spb_ok D' (gm_spb m')"
    using d(2) gw(2) same eq spb_ok_geometry by (auto simp: gm_same_def)
  show "gm_st img ok D' m'" using wf' sync' sb gw(1) eq by (simp add: gm_st_def)
  assume gg: "g < unat (gm_ngroups m)"
  have fe: "find_entry (gm_cache m') x = find_entry (gm_cache m) x" for x
  proof -
    have "find_entry (es[k := (es ! k)\<lparr>ge_dirty := False\<rparr>]) x = find_entry es x" for es k
      by (induction es arbitrary: k) (auto split: nat.split)
    then show ?thesis by (simp add: ca)
  qed
  have "find_entry (gm_cache m) (of_nat ?g) \<noteq> None"
    using cur_bits_cached(1) [OF d(3) i] by simp
  then show "cur_bits img D' m' g = cur_bits img D m g"
    using nw [OF gg] keep [OF gg] by (auto simp: cur_bits_def fe nth split: option.split)
qed

text \<open>Loading a group: the entry found or read holds the group's bitmap, and no bitmap changes.\<close>

lemma load_hit:
  assumes st: "gm_st img ok D m" and f: "find_entry (gm_cache m) g = Some i"
    and m': "m' = set_entry (m\<lparr>gm_clock := gm_clock m + 1\<rparr>) i
      ((gm_cache m ! i)\<lparr>ge_stamp := gm_clock m + 1\<rparr>)"
  shows "load m D g = (Some i, m', D)" and "gm_st img ok D m'"
    and "h < unat (gm_ngroups m) \<Longrightarrow> cur_bits img D m' h = cur_bits img D m h"
proof -
  note d = gm_st_dest [OF st]
  from find_entry_Some [OF f] d(6) have i: "i < GMAP_CACHE" "ge_valid (gm_cache m ! i)" "ge_g (gm_cache m ! i) = g"
    by auto
  let ?c = "m\<lparr>gm_clock := gm_clock m + 1\<rparr>" and ?e = "(gm_cache m ! i)\<lparr>ge_stamp := gm_clock m + 1\<rparr>"
  show "load m D g = (Some i, m', D)" by (simp add: load_def f Let_def m')
  have fit: "fits ?c i ?e" using d(3) i by (auto simp: fits_def gm_wf_def)
  have "gm_wf (set_entry ?c i ?e)" using d(3) i fit by (intro set_entry_wf) simp_all
  moreover have "gm_sync img D (set_entry ?c i ?e)"
    using d(3,4) i by (intro set_entry_sync) (simp_all add: gm_sync_def)
  ultimately show "gm_st img ok D m'" using d by (simp add: gm_st_def m')
  show "cur_bits img D m' h = cur_bits img D m h" if "h < unat (gm_ngroups m)"
    using set_entry_cur_bits [of ?c i ?e h img D] d(3) i fit that
      cur_bits_cached(2) [OF d(3) i(1,2), of img D] unfolding m' by auto
qed

text \<open>The state after the victim has been written out, if it was dirty.\<close>

definition evicted :: "'d BlkDev \<Rightarrow> GMap \<Rightarrow> nat \<Rightarrow> 'd BlkDev \<Rightarrow> GMap \<Rightarrow> bool" where
  "evicted D m v D' m' \<longleftrightarrow> gm_st img ok D' m' \<and> gm_same m m' \<and> gm_free m' = gm_free m \<and>
     same_geometry D D' \<and> spare_frame img m D D' \<and>
     \<not> (ge_valid (gm_cache m' ! v) \<and> ge_dirty (gm_cache m' ! v)) \<and>
     (\<forall>k. ge_valid (gm_cache m' ! k) = ge_valid (gm_cache m ! k) \<and> ge_g (gm_cache m' ! k) = ge_g (gm_cache m ! k)) \<and>
     (\<forall>h < unat (gm_ngroups m). cur_bits img D' m' h = cur_bits img D m h)"

lemma evict_ok:
  assumes st: "gm_st img ok D m" and v: "v < GMAP_CACHE"
    and fl: "(if ge_valid (gm_cache m ! v) \<and> ge_dirty (gm_cache m ! v) then flush_one m D v
              else (GMAP_OK, m, D)) = (GMAP_OK, m', D')"
  shows "evicted D m v D' m'"
proof (cases "ge_valid (gm_cache m ! v) \<and> ge_dirty (gm_cache m ! v)")
  case True
  with fl have f: "flush_one m D v = (GMAP_OK, m', D')" by simp
  note fs = flush_one_spec [OF st v conjunct1 [OF True] f]
  have len: "v < length (gm_cache m)" using gm_st_dest(6) [OF st] v by simp
  show ?thesis
    unfolding evicted_def using fs(1-3,6) fs(9-11) [OF refl] len
    by (simp add: nth_list_update)
next
  case False
  with fl st show ?thesis by (auto simp: evicted_def)
qed

lemma evict_fail:
  assumes st: "gm_st img ok D m" and v: "v < GMAP_CACHE" "ge_valid (gm_cache m ! v)"
    and fl: "flush_one m D v = (rc, m', D')" "rc \<noteq> GMAP_OK"
  shows "m' = m" "gm_st img ok D' (set_entry m v ((gm_cache m ! v)\<lparr>ge_valid := False\<rparr>))"
    "spare_frame img m D D'" "same_geometry D D'"
proof -
  note d = gm_st_dest [OF st]
  note fs = flush_one_spec [OF st v fl(1)]
  show "m' = m" "spare_frame img m D D'" "same_geometry D D'" using fs fl(2) by auto
  let ?e = "(gm_cache m ! v)\<lparr>ge_valid := False\<rparr>"
  have "gm_wf (set_entry m v ?e)"
    using d(3) v by (intro set_entry_wf) (simp_all add: fits_def gm_wf_def)
  moreover have "gm_sync img D' (set_entry m v ?e)"
  proof (rule set_entry_sync [OF d(3) v(1)])
    fix k assume k: "k < GMAP_CACHE" "k \<noteq> v" "ge_valid (gm_cache m ! k)" "\<not> ge_dirty (gm_cache m ! k)"
    have g: "unat (ge_g (gm_cache m ! v)) < unat (gm_ngroups m)" "unat (ge_g (gm_cache m ! k)) < unat (gm_ngroups m)"
      using d(3) v k by (simp_all add: gm_wf_def)
    have "ge_g (gm_cache m ! k) \<noteq> ge_g (gm_cache m ! v)"
      using d(3) v k unfolding gm_wf_def by metis
    then have "newest m (unat (ge_g (gm_cache m ! k))) \<noteq> spare m (unat (ge_g (gm_cache m ! v)))"
      using spare_inj(3) [OF d(3) g] by (metis word_unat_eq_iff)
    then show "ge_bits (gm_cache m ! k) = blk_bytes img D' (newest m (unat (ge_g (gm_cache m ! k))))"
      using fs(8) fl(2) d(4) k by (simp add: gm_sync_def)
  qed simp
  ultimately show "gm_st img ok D' (set_entry m v ?e)"
    using d(2) fs(5,6) by (simp add: gm_st_def spb_ok_geometry)
qed

lemma load_miss:
  assumes ev: "evicted D m v D1 m1" and v: "v < GMAP_CACHE" and g: "unat g < unat (gm_ngroups m)"
    and miss: "find_entry (gm_cache m) g = None" and len6: "length (gm_cache m) = GMAP_CACHE"
    and rd: "gread m1 D1 g (pending_slot m1 (unat g)) (ge_bits (gm_cache m1 ! v)) = (rc, bits, D2)"
  shows "gm_st img ok D2 (set_entry m1 v ((gm_cache m1 ! v)\<lparr>ge_bits := bits, ge_valid := False\<rparr>))"
    and "rc = GMAP_OK \<Longrightarrow> e = (gm_cache m1 ! v)\<lparr>ge_bits := bits, ge_g := g, ge_valid := True,
           ge_dirty := False, ge_stamp := c\<rparr> \<Longrightarrow> gm_st img ok D2 (set_entry (m1\<lparr>gm_clock := c\<rparr>) v e) \<and>
         (\<forall>h < unat (gm_ngroups m). cur_bits img D2 (set_entry (m1\<lparr>gm_clock := c\<rparr>) v e) h = cur_bits img D m h)"
    and "spare_frame img m D D2" "same_geometry D D2"
proof -
  have st: "gm_st img ok D1 m1" and same: "gm_same m m1" and sg: "same_geometry D D1"
    and fr: "spare_frame img m D D1" and cl: "\<not> (ge_valid (gm_cache m1 ! v) \<and> ge_dirty (gm_cache m1 ! v))"
    and cg: "\<And>k. ge_valid (gm_cache m1 ! k) = ge_valid (gm_cache m ! k)" "\<And>k. ge_g (gm_cache m1 ! k) = ge_g (gm_cache m ! k)"
    and cb: "\<And>h. h < unat (gm_ngroups m) \<Longrightarrow> cur_bits img D1 m1 h = cur_bits img D m h"
    using ev by (auto simp: evicted_def)
  note d = gm_st_dest [OF st]
  have g1: "unat g < unat (gm_ngroups m1)" and ng: "gm_ngroups m1 = gm_ngroups m"
    using g same by (simp_all add: gm_same_def)
  have len: "length (ge_bits (gm_cache m1 ! v)) = EXFS_BLOCK" using d(3) v by (simp add: gm_wf_def)
  note rs = gread_spec [OF d(1,2,5) g1 unat_pending(2) [OF d(3) g1] len rd]
  have bby: "blk_bytes img D2 b = blk_bytes img D1 b" for b by (rule blk_bytes_img [OF rs(3)])
  have spb2: "spb_ok D2 (gm_spb m1)" using d(2) rs(2) by (simp add: spb_ok_geometry)
  show "spare_frame img m D D2" using fr by (simp add: spare_frame_def bby)
  show "same_geometry D D2" using sg rs(2) by (rule same_geometry_trans)
  have sync1: "ge_bits (gm_cache m1 ! k) = blk_bytes img D2 (newest m1 (unat (ge_g (gm_cache m1 ! k))))"
    if "k < GMAP_CACHE" "ge_valid (gm_cache m1 ! k)" "\<not> ge_dirty (gm_cache m1 ! k)" for k
    using d(4) that by (simp add: gm_sync_def bby)
  let ?x = "(gm_cache m1 ! v)\<lparr>ge_bits := bits, ge_valid := False\<rparr>"
  have "gm_wf (set_entry m1 v ?x)" using v rs(4) by (intro set_entry_wf d(3)) (simp_all add: fits_def)
  moreover have "gm_sync img D2 (set_entry m1 v ?x)" using sync1 by (intro set_entry_sync d(3) v) simp_all
  ultimately show "gm_st img ok D2 (set_entry m1 v ?x)" using rs(1) spb2 by (simp add: gm_st_def)
  assume ok: "rc = GMAP_OK" and e: "e = (gm_cache m1 ! v)\<lparr>ge_bits := bits, ge_g := g, ge_valid := True,
           ge_dirty := False, ge_stamp := c\<rparr>"
  let ?m = "m1\<lparr>gm_clock := c\<rparr>"
  have new: "ge_g (gm_cache m1 ! k) \<noteq> g" if "k < GMAP_CACHE" "ge_valid (gm_cache m1 ! k)" for k
    using miss that len6 cg unfolding find_entry_None by metis
  have bits: "bits = blk_bytes img D2 (newest m1 (unat g))"
    using rs(5) [OF ok] by (simp add: newest_def bby)
  have fit: "fits ?m v e" using rs(4) g1 new by (auto simp: fits_def e)
  have "gm_wf (set_entry ?m v e)" using v fit d(3) by (intro set_entry_wf) simp_all
  moreover have "gm_sync img D2 (set_entry ?m v e)"
    using sync1 bits d(3) v by (intro set_entry_sync) (simp_all add: e)
  ultimately have "gm_st img ok D2 (set_entry ?m v e)" using rs(1) spb2 by (simp add: gm_st_def)
  moreover have "cur_bits img D2 (set_entry ?m v e) h = cur_bits img D m h" if h: "h < unat (gm_ngroups m)" for h
  proof -
    have r: "cur_bits img D2 m1 h = cur_bits img D1 m1 h" by (simp add: cur_bits_def bby split: option.split)
    have v1: "cur_bits img D1 m1 h = blk_bytes img D2 (newest m1 h)"
      if "ge_valid (gm_cache m1 ! v)" "unat (ge_g (gm_cache m1 ! v)) = h"
      using cur_bits_cached(2) [OF d(3) v that(1), of img D1] that cl sync1 [OF v] by simp
    have g2: "cur_bits img D1 m1 (unat g) = blk_bytes img D2 (newest m1 (unat g))"
      using cur_bits_uncached [OF d(3) g1, of img D1] new by (metis bby word_unat_eq_iff)
    show ?thesis
      using set_entry_cur_bits [of ?m v e h img D2] d(3) v fit h ng cb [OF h] r v1 g2 bits
      by (auto simp: e)
  qed
  ultimately show "gm_st img ok D2 (set_entry ?m v e) \<and>
      (\<forall>h < unat (gm_ngroups m). cur_bits img D2 (set_entry ?m v e) h = cur_bits img D m h)" by blast
qed

lemma load_spec:
  assumes st: "gm_st img ok D m" and g: "unat g < unat (gm_ngroups m)" and ld: "load m D g = (r, m', D')"
  shows "gm_st img ok D' m'" "gm_same m m'" "gm_free m' = gm_free m" "spare_frame img m D D'"
    "same_geometry D D'"
    "r = Some x \<Longrightarrow> x < GMAP_CACHE \<and> ge_valid (gm_cache m' ! x) \<and> ge_g (gm_cache m' ! x) = g"
    "r = Some x \<Longrightarrow> h < unat (gm_ngroups m) \<Longrightarrow> cur_bits img D' m' h = cur_bits img D m h"
proof -
  note d = gm_st_dest [OF st]
  let ?P = "gm_st img ok D' m' \<and> gm_same m m' \<and> gm_free m' = gm_free m \<and> spare_frame img m D D' \<and>
     same_geometry D D' \<and> (\<forall>x. r = Some x \<longrightarrow> x < GMAP_CACHE \<and> ge_valid (gm_cache m' ! x) \<and> ge_g (gm_cache m' ! x) = g) \<and>
     (r \<noteq> None \<longrightarrow> (\<forall>h < unat (gm_ngroups m). cur_bits img D' m' h = cur_bits img D m h))"
  have ?P
  proof (cases "find_entry (gm_cache m) g")
    case (Some i)
    note lh = load_hit [OF st Some refl]
    from find_entry_Some [OF Some] d(6) have i: "i < GMAP_CACHE" "ge_valid (gm_cache m ! i)" "ge_g (gm_cache m ! i) = g"
      by auto
    have "gm_same m (set_entry (m\<lparr>gm_clock := gm_clock m + 1\<rparr>) i e)" for e
      by (rule gm_same_trans [of _ "m\<lparr>gm_clock := gm_clock m + 1\<rparr>"]) simp_all
    then show ?thesis using lh ld i d(6) by auto
  next
    case None
    from d(6) have "gm_cache m \<noteq> []" by auto
    then obtain v where pv: "pick_victim (gm_cache m) 0 None = Some v" and v: "v < GMAP_CACHE"
      using pick_victim_ok d(6) by metis
    obtain rc m1 D1 where fl: "(if ge_valid (gm_cache m ! v) \<and> ge_dirty (gm_cache m ! v) then flush_one m D v
              else (GMAP_OK, m, D)) = (rc, m1, D1)" by (metis prod_cases3)
    show ?thesis
    proof (cases "rc = GMAP_OK")
      case False
      then have vd: "ge_valid (gm_cache m ! v)" and f: "flush_one m D v = (rc, m1, D1)"
        using fl by (auto split: if_splits)
      note ef = evict_fail [OF st v vd f False]
      have "load m D g = (None, set_entry m v ((gm_cache m ! v)\<lparr>ge_valid := False\<rparr>), D1)"
        using None pv fl False ef(1) by (simp add: load_def Let_def)
      with ld have "r = None" "m' = set_entry m v ((gm_cache m ! v)\<lparr>ge_valid := False\<rparr>)" "D' = D1"
        by simp_all
      with ef show ?thesis by simp
    next
      case True
      note ev = evict_ok [OF st v fl [unfolded True]]
      obtain rc2 bits D2 where rd: "gread m1 D1 g (pending_slot m1 (unat g)) (ge_bits (gm_cache m1 ! v)) = (rc2, bits, D2)"
        by (metis prod_cases3)
      note lm = load_miss [OF ev v g None d(6) rd]
      let ?c = "gm_clock m1 + 1"
      let ?e = "(gm_cache m1 ! v)\<lparr>ge_bits := bits, ge_g := g, ge_valid := True, ge_dirty := False, ge_stamp := ?c\<rparr>"
      have ldq: "load m D g = (if rc2 \<noteq> GMAP_OK
          then (None, set_entry m1 v ((gm_cache m1 ! v)\<lparr>ge_bits := bits, ge_valid := False\<rparr>), D2)
          else (Some v, set_entry (m1\<lparr>gm_clock := ?c\<rparr>) v ?e, D2))"
        using None pv fl True rd by (simp add: load_def Let_def pending_slot_def [symmetric])
      have same: "gm_same m m1" and fre: "gm_free m1 = gm_free m" and len: "length (gm_cache m1) = GMAP_CACHE"
        using ev gm_st_dest(6) by (auto simp: evicted_def)
      have same': "gm_same m (set_entry m1 v e)" "gm_same m (set_entry (m1\<lparr>gm_clock := ?c\<rparr>) v e)" for e
        using same by (auto simp: gm_same_def)
      show ?thesis
      proof (cases "rc2 = GMAP_OK")
        case True
        then have "r = Some v" "m' = set_entry (m1\<lparr>gm_clock := ?c\<rparr>) v ?e" "D' = D2"
          using ldq ld by simp_all
        then show ?thesis using lm(2) [OF True refl, of ?c] lm(3,4) same' fre len v by simp
      next
        case False
        then show ?thesis using ldq ld lm(1,3,4) same' fre by simp
      qed
    qed
  qed
  then show "gm_st img ok D' m'" "gm_same m m'" "gm_free m' = gm_free m" "spare_frame img m D D'"
    "same_geometry D D'"
    "r = Some x \<Longrightarrow> x < GMAP_CACHE \<and> ge_valid (gm_cache m' ! x) \<and> ge_g (gm_cache m' ! x) = g"
    "r = Some x \<Longrightarrow> h < unat (gm_ngroups m) \<Longrightarrow> cur_bits img D' m' h = cur_bits img D m h"
    by blast+
qed

end

end
