(* ===== verification/Gmap_Alloc.thy ===== *)
theory Gmap_Alloc
  imports Gmap_Cache
begin

text \<open>
  Allocation on the group map: \<open>gmap_take\<close> and \<open>gmap_release\<close> against the set of used blocks.
\<close>

section \<open>The inner loops\<close>

lemma skip_used_spec:
  "from \<le> valid \<Longrightarrow> from \<le> skip_used bits valid from \<and> skip_used bits valid from \<le> valid \<and>
     (\<forall>k. from \<le> k \<longrightarrow> k < skip_used bits valid from \<longrightarrow> bit_of bits k) \<and>
     (skip_used bits valid from < valid \<longrightarrow> \<not> bit_of bits (skip_used bits valid from))"
proof (induction bits valid "from" rule: skip_used.induct)
  case (1 bits valid i)
  show ?case
  proof (cases "i < valid \<and> bit_of bits i")
    case True
    then have eq: "skip_used bits valid i = skip_used bits valid (Suc i)"
      by (simp add: skip_used.simps [of bits valid i])
    have IH: "Suc i \<le> skip_used bits valid (Suc i)" "skip_used bits valid (Suc i) \<le> valid"
      "\<forall>k. Suc i \<le> k \<longrightarrow> k < skip_used bits valid (Suc i) \<longrightarrow> bit_of bits k"
      "skip_used bits valid (Suc i) < valid \<longrightarrow> \<not> bit_of bits (skip_used bits valid (Suc i))"
      using 1 True by auto
    have "bit_of bits k" if "i \<le> k" "k < skip_used bits valid (Suc i)" for k
      using that IH(3) True by (cases "k = i") auto
    then show ?thesis unfolding eq using IH by auto
  next
    case False
    then show ?thesis using 1 by (simp add: skip_used.simps [of bits valid i]) auto
  qed
qed

lemma skip_used_past: "valid < i \<Longrightarrow> skip_used bits valid i = i"
  by (simp add: skip_used.simps)

lemma take_run_spec:
  assumes "valid \<le> 8 * length bits" "i \<le> j" "j \<le> valid \<or> j = i" "take_run valid need i j bits = (j', bits')"
  shows "j \<le> j' \<and> (j' \<le> valid \<or> j' = j) \<and> length bits' = length bits \<and>
     (\<forall>k. j \<le> k \<longrightarrow> k < j' \<longrightarrow> \<not> bit_of bits k) \<and>
     (\<forall>k. bit_of bits' k \<longleftrightarrow> bit_of bits k \<or> (j \<le> k \<and> k < j')) \<and>
     (j - i \<le> unat need \<longrightarrow> j' - i \<le> unat need) \<and>
     (j < valid \<longrightarrow> j - i < unat need \<longrightarrow> \<not> bit_of bits j \<longrightarrow> j < j')"
  using assms
proof (induction valid need i j bits arbitrary: j' bits' rule: take_run.induct)
  case (1 valid need i j bits)
  show ?case
  proof (cases "j < valid \<and> j - i < unat need \<and> \<not> bit_of bits j")
    case True
    let ?b = "bit_put bits j True"
    have run: "take_run valid need i (Suc j) ?b = (j', bits')"
      using "1.prems"(4) True by (simp add: take_run.simps [of valid need i j bits])
    have jl: "j < 8 * length bits" using True "1.prems"(1) by simp
    have bp: "bit_of ?b k \<longleftrightarrow> bit_of bits k \<or> k = j" for k
      using bit_of_bit_put [OF jl] by auto
    from "1.IH" [OF True _ _ _ run] True "1.prems"(1,2)
    have IH: "Suc j \<le> j'" "j' \<le> valid \<or> j' = Suc j" "length bits' = length bits"
      "\<forall>k. Suc j \<le> k \<longrightarrow> k < j' \<longrightarrow> \<not> bit_of ?b k"
      "\<forall>k. bit_of bits' k \<longleftrightarrow> bit_of ?b k \<or> (Suc j \<le> k \<and> k < j')"
      "Suc j - i \<le> unat need \<longrightarrow> j' - i \<le> unat need" by auto
    have "\<not> bit_of bits k" if "j \<le> k" "k < j'" for k
      using that IH(4) True bp by (cases "k = j") auto
    moreover have "bit_of bits' k \<longleftrightarrow> bit_of bits k \<or> (j \<le> k \<and> k < j')" for k
      using IH(1) unfolding IH(5) [rule_format] bp by (cases "k = j") auto
    ultimately show ?thesis using IH True "1.prems"(2) by auto
  next
    case False
    then have "j' = j" "bits' = bits"
      using "1.prems"(4) by (auto simp: take_run.simps [of valid need i j bits] split: if_splits)
    then show ?thesis using False "1.prems" by auto
  qed
qed

section \<open>The set of used blocks\<close>

definition gm_used :: "('d BlkDev \<Rightarrow> nat \<Rightarrow> u8) \<Rightarrow> 'd BlkDev \<Rightarrow> GMap \<Rightarrow> nat \<Rightarrow> bool" where
  "gm_used img D m b = bit_of (cur_bits img D m (b div unat (gm_gb m))) (b mod unat (gm_gb m))"

text \<open>Blocks that are never given out: superblocks, inode tables and the map's own slots.\<close>

definition gm_reserved :: "GMap \<Rightarrow> nat \<Rightarrow> bool" where
  "gm_reserved m b \<longleftrightarrow> b mod unat (gm_gb m) < nresv (b div unat (gm_gb m))"

definition nfree :: "('d BlkDev \<Rightarrow> nat \<Rightarrow> u8) \<Rightarrow> 'd BlkDev \<Rightarrow> GMap \<Rightarrow> nat \<Rightarrow> nat" where
  "nfree img D m g = card {i. i < nvalid m g \<and> \<not> bit_of (cur_bits img D m g) i}"

definition gmap_inv ::
  "('d BlkDev \<Rightarrow> nat \<Rightarrow> u8) \<Rightarrow> ('d BlkDev \<Rightarrow> bool) \<Rightarrow> 'd BlkDev \<Rightarrow> GMap \<Rightarrow> bool" where
  "gmap_inv img ok D m \<longleftrightarrow> gm_st img ok D m \<and>
     (\<forall>g < unat (gm_ngroups m). unat (gm_free m ! g) = nfree img D m g) \<and>
     (\<forall>b < unat (gm_total m). gm_reserved m b \<longrightarrow> gm_used img D m b)"

text \<open>The states that differ only in what is cached.\<close>

definition gm_eqv ::
  "('d BlkDev \<Rightarrow> nat \<Rightarrow> u8) \<Rightarrow> 'd BlkDev \<Rightarrow> GMap \<Rightarrow> 'd BlkDev \<Rightarrow> GMap \<Rightarrow> bool" where
  "gm_eqv img D m D' m' \<longleftrightarrow> gm_same m m' \<and> gm_free m' = gm_free m \<and>
     (\<forall>g < unat (gm_ngroups m). cur_bits img D' m' g = cur_bits img D m g)"

lemma gm_eqv_refl [simp]: "gm_eqv img D m D m"
  by (simp add: gm_eqv_def)

lemma gm_eqv_trans: "gm_eqv img D m D' m' \<Longrightarrow> gm_eqv img D' m' D'' m'' \<Longrightarrow> gm_eqv img D m D'' m''"
  by (auto simp: gm_eqv_def gm_same_def)

lemma group_of_block:
  assumes "gm_geo m" "b < unat (gm_total m)"
  shows "b div unat (gm_gb m) < unat (gm_ngroups m)" and "b mod unat (gm_gb m) < nvalid m (b div unat (gm_gb m))"
    and "b mod unat (gm_gb m) < 32768"
proof -
  let ?gb = "unat (gm_gb m)"
  have gb: "0 < ?gb" "?gb \<le> 32768" using assms(1) by (auto simp: gm_geo_def)
  have "b < unat (gm_ngroups m) * ?gb" using assms by (auto simp: gm_geo_def)
  then show "b div ?gb < unat (gm_ngroups m)" using gb by (simp add: less_mult_imp_div_less)
  have m: "b mod ?gb < ?gb" using gb by simp
  moreover have "b div ?gb * ?gb + b mod ?gb = b" by simp
  ultimately show "b mod ?gb < nvalid m (b div ?gb)" using assms(2) unfolding nvalid_def by linarith
  show "b mod ?gb < 32768" using m gb by linarith
qed

lemma block_of_group:
  assumes "gm_geo m" "g < unat (gm_ngroups m)" "i < nvalid m g"
  shows "(g * unat (gm_gb m) + i) div unat (gm_gb m) = g" and "(g * unat (gm_gb m) + i) mod unat (gm_gb m) = i"
    and "g * unat (gm_gb m) + i < unat (gm_total m)"
  using assms by (auto simp: nvalid_def)

lemma gm_used_eqv:
  assumes "gm_eqv img D m D' m'" "gm_geo m" "b < unat (gm_total m)"
  shows "gm_used img D' m' b = gm_used img D m b"
  using assms group_of_block(1) [OF assms(2,3)] by (simp add: gm_used_def gm_eqv_def gm_same_def)

lemma nfree_eqv:
  assumes "gm_eqv img D m D' m'" "g < unat (gm_ngroups m)"
  shows "nfree img D' m' g = nfree img D m g"
  using assms by (simp add: nfree_def gm_eqv_def gm_same_def nvalid_def)

lemma gm_reserved_same: "gm_same m m' \<Longrightarrow> gm_reserved m' = gm_reserved m"
  by (simp add: gm_reserved_def gm_same_def fun_eq_iff)

lemma gmap_inv_eqv:
  assumes "gmap_inv img ok D m" "gm_eqv img D m D' m'" "gm_st img ok D' m'"
  shows "gmap_inv img ok D' m'"
proof -
  have geo: "gm_geo m" using assms(1) by (auto simp: gmap_inv_def dest: gm_st_dest)
  have s: "gm_same m m'" "gm_free m' = gm_free m" using assms(2) by (auto simp: gm_eqv_def)
  then have "gm_ngroups m' = gm_ngroups m" "gm_total m' = gm_total m" by (auto simp: gm_same_def)
  with s assms nfree_eqv [OF assms(2)] gm_used_eqv [OF assms(2) geo] gm_reserved_same [OF s(1)]
  show ?thesis by (simp add: gmap_inv_def)
qed

lemma gmap_inv_dest:
  assumes "gmap_inv img ok D m"
  shows "gm_st img ok D m" "gm_geo m" "gm_wf m"
    "g < unat (gm_ngroups m) \<Longrightarrow> unat (gm_free m ! g) = nfree img D m g"
    "b < unat (gm_total m) \<Longrightarrow> gm_reserved m b \<Longrightarrow> gm_used img D m b"
  using assms gm_st_dest by (auto simp: gmap_inv_def)

lemma nfree_bound: "nfree img D m g \<le> nvalid m g"
proof -
  have "card {i. i < nvalid m g \<and> \<not> bit_of (cur_bits img D m g) i} \<le> card {..<nvalid m g}"
    by (rule card_mono) auto
  then show ?thesis by (simp add: nfree_def)
qed

lemma nvalid_bound: "gm_geo m \<Longrightarrow> nvalid m g \<le> 32768"
  by (simp add: gm_geo_def nvalid_def min.coboundedI1)

lemma nfree_zero_iff: "nfree img D m g = 0 \<longleftrightarrow> (\<forall>i < nvalid m g. bit_of (cur_bits img D m g) i)"
  by (auto simp: nfree_def)

section \<open>Taking and releasing\<close>

lemma of_nat_word_small: "n < 2 ^ 32 \<Longrightarrow> unat (of_nat n :: u32) = n"
  by (simp add: unat_of_nat_u32)

lemma unat_rotate:
  fixes g0 ng :: u32
  assumes "g0 < ng" "unat ng \<le> 512" "k \<le> 512"
  shows "unat ((g0 + of_nat k) mod ng) = (unat g0 + k) mod unat ng"
proof -
  have "unat g0 < 512" using assms(1,2) by (simp add: word_less_nat_alt)
  moreover have "unat (of_nat k :: u32) = k" using assms(3) by (simp add: unat_of_nat_u32)
  ultimately have "unat (g0 + of_nat k) = unat g0 + k"
    using assms(3) by (simp add: unat_word_ariths)
  then show ?thesis by (simp add: unat_mod)
qed

lemma rotate_covers:
  fixes g n h :: nat
  assumes "g < n" "h < n"
  obtains k where "0 < k" "k \<le> n" "(g + k) mod n = h"
proof (cases "g < h")
  case True
  then show thesis using assms that [of "h - g"] by simp
next
  case False
  then have "(g + (n - (g - h))) mod n = (h + n) mod n" using assms by simp
  then show thesis using assms False that [of "n - (g - h)"] by simp
qed

text \<open>Updating the bits of a cached group, with its free count.\<close>

lemma nfree_add:
  assumes "A \<subseteq> {i. i < n \<and> \<not> bit_of b i}" "\<And>k. bit_of b' k \<longleftrightarrow> bit_of b k \<or> k \<in> A"
  shows "card {i. i < n \<and> \<not> bit_of b' i} = card {i. i < n \<and> \<not> bit_of b i} - card A"
proof -
  have "{i. i < n \<and> \<not> bit_of b' i} = {i. i < n \<and> \<not> bit_of b i} - A" using assms(2) by auto
  moreover have "finite A" using assms(1) by (rule finite_subset) simp
  ultimately show ?thesis using assms(1) by (simp add: card_Diff_subset)
qed

lemma nfree_remove:
  assumes "i < n" "bit_of b i" "\<And>k. bit_of b' k \<longleftrightarrow> bit_of b k \<and> k \<noteq> i"
  shows "card {k. k < n \<and> \<not> bit_of b' k} = Suc (card {k. k < n \<and> \<not> bit_of b k})"
proof -
  have "{k. k < n \<and> \<not> bit_of b' k} = insert i {k. k < n \<and> \<not> bit_of b k}" using assms by auto
  with assms(2) show ?thesis by simp
qed

definition put_bits :: "GMap \<Rightarrow> nat \<Rightarrow> bytes \<Rightarrow> GMap" where
  "put_bits m x bits = set_entry m x ((gm_cache m ! x)\<lparr>ge_bits := bits, ge_dirty := True\<rparr>)"

lemma put_bits_spec:
  assumes st: "gm_st img ok D m" and x: "x < GMAP_CACHE" "ge_valid (gm_cache m ! x)" "ge_g (gm_cache m ! x) = g"
    and len: "length bits = EXFS_BLOCK" "length fr = length (gm_free m)"
    and m': "m' = (put_bits m x bits)\<lparr>gm_free := fr\<rparr>"
  shows "gm_st img ok D m'" "gm_same m m'" "gm_free m' = fr"
    "h < unat (gm_ngroups m) \<Longrightarrow> cur_bits img D m' h = (if h = unat g then bits else cur_bits img D m h)"
proof -
  note d = gm_st_dest [OF st]
  let ?e = "(gm_cache m ! x)\<lparr>ge_bits := bits, ge_dirty := True\<rparr>"
  have fit: "fits m x ?e" using d(3) x len by (auto simp: fits_def gm_wf_def)
  have wf: "gm_wf (set_entry m x ?e)" by (rule set_entry_wf [OF d(3) x(1) fit])
  have sy: "gm_sync img D (set_entry m x ?e)"
    using d(4) x by (intro set_entry_sync d(3)) (simp_all add: gm_sync_def)
  show "gm_st img ok D m'" using wf sy d len by (simp add: gm_st_def m' put_bits_def)
  show "gm_same m m'" "gm_free m' = fr" by (simp_all add: m' put_bits_def gm_same_def)
  show "cur_bits img D m' h = (if h = unat g then bits else cur_bits img D m h)" if "h < unat (gm_ngroups m)"
    using set_entry_cur_bits [OF d(3) x(1) fit that] x by (auto simp: m' put_bits_def)
qed

lemma inv_after_put:
  assumes inv: "gmap_inv img ok D m" and st: "gm_st img ok D m'" and same: "gm_same m m'"
    and g: "g < unat (gm_ngroups m)"
    and cur: "\<And>h. h < unat (gm_ngroups m) \<Longrightarrow> cur_bits img D m' h = (if h = g then bits else cur_bits img D m h)"
    and fr: "\<And>h. h < unat (gm_ngroups m) \<Longrightarrow> h \<noteq> g \<Longrightarrow> gm_free m' ! h = gm_free m ! h"
    and cnt: "unat (gm_free m' ! g) = card {i. i < nvalid m g \<and> \<not> bit_of bits i}"
    and rs: "\<And>i. i < nvalid m g \<Longrightarrow> i < nresv g \<Longrightarrow> bit_of (cur_bits img D m g) i \<Longrightarrow> bit_of bits i"
  shows "gmap_inv img ok D m'"
proof -
  note d = gmap_inv_dest [OF inv]
  have f: "gm_ngroups m' = gm_ngroups m" "gm_total m' = gm_total m" "gm_gb m' = gm_gb m"
    using same by (auto simp: gm_same_def)
  have nf: "nfree img D m' h = (if h = g then card {i. i < nvalid m g \<and> \<not> bit_of bits i} else nfree img D m h)"
    if "h < unat (gm_ngroups m)" for h
    using cur [OF that] gm_same_fun(2) [OF same] by (simp add: nfree_def)
  have "unat (gm_free m' ! h) = nfree img D m' h" if "h < unat (gm_ngroups m)" for h
    using nf [OF that] cnt fr [OF that] d(4) [OF that] by auto
  moreover have "gm_used img D m' b" if b: "b < unat (gm_total m)" "gm_reserved m b" for b
    using group_of_block(1,2) [OF d(2) b(1)] d(5) [OF b] b(2) cur rs
    by (auto simp: gm_used_def f gm_reserved_def)
  ultimately show ?thesis
    using st f gm_reserved_same [OF same] by (simp add: gmap_inv_def)
qed

text \<open>The effect of taking \<open>l\<close> blocks from \<open>s\<close> on the set of used blocks.\<close>

definition took ::
  "('d BlkDev \<Rightarrow> nat \<Rightarrow> u8) \<Rightarrow> 'd BlkDev \<Rightarrow> GMap \<Rightarrow> 'd BlkDev \<Rightarrow> GMap \<Rightarrow> nat \<Rightarrow> nat \<Rightarrow> bool" where
  "took img D m D' m' s l \<longleftrightarrow>
     (\<forall>b < unat (gm_total m). gm_used img D' m' b \<longleftrightarrow> gm_used img D m b \<or> (s \<le> b \<and> b < s + l)) \<and>
     (\<forall>b. s \<le> b \<longrightarrow> b < s + l \<longrightarrow> b < unat (gm_total m) \<and> \<not> gm_used img D m b)"

lemma took_eqv:
  assumes "gm_eqv img D m D1 m1" "gm_geo m" "took img D1 m1 D' m' s l"
  shows "took img D m D' m' s l"
  using assms gm_used_eqv [OF assms(1,2)] by (auto simp: took_def gm_eqv_def gm_same_def)

lemma unat_sub_of_nat:
  assumes "n \<le> unat (w :: u32)"
  shows "unat (w - of_nat n) = unat w - n"
proof -
  have "n < 2 ^ 32" using assms unat_u32_bound [of w] by simp
  then have n: "unat (of_nat n :: u32) = n" by (simp add: unat_of_nat_u32)
  then have "(of_nat n :: u32) \<le> w" using assms by (simp add: word_le_nat_alt)
  then show ?thesis by (simp add: unat_sub n)
qed

lemma used_in_group:
  assumes "gm_geo m" "g < unat (gm_ngroups m)" "i < nvalid m g"
  shows "gm_used img D m (g * unat (gm_gb m) + i) = bit_of (cur_bits img D m g) i"
  using block_of_group [OF assms] by (simp add: gm_used_def)

lemma take_bits:
  assumes inv: "gmap_inv img ok D m" and x: "x < GMAP_CACHE" "ge_valid (gm_cache m ! x)" "ge_g (gm_cache m ! x) = g"
    and g: "unat g < unat (gm_ngroups m)" and fr: "from \<le> 32768"
    and i: "i = skip_used (ge_bits (gm_cache m ! x)) (nvalid m (unat g)) from" "i \<noteq> nvalid m (unat g)"
    and run: "take_run (nvalid m (unat g)) need i i (ge_bits (gm_cache m ! x)) = (j, bits')" and need: "need \<noteq> 0"
    and m': "m' = (put_bits m x bits')\<lparr>gm_free := (gm_free m)[unat g := gm_free m ! unat g - of_nat (j - i)]\<rparr>"
  shows "gmap_inv img ok D m'" "took img D m D m' (unat g * unat (gm_gb m) + i) (j - i)"
    "j - i \<le> unat need" "from \<le> nvalid m (unat g) \<Longrightarrow> 0 < j - i" "i \<le> 32768" "j - i \<le> 32768" "gm_same m m'"
proof -
  note d = gmap_inv_dest [OF inv]
  let ?b = "ge_bits (gm_cache m ! x)" and ?g = "unat g" and ?gb = "unat (gm_gb m)"
  let ?v = "nvalid m ?g"
  have cb: "cur_bits img D m ?g = ?b" using cur_bits_cached(2) [OF d(3) x(1,2)] x(3) by simp
  have len: "length ?b = EXFS_BLOCK" using d(3) x by (simp add: gm_wf_def)
  have v: "?v \<le> 32768" by (rule nvalid_bound [OF d(2)])
  have rs: "i \<le> j" "j \<le> ?v \<or> j = i" "length bits' = EXFS_BLOCK"
    "\<And>k. i \<le> k \<Longrightarrow> k < j \<Longrightarrow> \<not> bit_of ?b k"
    "\<And>k. bit_of bits' k \<longleftrightarrow> bit_of ?b k \<or> (i \<le> k \<and> k < j)"
    "j - i \<le> unat need" "i < ?v \<Longrightarrow> \<not> bit_of ?b i \<Longrightarrow> i < j"
    using take_run_spec [OF _ order_refl _ run] v len need by (auto simp: unat_gt_0)
  have i32: "i \<le> 32768" using skip_used_spec [of "from" ?v ?b] skip_used_past [of ?v "from" ?b] v fr i(1)
    by (cases "from \<le> ?v") auto
  show "i \<le> 32768" "j - i \<le> unat need" "j - i \<le> 32768" using i32 rs(2,6) v by auto
  show "0 < j - i" if "from \<le> ?v"
    using skip_used_spec [OF that, of ?b] i rs(7) by auto
  let ?A = "{i..<j}"
  have sub: "?A \<subseteq> {k. k < ?v \<and> \<not> bit_of ?b k}" using rs(2,4) by auto
  have cA: "card {k. k < ?v \<and> \<not> bit_of bits' k} = nfree img D m ?g - (j - i)"
    using nfree_add [OF sub, of bits'] rs(5) by (simp add: nfree_def cb)
  have "card ?A \<le> nfree img D m ?g" unfolding nfree_def cb by (rule card_mono [OF _ sub]) simp
  then have le: "j - i \<le> unat (gm_free m ! ?g)" using d(4) [OF g] by simp
  have fl: "?g < length (gm_free m)" using d(3) g by (simp add: gm_wf_def gm_geo_def)
  note pb = put_bits_spec [OF d(1) x rs(3) _ m']
  have lf: "length ((gm_free m)[?g := gm_free m ! ?g - of_nat (j - i)]) = length (gm_free m)" by simp
  show same: "gm_same m m'" by (rule pb(2) [OF lf])
  show "gmap_inv img ok D m'"
  proof (rule inv_after_put [OF inv pb(1) [OF lf] same g pb(4) [OF lf]])
    show "gm_free m' ! h = gm_free m ! h" if "h \<noteq> ?g" for h using that by (simp add: m')
    show "unat (gm_free m' ! ?g) = card {i. i < ?v \<and> \<not> bit_of bits' i}"
      using fl le cA d(4) [OF g] by (simp add: m' unat_sub_of_nat)
    show "bit_of bits' k" if "bit_of (cur_bits img D m ?g) k" for k using that rs(5) cb by simp
  qed
  have f: "gm_gb m' = gm_gb m" using same by (simp add: gm_same_def)
  show "took img D m D m' (?g * ?gb + i) (j - i)"
    unfolding took_def
  proof (intro conjI allI impI)
    fix b assume b: "b < unat (gm_total m)"
    note gb = group_of_block [OF d(2) b]
    have e: "b = b div ?gb * ?gb + b mod ?gb" by simp
    show "gm_used img D m' b \<longleftrightarrow> gm_used img D m b \<or> (?g * ?gb + i \<le> b \<and> b < ?g * ?gb + i + (j - i))"
    proof (cases "b div ?gb = ?g")
      case True
      have "b = ?g * ?gb + b mod ?gb" using True e by metis
      then have "?g * ?gb + i \<le> b \<and> b < ?g * ?gb + i + (j - i) \<longleftrightarrow> i \<le> b mod ?gb \<and> b mod ?gb < j"
        using rs(1) by linarith
      then show ?thesis using True pb(4) [OF lf g] rs(5) cb by (simp add: gm_used_def f)
    next
      case False
      have "\<not> (?g * ?gb + i \<le> b \<and> b < ?g * ?gb + i + (j - i))"
      proof
        assume a: "?g * ?gb + i \<le> b \<and> b < ?g * ?gb + i + (j - i)"
        then have "b - ?g * ?gb < ?v" using rs(1,2) by auto
        then have "b div ?gb = ?g"
          using block_of_group(1) [OF d(2) g, of "b - ?g * ?gb"] a by simp
        with False show False by simp
      qed
      then show ?thesis using False pb(4) [OF lf gb(1)] by (auto simp: gm_used_def f)
    qed
  next
    fix b assume b: "?g * ?gb + i \<le> b" "b < ?g * ?gb + i + (j - i)"
    then have k: "b - ?g * ?gb < ?v" "\<not> bit_of ?b (b - ?g * ?gb)" "b = ?g * ?gb + (b - ?g * ?gb)"
      using rs(2,4) by auto
    show "b < unat (gm_total m)" using block_of_group(3) [OF d(2) g k(1)] k(3) by simp
    show "\<not> gm_used img D m b" using used_in_group [OF d(2) g k(1), of img D] k(2,3) cb by simp
  qed
qed

context blk_medium
begin

lemma take_group_spec:
  assumes inv: "gmap_inv img ok D m" and g: "unat g < unat (gm_ngroups m)" and fr: "from \<le> 32768"
    and need: "need \<noteq> 0" and tk: "take_group m D g from need = (rc, s, l, m', D')"
  shows "spare_frame img m D D'" "gm_same m m'" "same_geometry D D'" "gm_st img ok D' m'"
    "rc \<in> {GMAP_OK, GMAP_EIO, GMAP_ENOSPC}"
    "rc = GMAP_ENOSPC \<Longrightarrow> gm_eqv img D m D' m' \<and>
       (\<forall>i. from \<le> i \<longrightarrow> i < nvalid m (unat g) \<longrightarrow> bit_of (cur_bits img D m (unat g)) i)"
    "rc = GMAP_OK \<Longrightarrow> gmap_inv img ok D' m' \<and> took img D m D' m' (unat s) (unat l) \<and> unat l \<le> unat need \<and>
       (from \<le> nvalid m (unat g) \<longrightarrow> 0 < unat l)"
proof -
  note d = gmap_inv_dest [OF inv]
  let ?P = "spare_frame img m D D' \<and> gm_same m m' \<and> same_geometry D D' \<and> gm_st img ok D' m' \<and>
    rc \<in> {GMAP_OK, GMAP_EIO, GMAP_ENOSPC} \<and>
    (rc = GMAP_ENOSPC \<longrightarrow> gm_eqv img D m D' m' \<and>
       (\<forall>i. from \<le> i \<longrightarrow> i < nvalid m (unat g) \<longrightarrow> bit_of (cur_bits img D m (unat g)) i)) \<and>
    (rc = GMAP_OK \<longrightarrow> gmap_inv img ok D' m' \<and> took img D m D' m' (unat s) (unat l) \<and> unat l \<le> unat need \<and>
       (from \<le> nvalid m (unat g) \<longrightarrow> 0 < unat l))"
  have ?P
  proof (cases "gm_free m ! unat g = 0")
    case True
    then have "nfree img D m (unat g) = 0" using d(4) [OF g] by simp
    then show ?thesis using True tk d(1) by (simp add: take_group_def nfree_zero_iff)
  next
    case False
    obtain r m1 D1 where ld: "load m D g = (r, m1, D1)" by (metis prod_cases3)
    note ls = load_spec [OF d(1) g ld]
    show ?thesis
    proof (cases r)
      case None
      then show ?thesis using False tk ld ls by (simp add: take_group_def)
    next
      case (Some x)
      have ev: "gm_eqv img D m D1 m1" using ls(2,3,7) Some by (simp add: gm_eqv_def)
      have inv1: "gmap_inv img ok D1 m1" by (rule gmap_inv_eqv [OF inv ev ls(1)])
      note d1 = gmap_inv_dest [OF inv1]
      have x: "x < GMAP_CACHE" "ge_valid (gm_cache m1 ! x)" "ge_g (gm_cache m1 ! x) = g"
        using ls(6) [OF Some] by auto
      have g1: "unat g < unat (gm_ngroups m1)" and gb1: "gm_gb m1 = gm_gb m" using g ls(2) by (simp_all add: gm_same_def)
      have nv: "nvalid m1 = nvalid m" using gm_same_fun(2) [OF ls(2)] .
      have vb: "unat (valid_bits m1 g) = nvalid m (unat g)" using unat_valid_bits [OF d1(2) g1] nv by simp
      let ?b = "ge_bits (gm_cache m1 ! x)" and ?v = "nvalid m (unat g)"
      define i where "i = skip_used ?b ?v from"
      have cb: "cur_bits img D m (unat g) = ?b"
        using cur_bits_cached(2) [OF d1(3) x(1,2), of img D1] x(3) ls(7) [OF Some g] by simp
      show ?thesis
      proof (cases "i = ?v")
        case True
        have fv: "from \<le> ?v" using True skip_used_past [of ?v "from" ?b] i_def by force
        have "rc = GMAP_ENOSPC" "m' = m1" "D' = D1"
          using tk False ld Some True by (simp_all add: take_group_def Let_def vb i_def)
        then show ?thesis
          using ls ev skip_used_spec [OF fv, of ?b] True cb by (simp add: i_def)
      next
        case ne: False
        obtain j bits' where run: "take_run ?v need i i ?b = (j, bits')" by fastforce
        let ?m = "(put_bits m1 x bits')\<lparr>gm_free := (gm_free m1)[unat g := gm_free m1 ! unat g - of_nat (j - i)]\<rparr>"
        have eq: "rc = GMAP_OK" "s = ucast g * ucast (gm_gb m) + of_nat i" "l = of_nat (j - i)" "m' = ?m" "D' = D1"
          using tk False ld Some ne run
          by (simp_all add: take_group_def Let_def vb i_def [symmetric] put_bits_def gb1)
        note tb = take_bits [OF inv1 x g1 fr _ _ _ need eq(4), unfolded nv, OF i_def ne run]
        have "unat s = (unat g * unat (gm_gb m) + i) mod 2 ^ 64"
          using tb(5) by (simp add: mod_add_left_eq eq(2) unat_word_ariths unat_group_base [OF d(2) g, simplified unat_word_ariths] unat_of_nat)
        then have us: "unat s = unat g * unat (gm_gb m) + i" using gm_geo_mult(2) [OF d(2) g] tb(5) by simp
        have ul: "unat l = j - i" using tb(6) by (simp add: eq(3) unat_of_nat)
        have tk1: "took img D m D' m' (unat s) (unat l)"
          using tb(2) took_eqv [OF ev d(2)] by (simp add: us ul eq(5) gb1)
        show ?thesis
          using tb tk1 ls ul eq gm_same_trans [OF ls(2) tb(7)] gmap_inv_dest(1) [OF tb(1)] by simp
      qed
    qed
  qed
  then show "spare_frame img m D D'" "gm_same m m'" "same_geometry D D'" "gm_st img ok D' m'"
    "rc \<in> {GMAP_OK, GMAP_EIO, GMAP_ENOSPC}"
    "rc = GMAP_ENOSPC \<Longrightarrow> gm_eqv img D m D' m' \<and>
       (\<forall>i. from \<le> i \<longrightarrow> i < nvalid m (unat g) \<longrightarrow> bit_of (cur_bits img D m (unat g)) i)"
    "rc = GMAP_OK \<Longrightarrow> gmap_inv img ok D' m' \<and> took img D m D' m' (unat s) (unat l) \<and> unat l \<le> unat need \<and>
       (from \<le> nvalid m (unat g) \<longrightarrow> 0 < unat l)"
    by blast+
qed

lemma take_loop_spec:
  assumes "gmap_inv img ok D m" "g0 < gm_ngroups m" "unat off0 \<le> 32768" "need \<noteq> 0" "\<forall>k \<in> set ks. k \<le> 512"
    and "take_loop m D g0 off0 need ks = (rc, s, l, m', D')"
  shows "spare_frame img m D D' \<and> gm_same m m' \<and> same_geometry D D' \<and> gm_st img ok D' m' \<and>
    rc \<in> {GMAP_OK, GMAP_EIO, GMAP_ENOSPC} \<and>
    (rc = GMAP_ENOSPC \<longrightarrow> gm_eqv img D m D' m' \<and>
       (\<forall>k \<in> set ks. k \<noteq> 0 \<longrightarrow> nfree img D m ((unat g0 + k) mod unat (gm_ngroups m)) = 0)) \<and>
    (rc = GMAP_OK \<longrightarrow> gmap_inv img ok D' m' \<and> took img D m D' m' (unat s) (unat l) \<and> unat l \<le> unat need \<and>
       (unat off0 \<le> nvalid m (unat g0) \<longrightarrow> 0 < unat l))"
  using assms
proof (induction ks arbitrary: m D)
  case Nil
  then show ?case using gmap_inv_dest(1) [OF Nil.prems(1)] by auto
next
  case (Cons k ks)
  note d = gmap_inv_dest [OF Cons.prems(1)]
  let ?g = "(g0 + of_nat k) mod gm_ngroups m" and ?f = "if k = 0 then unat off0 else 0"
  have ng: "unat (gm_ngroups m) \<le> 512" "0 < unat (gm_ngroups m)" using d(2) by (auto simp: gm_geo_def)
  have ug: "unat ?g = (unat g0 + k) mod unat (gm_ngroups m)"
    using Cons.prems ng by (intro unat_rotate) auto
  then have g: "unat ?g < unat (gm_ngroups m)" using ng by simp
  have f: "?f \<le> 32768" using Cons.prems(3) by simp
  obtain rc1 s1 l1 m1 D1 where tk: "take_group m D ?g ?f need = (rc1, s1, l1, m1, D1)"
    by (metis prod.exhaust)
  note tg = take_group_spec [OF Cons.prems(1) g f Cons.prems(4) tk]
  show ?case
  proof (cases "rc1 = GMAP_ENOSPC")
    case True
    have ev: "gm_eqv img D m D1 m1" using tg(6) True by simp
    have inv1: "gmap_inv img ok D1 m1" by (rule gmap_inv_eqv [OF Cons.prems(1) ev tg(4)])
    have lp: "take_loop m1 D1 g0 off0 need ks = (rc, s, l, m', D')"
      using Cons.prems(6) tk True by simp
    have nge: "gm_ngroups m1 = gm_ngroups m" and nv: "nvalid m1 = nvalid m"
      using tg(2) gm_same_fun(2) [OF tg(2)] by (auto simp: gm_same_def)
    have IH: "spare_frame img m1 D1 D' \<and> gm_same m1 m' \<and> same_geometry D1 D' \<and> gm_st img ok D' m' \<and>
      rc \<in> {GMAP_OK, GMAP_EIO, GMAP_ENOSPC} \<and>
      (rc = GMAP_ENOSPC \<longrightarrow> gm_eqv img D1 m1 D' m' \<and>
         (\<forall>k \<in> set ks. k \<noteq> 0 \<longrightarrow> nfree img D1 m1 ((unat g0 + k) mod unat (gm_ngroups m1)) = 0)) \<and>
      (rc = GMAP_OK \<longrightarrow> gmap_inv img ok D' m' \<and> took img D1 m1 D' m' (unat s) (unat l) \<and> unat l \<le> unat need \<and>
         (unat off0 \<le> nvalid m1 (unat g0) \<longrightarrow> 0 < unat l))"
      using Cons.prems nge by (intro Cons.IH [OF inv1 _ _ _ _ lp]) auto
    have "nfree img D m ((unat g0 + k) mod unat (gm_ngroups m)) = 0" if "k \<noteq> 0"
      using tg(6) True that ug by (simp add: nfree_zero_iff)
    moreover have "nfree img D1 m1 ((unat g0 + k') mod unat (gm_ngroups m)) = nfree img D m ((unat g0 + k') mod unat (gm_ngroups m))" for k'
      using ng by (intro nfree_eqv [OF ev]) simp
    ultimately show ?thesis
      using IH tg(1-3) spare_frame_trans [OF tg(1) _ tg(2)] gm_same_trans [OF tg(2)] same_geometry_trans [OF tg(3)]
        gm_eqv_trans [OF ev] took_eqv [OF ev d(2)] nge nv by auto
  next
    case False
    have eq: "rc = rc1" "s = s1" "l = l1" "m' = m1" "D' = D1" using Cons.prems(6) tk False by simp_all
    have pos: "0 < unat l1" if "rc1 = GMAP_OK" "unat off0 \<le> nvalid m (unat g0)"
    proof (cases "k = 0")
      case True
      then have "unat ?g = unat g0" using ug Cons.prems(2) by (simp add: word_less_nat_alt)
      then show ?thesis using tg(7) that True by simp
    next
      case False
      then show ?thesis using tg(7) that by simp
    qed
    show ?thesis unfolding eq using tg(1-5,7) False pos by simp
  qed
qed

lemma gmap_take_spec:
  assumes inv: "gmap_inv img ok D m" and tk: "gmap_take m D hint need = (rc, s, l, m', D')"
  shows "spare_frame img m D D'" "gm_same m m'" "same_geometry D D'" "gm_st img ok D' m'"
    "rc \<in> {GMAP_OK, GMAP_EIO, GMAP_ENOSPC}"
    "rc = GMAP_ENOSPC \<Longrightarrow> gm_eqv img D m D' m' \<and> (need \<noteq> 0 \<longrightarrow> (\<forall>b < unat (gm_total m). gm_used img D m b))"
    "rc = GMAP_OK \<Longrightarrow> gmap_inv img ok D' m' \<and> took img D m D' m' (unat s) (unat l) \<and> unat l \<le> unat need \<and>
       (hint \<le> gm_total m \<longrightarrow> 0 < unat l)"
proof -
  note d = gmap_inv_dest [OF inv]
  let ?ng = "unat (gm_ngroups m)" and ?gb = "unat (gm_gb m)"
  have ng: "?ng \<le> 512" "0 < ?ng" and gb: "64 \<le> ?gb" "?gb \<le> 32768" using d(2) by (auto simp: gm_geo_def)
  let ?P = "spare_frame img m D D' \<and> gm_same m m' \<and> same_geometry D D' \<and> gm_st img ok D' m' \<and>
    rc \<in> {GMAP_OK, GMAP_EIO, GMAP_ENOSPC} \<and>
    (rc = GMAP_ENOSPC \<longrightarrow> gm_eqv img D m D' m' \<and> (need \<noteq> 0 \<longrightarrow> (\<forall>b < unat (gm_total m). gm_used img D m b))) \<and>
    (rc = GMAP_OK \<longrightarrow> gmap_inv img ok D' m' \<and> took img D m D' m' (unat s) (unat l) \<and> unat l \<le> unat need \<and>
       (hint \<le> gm_total m \<longrightarrow> 0 < unat l))"
  have ?P
  proof (cases "need = 0")
    case True
    then show ?thesis using tk d(1) by (simp add: gmap_take_def)
  next
    case False
    define g0 :: u32 where "g0 = ucast (hint div ucast (gm_gb m))"
    define off0 :: u32 where "off0 = ucast (hint mod ucast (gm_gb m))"
    define G :: u32 where "G = (if g0 \<ge> gm_ngroups m then 0 else g0)"
    define O' :: u32 where "O' = (if g0 \<ge> gm_ngroups m then 0 else off0)"
    have G: "G < gm_ngroups m" using ng by (auto simp: G_def word_gt_0 unat_gt_0 not_le)
    have um: "unat (hint mod ucast (gm_gb m)) = unat hint mod ?gb" by (simp add: unat_mod)
    have lt: "unat hint mod ?gb < ?gb" using gb by (intro mod_less_divisor) simp
    have "unat (hint mod ucast (gm_gb m)) < 4294967296" unfolding um using lt gb by linarith
    from unat_ucast_64_32 [OF this] have uo: "unat off0 = unat hint mod ?gb"
      by (simp only: off0_def um)
    have "unat off0 \<le> 32768" unfolding uo using lt gb by linarith
    then have O': "unat O' \<le> 32768" by (simp add: O'_def)
    have lp: "take_loop m D G O' need [0..<Suc ?ng] = (rc, s, l, m', D')"
      using tk False by (simp add: gmap_take_def Let_def G_def O'_def g0_def off0_def del: upt_Suc split: if_split_asm)
    note tl = take_loop_spec [OF inv G O' False _ lp]
    have ks: "\<forall>k \<in> set [0..<Suc ?ng]. k \<le> 512" using ng by auto
    have full: "gm_used img D m b" if "rc = GMAP_ENOSPC" and b: "b < unat (gm_total m)" for b
    proof -
      note gob = group_of_block [OF d(2) b]
      obtain k where k: "k \<in> set [0..<Suc ?ng]" "k \<noteq> 0" "(unat G + k) mod ?ng = b div ?gb"
        using rotate_covers [of "unat G" ?ng "b div ?gb"] G gob(1) unfolding word_less_nat_alt
        by (metis atLeastLessThan_upt atLeastLessThan_iff le_imp_less_Suc less_numeral_extra(3) zero_le)
      then have "nfree img D m (b div ?gb) = 0" using tl [OF ks] that(1) by metis
      then show ?thesis using gob(2) by (simp add: nfree_zero_iff gm_used_def)
    qed
    have off: "unat O' \<le> nvalid m (unat G)" if h: "hint \<le> gm_total m"
    proof (cases "g0 \<ge> gm_ngroups m")
      case False
      have "unat hint \<le> 16777216" using gm_geo_total [OF d(2)] h by (simp add: word_le_nat_alt)
      then have "unat hint div ?gb < 4294967296" using div_le_dividend [of "unat hint" ?gb] by linarith
      then have ug: "unat g0 = unat hint div ?gb" by (simp add: g0_def unat_ucast_64_32 unat_div)
      have "unat hint div ?gb * ?gb + unat hint mod ?gb = unat hint" by simp
      then have "unat hint mod ?gb \<le> nvalid m (unat hint div ?gb)"
        using h mod_less_divisor [of ?gb "unat hint"] gb unfolding nvalid_def word_le_nat_alt by linarith
      then show ?thesis using False ug uo by (simp add: G_def O'_def)
    qed (simp add: G_def O'_def)
    show ?thesis using tl [OF ks] full off by blast
  qed
  then show "spare_frame img m D D'" "gm_same m m'" "same_geometry D D'" "gm_st img ok D' m'"
    "rc \<in> {GMAP_OK, GMAP_EIO, GMAP_ENOSPC}"
    "rc = GMAP_ENOSPC \<Longrightarrow> gm_eqv img D m D' m' \<and> (need \<noteq> 0 \<longrightarrow> (\<forall>b < unat (gm_total m). gm_used img D m b))"
    "rc = GMAP_OK \<Longrightarrow> gmap_inv img ok D' m' \<and> took img D m D' m' (unat s) (unat l) \<and> unat l \<le> unat need \<and>
       (hint \<le> gm_total m \<longrightarrow> 0 < unat l)"
    by blast+
qed

text \<open>Releasing.\<close>

lemma unat_group_split:
  assumes geo: "gm_geo m" and b: "unat (b :: u64) < unat (gm_total m)"
  shows "unat (ucast (b div ucast (gm_gb m)) :: u32) = unat b div unat (gm_gb m)"
    and "unat (ucast (b mod ucast (gm_gb m)) :: u32) = unat b mod unat (gm_gb m)"
proof -
  have lt: "unat b < 16777216" using gm_geo_total [OF geo] b by simp
  have "unat (b div ucast (gm_gb m)) = unat b div unat (gm_gb m)" by (simp add: unat_div)
  moreover have "unat b div unat (gm_gb m) < 4294967296"
    using lt div_le_dividend [of "unat b" "unat (gm_gb m)"] by linarith
  ultimately show "unat (ucast (b div ucast (gm_gb m)) :: u32) = unat b div unat (gm_gb m)"
    by (metis unat_ucast_64_32)
  have "unat (b mod ucast (gm_gb m)) = unat b mod unat (gm_gb m)" by (simp add: unat_mod)
  moreover have "unat b mod unat (gm_gb m) < 4294967296"
    using lt mod_less_eq_dividend [of "unat b" "unat (gm_gb m)"] by linarith
  ultimately show "unat (ucast (b mod ucast (gm_gb m)) :: u32) = unat b mod unat (gm_gb m)"
    by (metis unat_ucast_64_32)
qed

lemma release_one_spec:
  assumes inv: "gmap_inv img ok D m" and b: "unat b < unat (gm_total m)"
    and rl: "release_one m D b = (rc, m', D')"
  shows "spare_frame img m D D'" "gm_same m m'" "same_geometry D D'" "gm_st img ok D' m'"
    "rc \<in> {GMAP_OK, GMAP_EIO, GMAP_EUSED}"
    "rc = GMAP_EUSED \<Longrightarrow> gm_eqv img D m D' m' \<and> \<not> gm_used img D m (unat b)"
    "rc = GMAP_OK \<Longrightarrow> gm_used img D m (unat b) \<and> (\<not> gm_reserved m (unat b) \<longrightarrow> gmap_inv img ok D' m') \<and>
       (\<forall>x < unat (gm_total m). gm_used img D' m' x \<longleftrightarrow> gm_used img D m x \<and> x \<noteq> unat b)"
proof -
  note d = gmap_inv_dest [OF inv]
  define g :: u32 where "g = ucast (b div ucast (gm_gb m))"
  define i where "i = unat (ucast (b mod ucast (gm_gb m)) :: u32)"
  let ?gb = "unat (gm_gb m)"
  have ug: "unat g = unat b div ?gb" and ui: "i = unat b mod ?gb"
    using unat_group_split [OF d(2) b] by (simp_all add: g_def i_def)
  note gob = group_of_block [OF d(2) b, folded ug ui]
  obtain r m1 D1 where ld: "load m D g = (r, m1, D1)" by (metis prod_cases3)
  note ls = load_spec [OF d(1) gob(1) ld]
  let ?P = "spare_frame img m D D' \<and> gm_same m m' \<and> same_geometry D D' \<and> gm_st img ok D' m' \<and>
    rc \<in> {GMAP_OK, GMAP_EIO, GMAP_EUSED} \<and>
    (rc = GMAP_EUSED \<longrightarrow> gm_eqv img D m D' m' \<and> \<not> gm_used img D m (unat b)) \<and>
    (rc = GMAP_OK \<longrightarrow> gm_used img D m (unat b) \<and> (\<not> gm_reserved m (unat b) \<longrightarrow> gmap_inv img ok D' m') \<and>
       (\<forall>x < unat (gm_total m). gm_used img D' m' x \<longleftrightarrow> gm_used img D m x \<and> x \<noteq> unat b))"
  have ?P
  proof (cases r)
    case None
    then show ?thesis using rl ld ls by (simp add: release_one_def Let_def flip: g_def)
  next
    case (Some x)
    have ev: "gm_eqv img D m D1 m1" using ls(2,3,7) Some by (simp add: gm_eqv_def)
    have inv1: "gmap_inv img ok D1 m1" by (rule gmap_inv_eqv [OF inv ev ls(1)])
    note d1 = gmap_inv_dest [OF inv1]
    have x: "x < GMAP_CACHE" "ge_valid (gm_cache m1 ! x)" "ge_g (gm_cache m1 ! x) = g"
      using ls(6) [OF Some] by auto
    have g1: "unat g < unat (gm_ngroups m1)" and gb1: "gm_gb m1 = gm_gb m" and nv: "nvalid m1 = nvalid m"
      using gob(1) ls(2) gm_same_fun(2) [OF ls(2)] by (simp_all add: gm_same_def)
    let ?b = "ge_bits (gm_cache m1 ! x)"
    have cb1: "cur_bits img D1 m1 (unat g) = ?b" using cur_bits_cached(2) [OF d1(3) x(1,2), of img D1] x(3) by simp
    then have cb: "cur_bits img D m (unat g) = ?b" using ls(7) [OF Some gob(1)] by simp
    have us: "gm_used img D m (unat b) = bit_of ?b i" by (simp add: gm_used_def cb flip: ug ui)
    show ?thesis
    proof (cases "bit_of ?b i")
      case False
      then have "rc = GMAP_EUSED" "m' = m1" "D' = D1"
        using rl ld Some by (simp_all add: release_one_def Let_def flip: g_def i_def)
      then show ?thesis using ls ev us False by simp
    next
      case True
      let ?m = "(put_bits m1 x (bit_put ?b i False))\<lparr>gm_free := (gm_free m1)[unat g := gm_free m1 ! unat g + 1]\<rparr>"
      have eq: "rc = GMAP_OK" "m' = ?m" "D' = D1"
        using rl ld Some True by (simp_all add: release_one_def Let_def put_bits_def flip: g_def i_def)
      have len: "length ?b = EXFS_BLOCK" using d1(3) x by (simp add: gm_wf_def)
      have bp: "bit_of (bit_put ?b i False) k \<longleftrightarrow> bit_of ?b k \<and> k \<noteq> i" for k
        using bit_of_bit_put [of i ?b False k] gob(3) len by auto
      have lf: "length ((gm_free m1)[unat g := gm_free m1 ! unat g + 1]) = length (gm_free m1)"
        and lb: "length (bit_put ?b i False) = EXFS_BLOCK" using len by simp_all
      note pb = put_bits_spec [OF d1(1) x lb lf eq(2)]
      have f: "gm_gb m' = gm_gb m" "gm_total m1 = gm_total m" "gm_same m m'"
        using pb(2) gb1 ls(2) by (auto simp: gm_same_def)
      have inv': "gmap_inv img ok D1 m'" if nr: "\<not> gm_reserved m (unat b)"
      proof (rule inv_after_put [OF inv1 pb(1,2) g1 pb(4)])
        show "gm_free m' ! h = gm_free m1 ! h" if "h \<noteq> unat g" for h using that by (simp add: eq(2))
        have "unat (gm_free m1 ! unat g) = nfree img D1 m1 (unat g)" by (rule d1(4) [OF g1])
        moreover have "nfree img D1 m1 (unat g) \<le> 32768"
          using nfree_bound [of img D1 m1 "unat g"] nvalid_bound [OF d1(2), of "unat g"] by simp
        moreover have "unat g < length (gm_free m1)" using d1(3) g1 by (simp add: gm_wf_def gm_geo_def)
        ultimately have "unat (gm_free m' ! unat g) = Suc (nfree img D1 m1 (unat g))"
          by (simp add: eq(2) unat_word_ariths)
        then show "unat (gm_free m' ! unat g) = card {k. k < nvalid m1 (unat g) \<and> \<not> bit_of (bit_put ?b i False) k}"
          using nfree_remove [of i "nvalid m1 (unat g)" ?b "bit_put ?b i False"] gob(2) True bp nv
          by (simp add: nfree_def cb1)
        show "bit_of (bit_put ?b i False) k" if "k < nresv (unat g)" "bit_of (cur_bits img D1 m1 (unat g)) k" for k
          using that nr bp cb1 by (auto simp: gm_reserved_def ug [symmetric] ui [symmetric])
      qed
      have "gm_used img D1 m' y \<longleftrightarrow> gm_used img D m y \<and> y \<noteq> unat b" if y: "y < unat (gm_total m)" for y
      proof -
        note goy = group_of_block [OF d(2) y]
        have yb: "y = unat b \<longleftrightarrow> y div ?gb = unat g \<and> y mod ?gb = i"
          using ug ui by (metis div_mult_mod_eq)
        have "y div ?gb < unat (gm_ngroups m1)" using goy(1) ls(2) by (simp add: gm_same_def)
        then have "gm_used img D1 m' y \<longleftrightarrow> (if y div ?gb = unat g then bit_of ?b (y mod ?gb) \<and> y mod ?gb \<noteq> i
            else bit_of (cur_bits img D m (y div ?gb)) (y mod ?gb))"
          using pb(4) [of "y div ?gb"] bp ls(7) [OF Some goy(1)] by (simp add: gm_used_def f)
        then show ?thesis using yb cb by (auto simp: gm_used_def)
      qed
      then show ?thesis using ls(4,5) f(3) pb(1) inv' us True eq(1,3) by simp
    qed
  qed
  then show "spare_frame img m D D'" "gm_same m m'" "same_geometry D D'" "gm_st img ok D' m'"
    "rc \<in> {GMAP_OK, GMAP_EIO, GMAP_EUSED}"
    "rc = GMAP_EUSED \<Longrightarrow> gm_eqv img D m D' m' \<and> \<not> gm_used img D m (unat b)"
    "rc = GMAP_OK \<Longrightarrow> gm_used img D m (unat b) \<and> (\<not> gm_reserved m (unat b) \<longrightarrow> gmap_inv img ok D' m') \<and>
       (\<forall>x < unat (gm_total m). gm_used img D' m' x \<longleftrightarrow> gm_used img D m x \<and> x \<noteq> unat b)"
    by blast+
qed

lemma release_loop_spec:
  assumes "gmap_inv img ok D m" "\<forall>b \<in> set bs. b < unat (gm_total m) \<and> \<not> gm_reserved m b"
    and "release_loop m D bs = (rc, m', D')"
  shows "spare_frame img m D D' \<and> gm_same m m' \<and> same_geometry D D' \<and> gm_st img ok D' m' \<and>
    rc \<in> {GMAP_OK, GMAP_EIO, GMAP_EUSED} \<and>
    (rc \<noteq> GMAP_EIO \<longrightarrow> gmap_inv img ok D' m' \<and>
      (\<exists>n \<le> length bs. (rc = GMAP_OK \<longrightarrow> n = length bs) \<and> (\<forall>b \<in> set (take n bs). gm_used img D m b) \<and>
        (rc = GMAP_EUSED \<longrightarrow> n < length bs \<and> (gm_used img D m (bs ! n) \<longrightarrow> bs ! n \<in> set (take n bs))) \<and>
        (\<forall>x < unat (gm_total m). gm_used img D' m' x \<longleftrightarrow> gm_used img D m x \<and> x \<notin> set (take n bs))))"
  using assms
proof (induction bs arbitrary: m D)
  case Nil
  then show ?case using gmap_inv_dest(1) [OF Nil.prems(1)] by auto
next
  case (Cons b bs)
  note d = gmap_inv_dest [OF Cons.prems(1)]
  have b: "b < unat (gm_total m)" "\<not> gm_reserved m b" using Cons.prems(2) by simp_all
  have ub: "unat (of_nat b :: u64) = b" using b(1) unat_u64_bound [of "gm_total m"] by (simp add: unat_of_nat_u64)
  obtain rc1 m1 D1 where r1: "release_one m D (of_nat b) = (rc1, m1, D1)" by (metis prod_cases3)
  have ub': "unat (of_nat b :: u64) < unat (gm_total m)" using ub b by simp
  note rs = release_one_spec [OF Cons.prems(1) ub' r1, unfolded ub]
  show ?case
  proof (cases "rc1 = GMAP_OK")
    case False
    then have eq: "rc = rc1" "m' = m1" "D' = D1" using Cons.prems(3) r1 by simp_all
    have "gmap_inv img ok D1 m1" if "rc1 = GMAP_EUSED" using gmap_inv_eqv [OF Cons.prems(1) _ rs(4)] rs(6) that by simp
    moreover have "gm_used img D1 m1 x = gm_used img D m x" if "rc1 = GMAP_EUSED" "x < unat (gm_total m)" for x
      using gm_used_eqv [OF _ d(2) that(2), of img D D1 m1] rs(6) that(1) by simp
    ultimately show ?thesis
      unfolding eq using rs(1-6) False by (auto intro!: exI [of _ 0])
  next
    case True
    have us: "gm_used img D m b" and inv1: "gmap_inv img ok D1 m1"
      and u1: "\<And>x. x < unat (gm_total m) \<Longrightarrow> gm_used img D1 m1 x \<longleftrightarrow> gm_used img D m x \<and> x \<noteq> b"
      using rs(7) True b(2) by auto
    have f: "gm_total m1 = gm_total m" "gm_reserved m1 = gm_reserved m"
      using rs(2) gm_reserved_same [OF rs(2)] by (auto simp: gm_same_def)
    have lp: "release_loop m1 D1 bs = (rc, m', D')" using Cons.prems(3) r1 True by simp
    have bs: "\<forall>b \<in> set bs. b < unat (gm_total m1) \<and> \<not> gm_reserved m1 b" using Cons.prems(2) f by simp
    note IH = Cons.IH [OF inv1 bs lp, unfolded f]
    have fr: "spare_frame img m D D' \<and> gm_same m m' \<and> same_geometry D D' \<and> gm_st img ok D' m' \<and>
        rc \<in> {GMAP_OK, GMAP_EIO, GMAP_EUSED}"
      using IH spare_frame_trans [OF rs(1) _ rs(2)] gm_same_trans [OF rs(2)] same_geometry_trans [OF rs(3)] by blast
    show ?thesis
    proof (cases "rc = GMAP_EIO")
      case True
      then show ?thesis using fr by simp
    next
      case False
      with IH obtain n where n: "n \<le> length bs" "rc = GMAP_OK \<longrightarrow> n = length bs"
        "\<forall>b \<in> set (take n bs). gm_used img D1 m1 b"
        "rc = GMAP_EUSED \<longrightarrow> n < length bs \<and> (gm_used img D1 m1 (bs ! n) \<longrightarrow> bs ! n \<in> set (take n bs))"
        "\<forall>x < unat (gm_total m). gm_used img D' m' x \<longleftrightarrow> gm_used img D1 m1 x \<and> x \<notin> set (take n bs)"
        and inv': "gmap_inv img ok D' m'" by blast
      have bl: "x < unat (gm_total m)" if "x \<in> set (take n bs)" for x
        using that Cons.prems(2) in_set_takeD by fastforce
      have "rc = GMAP_EUSED \<longrightarrow> Suc n < length (b # bs) \<and>
          (gm_used img D m ((b # bs) ! Suc n) \<longrightarrow> (b # bs) ! Suc n \<in> set (take (Suc n) (b # bs)))"
      proof
        assume e: "rc = GMAP_EUSED"
        then have "n < length bs" using n(4) by simp
        then have "bs ! n < unat (gm_total m)" using Cons.prems(2) by simp
        then show "Suc n < length (b # bs) \<and>
          (gm_used img D m ((b # bs) ! Suc n) \<longrightarrow> (b # bs) ! Suc n \<in> set (take (Suc n) (b # bs)))"
          using n(4) e u1 by auto
      qed
      then show ?thesis
        using fr inv' n(1,2,3,5) u1 us bl False by (intro conjI impI exI [of _ "Suc n"]) auto
    qed
  qed
qed

end

end
