(* ===== verification/Gmap_Commit.thy ===== *)
theory Gmap_Commit
  imports Gmap_Alloc
begin

text \<open>
  Flushing, committing and importing the group map, formatting it, and the crash argument: no
  operation before \<open>gmap_commit\<close> touches a committed slot, so the tables of the last committed
  superblock always describe the same bitmap.
\<close>

section \<open>Flushing\<close>

context blk_medium
begin

lemma flush_one_fail:
  assumes st: "gm_st img ok D m" and i: "i < GMAP_CACHE" "ge_valid (gm_cache m ! i)" "ge_dirty (gm_cache m ! i)"
    and fl: "flush_one m D i = (rc, m', D')" "rc \<noteq> GMAP_OK"
  shows "m' = m" "gm_st img ok D' m"
proof -
  note d = gm_st_dest [OF st]
  note fs = flush_one_spec [OF st i(1,2) fl(1)]
  show "m' = m" using fs(7) fl(2) by simp
  have "gm_sync img D' m"
  proof (unfold gm_sync_def, intro allI impI)
    fix k assume k: "k < GMAP_CACHE" "ge_valid (gm_cache m ! k)" "\<not> ge_dirty (gm_cache m ! k)"
    have g: "unat (ge_g (gm_cache m ! i)) < unat (gm_ngroups m)" "unat (ge_g (gm_cache m ! k)) < unat (gm_ngroups m)"
      using d(3) i k by (simp_all add: gm_wf_def)
    have "k \<noteq> i" using i(3) k(3) by auto
    then have "ge_g (gm_cache m ! k) \<noteq> ge_g (gm_cache m ! i)"
      using d(3) i k unfolding gm_wf_def by metis
    then have "newest m (unat (ge_g (gm_cache m ! k))) \<noteq> spare m (unat (ge_g (gm_cache m ! i)))"
      using spare_inj(3) [OF d(3) g] by (metis word_unat_eq_iff)
    then show "ge_bits (gm_cache m ! k) = blk_bytes img D' (newest m (unat (ge_g (gm_cache m ! k))))"
      using fs(8) fl(2) d(4) k by (simp add: gm_sync_def)
  qed
  then show "gm_st img ok D' m" using d(2,3) fs(5,6) by (simp add: gm_st_def spb_ok_geometry)
qed

lemma flush_loop_spec:
  assumes "gm_st img ok D m" "\<forall>i \<in> set is. i < GMAP_CACHE" "flush_loop m D is = (rc, m', D')"
  shows "spare_frame img m D D' \<and> gm_same m m' \<and> same_geometry D D' \<and> gm_st img ok D' m' \<and>
    rc \<in> {GMAP_OK, GMAP_EIO} \<and>
    (rc = GMAP_OK \<longrightarrow> gm_eqv img D m D' m' \<and>
       (\<forall>k. ge_valid (gm_cache m' ! k) = ge_valid (gm_cache m ! k) \<and> (ge_dirty (gm_cache m' ! k) \<longrightarrow> ge_dirty (gm_cache m ! k))) \<and>
       (\<forall>i \<in> set is. ge_valid (gm_cache m' ! i) \<longrightarrow> \<not> ge_dirty (gm_cache m' ! i)))"
  using assms
proof (induction "is" arbitrary: m D)
  case Nil
  then show ?case by simp
next
  case (Cons i "is")
  have i: "i < GMAP_CACHE" "\<forall>i \<in> set is. i < GMAP_CACHE" using Cons.prems(2) by simp_all
  show ?case
  proof (cases "ge_valid (gm_cache m ! i) \<and> ge_dirty (gm_cache m ! i)")
    case False
    then have lp: "flush_loop m D is = (rc, m', D')" using Cons.prems(3) by (simp split: if_split_asm)
    show ?thesis using Cons.IH [OF Cons.prems(1) i(2) lp] False by auto
  next
    case True
    obtain rc1 m1 D1 where fl: "flush_one m D i = (rc1, m1, D1)" by (metis prod_cases3)
    note fs = flush_one_spec [OF Cons.prems(1) i(1) conjunct1 [OF True] fl]
    show ?thesis
    proof (cases "rc1 = GMAP_OK")
      case False
      then have "rc = GMAP_EIO" "m' = m1" "D' = D1" using Cons.prems(3) True fl by simp_all
      then show ?thesis using fs(1,2,6) flush_one_fail [OF Cons.prems(1) i(1) _ _ fl False] True by simp
    next
      case ok1: True
      then have lp: "flush_loop m1 D1 is = (rc, m', D')" using Cons.prems(3) True fl by simp
      note IH = Cons.IH [OF fs(10) [OF ok1] i(2) lp]
      have len: "i < length (gm_cache m)" using gm_st_dest(6) [OF Cons.prems(1)] i by simp
      have ev: "gm_eqv img D m D1 m1" using fs(2,3,11) ok1 by (simp add: gm_eqv_def)
      have c1: "gm_cache m1 = (gm_cache m)[i := (gm_cache m ! i)\<lparr>ge_dirty := False\<rparr>]" using fs(9) [OF ok1] by simp
      have v1: "ge_valid (gm_cache m1 ! k) = ge_valid (gm_cache m ! k)"
        "ge_dirty (gm_cache m1 ! k) \<longleftrightarrow> ge_dirty (gm_cache m ! k) \<and> k \<noteq> i" for k
        using len by (cases "k = i"; simp add: c1)+
      show ?thesis
        using IH spare_frame_trans [OF fs(1) _ fs(2)] gm_same_trans [OF fs(2)] same_geometry_trans [OF fs(6)]
          gm_eqv_trans [OF ev] v1 by auto
    qed
  qed
qed

lemma gmap_flush_spec:
  assumes st: "gm_st img ok D m" and fl: "gmap_flush m D = (rc, m', D')"
  shows "spare_frame img m D D'" "gm_same m m'" "same_geometry D D'" "gm_st img ok D' m'"
    "rc = GMAP_OK \<or> rc = GMAP_EIO"
    "rc = GMAP_OK \<Longrightarrow> gm_eqv img D m D' m'"
    "rc = GMAP_OK \<Longrightarrow> g < unat (gm_ngroups m) \<Longrightarrow> blk_bytes img D' (newest m' g) = cur_bits img D m g"
proof -
  have "\<forall>i \<in> set [0..<GMAP_CACHE]. i < GMAP_CACHE" by simp
  note fs = flush_loop_spec [OF st this fl [unfolded gmap_flush_def]]
  then show "spare_frame img m D D'" "gm_same m m'" "same_geometry D D'" "gm_st img ok D' m'"
    "rc = GMAP_OK \<or> rc = GMAP_EIO" "rc = GMAP_OK \<Longrightarrow> gm_eqv img D m D' m'" by auto
  assume ok: "rc = GMAP_OK" and g: "g < unat (gm_ngroups m)"
  have ev: "gm_eqv img D m D' m'" and st': "gm_st img ok D' m'"
    and cl: "\<And>i. i < GMAP_CACHE \<Longrightarrow> ge_valid (gm_cache m' ! i) \<Longrightarrow> \<not> ge_dirty (gm_cache m' ! i)"
    using fs ok by auto
  note d = gm_st_dest [OF st']
  have g': "g < unat (gm_ngroups m')" using g ev by (simp add: gm_eqv_def gm_same_def)
  have "cur_bits img D' m' g = blk_bytes img D' (newest m' g)"
  proof (cases "\<exists>k<GMAP_CACHE. ge_valid (gm_cache m' ! k) \<and> unat (ge_g (gm_cache m' ! k)) = g")
    case True
    then obtain k where k: "k < GMAP_CACHE" "ge_valid (gm_cache m' ! k)" "unat (ge_g (gm_cache m' ! k)) = g" by blast
    then show ?thesis
      using cur_bits_cached(2) [OF d(3) k(1,2), of img D'] d(4) cl by (simp add: gm_sync_def)
  next
    case False
    then show ?thesis using cur_bits_uncached [OF d(3) g'] by blast
  qed
  then show "blk_bytes img D' (newest m' g) = cur_bits img D m g" using ev g by (simp add: gm_eqv_def)
qed

end

section \<open>Export, commit and import\<close>

lemma gmap_export_nth:
  assumes "length slot = GMAP_MAX_GROUPS" "length free = GMAP_MAX_GROUPS" "unat (gm_ngroups m) \<le> GMAP_MAX_GROUPS"
    and "gmap_export m slot free = (slot', free')"
  shows "length slot' = GMAP_MAX_GROUPS" "length free' = GMAP_MAX_GROUPS"
    "slot' ! g = (if g < unat (gm_ngroups m) then pending_slot m g else slot ! g)"
    "free' ! g = (if g < unat (gm_ngroups m) then gm_free m ! g else free ! g)"
  using assms by (auto simp: gmap_export_def nth_fold_update)

lemma gmap_commit_loop:
  assumes "n \<le> length (gm_slot m)" "n \<le> length (gm_written m)"
    and "m' = fold (\<lambda>g m. m\<lparr>gm_slot := (gm_slot m)[g := pending_slot m g], gm_written := (gm_written m)[g := False]\<rparr>) [0..<n] m"
  shows "gm_spb m' = gm_spb m \<and> gm_total m' = gm_total m \<and> gm_gb m' = gm_gb m \<and> gm_ngroups m' = gm_ngroups m \<and>
    gm_free m' = gm_free m \<and> gm_cache m' = gm_cache m \<and>
    length (gm_slot m') = length (gm_slot m) \<and> length (gm_written m') = length (gm_written m) \<and>
    (\<forall>g. gm_slot m' ! g = (if g < n then pending_slot m g else gm_slot m ! g)) \<and>
    (\<forall>g. gm_written m' ! g = (if g < n then False else gm_written m ! g))"
  using assms
proof (induction n arbitrary: m')
  case (Suc n)
  let ?f = "\<lambda>g m. m\<lparr>gm_slot := (gm_slot m)[g := pending_slot m g], gm_written := (gm_written m)[g := False]\<rparr>"
  define q where "q = fold ?f [0..<n] m"
  have m': "m' = ?f n q" using Suc.prems(3) by (simp add: q_def)
  have IH: "gm_spb q = gm_spb m \<and> gm_total q = gm_total m \<and> gm_gb q = gm_gb m \<and> gm_ngroups q = gm_ngroups m \<and>
    gm_free q = gm_free m \<and> gm_cache q = gm_cache m \<and>
    length (gm_slot q) = length (gm_slot m) \<and> length (gm_written q) = length (gm_written m) \<and>
    (\<forall>g. gm_slot q ! g = (if g < n then pending_slot m g else gm_slot m ! g)) \<and>
    (\<forall>g. gm_written q ! g = (if g < n then False else gm_written m ! g))"
    using Suc.prems by (intro Suc.IH q_def) simp_all
  then have p: "pending_slot q n = pending_slot m n" by (simp add: pending_slot_def)
  have "n < length (gm_slot q)" "n < length (gm_written q)" using IH Suc.prems by auto
  then show ?case using IH by (auto simp: m' p nth_list_update)
qed simp

lemma gmap_commit_fields:
  assumes "gm_wf m"
  shows "gm_spb (gmap_commit m) = gm_spb m" "gm_total (gmap_commit m) = gm_total m"
    "gm_gb (gmap_commit m) = gm_gb m" "gm_ngroups (gmap_commit m) = gm_ngroups m"
    "gm_free (gmap_commit m) = gm_free m" "gm_cache (gmap_commit m) = gm_cache m"
    "length (gm_slot (gmap_commit m)) = GMAP_MAX_GROUPS" "length (gm_written (gmap_commit m)) = GMAP_MAX_GROUPS"
    "g < unat (gm_ngroups m) \<Longrightarrow> gm_slot (gmap_commit m) ! g = pending_slot m g"
    "g < unat (gm_ngroups m) \<Longrightarrow> \<not> gm_written (gmap_commit m) ! g"
  using gmap_commit_loop [of "unat (gm_ngroups m)" m "gmap_commit m"] assms
  by (auto simp: gmap_commit_def gm_wf_def gm_geo_def)

lemma gmap_commit_abs:
  assumes wf: "gm_wf m"
  shows "gm_wf (gmap_commit m)" "g < unat (gm_ngroups m) \<Longrightarrow> newest (gmap_commit m) g = newest m g"
    "g < unat (gm_ngroups m) \<Longrightarrow> committed (gmap_commit m) g = newest m g"
    "g < unat (gm_ngroups m) \<Longrightarrow> cur_bits img D (gmap_commit m) g = cur_bits img D m g"
    "gm_st img ok D m \<Longrightarrow> gm_st img ok D (gmap_commit m)"
proof -
  note f = gmap_commit_fields [OF wf]
  have geo: "gm_geo (gmap_commit m) = gm_geo m" by (simp add: gm_geo_def f)
  have sb: "sblk (gmap_commit m) = sblk m" by (simp add: sblk_def f fun_eq_iff)
  show wf': "gm_wf (gmap_commit m)"
    using wf unat_pending(2) [OF wf] unfolding gm_wf_def geo by (simp add: f)
  show nw: "newest (gmap_commit m) g = newest m g" if "g < unat (gm_ngroups m)" for g
    using that f by (simp add: newest_def sb pending_slot_def)
  show "committed (gmap_commit m) g = newest m g" if "g < unat (gm_ngroups m)" for g
    using that f by (simp add: newest_def committed_def sb)
  show "cur_bits img D (gmap_commit m) g = cur_bits img D m g" if "g < unat (gm_ngroups m)"
    using nw [OF that] by (simp add: cur_bits_def f split: option.split)
  show "gm_st img ok D (gmap_commit m)" if "gm_st img ok D m"
    using that wf' nw wf by (auto simp: gm_st_def f gm_sync_def gm_wf_def)
qed

lemma gmap_commit_inv:
  assumes "gmap_inv img ok D m"
  shows "gmap_inv img ok D (gmap_commit m)"
    and "b < unat (gm_total m) \<Longrightarrow> gm_used img D (gmap_commit m) b = gm_used img D m b"
proof -
  note d = gmap_inv_dest [OF assms]
  note f = gmap_commit_fields [OF d(3)] and a = gmap_commit_abs [OF d(3)]
  show u: "gm_used img D (gmap_commit m) b = gm_used img D m b" if "b < unat (gm_total m)" for b
    using group_of_block(1) [OF d(2) that] by (simp add: gm_used_def f a)
  have "nvalid (gmap_commit m) = nvalid m" "gm_reserved (gmap_commit m) = gm_reserved m"
    by (simp_all add: nvalid_def gm_reserved_def f fun_eq_iff)
  moreover have "nfree img D (gmap_commit m) g = nfree img D m g" if "g < unat (gm_ngroups m)" for g
    using a(4) [OF that, of img D] calculation by (simp add: nfree_def)
  ultimately show "gmap_inv img ok D (gmap_commit m)"
    using d(4,5) a(5) [OF d(1)] u by (simp add: gmap_inv_def f)
qed

text \<open>Adopting the tables of a superblock: the bitmap is the one in the committed slots.\<close>

lemma gmap_import_loop:
  assumes "n \<le> length (gm_slot m)" "n \<le> length (gm_written m)" "n \<le> length (gm_free m)"
    and "m' = fold (\<lambda>g m. m\<lparr>gm_slot := (gm_slot m)[g := if slot ! g \<noteq> 0 then 1 else 0],
            gm_written := (gm_written m)[g := False], gm_free := (gm_free m)[g := free ! g]\<rparr>) [0..<n] m"
  shows "gm_spb m' = gm_spb m \<and> gm_total m' = gm_total m \<and> gm_gb m' = gm_gb m \<and> gm_ngroups m' = gm_ngroups m \<and>
    gm_cache m' = gm_cache m \<and> length (gm_free m') = length (gm_free m) \<and>
    length (gm_slot m') = length (gm_slot m) \<and> length (gm_written m') = length (gm_written m) \<and>
    (\<forall>g < n. gm_slot m' ! g = (if slot ! g \<noteq> 0 then 1 else 0) \<and> \<not> gm_written m' ! g \<and> gm_free m' ! g = free ! g)"
  using assms
proof (induction n arbitrary: m')
  case (Suc n)
  let ?f = "\<lambda>g m. m\<lparr>gm_slot := (gm_slot m)[g := if slot ! g \<noteq> 0 then 1 else 0],
            gm_written := (gm_written m)[g := False], gm_free := (gm_free m)[g := free ! g]\<rparr>"
  define q where "q = fold ?f [0..<n] m"
  have m': "m' = ?f n q" using Suc.prems(4) by (simp add: q_def)
  have IH: "gm_spb q = gm_spb m \<and> gm_total q = gm_total m \<and> gm_gb q = gm_gb m \<and> gm_ngroups q = gm_ngroups m \<and>
    gm_cache q = gm_cache m \<and> length (gm_free q) = length (gm_free m) \<and>
    length (gm_slot q) = length (gm_slot m) \<and> length (gm_written q) = length (gm_written m) \<and>
    (\<forall>g < n. gm_slot q ! g = (if slot ! g \<noteq> 0 then 1 else 0) \<and> \<not> gm_written q ! g \<and> gm_free q ! g = free ! g)"
    using Suc.prems by (intro Suc.IH q_def) simp_all
  have "n < length (gm_slot q)" "n < length (gm_written q)" "n < length (gm_free q)" using IH Suc.prems by auto
  then show ?case using IH by (auto simp: m' less_Suc_eq)
qed simp

text \<open>The struct before the first use of its tables: what \<open>gmap_init\<close> establishes.\<close>

definition gm_shape :: "GMap \<Rightarrow> bool" where
  "gm_shape m \<longleftrightarrow> length (gm_slot m) = GMAP_MAX_GROUPS \<and> length (gm_written m) = GMAP_MAX_GROUPS \<and>
     length (gm_free m) = GMAP_MAX_GROUPS \<and> length (gm_cache m) = GMAP_CACHE \<and>
     (\<forall>e \<in> set (gm_cache m). length (ge_bits e) = EXFS_BLOCK)"

lemma gm_wf_shape: "gm_wf m \<Longrightarrow> gm_shape m"
  by (auto simp: gm_wf_def gm_shape_def in_set_conv_nth)

lemma gmap_import_fields:
  assumes sh: "gm_shape m" and geo: "gm_geo m" and m': "m' = gmap_import m slot free"
  shows "gm_spb m' = gm_spb m" "gm_total m' = gm_total m" "gm_gb m' = gm_gb m" "gm_ngroups m' = gm_ngroups m"
    "gm_wf m'" "i < GMAP_CACHE \<Longrightarrow> \<not> ge_valid (gm_cache m' ! i)"
    "g < unat (gm_ngroups m) \<Longrightarrow> gm_slot m' ! g = (if slot ! g \<noteq> 0 then 1 else 0)"
    "g < unat (gm_ngroups m) \<Longrightarrow> \<not> gm_written m' ! g"
    "g < unat (gm_ngroups m) \<Longrightarrow> gm_free m' ! g = free ! g"
proof -
  define q where "q = fold (\<lambda>g m. m\<lparr>gm_slot := (gm_slot m)[g := if slot ! g \<noteq> 0 then 1 else 0],
            gm_written := (gm_written m)[g := False], gm_free := (gm_free m)[g := free ! g]\<rparr>) [0..<unat (gm_ngroups m)] m"
  have ng: "unat (gm_ngroups m) \<le> 512" using geo by (simp add: gm_geo_def)
  have q: "gm_spb q = gm_spb m \<and> gm_total q = gm_total m \<and> gm_gb q = gm_gb m \<and> gm_ngroups q = gm_ngroups m \<and>
    gm_cache q = gm_cache m \<and> length (gm_free q) = length (gm_free m) \<and>
    length (gm_slot q) = length (gm_slot m) \<and> length (gm_written q) = length (gm_written m) \<and>
    (\<forall>g < unat (gm_ngroups m). gm_slot q ! g = (if slot ! g \<noteq> 0 then 1 else 0) \<and> \<not> gm_written q ! g \<and> gm_free q ! g = free ! g)"
    using sh ng by (intro gmap_import_loop q_def) (simp_all add: gm_shape_def)
  have m'q: "m' = q\<lparr>gm_cache := drop_cache (gm_cache q)\<rparr>" by (simp add: m' gmap_import_def q_def Let_def)
  show f: "gm_spb m' = gm_spb m" "gm_total m' = gm_total m" "gm_gb m' = gm_gb m" "gm_ngroups m' = gm_ngroups m"
    using q by (simp_all add: m'q)
  show v: "\<not> ge_valid (gm_cache m' ! i)" if "i < GMAP_CACHE" for i
    using that q sh by (simp add: m'q drop_cache_def gm_shape_def)
  show s: "gm_slot m' ! g = (if slot ! g \<noteq> 0 then 1 else 0)" "\<not> gm_written m' ! g" "gm_free m' ! g = free ! g"
    if "g < unat (gm_ngroups m)" for g using that q by (simp_all add: m'q)
  have "gm_geo m'" using geo f by (simp add: gm_geo_def)
  then show "gm_wf m'"
    using v s(1) f q sh by (simp add: gm_wf_def m'q drop_cache_def gm_shape_def)
qed

lemma gmap_import_abs:
  assumes sh: "gm_shape m" and geo: "gm_geo m" and m': "m' = gmap_import m slot free"
    and ok: "ok D" "spb_ok D (gm_spb m)"
    and sl: "\<And>g. g < unat (gm_ngroups m) \<Longrightarrow> slot ! g \<le> 1"
  shows "gm_st img ok D m'"
    and "g < unat (gm_ngroups m) \<Longrightarrow> cur_bits img D m' g = blk_bytes img D (sblk m g (unat (slot ! g)))"
proof -
  note f = gmap_import_fields [OF sh geo m']
  show "gm_st img ok D m'" using f ok by (simp add: gm_st_def gm_sync_def)
  show "cur_bits img D m' g = blk_bytes img D (sblk m g (unat (slot ! g)))" if g: "g < unat (gm_ngroups m)"
  proof -
    have "slot ! g \<le> 1" by (rule sl [OF g])
    then have "slot ! g = 0 \<or> slot ! g = 1" by (simp add: word_le_nat_alt word_unat_eq_iff le_Suc_eq)
    then have "newest m' g = sblk m g (unat (slot ! g))"
      using f(7) [OF g] f(8) [OF g] by (auto simp: newest_def pending_slot_def sblk_def f)
    then show ?thesis using cur_bits_uncached [OF f(5), of g img D] g f(4,6) by simp
  qed
qed

section \<open>Initialisation and format\<close>

lemma ceil_arith:
  fixes n b t :: nat
  assumes "n * b \<le> t + b - 1" "t + b - 1 < (n + 1) * b" "0 < n" "0 < b"
  shows "(n - 1) * b < t \<and> t \<le> n * b"
proof -
  obtain k where n: "n = Suc k" using assms(3) by (cases n) auto
  have "b + k * b \<le> t + b - 1" "t + b - 1 < b + (b + k * b)" using assms(1,2) by (simp_all add: n)
  then have "k * b < t" "t \<le> b + k * b" using assms(4) by linarith+
  then show ?thesis by (simp add: n)
qed

text \<open>The counter of groups cannot wrap: a volume size so large that \<open>total + group_blocks - 1\<close>
  overflows gives no group at all and is refused.\<close>

lemma ceil_groups:
  fixes tot :: u64 and gb :: u32
  assumes gb: "64 \<le> unat gb" "unat gb \<le> 32768"
    and ng: "ng = (tot + ucast gb - 1) div ucast gb" "ng \<noteq> 0" "ng \<le> 512"
  shows "(unat ng - 1) * unat gb < unat tot" "unat tot \<le> unat ng * unat gb" "0 < unat ng" "unat ng \<le> 512"
proof -
  have u: "unat (tot + ucast gb - 1) = (unat tot + unat gb - 1) mod 2 ^ 64"
  proof -
    have "unat (tot + (ucast gb - 1)) = (unat tot + unat (ucast gb - 1 :: u64)) mod 2 ^ 64"
      by (simp add: unat_word_ariths)
    moreover have "(1 :: u64) \<le> ucast gb" using gb by (simp add: word_le_nat_alt)
    then have "unat (ucast gb - 1 :: u64) = unat gb - 1" by (simp add: unat_sub)
    ultimately show ?thesis using gb by (simp add: add_diff_eq)
  qed
  have un: "unat ng = (unat tot + unat gb - 1) mod 2 ^ 64 div unat gb"
    unfolding ng(1) unat_div u by simp
  show p: "0 < unat ng" "unat ng \<le> 512" using ng(2,3) by (simp_all add: unat_gt_0 word_le_nat_alt)
  have nowrap: "unat tot + unat gb - 1 < 2 ^ 64"
  proof (rule ccontr)
    assume "\<not> unat tot + unat gb - 1 < 2 ^ 64"
    then have "(unat tot + unat gb - 1) mod 2 ^ 64 = unat tot + unat gb - 1 - 2 ^ 64"
      using unat_u64_bound [of tot] gb by (subst mod_if) (simp add: mod_less)
    then have "(unat tot + unat gb - 1) mod 2 ^ 64 < unat gb" using unat_u64_bound [of tot] gb by simp
    then have "unat ng = 0" unfolding un by simp
    with p show False by simp
  qed
  let ?N = "unat ng" and ?b = "unat gb"
  have n: "?N = (unat tot + ?b - 1) div ?b" using nowrap un by simp
  have "?N * ?b \<le> unat tot + ?b - 1" unfolding n by simp
  moreover have "unat tot + ?b - 1 < (?N + 1) * ?b"
    unfolding n using gb dividend_less_div_times [of ?b "unat tot + ?b - 1"] by simp
  ultimately show "(?N - 1) * ?b < unat tot" "unat tot \<le> ?N * ?b"
    using ceil_arith [of ?N ?b "unat tot"] p gb by simp_all
qed

lemma gmap_init_spec:
  assumes init: "gmap_init (Some m) (Some D) tot gb = (GMAP_OK, Some m')" and sh: "gm_shape m"
    and tot: "34 \<le> unat tot" and ss: "sector_size D \<le> 4096"
  shows "gm_geo m'" "gm_shape m'" "spb_ok D (gm_spb m')" "gm_total m' = tot" "gm_gb m' = gb"
    "i < GMAP_CACHE \<Longrightarrow> \<not> ge_valid (gm_cache m' ! i)"
proof -
  define ng where "ng = (tot + ucast gb - 1) div ucast gb"
  have b: "64 \<le> gb" "gb \<le> 32768" "ng \<noteq> 0" "ng \<le> 512" "sector_size D \<noteq> 0" "4096 mod sector_size D = 0"
    and m': "m' = m\<lparr>gm_spb := 4096 div sector_size D, gm_total := tot,
                  gm_gb := gb, gm_ngroups := ucast ng, gm_clock := 0,
                  gm_slot := fill_bytes (gm_slot m) 0 GMAP_MAX_GROUPS 0,
                  gm_written := fill_bytes (gm_written m) 0 GMAP_MAX_GROUPS False,
                  gm_free := fill_bytes (gm_free m) 0 GMAP_MAX_GROUPS 0,
                  gm_cache := drop_cache (gm_cache m)\<rparr>"
    using init by (auto simp: gmap_init_def Let_def ng_def blk_sector_size_def not_less split: if_splits)
  have ub: "64 \<le> unat gb" "unat gb \<le> 32768" using b(1,2) by (simp_all add: word_le_nat_alt)
  note cg = ceil_groups [OF ub ng_def b(3,4)]
  have ung: "unat (ucast ng :: u32) = unat ng" using cg(4) by (simp add: unat_ucast_64_32)
  show "gm_geo m'" using ub tot cg by (simp add: gm_geo_def m' ung)
  show "gm_shape m'" using sh by (auto simp: gm_shape_def m' drop_cache_def)
  have "unat (4096 mod sector_size D) = 0" using b(6) by simp
  then have "4096 mod unat (sector_size D) = 0" by (simp add: unat_mod)
  then show "spb_ok D (gm_spb m')"
    using div_mult_mod_eq [of 4096 "unat (sector_size D)"] by (simp add: spb_ok_def m' unat_div)
  show "gm_total m' = tot" "gm_gb m' = gb" by (simp_all add: m')
  show "\<not> ge_valid (gm_cache m' ! i)" if "i < GMAP_CACHE"
    using that sh by (simp add: m' drop_cache_def gm_shape_def)
qed

text \<open>A fresh bitmap has exactly the reserved bits and the bits past the end set.\<close>

lemma set_bits_fold:
  assumes "n \<le> 8 * length b"
  shows "length (fold (\<lambda>i b. bit_put b i True) [0..<n] b) = length b \<and>
    (\<forall>k. bit_of (fold (\<lambda>i b. bit_put b i True) [0..<n] b) k \<longleftrightarrow> bit_of b k \<or> k < n)"
  using assms
proof (induction n)
  case (Suc n)
  define q where "q = fold (\<lambda>i b. bit_put b i True) [0..<n] b"
  have IH: "length q = length b" "\<And>k. bit_of q k \<longleftrightarrow> bit_of b k \<or> k < n" using Suc unfolding q_def by simp_all
  have "n < 8 * length q" using IH(1) Suc.prems by simp
  then have "bit_of (bit_put q n True) k \<longleftrightarrow> bit_of b k \<or> k < Suc n" for k
    using bit_of_bit_put [of n q True k] IH(2) [of k] by (cases "k = n") (simp_all add: less_Suc_eq)
  then show ?case using IH(1) by (simp add: q_def)
qed simp

lemma bit_of_zeros: "k < 8 * n \<Longrightarrow> \<not> bit_of (replicate n 0) k"
  by (simp add: bit_of_iff less_mult_imp_div_less mult.commute)

definition fresh_step :: "nat \<Rightarrow> nat \<Rightarrow> u32 \<times> bytes \<Rightarrow> u32 \<times> bytes" where
  "fresh_step valid i = (\<lambda>(free, b). if i \<ge> valid then (free, bit_put b i True)
     else if \<not> bit_of b i then (free + 1, b) else (free, b))"

lemma fresh_fold:
  assumes "n \<le> 32768" "length b = EXFS_BLOCK" "\<And>k. k < 32768 \<Longrightarrow> bit_of b k \<longleftrightarrow> k < r"
    and "fold (fresh_step v) [0..<n] (0, b) = (fr, b')"
  shows "length b' = EXFS_BLOCK \<and> (\<forall>k < 32768. bit_of b' k \<longleftrightarrow> k < r \<or> (v \<le> k \<and> k < n)) \<and>
    unat fr = card {k. k < v \<and> k < n \<and> r \<le> k}"
  using assms(1,4)
proof (induction n arbitrary: fr b')
  case 0
  then show ?case using assms(2,3) by auto
next
  case (Suc n)
  obtain f q where fq: "fold (fresh_step v) [0..<n] (0, b) = (f, q)" by fastforce
  have IH: "length q = EXFS_BLOCK" "\<And>k. k < 32768 \<Longrightarrow> bit_of q k \<longleftrightarrow> k < r \<or> (v \<le> k \<and> k < n)"
    "unat f = card {k. k < v \<and> k < n \<and> r \<le> k}" using Suc.IH [OF _ fq] Suc.prems(1) by auto
  have st: "fresh_step v n (f, q) = (fr, b')" using Suc.prems(2) fq by simp
  have n: "n < 8 * length q" "n < 32768" using IH(1) Suc.prems(1) by simp_all
  have "card {k. k < v \<and> k < n \<and> r \<le> k} \<le> card {..<n}" by (rule card_mono) auto
  then have fb: "unat f < 32768" using IH(3) n(2) by simp
  consider (a) "v \<le> n" | (b) "n < v" "n < r" | (c) "n < v" "r \<le> n" by linarith
  then show ?case
  proof cases
    case a
    then have e: "fr = f" "b' = bit_put q n True" using st by (simp_all add: fresh_step_def)
    have "{k. k < v \<and> k < Suc n \<and> r \<le> k} = {k. k < v \<and> k < n \<and> r \<le> k}" using a by auto
    then show ?thesis using e IH bit_of_bit_put [OF n(1), of True] a by (auto simp: less_Suc_eq)
  next
    case b
    then have e: "fr = f" "b' = q" using st IH(2) [OF n(2)] by (simp_all add: fresh_step_def)
    have "{k. k < v \<and> k < Suc n \<and> r \<le> k} = {k. k < v \<and> k < n \<and> r \<le> k}" using b by (auto simp: less_Suc_eq)
    then show ?thesis using e IH b by (auto simp: less_Suc_eq)
  next
    case c
    then have e: "fr = f + 1" "b' = q" using st IH(2) [OF n(2)] by (simp_all add: fresh_step_def)
    have "{k. k < v \<and> k < Suc n \<and> r \<le> k} = insert n {k. k < v \<and> k < n \<and> r \<le> k}" using c by (auto simp: less_Suc_eq)
    then have "card {k. k < v \<and> k < Suc n \<and> r \<le> k} = Suc (unat f)" using IH(3) by simp
    then show ?thesis using e IH c fb by (auto simp: less_Suc_eq unat_word_ariths)
  qed
qed

lemma fresh_bits_spec:
  assumes geo: "gm_geo m" and g: "unat g < unat (gm_ngroups m)" and len: "length bits = EXFS_BLOCK"
    and fb: "fresh_bits m g bits = (fr, b')"
  shows "length b' = EXFS_BLOCK"
    and "k < nvalid m (unat g) \<Longrightarrow> bit_of b' k \<longleftrightarrow> k < nresv (unat g)"
    and "unat fr = card {k. k < nvalid m (unat g) \<and> \<not> bit_of b' k}"
proof -
  let ?v = "nvalid m (unat g)" and ?r = "nresv (unat g)" and ?n = "unat (gm_gb m)"
  let ?z = "fold (\<lambda>i b. bit_put b i True) [0..<?r] (replicate EXFS_BLOCK 0)"
  have r: "(if g = 0 then 20 else 2) = ?r" by (simp add: nresv_def unat_eq_zero)
  have n: "?n \<le> 32768" and v: "?v \<le> ?n" using geo by (simp_all add: gm_geo_def nvalid_def)
  have sb: "length ?z = EXFS_BLOCK" "\<And>k. bit_of ?z k \<longleftrightarrow> bit_of (replicate EXFS_BLOCK 0) k \<or> k < ?r"
    using set_bits_fold [of ?r "replicate EXFS_BLOCK 0"] by (auto simp: nresv_def)
  have z: "bit_of ?z k \<longleftrightarrow> k < ?r" if "k < 32768" for k
    using sb(2) [of k] bit_of_zeros [of k EXFS_BLOCK] that by simp
  have "fold (fresh_step ?v) [0..<?n] (0, ?z) = (fr, b')"
    using fb unfolding fresh_bits_def fresh_step_def Let_def r
    by (simp add: fill_bytes_all [OF len] unat_valid_bits [OF geo g])
  from fresh_fold [OF n sb(1) z this] have fs: "length b' = EXFS_BLOCK"
    "\<And>k. k < 32768 \<Longrightarrow> bit_of b' k \<longleftrightarrow> k < ?r \<or> (?v \<le> k \<and> k < ?n)" "unat fr = card {k. k < ?v \<and> k < ?n \<and> ?r \<le> k}"
    by auto
  show "length b' = EXFS_BLOCK" by (rule fs(1))
  show b: "bit_of b' k \<longleftrightarrow> k < ?r" if "k < ?v" for k using fs(2) [of k] that v n by auto
  have "{k. k < ?v \<and> k < ?n \<and> ?r \<le> k} = {k. k < ?v \<and> \<not> bit_of b' k}" using v b by auto
  then show "unat fr = card {k. k < ?v \<and> \<not> bit_of b' k}" using fs(3) by simp
qed

text \<open>What \<open>gmap_format\<close> has done for a group once its round is over.\<close>

definition formatted :: "('d BlkDev \<Rightarrow> nat \<Rightarrow> u8) \<Rightarrow> 'd BlkDev \<Rightarrow> GMap \<Rightarrow> nat \<Rightarrow> bool" where
  "formatted img D m g \<longleftrightarrow> gm_slot m ! g = 0 \<and> \<not> gm_written m ! g \<and>
     (\<forall>k < nvalid m g. bit_of (blk_bytes img D (sblk m g 0)) k \<longleftrightarrow> k < nresv g) \<and>
     unat (gm_free m ! g) = card {k. k < nvalid m g \<and> \<not> bit_of (blk_bytes img D (sblk m g 0)) k}"

definition fmt_keeps :: "('d BlkDev \<Rightarrow> nat \<Rightarrow> u8) \<Rightarrow> 'd BlkDev \<Rightarrow> GMap \<Rightarrow> 'd BlkDev \<Rightarrow> GMap \<Rightarrow> nat set \<Rightarrow> bool" where
  "fmt_keeps img D m D' m' S \<longleftrightarrow> gm_spb m' = gm_spb m \<and> gm_total m' = gm_total m \<and> gm_gb m' = gm_gb m \<and>
     gm_ngroups m' = gm_ngroups m \<and> gm_cache m' = gm_cache m \<and> length (gm_slot m') = length (gm_slot m) \<and>
     length (gm_written m') = length (gm_written m) \<and> length (gm_free m') = length (gm_free m) \<and>
     same_geometry D D' \<and>
     (\<forall>h. h \<notin> S \<longrightarrow> gm_slot m' ! h = gm_slot m ! h \<and> gm_written m' ! h = gm_written m ! h \<and> gm_free m' ! h = gm_free m ! h) \<and>
     (\<forall>c. c \<notin> (\<lambda>g. sblk m g 0) ` S \<longrightarrow> blk_bytes img D' c = blk_bytes img D c)"

lemma fmt_keeps_fun:
  assumes "fmt_keeps img D m D' m' S"
  shows "sblk m' = sblk m" "nvalid m' = nvalid m" "gm_geo m' = gm_geo m" "gm_ngroups m' = gm_ngroups m"
  using assms by (simp_all add: fmt_keeps_def sblk_def nvalid_def gm_geo_def fun_eq_iff)

lemma fmt_keeps_trans:
  assumes "fmt_keeps img D m D1 m1 S" "fmt_keeps img D1 m1 D' m' T"
  shows "fmt_keeps img D m D' m' (S \<union> T)"
  using assms fmt_keeps_fun(1) [OF assms(1)] same_geometry_trans unfolding fmt_keeps_def by (auto simp: image_Un)

lemma formatted_keeps:
  assumes "formatted img D m g" "fmt_keeps img D m D' m' S" "g \<notin> S" "gm_geo m"
  shows "formatted img D' m' g"
proof -
  have "sblk m g 0 \<notin> (\<lambda>g. sblk m g 0) ` S" using assms(3,4) by (auto simp: sblk_inj)
  then have "blk_bytes img D' (sblk m g 0) = blk_bytes img D (sblk m g 0)" using assms(2) by (simp add: fmt_keeps_def)
  then show ?thesis
    using assms(1,2,3) fmt_keeps_fun [OF assms(2)] by (simp add: formatted_def fmt_keeps_def)
qed

context blk_medium
begin

lemma format_loop_spec:
  assumes "ok D" "spb_ok D (gm_spb m)" "gm_geo m" "gm_shape m" "length bits = EXFS_BLOCK"
    and "distinct gs" "\<forall>g \<in> set gs. g < unat (gm_ngroups m)" "format_loop m D bits gs = (GMAP_OK, m', D')"
  shows "ok D' \<and> fmt_keeps img D m D' m' (set gs) \<and> (\<forall>g \<in> set gs. formatted img D' m' g)"
  using assms
proof (induction gs arbitrary: m D bits)
  case Nil
  then show ?case by (simp add: fmt_keeps_def)
next
  case (Cons g gs)
  have g: "g < unat (gm_ngroups m)" "g < 512" using Cons.prems(3,7) by (auto simp: gm_geo_def)
  then have ug: "unat (of_nat g :: u32) = g" by (simp add: unat_of_nat_u32)
  obtain fr b where fb: "fresh_bits m (of_nat g) bits = (fr, b)" by fastforce
  note fs = fresh_bits_spec [OF Cons.prems(3) _ Cons.prems(5) fb, unfolded ug, OF g(1)]
  let ?m1 = "m\<lparr>gm_free := (gm_free m)[g := fr]\<rparr>"
  obtain rc D1 where gw: "gwrite ?m1 D (of_nat g) 0 b = (rc, D1)" by fastforce
  have ug': "unat (of_nat g :: u32) < unat (gm_ngroups ?m1)" using ug g by simp
  have gs: "ok D1" "same_geometry D D1" "\<And>c. c \<noteq> sblk m g 0 \<Longrightarrow> blk_bytes img D1 c = blk_bytes img D c"
    "rc = GMAP_OK \<Longrightarrow> blk_bytes img D1 (sblk m g 0) = b"
    using gwrite_spec [of D ?m1 "of_nat g" 0 b rc D1] Cons.prems(1-3) ug' fs(1) gw ug by simp_all
  let ?m2 = "?m1\<lparr>gm_slot := (gm_slot m)[g := 0], gm_written := (gm_written m)[g := False]\<rparr>"
  have rc: "rc = GMAP_OK" and lp: "format_loop ?m2 D1 b gs = (GMAP_OK, m', D')"
    using Cons.prems(8) fb gw by (simp_all add: Let_def split: if_splits)
  have len: "g < length (gm_slot m)" "g < length (gm_written m)" "g < length (gm_free m)"
    using Cons.prems(4) g by (auto simp: gm_shape_def)
  have k1: "fmt_keeps img D m D1 ?m2 {g}" using gs(2,3) by (simp add: fmt_keeps_def)
  note kf = fmt_keeps_fun [OF k1]
  have f1: "formatted img D1 ?m2 g"
    using len gs(4) [OF rc] fs(2,3) by (simp add: formatted_def kf)
  have p: "spb_ok D1 (gm_spb ?m2)" "gm_shape ?m2" "gm_geo ?m2"
    using Cons.prems(2,3,4) gs(2) kf(3) by (simp_all add: spb_ok_geometry gm_shape_def)
  have IH: "ok D' \<and> fmt_keeps img D1 ?m2 D' m' (set gs) \<and> (\<forall>g \<in> set gs. formatted img D' m' g)"
    using Cons.prems(6,7) fs(1) kf(4) by (intro Cons.IH [OF gs(1) p(1,3,2) _ _ _ lp]) auto
  then have "formatted img D' m' g" using formatted_keeps [OF f1 _ _ p(3)] Cons.prems(6) by auto
  then show ?case using IH fmt_keeps_trans [OF k1] by simp
qed

lemma gmap_format_spec:
  assumes "ok D" "spb_ok D (gm_spb m)" "gm_geo m" "gm_shape m" "length bits = EXFS_BLOCK"
    and fm: "gmap_format m D bits = (GMAP_OK, m', D')"
  shows "gmap_inv img ok D' m'" and "\<And>b. b < unat (gm_total m) \<Longrightarrow> gm_used img D' m' b \<longleftrightarrow> gm_reserved m b"
    and "gm_total m' = gm_total m" "gm_gb m' = gm_gb m" "gm_ngroups m' = gm_ngroups m" "gm_spb m' = gm_spb m"
    and "\<And>c. c \<notin> (\<lambda>g. sblk m g 0) ` {..<unat (gm_ngroups m)} \<Longrightarrow> blk_bytes img D' c = blk_bytes img D c"
    and "same_geometry D D'"
proof -
  let ?n = "unat (gm_ngroups m)"
  obtain q where lp: "format_loop m D bits [0..<?n] = (GMAP_OK, q, D')" and m': "m' = q\<lparr>gm_cache := drop_cache (gm_cache q)\<rparr>"
    using fm by (auto simp: gmap_format_def split: prod.splits if_splits)
  have "ok D' \<and> fmt_keeps img D m D' q (set [0..<?n]) \<and> (\<forall>g \<in> set [0..<?n]. formatted img D' q g)"
    by (rule format_loop_spec [OF assms(1-5) _ _ lp]) simp_all
  then have ok: "ok D'" and k: "fmt_keeps img D m D' q {0..<?n}" and f: "\<And>g. g < ?n \<Longrightarrow> formatted img D' q g" by auto
  note kf = fmt_keeps_fun [OF k]
  have kk: "gm_spb q = gm_spb m" "gm_total q = gm_total m" "gm_gb q = gm_gb m" "gm_cache q = gm_cache m"
    "same_geometry D D'" using k by (simp_all add: fmt_keeps_def)
  have fd: "gm_spb m' = gm_spb m" "gm_total m' = gm_total m" "gm_gb m' = gm_gb m" "gm_ngroups m' = gm_ngroups m"
    "gm_slot m' = gm_slot q" "gm_written m' = gm_written q" "gm_free m' = gm_free q"
    using kk kf(4) by (simp_all add: m')
  then show "gm_total m' = gm_total m" "gm_gb m' = gm_gb m" "gm_ngroups m' = gm_ngroups m" "gm_spb m' = gm_spb m" by auto
  show "same_geometry D D'" by (rule kk(5))
  have fn: "sblk m' = sblk m" "nvalid m' = nvalid m" "gm_geo m' = gm_geo m" "gm_reserved m' = gm_reserved m"
    by (simp_all add: sblk_def nvalid_def gm_geo_def gm_reserved_def fd fun_eq_iff)
  have v: "\<not> ge_valid (gm_cache m' ! i)" if "i < GMAP_CACHE" for i
    using that assms(4) by (simp add: m' kk drop_cache_def gm_shape_def)
  have wf: "gm_wf m'"
    using assms(3,4) v f k unfolding gm_wf_def fn(3) fd
    by (simp add: m' kk drop_cache_def gm_shape_def formatted_def fmt_keeps_def)
  have cb: "cur_bits img D' m' g = blk_bytes img D' (sblk m g 0)" if "g < ?n" for g
    using cur_bits_uncached [OF wf, of g img D'] that v f [OF that]
    by (simp add: fd newest_def pending_slot_def fn formatted_def)
  show u: "gm_used img D' m' b \<longleftrightarrow> gm_reserved m b" if b: "b < unat (gm_total m)" for b
    using group_of_block [OF assms(3) b] cb f kf by (simp add: gm_used_def fd gm_reserved_def formatted_def)
  have "gm_st img ok D' m'" using ok wf v assms(2) kk(5) by (simp add: gm_st_def fd gm_sync_def spb_ok_geometry)
  moreover have "unat (gm_free m' ! g) = nfree img D' m' g" if "g < ?n" for g
    using f [OF that] kf by (simp add: fd nfree_def fn cb [OF that] formatted_def)
  ultimately show "gmap_inv img ok D' m'" using u by (simp add: gmap_inv_def fd fn)
  show "blk_bytes img D' c = blk_bytes img D c" if "c \<notin> (\<lambda>g. sblk m g 0) ` {..<?n}" for c
    using k that by (simp add: fmt_keeps_def lessThan_atLeast0)
qed

end

end
