(* ===== verification/Gmap_Live.thy ===== *)
theory Gmap_Live
  imports Gmap_Commit
begin

text \<open>
  The group map on a medium that does not fail, the crash argument over sequences of
  operations, and the properties of the group map.
\<close>

section \<open>No I/O errors on a reliable medium\<close>

definition slots_fit :: "'d BlkDev \<Rightarrow> GMap \<Rightarrow> bool" where
  "slots_fit D m \<longleftrightarrow> (\<forall>g < unat (gm_ngroups m).
     sblk m g 1 * unat (gm_spb m) + unat (gm_spb m) \<le> unat (sector_count D))"

lemma slots_fit_same: "gm_same m m' \<Longrightarrow> same_geometry D D' \<Longrightarrow> slots_fit D m \<Longrightarrow> slots_fit D' m'"
  using gm_same_fun(1) [of m m'] by (simp add: slots_fit_def gm_same_def same_geometry_def)

lemma slots_fit_slot:
  assumes "slots_fit D m" "g < unat (gm_ngroups m)" "s \<le> 1"
  shows "sblk m g s * unat (gm_spb m) + unat (gm_spb m) \<le> unat (sector_count D)"
proof -
  have "sblk m g s \<le> sblk m g 1" using assms(3) by (simp add: sblk_def)
  then have "sblk m g s * unat (gm_spb m) \<le> sblk m g 1 * unat (gm_spb m)" by (rule mult_le_mono1)
  moreover have "sblk m g 1 * unat (gm_spb m) + unat (gm_spb m) \<le> unat (sector_count D)"
    using assms(1,2) unfolding slots_fit_def by blast
  ultimately show ?thesis by linarith
qed

context blk_reliable
begin

lemma slot_io_ok:
  assumes "ok D" "spb_ok D (gm_spb m)" "gm_geo m" "slots_fit D m" "unat g < unat (gm_ngroups m)" "s \<le> 1"
  shows "fst (gwrite m D g s bits) = GMAP_OK" "fst (gread m D g s bits) = GMAP_OK"
proof -
  have s: "unat s \<le> 1" using assms(6) by (simp add: word_le_nat_alt)
  have u: "unat (slot_block m g s) = sblk m (unat g) (unat s)"
    by (rule unat_slot_block [OF assms(3,5,6)])
  have b: "unat (slot_block m g s) < 2 ^ 52" unfolding u by (rule sblk_bound [OF assms(3,5) s])
  have f: "unat (slot_block m g s) * unat (gm_spb m) + unat (gm_spb m) \<le> unat (sector_count D)"
    unfolding u by (rule slots_fit_slot [OF assms(4,5) s])
  note io = block_io_succeeds [OF assms(1,2) b f]
  show "fst (gwrite m D g s bits) = GMAP_OK" "fst (gread m D g s bits) = GMAP_OK"
    using io [of bits] by (auto simp: gwrite_def gread_def Let_def split: prod.splits)
qed

lemma flush_one_live:
  assumes st: "gm_st img ok D m" and fit: "slots_fit D m" and i: "i < GMAP_CACHE" "ge_valid (gm_cache m ! i)"
  shows "fst (flush_one m D i) = GMAP_OK"
proof -
  note d = gm_st_dest [OF st]
  let ?g = "ge_g (gm_cache m ! i)"
  have g: "unat ?g < unat (gm_ngroups m)" using d(3) i by (simp add: gm_wf_def)
  then have "gm_slot m ! unat ?g \<le> 1" using d(3) by (simp add: gm_wf_def)
  then have "1 - gm_slot m ! unat ?g \<le> 1" using unat_flip by blast
  from slot_io_ok(1) [OF d(1,2,5) fit g this, of "ge_bits (gm_cache m ! i)"] show ?thesis
    by (auto simp: flush_one_def Let_def split: prod.splits)
qed

lemma load_live:
  assumes st: "gm_st img ok D m" and fit: "slots_fit D m" and g: "unat g < unat (gm_ngroups m)"
  shows "fst (load m D g) \<noteq> None"
proof (cases "find_entry (gm_cache m) g")
  case (Some i)
  then show ?thesis by (simp add: load_def Let_def)
next
  case None
  note d = gm_st_dest [OF st]
  from d(6) have "gm_cache m \<noteq> []" by auto
  then obtain v where pv: "pick_victim (gm_cache m) 0 None = Some v" and v: "v < GMAP_CACHE"
    using pick_victim_ok d(6) by metis
  obtain rc m1 D1 where fl: "(if ge_valid (gm_cache m ! v) \<and> ge_dirty (gm_cache m ! v) then flush_one m D v
            else (GMAP_OK, m, D)) = (rc, m1, D1)" by (metis prod_cases3)
  have rc: "rc = GMAP_OK"
    using fl flush_one_live [OF st fit v] by (auto split: if_splits)
  have ev: "evicted D m v D1 m1" using evict_ok [OF st v] fl rc by simp
  then have st1: "gm_st img ok D1 m1" and s1: "gm_same m m1" "same_geometry D D1" by (auto simp: evicted_def)
  have g1: "unat g < unat (gm_ngroups m1)" using g s1 by (simp add: gm_same_def)
  note d1 = gm_st_dest [OF st1]
  have rd: "fst (gread m1 D1 g (pending_slot m1 (unat g)) b) = GMAP_OK" for b
    by (rule slot_io_ok(2) [OF d1(1,2,5) slots_fit_same [OF s1 fit] g1 unat_pending(2) [OF d1(3) g1]])
  show ?thesis
    using None pv fl rc rd [of "ge_bits (gm_cache m1 ! v)"]
    by (auto simp: load_def Let_def pending_slot_def [symmetric] split: prod.splits)
qed

lemma take_group_live:
  assumes "gmap_inv img ok D m" "slots_fit D m" "unat g < unat (gm_ngroups m)"
  shows "fst (take_group m D g from need) \<noteq> GMAP_EIO"
proof -
  have "fst (load m D g) \<noteq> None"
    using assms gmap_inv_dest(1) by (intro load_live) auto
  then show ?thesis
    by (auto simp: take_group_def Let_def split: prod.splits option.splits)
qed

lemma take_loop_live:
  assumes "gmap_inv img ok D m" "slots_fit D m" "g0 < gm_ngroups m" "unat off0 \<le> 32768" "need \<noteq> 0"
    and "\<forall>k \<in> set ks. k \<le> 512"
  shows "fst (take_loop m D g0 off0 need ks) \<noteq> GMAP_EIO"
  using assms
proof (induction ks arbitrary: m D)
  case (Cons k ks)
  note d = gmap_inv_dest [OF Cons.prems(1)]
  let ?g = "(g0 + of_nat k) mod gm_ngroups m" and ?f = "if k = 0 then unat off0 else 0"
  have ng: "unat (gm_ngroups m) \<le> 512" "0 < unat (gm_ngroups m)" using d(2) by (auto simp: gm_geo_def)
  have "unat ?g = (unat g0 + k) mod unat (gm_ngroups m)"
    using Cons.prems ng by (intro unat_rotate) auto
  then have g: "unat ?g < unat (gm_ngroups m)" using ng by simp
  have f: "?f \<le> 32768" using Cons.prems(4) by simp
  obtain rc1 s1 l1 m1 D1 where tk: "take_group m D ?g ?f need = (rc1, s1, l1, m1, D1)"
    by (metis prod.exhaust)
  have live: "rc1 \<noteq> GMAP_EIO" using take_group_live [OF Cons.prems(1,2) g, of ?f need] tk by simp
  note tg = take_group_spec [OF Cons.prems(1) g f Cons.prems(5) tk]
  show ?case
  proof (cases "rc1 = GMAP_ENOSPC")
    case True
    then have inv1: "gmap_inv img ok D1 m1" using gmap_inv_eqv [OF Cons.prems(1) _ tg(4)] tg(6) by simp
    have "g0 < gm_ngroups m1" using Cons.prems(3) tg(2) by (simp add: gm_same_def)
    with Cons.IH [OF inv1 slots_fit_same [OF tg(2,3) Cons.prems(2)]] Cons.prems tk True
    show ?thesis by simp
  next
    case False
    with tk live show ?thesis by simp
  qed
qed simp

lemma gmap_take_live:
  assumes inv: "gmap_inv img ok D m" and fit: "slots_fit D m"
  shows "fst (gmap_take m D hint need) \<noteq> GMAP_EIO"
proof -
  note d = gmap_inv_dest [OF inv]
  have ng: "unat (gm_ngroups m) \<le> 512" "0 < unat (gm_ngroups m)" and gb: "64 \<le> unat (gm_gb m)" "unat (gm_gb m) \<le> 32768"
    using d(2) by (auto simp: gm_geo_def)
  have um: "unat (hint mod ucast (gm_gb m)) = unat hint mod unat (gm_gb m)" by (simp add: unat_mod)
  have lt: "unat hint mod unat (gm_gb m) < unat (gm_gb m)" using gb by (intro mod_less_divisor) simp
  have "unat (hint mod ucast (gm_gb m)) < 4294967296" unfolding um using lt gb by linarith
  from unat_ucast_64_32 [OF this] have "unat (ucast (hint mod ucast (gm_gb m)) :: u32) \<le> 32768"
    unfolding um using lt gb by linarith
  then have o: "unat (if b then 0 else ucast (hint mod ucast (gm_gb m)) :: u32) \<le> 32768" for b by simp
  have g: "(if g \<ge> gm_ngroups m then 0 else g) < gm_ngroups m" for g
    using ng by (auto simp: word_gt_0 unat_gt_0 not_le)
  have ks: "\<forall>k \<in> set [0..<Suc (unat (gm_ngroups m))]. k \<le> 512" using ng by auto
  let ?g = "ucast (hint div ucast (gm_gb m)) :: u32"
  show ?thesis
    using take_loop_live [OF inv fit g [of ?g] o [of "gm_ngroups m \<le> ?g"] _ ks, of need]
    unfolding gmap_take_def by (cases "gm_ngroups m \<le> ?g") (simp_all add: Let_def del: upt_Suc)
qed

lemma release_loop_live:
  assumes "gmap_inv img ok D m" "slots_fit D m" "\<forall>b \<in> set bs. b < unat (gm_total m) \<and> \<not> gm_reserved m b"
  shows "fst (release_loop m D bs) \<noteq> GMAP_EIO"
  using assms
proof (induction bs arbitrary: m D)
  case (Cons b bs)
  note d = gmap_inv_dest [OF Cons.prems(1)]
  have b: "b < unat (gm_total m)" "\<not> gm_reserved m b" using Cons.prems(3) by simp_all
  have ub: "unat (of_nat b :: u64) = b" using b(1) unat_u64_bound [of "gm_total m"] by (simp add: unat_of_nat_u64)
  have ub': "unat (of_nat b :: u64) < unat (gm_total m)" using ub b by simp
  obtain rc1 m1 D1 where r1: "release_one m D (of_nat b) = (rc1, m1, D1)" by (metis prod_cases3)
  note rs = release_one_spec [OF Cons.prems(1) ub' r1, unfolded ub]
  let ?g = "ucast ((of_nat b :: u64) div ucast (gm_gb m)) :: u32"
  have "unat ?g < unat (gm_ngroups m)"
    using unat_group_split(1) [OF d(2) ub'] group_of_block(1) [OF d(2) b(1)] ub by simp
  from load_live [OF d(1) Cons.prems(2) this] have live: "rc1 \<noteq> GMAP_EIO"
    using r1 by (auto simp: release_one_def Let_def split: prod.splits option.splits if_splits)
  show ?case
  proof (cases "rc1 = GMAP_OK")
    case True
    then have inv1: "gmap_inv img ok D1 m1" using rs(7) b(2) by simp
    have "\<forall>b \<in> set bs. b < unat (gm_total m1) \<and> \<not> gm_reserved m1 b"
      using Cons.prems(3) rs(2) gm_reserved_same [OF rs(2)] by (simp add: gm_same_def)
    from Cons.IH [OF inv1 slots_fit_same [OF rs(2,3) Cons.prems(2)] this] show ?thesis
      using r1 True by simp
  next
    case False
    then show ?thesis using r1 live by simp
  qed
qed simp

lemma flush_loop_live:
  assumes "gm_st img ok D m" "slots_fit D m" "\<forall>i \<in> set is. i < GMAP_CACHE"
  shows "fst (flush_loop m D is) = GMAP_OK"
  using assms
proof (induction "is" arbitrary: m D)
  case (Cons i "is")
  show ?case
  proof (cases "ge_valid (gm_cache m ! i) \<and> ge_dirty (gm_cache m ! i)")
    case True
    have i: "i < GMAP_CACHE" using Cons.prems(3) by simp
    obtain rc1 m1 D1 where fl: "flush_one m D i = (rc1, m1, D1)" by (metis prod_cases3)
    have ok: "rc1 = GMAP_OK" using flush_one_live [OF Cons.prems(1,2) i] True fl by simp
    note fs = flush_one_spec [OF Cons.prems(1) i conjunct1 [OF True] fl]
    from Cons.IH [OF fs(10) [OF ok] slots_fit_same [OF fs(2,6) Cons.prems(2)]] Cons.prems(3) fl ok True
    show ?thesis by simp
  next
    case False
    with Cons show ?thesis by (auto split: if_split)
  qed
qed simp

lemma format_loop_live:
  assumes "ok D" "spb_ok D (gm_spb m)" "gm_geo m" "slots_fit D m" "length bits = EXFS_BLOCK"
    and "\<forall>g \<in> set gs. g < unat (gm_ngroups m)"
  shows "fst (format_loop m D bits gs) = GMAP_OK"
  using assms
proof (induction gs arbitrary: m D bits)
  case (Cons g gs)
  have g: "g < unat (gm_ngroups m)" "g < 512" using Cons.prems(3,6) by (auto simp: gm_geo_def)
  then have ug: "unat (of_nat g :: u32) = g" by (simp add: unat_of_nat_u32)
  obtain fr b where fb: "fresh_bits m (of_nat g) bits = (fr, b)" by fastforce
  have lb: "length b = EXFS_BLOCK" using fresh_bits_spec(1) [OF Cons.prems(3) _ Cons.prems(5) fb] ug g by simp
  let ?m1 = "m\<lparr>gm_free := (gm_free m)[g := fr]\<rparr>"
  obtain rc D1 where gw: "gwrite ?m1 D (of_nat g) 0 b = (rc, D1)" by fastforce
  have ug': "unat (of_nat g :: u32) < unat (gm_ngroups ?m1)" using ug g by simp
  have fit1: "slots_fit D ?m1" using Cons.prems(4) by (simp add: slots_fit_def)
  have rc: "rc = GMAP_OK"
    using slot_io_ok(1) [OF Cons.prems(1) _ _ fit1 ug', of 0 b] Cons.prems(2,3) gw by simp
  have gs: "ok D1" "same_geometry D D1"
    using gwrite_spec [of D ?m1 "of_nat g" 0 b rc D1] Cons.prems(1-3) ug' lb gw by simp_all
  let ?m2 = "?m1\<lparr>gm_slot := (gm_slot m)[g := 0], gm_written := (gm_written m)[g := False]\<rparr>"
  have "sblk ?m2 = sblk m" by (simp add: sblk_def fun_eq_iff)
  then have "slots_fit D1 ?m2" "spb_ok D1 (gm_spb ?m2)" "gm_geo ?m2"
    using Cons.prems(2,3,4) gs(2) by (simp_all add: slots_fit_def same_geometry_def spb_ok_def gm_geo_def)
  with Cons.IH [of D1 ?m2 b] gs(1) lb Cons.prems(6) have "fst (format_loop ?m2 D1 b gs) = GMAP_OK" by simp
  then show ?case using fb gw rc by (simp add: Let_def)
qed simp

lemma gmap_format_live:
  assumes "ok D" "spb_ok D (gm_spb m)" "gm_geo m" "slots_fit D m" "length bits = EXFS_BLOCK"
  shows "fst (gmap_format m D bits) = GMAP_OK"
  using format_loop_live [OF assms, of "[0..<unat (gm_ngroups m)]"]
  by (auto simp: gmap_format_def Let_def split: prod.splits)

end

section \<open>Crash safety\<close>

text \<open>The calls between two commits, whatever they return.\<close>

inductive gm_step :: "GMap \<times> 'd BlkDev \<Rightarrow> GMap \<times> 'd BlkDev \<Rightarrow> bool" where
  step_take: "gmap_take m D hint need = (rc, s, l, m', D') \<Longrightarrow> gm_step (m, D) (m', D')"
| step_release: "\<forall>b \<in> {unat start..<unat (start + len)}. b < unat (gm_total m) \<Longrightarrow>
    gmap_release m D start len = (rc, m', D') \<Longrightarrow> gm_step (m, D) (m', D')"
| step_is_used: "unat b < unat (gm_total m) \<Longrightarrow> gmap_is_used m D b = (r, m', D') \<Longrightarrow> gm_step (m, D) (m', D')"
| step_flush: "gmap_flush m D = (rc, m', D') \<Longrightarrow> gm_step (m, D) (m', D')"

definition gm_frame ::
  "('d BlkDev \<Rightarrow> nat \<Rightarrow> u8) \<Rightarrow> ('d BlkDev \<Rightarrow> bool) \<Rightarrow> 'd BlkDev \<Rightarrow> GMap \<Rightarrow> 'd BlkDev \<Rightarrow> GMap \<Rightarrow> bool" where
  "gm_frame img ok D m D' m' \<longleftrightarrow> gm_st img ok D' m' \<and> gm_same m m' \<and> same_geometry D D' \<and> spare_frame img m D D'"

lemma gm_frame_refl: "gm_st img ok D m \<Longrightarrow> gm_frame img ok D m D m"
  by (simp add: gm_frame_def)

lemma gm_frame_trans:
  "gm_frame img ok D m D1 m1 \<Longrightarrow> gm_frame img ok D1 m1 D2 m2 \<Longrightarrow> gm_frame img ok D m D2 m2"
  unfolding gm_frame_def
  using gm_same_trans same_geometry_trans spare_frame_trans by blast

context blk_medium
begin

lemma load_frame:
  assumes "gm_st img ok D m" "unat g < unat (gm_ngroups m)" "load m D g = (r, m', D')"
  shows "gm_frame img ok D m D' m'"
  using load_spec(1,2,4,5) [OF assms] by (simp add: gm_frame_def)

lemma put_frame:
  assumes st: "gm_st img ok D m" and x: "x < GMAP_CACHE" "ge_valid (gm_cache m ! x)"
    and len: "length bits = EXFS_BLOCK" "length fr = length (gm_free m)"
  shows "gm_frame img ok D m D ((put_bits m x bits)\<lparr>gm_free := fr\<rparr>)"
  using put_bits_spec(1,2) [OF st x refl len refl] by (simp add: gm_frame_def)

lemma take_group_frame:
  assumes st: "gm_st img ok D m" and g: "unat g < unat (gm_ngroups m)"
    and tk: "take_group m D g from need = (rc, s, l, m', D')"
  shows "gm_frame img ok D m D' m'"
proof (cases "gm_free m ! unat g = 0")
  case True
  with tk st show ?thesis by (simp add: take_group_def gm_frame_refl)
next
  case False
  obtain r m1 D1 where ld: "load m D g = (r, m1, D1)" by (metis prod_cases3)
  note lf = load_frame [OF st g ld]
  show ?thesis
  proof (cases r)
    case None
    with False tk ld lf show ?thesis by (simp add: take_group_def)
  next
    case (Some x)
    let ?b = "ge_bits (gm_cache m1 ! x)" and ?v = "unat (valid_bits m1 g)"
    let ?i = "skip_used ?b ?v from"
    note x = load_spec(6) [OF st g ld Some]
    have st1: "gm_st img ok D1 m1" using lf by (simp add: gm_frame_def)
    note d1 = gm_st_dest [OF st1]
    have lb: "length ?b = EXFS_BLOCK" using d1(3) x by (simp add: gm_wf_def)
    have g1: "unat g < unat (gm_ngroups m1)" using g lf by (simp add: gm_frame_def gm_same_def)
    obtain j bits' where run: "take_run ?v need ?i ?i ?b = (j, bits')" by fastforce
    have "?v \<le> 32768" using unat_valid_bits [OF d1(5) g1] nvalid_bound [OF d1(5)] by simp
    then have "length bits' = EXFS_BLOCK" using take_run_spec [OF _ order_refl _ run] lb by simp
    from put_frame [OF st1 _ _ this] x
    have pf: "gm_frame img ok D1 m1 D1 ((put_bits m1 x bits')\<lparr>gm_free := (gm_free m1)[k := w]\<rparr>)" for k w by simp
    show ?thesis
      using tk False ld Some run lf gm_frame_trans [OF lf pf] gm_frame_def
      by (auto simp: take_group_def Let_def put_bits_def split: if_splits)
  qed
qed

lemma take_loop_frame:
  assumes "gm_st img ok D m" "take_loop m D g0 off0 need ks = (rc, s, l, m', D')"
  shows "gm_frame img ok D m D' m'"
  using assms
proof (induction ks arbitrary: m D)
  case Nil
  then show ?case by (simp add: gm_frame_refl)
next
  case (Cons k ks)
  let ?g = "(g0 + of_nat k) mod gm_ngroups m" and ?f = "if k = 0 then unat off0 else 0"
  obtain rc1 s1 l1 m1 D1 where tk: "take_group m D ?g ?f need = (rc1, s1, l1, m1, D1)"
    by (metis prod.exhaust)
  have "0 < unat (gm_ngroups m)" using gm_st_dest(5) [OF Cons.prems(1)] by (simp add: gm_geo_def)
  then have "unat ?g < unat (gm_ngroups m)" by (simp add: unat_mod)
  from take_group_frame [OF Cons.prems(1) this tk] have f: "gm_frame img ok D m D1 m1" .
  then have st1: "gm_st img ok D1 m1" by (simp add: gm_frame_def)
  show ?case
  proof (cases "rc1 = GMAP_ENOSPC")
    case True
    then have "take_loop m1 D1 g0 off0 need ks = (rc, s, l, m', D')" using Cons.prems(2) tk by simp
    from gm_frame_trans [OF f Cons.IH [OF st1 this]] show ?thesis .
  next
    case False
    then show ?thesis using Cons.prems(2) tk f by simp
  qed
qed

lemma release_one_frame:
  assumes st: "gm_st img ok D m" and b: "unat b < unat (gm_total m)" and rl: "release_one m D b = (rc, m', D')"
  shows "gm_frame img ok D m D' m'"
proof -
  note d = gm_st_dest [OF st]
  define g :: u32 where "g = ucast (b div ucast (gm_gb m))"
  define i where "i = unat (ucast (b mod ucast (gm_gb m)) :: u32)"
  have g: "unat g < unat (gm_ngroups m)"
    using unat_group_split(1) [OF d(5) b] group_of_block(1) [OF d(5) b] by (simp add: g_def)
  obtain r m1 D1 where ld: "load m D g = (r, m1, D1)" by (metis prod_cases3)
  note lf = load_frame [OF st g ld]
  show ?thesis
  proof (cases r)
    case None
    with rl ld lf show ?thesis by (simp add: release_one_def Let_def flip: g_def)
  next
    case (Some x)
    note x = load_spec(6) [OF st g ld Some]
    have st1: "gm_st img ok D1 m1" using lf by (simp add: gm_frame_def)
    have lb: "length (bit_put (ge_bits (gm_cache m1 ! x)) i False) = EXFS_BLOCK"
      using gm_st_dest(3) [OF st1] x by (simp add: gm_wf_def)
    from put_frame [OF st1 _ _ this] x have pf: "gm_frame img ok D1 m1 D1
        ((put_bits m1 x (bit_put (ge_bits (gm_cache m1 ! x)) i False))\<lparr>gm_free := (gm_free m1)[k := w]\<rparr>)" for k w by simp
    show ?thesis
    proof (cases "bit_of (ge_bits (gm_cache m1 ! x)) i")
      case True
      then have "m' = (put_bits m1 x (bit_put (ge_bits (gm_cache m1 ! x)) i False))\<lparr>gm_free :=
          (gm_free m1)[unat g := gm_free m1 ! unat g + 1]\<rparr>" "D' = D1"
        using rl ld Some by (simp_all add: release_one_def Let_def put_bits_def flip: g_def i_def)
      then show ?thesis using gm_frame_trans [OF lf pf] by simp
    next
      case False
      then show ?thesis using rl ld Some lf by (simp add: release_one_def Let_def flip: g_def i_def)
    qed
  qed
qed

lemma release_loop_frame:
  assumes "gm_st img ok D m" "\<forall>b \<in> set bs. b < unat (gm_total m)" "release_loop m D bs = (rc, m', D')"
  shows "gm_frame img ok D m D' m'"
  using assms
proof (induction bs arbitrary: m D)
  case Nil
  then show ?case by (simp add: gm_frame_refl)
next
  case (Cons b bs)
  have ub: "unat (of_nat b :: u64) < unat (gm_total m)"
    using Cons.prems(2) unat_u64_bound [of "gm_total m"] by (simp add: unat_of_nat_u64)
  obtain rc1 m1 D1 where r1: "release_one m D (of_nat b) = (rc1, m1, D1)" by (metis prod_cases3)
  note f = release_one_frame [OF Cons.prems(1) ub r1]
  then have st1: "gm_st img ok D1 m1" and t1: "gm_total m1 = gm_total m" by (simp_all add: gm_frame_def gm_same_def)
  show ?case
  proof (cases "rc1 = GMAP_OK")
    case True
    then have "release_loop m1 D1 bs = (rc, m', D')" using Cons.prems(3) r1 by simp
    then show ?thesis using gm_frame_trans [OF f Cons.IH [OF st1]] Cons.prems(2) t1 by simp
  next
    case False
    then show ?thesis using Cons.prems(3) r1 f by simp
  qed
qed

lemma gm_step_frame:
  assumes "gm_step (m, D) (m', D')" "gm_st img ok D m"
  shows "gm_frame img ok D m D' m'"
  using assms(1)
proof (cases rule: gm_step.cases)
  case (step_take hint need rc s l)
  then show ?thesis
    using take_loop_frame [OF assms(2)] assms(2)
    by (auto simp: gmap_take_def Let_def gm_frame_refl split: if_splits)
next
  case (step_release start len rc)
  then show ?thesis
    using release_loop_frame [OF assms(2), of "[unat start..<unat (start + len)]"] by (simp add: gmap_release_def)
next
  case (step_is_used b r)
  note d = gm_st_dest [OF assms(2)]
  have "unat (ucast (b div ucast (gm_gb m)) :: u32) < unat (gm_ngroups m)"
    using unat_group_split(1) [OF d(5) step_is_used(1)] group_of_block(1) [OF d(5) step_is_used(1)] by simp
  then show ?thesis
    using step_is_used load_frame [OF assms(2)]
    by (auto simp: gmap_is_used_def Let_def split: prod.splits option.splits)
next
  case (step_flush rc)
  then show ?thesis using gmap_flush_spec(1-4) [OF assms(2)] by (simp add: gm_frame_def)
qed

lemma gm_steps_frame:
  assumes "gm_step\<^sup>*\<^sup>* (m, D) (m', D')" "gm_st img ok D m"
  shows "gm_frame img ok D m D' m'"
  using assms(1)
proof (induction rule: rtranclp_induct2)
  case refl
  then show ?case using assms(2) by (rule gm_frame_refl)
next
  case (step m1 D1 m2 D2)
  from step.IH have "gm_st img ok D1 m1" by (simp add: gm_frame_def)
  from gm_frame_trans [OF step.IH gm_step_frame [OF step.hyps(2) this]] show ?case .
qed

end

end
