(* ===== verification/Gmap_Props.thy ===== *)
theory Gmap_Props
  imports Gmap_Live
begin

text \<open>
  The properties of the group map, stated for every medium that keeps the contract of the
  block layer, and their instances on a formatted RAM disk of 64 blocks.
\<close>

section \<open>The number of free blocks\<close>

lemma card_free_blocks:
  assumes geo: "gm_geo m"
  shows "card {b. b < unat (gm_total m) \<and> \<not> gm_used img D m b} = (\<Sum>g < unat (gm_ngroups m). nfree img D m g)"
proof -
  let ?gb = "unat (gm_gb m)" and ?n = "unat (gm_ngroups m)"
  let ?F = "\<lambda>g. {i. i < nvalid m g \<and> \<not> bit_of (cur_bits img D m g) i}"
  have eq: "{b. b < unat (gm_total m) \<and> \<not> gm_used img D m b} = (\<Union>g \<in> {..<?n}. (\<lambda>i. g * ?gb + i) ` ?F g)"
  proof (intro equalityI subsetI)
    fix b assume "b \<in> {b. b < unat (gm_total m) \<and> \<not> gm_used img D m b}"
    then have b: "b < unat (gm_total m)" "\<not> gm_used img D m b" by auto
    have "b = b div ?gb * ?gb + b mod ?gb" by simp
    moreover have "b mod ?gb \<in> ?F (b div ?gb)" "b div ?gb \<in> {..<?n}"
      using group_of_block [OF geo b(1)] b(2) by (auto simp: gm_used_def)
    ultimately show "b \<in> (\<Union>g \<in> {..<?n}. (\<lambda>i. g * ?gb + i) ` ?F g)" by blast
  next
    fix b assume "b \<in> (\<Union>g \<in> {..<?n}. (\<lambda>i. g * ?gb + i) ` ?F g)"
    then obtain g i where g: "g < ?n" "i < nvalid m g" "\<not> bit_of (cur_bits img D m g) i" "b = g * ?gb + i" by auto
    then show "b \<in> {b. b < unat (gm_total m) \<and> \<not> gm_used img D m b}"
      using block_of_group(3) [OF geo g(1,2)] used_in_group [OF geo g(1,2), of img D] by simp
  qed
  have disj: "(\<lambda>i. g * ?gb + i) ` ?F g \<inter> (\<lambda>i. h * ?gb + i) ` ?F h = {}" if "g < ?n" "h < ?n" "g \<noteq> h" for g h
    using block_of_group(1) [OF geo that(1)] block_of_group(1) [OF geo that(2)] that(3) by auto (metis)
  show ?thesis
    unfolding eq using disj
    by (subst card_UN_disjoint) (auto simp: nfree_def card_image inj_on_def intro!: sum.cong)
qed

lemma sum_list_free:
  assumes "\<And>g. g < n \<Longrightarrow> unat (fr ! g) \<le> 32768" "n \<le> 512"
  shows "unat (\<Sum>g \<leftarrow> [0..<n]. ucast (fr ! g :: u32) :: u64) = (\<Sum>g < n. unat (fr ! g)) \<and> (\<Sum>g < n. unat (fr ! g)) \<le> n * 32768"
  using assms
proof (induction n)
  case (Suc n)
  have IH: "unat (\<Sum>g \<leftarrow> [0..<n]. ucast (fr ! g :: u32) :: u64) = (\<Sum>g < n. unat (fr ! g))"
    "(\<Sum>g < n. unat (fr ! g)) \<le> n * 32768" using Suc by auto
  have "unat (fr ! n) \<le> 32768" using Suc.prems(1) [of n] by simp
  with IH Suc.prems(2) show ?case by (simp add: unat_word_ariths)
qed simp

section \<open>A formatted RAM disk\<close>

definition gm_blank :: GMap where
  "gm_blank = \<lparr>gm_spb = 0, gm_total = 0, gm_gb = 0, gm_ngroups = 0, gm_slot = replicate 512 0,
     gm_written = replicate 512 False, gm_free = replicate 512 0,
     gm_cache = replicate 8 \<lparr>ge_bits = replicate 4096 0, ge_g = 0, ge_valid = False, ge_dirty = False, ge_stamp = 0\<rparr>,
     gm_clock = 0\<rparr>"

definition gm_disk :: "RamDisk BlkDev" where
  "gm_disk = ram_sample 262144 512"

definition gm_start :: GMap where
  "gm_start = the (snd (gmap_init (Some gm_blank) (Some gm_disk) 64 64))"

definition gm_map :: GMap where
  "gm_map = fst (snd (gmap_format gm_start gm_disk (replicate 4096 0)))"

definition gm_dev :: "RamDisk BlkDev" where
  "gm_dev = snd (snd (gmap_format gm_start gm_disk (replicate 4096 0)))"

lemma gm_start_init: "gmap_init (Some gm_blank) (Some gm_disk) 64 64 = (GMAP_OK, Some gm_start)"
  by (simp add: gm_start_def gmap_init_def Let_def blk_sector_size_def gm_disk_def ram_sample_def)

lemma gm_start_ok:
  "gm_geo gm_start" "gm_shape gm_start" "spb_ok gm_disk (gm_spb gm_start)" "gm_total gm_start = 64"
  "gm_gb gm_start = 64" "slots_fit gm_disk gm_start" "ram_ok gm_disk"
proof -
  have sh: "gm_shape gm_blank" by (simp add: gm_shape_def gm_blank_def)
  have ss: "sector_size gm_disk \<le> 4096" by (simp add: gm_disk_def ram_sample_def)
  note s = gmap_init_spec [OF gm_start_init sh _ ss]
  show g: "gm_geo gm_start" "gm_shape gm_start" "spb_ok gm_disk (gm_spb gm_start)" "gm_total gm_start = 64"
    "gm_gb gm_start = 64" using s by simp_all
  have ng: "gm_ngroups gm_start = 1" and spb: "gm_spb gm_start = 8"
    by (simp_all add: gm_start_def gmap_init_def Let_def blk_sector_size_def gm_disk_def ram_sample_def)
  show "slots_fit gm_disk gm_start"
    by (simp add: slots_fit_def ng spb sblk_def gm_disk_def ram_sample_def)
  show "ram_ok gm_disk" unfolding gm_disk_def by (rule ram_sample_ok) simp_all
qed

lemma gm_format_eq: "gmap_format gm_start gm_disk (replicate 4096 0) = (GMAP_OK, gm_map, gm_dev)"
proof -
  have "fst (gmap_format gm_start gm_disk (replicate 4096 0)) = GMAP_OK"
    using gm_start_ok by (intro ram.gmap_format_live) simp_all
  then show ?thesis by (simp add: gm_map_def gm_dev_def prod_eq_iff)
qed

lemma gm_map_ok:
  "gmap_inv ram_img ram_ok gm_dev gm_map" "slots_fit gm_dev gm_map" "gm_total gm_map = 64" "gm_gb gm_map = 64"
  "b < 64 \<Longrightarrow> gm_used ram_img gm_dev gm_map b \<longleftrightarrow> b < 20" "b < 64 \<Longrightarrow> gm_reserved gm_map b \<longleftrightarrow> b < 20"
proof -
  have len: "length (replicate 4096 (0 :: u8)) = EXFS_BLOCK" by simp
  note f = ram.gmap_format_spec [OF gm_start_ok(7,3,1,2) len gm_format_eq]
  show "gmap_inv ram_img ram_ok gm_dev gm_map" "gm_total gm_map = 64" "gm_gb gm_map = 64"
    using f gm_start_ok by simp_all
  have "sblk gm_map = sblk gm_start" using f(4) by (simp add: sblk_def fun_eq_iff)
  then show "slots_fit gm_dev gm_map"
    using gm_start_ok(6) f(5,6,8) by (simp add: slots_fit_def same_geometry_def)
  have r: "gm_reserved gm_start b \<longleftrightarrow> b < 20" if "b < 64" for b
    using that gm_start_ok(5) by (simp add: gm_reserved_def nresv_def)
  show "b < 64 \<Longrightarrow> gm_used ram_img gm_dev gm_map b \<longleftrightarrow> b < 20"
    using f(2) [of b] r gm_start_ok(4) by simp
  show "b < 64 \<Longrightarrow> gm_reserved gm_map b \<longleftrightarrow> b < 20"
    using r f(4) by (simp add: gm_reserved_def)
qed

section \<open>Properties\<close>

text \<open>C17. Allocation is sound. When \<open>gmap_take\<close> succeeds, the blocks it returns lie inside the
  volume, were all free and are all used afterwards, no other block changes state, there are at
  most \<open>need\<close> of them (and at least one when the hint is not past the volume), and the map's
  invariant holds again, free counts included.\<close>

theorem gmap_take_sound:
  assumes "blk_medium img ok" and "gmap_inv img ok D m"
    and "gmap_take m D hint need = (GMAP_OK, s, l, m', D')"
  shows "gmap_inv img ok D' m' \<and> took img D m D' m' (unat s) (unat l) \<and> unat l \<le> unat need \<and>
    (hint \<le> gm_total m \<longrightarrow> 0 < unat l)"
  using blk_medium.gmap_take_spec(7) [OF assms] by simp

lemma gm_map_take: "\<exists>s l m' D'. gmap_take gm_map gm_dev 0 3 = (GMAP_OK, s, l, m', D')"
proof -
  obtain rc s l m' D' where t: "gmap_take gm_map gm_dev 0 3 = (rc, s, l, m', D')" by (metis prod.exhaust)
  have "rc \<noteq> GMAP_EIO" using ram.gmap_take_live [OF gm_map_ok(1,2), of 0 3] t by simp
  moreover have "rc \<noteq> GMAP_ENOSPC"
    using ram.gmap_take_spec(6) [OF gm_map_ok(1) t] gm_map_ok(3) gm_map_ok(5) [of 20] by auto
  ultimately have "rc = GMAP_OK" using ram.gmap_take_spec(5) [OF gm_map_ok(1) t] by simp
  with t show ?thesis by blast
qed

theorem gmap_take_sound_witness:
  "\<exists>s l m' D'. gmap_take gm_map gm_dev 0 3 = (GMAP_OK, s, l, m', D') \<and>
     took ram_img gm_dev gm_map D' m' (unat s) (unat l) \<and> 0 < unat l \<and> unat l \<le> 3"
proof -
  obtain s l m' D' where t: "gmap_take gm_map gm_dev 0 3 = (GMAP_OK, s, l, m', D')" using gm_map_take by blast
  from gmap_take_sound [OF ram_medium gm_map_ok(1) t] t show ?thesis by auto
qed

text \<open>C18. Allocation is complete. On a medium that does not fail, \<open>gmap_take\<close> finds a block
  whenever the volume has a free one, for every request of at least one block and every hint that
  does not point past the end of the volume.\<close>

theorem gmap_take_complete:
  assumes "blk_reliable img ok" and "gmap_inv img ok D m" and "slots_fit D m"
    and "need \<noteq> 0" and "hint \<le> gm_total m" and "b < unat (gm_total m)" and "\<not> gm_used img D m b"
  shows "\<exists>s l m' D'. gmap_take m D hint need = (GMAP_OK, s, l, m', D') \<and> 0 < unat l"
proof -
  have med: "blk_medium img ok" using assms(1) by (rule blk_reliable.axioms)
  obtain rc s l m' D' where t: "gmap_take m D hint need = (rc, s, l, m', D')" by (metis prod.exhaust)
  note ts = blk_medium.gmap_take_spec [OF med assms(2) t]
  have "rc \<noteq> GMAP_EIO" using blk_reliable.gmap_take_live [OF assms(1-3), of hint need] t by simp
  moreover have "rc \<noteq> GMAP_ENOSPC" using ts(6) assms(4,6,7) by blast
  ultimately have "rc = GMAP_OK" using ts(5) by simp
  with t ts(7) assms(5) show ?thesis by blast
qed

theorem gmap_take_complete_witness:
  "\<exists>s l m' D'. gmap_take gm_map gm_dev 64 5 = (GMAP_OK, s, l, m', D') \<and> 0 < unat l"
  by (rule gmap_take_complete [OF ram.blk_reliable_axioms gm_map_ok(1,2), where b = 20])
    (simp_all add: gm_map_ok)

text \<open>C19. Release is exact. Unless a read or write fails, \<open>gmap_release\<close> of unreserved blocks of
  the volume keeps the invariant; it returns \<open>GMAP_OK\<close> exactly when all of them were in use, and
  then frees those and no others.\<close>

theorem gmap_release_exact:
  assumes "blk_medium img ok" and "gmap_inv img ok D m"
    and "unat start + unat len < 2 ^ 64"
    and "\<forall>b \<in> {unat start..<unat start + unat len}. b < unat (gm_total m) \<and> \<not> gm_reserved m b"
    and "gmap_release m D start len = (rc, m', D')" and "rc \<noteq> GMAP_EIO"
  shows "gmap_inv img ok D' m' \<and> rc \<in> {GMAP_OK, GMAP_EUSED} \<and>
    (rc = GMAP_OK \<longleftrightarrow> (\<forall>b \<in> {unat start..<unat start + unat len}. gm_used img D m b)) \<and>
    (rc = GMAP_OK \<longrightarrow> (\<forall>x < unat (gm_total m). gm_used img D' m' x \<longleftrightarrow>
       gm_used img D m x \<and> x \<notin> {unat start..<unat start + unat len}))"
proof -
  let ?bs = "[unat start..<unat start + unat len]"
  have "unat (start + len) = unat start + unat len" using assms(3) by (simp add: unat_word_ariths)
  then have lp: "release_loop m D ?bs = (rc, m', D')" using assms(5) by (simp add: gmap_release_def)
  have bs: "\<forall>b \<in> set ?bs. b < unat (gm_total m) \<and> \<not> gm_reserved m b" using assms(4) by simp
  from blk_medium.release_loop_spec [OF assms(1,2) bs lp] assms(6)
  obtain n where inv: "gmap_inv img ok D' m'" and rc: "rc \<in> {GMAP_OK, GMAP_EUSED}"
    and n: "rc = GMAP_OK \<longrightarrow> n = length ?bs" "\<forall>b \<in> set (take n ?bs). gm_used img D m b"
      "rc = GMAP_EUSED \<longrightarrow> n < length ?bs \<and> (gm_used img D m (?bs ! n) \<longrightarrow> ?bs ! n \<in> set (take n ?bs))"
      "\<forall>x < unat (gm_total m). gm_used img D' m' x \<longleftrightarrow> gm_used img D m x \<and> x \<notin> set (take n ?bs)"
    by auto
  have fail: "\<not> gm_used img D m (?bs ! n) \<and> ?bs ! n \<in> set ?bs" if "rc = GMAP_EUSED"
  proof -
    have nl: "n < length ?bs" using n(3) that by blast
    then have "?bs ! n \<notin> set (take n ?bs)"
      using distinct_conv_nth [of ?bs] by (auto simp: in_set_conv_nth)
    then show ?thesis using n(3) that nl nth_mem by blast
  qed
  have "rc = GMAP_OK \<longleftrightarrow> (\<forall>b \<in> set ?bs. gm_used img D m b)"
    using rc n(1,2) fail by auto
  then show ?thesis using inv rc n(1,4) by auto
qed

theorem gmap_release_exact_witness:
  "\<exists>s l m1 D1 m2 D2. gmap_take gm_map gm_dev 0 3 = (GMAP_OK, s, l, m1, D1) \<and> 0 < unat l \<and>
     gmap_release m1 D1 s l = (GMAP_OK, m2, D2) \<and>
     (\<forall>x < 64. gm_used ram_img D2 m2 x \<longleftrightarrow> gm_used ram_img gm_dev gm_map x)"
proof -
  obtain s l m1 D1 where t: "gmap_take gm_map gm_dev 0 3 = (GMAP_OK, s, l, m1, D1)" using gm_map_take by blast
  note ts = ram.gmap_take_spec [OF gm_map_ok(1) t]
  have inv1: "gmap_inv ram_img ram_ok D1 m1" and tk: "took ram_img gm_dev gm_map D1 m1 (unat s) (unat l)"
    and l: "unat l \<le> 3" "0 < unat l" using ts(7) gm_map_ok(3) by auto
  have f: "gm_total m1 = 64" "gm_reserved m1 = gm_reserved gm_map"
    using ts(2) gm_map_ok(3) gm_reserved_same [OF ts(2)] by (simp_all add: gm_same_def)
  have "unat s < unat (gm_total gm_map)" using tk l(2) unfolding took_def by simp
  then have "unat s < 64" by (simp add: gm_map_ok(3))
  then have lim: "unat s + unat l < 2 ^ 64" using l by simp
  let ?R = "{unat s..<unat s + unat l}"
  have tk1: "b < unat (gm_total gm_map)" "\<not> gm_used ram_img gm_dev gm_map b" if "b \<in> ?R" for b
    using tk that unfolding took_def by auto
  have R: "\<forall>b \<in> ?R. b < unat (gm_total m1) \<and> \<not> gm_reserved m1 b"
    using tk1 gmap_inv_dest(5) [OF gm_map_ok(1)] unfolding f gm_map_ok(3) by blast
  have U: "\<forall>b \<in> ?R. gm_used ram_img D1 m1 b"
  proof
    fix b assume b: "b \<in> ?R"
    then have "unat s \<le> b \<and> b < unat s + unat l" by simp
    then show "gm_used ram_img D1 m1 b" using tk tk1(1) [OF b] unfolding took_def by blast
  qed
  obtain rc m2 D2 where r: "gmap_release m1 D1 s l = (rc, m2, D2)" by (metis prod_cases3)
  have "unat (s + l) = unat s + unat l" using lim by (simp add: unat_word_ariths)
  then have "rc \<noteq> GMAP_EIO"
    using ram.release_loop_live [OF inv1 slots_fit_same [OF ts(2,3) gm_map_ok(2)], of "[unat s..<unat s + unat l]"] R r
    by (simp add: gmap_release_def)
  note g = gmap_release_exact [OF ram_medium inv1 lim R r this]
  then have "rc = GMAP_OK" using U by blast
  moreover have "gm_used ram_img D2 m2 x \<longleftrightarrow> gm_used ram_img gm_dev gm_map x" if x: "x < 64" for x
  proof -
    have "gm_used ram_img D2 m2 x \<longleftrightarrow> gm_used ram_img D1 m1 x \<and> x \<notin> ?R"
      using g calculation x f(1) by simp
    moreover have "gm_used ram_img D1 m1 x \<longleftrightarrow> gm_used ram_img gm_dev gm_map x \<or> x \<in> ?R"
      using tk x gm_map_ok(3) unfolding took_def atLeastLessThan_iff by simp
    ultimately show ?thesis using tk1 by blast
  qed
  ultimately show ?thesis using t l(2) r by blast
qed

section \<open>Loading a group\<close>

context blk_medium
begin

lemma drop_bits:
  assumes "gm_wf m" and "v < GMAP_CACHE" and "fits m v e" and "\<not> ge_valid e" and "h < unat (gm_ngroups m)"
    and "ge_valid (gm_cache m ! v) \<longrightarrow> unat (ge_g (gm_cache m ! v)) \<noteq> h"
  shows "cur_bits img D (set_entry m v e) h = cur_bits img D m h"
  using set_entry_cur_bits [OF assms(1-3,5), of img D] assms(4,6) by auto

lemma other_bits:
  assumes "gm_wf m" and "h < unat (gm_ngroups m)" and "blk_bytes img D' (newest m h) = blk_bytes img D (newest m h)"
  shows "cur_bits img D' m h = cur_bits img D m h"
  using assms(3) by (simp add: cur_bits_def split: option.split)

lemma load_flush_fail:
  assumes st: "gm_st img ok D m" and v: "v < GMAP_CACHE" "ge_valid (gm_cache m ! v)"
    and fl: "flush_one m D v = (rc, m1, D')" "rc \<noteq> GMAP_OK"
    and h: "h < unat (gm_ngroups m)" "unat (ge_g (gm_cache m ! v)) \<noteq> h"
  shows "cur_bits img D' (set_entry m v ((gm_cache m ! v)\<lparr>ge_valid := False\<rparr>)) h = cur_bits img D m h"
proof -
  note d = gm_st_dest [OF st]
  have g: "unat (ge_g (gm_cache m ! v)) < unat (gm_ngroups m)" using d(3) v by (simp add: gm_wf_def)
  have fit: "fits m v ((gm_cache m ! v)\<lparr>ge_valid := False\<rparr>)" using d(3) v by (simp add: fits_def gm_wf_def)
  have "newest m h \<noteq> spare m (unat (ge_g (gm_cache m ! v)))" using spare_inj(3) [OF d(3) g h(1)] h(2) by auto
  then have "blk_bytes img D' (newest m h) = blk_bytes img D (newest m h)"
    using flush_one_spec(8) [OF st v fl] by blast
  then have "cur_bits img D' m h = cur_bits img D m h" by (rule other_bits [OF d(3) h(1)])
  moreover have "cur_bits img D' (set_entry m v ((gm_cache m ! v)\<lparr>ge_valid := False\<rparr>)) h = cur_bits img D' m h"
    by (rule drop_bits [OF d(3) v(1) fit _ h(1)]) (simp_all add: h(2))
  ultimately show ?thesis by simp
qed

lemma load_read_fail:
  assumes ev: "evicted D m v D1 m1" and v: "v < GMAP_CACHE" and g: "unat g < unat (gm_ngroups m)"
    and rd: "gread m1 D1 g (pending_slot m1 (unat g)) (ge_bits (gm_cache m1 ! v)) = (rc, bits, D2)"
    and h: "h < unat (gm_ngroups m)"
  shows "cur_bits img D2 (set_entry m1 v ((gm_cache m1 ! v)\<lparr>ge_bits := bits, ge_valid := False\<rparr>)) h = cur_bits img D m h"
proof -
  have st: "gm_st img ok D1 m1" and ng: "gm_ngroups m1 = gm_ngroups m"
    and cl: "\<not> (ge_valid (gm_cache m1 ! v) \<and> ge_dirty (gm_cache m1 ! v))"
    and cb: "cur_bits img D1 m1 h = cur_bits img D m h"
    using ev h by (auto simp: evicted_def gm_same_def)
  note d = gm_st_dest [OF st]
  have g1: "unat g < unat (gm_ngroups m1)" and h1: "h < unat (gm_ngroups m1)" using g h ng by simp_all
  have len: "length (ge_bits (gm_cache m1 ! v)) = EXFS_BLOCK" using d(3) v by (simp add: gm_wf_def)
  note rs = gread_spec [OF d(1,2,5) g1 unat_pending(2) [OF d(3) g1] len rd]
  have bby: "blk_bytes img D2 b = blk_bytes img D1 b" for b by (rule blk_bytes_img [OF rs(3)])
  have fit: "fits m1 v ((gm_cache m1 ! v)\<lparr>ge_bits := bits, ge_valid := False\<rparr>)" using rs(4) by (simp add: fits_def)
  have clean: "cur_bits img D1 m1 h = blk_bytes img D2 (newest m1 h)"
    if "ge_valid (gm_cache m1 ! v)" "unat (ge_g (gm_cache m1 ! v)) = h"
    using cur_bits_cached(2) [OF d(3) v that(1), of img D1] that cl v d(4) by (simp add: gm_sync_def bby)
  show ?thesis
    using set_entry_cur_bits [OF d(3) v fit h1, of img D2] clean other_bits [OF d(3) h1 bby] cb by auto
qed

lemma load_fail:
  assumes st: "gm_st img ok D m" and g: "unat g < unat (gm_ngroups m)" and ld: "load m D g = (None, m', D')"
  shows "\<exists>v < GMAP_CACHE. \<forall>h < unat (gm_ngroups m). cur_bits img D' m' h = cur_bits img D m h \<or>
    ge_valid (gm_cache m ! v) \<and> ge_dirty (gm_cache m ! v) \<and> unat (ge_g (gm_cache m ! v)) = h \<and>
    fst (flush_one m D v) = GMAP_EIO"
proof -
  note d = gm_st_dest [OF st]
  have miss: "find_entry (gm_cache m) g = None"
    using load_hit(1) [OF st _ refl] ld by (cases "find_entry (gm_cache m) g") auto
  from d(6) have "gm_cache m \<noteq> []" by auto
  then obtain v where pv: "pick_victim (gm_cache m) 0 None = Some v" and v: "v < GMAP_CACHE"
    using pick_victim_ok d(6) by metis
  obtain rc m1 D1 where fl: "(if ge_valid (gm_cache m ! v) \<and> ge_dirty (gm_cache m ! v) then flush_one m D v
            else (GMAP_OK, m, D)) = (rc, m1, D1)" by (metis prod_cases3)
  show ?thesis
  proof (cases "rc = GMAP_OK")
    case False
    then have vd: "ge_valid (gm_cache m ! v)" "ge_dirty (gm_cache m ! v)" and f: "flush_one m D v = (rc, m1, D1)"
      using fl by (auto split: if_splits)
    have eq: "m' = set_entry m v ((gm_cache m ! v)\<lparr>ge_valid := False\<rparr>)" "D' = D1"
      using ld miss pv fl False evict_fail(1) [OF st v vd(1) f False] by (simp_all add: load_def Let_def)
    have rcv: "rc = GMAP_EIO" using flush_one_spec(4) [OF st v vd(1) f] False by simp
    show ?thesis using load_flush_fail [OF st v vd(1) f False] eq vd v f rcv by fastforce
  next
    case True
    note ev = evict_ok [OF st v fl [unfolded True]]
    obtain rc2 bits D2 where rd: "gread m1 D1 g (pending_slot m1 (unat g)) (ge_bits (gm_cache m1 ! v)) = (rc2, bits, D2)"
      by (metis prod_cases3)
    have eq: "m' = set_entry m1 v ((gm_cache m1 ! v)\<lparr>ge_bits := bits, ge_valid := False\<rparr>)" "D' = D2"
      using ld miss pv fl True rd
      by (simp_all add: load_def Let_def pending_slot_def [symmetric] split: if_splits)
    show ?thesis using load_read_fail [OF ev v g rd] eq v by blast
  qed
qed

end

text \<open>C20. The cache is transparent. A load of a group, with whatever eviction and flush it causes,
  keeps the map well formed: a group is cached at most once and clean entries agree with the disk.
  A load that succeeds changes no bit of any group's bitmap and gives an entry that holds the bitmap
  of the group asked for. A load that fails changes no bitmap either, with one exception: when
  writing out a dirty victim fails, that one group loses its cached bitmap.\<close>

theorem gmap_load_transparent:
  assumes "blk_medium img ok" and "gm_st img ok D m" and "unat g < unat (gm_ngroups m)"
    and "load m D g = (r, m', D')"
  shows "gm_st img ok D' m' \<and> (case r of
      Some x \<Rightarrow> x < GMAP_CACHE \<and> ge_valid (gm_cache m' ! x) \<and> ge_g (gm_cache m' ! x) = g \<and>
        ge_bits (gm_cache m' ! x) = cur_bits img D m (unat g) \<and>
        (\<forall>h < unat (gm_ngroups m). cur_bits img D' m' h = cur_bits img D m h)
    | None \<Rightarrow> \<exists>v < GMAP_CACHE. \<forall>h < unat (gm_ngroups m). cur_bits img D' m' h = cur_bits img D m h \<or>
        ge_valid (gm_cache m ! v) \<and> ge_dirty (gm_cache m ! v) \<and> unat (ge_g (gm_cache m ! v)) = h \<and>
        fst (flush_one m D v) = GMAP_EIO)"
proof (cases r)
  case None
  then show ?thesis
    using blk_medium.load_spec(1) [OF assms] blk_medium.load_fail [OF assms(1-3)] assms(4) by simp
next
  case (Some x)
  note ls = blk_medium.load_spec [OF assms]
  have x: "x < GMAP_CACHE" "ge_valid (gm_cache m' ! x)" "ge_g (gm_cache m' ! x) = g" using ls(6) [OF Some] by auto
  have "cur_bits img D' m' (unat g) = ge_bits (gm_cache m' ! x)"
    using cur_bits_cached(2) [OF gm_st_dest(3) [OF ls(1)] x(1,2)] x(3) by simp
  then show ?thesis using ls(1) ls(7) [OF Some] assms(3) x Some by simp
qed

lemma gm_map_groups: "unat (gm_ngroups gm_map) = 1"
proof -
  have "gm_geo gm_map" using gmap_inv_dest(2) [OF gm_map_ok(1)] .
  then have "(unat (gm_ngroups gm_map) - 1) * 64 < 64" "0 < unat (gm_ngroups gm_map)"
    by (simp_all add: gm_geo_def gm_map_ok)
  then show ?thesis by simp
qed

theorem gmap_load_transparent_witness:
  "\<exists>x m' D'. load gm_map gm_dev 0 = (Some x, m', D') \<and>
     ge_bits (gm_cache m' ! x) = cur_bits ram_img gm_dev gm_map 0"
proof -
  note st = gmap_inv_dest(1) [OF gm_map_ok(1)]
  have g: "unat (0 :: u32) < unat (gm_ngroups gm_map)" by (simp add: gm_map_groups)
  obtain r m' D' where ld: "load gm_map gm_dev 0 = (r, m', D')" by (metis prod_cases3)
  then obtain x where "r = Some x" using ram.load_live [OF st gm_map_ok(2) g] by auto
  then show ?thesis using gmap_load_transparent [OF ram_medium st g ld] ld by auto
qed

text \<open>C21. Crash safety of the map. Take any sequence of map operations between two commits,
  successful or not. Whatever they wrote, mounting with the tables of the last committed
  superblock gives exactly the bitmap that those tables gave before the first of them: no
  operation touches a committed slot.\<close>

theorem gmap_crash_safe:
  assumes "blk_medium img ok" and "gm_st img ok D m" and "gm_step\<^sup>*\<^sup>* (m, D) (m', D')"
    and "gm_shape i" and "gm_geo i" and "gm_gb i = gm_gb m" and "gm_total i = gm_total m"
    and "gm_ngroups i = gm_ngroups m" and "spb_ok D (gm_spb i)" and "b < unat (gm_total m)"
  shows "gm_used img D' (gmap_import i (gm_slot m) free) b = gm_used img D (gmap_import i (gm_slot m) free) b"
proof -
  note d = gm_st_dest [OF assms(2)]
  note fr = blk_medium.gm_steps_frame [OF assms(1,3,2)]
  then have ok': "ok D'" "spb_ok D' (gm_spb i)" and sf: "spare_frame img m D D'"
    using assms(9) by (auto simp: gm_frame_def gm_st_def spb_ok_geometry)
  have sl: "gm_slot m ! g \<le> 1" if "g < unat (gm_ngroups i)" for g
    using that d(3) assms(8) by (simp add: gm_wf_def)
  have sb: "sblk i = sblk m" using assms(6) by (simp add: sblk_def fun_eq_iff)
  let ?g = "b div unat (gm_gb i)" and ?j = "gmap_import i (gm_slot m) free"
  have g: "?g < unat (gm_ngroups i)" using group_of_block(1) [OF assms(5)] assms(7,10) by simp
  note a = gmap_import_abs(2) [OF assms(4,5) refl _ _ sl]
  have "committed m ?g \<notin> spare m ` {..<unat (gm_ngroups m)}"
    using spare_inj(2) [OF d(3)] g assms(8) by (auto dest: sym)
  then have "blk_bytes img D' (sblk i ?g (unat (gm_slot m ! ?g))) = blk_bytes img D (sblk i ?g (unat (gm_slot m ! ?g)))"
    using sf by (simp add: spare_frame_def committed_def sb)
  then have "cur_bits img D' ?j ?g = cur_bits img D ?j ?g"
    using a [of ok D', OF ok' _ g] a [of ok D, OF d(1) assms(9) _ g] by simp
  then show ?thesis
    using gmap_import_fields(3) [OF assms(4,5) refl] by (simp add: gm_used_def)
qed

theorem gmap_crash_safe_witness:
  "\<exists>s l m' D' rc m'' D''. gmap_take gm_map gm_dev 0 3 = (GMAP_OK, s, l, m', D') \<and> gmap_flush m' D' = (rc, m'', D'') \<and>
     (\<forall>b < 64. gm_used ram_img D'' (gmap_import gm_map (gm_slot gm_map) (gm_free gm_map)) b =
               gm_used ram_img gm_dev (gmap_import gm_map (gm_slot gm_map) (gm_free gm_map)) b)"
proof -
  obtain s l m' D' where t: "gmap_take gm_map gm_dev 0 3 = (GMAP_OK, s, l, m', D')" using gm_map_take by blast
  obtain rc m'' D'' where f: "gmap_flush m' D' = (rc, m'', D'')" by (metis prod_cases3)
  have steps: "gm_step\<^sup>*\<^sup>* (gm_map, gm_dev) (m'', D'')"
    using step_take [OF t] step_flush [OF f] by (meson converse_rtranclp_into_rtranclp r_into_rtranclp)
  note st = gmap_inv_dest(1) [OF gm_map_ok(1)]
  note d = gm_st_dest [OF st]
  have "gm_used ram_img D'' (gmap_import gm_map (gm_slot gm_map) (gm_free gm_map)) b =
        gm_used ram_img gm_dev (gmap_import gm_map (gm_slot gm_map) (gm_free gm_map)) b" if "b < 64" for b
    using gmap_crash_safe [OF ram_medium st steps gm_wf_shape [OF d(3)] d(5) refl refl refl d(2)] that gm_map_ok(3) by simp
  then show ?thesis using t f by blast
qed

text \<open>C22. A committed map survives a remount. After \<open>gmap_flush\<close> succeeds, the tables that
  \<open>gmap_export\<close> gives describe the whole map: importing them into a freshly initialised map, on
  any device state that still holds the flushed slots, restores the invariant and exactly the same
  set of used blocks.\<close>

theorem gmap_commit_persistent:
  assumes med: "blk_medium img ok" and inv: "gmap_inv img ok D m"
    and fl: "gmap_flush m D = (GMAP_OK, m1, D1)"
    and ex: "gmap_export m1 (replicate 512 0) (replicate 512 0) = (slot, free)"
    and dev: "ok D2" "spb_ok D2 (gm_spb i)" "\<forall>g < unat (gm_ngroups m). blk_bytes img D2 (newest m1 g) = blk_bytes img D1 (newest m1 g)"
    and shp: "gm_shape i" and geo: "gm_geo i" and gb: "gm_gb i = gm_gb m" and tot: "gm_total i = gm_total m"
    and ngr: "gm_ngroups i = gm_ngroups m"
  shows "gmap_inv img ok D2 (gmap_import i slot free) \<and>
    (\<forall>b < unat (gm_total m). gm_used img D2 (gmap_import i slot free) b = gm_used img D m b)"
proof -
  note d = gmap_inv_dest [OF inv]
  note fs = blk_medium.gmap_flush_spec [OF med d(1) fl]
  note d1 = gm_st_dest [OF fs(4)]
  let ?n = "unat (gm_ngroups m)" and ?j = "gmap_import i slot free"
  have same: "gm_ngroups m1 = gm_ngroups m" "gm_gb m1 = gm_gb m" "gm_free m1 = gm_free m"
    using fs(6) by (simp_all add: gm_eqv_def gm_same_def)
  have ng: "?n \<le> 512" using d(2) by (simp add: gm_geo_def)
  have sl: "slot ! g = pending_slot m1 g" "free ! g = gm_free m ! g" if "g < ?n" for g
    using gmap_export_nth(3,4) [OF _ _ _ ex] that ng same by simp_all
  have sl1: "slot ! g \<le> 1" if "g < unat (gm_ngroups i)" for g
    using sl(1) [of g] unat_pending(2) [OF d1(3), of g] that ngr same by simp
  have sb: "sblk i = sblk m1" using gb same by (simp add: sblk_def fun_eq_iff)
  note f = gmap_import_fields [OF shp geo refl, where slot = slot and free = free]
  note ia = gmap_import_abs [OF shp geo refl, where slot = slot and free = free and ok = ok and D = D2 and img = img]
  have st: "gm_st img ok D2 ?j" by (rule ia(1)) (use dev sl1 in auto)
  have cb: "cur_bits img D2 ?j g = cur_bits img D m g" if "g < ?n" for g
    using ia(2) [of g] dev(1,2) sl1 that fs(7) [OF refl that] dev(3) sl(1) [OF that] ngr
    by (simp add: sb newest_def)
  have u: "gm_used img D2 ?j b = gm_used img D m b" if "b < unat (gm_total m)" for b
    using group_of_block(1) [OF d(2) that] by (simp add: gm_used_def f gb cb)
  have fn: "nvalid ?j = nvalid m" "gm_reserved ?j = gm_reserved m"
    by (simp_all add: nvalid_def gm_reserved_def f gb tot fun_eq_iff)
  have "unat (gm_free ?j ! g) = nfree img D2 ?j g" if "g < ?n" for g
    using d(4) [OF that] f(9) [of g] that ngr sl(2) [OF that] by (simp add: nfree_def fn cb [OF that])
  then show ?thesis using st u d(5) by (simp add: gmap_inv_def f tot ngr fn)
qed

theorem gmap_commit_persistent_witness:
  "\<exists>m1 D1 slot free. gmap_flush gm_map gm_dev = (GMAP_OK, m1, D1) \<and>
     gmap_export m1 (replicate 512 0) (replicate 512 0) = (slot, free) \<and>
     (\<forall>b < 64. gm_used ram_img D1 (gmap_import gm_start slot free) b \<longleftrightarrow> b < 20)"
proof -
  note st = gmap_inv_dest(1) [OF gm_map_ok(1)]
  obtain rc m1 D1 where fl: "gmap_flush gm_map gm_dev = (rc, m1, D1)" by (metis prod_cases3)
  have ok: "rc = GMAP_OK"
    using ram.flush_loop_live [OF st gm_map_ok(2), of "[0..<8]"] fl by (simp add: gmap_flush_def)
  obtain slot free where ex: "gmap_export m1 (replicate 512 0) (replicate 512 0) = (slot, free)" by fastforce
  note fs = ram.gmap_flush_spec [OF st fl]
  have len: "length (replicate 4096 (0 :: u8)) = EXFS_BLOCK" by simp
  note ff = ram.gmap_format_spec [OF gm_start_ok(7,3,1,2) len gm_format_eq]
  have "spb_ok D1 (gm_spb gm_start)"
    using gm_start_ok(3) ff(8) fs(3) by (metis spb_ok_geometry same_geometry_trans)
  moreover have "gm_gb gm_start = gm_gb gm_map" "gm_total gm_start = gm_total gm_map" "gm_ngroups gm_start = gm_ngroups gm_map"
    using ff by simp_all
  ultimately have "\<forall>b < unat (gm_total gm_map). gm_used ram_img D1 (gmap_import gm_start slot free) b = gm_used ram_img gm_dev gm_map b"
    using gmap_commit_persistent [OF ram_medium gm_map_ok(1) fl [unfolded ok] ex gm_st_dest(1) [OF fs(4)] _ _ gm_start_ok(2,1)]
    by blast
  then show ?thesis using fl ok ex gm_map_ok(3,5) by auto
qed

text \<open>C23. Format gives an empty map. After \<open>gmap_format\<close> succeeds, the invariant holds and the
  blocks in use are exactly the reserved ones: superblocks, inode tables and the map's own slots.
  No block but the first slot of each group was written.\<close>

theorem gmap_format_fresh:
  assumes "blk_medium img ok" and "ok D" and "spb_ok D (gm_spb m)" and "gm_geo m" and "gm_shape m"
    and "length bits = EXFS_BLOCK" and "gmap_format m D bits = (GMAP_OK, m', D')"
  shows "gmap_inv img ok D' m' \<and> (\<forall>b < unat (gm_total m). gm_used img D' m' b \<longleftrightarrow> gm_reserved m b) \<and>
    (\<forall>c. c \<notin> (\<lambda>g. sblk m g 0) ` {..<unat (gm_ngroups m)} \<longrightarrow> blk_bytes img D' c = blk_bytes img D c)"
  using blk_medium.gmap_format_spec(1,2,7) [OF assms] by blast

theorem gmap_format_fresh_witness:
  "{b. b < 64 \<and> gm_used ram_img gm_dev gm_map b} = {b. b < 64 \<and> gm_reserved gm_start b}"
  using gmap_format_fresh [OF ram_medium gm_start_ok(7,3,1,2) _ gm_format_eq] gm_start_ok(4) by auto

text \<open>C24. The free count is exact: \<open>gmap_free_total\<close> is the number of free blocks of the volume.\<close>

theorem gmap_free_total_exact:
  assumes "gmap_inv img ok D m"
  shows "unat (gmap_free_total m) = card {b. b < unat (gm_total m) \<and> \<not> gm_used img D m b}"
proof -
  note d = gmap_inv_dest [OF assms]
  let ?n = "unat (gm_ngroups m)"
  have "unat (gm_free m ! g) \<le> 32768" if "g < ?n" for g
    using d(4) [OF that] nfree_bound [of img D m g] nvalid_bound [OF d(2), of g] by simp
  then have "unat (gmap_free_total m) = (\<Sum>g < ?n. unat (gm_free m ! g))"
    using sum_list_free [of ?n "gm_free m"] d(2) by (simp add: gmap_free_total_def gm_geo_def)
  also have "\<dots> = (\<Sum>g < ?n. nfree img D m g)" using d(4) by simp
  finally show ?thesis by (simp add: card_free_blocks [OF d(2)])
qed

theorem gmap_free_total_exact_witness:
  "unat (gmap_free_total gm_map) = card {b. b < unat (gm_total gm_map) \<and> \<not> gm_used ram_img gm_dev gm_map b}"
  by (rule gmap_free_total_exact [OF gm_map_ok(1)])

end
