(* ===== verification/Phys.thy ===== *)
theory Phys
  imports Xasmos_Prelude
begin

text \<open>
  The physical frame allocator of \<open>source/arch/amd64/kernel/xeret/mem/physical.c\<close>: a bitmap of
  4 KiB frames in which a set bit means free, with counters. \<open>PhysBitmap\<close> is the struct of
  \<open>kmemory.h\<close> with the bitmap as a byte list. Frame numbers are loop counters and are natural
  numbers; sizes and addresses keep their 64 bits. Every operation holds the bitmap's spinlock
  from its first to its last access, so it is one step of the model.

  The lemmas show that the counters are exact, that an allocation returns frames that were all
  free and marks exactly those, and that it fails only when no run of free frames is long enough.
\<close>

lemma nat_and_511: "(f :: nat) AND 511 = f mod 512"
  using take_bit_eq_mask [of 9 f] by (simp add: take_bit_eq_mod mask_eq_exp_minus_1)

lemma nat_or_511: "(f :: nat) OR 511 = f div 512 * 512 + 511"
proof -
  have "int ((f AND 511) + (f OR 511)) = int (f + 511)"
    using plus_and_or [of "int f" 511] by (simp add: of_nat_and_eq of_nat_or_eq)
  then have "f mod 512 + (f OR 511) = f + 511" by (simp only: of_nat_eq_iff nat_and_511)
  then show ?thesis using div_mult_mod_eq [of f 512] by linarith
qed

lemma nat_or_ge: "f \<le> f OR (511 :: nat)"
proof -
  have "f mod 512 < 512" by simp
  then show ?thesis unfolding nat_or_511 using div_mult_mod_eq [of f 512] by linarith
qed

section \<open>Data\<close>

record PhysBitmap =
  pb_total :: u64
  pb_free :: u64
  pb_used :: u64
  pb_end :: u64
  pb_bits :: bytes

abbreviation XERET_FRAME_SHIFT :: nat where "XERET_FRAME_SHIFT \<equiv> 12"
abbreviation XERET_FRAME_SIZE :: u64 where "XERET_FRAME_SIZE \<equiv> 4096"
abbreviation XERET_FRAMES_PER_HUGE :: u64 where "XERET_FRAMES_PER_HUGE \<equiv> 512"
abbreviation XERET_BITMAP_MAX_FRAMES :: u64 where "XERET_BITMAP_MAX_FRAMES \<equiv> 33554432"
abbreviation XERET_BITMAP_BYTES :: nat where "XERET_BITMAP_BYTES \<equiv> 4194304"

definition bit_test :: "PhysBitmap \<Rightarrow> nat \<Rightarrow> bool" where
  "bit_test p f = bit_of (pb_bits p) f"

definition bit_set :: "PhysBitmap \<Rightarrow> nat \<Rightarrow> PhysBitmap" where
  "bit_set p f = p\<lparr>pb_bits := bit_put (pb_bits p) f True\<rparr>"

definition bit_clear :: "PhysBitmap \<Rightarrow> nat \<Rightarrow> PhysBitmap" where
  "bit_clear p f = p\<lparr>pb_bits := bit_put (pb_bits p) f False\<rparr>"

section \<open>Ranges\<close>

text \<open>The loop bodies of \<open>mark_range_free\<close> and \<open>phys_free_frames\<close>, and of
  \<open>mark_range_used\<close>.\<close>

definition free_one :: "nat \<Rightarrow> PhysBitmap \<Rightarrow> PhysBitmap" where
  "free_one f p =
     (if \<not> bit_test p f
      then (let p = bit_set p f; p = p\<lparr>pb_free := pb_free p + 1\<rparr>
            in if pb_used p > 0 then p\<lparr>pb_used := pb_used p - 1\<rparr> else p)
      else p)"

definition use_one :: "nat \<Rightarrow> PhysBitmap \<Rightarrow> PhysBitmap" where
  "use_one f p =
     (if bit_test p f
      then (let p = bit_clear p f;
                p = (if pb_free p > 0 then p\<lparr>pb_free := pb_free p - 1\<rparr> else p)
            in p\<lparr>pb_used := pb_used p + 1\<rparr>)
      else p)"

definition mark_range_free :: "PhysBitmap \<Rightarrow> u64 \<Rightarrow> u64 \<Rightarrow> PhysBitmap" where
  "mark_range_free p start pages =
     (if pages = 0 then p
      else (let f = drop_bit XERET_FRAME_SHIFT start;
                e = f + pages;
                e = (if e > pb_total p then pb_total p else e)
            in fold free_one [unat f..<unat e] p))"

definition mark_range_used :: "PhysBitmap \<Rightarrow> u64 \<Rightarrow> u64 \<Rightarrow> PhysBitmap" where
  "mark_range_used p start nbytes =
     (if nbytes = 0 then p
      else (let f = drop_bit XERET_FRAME_SHIFT start;
                pages = drop_bit XERET_FRAME_SHIFT (nbytes + XERET_FRAME_SIZE - 1);
                e = f + pages;
                e = (if e > pb_total p then pb_total p else e)
            in fold use_one [unat f..<unat e] p))"

definition phys_reserve_range :: "PhysBitmap \<Rightarrow> u64 \<Rightarrow> u64 \<Rightarrow> PhysBitmap" where
  "phys_reserve_range p addr nbytes = mark_range_used p addr nbytes"

section \<open>Initialisation\<close>

text \<open>The memory map descriptors the boot loader hands over, and the parts of \<open>XeretHandoff\<close>
  (\<open>efi_types.h\<close>) that the allocator reads. The map is given as the list of the descriptors at
  offsets \<open>0, desc_size, ...\<close>; the loop of the source reads those that fit into \<open>mmap_size\<close>.\<close>

record EFI_MEMORY_DESCRIPTOR =
  d_Type :: u32
  d_PhysicalStart :: u64
  d_NumberOfPages :: u64

record XeretHandoff =
  h_magic :: u64
  h_mmap_addr :: u64
  h_mmap :: "EFI_MEMORY_DESCRIPTOR list"
  h_mmap_size :: u64
  h_mmap_desc_size :: u64
  h_phys_end :: u64
  h_fb_base :: u64
  h_fb_pixels_per_scanline :: u32
  h_fb_height :: u32

definition efi_free_type :: "u32 \<Rightarrow> bool" where
  "efi_free_type t \<longleftrightarrow> t \<in> {7, 3, 4, 1, 2}"

definition init_descriptor :: "EFI_MEMORY_DESCRIPTOR \<Rightarrow> PhysBitmap \<Rightarrow> PhysBitmap" where
  "init_descriptor d p =
     (if efi_free_type (d_Type d) then mark_range_free p (d_PhysicalStart d) (d_NumberOfPages d) else p)"

abbreviation XERET_HANDOFF_MAGIC :: u64 where "XERET_HANDOFF_MAGIC \<equiv> 0x5845524554484E44"

definition phys_init_from_handoff ::
  "XeretHandoff option \<Rightarrow> PhysBitmap \<Rightarrow> int \<times> PhysBitmap" where
  "phys_init_from_handoff hand p =
     (if hand = None \<or> h_magic (the hand) \<noteq> XERET_HANDOFF_MAGIC then (-1, p)
      else (let h = the hand in
        if h_mmap_addr h = 0 \<or> h_mmap_size h = 0 \<or> h_mmap_desc_size h = 0 then (-1, p)
        else if h_phys_end h = 0 then (-1, p)
        else (let frames = drop_bit XERET_FRAME_SHIFT (h_phys_end h + XERET_FRAME_SIZE - 1);
                  (frames, pend) =
                    (if frames > XERET_BITMAP_MAX_FRAMES
                     then (XERET_BITMAP_MAX_FRAMES, push_bit XERET_FRAME_SHIFT XERET_BITMAP_MAX_FRAMES)
                     else (frames, h_phys_end h));
                  p = \<lparr>pb_total = frames, pb_free = 0, pb_used = frames, pb_end = pend,
                       pb_bits = fill_bytes (pb_bits p) 0 XERET_BITMAP_BYTES 0\<rparr>;
                  n = unat (h_mmap_size h) div unat (h_mmap_desc_size h);
                  p = fold init_descriptor (take n (h_mmap h)) p;
                  p = phys_reserve_range p 0 0x100000
              in if h_fb_base h \<noteq> 0 \<and> h_fb_height h \<noteq> 0
                 then (0, phys_reserve_range p (h_fb_base h)
                            (ucast (h_fb_pixels_per_scanline h) * 4 * ucast (h_fb_height h)))
                 else (0, p))))"

section \<open>Allocation\<close>

text \<open>The scan of \<open>phys_alloc_frames\<close>: the start of the first run of \<open>n\<close> free frames.\<close>

function alloc_scan :: "PhysBitmap \<Rightarrow> nat \<Rightarrow> nat \<Rightarrow> nat \<Rightarrow> nat \<Rightarrow> nat option" where
  "alloc_scan p n f run start =
     (if f < unat (pb_total p)
      then (if bit_test p f
            then (let start = (if run = 0 then f else start); run = Suc run
                  in if run = n then Some start else alloc_scan p n (Suc f) run start)
            else alloc_scan p n (Suc f) 0 start)
      else None)"
  by pat_completeness auto
termination by (relation "measure (\<lambda>(p, n, f, run, start). unat (pb_total p) - f)") auto

definition take_frames :: "PhysBitmap \<Rightarrow> nat \<Rightarrow> u64 \<Rightarrow> PhysBitmap" where
  "take_frames p start n =
     (let p = fold (\<lambda>i p. bit_clear p i) [start..<start + unat n] p
      in p\<lparr>pb_free := pb_free p - n, pb_used := pb_used p + n\<rparr>)"

definition phys_alloc_frames :: "u64 \<Rightarrow> PhysBitmap \<Rightarrow> u64 \<times> PhysBitmap" where
  "phys_alloc_frames n p =
     (if n = 0 then (0, p)
      else if n > pb_free p then (0, p)
      else (case alloc_scan p (unat n) 0 0 0 of
              None \<Rightarrow> (0, p)
            | Some start \<Rightarrow> (push_bit XERET_FRAME_SHIFT (of_nat start), take_frames p start n)))"

definition phys_free_frames :: "u64 \<Rightarrow> u64 \<Rightarrow> PhysBitmap \<Rightarrow> PhysBitmap" where
  "phys_free_frames addr n p =
     (if n = 0 \<or> addr AND (XERET_FRAME_SIZE - 1) \<noteq> 0 then p
      else (let f = drop_bit XERET_FRAME_SHIFT addr
            in if f + n > pb_total p then p
               else fold free_one [unat f..<unat (f + n)] p))"

text \<open>The scan of \<open>phys_alloc_huge\<close>: 512 free frames from a multiple of 512. On a used frame it
  moves to the last frame of the group, and the loop's increment to the next group.\<close>

function huge_scan :: "PhysBitmap \<Rightarrow> nat \<Rightarrow> nat \<Rightarrow> nat \<Rightarrow> nat option" where
  "huge_scan p f run start =
     (if f < unat (pb_total p)
      then (let (run, start) = (if f AND 511 = 0 then (0, f) else (run, start))
            in if bit_test p f
               then (let run = Suc run
                     in if run = 512 then Some start else huge_scan p (Suc f) run start)
               else (let f = (if f AND 511 \<noteq> 511 then f OR 511 else f)
                     in huge_scan p (Suc f) 0 start))
      else None)"
  by pat_completeness auto
termination
  by (relation "measure (\<lambda>(p, f, run, start). unat (pb_total p) - f)")
    (auto intro!: diff_less_mono2 le_imp_less_Suc nat_or_ge)

definition phys_alloc_huge :: "PhysBitmap \<Rightarrow> u64 \<times> PhysBitmap" where
  "phys_alloc_huge p =
     (case huge_scan p 0 0 0 of
        None \<Rightarrow> (0, p)
      | Some start \<Rightarrow> (push_bit XERET_FRAME_SHIFT (of_nat start), take_frames p start XERET_FRAMES_PER_HUGE))"

definition phys_free_count :: "PhysBitmap \<Rightarrow> u64" where
  "phys_free_count p = pb_free p"

definition phys_total_count :: "PhysBitmap \<Rightarrow> u64" where
  "phys_total_count p = pb_total p"

declare alloc_scan.simps [simp del] huge_scan.simps [simp del]

section \<open>Invariant\<close>

definition ffree :: "PhysBitmap \<Rightarrow> nat set" where
  "ffree p = {f. f < unat (pb_total p) \<and> bit_test p f}"

definition phys_inv :: "PhysBitmap \<Rightarrow> bool" where
  "phys_inv p \<longleftrightarrow> unat (pb_total p) \<le> 33554432 \<and> length (pb_bits p) = XERET_BITMAP_BYTES \<and>
     unat (pb_free p) = card (ffree p) \<and> unat (pb_free p) + unat (pb_used p) = unat (pb_total p)"

text \<open>What no operation after initialisation changes.\<close>

definition phys_same :: "PhysBitmap \<Rightarrow> PhysBitmap \<Rightarrow> bool" where
  "phys_same p q \<longleftrightarrow> pb_total q = pb_total p \<and> pb_end q = pb_end p \<and> length (pb_bits q) = length (pb_bits p)"

lemma phys_same_refl [simp]: "phys_same p p"
  by (simp add: phys_same_def)

lemma phys_same_trans: "phys_same p q \<Longrightarrow> phys_same q r \<Longrightarrow> phys_same p r"
  by (simp add: phys_same_def)

lemma finite_ffree [simp]: "finite (ffree p)"
  by (simp add: ffree_def)

lemma ffree_bound: "f \<in> ffree p \<Longrightarrow> f < unat (pb_total p)"
  by (simp add: ffree_def)

lemma phys_bit:
  assumes "phys_inv p" "f < unat (pb_total p)"
  shows "f < 8 * length (pb_bits p)"
  using assms by (simp add: phys_inv_def)

lemma card_ffree_less:
  assumes "f < unat (pb_total p)" "f \<notin> ffree p"
  shows "card (ffree p) < unat (pb_total p)"
proof -
  have "ffree p \<subset> {..<unat (pb_total p)}" using assms by (auto simp: ffree_def)
  then have "card (ffree p) < card {..<unat (pb_total p)}" by (intro psubset_card_mono) auto
  then show ?thesis by simp
qed

lemma unat_dec: "(w :: u64) \<noteq> 0 \<Longrightarrow> unat (w - 1) = unat w - 1"
  by (metis unat_minus_one)

lemma unat_inc: "unat (w :: u64) < 18446744073709551615 \<Longrightarrow> unat (w + 1) = unat w + 1"
  by (simp add: unat_word_ariths)

lemma free_one_spec:
  assumes inv: "phys_inv p" and f: "f < unat (pb_total p)"
  shows "phys_inv (free_one f p)" "ffree (free_one f p) = insert f (ffree p)" "phys_same p (free_one f p)"
proof -
  have q: "phys_inv (free_one f p) \<and> ffree (free_one f p) = insert f (ffree p) \<and> phys_same p (free_one f p)"
  proof (cases "bit_test p f")
    case True
    then show ?thesis using inv f by (auto simp: free_one_def ffree_def)
  next
    case False
    have nf: "f \<notin> ffree p" using False by (simp add: ffree_def)
    have c: "card (ffree p) < unat (pb_total p)" by (rule card_ffree_less [OF f nf])
    then have us: "pb_used p \<noteq> 0" "0 < pb_used p" using inv by (auto simp: phys_inv_def word_gt_0)
    let ?q = "p\<lparr>pb_bits := bit_put (pb_bits p) f True, pb_free := pb_free p + 1, pb_used := pb_used p - 1\<rparr>"
    have e: "free_one f p = ?q" using False us by (simp add: free_one_def bit_set_def Let_def)
    have ff: "ffree ?q = insert f (ffree p)"
      using bit_of_bit_put [OF phys_bit [OF inv f], of True] f by (auto simp: ffree_def bit_test_def)
    have "unat (pb_free p + 1) = unat (pb_free p) + 1"
      using inv c by (intro unat_inc) (simp add: phys_inv_def)
    moreover have "0 < unat (pb_used p)" using us(1) by (simp add: unat_gt_0)
    ultimately have "phys_inv ?q"
      using inv ff nf unat_dec [OF us(1)] by (simp add: phys_inv_def)
    then show ?thesis using e ff by (simp add: phys_same_def)
  qed
  then show "phys_inv (free_one f p)" "ffree (free_one f p) = insert f (ffree p)" "phys_same p (free_one f p)" by auto
qed

lemma use_one_spec:
  assumes inv: "phys_inv p" and f: "f < unat (pb_total p)"
  shows "phys_inv (use_one f p)" "ffree (use_one f p) = ffree p - {f}" "phys_same p (use_one f p)"
proof -
  have q: "phys_inv (use_one f p) \<and> ffree (use_one f p) = ffree p - {f} \<and> phys_same p (use_one f p)"
  proof (cases "bit_test p f")
    case False
    then show ?thesis using inv f by (auto simp: use_one_def ffree_def)
  next
    case True
    have nf: "f \<in> ffree p" using True f by (simp add: ffree_def)
    then have cp: "0 < card (ffree p)" by (auto simp: card_gt_0_iff)
    then have us: "pb_free p \<noteq> 0" "0 < pb_free p" using inv by (auto simp: phys_inv_def word_gt_0)
    let ?q = "p\<lparr>pb_bits := bit_put (pb_bits p) f False, pb_free := pb_free p - 1, pb_used := pb_used p + 1\<rparr>"
    have e: "use_one f p = ?q" using True us by (simp add: use_one_def bit_clear_def Let_def)
    have ff: "ffree ?q = ffree p - {f}"
      using bit_of_bit_put [OF phys_bit [OF inv f], of False] f by (auto simp: ffree_def bit_test_def split: if_splits)
    have "unat (pb_used p + 1) = unat (pb_used p) + 1"
      using inv cp by (intro unat_inc) (simp add: phys_inv_def)
    then have "phys_inv ?q"
      using inv ff nf cp us unat_dec [OF us(1)] by (simp add: phys_inv_def)
    then show ?thesis using e ff by (simp add: phys_same_def)
  qed
  then show "phys_inv (use_one f p)" "ffree (use_one f p) = ffree p - {f}" "phys_same p (use_one f p)" by auto
qed

lemma fold_free_one:
  assumes "phys_inv p" "\<forall>f \<in> set fs. f < unat (pb_total p)"
  shows "phys_inv (fold free_one fs p) \<and> ffree (fold free_one fs p) = ffree p \<union> set fs \<and> phys_same p (fold free_one fs p)"
  using assms
proof (induction fs arbitrary: p)
  case (Cons f fs)
  have f: "f < unat (pb_total p)" using Cons.prems(2) by simp
  note s = free_one_spec [OF Cons.prems(1) f]
  have "\<forall>g \<in> set fs. g < unat (pb_total (free_one f p))"
    using Cons.prems(2) s(3) by (simp add: phys_same_def)
  from Cons.IH [OF s(1) this] s phys_same_trans [OF s(3)] show ?case by auto
qed simp

lemma fold_use_one:
  assumes "phys_inv p" "\<forall>f \<in> set fs. f < unat (pb_total p)"
  shows "phys_inv (fold use_one fs p) \<and> ffree (fold use_one fs p) = ffree p - set fs \<and> phys_same p (fold use_one fs p)"
  using assms
proof (induction fs arbitrary: p)
  case (Cons f fs)
  have f: "f < unat (pb_total p)" using Cons.prems(2) by simp
  note s = use_one_spec [OF Cons.prems(1) f]
  have "\<forall>g \<in> set fs. g < unat (pb_total (use_one f p))"
    using Cons.prems(2) s(3) by (simp add: phys_same_def)
  from Cons.IH [OF s(1) this] s phys_same_trans [OF s(3)] show ?case by auto
qed simp

section \<open>The scans\<close>

abbreviation frun :: "nat \<Rightarrow> nat \<Rightarrow> nat set" where
  "frun s n \<equiv> {s..<s + n}"

lemma alloc_scan_spec:
  assumes "run < n" "run \<le> f" "\<forall>k. f - run \<le> k \<longrightarrow> k < f \<longrightarrow> k \<in> ffree p" "0 < run \<longrightarrow> start = f - run"
    and "\<forall>s < f - run. \<not> frun s n \<subseteq> ffree p"
  shows "case alloc_scan p n f run start of
      Some s \<Rightarrow> frun s n \<subseteq> ffree p \<and> (\<forall>s' < s. \<not> frun s' n \<subseteq> ffree p)
    | None \<Rightarrow> (\<forall>s'. \<not> frun s' n \<subseteq> ffree p)"
  using assms
proof (induction p n f run start rule: alloc_scan.induct)
  case (1 p n f run start)
  show ?case
  proof (cases "f < unat (pb_total p)")
    case False
    have "\<not> frun s' n \<subseteq> ffree p" for s'
    proof (cases "s' < f - run")
      case True
      then show ?thesis using "1.prems"(5) by blast
    next
      case ge: False
      have "max f s' \<in> frun s' n" using ge "1.prems"(1,2) by auto
      moreover have "max f s' \<notin> ffree p" using False by (auto simp: ffree_def)
      ultimately show ?thesis by blast
    qed
    then show ?thesis using False by (simp add: alloc_scan.simps [of p n f run start])
  next
    case lt: True
    show ?thesis
    proof (cases "bit_test p f")
      case False
      then have eq: "alloc_scan p n f run start = alloc_scan p n (Suc f) 0 start"
        using lt by (simp add: alloc_scan.simps [of p n f run start])
      have nf: "f \<notin> ffree p" using False by (simp add: ffree_def)
      have no: "\<not> frun s n \<subseteq> ffree p" if "s < Suc f" for s
      proof (cases "s < f - run")
        case True
        then show ?thesis using "1.prems"(5) by blast
      next
        case ge: False
        then have "f \<in> frun s n" using that "1.prems"(1,2) by auto
        then show ?thesis using nf by blast
      qed
      have "0 < n" using "1.prems"(1) by simp
      then show ?thesis unfolding eq using no by (intro "1.IH"(2) [OF lt False]) auto
    next
      case True
      let ?start = "if run = 0 then f else start"
      have st: "?start = f - run" using "1.prems"(4) by auto
      have ff: "f \<in> ffree p" using lt True by (simp add: ffree_def)
      have fr: "k \<in> ffree p" if "f - run \<le> k" "k < Suc f" for k
        using that ff "1.prems"(3) by (cases "k = f") auto
      show ?thesis
      proof (cases "Suc run = n")
        case end_: True
        then have eq: "alloc_scan p n f run start = Some (f - run)"
          using lt True st by (simp add: alloc_scan.simps [of p n f run start] Let_def)
        have "frun (f - run) n \<subseteq> ffree p" using fr end_ "1.prems"(2) by auto
        then show ?thesis unfolding eq using "1.prems"(5) by simp
      next
        case more: False
        then have eq: "alloc_scan p n f run start = alloc_scan p n (Suc f) (Suc run) ?start"
          using lt True by (simp add: alloc_scan.simps [of p n f run start] Let_def)
        show ?thesis unfolding eq
          using more "1.prems" fr st by (intro "1.IH"(1) [OF lt True refl refl more]) auto
      qed
    qed
  qed
qed

lemma mod_in_block:
  fixes b f :: nat
  assumes "512 dvd b" "b \<le> f" "f < b + 512"
  shows "f mod 512 = f - b"
proof -
  obtain k where k: "b = 512 * k" using assms(1) by (rule dvdE)
  define r where "r = f - b"
  have "f = 512 * k + r" "r < 512" using assms(2,3) by (simp_all add: r_def k)
  then show ?thesis by (simp add: k)
qed

lemma block_unique:
  fixes b s :: nat
  assumes "512 dvd b" "512 dvd s" "b \<le> s" "s < b + 512"
  shows "s = b"
proof -
  have "s mod 512 = s - b" by (rule mod_in_block [OF assms(1,3,4)])
  with assms(2,3) show ?thesis by (simp add: dvd_eq_mod_eq_0)
qed

lemma huge_scan_spec:
  assumes "512 dvd f \<or> (start = f - f mod 512 \<and> run = f mod 512 \<and> frun start run \<subseteq> ffree p)"
    and "\<forall>s. s < f - f mod 512 \<longrightarrow> 512 dvd s \<longrightarrow> \<not> frun s 512 \<subseteq> ffree p"
  shows "case huge_scan p f run start of
      Some s \<Rightarrow> 512 dvd s \<and> frun s 512 \<subseteq> ffree p
    | None \<Rightarrow> (\<forall>s'. 512 dvd s' \<longrightarrow> \<not> frun s' 512 \<subseteq> ffree p)"
  using assms
proof (induction p f run start rule: huge_scan.induct)
  case (1 p f run start)
  define b where "b = f - f mod 512"
  have b: "512 dvd b" "b \<le> f" "f < b + 512" "f mod 512 = f - b"
    using mod_less_divisor [of 512 f] by (auto simp: b_def)
  show ?case
  proof (cases "f < unat (pb_total p)")
    case False
    have "\<not> frun s' 512 \<subseteq> ffree p" if d: "512 dvd s'" for s'
    proof (cases "s' < b")
      case True
      then show ?thesis using "1.prems"(2) d by (simp add: b_def)
    next
      case ge: False
      have "max f s' \<in> frun s' 512" using ge b by auto
      moreover have "max f s' \<notin> ffree p" using False by (auto simp: ffree_def)
      ultimately show ?thesis by blast
    qed
    then show ?thesis using False by (simp add: huge_scan.simps [of p f run start])
  next
    case lt: True
    define st where "st = (if f mod 512 = 0 then f else start)"
    define rn where "rn = (if f mod 512 = 0 then 0 else run)"
    have sr: "st = b" "rn = f - b" "frun b (f - b) \<subseteq> ffree p"
    proof -
      have "st = b \<and> rn = f - b \<and> frun b (f - b) \<subseteq> ffree p"
      proof (cases "f mod 512 = 0")
        case True
        then show ?thesis by (simp add: st_def rn_def b_def)
      next
        case False
        then have "start = b" "run = f - b" "frun start run \<subseteq> ffree p"
          using "1.prems"(1) b(4) unfolding dvd_eq_mod_eq_0 b_def [symmetric] by auto
        then show ?thesis using False by (simp add: st_def rn_def)
      qed
      then show "st = b" "rn = f - b" "frun b (f - b) \<subseteq> ffree p" by auto
    qed
    have pr: "(rn, st) = (if f AND 511 = 0 then (0, f) else (run, start))"
      by (simp add: nat_and_511 st_def rn_def)
    show ?thesis
    proof (cases "bit_test p f")
      case True
      then have "f \<in> ffree p" using lt by (simp add: ffree_def)
      then have fr: "frun b (Suc (f - b)) \<subseteq> ffree p" using sr(3) b(2)
        by (auto simp: less_Suc_eq)
      show ?thesis
      proof (cases "Suc rn = 512")
        case end_: True
        then have "huge_scan p f run start = Some b"
          using lt True sr(1) pr [symmetric] by (simp add: huge_scan.simps [of p f run start] Let_def)
        moreover have "Suc (f - b) = 512" using end_ sr(2) by simp
        from fr [unfolded this] have "frun b 512 \<subseteq> ffree p" .
        ultimately show ?thesis using b(1) by simp
      next
        case more: False
        then have eq: "huge_scan p f run start = huge_scan p (Suc f) (Suc rn) st"
          using lt True pr [symmetric] by (simp add: huge_scan.simps [of p f run start] Let_def)
        have nb: "Suc f < b + 512" using more sr(2) b by linarith
        have m: "Suc f mod 512 = Suc f - b" by (rule mod_in_block [OF b(1) _ nb]) (use b(2) in simp)
        show ?thesis unfolding eq
        proof (rule "1.IH"(1) [OF lt pr refl True refl more])
          have bs: "Suc f - Suc f mod 512 = b" unfolding m using b(2) by simp
          have rs: "Suc rn = Suc f mod 512" unfolding m sr(2) using b(2) by simp
          have "frun st (Suc rn) \<subseteq> ffree p" unfolding sr(1,2) by (rule fr)
          then show "512 dvd Suc f \<or> (st = Suc f - Suc f mod 512 \<and> Suc rn = Suc f mod 512 \<and> frun st (Suc rn) \<subseteq> ffree p)"
            unfolding bs using sr(1) rs by blast
          show "\<forall>s. s < Suc f - Suc f mod 512 \<longrightarrow> 512 dvd s \<longrightarrow> \<not> frun s 512 \<subseteq> ffree p"
            unfolding bs using "1.prems"(2) unfolding b_def [symmetric] .
        qed
      qed
    next
      case False
      let ?f = "if f AND 511 \<noteq> 511 then f OR 511 else f"
      have fe: "?f = b + 511"
      proof (cases "f AND 511 \<noteq> 511")
        case True
        then show ?thesis by (simp add: nat_or_511 b_def minus_mod_eq_div_mult)
      next
        case False
        then show ?thesis using b by (simp add: nat_and_511)
      qed
      then have eq: "huge_scan p f run start = huge_scan p (Suc ?f) 0 st"
        using lt False pr [symmetric] by (simp add: huge_scan.simps [of p f run start] Let_def)
      have nf: "f \<notin> ffree p" using False by (simp add: ffree_def)
      have no: "\<not> frun s 512 \<subseteq> ffree p" if "s < b + 512" "512 dvd s" for s
      proof (cases "s < b")
        case True
        then show ?thesis using "1.prems"(2) that by (simp add: b_def)
      next
        case ge: False
        have "s = b" using block_unique [OF b(1) that(2)] ge that(1) by simp
        then have "f \<in> frun s 512" using b by simp
        then show ?thesis using nf by blast
      qed
      have e: "Suc (b + 511) = b + 512" by simp
      have md: "(b + 512) mod 512 = 0" using b(1) by (simp add: dvd_eq_mod_eq_0)
      show ?thesis unfolding eq
      proof (rule "1.IH"(2) [OF lt pr refl False refl])
        show "512 dvd Suc ?f \<or> (st = Suc ?f - Suc ?f mod 512 \<and> 0 = Suc ?f mod 512 \<and> frun st 0 \<subseteq> ffree p)"
          unfolding fe e using b(1) by simp
        show "\<forall>s. s < Suc ?f - Suc ?f mod 512 \<longrightarrow> 512 dvd s \<longrightarrow> \<not> frun s 512 \<subseteq> ffree p"
          unfolding fe e md using no by simp
      qed
    qed
  qed
qed

section \<open>Allocation and release\<close>

text \<open>After initialisation frame 0 is never free, so the address 0 is free to mean failure.\<close>

definition phys_ready :: "PhysBitmap \<Rightarrow> bool" where
  "phys_ready p \<longleftrightarrow> phys_inv p \<and> 0 \<notin> ffree p"

lemma clear_fold:
  assumes "length (pb_bits p) = XERET_BITMAP_BYTES" "\<forall>f \<in> set fs. f < 33554432"
    and "q = fold (\<lambda>i p. bit_clear p i) fs p"
  shows "pb_total q = pb_total p \<and> pb_free q = pb_free p \<and> pb_used q = pb_used p \<and> pb_end q = pb_end p \<and>
    length (pb_bits q) = XERET_BITMAP_BYTES \<and> (\<forall>k. bit_test q k \<longleftrightarrow> bit_test p k \<and> k \<notin> set fs)"
  using assms
proof (induction fs arbitrary: p)
  case (Cons f fs)
  have f: "f < 8 * length (pb_bits p)" using Cons.prems by simp
  have len: "length (pb_bits (bit_clear p f)) = XERET_BITMAP_BYTES" using Cons.prems(1) by (simp add: bit_clear_def)
  have q: "q = fold (\<lambda>i p. bit_clear p i) fs (bit_clear p f)" using Cons.prems(3) by simp
  have t: "bit_test (bit_clear p f) k \<longleftrightarrow> bit_test p k \<and> k \<noteq> f" for k
    using bit_of_bit_put [OF f, of False k] by (auto simp: bit_test_def bit_clear_def)
  have fl: "pb_total (bit_clear p f) = pb_total p" "pb_free (bit_clear p f) = pb_free p"
    "pb_used (bit_clear p f) = pb_used p" "pb_end (bit_clear p f) = pb_end p" by (simp_all add: bit_clear_def)
  from Cons.IH [OF len _ q] Cons.prems(2) show ?case by (auto simp: t fl)
qed simp

lemma take_frames_spec:
  assumes inv: "phys_inv p" and run: "frun s (unat n) \<subseteq> ffree p"
  shows "phys_inv (take_frames p s n)" "ffree (take_frames p s n) = ffree p - frun s (unat n)"
    "phys_same p (take_frames p s n)"
proof -
  define q where "q = fold (\<lambda>i p. bit_clear p i) [s..<s + unat n] p"
  have tq: "take_frames p s n = q\<lparr>pb_free := pb_free q - n, pb_used := pb_used q + n\<rparr>"
    by (simp add: take_frames_def Let_def q_def)
  have b: "\<forall>f \<in> set [s..<s + unat n]. f < 33554432"
  proof
    fix f assume "f \<in> set [s..<s + unat n]"
    then have "f \<in> ffree p" using run by auto
    then show "f < 33554432" using inv ffree_bound [of f p] by (simp add: phys_inv_def)
  qed
  have len: "length (pb_bits p) = XERET_BITMAP_BYTES" using inv by (simp add: phys_inv_def)
  note cf = clear_fold [OF len b q_def]
  have bt: "bit_test (take_frames p s n) k \<longleftrightarrow> bit_test p k \<and> k \<notin> frun s (unat n)" for k
  proof -
    have "bit_test (take_frames p s n) k = bit_test q k" by (simp add: tq bit_test_def)
    then show ?thesis using cf by simp
  qed
  have "pb_total (take_frames p s n) = pb_total p" using cf by (simp add: tq)
  then have ff: "ffree (take_frames p s n) = ffree p - frun s (unat n)"
    unfolding ffree_def bt by auto
  then show "ffree (take_frames p s n) = ffree p - frun s (unat n)" .
  have c: "card (ffree p - frun s (unat n)) = card (ffree p) - unat n"
    using run by (subst card_Diff_subset) (auto intro: finite_subset)
  have "unat n \<le> card (ffree p)" using card_mono [OF _ run] by simp
  then have le: "n \<le> pb_free p" and le': "unat n \<le> unat (pb_free p)"
    using inv by (auto simp: phys_inv_def word_le_nat_alt)
  have "unat (pb_free p - n) = unat (pb_free p) - unat n" using le by (simp add: unat_sub)
  moreover have "unat (pb_used p + n) = unat (pb_used p) + unat n"
    using inv le' by (subst unat_add_less) (auto simp: phys_inv_def)
  ultimately show "phys_inv (take_frames p s n)"
    using inv cf ff c le' unfolding phys_inv_def by (simp add: tq)
  show "phys_same p (take_frames p s n)" using cf len by (simp add: phys_same_def tq)
qed

lemma frame_addr:
  assumes "s < 33554432"
  shows "unat (push_bit XERET_FRAME_SHIFT (of_nat s :: u64)) = s * 4096"
proof -
  have "unat (of_nat s * 4096 :: u64) = s * 4096" using assms by (simp add: unat_word_ariths unat_of_nat)
  then show ?thesis by (simp add: push_bit_eq_mult)
qed

lemma run_bound:
  assumes "phys_inv p" "frun s n \<subseteq> ffree p" "0 < n"
  shows "s + n \<le> unat (pb_total p)" "s < 33554432"
proof -
  have "s + n - 1 \<in> frun s n" "s \<in> frun s n" using assms(3) by auto
  then have "s + n - 1 < unat (pb_total p)" "s < unat (pb_total p)" using assms(2) ffree_bound by blast+
  then show "s + n \<le> unat (pb_total p)" "s < 33554432" using assms(1) by (auto simp: phys_inv_def)
qed

text \<open>What a client may rely on when it gets \<open>n\<close> frames at address \<open>a\<close>.\<close>

definition frames_taken :: "PhysBitmap \<Rightarrow> u64 \<Rightarrow> u64 \<Rightarrow> PhysBitmap \<Rightarrow> bool" where
  "frames_taken p a n q \<longleftrightarrow> phys_ready q \<and> phys_same p q \<and>
     (\<exists>s. unat a = s * 4096 \<and> 0 < s \<and> s + unat n \<le> unat (pb_total p) \<and>
          frun s (unat n) \<subseteq> ffree p \<and> ffree q = ffree p - frun s (unat n))"

lemma frames_takenI:
  assumes rdy: "phys_ready p" and n: "0 < unat n" and run: "frun s (unat n) \<subseteq> ffree p"
    and a: "a = push_bit XERET_FRAME_SHIFT (of_nat s)" and q: "q = take_frames p s n"
  shows "frames_taken p a n q" "a \<noteq> 0"
proof -
  have inv: "phys_inv p" using rdy by (simp add: phys_ready_def)
  note tf = take_frames_spec [OF inv run] and rb = run_bound [OF inv run n]
  have s: "0 < s" using run n rdy by (cases s) (auto simp: phys_ready_def)
  have ua: "unat a = s * 4096" unfolding a by (rule frame_addr [OF rb(2)])
  then show "a \<noteq> 0" using s by auto
  show "frames_taken p a n q"
    unfolding frames_taken_def using tf ua s rb run rdy by (auto simp: q phys_ready_def)
qed

lemma phys_alloc_frames_spec:
  assumes rdy: "phys_ready p" and al: "phys_alloc_frames n p = (a, q)"
  shows "a \<noteq> 0 \<Longrightarrow> n \<noteq> 0 \<and> frames_taken p a n q"
    and "a = 0 \<Longrightarrow> q = p \<and> (n = 0 \<or> (\<forall>s. \<not> frun s (unat n) \<subseteq> ffree p))"
proof -
  have inv: "phys_inv p" using rdy by (simp add: phys_ready_def)
  have "(a \<noteq> 0 \<longrightarrow> n \<noteq> 0 \<and> frames_taken p a n q) \<and> (a = 0 \<longrightarrow> q = p \<and> (n = 0 \<or> (\<forall>s. \<not> frun s (unat n) \<subseteq> ffree p)))"
  proof (cases "n = 0 \<or> n > pb_free p")
    case True
    have "\<not> frun s (unat n) \<subseteq> ffree p" if "n > pb_free p" for s
    proof
      assume "frun s (unat n) \<subseteq> ffree p"
      then have "unat n \<le> card (ffree p)" using card_mono [of "ffree p" "frun s (unat n)"] by simp
      then show False using that inv by (simp add: phys_inv_def word_less_nat_alt)
    qed
    moreover have "a = 0" "q = p" using al True by (auto simp: phys_alloc_frames_def split: if_splits)
    ultimately show ?thesis using True by auto
  next
    case False
    then have n: "0 < unat n" by (simp add: unat_gt_0)
    note sc = alloc_scan_spec [of 0 "unat n" 0 p 0]
    show ?thesis
    proof (cases "alloc_scan p (unat n) 0 0 0")
      case None
      then have "a = 0" "q = p" using al False by (auto simp: phys_alloc_frames_def)
      then show ?thesis using sc None n by simp
    next
      case (Some s)
      then have e: "a = push_bit XERET_FRAME_SHIFT (of_nat s)" "q = take_frames p s n"
        using al False by (auto simp: phys_alloc_frames_def)
      have run: "frun s (unat n) \<subseteq> ffree p" using sc Some n by simp
      show ?thesis using frames_takenI [OF rdy n run e] False by simp
    qed
  qed
  then show "a \<noteq> 0 \<Longrightarrow> n \<noteq> 0 \<and> frames_taken p a n q"
    "a = 0 \<Longrightarrow> q = p \<and> (n = 0 \<or> (\<forall>s. \<not> frun s (unat n) \<subseteq> ffree p))" by auto
qed

lemma phys_alloc_huge_spec:
  assumes rdy: "phys_ready p" and al: "phys_alloc_huge p = (a, q)"
  shows "a \<noteq> 0 \<Longrightarrow> frames_taken p a XERET_FRAMES_PER_HUGE q \<and> unat a mod 2097152 = 0"
    and "a = 0 \<Longrightarrow> q = p \<and> (\<forall>s. 512 dvd s \<longrightarrow> \<not> frun s 512 \<subseteq> ffree p)"
proof -
  have inv: "phys_inv p" using rdy by (simp add: phys_ready_def)
  note sc = huge_scan_spec [of 0 0 0 p]
  have n: "0 < unat XERET_FRAMES_PER_HUGE" by simp
  have "(a \<noteq> 0 \<longrightarrow> frames_taken p a XERET_FRAMES_PER_HUGE q \<and> unat a mod 2097152 = 0) \<and>
    (a = 0 \<longrightarrow> q = p \<and> (\<forall>s. 512 dvd s \<longrightarrow> \<not> frun s 512 \<subseteq> ffree p))"
  proof (cases "huge_scan p 0 0 0")
    case None
    then have "a = 0" "q = p" using al by (auto simp: phys_alloc_huge_def)
    then show ?thesis using sc None by simp
  next
    case (Some s)
    then have e: "a = push_bit XERET_FRAME_SHIFT (of_nat s)" "q = take_frames p s XERET_FRAMES_PER_HUGE"
      using al by (auto simp: phys_alloc_huge_def)
    have run: "frun s (unat XERET_FRAMES_PER_HUGE) \<subseteq> ffree p" and d: "512 dvd s" using sc Some by simp_all
    have "unat a = s * 4096" unfolding e(1) by (rule frame_addr [OF run_bound(2) [OF inv run n]])
    then have "unat a mod 2097152 = 0" using d by (auto elim!: dvdE)
    then show ?thesis using frames_takenI [OF rdy n run e] by simp
  qed
  then show "a \<noteq> 0 \<Longrightarrow> frames_taken p a XERET_FRAMES_PER_HUGE q \<and> unat a mod 2097152 = 0"
    "a = 0 \<Longrightarrow> q = p \<and> (\<forall>s. 512 dvd s \<longrightarrow> \<not> frun s 512 \<subseteq> ffree p)" by auto
qed

lemma frame_of_addr:
  assumes "unat (a :: u64) = s * 4096"
  shows "unat (drop_bit XERET_FRAME_SHIFT a) = s" "a AND (XERET_FRAME_SIZE - 1) = 0"
proof -
  show "unat (drop_bit XERET_FRAME_SHIFT a) = s"
    using assms by (subst unat_drop_bit_eq) (simp add: drop_bit_eq_div)
  have "unat (a AND mask 12) = unat a mod 4096"
    by (simp add: take_bit_eq_mask [symmetric] take_bit_eq_mod unat_mod)
  then have "unat (a AND mask 12) = 0" using assms by simp
  then show "a AND (XERET_FRAME_SIZE - 1) = 0" by (simp add: mask_eq_exp_minus_1 unat_eq_zero)
qed

lemma phys_free_frames_spec:
  assumes rdy: "phys_ready p" and a: "unat a = s * 4096" and s: "0 < s" "s + unat n \<le> unat (pb_total p)"
  shows "phys_ready (phys_free_frames a n p)" "ffree (phys_free_frames a n p) = ffree p \<union> frun s (unat n)"
    "phys_same p (phys_free_frames a n p)"
proof -
  have inv: "phys_inv p" using rdy by (simp add: phys_ready_def)
  note fa = frame_of_addr [OF a]
  let ?f = "drop_bit XERET_FRAME_SHIFT a"
  have u: "unat (?f + n) = s + unat n"
    using s(2) inv fa(1) by (subst unat_add_less) (auto simp: phys_inv_def)
  have nl: "\<not> ?f + n > pb_total p" using s(2) u by (simp add: word_less_nat_alt)
  have "phys_ready (phys_free_frames a n p) \<and> ffree (phys_free_frames a n p) = ffree p \<union> frun s (unat n) \<and>
      phys_same p (phys_free_frames a n p)"
  proof (cases "n = 0")
    case True
    then show ?thesis using rdy by (simp add: phys_free_frames_def)
  next
    case False
    then have e: "phys_free_frames a n p = fold free_one [s..<s + unat n] p"
      using fa nl u by (simp add: phys_free_frames_def Let_def)
    have "\<forall>f \<in> set [s..<s + unat n]. f < unat (pb_total p)" using s(2) by auto
    from fold_free_one [OF inv this] rdy s(1) show ?thesis unfolding e by (auto simp: phys_ready_def)
  qed
  then show "phys_ready (phys_free_frames a n p)" "ffree (phys_free_frames a n p) = ffree p \<union> frun s (unat n)"
    "phys_same p (phys_free_frames a n p)" by auto
qed

section \<open>Ranges and initialisation\<close>

definition page_span :: "u64 \<Rightarrow> u64 \<Rightarrow> nat set" where
  "page_span start pages = {unat (drop_bit XERET_FRAME_SHIFT start)..<unat (drop_bit XERET_FRAME_SHIFT start + pages)}"

definition byte_pages :: "u64 \<Rightarrow> u64" where
  "byte_pages n = drop_bit XERET_FRAME_SHIFT (n + XERET_FRAME_SIZE - 1)"

lemma mark_range_free_spec:
  assumes inv: "phys_inv p"
  shows "phys_inv (mark_range_free p start pages)" "phys_same p (mark_range_free p start pages)"
    "ffree (mark_range_free p start pages) =
       ffree p \<union> (if pages = 0 then {} else page_span start pages \<inter> {..<unat (pb_total p)})"
proof -
  let ?f = "drop_bit XERET_FRAME_SHIFT start"
  let ?e = "if ?f + pages > pb_total p then pb_total p else ?f + pages"
  have b: "\<forall>f \<in> set [unat ?f..<unat ?e]. f < unat (pb_total p)" by (auto simp: word_less_nat_alt split: if_splits)
  have "phys_inv (mark_range_free p start pages) \<and> phys_same p (mark_range_free p start pages) \<and>
    ffree (mark_range_free p start pages) =
       ffree p \<union> (if pages = 0 then {} else page_span start pages \<inter> {..<unat (pb_total p)})"
  proof (cases "pages = 0")
    case True
    then show ?thesis using inv by (simp add: mark_range_free_def)
  next
    case False
    then have e: "mark_range_free p start pages = fold free_one [unat ?f..<unat ?e] p"
      by (simp add: mark_range_free_def Let_def)
    have "{unat ?f..<unat ?e} = page_span start pages \<inter> {..<unat (pb_total p)}"
      by (auto simp: page_span_def word_less_nat_alt)
    then show ?thesis unfolding e using fold_free_one [OF inv b] False by simp
  qed
  then show "phys_inv (mark_range_free p start pages)" "phys_same p (mark_range_free p start pages)"
    "ffree (mark_range_free p start pages) =
       ffree p \<union> (if pages = 0 then {} else page_span start pages \<inter> {..<unat (pb_total p)})" by auto
qed

lemma phys_reserve_range_spec:
  assumes inv: "phys_inv p"
  shows "phys_inv (phys_reserve_range p start n)" "phys_same p (phys_reserve_range p start n)"
    "ffree (phys_reserve_range p start n) =
       ffree p - (if n = 0 then {} else page_span start (byte_pages n))"
proof -
  let ?f = "drop_bit XERET_FRAME_SHIFT start"
  let ?e = "if ?f + byte_pages n > pb_total p then pb_total p else ?f + byte_pages n"
  have b: "\<forall>f \<in> set [unat ?f..<unat ?e]. f < unat (pb_total p)" by (auto simp: word_less_nat_alt split: if_splits)
  have "phys_inv (phys_reserve_range p start n) \<and> phys_same p (phys_reserve_range p start n) \<and>
    ffree (phys_reserve_range p start n) = ffree p - (if n = 0 then {} else page_span start (byte_pages n))"
  proof (cases "n = 0")
    case True
    then show ?thesis using inv by (simp add: phys_reserve_range_def mark_range_used_def)
  next
    case False
    then have e: "phys_reserve_range p start n = fold use_one [unat ?f..<unat ?e] p"
      by (simp add: phys_reserve_range_def mark_range_used_def Let_def byte_pages_def)
    have "{unat ?f..<unat ?e} = page_span start (byte_pages n) \<inter> {..<unat (pb_total p)}"
      by (auto simp: page_span_def word_less_nat_alt)
    then have "ffree p - {unat ?f..<unat ?e} = ffree p - page_span start (byte_pages n)"
      using ffree_bound by auto
    then show ?thesis unfolding e using fold_use_one [OF inv b] False by simp
  qed
  then show "phys_inv (phys_reserve_range p start n)" "phys_same p (phys_reserve_range p start n)"
    "ffree (phys_reserve_range p start n) = ffree p - (if n = 0 then {} else page_span start (byte_pages n))" by auto
qed

lemma init_descriptors:
  assumes "phys_inv p"
  shows "phys_inv (fold init_descriptor ds p) \<and> phys_same p (fold init_descriptor ds p) \<and>
    ffree (fold init_descriptor ds p) \<subseteq> ffree p \<union>
      (\<Union>d \<in> {d \<in> set ds. efi_free_type (d_Type d)}. page_span (d_PhysicalStart d) (d_NumberOfPages d))"
  using assms
proof (induction ds arbitrary: p)
  case (Cons d ds)
  let ?q = "init_descriptor d p"
  have q: "phys_inv ?q" "phys_same p ?q"
    "ffree ?q \<subseteq> ffree p \<union> (if efi_free_type (d_Type d) then page_span (d_PhysicalStart d) (d_NumberOfPages d) else {})"
    using mark_range_free_spec [OF Cons.prems, of "d_PhysicalStart d" "d_NumberOfPages d"] Cons.prems
    by (auto simp: init_descriptor_def split: if_splits)
  from Cons.IH [OF q(1)] q(2,3) phys_same_trans [OF q(2)] show ?case by (auto split: if_splits)
qed simp

lemma bit_zero_fill: "length b = XERET_BITMAP_BYTES \<Longrightarrow> f < 33554432 \<Longrightarrow>
    \<not> bit_of (fill_bytes b 0 XERET_BITMAP_BYTES 0) f"
  by (simp add: fill_bytes_all bit_of_iff less_mult_imp_div_less)

lemma page_span_low: "page_span 0 (byte_pages 0x100000) = {0..<256}"
  by (simp add: page_span_def byte_pages_def)

lemma phys_init_spec:
  assumes len: "length (pb_bits p) = XERET_BITMAP_BYTES"
    and ini: "phys_init_from_handoff (Some h) p = (0, q)"
  shows "phys_ready q" "f \<in> ffree q \<Longrightarrow> 256 \<le> f"
    "f \<in> ffree q \<Longrightarrow> \<exists>d \<in> set (h_mmap h). efi_free_type (d_Type d) \<and> f \<in> page_span (d_PhysicalStart d) (d_NumberOfPages d)"
    "h_fb_base h \<noteq> 0 \<Longrightarrow> h_fb_height h \<noteq> 0 \<Longrightarrow> b = ucast (h_fb_pixels_per_scanline h) * 4 * ucast (h_fb_height h) \<Longrightarrow>
       b \<noteq> 0 \<Longrightarrow> ffree q \<inter> page_span (h_fb_base h) (byte_pages b) = {}"
proof -
  define fr where "fr = drop_bit XERET_FRAME_SHIFT (h_phys_end h + XERET_FRAME_SIZE - 1)"
  define tot where "tot = (if fr > XERET_BITMAP_MAX_FRAMES then XERET_BITMAP_MAX_FRAMES else fr)"
  define pend where "pend = (if fr > XERET_BITMAP_MAX_FRAMES then push_bit XERET_FRAME_SHIFT XERET_BITMAP_MAX_FRAMES else h_phys_end h)"
  define z where "z = \<lparr>pb_total = tot, pb_free = 0, pb_used = tot, pb_end = pend, pb_bits = fill_bytes (pb_bits p) 0 XERET_BITMAP_BYTES 0\<rparr>"
  define ds where "ds = take (unat (h_mmap_size h) div unat (h_mmap_desc_size h)) (h_mmap h)"
  define p1 where "p1 = fold init_descriptor ds z"
  define p2 where "p2 = phys_reserve_range p1 0 0x100000"
  define fb :: u64 where "fb = ucast (h_fb_pixels_per_scanline h) * 4 * ucast (h_fb_height h)"
  have q: "q = (if h_fb_base h \<noteq> 0 \<and> h_fb_height h \<noteq> 0 then phys_reserve_range p2 (h_fb_base h) fb else p2)"
    using ini unfolding phys_init_from_handoff_def
    by (auto simp: Let_def p2_def p1_def ds_def z_def tot_def pend_def fr_def fb_def split: if_split_asm)
  have tt: "unat tot \<le> 33554432" by (simp add: tot_def word_less_nat_alt)
  have "ffree z = {}" using bit_zero_fill [OF len] tt by (auto simp: ffree_def z_def bit_test_def)
  then have zi: "phys_inv z" using tt len by (simp add: phys_inv_def z_def)
  have i1: "phys_inv p1" and f1: "ffree p1 \<subseteq> (\<Union>d \<in> {d \<in> set ds. efi_free_type (d_Type d)}. page_span (d_PhysicalStart d) (d_NumberOfPages d))"
    using init_descriptors [OF zi, of ds] \<open>ffree z = {}\<close> by (auto simp: p1_def)
  note r2 = phys_reserve_range_spec [OF i1, of 0 "0x100000", folded p2_def]
  have f2: "ffree p2 = ffree p1 - {0..<256}" using r2(3) page_span_low by simp
  note r3 = phys_reserve_range_spec [OF r2(1), of "h_fb_base h" fb]
  have iq: "phys_inv q" and fq: "ffree q \<subseteq> ffree p2" using r2(1) r3 by (auto simp: q)
  show "phys_ready q" using iq fq f2 by (auto simp: phys_ready_def)
  show "256 \<le> f" if "f \<in> ffree q" using that fq f2 by auto
  show "\<exists>d \<in> set (h_mmap h). efi_free_type (d_Type d) \<and> f \<in> page_span (d_PhysicalStart d) (d_NumberOfPages d)"
    if "f \<in> ffree q" using that fq f2 f1 by (auto simp: ds_def dest!: in_set_takeD)
  show "ffree q \<inter> page_span (h_fb_base h) (byte_pages b) = {}"
    if "h_fb_base h \<noteq> 0" "h_fb_height h \<noteq> 0" "b = ucast (h_fb_pixels_per_scanline h) * 4 * ucast (h_fb_height h)" "b \<noteq> 0"
    using r3(3) that by (auto simp: q fb_def)
qed

section \<open>The interface of the allocator\<close>

text \<open>What the token ledger relies on: frames handed out come from the free set and leave it,
  frames given back return to it, and a failed request changes nothing.\<close>

locale frame_pool =
  fixes ready :: "'s \<Rightarrow> bool" and avail :: "'s \<Rightarrow> nat set" and lim :: "'s \<Rightarrow> nat"
    and grab :: "u64 \<Rightarrow> 's \<Rightarrow> u64 \<times> 's" and give :: "u64 \<Rightarrow> u64 \<Rightarrow> 's \<Rightarrow> 's"
  assumes avail_lim: "ready p \<Longrightarrow> f \<in> avail p \<Longrightarrow> 0 < f \<and> f < lim p"
    and grab_ok: "ready p \<Longrightarrow> grab n p = (a, q) \<Longrightarrow> a \<noteq> 0 \<Longrightarrow> ready q \<and> lim q = lim p \<and>
       (\<exists>s. unat a = s * 4096 \<and> 0 < s \<and> s + unat n \<le> lim p \<and>
            frun s (unat n) \<subseteq> avail p \<and> avail q = avail p - frun s (unat n))"
    and grab_fail: "ready p \<Longrightarrow> grab n p = (0, q) \<Longrightarrow> q = p"
    and give_ok: "ready p \<Longrightarrow> unat a = s * 4096 \<Longrightarrow> 0 < s \<Longrightarrow> s + unat n \<le> lim p \<Longrightarrow>
       ready (give a n p) \<and> lim (give a n p) = lim p \<and> avail (give a n p) = avail p \<union> frun s (unat n)"
begin

lemma grab_give:
  assumes "ready p" "grab n p = (a, q)" "a \<noteq> 0"
  shows "ready (give a n q) \<and> avail (give a n q) = avail p"
proof -
  from grab_ok [OF assms] obtain s where s: "unat a = s * 4096" "0 < s" "s + unat n \<le> lim p"
    "frun s (unat n) \<subseteq> avail p" "avail q = avail p - frun s (unat n)" and q: "ready q" "lim q = lim p" by blast
  from give_ok [OF q(1) s(1,2), of n] s q(2) show ?thesis by auto
qed

lemma grab_disjoint:
  assumes "ready p" "grab n p = (a, q)" "a \<noteq> 0" "unat a = s * 4096" "R \<inter> avail p = {}"
  shows "R \<inter> frun s (unat n) = {}" "R \<inter> avail q = {}" "frun s (unat n) \<inter> avail q = {}"
proof -
  from grab_ok [OF assms(1-3)] obtain t where t: "unat a = t * 4096"
    "frun t (unat n) \<subseteq> avail p" "avail q = avail p - frun t (unat n)" by blast
  have "t = s" using t(1) assms(4) by simp
  then show "R \<inter> frun s (unat n) = {}" "R \<inter> avail q = {}" "frun s (unat n) \<inter> avail q = {}"
    using t(2,3) assms(5) by auto
qed

end

interpretation pool: frame_pool phys_ready ffree "\<lambda>p. unat (pb_total p)" phys_alloc_frames phys_free_frames
proof (unfold_locales, goal_cases)
  case (1 p f)
  then show ?case by (cases f) (auto simp: phys_ready_def dest: ffree_bound)
next
  case (2 p n a q)
  then show ?case using phys_alloc_frames_spec(1) [OF 2(1,2)] unfolding frames_taken_def phys_same_def by auto
next
  case (3 p n q)
  then show ?case using phys_alloc_frames_spec(2) by blast
next
  case (4 p a s n)
  then show ?case using phys_free_frames_spec [OF 4] by (simp add: phys_same_def)
qed

interpretation huge: frame_pool phys_ready ffree "\<lambda>p. unat (pb_total p)"
  "\<lambda>n p. if n = 512 then phys_alloc_huge p else (0, p)" phys_free_frames
proof (unfold_locales, goal_cases)
  case (1 p f)
  then show ?case by (rule pool.avail_lim)
next
  case (2 p n a q)
  then have "n = 512" "phys_alloc_huge p = (a, q)" by (auto split: if_splits)
  then show ?case
    using phys_alloc_huge_spec(1) [OF 2(1)] 2(3) unfolding frames_taken_def phys_same_def by auto
next
  case (3 p n q)
  then show ?case using phys_alloc_huge_spec(2) by (auto split: if_splits)
next
  case (4 p a s n)
  then show ?case by (rule pool.give_ok)
qed

section \<open>Properties\<close>

definition phys_boot :: XeretHandoff where
  "phys_boot = \<lparr>h_magic = XERET_HANDOFF_MAGIC, h_mmap_addr = 0x8000,
     h_mmap = [\<lparr>d_Type = 7, d_PhysicalStart = 0, d_NumberOfPages = 1024\<rparr>],
     h_mmap_size = 48, h_mmap_desc_size = 48, h_phys_end = 0x400000,
     h_fb_base = 0, h_fb_pixels_per_scanline = 0, h_fb_height = 0\<rparr>"

definition phys_blank :: PhysBitmap where
  "phys_blank = \<lparr>pb_total = 0, pb_free = 0, pb_used = 0, pb_end = 0, pb_bits = replicate XERET_BITMAP_BYTES 0\<rparr>"

definition phys_sample :: PhysBitmap where
  "phys_sample = snd (phys_init_from_handoff (Some phys_boot) phys_blank)"

lemma phys_sample_eq:
  "phys_init_from_handoff (Some phys_boot) phys_blank = (0, phys_sample)"
  by (simp add: phys_sample_def phys_init_from_handoff_def phys_boot_def Let_def)

lemma phys_sample_ok: "phys_ready phys_sample" "ffree phys_sample = {256..<1024}" "pb_total phys_sample = 1024"
proof -
  have len: "length (pb_bits phys_blank) = XERET_BITMAP_BYTES" by (simp add: phys_blank_def)
  show "phys_ready phys_sample" by (rule phys_init_spec(1) [OF len phys_sample_eq])
  define z where "z = \<lparr>pb_total = 1024, pb_free = 0, pb_used = 1024, pb_end = 0x400000,
      pb_bits = fill_bytes (pb_bits phys_blank) 0 XERET_BITMAP_BYTES 0\<rparr>"
  have e: "phys_sample = phys_reserve_range (mark_range_free z 0 1024) 0 0x100000"
    by (simp add: phys_sample_def phys_init_from_handoff_def phys_boot_def Let_def z_def init_descriptor_def efi_free_type_def)
  have "ffree z = {}" using bit_zero_fill [OF len] by (auto simp: ffree_def z_def bit_test_def)
  then have zi: "phys_inv z" using len by (simp add: phys_inv_def z_def)
  note m = mark_range_free_spec [OF zi, of 0 1024]
  have s: "page_span 0 1024 = {0..<1024}" by (simp add: page_span_def)
  have fm: "ffree (mark_range_free z 0 1024) = {0..<1024}" using m(3) \<open>ffree z = {}\<close> s by (auto simp: z_def)
  note r = phys_reserve_range_spec [OF m(1), of 0 "0x100000"]
  show "ffree phys_sample = {256..<1024}" using r(3) fm page_span_low by (auto simp: e)
  show "pb_total phys_sample = 1024" using r(2) m(2) by (simp add: e phys_same_def z_def)
qed

text \<open>C25. Frame allocation is sound and complete. \<open>phys_alloc_frames\<close> returns either the address
  of \<open>n\<close> consecutive frames that were all free, which are exactly the frames it marks used, with
  the counters still exact; or 0, changing nothing, and then \<open>n\<close> is 0 or no run of \<open>n\<close> free frames
  exists.\<close>

theorem phys_alloc_correct:
  assumes "phys_ready p" and "phys_alloc_frames n p = (a, q)"
  shows "(a \<noteq> 0 \<longrightarrow> frames_taken p a n q) \<and>
    (a = 0 \<longrightarrow> q = p \<and> (n = 0 \<or> (\<forall>s. \<not> {s..<s + unat n} \<subseteq> ffree p)))"
  using phys_alloc_frames_spec [OF assms] by blast

theorem phys_alloc_correct_witness:
  "fst (phys_alloc_frames 4 phys_sample) \<noteq> 0 \<and>
   frames_taken phys_sample (fst (phys_alloc_frames 4 phys_sample)) 4 (snd (phys_alloc_frames 4 phys_sample))"
proof -
  obtain a q where al: "phys_alloc_frames 4 phys_sample = (a, q)" by fastforce
  note c = phys_alloc_correct [OF phys_sample_ok(1) al]
  have "{300..<300 + unat (4 :: u64)} \<subseteq> ffree phys_sample" by (auto simp: phys_sample_ok)
  moreover have "(4 :: u64) \<noteq> 0" by simp
  ultimately have "a \<noteq> 0" using c by blast
  then show ?thesis using al c by simp
qed

text \<open>C26. Huge allocation is sound and complete. \<open>phys_alloc_huge\<close> returns the address of 512
  frames that were all free, aligned to 2 MiB, and marks exactly those; it returns 0 only when no
  aligned group of 512 free frames exists.\<close>

theorem phys_alloc_huge_correct:
  assumes "phys_ready p" and "phys_alloc_huge p = (a, q)"
  shows "(a \<noteq> 0 \<longrightarrow> frames_taken p a XERET_FRAMES_PER_HUGE q \<and> unat a mod 2097152 = 0) \<and>
    (a = 0 \<longrightarrow> q = p \<and> (\<forall>s. 512 dvd s \<longrightarrow> \<not> {s..<s + 512} \<subseteq> ffree p))"
  using phys_alloc_huge_spec [OF assms] by blast

theorem phys_alloc_huge_correct_witness:
  "fst (phys_alloc_huge phys_sample) \<noteq> 0 \<and> unat (fst (phys_alloc_huge phys_sample)) mod 2097152 = 0"
proof -
  obtain a q where al: "phys_alloc_huge phys_sample = (a, q)" by fastforce
  note c = phys_alloc_huge_correct [OF phys_sample_ok(1) al]
  have "{512..<512 + 512} \<subseteq> ffree phys_sample" "512 dvd (512 :: nat)" by (auto simp: phys_sample_ok)
  then have "a \<noteq> 0" using c by blast
  then show ?thesis using al c by simp
qed

text \<open>C27. Boot leaves the allocator safe. After \<open>phys_init_from_handoff\<close> succeeds the counters are
  exact, every free frame is at or above 1 MiB and lies in a descriptor of a type that becomes free
  after boot, and no frame of the framebuffer is free.\<close>

theorem phys_init_correct:
  assumes "length (pb_bits p) = XERET_BITMAP_BYTES" and "phys_init_from_handoff (Some h) p = (0, q)"
  shows "phys_ready q \<and>
    (\<forall>f \<in> ffree q. 256 \<le> f \<and> (\<exists>d \<in> set (h_mmap h). efi_free_type (d_Type d) \<and>
        f \<in> page_span (d_PhysicalStart d) (d_NumberOfPages d))) \<and>
    (\<forall>b. h_fb_base h \<noteq> 0 \<longrightarrow> h_fb_height h \<noteq> 0 \<longrightarrow> b = ucast (h_fb_pixels_per_scanline h) * 4 * ucast (h_fb_height h) \<longrightarrow>
        b \<noteq> 0 \<longrightarrow> ffree q \<inter> page_span (h_fb_base h) (byte_pages b) = {})"
  using phys_init_spec [OF assms] by blast

theorem phys_init_correct_witness:
  "phys_ready (snd (phys_init_from_handoff (Some phys_boot) phys_blank)) \<and>
   ffree (snd (phys_init_from_handoff (Some phys_boot) phys_blank)) \<inter> {..<256} = {}"
proof -
  have "length (pb_bits phys_blank) = XERET_BITMAP_BYTES" by (simp add: phys_blank_def)
  from phys_init_correct [OF this phys_sample_eq] show ?thesis by (fastforce simp add: phys_sample_eq)
qed

end
