(* ===== verification/Xmem.thy ===== *)
theory Xmem
  imports Phys
begin

text \<open>
  Physical memory as the kernel sees it through its identity map: a byte for every 64-bit address,
  with the 64-bit loads and stores that \<open>token_ledger.c\<close> and \<open>paging.c\<close> make through
  \<open>volatile UINT64 *\<close> pointers (little endian). The lemmas give the algebra of aligned loads and
  stores and what a run of stores leaves in memory.
\<close>

type_synonym mem = "u64 \<Rightarrow> u8"

definition load64 :: "mem \<Rightarrow> u64 \<Rightarrow> u64" where
  "load64 m a = get64 (map (\<lambda>i. m (a + of_nat i)) [0..<8]) 0"

definition store64 :: "mem \<Rightarrow> u64 \<Rightarrow> u64 \<Rightarrow> mem" where
  "store64 m a v = (\<lambda>x. if x - a < 8 then put64 (replicate 8 0) 0 v ! unat (x - a) else m x)"

text \<open>The machine: the frame allocator and the memory.\<close>

record Xmach =
  xm_phys :: PhysBitmap
  xm_mem :: mem

lemma byte_index:
  assumes "i < 8"
  shows "(of_nat i :: u64) < 8" "unat (of_nat i :: u64) = i"
  using assms by (simp_all add: word_less_nat_alt unat_of_nat)

lemma load64_cong:
  assumes "\<And>i. i < 8 \<Longrightarrow> m (a + of_nat i) = m' (a + of_nat i)"
  shows "load64 m a = load64 m' a"
  unfolding load64_def using assms by (intro arg_cong [where f = "\<lambda>p. get64 p 0"] map_cong) auto

lemma load64_store64_same [simp]: "load64 (store64 m a v) a = v"
proof -
  have "map (\<lambda>i. store64 m a v (a + of_nat i)) [0..<8] = put64 (replicate 8 0) 0 v"
    by (rule nth_equalityI) (auto simp: store64_def byte_index)
  then show ?thesis by (simp add: load64_def get64_put64_same)
qed

lemma unat_sub_cases:
  "unat (x - a :: u64) = (if unat a \<le> unat x then unat x - unat a else 18446744073709551616 + unat x - unat a)"
proof (cases "unat a \<le> unat x")
  case True
  then show ?thesis by (simp add: unat_sub word_le_nat_alt)
next
  case False
  have "int (unat (x - a)) = (int (unat x) - int (unat a)) mod 18446744073709551616"
    using uint_word_ariths(2) [of x a] by simp
  also have "\<dots> = (int (unat x) - int (unat a) + 18446744073709551616) mod 18446744073709551616" by simp
  also have "\<dots> = int (unat x) - int (unat a) + 18446744073709551616"
    using False unat_u64_bound [of a] unat_u64_bound [of x] by (intro mod_pos_pos_trivial; linarith)
  finally have "unat (x - a) = 18446744073709551616 + unat x - unat a" using unat_u64_bound [of a] by linarith
  then show ?thesis using False by simp
qed

lemma aligned_add_bound:
  assumes "unat (a :: u64) mod 8 = 0" "i < 8"
  shows "unat (a + of_nat i) = unat a + i"
proof -
  have "unat a + i < 18446744073709551616"
    using assms unat_u64_bound [of a] by (elim dvdE [OF mod_0_imp_dvd]) auto
  then show ?thesis using assms(2) by (simp add: unat_word_ariths unat_of_nat)
qed

text \<open>A byte \<open>i\<close> of the aligned word at \<open>b\<close> lies in the aligned word at \<open>a\<close> only when the words
  are the same.\<close>

lemma aligned_apart:
  assumes "unat (a :: u64) mod 8 = 0" "unat (b :: u64) mod 8 = 0" "a \<noteq> b" "i < 8"
  shows "\<not> b + of_nat i - a < 8"
proof
  assume l: "b + of_nat i - a < 8"
  have u: "unat (b + of_nat i) = unat b + i" by (rule aligned_add_bound [OF assms(2,4)])
  obtain k j where k: "unat a = 8 * k" and j: "unat b = 8 * j" using assms(1,2) by (auto elim!: dvdE)
  have "unat a \<noteq> unat b" using assms(3) by (simp add: word_unat_eq_iff)
  then have ne: "k < j \<or> j < k" using k j by auto
  have "unat (b + of_nat i - a) < 8" using l by (simp add: word_less_nat_alt)
  then show False
    unfolding unat_sub_cases u k j
    using assms(4) ne unat_u64_bound [of a, unfolded k] by (auto split: if_splits)
qed

lemma load64_store64_other [simp]:
  assumes "unat a mod 8 = 0" "unat b mod 8 = 0" "a \<noteq> b"
  shows "load64 (store64 m a v) b = load64 m b"
  by (rule load64_cong) (use aligned_apart [OF assms] in \<open>simp add: store64_def\<close>)

lemma store64_outside:
  assumes "unat a + 8 \<le> 18446744073709551616" "unat x < unat a \<or> unat a + 8 \<le> unat x"
  shows "store64 m a v x = m x"
proof -
  have "\<not> unat (x - a) < 8" unfolding unat_sub_cases using assms unat_u64_bound [of x] by auto
  then show ?thesis by (simp add: store64_def word_less_nat_alt)
qed

lemma store64_zero_inside:
  assumes "unat a \<le> unat x" "unat x < unat a + 8"
  shows "store64 m a 0 x = 0"
proof -
  have l: "unat (x - a) < 8" unfolding unat_sub_cases using assms by auto
  have "put64 (replicate 8 0) 0 0 = (replicate 8 0 :: bytes)"
    by (rule nth_equalityI) (auto simp: put64_def put32_def nth_list_update)
  then show ?thesis using l by (simp add: store64_def word_less_nat_alt)
qed

lemma load64_zero:
  assumes "\<And>i. i < 8 \<Longrightarrow> m (a + of_nat i) = 0"
  shows "load64 m a = 0"
proof -
  have "map (\<lambda>i. m (a + of_nat i)) [0..<8] = replicate 8 0"
    by (rule nth_equalityI) (use assms in auto)
  then show ?thesis by (simp add: load64_def get64_def get32_def)
qed

text \<open>Clearing words, as \<open>zero_frames\<close> and \<open>alloc_zero_table\<close> do:
  \<open>for (i = 0; i < words; i++) p[i] = 0\<close>.\<close>

definition zero_words :: "mem \<Rightarrow> u64 \<Rightarrow> nat \<Rightarrow> mem" where
  "zero_words m a n = fold (\<lambda>i m. store64 m (a + of_nat i * 8) 0) [0..<n] m"

lemma zero_words_nth:
  assumes "unat a + n * 8 \<le> 18446744073709551616"
  shows "zero_words m a n x = (if unat a \<le> unat x \<and> unat x < unat a + n * 8 then 0 else m x)"
  using assms
proof (induction n)
  case (Suc n)
  have "n * 8 < 18446744073709551616" using Suc.prems by simp
  then have "unat (of_nat n * 8 :: u64) = n * 8" by (simp add: unat_word_ariths unat_of_nat)
  then have u: "unat (a + of_nat n * 8) = unat a + n * 8"
    using Suc.prems by (subst unat_add_less) auto
  have e: "zero_words m a (Suc n) x = store64 (zero_words m a n) (a + of_nat n * 8) 0 x"
    by (simp add: zero_words_def)
  have ih: "zero_words m a n x = (if unat a \<le> unat x \<and> unat x < unat a + n * 8 then 0 else m x)"
    using Suc by simp
  show ?case
  proof (cases "unat a + n * 8 \<le> unat x \<and> unat x < unat a + n * 8 + 8")
    case True
    then show ?thesis using store64_zero_inside [of "a + of_nat n * 8" x] by (simp add: e u)
  next
    case False
    then have "store64 (zero_words m a n) (a + of_nat n * 8) 0 x = zero_words m a n x"
      using Suc.prems by (intro store64_outside) (auto simp: u)
    then show ?thesis using False by (auto simp: e ih)
  qed
qed (auto simp: zero_words_def)

text \<open>The bytes of \<open>n\<close> frames from frame \<open>s\<close>.\<close>

definition in_frames :: "nat \<Rightarrow> nat \<Rightarrow> u64 \<Rightarrow> bool" where
  "in_frames s n x \<longleftrightarrow> unat x div 4096 \<in> frun s n"

lemma in_frames_iff: "in_frames s n x \<longleftrightarrow> s * 4096 \<le> unat x \<and> unat x < (s + n) * 4096"
proof -
  have "unat x = unat x div 4096 * 4096 + unat x mod 4096" "unat x mod 4096 < 4096" by simp_all
  then show ?thesis unfolding in_frames_def by auto
qed

lemma zero_words_frames:
  assumes "unat a = s * 4096" "(s + n) * 4096 \<le> 18446744073709551616"
  shows "zero_words m a (n * 512) x = (if in_frames s n x then 0 else m x)"
proof -
  have "unat a + n * 512 * 8 = (s + n) * 4096" using assms(1) by simp
  then show ?thesis using zero_words_nth [of a "n * 512" m x] assms by (simp add: in_frames_iff)
qed

end
