(* ===== verification/Ledger.thy ===== *)
theory Ledger
  imports Xmem
begin

text \<open>
  The token ledger of \<open>source/arch/amd64/kernel/xeret/mem/token_ledger.c\<close>. A token is a 64-bit
  value with a slot of a table of 4096 entries in the high half and the generation of that slot in
  the low half. The ledger's globals extend the machine record of \<open>Xmem\<close>, so one state holds the
  frame allocator, the memory and the table. An entry pointer is the slot number. The bodies that
  run under \<open>g_lock\<close> are single steps, and each public operation is the composition the source
  makes of them.

  Seen from outside the ledger is a partial map from tokens to entries, \<open>toks\<close>: the lemmas show
  how each operation changes that map and the set of free frames.
\<close>

section \<open>Data\<close>

record XTokenEntry =
  te_generation :: u32
  te_kind :: u32
  te_owner :: u32
  te_rights :: u32
  te_phys :: u64
  te_frames :: u64
  te_live :: bool
  te_map_count :: u16

type_synonym XToken = u64

abbreviation XTOKEN_INVALID :: XToken where "XTOKEN_INVALID \<equiv> 0"
abbreviation XTOK_TABLE_SLOTS :: u32 where "XTOK_TABLE_SLOTS \<equiv> 4096"
abbreviation XTOK_KIND_NONE :: u32 where "XTOK_KIND_NONE \<equiv> 0"
abbreviation XTOK_KIND_RAM :: u32 where "XTOK_KIND_RAM \<equiv> 1"
abbreviation XTOK_OWNER_KERNEL :: u32 where "XTOK_OWNER_KERNEL \<equiv> 0"
abbreviation XTOK_RIGHT_READ :: u32 where "XTOK_RIGHT_READ \<equiv> 1"
abbreviation XTOK_RIGHT_WRITE :: u32 where "XTOK_RIGHT_WRITE \<equiv> 2"
abbreviation XTOK_RIGHT_EXECUTE :: u32 where "XTOK_RIGHT_EXECUTE \<equiv> 4"
abbreviation XTOK_RIGHT_MAP :: u32 where "XTOK_RIGHT_MAP \<equiv> 8"
abbreviation XTOK_RIGHT_DMA :: u32 where "XTOK_RIGHT_DMA \<equiv> 16"
abbreviation XTOK_RIGHT_RELEASE :: u32 where "XTOK_RIGHT_RELEASE \<equiv> 32"
abbreviation XTOK_REL_ESTALE :: int where "XTOK_REL_ESTALE \<equiv> -1"
abbreviation XTOK_REL_EBUSY :: int where "XTOK_REL_EBUSY \<equiv> -2"
abbreviation XTOK_REL_ERIGHTS :: int where "XTOK_REL_ERIGHTS \<equiv> -3"
abbreviation XTOK_MAP_OK :: int where "XTOK_MAP_OK \<equiv> 0"
abbreviation XTOK_MAP_ESTALE :: int where "XTOK_MAP_ESTALE \<equiv> -1"
abbreviation XTOK_MAP_EOWNER :: int where "XTOK_MAP_EOWNER \<equiv> -2"
abbreviation XTOK_MAP_ERIGHTS :: int where "XTOK_MAP_ERIGHTS \<equiv> -3"
abbreviation XTOK_MAP_EKIND :: int where "XTOK_MAP_EKIND \<equiv> -4"
abbreviation XTOK_MAP_EBUSY :: int where "XTOK_MAP_EBUSY \<equiv> -5"

record Ledger = Xmach +
  lg_table :: "XTokenEntry list"
  lg_live :: u32
  lg_next_hint :: u32

section \<open>Tokens and slots\<close>

definition pack_token :: "u32 \<Rightarrow> u32 \<Rightarrow> XToken" where
  "pack_token slot gen = push_bit 32 (ucast slot) OR ucast gen"

definition unpack_token :: "XToken \<Rightarrow> u32 \<times> u32" where
  "unpack_token tok = (ucast (drop_bit 32 tok), ucast (tok AND 0xFFFFFFFF))"

definition lookup_live :: "XToken \<Rightarrow> 'a Ledger_scheme \<Rightarrow> nat option" where
  "lookup_live tok s =
     (if tok = XTOKEN_INVALID then None
      else (let (slot, gen) = unpack_token tok in
        if slot \<ge> XTOK_TABLE_SLOTS then None
        else if \<not> te_live (lg_table s ! unat slot) then None
        else if te_generation (lg_table s ! unat slot) \<noteq> gen then None
        else Some (unat slot)))"

text \<open>The loop of \<open>claim_slot\<close>: the first slot from the hint on that is not live.\<close>

fun claim_scan :: "XTokenEntry list \<Rightarrow> u32 \<Rightarrow> nat list \<Rightarrow> u32 option" where
  "claim_scan t hint [] = None"
| "claim_scan t hint (i # is) =
     (let idx = (hint + of_nat i) mod XTOK_TABLE_SLOTS in
      if \<not> te_live (t ! unat idx) then Some idx else claim_scan t hint is)"

definition claim_slot :: "'a Ledger_scheme \<Rightarrow> u32 option \<times> 'a Ledger_scheme" where
  "claim_slot s =
     (case claim_scan (lg_table s) (lg_next_hint s) [0..<unat XTOK_TABLE_SLOTS] of
        Some idx \<Rightarrow> (Some idx, s\<lparr>lg_next_hint := (idx + 1) mod XTOK_TABLE_SLOTS\<rparr>)
      | None \<Rightarrow> (None, s))"

definition xtok_init :: "'a Ledger_scheme \<Rightarrow> 'a Ledger_scheme" where
  "xtok_init s = s\<lparr>lg_table := fold (\<lambda>i t. t[i := \<lparr>te_generation = 1, te_kind = XTOK_KIND_NONE, te_owner = 0,
        te_rights = 0, te_phys = 0, te_frames = 0, te_live = False, te_map_count = 0\<rparr>])
        [0..<unat XTOK_TABLE_SLOTS] (lg_table s), lg_live := 0, lg_next_hint := 0\<rparr>"

section \<open>Allocation\<close>

definition seal_ram_locked ::
  "u32 \<Rightarrow> u64 \<Rightarrow> u64 \<Rightarrow> u32 \<Rightarrow> 'a Ledger_scheme \<Rightarrow> XToken \<times> 'a Ledger_scheme" where
  "seal_ram_locked owner phys n rights s =
     (if phys = 0 \<or> n = 0 then (XTOKEN_INVALID, s)
      else (case claim_slot s of
        (None, s) \<Rightarrow> (XTOKEN_INVALID, s)
      | (Some slot, s) \<Rightarrow>
          (let e = (lg_table s ! unat slot)\<lparr>te_kind := XTOK_KIND_RAM, te_owner := owner, te_rights := rights,
                     te_phys := phys, te_frames := n, te_live := True\<rparr>
           in (pack_token slot (te_generation e),
               s\<lparr>lg_table := (lg_table s)[unat slot := e], lg_live := lg_live s + 1\<rparr>))))"

definition zero_frames :: "u64 \<Rightarrow> u64 \<Rightarrow> 'a Xmach_scheme \<Rightarrow> 'a Xmach_scheme" where
  "zero_frames phys n s = s\<lparr>xm_mem := zero_words (xm_mem s) phys (unat (n * (XERET_FRAME_SIZE div 8)))\<rparr>"

definition xtok_alloc_ram :: "u32 \<Rightarrow> u64 \<Rightarrow> u32 \<Rightarrow> 'a Ledger_scheme \<Rightarrow> XToken \<times> 'a Ledger_scheme" where
  "xtok_alloc_ram owner n rights s =
     (if n = 0 then (XTOKEN_INVALID, s)
      else (let (phys, p) = phys_alloc_frames n (xm_phys s); s = s\<lparr>xm_phys := p\<rparr> in
        if phys = 0 then (XTOKEN_INVALID, s)
        else (let s = zero_frames phys n s;
                  (tok, s) = seal_ram_locked owner phys n rights s
              in if tok = XTOKEN_INVALID then (tok, s\<lparr>xm_phys := phys_free_frames phys n (xm_phys s)\<rparr>)
                 else (tok, s))))"

definition xtok_alloc_ram_huge :: "u32 \<Rightarrow> u32 \<Rightarrow> 'a Ledger_scheme \<Rightarrow> XToken \<times> 'a Ledger_scheme" where
  "xtok_alloc_ram_huge owner rights s =
     (let (phys, p) = phys_alloc_huge (xm_phys s); s = s\<lparr>xm_phys := p\<rparr> in
      if phys = 0 then (XTOKEN_INVALID, s)
      else (let s = zero_frames phys XERET_FRAMES_PER_HUGE s;
                (tok, s) = seal_ram_locked owner phys XERET_FRAMES_PER_HUGE rights s
            in if tok = XTOKEN_INVALID
               then (tok, s\<lparr>xm_phys := phys_free_frames phys XERET_FRAMES_PER_HUGE (xm_phys s)\<rparr>)
               else (tok, s)))"

section \<open>Queries\<close>

definition xtok_validate :: "XToken \<Rightarrow> u32 \<Rightarrow> 'a Ledger_scheme \<Rightarrow> bool" where
  "xtok_validate tok need s =
     (case lookup_live tok s of
        None \<Rightarrow> False
      | Some i \<Rightarrow> te_rights (lg_table s ! i) AND need = need)"

definition xtok_ram_info :: "XToken \<Rightarrow> 'a Ledger_scheme \<Rightarrow> int \<times> (u64 \<times> u64) option" where
  "xtok_ram_info tok s =
     (case lookup_live tok s of
        None \<Rightarrow> (-1, None)
      | Some i \<Rightarrow>
          (if te_kind (lg_table s ! i) \<noteq> XTOK_KIND_RAM then (-1, None)
           else (0, Some (te_phys (lg_table s ! i), te_frames (lg_table s ! i)))))"

text \<open>The loop of \<open>xtok_owner_tokens\<close> stops after \<open>max\<close> tokens; the count it returns is the length
  of the list.\<close>

fun owner_scan :: "XTokenEntry list \<Rightarrow> u32 \<Rightarrow> nat \<Rightarrow> nat list \<Rightarrow> XToken list" where
  "owner_scan t owner lim [] = []"
| "owner_scan t owner lim (slot # is) =
     (if lim = 0 then []
      else if te_live (t ! slot) \<and> te_owner (t ! slot) = owner
           then pack_token (of_nat slot) (te_generation (t ! slot)) # owner_scan t owner (lim - 1) is
           else owner_scan t owner lim is)"

definition xtok_owner_tokens :: "u32 \<Rightarrow> u32 \<Rightarrow> 'a Ledger_scheme \<Rightarrow> XToken list" where
  "xtok_owner_tokens owner lim s = owner_scan (lg_table s) owner (unat lim) [0..<unat XTOK_TABLE_SLOTS]"

definition xtok_owner_usage :: "u32 \<Rightarrow> 'a Ledger_scheme \<Rightarrow> u64 \<times> u32" where
  "xtok_owner_usage owner s =
     fold (\<lambda>slot (f, c). if te_live (lg_table s ! slot) \<and> te_owner (lg_table s ! slot) = owner
                         then (f + te_frames (lg_table s ! slot), c + 1) else (f, c))
       [0..<unat XTOK_TABLE_SLOTS] (0, 0)"

definition xtok_live_count :: "'a Ledger_scheme \<Rightarrow> u32" where
  "xtok_live_count s = lg_live s"

definition xtok_map_count :: "XToken \<Rightarrow> 'a Ledger_scheme \<Rightarrow> u32" where
  "xtok_map_count tok s =
     (case lookup_live tok s of
        None \<Rightarrow> 0xFFFFFFFF
      | Some i \<Rightarrow> ucast (te_map_count (lg_table s ! i)))"

section \<open>Release\<close>

text \<open>\<open>next_generation\<close> is the bump that skips 0. The flags of \<open>release_impl\<close> are booleans:
  whether it checks the RELEASE right and whether it checks the owner.\<close>

definition next_generation :: "u32 \<Rightarrow> u32" where
  "next_generation g = (if g + 1 = 0 then 1 else g + 1)"

definition dead_entry :: "XTokenEntry \<Rightarrow> XTokenEntry" where
  "dead_entry e = e\<lparr>te_live := False, te_kind := XTOK_KIND_NONE, te_owner := 0, te_rights := 0, te_phys := 0,
     te_frames := 0, te_map_count := 0, te_generation := next_generation (te_generation e)\<rparr>"

definition release_impl :: "XToken \<Rightarrow> bool \<Rightarrow> bool \<Rightarrow> u32 \<Rightarrow> 'a Ledger_scheme \<Rightarrow> int \<times> 'a Ledger_scheme" where
  "release_impl tok check_right check_owner owner s =
     (case lookup_live tok s of
        None \<Rightarrow> (XTOK_REL_ESTALE, s)
      | Some i \<Rightarrow>
          (let e = lg_table s ! i in
           if check_owner \<and> te_owner e \<noteq> owner then (XTOK_REL_ESTALE, s)
           else if check_right \<and> te_rights e AND XTOK_RIGHT_RELEASE = 0 then (XTOK_REL_ERIGHTS, s)
           else if te_map_count e \<noteq> 0 then (XTOK_REL_EBUSY, s)
           else (let phys = te_phys e; n = te_frames e;
                     was_ram = (te_kind e = XTOK_KIND_RAM \<and> phys \<noteq> 0 \<and> n \<noteq> 0);
                     s = s\<lparr>lg_table := (lg_table s)[i := dead_entry e]\<rparr>;
                     s = (if lg_live s > 0 then s\<lparr>lg_live := lg_live s - 1\<rparr> else s)
                 in (0, if was_ram then s\<lparr>xm_phys := phys_free_frames phys n (xm_phys s)\<rparr> else s))))"

definition xtok_release :: "XToken \<Rightarrow> 'a Ledger_scheme \<Rightarrow> int \<times> 'a Ledger_scheme" where
  "xtok_release tok s =
     (let (r, s) = release_impl tok True False 0 s in (if r = XTOK_REL_ERIGHTS then -1 else r, s))"

definition xtok_release_owned :: "XToken \<Rightarrow> u32 \<Rightarrow> 'a Ledger_scheme \<Rightarrow> int \<times> 'a Ledger_scheme" where
  "xtok_release_owned tok owner s = release_impl tok True True owner s"

definition xtok_reclaim :: "XToken \<Rightarrow> 'a Ledger_scheme \<Rightarrow> int \<times> 'a Ledger_scheme" where
  "xtok_reclaim tok s = release_impl tok False False 0 s"

section \<open>The map gate\<close>

definition set_map_count :: "nat \<Rightarrow> u16 \<Rightarrow> 'a Ledger_scheme \<Rightarrow> 'a Ledger_scheme" where
  "set_map_count i c s = s\<lparr>lg_table := (lg_table s)[i := (lg_table s ! i)\<lparr>te_map_count := c\<rparr>]\<rparr>"

definition xtok_map_acquire ::
  "XToken \<Rightarrow> u32 \<Rightarrow> u32 \<Rightarrow> 'a Ledger_scheme \<Rightarrow> int \<times> (u64 \<times> u64) option \<times> 'a Ledger_scheme" where
  "xtok_map_acquire tok caller need s =
     (case lookup_live tok s of
        None \<Rightarrow> (XTOK_MAP_ESTALE, None, s)
      | Some i \<Rightarrow>
          (let e = lg_table s ! i in
           if te_kind e \<noteq> XTOK_KIND_RAM then (XTOK_MAP_EKIND, None, s)
           else if te_owner e \<noteq> caller then (XTOK_MAP_EOWNER, None, s)
           else if te_rights e AND need \<noteq> need then (XTOK_MAP_ERIGHTS, None, s)
           else if te_map_count e = 0xFFFF then (XTOK_MAP_EBUSY, None, s)
           else (XTOK_MAP_OK, Some (te_phys e, te_frames e), set_map_count i (te_map_count e + 1) s)))"

definition xtok_map_release :: "XToken \<Rightarrow> 'a Ledger_scheme \<Rightarrow> 'a Ledger_scheme" where
  "xtok_map_release tok s =
     (case lookup_live tok s of
        None \<Rightarrow> s
      | Some i \<Rightarrow>
          (if te_map_count (lg_table s ! i) > 0 then set_map_count i (te_map_count (lg_table s ! i) - 1) s else s))"

end
