(* ===== verification/Ledger_Inv.thy ===== *)
theory Ledger_Inv
  imports Ledger
begin

text \<open>
  The ledger's invariant and the effect of every operation on the map of live tokens. The frames of
  a live token are in use, inside the memory, and no other token's.
\<close>

section \<open>Tokens\<close>

lemma unpack_pack [simp]: "unpack_token (pack_token slot gen) = (slot, gen)"
proof -
  have "(ucast (drop_bit 32 (pack_token slot gen)) :: u32) = slot"
    by (rule bit_word_eqI) (auto simp: pack_token_def bit_simps dest: bit_imp_le_length)
  moreover have "(ucast (pack_token slot gen AND mask 32) :: u32) = gen"
    by (rule bit_word_eqI) (auto simp: pack_token_def bit_simps dest: bit_imp_le_length)
  ultimately show ?thesis by (simp add: unpack_token_def mask_eq_exp_minus_1)
qed

lemma pack_unpack: "unpack_token tok = (slot, gen) \<Longrightarrow> pack_token slot gen = tok"
proof -
  assume "unpack_token tok = (slot, gen)"
  then have "slot = ucast (drop_bit 32 tok)" "gen = ucast (tok AND mask 32)"
    by (auto simp: unpack_token_def mask_eq_exp_minus_1)
  then show ?thesis
    by (intro bit_word_eqI) (auto simp: pack_token_def bit_simps)
qed

lemma slot_token: "fst (unpack_token t) = slot \<Longrightarrow> \<exists>g. t = pack_token slot g"
proof -
  assume "fst (unpack_token t) = slot"
  then have "unpack_token t = (slot, snd (unpack_token t))" by auto
  from pack_unpack [OF this, symmetric] show ?thesis by (rule exI)
qed

lemma pack_eq_iff [simp]: "pack_token a b = pack_token c d \<longleftrightarrow> a = c \<and> b = d"
proof
  assume "pack_token a b = pack_token c d"
  then have "unpack_token (pack_token a b) = unpack_token (pack_token c d)" by (rule arg_cong)
  then show "a = c \<and> b = d" by (simp only: unpack_pack prod.inject)
qed simp

lemma pack_nonzero: "g \<noteq> 0 \<Longrightarrow> pack_token i g \<noteq> 0"
proof
  assume "g \<noteq> 0" "pack_token i g = 0"
  then have "unpack_token 0 = (i, g)" using unpack_pack [of i g] by simp
  then show False using \<open>g \<noteq> 0\<close> by (simp add: unpack_token_def)
qed

definition toks :: "'a Ledger_scheme \<Rightarrow> XToken \<rightharpoonup> XTokenEntry" where
  "toks s tok = map_option (\<lambda>i. lg_table s ! i) (lookup_live tok s)"

lemma slot_unat: "(of_nat i :: u32) = slot \<Longrightarrow> i < 4096 \<Longrightarrow> unat slot = i"
  by (auto simp: unat_of_nat)

lemma lookup_liveD:
  assumes "lookup_live tok s = Some i"
  shows "i < 4096" "te_live (lg_table s ! i)" "tok = pack_token (of_nat i) (te_generation (lg_table s ! i))"
proof -
  obtain slot gen where u: "unpack_token tok = (slot, gen)" by fastforce
  have "slot < 4096" "te_live (lg_table s ! unat slot)" "te_generation (lg_table s ! unat slot) = gen" "i = unat slot"
    using assms u by (auto simp: lookup_live_def split: if_splits)
  then show "i < 4096" "te_live (lg_table s ! i)" "tok = pack_token (of_nat i) (te_generation (lg_table s ! i))"
    using pack_unpack [OF u] by (auto simp: word_less_nat_alt)
qed

lemma lookup_liveI:
  assumes "i < 4096" "te_live (lg_table s ! i)" "te_generation (lg_table s ! i) \<noteq> 0"
  shows "lookup_live (pack_token (of_nat i) (te_generation (lg_table s ! i))) s = Some i"
proof -
  have "unat (of_nat i :: u32) = i" using assms(1) by (simp add: unat_of_nat)
  then show ?thesis using assms pack_nonzero [OF assms(3)]
    by (simp add: lookup_live_def word_le_nat_alt)
qed

lemma toks_pack:
  assumes "i < 4096"
  shows "toks s (pack_token (of_nat i) g) =
    (if te_live (lg_table s ! i) \<and> te_generation (lg_table s ! i) = g \<and> pack_token (of_nat i) g \<noteq> 0
     then Some (lg_table s ! i) else None)"
proof -
  have "unat (of_nat i :: u32) = i" using assms(1) by (simp add: unat_of_nat)
  then show ?thesis using assms by (simp add: toks_def lookup_live_def word_le_nat_alt)
qed

lemma toks_Some_iff:
  "toks s tok = Some e \<longleftrightarrow> (\<exists>i. lookup_live tok s = Some i \<and> e = lg_table s ! i)"
  by (auto simp: toks_def)

lemma toks_None_iff: "toks s tok = None \<longleftrightarrow> lookup_live tok s = None"
  by (simp add: toks_def)

section \<open>Invariant\<close>

definition te_span :: "XTokenEntry \<Rightarrow> nat set" where
  "te_span e = frun (unat (te_phys e) div 4096) (unat (te_frames e))"

definition entry_ok :: "PhysBitmap \<Rightarrow> XTokenEntry \<Rightarrow> bool" where
  "entry_ok p e \<longleftrightarrow> te_generation e \<noteq> 0 \<and>
     (if te_live e
      then te_kind e = XTOK_KIND_RAM \<and> te_frames e \<noteq> 0 \<and> te_phys e \<noteq> 0 \<and> unat (te_phys e) mod 4096 = 0 \<and>
           unat (te_phys e) div 4096 + unat (te_frames e) \<le> unat (pb_total p) \<and> te_span e \<inter> ffree p = {}
      else te_map_count e = 0)"

definition live_slots :: "XTokenEntry list \<Rightarrow> nat set" where
  "live_slots t = {i. i < 4096 \<and> te_live (t ! i)}"

definition ledger_inv :: "'a Ledger_scheme \<Rightarrow> bool" where
  "ledger_inv s \<longleftrightarrow> phys_ready (xm_phys s) \<and> length (lg_table s) = 4096 \<and>
     (\<forall>i < 4096. entry_ok (xm_phys s) (lg_table s ! i)) \<and>
     (\<forall>i \<in> live_slots (lg_table s). \<forall>j \<in> live_slots (lg_table s). i \<noteq> j \<longrightarrow>
        te_span (lg_table s ! i) \<inter> te_span (lg_table s ! j) = {}) \<and>
     unat (lg_live s) = card (live_slots (lg_table s))"

lemma ledger_invD:
  assumes "ledger_inv s"
  shows "phys_ready (xm_phys s)" "length (lg_table s) = 4096"
    "i < 4096 \<Longrightarrow> entry_ok (xm_phys s) (lg_table s ! i)"
    "i < 4096 \<Longrightarrow> j < 4096 \<Longrightarrow> te_live (lg_table s ! i) \<Longrightarrow> te_live (lg_table s ! j) \<Longrightarrow> i \<noteq> j \<Longrightarrow>
       te_span (lg_table s ! i) \<inter> te_span (lg_table s ! j) = {}"
    "unat (lg_live s) = card (live_slots (lg_table s))"
  using assms by (auto simp: ledger_inv_def live_slots_def)

lemma finite_live_slots [simp]: "finite (live_slots t)"
  by (simp add: live_slots_def)

lemma card_live_slots: "card (live_slots t) \<le> 4096"
proof -
  have "card (live_slots t) \<le> card {..<4096 :: nat}" by (intro card_mono) (auto simp: live_slots_def)
  then show ?thesis by simp
qed

lemma live_slots_update:
  assumes "i < 4096" "length t = 4096"
  shows "live_slots (t[i := e]) = (if te_live e then insert i (live_slots t) else live_slots t - {i})"
  using assms by (auto simp: live_slots_def nth_list_update split: if_splits)

text \<open>The one lemma behind every operation that changes an entry.\<close>

lemma ledger_inv_update:
  assumes inv: "ledger_inv s" and i: "i < 4096" and p: "phys_ready p" "pb_total p = pb_total (xm_phys s)"
    and e: "entry_ok p e"
    and others: "\<And>j. j < 4096 \<Longrightarrow> j \<noteq> i \<Longrightarrow> te_live (lg_table s ! j) \<Longrightarrow> te_span (lg_table s ! j) \<inter> ffree p = {}"
    and disj: "\<And>j. te_live e \<Longrightarrow> j < 4096 \<Longrightarrow> j \<noteq> i \<Longrightarrow> te_live (lg_table s ! j) \<Longrightarrow>
      te_span e \<inter> te_span (lg_table s ! j) = {}"
    and l: "unat l + of_bool (te_live (lg_table s ! i)) = unat (lg_live s) + of_bool (te_live e)"
    and s': "lg_table s' = (lg_table s)[i := e]" "xm_phys s' = p" "lg_live s' = l"
  shows "ledger_inv s'"
proof -
  note d = ledger_invD [OF inv]
  have ok: "entry_ok p ((lg_table s)[i := e] ! j)" if "j < 4096" for j
  proof (cases "j = i")
    case True
    then show ?thesis using e d(2) i by simp
  next
    case False
    then show ?thesis using others [OF that False] d(3) [OF that] p(2) by (auto simp: entry_ok_def)
  qed
  have dj: "te_span ((lg_table s)[i := e] ! a) \<inter> te_span ((lg_table s)[i := e] ! b) = {}"
    if "a \<in> live_slots ((lg_table s)[i := e])" "b \<in> live_slots ((lg_table s)[i := e])" "a \<noteq> b" for a b
    using that disj d(4) i d(2) by (auto simp: live_slots_def nth_list_update Int_commute split: if_splits)
  have il: "i \<in> live_slots (lg_table s) \<longleftrightarrow> te_live (lg_table s ! i)" using i by (simp add: live_slots_def)
  have "unat l = card (live_slots ((lg_table s)[i := e]))"
  proof (cases "te_live (lg_table s ! i)")
    case True
    then have "0 < card (live_slots (lg_table s))" using il by (auto simp: card_gt_0_iff)
    then show ?thesis using True l d(5) il
      by (cases "te_live e") (simp_all add: live_slots_update [OF i d(2)] insert_absorb)
  next
    case False
    then show ?thesis using l d(5) il by (auto simp: live_slots_update [OF i d(2)])
  qed
  then show ?thesis using p(1) d(2) ok dj by (simp add: ledger_inv_def s')
qed

text \<open>How an update of one entry changes the token map.\<close>

lemma toks_update:
  assumes i: "i < 4096" and len: "length (lg_table s) = 4096" and g: "te_generation e \<noteq> 0"
    and s': "lg_table s' = (lg_table s)[i := e]"
  shows "toks s' t = (if fst (unpack_token t) = of_nat i
    then (if te_live e \<and> t = pack_token (of_nat i) (te_generation e) then Some e else None) else toks s t)"
proof -
  obtain slot gen where u: "unpack_token t = (slot, gen)" by fastforce
  have t: "t = pack_token slot gen" using pack_unpack [OF u] by simp
  show ?thesis
  proof (cases "slot = of_nat i")
    case True
    then have "toks s' t = (if te_live e \<and> te_generation e = gen \<and> t \<noteq> 0 then Some e else None)"
      using toks_pack [OF i, of s' gen] len i by (simp add: t s')
    then show ?thesis using True u t pack_nonzero [OF g] by auto
  next
    case False
    then have "unat slot \<noteq> i" by auto
    then have "toks s' t = toks s t" by (auto simp: toks_def lookup_live_def u s')
    then show ?thesis using False u by simp
  qed
qed

lemma toks_fresh:
  assumes i: "i < 4096" and len: "length (lg_table s) = 4096" and dead: "\<not> te_live (lg_table s ! i)"
    and e: "te_live e" "te_generation e \<noteq> 0" and s': "lg_table s' = (lg_table s)[i := e]"
  shows "toks s' = (toks s)(pack_token (of_nat i) (te_generation e) \<mapsto> e)" "toks s (pack_token (of_nat i) g) = None"
proof -
  show n: "toks s (pack_token (of_nat i) g) = None" for g using toks_pack [OF i, of s] dead by simp
  have "toks s t = None" if "fst (unpack_token t) = of_nat i" for t
    using n slot_token [OF that] by auto
  then show "toks s' = (toks s)(pack_token (of_nat i) (te_generation e) \<mapsto> e)"
    using toks_update [OF i len e(2) s'] e(1) by (intro ext) auto
qed

lemma toks_replace:
  assumes len: "length (lg_table s) = 4096" and l: "lookup_live tok s = Some i" and e: "te_generation e \<noteq> 0"
    and same: "te_live e \<Longrightarrow> te_generation e = te_generation (lg_table s ! i)"
    and s': "lg_table s' = (lg_table s)[i := e]"
  shows "toks s' = (toks s)(tok := if te_live e then Some e else None)"
proof -
  note d = lookup_liveD [OF l]
  have o: "toks s t = None" if sl: "fst (unpack_token t) = of_nat i" "t \<noteq> tok" for t
  proof -
    obtain g where t: "t = pack_token (of_nat i) g" using slot_token sl(1) by blast
    then show ?thesis using sl(2) d(3) toks_pack [OF d(1), of s g] by auto
  qed
  have f: "fst (unpack_token tok) = of_nat i" by (subst d(3)) simp
  have k: "te_live e \<Longrightarrow> tok = pack_token (of_nat i) (te_generation e)" using same d(3) by simp
  show ?thesis
  proof (rule ext)
    fix t
    show "toks s' t = ((toks s)(tok := if te_live e then Some e else None)) t"
    proof (cases "t = tok")
      case True
      then show ?thesis using toks_update [OF d(1) len e s', of t] f k by simp
    next
      case False
      then show ?thesis using toks_update [OF d(1) len e s', of t] k o [of t] by auto
    qed
  qed
qed

section \<open>Slots\<close>

lemma claim_index: "unat ((h + of_nat i :: u32) mod 4096) = (unat h + i) mod 4096"
proof -
  have "unat ((h + of_nat i :: u32) mod 4096) = (unat h + i) mod 4294967296 mod 4096"
    by (simp add: unat_mod unat_word_ariths unat_of_nat mod_add_right_eq)
  also have "\<dots> = (unat h + i) mod 4096" by (simp add: mod_mod_cancel)
  finally show ?thesis .
qed

lemma claim_scan_spec:
  "case claim_scan t h js of
     None \<Rightarrow> \<forall>i \<in> set js. te_live (t ! ((unat h + i) mod 4096))
   | Some idx \<Rightarrow> unat idx < 4096 \<and> \<not> te_live (t ! unat idx)"
  by (induction js) (auto simp: Let_def claim_index split: option.split_asm)

lemma wrap_back:
  assumes "j < 4096"
  shows "((h :: nat) + (j + (4096 - h mod 4096)) mod 4096) mod 4096 = j"
proof -
  have "(h + (j + (4096 - h mod 4096)) mod 4096) mod 4096 = (h mod 4096 + (j + (4096 - h mod 4096))) mod 4096"
    by (metis mod_add_left_eq mod_add_right_eq)
  also have "h mod 4096 + (j + (4096 - h mod 4096)) = j + 4096"
    using mod_less_divisor [of 4096 h] by linarith
  finally show ?thesis using assms by simp
qed

lemma claim_slot_spec:
  assumes "claim_slot s = (r, s')"
  shows "case r of None \<Rightarrow> s' = s \<and> (\<forall>i < 4096. te_live (lg_table s ! i))
    | Some slot \<Rightarrow> (\<exists>h. s' = s\<lparr>lg_next_hint := h\<rparr>) \<and> unat slot < 4096 \<and> \<not> te_live (lg_table s ! unat slot)"
proof -
  note sc = claim_scan_spec [where t = "lg_table s" and h = "lg_next_hint s" and js = "[0..<unat XTOK_TABLE_SLOTS]"]
  show ?thesis
  proof (cases "claim_scan (lg_table s) (lg_next_hint s) [0..<unat XTOK_TABLE_SLOTS]")
    case None
    have "te_live (lg_table s ! j)" if "j < 4096" for j
    proof -
      let ?i = "(j + (4096 - unat (lg_next_hint s) mod 4096)) mod 4096"
      have "(unat (lg_next_hint s) + ?i) mod 4096 = j" by (rule wrap_back [OF that])
      moreover have "\<forall>i \<in> set [0..<unat XTOK_TABLE_SLOTS]. te_live (lg_table s ! ((unat (lg_next_hint s) + i) mod 4096))"
        using sc None by (simp only: option.case)
      then have "te_live (lg_table s ! ((unat (lg_next_hint s) + ?i) mod 4096))" by (rule bspec) simp
      ultimately show ?thesis by simp
    qed
    then show ?thesis using assms None by (auto simp: claim_slot_def)
  next
    case (Some idx)
    have "unat idx < 4096 \<and> \<not> te_live (lg_table s ! unat idx)" using sc unfolding Some by simp
    moreover have "r = Some idx \<and> s' = s\<lparr>lg_next_hint := (idx + 1) mod XTOK_TABLE_SLOTS\<rparr>"
      using assms unfolding claim_slot_def Some by simp
    ultimately show ?thesis by auto
  qed
qed

section \<open>Allocation\<close>

text \<open>The entry of a fresh token, and what sealing does to the map.\<close>

definition ram_entry :: "u32 \<Rightarrow> u32 \<Rightarrow> u64 \<Rightarrow> u64 \<Rightarrow> XTokenEntry \<Rightarrow> bool" where
  "ram_entry owner rights phys n e \<longleftrightarrow> te_kind e = XTOK_KIND_RAM \<and> te_owner e = owner \<and> te_rights e = rights \<and>
     te_phys e = phys \<and> te_frames e = n \<and> te_live e \<and> te_map_count e = 0"

text \<open>The frames from \<open>a\<close> have been taken from the pool and belong to no token yet.\<close>

definition frames_out :: "'a Ledger_scheme \<Rightarrow> nat \<Rightarrow> u64 \<Rightarrow> bool" where
  "frames_out s f n \<longleftrightarrow> 0 < f \<and> f + unat n \<le> unat (pb_total (xm_phys s)) \<and> frun f (unat n) \<inter> ffree (xm_phys s) = {} \<and>
     (\<forall>i < 4096. te_live (lg_table s ! i) \<longrightarrow> te_span (lg_table s ! i) \<inter> frun f (unat n) = {})"

lemma seal_spec:
  assumes inv: "ledger_inv s" and a: "unat phys = f * 4096" and n: "n \<noteq> 0" and out: "frames_out s f n"
    and seal: "seal_ram_locked owner phys n rights s = (tok, s')"
  shows "tok = 0 \<Longrightarrow> s' = s \<and> (\<forall>i < 4096. te_live (lg_table s ! i))"
    and "tok \<noteq> 0 \<Longrightarrow> ledger_inv s' \<and> toks s tok = None \<and> xm_phys s' = xm_phys s \<and> xm_mem s' = xm_mem s \<and>
      Ledger.more s' = Ledger.more s \<and> (\<exists>e. ram_entry owner rights phys n e \<and> toks s' = (toks s)(tok \<mapsto> e)) \<and>
      (\<forall>i < 4096. te_generation (lg_table s' ! i) = te_generation (lg_table s ! i))"
proof -
  note d = ledger_invD [OF inv]
  have ph: "phys \<noteq> 0" using a out by (auto simp: frames_out_def)
  obtain r s1 where cl: "claim_slot s = (r, s1)" by fastforce
  note cs = claim_slot_spec [OF cl]
  have "(tok = 0 \<longrightarrow> s' = s \<and> (\<forall>i < 4096. te_live (lg_table s ! i))) \<and>
    (tok \<noteq> 0 \<longrightarrow> ledger_inv s' \<and> toks s tok = None \<and> xm_phys s' = xm_phys s \<and> xm_mem s' = xm_mem s \<and>
      Ledger.more s' = Ledger.more s \<and> (\<exists>e. ram_entry owner rights phys n e \<and> toks s' = (toks s)(tok \<mapsto> e)) \<and>
      (\<forall>i < 4096. te_generation (lg_table s' ! i) = te_generation (lg_table s ! i)))"
  proof (cases r)
    case None
    then show ?thesis using seal cl cs ph n by (auto simp: seal_ram_locked_def)
  next
    case (Some slot)
    define i where "i = unat slot"
    obtain h where s1: "s1 = s\<lparr>lg_next_hint := h\<rparr>" and i: "i < 4096" and dead: "\<not> te_live (lg_table s ! i)"
      using cs Some by (auto simp: i_def)
    have sl: "slot = of_nat i" by (simp add: i_def)
    define e where "e = (lg_table s ! i)\<lparr>te_kind := XTOK_KIND_RAM, te_owner := owner, te_rights := rights,
                     te_phys := phys, te_frames := n, te_live := True\<rparr>"
    have r: "tok = pack_token slot (te_generation e)"
      "s' = s\<lparr>lg_next_hint := h, lg_table := (lg_table s)[i := e], lg_live := lg_live s + 1\<rparr>"
      using seal cl Some ph n by (auto simp: seal_ram_locked_def s1 Let_def e_def i_def)
    have g: "te_generation e = te_generation (lg_table s ! i)" by (simp add: e_def)
    have g0: "te_generation e \<noteq> 0" using d(3) [OF i] by (simp add: g entry_ok_def)
    have re: "ram_entry owner rights phys n e" using d(3) [OF i] dead by (simp add: ram_entry_def e_def entry_ok_def)
    have sp: "te_span e = frun f (unat n)" using a by (simp add: te_span_def e_def)
    have eok: "entry_ok (xm_phys s) e"
      using out g0 a n ph by (simp add: entry_ok_def sp) (simp add: e_def frames_out_def)
    have lt: "unat (lg_live s) < 4294967295" using d(5) card_live_slots [of "lg_table s"] by simp
    have "ledger_inv s'"
    proof (rule ledger_inv_update [OF inv i d(1) refl eok, where l = "lg_live s + 1"])
      show "te_span (lg_table s ! j) \<inter> ffree (xm_phys s) = {}" if "j < 4096" "te_live (lg_table s ! j)" for j
        using d(3) [OF that(1)] that(2) by (simp add: entry_ok_def)
      show "te_span e \<inter> te_span (lg_table s ! j) = {}" if "j < 4096" "te_live (lg_table s ! j)" for j
        using out that by (simp add: sp frames_out_def Int_commute)
      show "unat (lg_live s + 1) + of_bool (te_live (lg_table s ! i)) = unat (lg_live s) + of_bool (te_live e)"
        using lt dead by (simp add: unat_word_ariths) (simp add: e_def)
    qed (simp_all add: r)
    moreover have "toks s' = (toks s)(tok \<mapsto> e)" "toks s tok = None"
      using toks_fresh [OF i d(2) dead _ g0, of s'] by (simp_all add: r sl) (simp_all add: e_def)
    moreover have "te_generation (lg_table s' ! j) = te_generation (lg_table s ! j)" if "j < 4096" for j
      using g d(2) that by (cases "j = i") (simp_all add: r)
    moreover have "tok \<noteq> 0" unfolding r by (rule pack_nonzero [OF g0])
    ultimately show ?thesis using re by (auto simp: r(2))
  qed
  then show "tok = 0 \<Longrightarrow> s' = s \<and> (\<forall>i < 4096. te_live (lg_table s ! i))"
    "tok \<noteq> 0 \<Longrightarrow> ledger_inv s' \<and> toks s tok = None \<and> xm_phys s' = xm_phys s \<and> xm_mem s' = xm_mem s \<and>
      Ledger.more s' = Ledger.more s \<and> (\<exists>e. ram_entry owner rights phys n e \<and> toks s' = (toks s)(tok \<mapsto> e)) \<and>
      (\<forall>i < 4096. te_generation (lg_table s' ! i) = te_generation (lg_table s ! i))" by blast+
qed

lemma toks_cong: "lg_table s' = lg_table s \<Longrightarrow> toks s' = toks s"
  by (intro ext) (auto simp: toks_def lookup_live_def split: prod.split)

lemma ledger_inv_pool:
  assumes inv: "ledger_inv s" and p: "phys_ready p" "pb_total p = pb_total (xm_phys s)"
    and free: "\<And>i. i < 4096 \<Longrightarrow> te_live (lg_table s ! i) \<Longrightarrow> te_span (lg_table s ! i) \<inter> ffree p = {}"
    and s': "lg_table s' = lg_table s" "lg_live s' = lg_live s" "xm_phys s' = p"
  shows "ledger_inv s'"
proof -
  have "entry_ok p (lg_table s ! i)" if "i < 4096" for i
    using ledger_invD(3) [OF inv that] free [OF that] p(2) by (auto simp: entry_ok_def)
  then show ?thesis using inv p(1) by (simp add: ledger_inv_def s')
qed

text \<open>The outcome of an allocation: a fresh token for \<open>n\<close> cleared frames from the pool, or nothing.\<close>

definition alloc_done :: "u32 \<Rightarrow> u32 \<Rightarrow> u64 \<Rightarrow> 'a Ledger_scheme \<Rightarrow> XToken \<Rightarrow> 'a Ledger_scheme \<Rightarrow> bool" where
  "alloc_done owner rights n s tok s' \<longleftrightarrow> ledger_inv s' \<and> Ledger.more s' = Ledger.more s \<and>
     phys_same (xm_phys s) (xm_phys s') \<and>
     (\<forall>i < 4096. te_generation (lg_table s' ! i) = te_generation (lg_table s ! i)) \<and>
     (if tok = XTOKEN_INVALID
      then lg_table s' = lg_table s \<and> lg_live s' = lg_live s \<and> ffree (xm_phys s') = ffree (xm_phys s) \<and>
           (\<forall>x. unat x div 4096 \<notin> ffree (xm_phys s) \<longrightarrow> xm_mem s' x = xm_mem s x)
      else toks s tok = None \<and>
           (\<exists>e. ram_entry owner rights (te_phys e) n e \<and> toks s' = (toks s)(tok \<mapsto> e) \<and>
                te_span e \<subseteq> ffree (xm_phys s) \<and> ffree (xm_phys s') = ffree (xm_phys s) - te_span e \<and>
                xm_mem s' = (\<lambda>x. if unat x div 4096 \<in> te_span e then 0 else xm_mem s x)))"

lemma alloc_done_none:
  assumes "ledger_inv s"
  shows "alloc_done owner rights n s 0 s"
  using assms by (simp add: alloc_done_def)

lemma zero_frames_mem:
  assumes "unat phys = f * 4096" "f + unat n \<le> 33554432"
  shows "xm_mem (zero_frames phys n s) = (\<lambda>x. if unat x div 4096 \<in> frun f (unat n) then 0 else xm_mem s x)"
proof -
  have "unat (n * 512) = unat n * 512" using assms(2) by (subst unat_mult_less) auto
  then show ?thesis
    using zero_words_frames [OF assms(1), of "unat n" "xm_mem s"] assms(2)
    by (intro ext) (simp add: zero_frames_def in_frames_def)
qed

lemma sealed_alloc:
  assumes inv: "ledger_inv s" and n: "n \<noteq> 0" and ft: "frames_taken (xm_phys s) phys n p"
    and s1: "s1 = zero_frames phys n (s\<lparr>xm_phys := p\<rparr>)"
    and seal: "seal_ram_locked owner phys n rights s1 = (tok, s2)"
    and s': "s' = (if tok = XTOKEN_INVALID then s2\<lparr>xm_phys := phys_free_frames phys n (xm_phys s2)\<rparr> else s2)"
  shows "alloc_done owner rights n s tok s' \<and> (tok = 0 \<longrightarrow> (\<forall>i < 4096. te_live (lg_table s ! i)))"
proof -
  note d = ledger_invD [OF inv]
  obtain f where p: "phys_ready p" "phys_same (xm_phys s) p" and a: "unat phys = f * 4096" and f: "0 < f"
    "f + unat n \<le> unat (pb_total (xm_phys s))" "frun f (unat n) \<subseteq> ffree (xm_phys s)"
    "ffree p = ffree (xm_phys s) - frun f (unat n)"
    using ft by (auto simp: frames_taken_def)
  have tot: "pb_total p = pb_total (xm_phys s)" "unat (pb_total p) \<le> 33554432"
    using p by (auto simp: phys_same_def phys_ready_def phys_inv_def)
  have fields: "lg_table s1 = lg_table s" "lg_live s1 = lg_live s" "xm_phys s1 = p" "Ledger.more s1 = Ledger.more s"
    by (simp_all add: s1 zero_frames_def)
  have mem: "xm_mem s1 = (\<lambda>x. if unat x div 4096 \<in> frun f (unat n) then 0 else xm_mem s x)"
    unfolding s1 using zero_frames_mem [OF a, of n "s\<lparr>xm_phys := p\<rparr>"] f(2) tot by (simp cong: if_cong)
  have sp: "te_span (lg_table s ! i) \<inter> ffree (xm_phys s) = {}" if "i < 4096" "te_live (lg_table s ! i)" for i
    using d(3) [OF that(1)] that(2) by (simp add: entry_ok_def)
  have inv1: "ledger_inv s1"
    by (rule ledger_inv_pool [OF inv p(1) tot(1) _ fields(1-3)]) (use sp f(4) in blast)
  have out: "frames_out s1 f n"
    using f sp by (fastforce simp: frames_out_def fields tot(1))
  note se = seal_spec [OF inv1 a n out seal]
  show ?thesis
  proof (cases "tok = 0")
    case True
    then have s2: "s2 = s1" and full: "\<forall>i < 4096. te_live (lg_table s ! i)" using se(1) fields(1) by auto
    have e: "s' = s1\<lparr>xm_phys := phys_free_frames phys n p\<rparr>" using True s' s2 fields(3) by simp
    note ff = phys_free_frames_spec [OF p(1) a f(1) f(2) [folded tot(1)]]
    have fr: "ffree (phys_free_frames phys n p) = ffree (xm_phys s)" using ff(2) f(3,4) by auto
    have "ledger_inv s'"
      by (rule ledger_inv_pool [OF inv ff(1)]) (use sp fr ff(3) tot(1) in \<open>auto simp: e fields phys_same_def\<close>)
    then show ?thesis using True full fr ff(3) p(2) f(3) mem
      by (auto simp: alloc_done_def e fields phys_same_def)
  next
    case False
    then have e: "s' = s2" using s' by simp
    obtain en where en: "ram_entry owner rights phys n en" "toks s2 = (toks s1)(tok \<mapsto> en)" using se(2) False by auto
    have span: "te_span en = frun f (unat n)" using en(1) a by (simp add: te_span_def ram_entry_def)
    have t1: "toks s1 = toks s" by (rule toks_cong) (simp add: fields)
    have "te_phys en = phys" using en(1) by (simp add: ram_entry_def)
    then show ?thesis using False se(2) en t1 f(3,4) p(2) mem span
      unfolding alloc_done_def e fields by (auto intro!: exI [of _ en])
  qed
qed

lemma xtok_alloc_ram_spec:
  assumes inv: "ledger_inv s" and al: "xtok_alloc_ram owner n rights s = (tok, s')"
  shows "alloc_done owner rights n s tok s' \<and> (tok = 0 \<longrightarrow> n = 0 \<or> (\<forall>f. \<not> frun f (unat n) \<subseteq> ffree (xm_phys s)) \<or>
    (\<forall>i < 4096. te_live (lg_table s ! i)))"
proof (cases "n = 0")
  case True
  then show ?thesis using al alloc_done_none [OF inv] by (simp add: xtok_alloc_ram_def)
next
  case False
  obtain phys p where pa: "phys_alloc_frames n (xm_phys s) = (phys, p)" by fastforce
  note ps = phys_alloc_frames_spec [OF ledger_invD(1) [OF inv] pa]
  show ?thesis
  proof (cases "phys = 0")
    case True
    then have "tok = 0" "s' = s" "\<forall>f. \<not> frun f (unat n) \<subseteq> ffree (xm_phys s)"
      using al pa False ps(2) by (auto simp: xtok_alloc_ram_def)
    then show ?thesis using alloc_done_none [OF inv] by simp
  next
    case nz: False
    obtain t s2 where se: "seal_ram_locked owner phys n rights (zero_frames phys n (s\<lparr>xm_phys := p\<rparr>)) = (t, s2)" by fastforce
    have "tok = t" "s' = (if tok = 0 then s2\<lparr>xm_phys := phys_free_frames phys n (xm_phys s2)\<rparr> else s2)"
      using al pa False nz se by (auto simp: xtok_alloc_ram_def Let_def split: if_splits)
    then show ?thesis using sealed_alloc [OF inv False _ refl se] ps(1) nz by simp
  qed
qed

lemma xtok_alloc_ram_huge_spec:
  assumes inv: "ledger_inv s" and al: "xtok_alloc_ram_huge owner rights s = (tok, s')"
  shows "alloc_done owner rights XERET_FRAMES_PER_HUGE s tok s' \<and>
    (tok = 0 \<longrightarrow> (\<forall>f. 512 dvd f \<longrightarrow> \<not> frun f 512 \<subseteq> ffree (xm_phys s)) \<or> (\<forall>i < 4096. te_live (lg_table s ! i)))"
proof -
  obtain phys p where pa: "phys_alloc_huge (xm_phys s) = (phys, p)" by fastforce
  note ps = phys_alloc_huge_spec [OF ledger_invD(1) [OF inv] pa]
  show ?thesis
  proof (cases "phys = 0")
    case True
    then have "tok = 0" "s' = s" "\<forall>f. 512 dvd f \<longrightarrow> \<not> frun f 512 \<subseteq> ffree (xm_phys s)"
      using al pa ps(2) by (auto simp: xtok_alloc_ram_huge_def)
    then show ?thesis using alloc_done_none [OF inv] by simp
  next
    case nz: False
    obtain t s2 where se: "seal_ram_locked owner phys XERET_FRAMES_PER_HUGE rights
        (zero_frames phys XERET_FRAMES_PER_HUGE (s\<lparr>xm_phys := p\<rparr>)) = (t, s2)" by fastforce
    have "tok = t" "s' = (if tok = 0 then s2\<lparr>xm_phys := phys_free_frames phys XERET_FRAMES_PER_HUGE (xm_phys s2)\<rparr> else s2)"
      using al pa nz se by (auto simp: xtok_alloc_ram_huge_def Let_def split: if_splits)
    then show ?thesis using sealed_alloc [OF inv _ _ refl se] ps(1) nz by simp
  qed
qed

section \<open>Release\<close>

lemma next_generation_nonzero [simp]: "next_generation g \<noteq> 0"
  by (simp add: next_generation_def)

text \<open>The outcome of a release as a function of the entry: refused with the state unchanged, or the
  token is gone and its frames are free.\<close>

definition release_code :: "bool \<Rightarrow> bool \<Rightarrow> u32 \<Rightarrow> XTokenEntry option \<Rightarrow> int" where
  "release_code check_right check_owner owner eo =
     (case eo of
        None \<Rightarrow> XTOK_REL_ESTALE
      | Some e \<Rightarrow>
          (if check_owner \<and> te_owner e \<noteq> owner then XTOK_REL_ESTALE
           else if check_right \<and> te_rights e AND XTOK_RIGHT_RELEASE = 0 then XTOK_REL_ERIGHTS
           else if te_map_count e \<noteq> 0 then XTOK_REL_EBUSY else 0))"

definition released :: "XToken \<Rightarrow> 'a Ledger_scheme \<Rightarrow> 'a Ledger_scheme \<Rightarrow> bool" where
  "released tok s s' \<longleftrightarrow> ledger_inv s' \<and> Ledger.more s' = Ledger.more s \<and> xm_mem s' = xm_mem s \<and>
     phys_same (xm_phys s) (xm_phys s') \<and>
     (\<exists>e. toks s tok = Some e \<and> te_map_count e = 0 \<and> toks s' = (toks s)(tok := None) \<and>
          ffree (xm_phys s') = ffree (xm_phys s) \<union> te_span e) \<and>
     (\<exists>i < 4096. fst (unpack_token tok) = of_nat i \<and> (\<forall>j < 4096. te_generation (lg_table s' ! j) =
        (if j = i then next_generation (te_generation (lg_table s ! j)) else te_generation (lg_table s ! j))))"

lemma release_impl_spec:
  assumes inv: "ledger_inv s" and rel: "release_impl tok cr co owner s = (rc, s')"
  shows "rc = release_code cr co owner (toks s tok)" "rc \<noteq> 0 \<Longrightarrow> s' = s" "rc = 0 \<Longrightarrow> released tok s s'"
proof -
  note d = ledger_invD [OF inv]
  have "rc = release_code cr co owner (toks s tok) \<and> (rc \<noteq> 0 \<longrightarrow> s' = s) \<and> (rc = 0 \<longrightarrow> released tok s s')"
  proof (cases "lookup_live tok s")
    case None
    then show ?thesis using rel by (auto simp: release_impl_def release_code_def toks_def)
  next
    case (Some i)
    note l = lookup_liveD [OF Some]
    define e where "e = lg_table s ! i"
    have te: "toks s tok = Some e" using Some by (simp add: toks_def e_def)
    have eok: "entry_ok (xm_phys s) e" using d(3) [OF l(1)] by (simp add: e_def)
    have liv: "te_live e" using l(2) by (simp add: e_def)
    show ?thesis
    proof (cases "release_code cr co owner (Some e) = 0")
      case False
      then have "rc = release_code cr co owner (Some e) \<and> s' = s"
        using rel Some by (auto simp: release_impl_def release_code_def e_def [symmetric] Let_def split: if_splits)
      then show ?thesis using False te by simp
    next
      case True
      have g: "\<not> (co \<and> te_owner e \<noteq> owner)" "\<not> (cr \<and> te_rights e AND XTOK_RIGHT_RELEASE = 0)" "te_map_count e = 0"
        using True by (auto simp: release_code_def split: if_splits)
      have ram: "te_kind e = XTOK_KIND_RAM \<and> te_phys e \<noteq> 0 \<and> te_frames e \<noteq> 0" using eok liv by (simp add: entry_ok_def)
      have "i \<in> live_slots (lg_table s)" using l by (simp add: live_slots_def)
      then have "0 < unat (lg_live s)" using d(5) by (auto simp: card_gt_0_iff)
      then have lv: "lg_live s \<noteq> 0" "0 < lg_live s" by (auto simp: word_gt_0)
      define p where "p = phys_free_frames (te_phys e) (te_frames e) (xm_phys s)"
      have r: "rc = 0" "s' = s\<lparr>lg_table := (lg_table s)[i := dead_entry e], lg_live := lg_live s - 1, xm_phys := p\<rparr>"
        using rel Some g ram lv(2) by (auto simp: release_impl_def e_def [symmetric] Let_def p_def)
      define f where "f = unat (te_phys e) div 4096"
      have a: "unat (te_phys e) = f * 4096" using eok liv by (auto simp: entry_ok_def f_def)
      moreover have "unat (te_phys e) \<noteq> 0" using ram by (simp add: unat_eq_zero)
      ultimately have f0: "0 < f" by (cases f) auto
      have fb: "f + unat (te_frames e) \<le> unat (pb_total (xm_phys s))" using eok liv by (simp add: entry_ok_def f_def)
      note ff = phys_free_frames_spec [OF d(1) a f0 fb, folded p_def]
      have sp: "te_span e = frun f (unat (te_frames e))" by (simp add: te_span_def f_def)
      have dead: "\<not> te_live (dead_entry e)" by (simp add: dead_entry_def)
      have dg: "te_generation (dead_entry e) = next_generation (te_generation e)" by (simp add: dead_entry_def)
      have inv': "ledger_inv s'"
      proof (rule ledger_inv_update [OF inv l(1) ff(1), where l = "lg_live s - 1"])
        show "pb_total p = pb_total (xm_phys s)" using ff(3) by (simp add: phys_same_def)
        show "entry_ok p (dead_entry e)" by (simp add: entry_ok_def dead_entry_def)
        show "te_span (lg_table s ! j) \<inter> ffree p = {}" if j: "j < 4096" "j \<noteq> i" "te_live (lg_table s ! j)" for j
        proof -
          have "te_span (lg_table s ! j) \<inter> te_span e = {}" using d(4) [OF j(1) l(1) j(3) l(2) j(2)] by (simp add: e_def)
          then show ?thesis using ff(2) sp d(3) [OF j(1)] j(3) by (auto simp: entry_ok_def)
        qed
        show "unat (lg_live s - 1) + of_bool (te_live (lg_table s ! i)) = unat (lg_live s) + of_bool (te_live (dead_entry e))"
          using lv dead l(2) \<open>0 < unat (lg_live s)\<close> by (simp add: unat_minus_one)
      qed (simp_all add: r dead)
      have tk: "toks s' = (toks s)(tok := None)"
        using toks_replace [OF d(2) Some, of "dead_entry e" s'] dead dg by (simp add: r)
      have gen: "te_generation (lg_table s' ! j) =
          (if j = i then next_generation (te_generation (lg_table s ! j)) else te_generation (lg_table s ! j))"
        if "j < 4096" for j using that d(2) dg by (cases "j = i") (simp_all add: r(2) e_def)
      have "fst (unpack_token tok) = of_nat i" by (subst l(3)) simp
      then have "released tok s s'"
        unfolding released_def using inv' te g(3) tk ff(2,3) sp gen l(1) by (auto simp: r(2))
      then show ?thesis using r(1) True te by simp
    qed
  qed
  then show "rc = release_code cr co owner (toks s tok)" "rc \<noteq> 0 \<Longrightarrow> s' = s" "rc = 0 \<Longrightarrow> released tok s s'" by auto
qed

section \<open>The map gate\<close>

definition map_code :: "u32 \<Rightarrow> u32 \<Rightarrow> XTokenEntry option \<Rightarrow> int" where
  "map_code caller need eo =
     (case eo of
        None \<Rightarrow> XTOK_MAP_ESTALE
      | Some e \<Rightarrow>
          (if te_owner e \<noteq> caller then XTOK_MAP_EOWNER
           else if te_rights e AND need \<noteq> need then XTOK_MAP_ERIGHTS
           else if te_map_count e = 0xFFFF then XTOK_MAP_EBUSY else XTOK_MAP_OK))"

text \<open>An operation that changes nothing but the mapping count of a token.\<close>

definition recounted :: "XToken \<Rightarrow> u16 \<Rightarrow> 'a Ledger_scheme \<Rightarrow> 'a Ledger_scheme \<Rightarrow> bool" where
  "recounted tok c s s' \<longleftrightarrow> ledger_inv s' \<and> Ledger.more s' = Ledger.more s \<and> xm_mem s' = xm_mem s \<and>
     xm_phys s' = xm_phys s \<and>
     (\<exists>e. toks s tok = Some e \<and> toks s' = (toks s)(tok \<mapsto> e\<lparr>te_map_count := c\<rparr>)) \<and>
     (\<forall>i < 4096. te_generation (lg_table s' ! i) = te_generation (lg_table s ! i))"

lemma set_map_count_spec:
  assumes inv: "ledger_inv s" and l: "lookup_live tok s = Some i"
  shows "recounted tok c s (set_map_count i c s)"
proof -
  note d = ledger_invD [OF inv] and lv = lookup_liveD [OF l]
  define e where "e = (lg_table s ! i)\<lparr>te_map_count := c\<rparr>"
  have t: "lg_table (set_map_count i c s) = (lg_table s)[i := e]" by (simp add: set_map_count_def e_def)
  have f: "te_live e" "te_generation e = te_generation (lg_table s ! i)" "te_span e = te_span (lg_table s ! i)"
    using lv(2) by (simp_all add: e_def te_span_def)
  have eok: "entry_ok (xm_phys s) e" using d(3) [OF lv(1)] lv(2) by (simp add: entry_ok_def e_def te_span_def)
  have "ledger_inv (set_map_count i c s)"
  proof (rule ledger_inv_update [OF inv lv(1) d(1) refl eok _ _ _ t])
    show "te_span (lg_table s ! j) \<inter> ffree (xm_phys s) = {}" if "j < 4096" "te_live (lg_table s ! j)" for j
      using d(3) [OF that(1)] that(2) by (simp add: entry_ok_def)
    show "te_span e \<inter> te_span (lg_table s ! j) = {}" if "j < 4096" "j \<noteq> i" "te_live (lg_table s ! j)" for j
      using d(4) [OF lv(1) that(1) lv(2) that(3)] that(2) by (simp add: f)
    show "unat (lg_live s) + of_bool (te_live (lg_table s ! i)) = unat (lg_live s) + of_bool (te_live e)"
      using lv(2) f by simp
  qed (simp_all add: set_map_count_def)
  moreover have "toks (set_map_count i c s) = (toks s)(tok \<mapsto> e)"
    using toks_replace [OF d(2) l _ f(2) t] eok f(1) by (simp add: entry_ok_def)
  moreover have "toks s tok = Some (lg_table s ! i)" using l by (simp add: toks_def)
  moreover have "te_generation (lg_table (set_map_count i c s) ! j) = te_generation (lg_table s ! j)" if "j < 4096" for j
    using that d(2) f(2) by (cases "j = i") (simp_all add: t)
  ultimately show ?thesis by (simp add: recounted_def e_def set_map_count_def)
qed

lemma xtok_map_acquire_spec:
  assumes inv: "ledger_inv s" and ac: "xtok_map_acquire tok caller need s = (rc, out, s')"
  shows "rc = map_code caller need (toks s tok)" "rc \<noteq> 0 \<Longrightarrow> s' = s \<and> out = None"
    "rc = 0 \<Longrightarrow> \<exists>e. toks s tok = Some e \<and> te_kind e = XTOK_KIND_RAM \<and> out = Some (te_phys e, te_frames e) \<and>
       recounted tok (te_map_count e + 1) s s'"
proof -
  have "rc = map_code caller need (toks s tok) \<and> (rc \<noteq> 0 \<longrightarrow> s' = s \<and> out = None) \<and>
    (rc = 0 \<longrightarrow> (\<exists>e. toks s tok = Some e \<and> te_kind e = XTOK_KIND_RAM \<and> out = Some (te_phys e, te_frames e) \<and>
       recounted tok (te_map_count e + 1) s s'))"
  proof (cases "lookup_live tok s")
    case None
    then show ?thesis using ac by (auto simp: xtok_map_acquire_def map_code_def toks_def)
  next
    case (Some i)
    have k: "te_kind (lg_table s ! i) = XTOK_KIND_RAM"
      using lookup_liveD [OF Some] ledger_invD(3) [OF inv] by (auto simp: entry_ok_def)
    have "toks s tok = Some (lg_table s ! i)" using Some by (simp add: toks_def)
    then show ?thesis using ac Some k set_map_count_spec [OF inv Some]
      by (auto simp: xtok_map_acquire_def map_code_def Let_def split: if_splits)
  qed
  then show "rc = map_code caller need (toks s tok)" "rc \<noteq> 0 \<Longrightarrow> s' = s \<and> out = None"
    "rc = 0 \<Longrightarrow> \<exists>e. toks s tok = Some e \<and> te_kind e = XTOK_KIND_RAM \<and> out = Some (te_phys e, te_frames e) \<and>
       recounted tok (te_map_count e + 1) s s'" by auto
qed

lemma xtok_map_release_spec:
  assumes inv: "ledger_inv s"
  shows "case toks s tok of
      None \<Rightarrow> xtok_map_release tok s = s
    | Some e \<Rightarrow> (if te_map_count e = 0 then xtok_map_release tok s = s
                else recounted tok (te_map_count e - 1) s (xtok_map_release tok s))"
proof (cases "lookup_live tok s")
  case None
  then show ?thesis by (simp add: toks_def xtok_map_release_def)
next
  case (Some i)
  then show ?thesis using set_map_count_spec [OF inv Some]
    by (auto simp: toks_def xtok_map_release_def word_gt_0)
qed

end
