(* ===== verification/Ledger_Props.thy ===== *)
theory Ledger_Props
  imports Ledger_Inv
begin

text \<open>
  What the ledger promises: fresh and cleared frames for every token, exact accounting per owner,
  tokens that stay dead after their release, and the invariant in every reachable state.
\<close>

section \<open>Initialisation\<close>

lemma xtok_init_spec:
  assumes "phys_ready (xm_phys s)" "length (lg_table s) = 4096"
  shows "ledger_inv (xtok_init s)" "toks (xtok_init s) = Map.empty" "xm_phys (xtok_init s) = xm_phys s"
    "xm_mem (xtok_init s) = xm_mem s" "Ledger.more (xtok_init s) = Ledger.more s"
    "\<And>i. i < 4096 \<Longrightarrow> \<not> te_live (lg_table (xtok_init s) ! i)"
proof -
  define e where "e = \<lparr>te_generation = 1, te_kind = XTOK_KIND_NONE, te_owner = 0,
        te_rights = 0, te_phys = 0, te_frames = 0, te_live = False, te_map_count = 0\<rparr>"
  have n: "unat XTOK_TABLE_SLOTS = 4096" by simp
  have "lg_table (xtok_init s) = map (\<lambda>_. e) [0..<4096]"
    using fold_update_all [OF assms(2), of "\<lambda>_. e"] unfolding xtok_init_def n e_def by simp
  then have t: "\<And>i. i < 4096 \<Longrightarrow> lg_table (xtok_init s) ! i = e" "length (lg_table (xtok_init s)) = 4096" by simp_all
  show f: "xm_phys (xtok_init s) = xm_phys s" "xm_mem (xtok_init s) = xm_mem s" "Ledger.more (xtok_init s) = Ledger.more s"
    by (simp_all add: xtok_init_def)
  show d: "\<not> te_live (lg_table (xtok_init s) ! i)" if "i < 4096" for i using t(1) [OF that] by (simp add: e_def)
  have "live_slots (lg_table (xtok_init s)) = {}" using d by (auto simp: live_slots_def)
  moreover have "lg_live (xtok_init s) = 0" by (simp add: xtok_init_def)
  ultimately show "ledger_inv (xtok_init s)" using assms t by (auto simp: ledger_inv_def f entry_ok_def e_def)
  have "lookup_live tok (xtok_init s) = None" for tok
    using lookup_liveD(1,2) [of tok "xtok_init s"] d by (cases "lookup_live tok (xtok_init s)") auto
  then show "toks (xtok_init s) = Map.empty" by (auto simp: toks_def)
qed

section \<open>Accounting\<close>

text \<open>The tokens and the frames an owner holds.\<close>

definition owner_tokens :: "'a Ledger_scheme \<Rightarrow> u32 \<Rightarrow> XToken set" where
  "owner_tokens s owner = {t. \<exists>e. toks s t = Some e \<and> te_owner e = owner}"

definition owner_frames :: "'a Ledger_scheme \<Rightarrow> u32 \<Rightarrow> nat set" where
  "owner_frames s owner = (\<Union>e \<in> {e. \<exists>t. toks s t = Some e \<and> te_owner e = owner}. te_span e)"

definition owner_slots :: "'a Ledger_scheme \<Rightarrow> u32 \<Rightarrow> nat set" where
  "owner_slots s owner = {i. i < 4096 \<and> te_live (lg_table s ! i) \<and> te_owner (lg_table s ! i) = owner}"

definition slot_tok :: "'a Ledger_scheme \<Rightarrow> nat \<Rightarrow> XToken" where
  "slot_tok s i = pack_token (of_nat i) (te_generation (lg_table s ! i))"

lemma toks_slot:
  assumes "ledger_inv s" "i < 4096" "te_live (lg_table s ! i)"
  shows "toks s (slot_tok s i) = Some (lg_table s ! i)"
  using lookup_liveI [OF assms(2,3)] ledger_invD(3) [OF assms(1,2)]
  by (simp add: toks_def slot_tok_def entry_ok_def)

lemma slot_tok_inj: "i < 4096 \<Longrightarrow> j < 4096 \<Longrightarrow> slot_tok s i = slot_tok s j \<longleftrightarrow> i = j"
  by (metis pack_eq_iff slot_tok_def slot_unat)

lemma inj_on_slot_tok: "inj_on (slot_tok s) (owner_slots s owner)"
  by (rule inj_onI) (simp add: owner_slots_def slot_tok_inj)

lemma owner_tokens_slots:
  assumes "ledger_inv s"
  shows "owner_tokens s owner = slot_tok s ` owner_slots s owner"
proof -
  have "t \<in> slot_tok s ` owner_slots s owner" if "toks s t = Some e" "te_owner e = owner" for t e
    using that lookup_liveD [of t s] unfolding toks_Some_iff owner_slots_def slot_tok_def by blast
  then show ?thesis using toks_slot [OF assms] by (auto simp: owner_tokens_def owner_slots_def)
qed

lemma owner_frames_slots:
  assumes "ledger_inv s"
  shows "owner_frames s owner = (\<Union>i \<in> owner_slots s owner. te_span (lg_table s ! i))"
proof -
  have "e \<in> (!) (lg_table s) ` owner_slots s owner" if t: "toks s t = Some e" "te_owner e = owner" for t e
  proof -
    obtain i where i: "lookup_live t s = Some i" "e = lg_table s ! i" using t(1) by (auto simp: toks_Some_iff)
    then have "i \<in> owner_slots s owner" using lookup_liveD [OF i(1)] t(2) by (simp add: owner_slots_def)
    then show ?thesis using i(2) by blast
  qed
  moreover have "\<exists>t. toks s t = Some (lg_table s ! i) \<and> te_owner (lg_table s ! i) = owner" if "i \<in> owner_slots s owner" for i
    using toks_slot [OF assms, of i] that by (auto simp: owner_slots_def)
  ultimately have "{e. \<exists>t. toks s t = Some e \<and> te_owner e = owner} = (!) (lg_table s) ` owner_slots s owner"
    by (intro equalityI subsetI) auto
  then show ?thesis by (simp add: owner_frames_def)
qed

lemma card_owner_tokens: "ledger_inv s \<Longrightarrow> card (owner_tokens s owner) = card (owner_slots s owner)"
  by (simp add: owner_tokens_slots card_image [OF inj_on_slot_tok])

lemma finite_owner_slots [simp]: "finite (owner_slots s owner)"
  by (simp add: owner_slots_def)

lemma owner_usage_slots:
  assumes inv: "ledger_inv s"
  shows "card (owner_frames s owner) = (\<Sum>i \<in> owner_slots s owner. unat (te_frames (lg_table s ! i)))"
    "card (owner_frames s owner) \<le> 33554432"
proof -
  note d = ledger_invD [OF inv]
  have "card (owner_frames s owner) = (\<Sum>i \<in> owner_slots s owner. card (te_span (lg_table s ! i)))"
    unfolding owner_frames_slots [OF inv]
    by (rule card_UN_disjoint) (use d(4) in \<open>auto simp: owner_slots_def te_span_def\<close>)
  then show "card (owner_frames s owner) = (\<Sum>i \<in> owner_slots s owner. unat (te_frames (lg_table s ! i)))"
    by (simp add: te_span_def)
  have "owner_frames s owner \<subseteq> {..<unat (pb_total (xm_phys s))}"
    using d(3) unfolding owner_frames_slots [OF inv] by (fastforce simp: owner_slots_def entry_ok_def te_span_def)
  then have "card (owner_frames s owner) \<le> unat (pb_total (xm_phys s))"
    using card_mono [of "{..<unat (pb_total (xm_phys s))}"] by fastforce
  then show "card (owner_frames s owner) \<le> 33554432" using d(1) by (simp add: phys_ready_def phys_inv_def)
qed

lemma owner_usage_fold:
  "fold (\<lambda>slot (f, c). if P slot then (f + F slot, c + 1) else (f, c)) js (f0, c0) =
     (f0 + sum_list (map F (filter P js)), c0 + of_nat (length (filter P js)) :: u32)" for F :: "nat \<Rightarrow> u64"
  by (induction js arbitrary: f0 c0) (auto simp: algebra_simps)

lemma filter_slots: "set (filter P [0..<n]) = {i. i < n \<and> P i}" "distinct (filter P [0..<n])"
  by auto

lemma unat_sum_list:
  assumes "(\<Sum>x \<leftarrow> xs. unat (F x)) < 18446744073709551616"
  shows "unat (\<Sum>x \<leftarrow> xs. F x :: u64) = (\<Sum>x \<leftarrow> xs. unat (F x))"
  using assms by (induction xs) (auto simp: unat_word_ariths)

lemma xtok_owner_usage_spec:
  assumes inv: "ledger_inv s" and u: "xtok_owner_usage owner s = (f, c)"
  shows "unat f = card (owner_frames s owner)" "unat c = card (owner_tokens s owner)"
proof -
  define P where "P = (\<lambda>i. te_live (lg_table s ! i) \<and> te_owner (lg_table s ! i) = owner)"
  define js where "js = filter P [0..<unat XTOK_TABLE_SLOTS]"
  have js: "set js = owner_slots s owner" "distinct js"
    using filter_slots [of P 4096] by (auto simp: js_def owner_slots_def P_def)
  have fc: "f = (\<Sum>i \<leftarrow> js. te_frames (lg_table s ! i))" "c = of_nat (length js)"
    using u unfolding xtok_owner_usage_def owner_usage_fold js_def P_def by simp_all
  have sum: "(\<Sum>i \<leftarrow> js. unat (te_frames (lg_table s ! i))) = card (owner_frames s owner)"
    using owner_usage_slots(1) [OF inv, of owner] js by (simp add: sum_list_distinct_conv_sum_set)
  then show "unat f = card (owner_frames s owner)"
    using owner_usage_slots(2) [OF inv, of owner] unat_sum_list [of "\<lambda>i. te_frames (lg_table s ! i)" js]
    by (simp add: fc(1))
  have l: "length js = card (owner_tokens s owner)"
    using distinct_card [OF js(2)] js(1) by (simp add: card_owner_tokens [OF inv])
  have "card (owner_slots s owner) \<le> card {..<4096 :: nat}" by (rule card_mono) (auto simp: owner_slots_def)
  then have "length js < 4294967296" using l by (simp add: card_owner_tokens [OF inv])
  then show "unat c = card (owner_tokens s owner)" using l by (simp add: fc(2) unat_of_nat_u32)
qed

lemma owner_scan_eq:
  "owner_scan t owner m js = take m (map (\<lambda>i. pack_token (of_nat i) (te_generation (t ! i)))
     (filter (\<lambda>i. te_live (t ! i) \<and> te_owner (t ! i) = owner) js))"
  by (induction js arbitrary: m) (auto simp: take_Cons')

lemma xtok_owner_tokens_spec:
  assumes inv: "ledger_inv s"
  shows "set (xtok_owner_tokens owner m s) \<subseteq> owner_tokens s owner" "distinct (xtok_owner_tokens owner m s)"
    "length (xtok_owner_tokens owner m s) = min (unat m) (card (owner_tokens s owner))"
proof -
  define js where "js = filter (\<lambda>i. te_live (lg_table s ! i) \<and> te_owner (lg_table s ! i) = owner) [0..<4096]"
  have e: "xtok_owner_tokens owner m s = take (unat m) (map (slot_tok s) js)"
    by (simp add: xtok_owner_tokens_def owner_scan_eq js_def slot_tok_def [abs_def])
  have js: "set js = owner_slots s owner" "distinct js" by (auto simp: js_def owner_slots_def)
  have m: "set (map (slot_tok s) js) = owner_tokens s owner" using js(1) by (simp add: owner_tokens_slots [OF inv])
  have dm: "distinct (map (slot_tok s) js)"
    unfolding distinct_map using js(2) inj_on_slot_tok by (simp add: js(1))
  show "set (xtok_owner_tokens owner m s) \<subseteq> owner_tokens s owner"
    unfolding e using set_take_subset [of "unat m" "map (slot_tok s) js"] m by simp
  show "distinct (xtok_owner_tokens owner m s)" unfolding e by (rule distinct_take [OF dm])
  have "length (map (slot_tok s) js) = card (owner_tokens s owner)" using distinct_card [OF dm] m by simp
  then show "length (xtok_owner_tokens owner m s) = min (unat m) (card (owner_tokens s owner))"
    unfolding e by (simp add: min.commute)
qed

section \<open>Runs\<close>

text \<open>A run of ledger operations, by any caller and with any arguments; the number counts the
  successful releases.\<close>

inductive lsteps :: "nat \<Rightarrow> 'a Ledger_scheme \<Rightarrow> 'a Ledger_scheme \<Rightarrow> bool" where
  ls_refl: "lsteps 0 s s"
| ls_alloc: "lsteps k s s' \<Longrightarrow> xtok_alloc_ram owner n rights s' = (tok, s'') \<Longrightarrow> lsteps k s s''"
| ls_huge: "lsteps k s s' \<Longrightarrow> xtok_alloc_ram_huge owner rights s' = (tok, s'') \<Longrightarrow> lsteps k s s''"
| ls_acquire: "lsteps k s s' \<Longrightarrow> xtok_map_acquire tok caller need s' = (rc, out, s'') \<Longrightarrow> lsteps k s s''"
| ls_unpin: "lsteps k s s' \<Longrightarrow> lsteps k s (xtok_map_release tok s')"
| ls_release: "lsteps k s s' \<Longrightarrow> release_impl tok cr co owner s' = (rc, s'') \<Longrightarrow>
    lsteps (if rc = 0 then Suc k else k) s s''"

lemma recounted_gen: "recounted tok c s s' \<Longrightarrow> ledger_inv s' \<and> (\<forall>i < 4096. te_generation (lg_table s' ! i) = te_generation (lg_table s ! i))"
  by (simp add: recounted_def)

lemma alloc_gen: "alloc_done owner rights n s tok s' \<Longrightarrow> ledger_inv s' \<and> (\<forall>i < 4096. te_generation (lg_table s' ! i) = te_generation (lg_table s ! i))"
  by (simp add: alloc_done_def)

lemma acquire_gen:
  assumes "ledger_inv s" "xtok_map_acquire tok caller need s = (rc, out, s')"
  shows "ledger_inv s' \<and> (\<forall>i < 4096. te_generation (lg_table s' ! i) = te_generation (lg_table s ! i))"
  using xtok_map_acquire_spec(2,3) [OF assms] assms(1) recounted_gen by (cases "rc = 0") blast+

lemma unpin_gen:
  assumes "ledger_inv s"
  shows "ledger_inv (xtok_map_release tok s) \<and>
    (\<forall>i < 4096. te_generation (lg_table (xtok_map_release tok s) ! i) = te_generation (lg_table s ! i))"
  using xtok_map_release_spec [OF assms, of tok] assms recounted_gen
  by (auto split: option.split_asm if_split_asm)

text \<open>Generations run through the 2^32 - 1 nonzero values in a cycle.\<close>

definition gpos :: "u32 \<Rightarrow> nat" where
  "gpos g = unat g - 1"

lemma gpos_bound: "g \<noteq> 0 \<Longrightarrow> gpos g < 4294967295"
  using unat_u32_bound [of g] unat_gt_0 [of g] by (simp add: gpos_def)

lemma gpos_next:
  assumes "g \<noteq> 0"
  shows "gpos (next_generation g) = (gpos g + 1) mod 4294967295"
proof (cases "g + 1 = 0")
  case True
  then have "g = -1" by (simp add: eq_neg_iff_add_eq_0)
  also have "(-1 :: u32) = 4294967295" by simp
  finally have "unat g = 4294967295" by simp
  then show ?thesis using True by (simp add: next_generation_def gpos_def)
next
  case False
  have p: "0 < unat g" using assms by (simp add: unat_gt_0)
  have n: "unat (g + 1) \<noteq> 0" using False by (simp add: unat_eq_zero)
  have m: "unat (g + 1) = (unat g + 1) mod 4294967296" by (simp add: unat_word_ariths)
  then have "unat g + 1 \<noteq> 4294967296" using n by auto
  then have "unat g + 1 < 4294967296" using unat_u32_bound [of g] by linarith
  then have u: "unat (g + 1) = unat g + 1" "unat g + 1 < 4294967296" using m by simp_all
  then show ?thesis using False p by (simp add: next_generation_def gpos_def)
qed

lemma lsteps_gen:
  assumes "lsteps k s s'" "ledger_inv s" "i < 4096"
  shows "ledger_inv s' \<and> (\<exists>j \<le> k. gpos (te_generation (lg_table s' ! i)) =
    (gpos (te_generation (lg_table s ! i)) + j) mod 4294967295)"
  using assms
proof (induction rule: lsteps.induct)
  case (ls_refl s)
  then have "gpos (te_generation (lg_table s ! i)) < 4294967295"
    using ledger_invD(3) gpos_bound by (auto simp: entry_ok_def)
  then show ?case using ls_refl by simp
next
  case (ls_alloc k s s' owner n rights tok s'')
  then show ?case using xtok_alloc_ram_spec [OF _ ls_alloc.hyps(2)] alloc_gen by metis
next
  case (ls_huge k s s' owner rights tok s'')
  then show ?case using xtok_alloc_ram_huge_spec [OF _ ls_huge.hyps(2)] alloc_gen by metis
next
  case (ls_acquire k s s' tok caller need rc out s'')
  then show ?case using acquire_gen [OF _ ls_acquire.hyps(2)] by metis
next
  case (ls_unpin k s s' tok)
  then show ?case using unpin_gen [of s' tok] by metis
next
  case (ls_release k s s' tok cr co owner rc s'')
  then have ih: "ledger_inv s'" "\<exists>j \<le> k. gpos (te_generation (lg_table s' ! i)) = (gpos (te_generation (lg_table s ! i)) + j) mod 4294967295"
    by auto
  note r = release_impl_spec [OF ih(1) ls_release.hyps(2)]
  show ?case
  proof (cases "rc = 0")
    case False
    then show ?thesis using r(2) ih by simp
  next
    case True
    have g0: "te_generation (lg_table s' ! i) \<noteq> 0" using ledger_invD(3) [OF ih(1) ls_release.prems(2)] by (simp add: entry_ok_def)
    obtain j where j: "j \<le> k" "gpos (te_generation (lg_table s' ! i)) = (gpos (te_generation (lg_table s ! i)) + j) mod 4294967295"
      using ih(2) by blast
    have "gpos (te_generation (lg_table s'' ! i)) \<in> {gpos (te_generation (lg_table s' ! i)), (gpos (te_generation (lg_table s' ! i)) + 1) mod 4294967295}"
      using r(3) [OF True] ls_release.prems(2) gpos_next [OF g0] by (auto simp: released_def)
    then have "gpos (te_generation (lg_table s'' ! i)) \<in> {(gpos (te_generation (lg_table s ! i)) + j) mod 4294967295,
        (gpos (te_generation (lg_table s ! i)) + Suc j) mod 4294967295}"
      by (simp add: j(2) mod_Suc_eq)
    moreover have "j \<le> Suc k" "Suc j \<le> Suc k" using j(1) by auto
    ultimately have "\<exists>j \<le> Suc k. gpos (te_generation (lg_table s'' ! i)) = (gpos (te_generation (lg_table s ! i)) + j) mod 4294967295"
      by blast
    then show ?thesis using True r(3) by (simp add: released_def)
  qed
qed

lemma released_stays_dead:
  assumes inv: "ledger_inv s" and rel: "release_impl tok cr co owner s = (0, s1)"
    and run: "lsteps k s1 s2" and k: "k < 4294967294"
  shows "toks s2 tok = None"
proof (rule ccontr)
  assume "toks s2 tok \<noteq> None"
  then obtain i where i: "lookup_live tok s2 = Some i" by (auto simp: toks_None_iff)
  note l = lookup_liveD [OF i]
  have r: "released tok s s1" using release_impl_spec(3) [OF inv rel] by simp
  then obtain j where j: "j < 4096" "fst (unpack_token tok) = of_nat j"
    and g: "te_generation (lg_table s1 ! j) = next_generation (te_generation (lg_table s ! j))" and inv1: "ledger_inv s1"
    by (auto simp: released_def)
  have "fst (unpack_token tok) = of_nat i" by (subst l(3)) simp
  then have ij: "i = j" using j slot_unat l(1) by metis
  obtain e where e: "toks s tok = Some e" using r by (auto simp: released_def)
  then obtain i' where i': "lookup_live tok s = Some i'" by (auto simp: toks_Some_iff)
  note l' = lookup_liveD [OF i']
  have "of_nat i' = (of_nat i :: u32)" and gg: "te_generation (lg_table s ! i') = te_generation (lg_table s2 ! i)"
    using l(3) l'(3) by (simp_all add: pack_eq_iff)
  then have "i' = i" using slot_unat l(1) l'(1) by metis
  then have gs: "te_generation (lg_table s2 ! j) = te_generation (lg_table s ! j)" using gg ij by simp
  have g0: "te_generation (lg_table s ! j) \<noteq> 0" using ledger_invD(3) [OF inv j(1)] by (simp add: entry_ok_def)
  obtain d where d: "d \<le> k" "gpos (te_generation (lg_table s2 ! j)) = (gpos (te_generation (lg_table s1 ! j)) + d) mod 4294967295"
    using lsteps_gen [OF run inv1 j(1)] by blast
  define a where "a = gpos (te_generation (lg_table s ! j))"
  have a: "a < 4294967295" using gpos_bound [OF g0] by (simp add: a_def)
  have "a = (a + Suc d) mod 4294967295" using d(2) gpos_next [OF g0] unfolding gs g a_def by (simp add: mod_simps)
  moreover have "Suc d < 4294967295" using d(1) k by simp
  moreover have "(a + Suc d) mod 4294967295 = (if a + Suc d < 4294967295 then a + Suc d else a + Suc d - 4294967295)"
    using a \<open>Suc d < 4294967295\<close> by (auto simp: mod_if)
  ultimately show False using a by (auto split: if_splits)
qed

section \<open>The contract for clients\<close>

text \<open>What the loader and the process teardown rely on: an allocation makes one fresh token from the
  available frames, reclaiming an unmapped token takes it away and gives its frames back, and
  neither touches any other token.\<close>

locale token_store =
  fixes inv :: "'s \<Rightarrow> bool" and view :: "'s \<Rightarrow> XToken \<rightharpoonup> XTokenEntry" and avail :: "'s \<Rightarrow> nat set"
    and alloc :: "'r \<Rightarrow> 's \<Rightarrow> XToken \<times> 's" and reclaim :: "XToken \<Rightarrow> 's \<Rightarrow> int \<times> 's"
  assumes alloc_ok: "inv s \<Longrightarrow> alloc r s = (t, s') \<Longrightarrow> t \<noteq> 0 \<Longrightarrow> inv s' \<and> view s t = None \<and>
       (\<exists>e. view s' = (view s)(t \<mapsto> e) \<and> te_map_count e = 0 \<and> te_span e \<subseteq> avail s \<and> avail s' = avail s - te_span e)"
    and alloc_fail: "inv s \<Longrightarrow> alloc r s = (0, s') \<Longrightarrow> inv s' \<and> view s' = view s \<and> avail s' = avail s"
    and reclaim_ok: "inv s \<Longrightarrow> view s t = Some e \<Longrightarrow> te_map_count e = 0 \<Longrightarrow> reclaim t s = (rc, s') \<Longrightarrow>
       rc = 0 \<and> inv s' \<and> view s' = (view s)(t := None) \<and> avail s' = avail s \<union> te_span e"
begin

lemma alloc_reclaim:
  assumes "inv s" "alloc r s = (t, s')" "t \<noteq> 0" "reclaim t s' = (rc, s'')"
  shows "rc = 0 \<and> inv s'' \<and> view s'' = view s \<and> avail s'' = avail s"
proof -
  from alloc_ok [OF assms(1-3)] obtain e where e: "view s' = (view s)(t \<mapsto> e)" "te_map_count e = 0"
    "te_span e \<subseteq> avail s" "avail s' = avail s - te_span e" and i: "inv s'" "view s t = None" by blast
  have "view s' t = Some e" by (simp add: e(1))
  from reclaim_ok [OF i(1) this e(2) assms(4)] show ?thesis using e i(2) by (auto simp: fun_upd_idem)
qed

lemma reclaim_list:
  assumes "inv s" "distinct ts" "\<And>t. t \<in> set ts \<Longrightarrow> \<exists>e. view s t = Some e \<and> te_map_count e = 0"
  shows "inv (fold (\<lambda>t s. snd (reclaim t s)) ts s) \<and>
    view (fold (\<lambda>t s. snd (reclaim t s)) ts s) = (\<lambda>t. if t \<in> set ts then None else view s t) \<and>
    avail (fold (\<lambda>t s. snd (reclaim t s)) ts s) = avail s \<union> (\<Union>t \<in> set ts. te_span (the (view s t)))"
  using assms
proof (induction ts arbitrary: s)
  case (Cons t ts)
  obtain e where e: "view s t = Some e" "te_map_count e = 0" using Cons.prems(3) by auto
  obtain rc s1 where r: "reclaim t s = (rc, s1)" by fastforce
  note ro = reclaim_ok [OF Cons.prems(1) e r]
  have nt: "t \<notin> set ts" using Cons.prems(2) by simp
  have same: "view s1 u = view s u" if "u \<in> set ts" for u using ro that nt by auto
  have "\<exists>e. view s1 u = Some e \<and> te_map_count e = 0" if "u \<in> set ts" for u
    using Cons.prems(3) [of u] that same [OF that] by simp
  from Cons.IH [OF _ _ this] ro Cons.prems(2) have ih: "inv (fold (\<lambda>t s. snd (reclaim t s)) ts s1)"
    "view (fold (\<lambda>t s. snd (reclaim t s)) ts s1) = (\<lambda>t. if t \<in> set ts then None else view s1 t)"
    "avail (fold (\<lambda>t s. snd (reclaim t s)) ts s1) = avail s1 \<union> (\<Union>t \<in> set ts. te_span (the (view s1 t)))"
    by auto
  have u: "(\<Union>t \<in> set ts. te_span (the (view s1 t))) = (\<Union>t \<in> set ts. te_span (the (view s t)))" using same by simp
  show ?case using ih ro e u r by auto
qed auto

end

interpretation ram_store: token_store ledger_inv toks "\<lambda>s. ffree (xm_phys s)"
  "\<lambda>(owner, n, rights). xtok_alloc_ram owner n rights" xtok_reclaim
proof (unfold_locales, goal_cases)
  case (1 s r t s')
  obtain owner n rights where r: "r = (owner, n, rights)" by (cases r)
  then have "alloc_done owner rights n s t s'" using xtok_alloc_ram_spec [OF 1(1)] 1(2) by auto
  then show ?case using 1(3) by (auto simp: alloc_done_def ram_entry_def)
next
  case (2 s r s')
  obtain owner n rights where r: "r = (owner, n, rights)" by (cases r)
  then have "alloc_done owner rights n s 0 s'" using xtok_alloc_ram_spec [OF 2(1)] 2(2) by auto
  then show ?case using toks_cong [of s' s] by (auto simp: alloc_done_def)
next
  case (3 s t e rc s')
  have "release_impl t False False 0 s = (rc, s')" using 3(4) by (simp add: xtok_reclaim_def)
  note r = release_impl_spec [OF 3(1) this]
  have "rc = 0" using r(1) 3(2,3) by (simp add: release_code_def)
  then show ?case using r(3) 3(2) by (auto simp: released_def)
qed

interpretation huge_store: token_store ledger_inv toks "\<lambda>s. ffree (xm_phys s)"
  "\<lambda>(owner, rights). xtok_alloc_ram_huge owner rights" xtok_reclaim
proof (unfold_locales, goal_cases)
  case (1 s r t s')
  obtain owner rights where r: "r = (owner, rights)" by (cases r)
  then have "alloc_done owner rights XERET_FRAMES_PER_HUGE s t s'" using xtok_alloc_ram_huge_spec [OF 1(1)] 1(2) by auto
  then show ?case using 1(3) by (auto simp: alloc_done_def ram_entry_def)
next
  case (2 s r s')
  obtain owner rights where r: "r = (owner, rights)" by (cases r)
  then have "alloc_done owner rights XERET_FRAMES_PER_HUGE s 0 s'" using xtok_alloc_ram_huge_spec [OF 2(1)] 2(2) by auto
  then show ?case using toks_cong [of s' s] by (auto simp: alloc_done_def)
next
  case (3 s t e rc s')
  then show ?case using ram_store.reclaim_ok by blast
qed

section \<open>A sample ledger\<close>

definition ledger_boot :: Ledger where
  "ledger_boot = xtok_init \<lparr>xm_phys = phys_sample, xm_mem = (\<lambda>_. 0xAA),
     lg_table = replicate 4096 \<lparr>te_generation = 0, te_kind = 0, te_owner = 0, te_rights = 0, te_phys = 0, te_frames = 0,
       te_live = False, te_map_count = 0\<rparr>, lg_live = 0, lg_next_hint = 0\<rparr>"

definition ledger_tok :: XToken where
  "ledger_tok = fst (xtok_alloc_ram 1 4 41 ledger_boot)"

definition ledger_one :: Ledger where
  "ledger_one = snd (xtok_alloc_ram 1 4 41 ledger_boot)"

lemma ledger_boot_ok: "ledger_inv ledger_boot" "toks ledger_boot = Map.empty" "xm_phys ledger_boot = phys_sample"
  "\<not> te_live (lg_table ledger_boot ! 0)"
  using xtok_init_spec [of "\<lparr>xm_phys = phys_sample, xm_mem = (\<lambda>_. 0xAA),
     lg_table = replicate 4096 \<lparr>te_generation = 0, te_kind = 0, te_owner = 0, te_rights = 0, te_phys = 0, te_frames = 0,
       te_live = False, te_map_count = 0\<rparr>, lg_live = 0, lg_next_hint = 0\<rparr>"] phys_sample_ok(1)
  by (simp_all add: ledger_boot_def)

lemma ledger_one_eq: "xtok_alloc_ram 1 4 41 ledger_boot = (ledger_tok, ledger_one)"
  by (simp add: ledger_tok_def ledger_one_def)

lemma ledger_one_ok: "ledger_tok \<noteq> 0" "alloc_done 1 41 4 ledger_boot ledger_tok ledger_one" "ledger_inv ledger_one"
proof -
  note a = xtok_alloc_ram_spec [OF ledger_boot_ok(1) ledger_one_eq]
  have "frun 300 (unat (4 :: u64)) \<subseteq> ffree (xm_phys ledger_boot)" by (auto simp: phys_sample_ok ledger_boot_ok)
  moreover have "0 < (4096 :: nat)" "(4 :: u64) \<noteq> 0" by simp_all
  ultimately show "ledger_tok \<noteq> 0" using a ledger_boot_ok(4) by blast
  show "alloc_done 1 41 4 ledger_boot ledger_tok ledger_one" "ledger_inv ledger_one" using a by (simp_all add: alloc_done_def)
qed

lemma ledger_one_entry: "\<exists>e. toks ledger_one ledger_tok = Some e \<and> te_owner e = 1 \<and> te_rights e = 41 \<and> te_map_count e = 0 \<and> te_frames e = 4"
  using ledger_one_ok(1,2) by (auto simp: alloc_done_def ram_entry_def)

section \<open>Properties\<close>

text \<open>C30. Allocation is safe and complete. A token from \<open>xtok_alloc_ram\<close> or \<open>xtok_alloc_ram_huge\<close> is
  fresh, all its frames were free and are now taken, they hold only zeros, no other token and no
  byte outside them changes, and the new entry has the owner, the rights and the size asked for.
  Failure leaves the table, the count of live tokens, the free frames and every byte outside the
  free frames as they were; free frames may have been cleared on the way. It happens only when the
  request is empty, no run of free frames is long enough, or every slot is live.\<close>

theorem ledger_alloc_correct:
  assumes "ledger_inv s"
  shows "(\<forall>owner n rights tok s'. xtok_alloc_ram owner n rights s = (tok, s') \<longrightarrow>
      alloc_done owner rights n s tok s' \<and>
      (tok = XTOKEN_INVALID \<longrightarrow> n = 0 \<or> (\<forall>f. \<not> {f..<f + unat n} \<subseteq> ffree (xm_phys s)) \<or> (\<forall>i < 4096. te_live (lg_table s ! i)))) \<and>
    (\<forall>owner rights tok s'. xtok_alloc_ram_huge owner rights s = (tok, s') \<longrightarrow>
      alloc_done owner rights XERET_FRAMES_PER_HUGE s tok s' \<and>
      (tok = XTOKEN_INVALID \<longrightarrow> (\<forall>f. 512 dvd f \<longrightarrow> \<not> {f..<f + 512} \<subseteq> ffree (xm_phys s)) \<or> (\<forall>i < 4096. te_live (lg_table s ! i))))"
  using xtok_alloc_ram_spec [OF assms] xtok_alloc_ram_huge_spec [OF assms] by blast

theorem ledger_alloc_correct_witness:
  "alloc_done 1 41 4 ledger_boot ledger_tok ledger_one \<and> ledger_tok \<noteq> XTOKEN_INVALID"
  using ledger_alloc_correct [OF ledger_boot_ok(1)] ledger_one_eq ledger_one_ok(1) by blast

text \<open>C31. A release does what its code says. The result of \<open>xtok_release_owned\<close> and \<open>xtok_reclaim\<close> is
  \<open>release_code\<close> of the entry the token names: stale for an unknown token and, alike, for a token of
  another owner; then missing RELEASE; then still mapped; and 0 otherwise. A refused release changes
  nothing. A successful one removes exactly this token, frees exactly its frames and writes no
  memory. \<open>xtok_release\<close> reports a missing right as stale.\<close>

theorem ledger_release_exact:
  assumes "ledger_inv s"
  shows "(\<forall>tok owner rc s'. xtok_release_owned tok owner s = (rc, s') \<longrightarrow>
      rc = release_code True True owner (toks s tok) \<and> (if rc = 0 then released tok s s' else s' = s)) \<and>
    (\<forall>tok rc s'. xtok_reclaim tok s = (rc, s') \<longrightarrow>
      rc = release_code False False 0 (toks s tok) \<and> (if rc = 0 then released tok s s' else s' = s)) \<and>
    (\<forall>tok rc s'. xtok_release tok s = (rc, s') \<longrightarrow>
      rc = (if release_code True False 0 (toks s tok) = XTOK_REL_ERIGHTS then -1 else release_code True False 0 (toks s tok)) \<and>
      (if rc = 0 then released tok s s' else s' = s))"
proof -
  have x: "rc = release_code cr co owner (toks s tok) \<and> (if rc = 0 then released tok s s' else s' = s)"
    if "release_impl tok cr co owner s = (rc, s')" for tok cr co owner rc s'
    using release_impl_spec [OF assms that] by simp
  have "rc = (if release_code True False 0 (toks s tok) = XTOK_REL_ERIGHTS then -1 else release_code True False 0 (toks s tok)) \<and>
      (if rc = 0 then released tok s s' else s' = s)" if "xtok_release tok s = (rc, s')" for tok rc s'
    using that x by (fastforce simp: xtok_release_def Let_def split: prod.splits if_splits)
  then show ?thesis using x by (simp add: xtok_release_owned_def xtok_reclaim_def)
qed

theorem ledger_release_exact_witness:
  "\<exists>s'. xtok_release_owned ledger_tok 1 ledger_one = (0, s') \<and> released ledger_tok ledger_one s' \<and>
    xtok_release_owned ledger_tok 2 ledger_one = (XTOK_REL_ESTALE, ledger_one)"
proof -
  note c = ledger_release_exact [OF ledger_one_ok(3)]
  obtain rc s' where r: "xtok_release_owned ledger_tok 1 ledger_one = (rc, s')" by fastforce
  obtain rc2 s2 where r2: "xtok_release_owned ledger_tok 2 ledger_one = (rc2, s2)" by fastforce
  obtain e where e: "toks ledger_one ledger_tok = Some e" "te_owner e = 1" "te_rights e = 41" "te_map_count e = 0"
    using ledger_one_entry by blast
  have "release_code True True 1 (Some e) = 0" "release_code True True 2 (Some e) = XTOK_REL_ESTALE"
    using e by (simp_all add: release_code_def)
  then have "rc = 0" "rc2 = XTOK_REL_ESTALE" using c r r2 e(1) by metis+
  moreover have "if rc = 0 then released ledger_tok ledger_one s' else s' = ledger_one"
    "if rc2 = 0 then released ledger_tok ledger_one s2 else s2 = ledger_one" using c r r2 by blast+
  ultimately show ?thesis using r r2 by simp
qed

text \<open>C29. A released token stays dead. After a successful release no run of ledger operations makes
  the token valid again, whatever tokens are allocated and released in between, as long as fewer
  than 2^32 - 2 releases follow. The bound is what the 32-bit generation can tell apart.\<close>

theorem ledger_stale_stays_stale:
  assumes "ledger_inv s" and "release_impl tok cr co owner s = (0, s1)" and "lsteps k s1 s2" and "k < 4294967294"
  shows "toks s2 tok = None \<and> \<not> xtok_validate tok need s2 \<and> xtok_reclaim tok s2 = (XTOK_REL_ESTALE, s2)"
proof -
  have "lookup_live tok s2 = None" using released_stays_dead [OF assms] by (simp add: toks_None_iff)
  then show ?thesis by (simp add: toks_None_iff xtok_validate_def xtok_reclaim_def release_impl_def)
qed

theorem ledger_stale_stays_stale_witness:
  "\<exists>s1 t s2. xtok_release_owned ledger_tok 1 ledger_one = (0, s1) \<and> xtok_alloc_ram 2 4 41 s1 = (t, s2) \<and>
    \<not> xtok_validate ledger_tok 0 s2"
proof -
  obtain e where e: "toks ledger_one ledger_tok = Some e" "te_owner e = 1" "te_rights e = 41" "te_map_count e = 0"
    using ledger_one_entry by blast
  obtain rc s1 where r: "release_impl ledger_tok True True 1 ledger_one = (rc, s1)" by fastforce
  have "rc = 0" using release_impl_spec(1) [OF ledger_one_ok(3) r] e by (simp add: release_code_def)
  with r have r0: "release_impl ledger_tok True True 1 ledger_one = (0, s1)" by simp
  obtain t s2 where a: "xtok_alloc_ram 2 4 41 s1 = (t, s2)" by fastforce
  from ledger_stale_stays_stale [OF ledger_one_ok(3) r0 ls_alloc [OF ls_refl a]] r0 a
  show ?thesis by (auto simp: xtok_release_owned_def)
qed

text \<open>C33. Accounting is exact. \<open>xtok_owner_usage\<close> returns the number of distinct frames and of tokens
  the owner holds, with no wrap-around, and \<open>xtok_owner_tokens\<close> lists distinct tokens of the owner, as
  many as there are up to the limit.\<close>

theorem ledger_usage_exact:
  assumes "ledger_inv s"
  shows "unat (fst (xtok_owner_usage owner s)) = card (owner_frames s owner) \<and>
    unat (snd (xtok_owner_usage owner s)) = card (owner_tokens s owner) \<and>
    set (xtok_owner_tokens owner m s) \<subseteq> owner_tokens s owner \<and> distinct (xtok_owner_tokens owner m s) \<and>
    length (xtok_owner_tokens owner m s) = min (unat m) (card (owner_tokens s owner))"
  using xtok_owner_usage_spec [OF assms, of owner "fst (xtok_owner_usage owner s)" "snd (xtok_owner_usage owner s)"]
    xtok_owner_tokens_spec [OF assms, of owner m] by simp

theorem ledger_usage_exact_witness:
  "fst (xtok_owner_usage 1 ledger_boot) = 0 \<and> xtok_owner_tokens 1 64 ledger_boot = []"
  using ledger_usage_exact [OF ledger_boot_ok(1), of 1 64]
  by (simp add: owner_frames_def owner_tokens_def ledger_boot_ok unat_eq_zero)

text \<open>C28. The ledger keeps owners apart. In every state reached from \<open>xtok_init\<close> by any operations the
  frames of a live token are in memory, not free, and shared with no other token; the count of live
  tokens is exact.\<close>

theorem ledger_reachable_safe:
  assumes "phys_ready (xm_phys s)" and "length (lg_table s) = 4096" and "lsteps k (xtok_init s) s'"
  shows "(\<forall>t e. toks s' t = Some e \<longrightarrow> te_span e \<noteq> {} \<and> te_span e \<subseteq> {..<unat (pb_total (xm_phys s'))} \<and>
      te_span e \<inter> ffree (xm_phys s') = {}) \<and>
    (\<forall>t e t' e'. toks s' t = Some e \<longrightarrow> toks s' t' = Some e' \<longrightarrow> t \<noteq> t' \<longrightarrow> te_span e \<inter> te_span e' = {}) \<and>
    unat (xtok_live_count s') = card (dom (toks s'))"
proof -
  have inv: "ledger_inv s'" using lsteps_gen [OF assms(3) xtok_init_spec(1) [OF assms(1,2)], of 0] by simp
  note d = ledger_invD [OF inv]
  have one: "te_span e \<noteq> {} \<and> te_span e \<subseteq> {..<unat (pb_total (xm_phys s'))} \<and> te_span e \<inter> ffree (xm_phys s') = {}"
    if t: "toks s' t = Some e" for t e
  proof -
    obtain i where i: "lookup_live t s' = Some i" "e = lg_table s' ! i" using t by (auto simp: toks_Some_iff)
    note l = lookup_liveD [OF i(1)]
    have "0 < unat (te_frames e)" using d(3) [OF l(1)] l(2) i(2) by (simp add: entry_ok_def unat_gt_0)
    then show ?thesis using d(3) [OF l(1)] l(2) i(2) by (auto simp: entry_ok_def te_span_def)
  qed
  have two: "te_span e \<inter> te_span e' = {}" if t: "toks s' t = Some e" "toks s' t' = Some e'" "t \<noteq> t'" for t e t' e'
  proof -
    obtain i where i: "lookup_live t s' = Some i" "e = lg_table s' ! i" using t by (auto simp: toks_Some_iff)
    obtain j where j: "lookup_live t' s' = Some j" "e' = lg_table s' ! j" using t by (auto simp: toks_Some_iff)
    have "i \<noteq> j" using lookup_liveD(3) [OF i(1)] lookup_liveD(3) [OF j(1)] t(3) by auto
    then show ?thesis using d(4) lookup_liveD [OF i(1)] lookup_liveD [OF j(1)] i(2) j(2) by simp
  qed
  have "dom (toks s') = slot_tok s' ` live_slots (lg_table s')"
  proof
    show "dom (toks s') \<subseteq> slot_tok s' ` live_slots (lg_table s')"
    proof
      fix t assume "t \<in> dom (toks s')"
      then obtain i where "lookup_live t s' = Some i" by (auto simp: toks_def)
      from lookup_liveD [OF this] show "t \<in> slot_tok s' ` live_slots (lg_table s')"
        by (intro image_eqI [of _ _ i]) (simp_all add: live_slots_def slot_tok_def)
    qed
    show "slot_tok s' ` live_slots (lg_table s') \<subseteq> dom (toks s')"
      using toks_slot [OF inv] by (auto simp: live_slots_def)
  qed
  moreover have "inj_on (slot_tok s') (live_slots (lg_table s'))"
    by (rule inj_onI) (simp add: live_slots_def slot_tok_inj)
  ultimately have "card (dom (toks s')) = card (live_slots (lg_table s'))" by (simp add: card_image)
  then show ?thesis using one two d(5) by (simp add: xtok_live_count_def)
qed

theorem ledger_reachable_safe_witness:
  "unat (xtok_live_count ledger_one) = card (dom (toks ledger_one))"
proof -
  define s :: Ledger where "s = \<lparr>xm_phys = phys_sample, xm_mem = (\<lambda>_. 0xAA),
     lg_table = replicate 4096 \<lparr>te_generation = 0, te_kind = 0, te_owner = 0, te_rights = 0, te_phys = 0, te_frames = 0,
       te_live = False, te_map_count = 0\<rparr>, lg_live = 0, lg_next_hint = 0\<rparr>"
  have "phys_ready (xm_phys s)" "length (lg_table s) = 4096" by (simp_all add: s_def phys_sample_ok)
  moreover have "lsteps 0 (xtok_init s) ledger_one"
    using ls_alloc [OF ls_refl ledger_one_eq] by (simp add: ledger_boot_def s_def)
  ultimately show ?thesis by (rule ledger_reachable_safe [THEN conjunct2, THEN conjunct2])
qed

lemma u16_succ: "(c :: u16) + 1 = 0 \<longleftrightarrow> c = 0xFFFF"
proof -
  have "c + 1 = 0 \<longleftrightarrow> c = -1" by (simp add: eq_neg_iff_add_eq_0)
  also have "(-1 :: u16) = 0xFFFF" by simp
  finally show ?thesis .
qed

text \<open>C32. A mapping pins its token. \<open>xtok_map_acquire\<close> succeeds exactly when the token is live, belongs
  to the caller, carries every right asked for and its count is not saturated; it then reports the
  token's frames and adds one to the count and changes nothing else. While the count is not 0 every
  kind of release is refused and the state stays as it is.\<close>

theorem ledger_map_pins:
  assumes "ledger_inv s" and "xtok_map_acquire tok caller need s = (rc, out, s')"
  shows "rc = map_code caller need (toks s tok) \<and>
    (if rc = XTOK_MAP_OK
     then (\<exists>e. toks s tok = Some e \<and> out = Some (te_phys e, te_frames e) \<and> recounted tok (te_map_count e + 1) s s') \<and>
          (\<forall>cr co owner. \<exists>r < 0. release_impl tok cr co owner s' = (r, s'))
     else s' = s \<and> out = None)"
proof -
  note a = xtok_map_acquire_spec [OF assms]
  have "\<exists>r < 0. release_impl tok cr co owner s' = (r, s')" if rc: "rc = 0" for cr co owner
  proof -
    obtain e where e: "toks s tok = Some e" "recounted tok (te_map_count e + 1) s s'" using a(3) [OF rc] by blast
    have "te_map_count e \<noteq> 0xFFFF" using a(1) e(1) rc by (auto simp: map_code_def split: if_splits)
    then have nz: "te_map_count e + 1 \<noteq> 0" by (simp add: u16_succ)
    obtain r s'' where r: "release_impl tok cr co owner s' = (r, s'')" by fastforce
    have inv': "ledger_inv s'" and t: "toks s' tok = Some (e\<lparr>te_map_count := te_map_count e + 1\<rparr>)"
      using e by (auto simp: recounted_def)
    note ri = release_impl_spec [OF inv' r]
    have "r < 0" using ri(1) nz by (simp add: t release_code_def)
    then show ?thesis using ri(2) r by auto
  qed
  then show ?thesis using a by auto
qed

theorem ledger_map_pins_witness:
  "\<exists>out s'. xtok_map_acquire ledger_tok 1 9 ledger_one = (XTOK_MAP_OK, out, s') \<and> fst (xtok_reclaim ledger_tok s') < 0"
proof -
  obtain rc out s' where a: "xtok_map_acquire ledger_tok 1 9 ledger_one = (rc, out, s')" by (metis prod_cases3)
  obtain e where e: "toks ledger_one ledger_tok = Some e" "te_owner e = 1" "te_rights e = 41" "te_map_count e = 0"
    using ledger_one_entry by blast
  note p = ledger_map_pins [OF ledger_one_ok(3) a]
  have "rc = 0" using p e by (simp add: map_code_def)
  then have "\<exists>r < 0. release_impl ledger_tok False False 0 s' = (r, s')" using p by simp
  then show ?thesis using a \<open>rc = 0\<close> by (auto simp: xtok_reclaim_def)
qed

end
