(* ===== verification/Paging.thy ===== *)
theory Paging
  imports Ledger_Props
begin

text \<open>
  Page tables and address spaces of \<open>source/arch/amd64/kernel/xeret/mem/paging.c\<close>. The tables live in
  the machine's memory: a table is the physical address of a frame, its entries are 64-bit loads and
  stores, and the null pointer is 0. The globals of the file extend the ledger's state. Control
  registers and MSRs are fields of \<open>Cpu\<close>, with the addresses given to \<open>invlpg\<close> kept as a list; what
  \<open>cpuid\<close> answers is a parameter. Each operation holds \<open>g_pt_lock\<close> throughout and is one step.
\<close>

section \<open>Data\<close>

record Cpu =
  cpu_cr0 :: u64
  cpu_cr3 :: u64
  cpu_cr4 :: u64
  cpu_msr :: "u32 \<Rightarrow> u64"
  cpu_invlpg :: "u64 list"

record MapRec =
  mr_as_pml4 :: u64
  mr_owner :: u32
  mr_virt :: u64
  mr_tok :: XToken
  mr_pages :: u64
  mr_live :: bool

record XAspace =
  as_pml4_phys :: u64
  as_owner_id :: u32
  as_live :: bool

record Paging = Ledger +
  pt_pml4_phys :: u64
  pt_prot :: u32
  pt_maps :: "MapRec list"
  pt_mmio_next :: u64
  pt_cpu :: Cpu

abbreviation XPT_ENTS :: nat where "XPT_ENTS \<equiv> 512"
abbreviation XPT_ADDR_MASK :: u64 where "XPT_ADDR_MASK \<equiv> 0x000FFFFFFFFFF000"
abbreviation XPT_HUGE_MASK :: u64 where "XPT_HUGE_MASK \<equiv> 0x000FFFFFFFE00000"
abbreviation FOUR_GIB :: u64 where "FOUR_GIB \<equiv> 0x100000000"
abbreviation PML4_SPAN :: u64 where "PML4_SPAN \<equiv> 0x8000000000"
abbreviation XAS_MAX_MAPS :: nat where "XAS_MAX_MAPS \<equiv> 1024"
abbreviation XPT_KERNEL_HALF :: nat where "XPT_KERNEL_HALF \<equiv> 256"
abbreviation XPT_MMIO_PML4 :: u64 where "XPT_MMIO_PML4 \<equiv> 384"
abbreviation XPT_MMIO_VA :: u64 where "XPT_MMIO_VA \<equiv> 0xFFFFC00000000000"
abbreviation XPT_MMIO_MAX_PAGES :: u64 where "XPT_MMIO_MAX_PAGES \<equiv> 4096"
abbreviation XPT_MMIO_BASE :: u64 where "XPT_MMIO_BASE \<equiv> 0xC0000000"
abbreviation XERET_HUGE_SIZE :: u64 where "XERET_HUGE_SIZE \<equiv> 0x200000"
abbreviation MSR_EFER :: u32 where "MSR_EFER \<equiv> 0xC0000080"
abbreviation EFER_NXE :: u64 where "EFER_NXE \<equiv> 0x800"
abbreviation CR0_WP :: u64 where "CR0_WP \<equiv> 0x10000"
abbreviation CR4_SMEP :: u64 where "CR4_SMEP \<equiv> 0x100000"
abbreviation XPT_PRESENT :: u64 where "XPT_PRESENT \<equiv> 0x1"
abbreviation XPT_WRITE :: u64 where "XPT_WRITE \<equiv> 0x2"
abbreviation XPT_USER :: u64 where "XPT_USER \<equiv> 0x4"
abbreviation XPT_HUGE :: u64 where "XPT_HUGE \<equiv> 0x80"
abbreviation XPT_GLOBAL :: u64 where "XPT_GLOBAL \<equiv> 0x100"
abbreviation XPT_NX :: u64 where "XPT_NX \<equiv> 0x8000000000000000"
abbreviation XPT_KERNEL_RW :: u64 where "XPT_KERNEL_RW \<equiv> XPT_PRESENT OR XPT_WRITE"
abbreviation XPT_UC :: u64 where "XPT_UC \<equiv> 0x10 OR 0x8"
abbreviation XPT_UPPER :: u64 where "XPT_UPPER \<equiv> XPT_PRESENT OR XPT_WRITE OR XPT_USER"
abbreviation XPERM_R :: u32 where "XPERM_R \<equiv> 1"
abbreviation XPERM_W :: u32 where "XPERM_W \<equiv> 2"
abbreviation XPERM_X :: u32 where "XPERM_X \<equiv> 4"
abbreviation XPROT_NX :: u32 where "XPROT_NX \<equiv> 1"
abbreviation XPROT_WP :: u32 where "XPROT_WP \<equiv> 2"
abbreviation XPROT_SMEP :: u32 where "XPROT_SMEP \<equiv> 4"
abbreviation XAS_OK :: int where "XAS_OK \<equiv> 0"
abbreviation XAS_ERR_ARG :: int where "XAS_ERR_ARG \<equiv> -1"
abbreviation XAS_ERR_WX :: int where "XAS_ERR_WX \<equiv> -2"
abbreviation XAS_ERR_RANGE :: int where "XAS_ERR_RANGE \<equiv> -3"
abbreviation XAS_ERR_TOKEN :: int where "XAS_ERR_TOKEN \<equiv> -4"
abbreviation XAS_ERR_OWNER :: int where "XAS_ERR_OWNER \<equiv> -5"
abbreviation XAS_ERR_RIGHTS :: int where "XAS_ERR_RIGHTS \<equiv> -6"
abbreviation XAS_ERR_BUSY :: int where "XAS_ERR_BUSY \<equiv> -7"
abbreviation XAS_ERR_NOMEM :: int where "XAS_ERR_NOMEM \<equiv> -8"
abbreviation XAS_ERR_NOTMAPPED :: int where "XAS_ERR_NOTMAPPED \<equiv> -9"
abbreviation XAS_MAX_MAPS_PER_OWNER :: nat where "XAS_MAX_MAPS_PER_OWNER \<equiv> 64"
abbreviation XAS_USER_BASE :: u64 where "XAS_USER_BASE \<equiv> 0x0000008000000000"
abbreviation XAS_USER_TOP :: u64 where "XAS_USER_TOP \<equiv> 0x0000800000000000"

type_synonym cpuid = "u32 \<Rightarrow> u32 \<Rightarrow> u32 \<times> u32 \<times> u32 \<times> u32"

section \<open>Helpers\<close>

definition align_down :: "u64 \<Rightarrow> u64 \<Rightarrow> u64" where
  "align_down v a = v AND NOT (a - 1)"

definition align_up :: "u64 \<Rightarrow> u64 \<Rightarrow> u64" where
  "align_up v a = (v + a - 1) AND NOT (a - 1)"

text \<open>\<open>tbl(phys)[i]\<close>, read and written, and the address \<open>tbl(phys) + i\<close>.\<close>

definition tbl_at :: "u64 \<Rightarrow> u64 \<Rightarrow> u64" where
  "tbl_at t i = t + i * 8"

definition tbl_get :: "u64 \<Rightarrow> u64 \<Rightarrow> 'a Xmach_scheme \<Rightarrow> u64" where
  "tbl_get t i s = load64 (xm_mem s) (tbl_at t i)"

definition tbl_set :: "u64 \<Rightarrow> u64 \<Rightarrow> u64 \<Rightarrow> 'a Xmach_scheme \<Rightarrow> 'a Xmach_scheme" where
  "tbl_set t i v s = s\<lparr>xm_mem := store64 (xm_mem s) (tbl_at t i) v\<rparr>"

definition alloc_zero_table :: "'a Xmach_scheme \<Rightarrow> u64 \<times> 'a Xmach_scheme" where
  "alloc_zero_table s =
     (let (phys, p) = phys_alloc_frames 1 (xm_phys s); s = s\<lparr>xm_phys := p\<rparr>
      in if phys = 0 then (0, s) else (phys, s\<lparr>xm_mem := zero_words (xm_mem s) phys XPT_ENTS\<rparr>))"

definition free_frame :: "u64 \<Rightarrow> 'a Xmach_scheme \<Rightarrow> 'a Xmach_scheme" where
  "free_frame phys s = s\<lparr>xm_phys := phys_free_frames phys 1 (xm_phys s)\<rparr>"

definition cpu_update :: "(Cpu \<Rightarrow> Cpu) \<Rightarrow> 'a Paging_scheme \<Rightarrow> 'a Paging_scheme" where
  "cpu_update f s = s\<lparr>pt_cpu := f (pt_cpu s)\<rparr>"

definition write_cr3 :: "u64 \<Rightarrow> 'a Paging_scheme \<Rightarrow> 'a Paging_scheme" where
  "write_cr3 v = cpu_update (\<lambda>c. c\<lparr>cpu_cr3 := v\<rparr>)"

definition xpt_read_cr3 :: "'a Paging_scheme \<Rightarrow> u64" where
  "xpt_read_cr3 s = cpu_cr3 (pt_cpu s)"

definition invlpg :: "u64 \<Rightarrow> 'a Paging_scheme \<Rightarrow> 'a Paging_scheme" where
  "invlpg va = cpu_update (\<lambda>c. c\<lparr>cpu_invlpg := va # cpu_invlpg c\<rparr>)"

definition rdmsr :: "u32 \<Rightarrow> 'a Paging_scheme \<Rightarrow> u64" where
  "rdmsr msr s = cpu_msr (pt_cpu s) msr"

definition wrmsr :: "u32 \<Rightarrow> u64 \<Rightarrow> 'a Paging_scheme \<Rightarrow> 'a Paging_scheme" where
  "wrmsr msr v = cpu_update (\<lambda>c. c\<lparr>cpu_msr := (cpu_msr c)(msr := v)\<rparr>)"

definition xpt_protections :: "'a Paging_scheme \<Rightarrow> u32" where
  "xpt_protections s = pt_prot s"

definition xpt_pml4_phys :: "'a Paging_scheme \<Rightarrow> u64" where
  "xpt_pml4_phys s = pt_pml4_phys s"

definition enable_protections :: "cpuid \<Rightarrow> 'a Paging_scheme \<Rightarrow> int \<times> 'a Paging_scheme" where
  "enable_protections cpuid s =
     (let (a, b, c, d) = cpuid 0x80000000 0 in
      if a < 0x80000001 then (-1, s)
      else (let (a, b, c, d) = cpuid 0x80000001 0 in
        if d AND push_bit 20 1 = 0 then (-1, s)
        else (let s = wrmsr MSR_EFER (rdmsr MSR_EFER s OR EFER_NXE) s;
                  prot = XPROT_NX;
                  s = cpu_update (\<lambda>c. c\<lparr>cpu_cr0 := cpu_cr0 c OR CR0_WP\<rparr>) s;
                  prot = prot OR XPROT_WP;
                  (a, b, c, d) = cpuid 0 0;
                  (s, prot) =
                    (if a \<ge> 7
                     then (let (a, b, c, d) = cpuid 7 0 in
                           if b AND push_bit 7 1 \<noteq> 0
                           then (cpu_update (\<lambda>c. c\<lparr>cpu_cr4 := cpu_cr4 c OR CR4_SMEP\<rparr>) s, prot OR XPROT_SMEP)
                           else (s, prot))
                     else (s, prot))
              in (0, s\<lparr>pt_prot := prot\<rparr>))))"

section \<open>The kernel map\<close>

definition next_level :: "u64 \<Rightarrow> u64 \<Rightarrow> u64 \<Rightarrow> 'a Xmach_scheme \<Rightarrow> u64 \<times> 'a Xmach_scheme" where
  "next_level table idx flags s =
     (if tbl_get table idx s AND XPT_PRESENT = 0
      then (let (phys, s) = alloc_zero_table s in
            if phys = 0 then (0, s) else (phys, tbl_set table idx (phys OR flags) s))
      else (tbl_get table idx s AND XPT_ADDR_MASK, s))"

text \<open>The addresses the loop of \<open>map_huge\<close> visits. Its callers keep \<open>stop\<close> at or below 512 GiB, so the
  address never wraps around.\<close>

definition huge_addrs :: "u64 \<Rightarrow> u64 \<Rightarrow> u64 list" where
  "huge_addrs start stop =
     (let a = align_down start XERET_HUGE_SIZE
      in map (\<lambda>k. a + of_nat k * XERET_HUGE_SIZE) [0..<(unat stop - unat a + 0x1FFFFF) div 0x200000])"

definition map_huge_one :: "u64 \<Rightarrow> u64 \<Rightarrow> u64 \<Rightarrow> 'a Xmach_scheme \<Rightarrow> int \<times> 'a Xmach_scheme" where
  "map_huge_one pml4 flags a s =
     (let (pdpt, s) = next_level pml4 (drop_bit 39 a AND 0x1FF) XPT_KERNEL_RW s in
      if pdpt = 0 then (-1, s)
      else (let (pd, s) = next_level pdpt (drop_bit 30 a AND 0x1FF) XPT_KERNEL_RW s in
        if pd = 0 then (-1, s)
        else (let idx = drop_bit 21 a AND 0x1FF in
          if tbl_get pd idx s AND XPT_PRESENT = 0
          then (0, tbl_set pd idx ((a AND XPT_HUGE_MASK) OR flags OR XPT_HUGE) s)
          else (0, s))))"

fun map_huge_loop :: "u64 \<Rightarrow> u64 \<Rightarrow> u64 list \<Rightarrow> 'a Xmach_scheme \<Rightarrow> int \<times> 'a Xmach_scheme" where
  "map_huge_loop pml4 flags [] s = (0, s)"
| "map_huge_loop pml4 flags (a # as) s =
     (let (r, s) = map_huge_one pml4 flags a s in if r \<noteq> 0 then (-1, s) else map_huge_loop pml4 flags as s)"

definition map_huge :: "u64 \<Rightarrow> u64 \<Rightarrow> u64 \<Rightarrow> u64 \<Rightarrow> 'a Xmach_scheme \<Rightarrow> int \<times> 'a Xmach_scheme" where
  "map_huge pml4 start stop flags s = map_huge_loop pml4 flags (huge_addrs start stop) s"

definition xpt_init_identity :: "cpuid \<Rightarrow> u64 \<Rightarrow> u64 \<Rightarrow> u64 \<Rightarrow> 'a Paging_scheme \<Rightarrow> int \<times> 'a Paging_scheme" where
  "xpt_init_identity cpuid phys_end extra_base extra_size s =
     (if phys_end = 0 then (-1, s)
      else if align_up phys_end XERET_HUGE_SIZE > PML4_SPAN then (-1, s)
      else if extra_size \<noteq> 0 \<and> (extra_base + extra_size > PML4_SPAN \<or> extra_base + extra_size < extra_base) then (-1, s)
      else (let (r, s) = enable_protections cpuid s in
        if r \<noteq> 0 then (-1, s)
        else (let (pml4, s) = alloc_zero_table s in
          if pml4 = 0 then (-1, s)
          else (let (r, s) = map_huge pml4 XPT_MMIO_BASE FOUR_GIB (XPT_KERNEL_RW OR XPT_GLOBAL OR XPT_UC) s in
            if r \<noteq> 0 then (-1, s)
            else (let (r, s) = (if extra_size \<noteq> 0
                                then map_huge pml4 extra_base (extra_base + extra_size) (XPT_KERNEL_RW OR XPT_GLOBAL OR XPT_UC) s
                                else (0, s)) in
              if r \<noteq> 0 then (-1, s)
              else (let low_end = (if phys_end < XPT_MMIO_BASE then phys_end else XPT_MMIO_BASE);
                        (r, s) = map_huge pml4 0 (align_up low_end XERET_HUGE_SIZE) (XPT_KERNEL_RW OR XPT_GLOBAL) s in
                if r \<noteq> 0 then (-1, s)
                else (let (r, s) = (if phys_end > FOUR_GIB
                                    then map_huge pml4 FOUR_GIB (align_up phys_end XERET_HUGE_SIZE) (XPT_KERNEL_RW OR XPT_GLOBAL) s
                                    else (0, s)) in
                  if r \<noteq> 0 then (-1, s)
                  else (let (pdpt, s) = next_level pml4 XPT_MMIO_PML4 XPT_KERNEL_RW s in
                    if pdpt = 0 then (-1, s)
                    else (0, (write_cr3 pml4 s)\<lparr>pt_pml4_phys := pml4, pt_mmio_next := XPT_MMIO_VA\<rparr>)))))))))"

definition xpt_translate :: "u64 \<Rightarrow> 'a Paging_scheme \<Rightarrow> u64 option" where
  "xpt_translate virt s =
     (if pt_pml4_phys s = 0 then None
      else (let e = tbl_get (pt_pml4_phys s) (drop_bit 39 virt AND 0x1FF) s in
        if e AND XPT_PRESENT = 0 then None
        else (let e = tbl_get (e AND XPT_ADDR_MASK) (drop_bit 30 virt AND 0x1FF) s in
          if e AND XPT_PRESENT = 0 then None
          else (let e = tbl_get (e AND XPT_ADDR_MASK) (drop_bit 21 virt AND 0x1FF) s in
            if e AND XPT_PRESENT = 0 \<or> e AND XPT_HUGE = 0 then None
            else Some ((e AND XPT_HUGE_MASK) OR (virt AND (XERET_HUGE_SIZE - 1)))))))"

definition xpt_attributes :: "u64 \<Rightarrow> 'a Paging_scheme \<Rightarrow> u64 option" where
  "xpt_attributes virt s =
     (if pt_pml4_phys s = 0 then None
      else (let e = tbl_get (pt_pml4_phys s) (drop_bit 39 virt AND 0x1FF) s in
        if e AND XPT_PRESENT = 0 then None
        else (let e = tbl_get (e AND XPT_ADDR_MASK) (drop_bit 30 virt AND 0x1FF) s in
          if e AND XPT_PRESENT = 0 then None
          else (let e = tbl_get (e AND XPT_ADDR_MASK) (drop_bit 21 virt AND 0x1FF) s in
            if e AND XPT_PRESENT = 0 then None
            else if e AND XPT_HUGE = 0
            then (let e = tbl_get (e AND XPT_ADDR_MASK) (drop_bit 12 virt AND 0x1FF) s in
                  if e AND XPT_PRESENT = 0 then None else Some e)
            else Some e))))"

text \<open>One iteration of the loop of \<open>xpt_map_uncached\<close>, and the loop.\<close>

definition mmio_page :: "u64 \<Rightarrow> u64 \<Rightarrow> u64 \<Rightarrow> 'a Xmach_scheme \<Rightarrow> int \<times> 'a Xmach_scheme" where
  "mmio_page pdpt va pa s =
     (let (pd, s) = next_level pdpt (drop_bit 30 va AND 0x1FF) XPT_KERNEL_RW s in
      if pd = 0 then (-1, s)
      else (let (pt, s) = next_level pd (drop_bit 21 va AND 0x1FF) XPT_KERNEL_RW s in
        if pt = 0 then (-1, s)
        else (let idx = drop_bit 12 va AND 0x1FF in
          if tbl_get pt idx s AND XPT_PRESENT \<noteq> 0 then (-1, s)
          else (0, tbl_set pt idx ((pa AND XPT_ADDR_MASK) OR (XPT_KERNEL_RW OR XPT_GLOBAL OR XPT_UC OR XPT_NX)) s))))"

fun mmio_loop :: "u64 \<Rightarrow> u64 \<Rightarrow> u64 \<Rightarrow> nat list \<Rightarrow> 'a Xmach_scheme \<Rightarrow> int \<times> 'a Xmach_scheme" where
  "mmio_loop pdpt base start [] s = (0, s)"
| "mmio_loop pdpt base start (i # is) s =
     (let (r, s) = mmio_page pdpt (base + of_nat i * XERET_FRAME_SIZE) (start + of_nat i * XERET_FRAME_SIZE) s in
      if r \<noteq> 0 then (-1, s) else mmio_loop pdpt base start is s)"

definition xpt_map_uncached :: "u64 \<Rightarrow> u64 \<Rightarrow> 'a Paging_scheme \<Rightarrow> u64 option \<times> 'a Paging_scheme" where
  "xpt_map_uncached phys nbytes s =
     (if pt_pml4_phys s = 0 \<or> nbytes = 0 then (None, s)
      else (let start = align_down phys XERET_FRAME_SIZE in
        if phys + nbytes < phys then (None, s)
        else (let pages = (align_up (phys + nbytes) XERET_FRAME_SIZE - start) div XERET_FRAME_SIZE in
          if pages = 0 \<or> pages > XPT_MMIO_MAX_PAGES then (None, s)
          else (let base = pt_mmio_next s in
            if base + pages * XERET_FRAME_SIZE < base \<or> base + pages * XERET_FRAME_SIZE > 0xFFFFC00000000000 + PML4_SPAN
            then (None, s)
            else (let pdpt = tbl_get (pt_pml4_phys s) XPT_MMIO_PML4 s AND XPT_ADDR_MASK;
                      (r, s) = mmio_loop pdpt base start [0..<unat pages] s in
              if r \<noteq> 0 then (None, s)
              else (Some (base + (phys - start)), s\<lparr>pt_mmio_next := base + pages * XERET_FRAME_SIZE\<rparr>))))))"

section \<open>User mappings\<close>

definition walk_pte :: "u64 \<Rightarrow> u64 \<Rightarrow> 'a Xmach_scheme \<Rightarrow> u64" where
  "walk_pte pml4 va s =
     (let e = tbl_get pml4 (drop_bit 39 va AND 0x1FF) s in
      if e AND XPT_PRESENT = 0 then 0
      else (let e = tbl_get (e AND XPT_ADDR_MASK) (drop_bit 30 va AND 0x1FF) s in
        if e AND XPT_PRESENT = 0 then 0
        else (let e = tbl_get (e AND XPT_ADDR_MASK) (drop_bit 21 va AND 0x1FF) s in
          if e AND XPT_PRESENT = 0 \<or> e AND XPT_HUGE \<noteq> 0 then 0
          else tbl_at (e AND XPT_ADDR_MASK) (drop_bit 12 va AND 0x1FF))))"

definition map_page :: "u64 \<Rightarrow> u64 \<Rightarrow> u64 \<Rightarrow> u64 \<Rightarrow> 'a Xmach_scheme \<Rightarrow> int \<times> 'a Xmach_scheme" where
  "map_page pml4 va pa leaf s =
     (let (pdpt, s) = next_level pml4 (drop_bit 39 va AND 0x1FF) XPT_UPPER s in
      if pdpt = 0 then (XAS_ERR_NOMEM, s)
      else (let (pd, s) = next_level pdpt (drop_bit 30 va AND 0x1FF) XPT_UPPER s in
        if pd = 0 then (XAS_ERR_NOMEM, s)
        else (let (pt, s) = next_level pd (drop_bit 21 va AND 0x1FF) XPT_UPPER s in
          if pt = 0 then (XAS_ERR_NOMEM, s)
          else (let idx = drop_bit 12 va AND 0x1FF in
            if tbl_get pt idx s AND XPT_PRESENT \<noteq> 0 then (XAS_ERR_BUSY, s)
            else (XAS_OK, tbl_set pt idx ((pa AND XPT_ADDR_MASK) OR leaf) s)))))"

definition unmap_page :: "u64 \<Rightarrow> u64 \<Rightarrow> 'a Paging_scheme \<Rightarrow> 'a Paging_scheme" where
  "unmap_page pml4 va s =
     (let pte = walk_pte pml4 va s in
      if pte \<noteq> 0 \<and> load64 (xm_mem s) pte AND XPT_PRESENT \<noteq> 0
      then invlpg va (s\<lparr>xm_mem := store64 (xm_mem s) pte 0\<rparr>)
      else s)"

definition unmap_pages :: "u64 \<Rightarrow> u64 \<Rightarrow> nat \<Rightarrow> 'a Paging_scheme \<Rightarrow> 'a Paging_scheme" where
  "unmap_pages pml4 va pages s =
     fold (\<lambda>i s. unmap_page pml4 (va + of_nat i * XERET_FRAME_SIZE) s) [0..<pages] s"

definition drop_record :: "nat \<Rightarrow> 'a Paging_scheme \<Rightarrow> 'a Paging_scheme" where
  "drop_record k s =
     (let r = pt_maps s ! k;
          s = unmap_pages (mr_as_pml4 r) (mr_virt r) (unat (mr_pages r)) s;
          s = xtok_map_release (mr_tok r) s
      in s\<lparr>pt_maps := (pt_maps s)[k := (pt_maps s ! k)\<lparr>mr_live := False\<rparr>]\<rparr>)"

definition map_err :: "int \<Rightarrow> int" where
  "map_err rc =
     (if rc = XTOK_MAP_ESTALE then XAS_ERR_TOKEN
      else if rc = XTOK_MAP_EKIND then XAS_ERR_TOKEN
      else if rc = XTOK_MAP_EOWNER then XAS_ERR_OWNER
      else if rc = XTOK_MAP_ERIGHTS then XAS_ERR_RIGHTS
      else XAS_ERR_BUSY)"

section \<open>Address spaces\<close>

text \<open>A pointer to an \<open>XAspace\<close> is an option, and the operations that write it return it.\<close>

definition xas_create :: "XAspace option \<Rightarrow> u32 \<Rightarrow> 'a Paging_scheme \<Rightarrow> int \<times> XAspace option \<times> 'a Paging_scheme" where
  "xas_create asp owner s =
     (if asp = None \<or> pt_pml4_phys s = 0 \<or> owner = XTOK_OWNER_KERNEL then (XAS_ERR_ARG, asp, s)
      else (let (pml4, s) = alloc_zero_table s in
        if pml4 = 0 then (XAS_ERR_NOMEM, asp, s)
        else if \<exists>i \<in> set [1..<XPT_KERNEL_HALF]. tbl_get (pt_pml4_phys s) (of_nat i) s AND XPT_PRESENT \<noteq> 0
        then (XAS_ERR_ARG, asp, free_frame pml4 s)
        else (let s = tbl_set pml4 0 (tbl_get (pt_pml4_phys s) 0 s) s;
                  s = fold (\<lambda>i s. tbl_set pml4 (of_nat i) (tbl_get (pt_pml4_phys s) (of_nat i) s) s)
                        [XPT_KERNEL_HALF..<XPT_ENTS] s
              in (XAS_OK, Some \<lparr>as_pml4_phys = pml4, as_owner_id = owner, as_live = True\<rparr>, s))))"

text \<open>The records one owner has, the first free record, and the loop that maps the pages of a token:
  it stops at the first failure with the number of pages mapped so far.\<close>

definition owner_maps :: "u32 \<Rightarrow> 'a Paging_scheme \<Rightarrow> nat" where
  "owner_maps owner s = length (filter (\<lambda>i. mr_live (pt_maps s ! i) \<and> mr_owner (pt_maps s ! i) = owner) [0..<XAS_MAX_MAPS])"

definition free_record :: "'a Paging_scheme \<Rightarrow> nat option" where
  "free_record s = find (\<lambda>i. \<not> mr_live (pt_maps s ! i)) [0..<XAS_MAX_MAPS]"

fun map_loop :: "u64 \<Rightarrow> u64 \<Rightarrow> u64 \<Rightarrow> u64 \<Rightarrow> nat list \<Rightarrow> 'a Xmach_scheme \<Rightarrow> (int \<times> nat) option \<times> 'a Xmach_scheme" where
  "map_loop pml4 virt phys leaf [] s = (None, s)"
| "map_loop pml4 virt phys leaf (i # is) s =
     (let (r, s) = map_page pml4 (virt + of_nat i * XERET_FRAME_SIZE) (phys + of_nat i * XERET_FRAME_SIZE) leaf s in
      if r \<noteq> XAS_OK then (Some (r, i), s) else map_loop pml4 virt phys leaf is s)"

definition need_rights :: "u32 \<Rightarrow> u32" where
  "need_rights perms =
     (let need = XTOK_RIGHT_MAP OR XTOK_RIGHT_READ;
          need = (if perms AND XPERM_W \<noteq> 0 then need OR XTOK_RIGHT_WRITE else need)
      in if perms AND XPERM_X \<noteq> 0 then need OR XTOK_RIGHT_EXECUTE else need)"

definition leaf_flags :: "u32 \<Rightarrow> u64" where
  "leaf_flags perms =
     (let leaf = XPT_PRESENT OR XPT_USER;
          leaf = (if perms AND XPERM_W \<noteq> 0 then leaf OR XPT_WRITE else leaf)
      in if perms AND XPERM_X = 0 then leaf OR XPT_NX else leaf)"

definition xas_map :: "XAspace option \<Rightarrow> u64 \<Rightarrow> XToken \<Rightarrow> u32 \<Rightarrow> 'a Paging_scheme \<Rightarrow> int \<times> 'a Paging_scheme" where
  "xas_map asp virt tok perms s =
     (if asp = None \<or> \<not> as_live (the asp) then (XAS_ERR_ARG, s)
      else if perms = 0 \<or> perms AND NOT (XPERM_R OR XPERM_W OR XPERM_X) \<noteq> 0 then (XAS_ERR_ARG, s)
      else if perms AND XPERM_W \<noteq> 0 \<and> perms AND XPERM_X \<noteq> 0 then (XAS_ERR_WX, s)
      else if virt AND (XERET_FRAME_SIZE - 1) \<noteq> 0 then (XAS_ERR_RANGE, s)
      else if virt < XAS_USER_BASE \<or> virt \<ge> XAS_USER_TOP then (XAS_ERR_RANGE, s)
      else (let pml4 = as_pml4_phys (the asp); owner = as_owner_id (the asp) in
        if owner_maps owner s \<ge> XAS_MAX_MAPS_PER_OWNER then (XAS_ERR_NOMEM, s)
        else (case xtok_map_acquire tok owner (need_rights perms) s of
          (rc, None, s) \<Rightarrow> (map_err rc, s)
        | (rc, Some (phys, frames), s) \<Rightarrow>
            (if frames = 0 \<or> frames > (XAS_USER_TOP - virt) div XERET_FRAME_SIZE
             then (XAS_ERR_RANGE, xtok_map_release tok s)
             else (case free_record s of
               None \<Rightarrow> (XAS_ERR_NOMEM, xtok_map_release tok s)
             | Some k \<Rightarrow>
                 (case map_loop pml4 virt phys (leaf_flags perms) [0..<unat frames] s of
                    (Some (r, i), s) \<Rightarrow> (r, xtok_map_release tok (unmap_pages pml4 virt i s))
                  | (None, s) \<Rightarrow>
                      (XAS_OK, s\<lparr>pt_maps := (pt_maps s)[k := \<lparr>mr_as_pml4 = pml4, mr_owner = owner, mr_virt = virt,
                         mr_tok = tok, mr_pages = frames, mr_live = True\<rparr>]\<rparr>)))))))"

definition xas_unmap :: "XAspace option \<Rightarrow> u64 \<Rightarrow> 'a Paging_scheme \<Rightarrow> int \<times> 'a Paging_scheme" where
  "xas_unmap asp virt s =
     (if asp = None \<or> \<not> as_live (the asp) then (XAS_ERR_ARG, s)
      else (case find (\<lambda>i. mr_live (pt_maps s ! i) \<and> mr_as_pml4 (pt_maps s ! i) = as_pml4_phys (the asp) \<and>
                           mr_virt (pt_maps s ! i) = virt) [0..<XAS_MAX_MAPS] of
              None \<Rightarrow> (XAS_ERR_NOTMAPPED, s)
            | Some k \<Rightarrow> (XAS_OK, drop_record k s)))"

text \<open>The loops that drop every live record satisfying a condition.\<close>

definition drop_where :: "(MapRec \<Rightarrow> bool) \<Rightarrow> nat \<Rightarrow> 'a Paging_scheme \<times> nat \<Rightarrow> 'a Paging_scheme \<times> nat" where
  "drop_where P i = (\<lambda>(s, n). if mr_live (pt_maps s ! i) \<and> P (pt_maps s ! i) then (drop_record i s, Suc n) else (s, n))"

definition xas_revoke_token :: "XToken \<Rightarrow> 'a Paging_scheme \<Rightarrow> int \<times> 'a Paging_scheme" where
  "xas_revoke_token tok s =
     (let (s, n) = fold (drop_where (\<lambda>r. mr_tok r = tok)) [0..<XAS_MAX_MAPS] (s, 0) in (int n, s))"

text \<open>Teardown of the user half: the page tables of a directory, the directories of a PDPT, and the
  PDPTs of the user half, each freed after what it points to.\<close>

definition free_pd :: "u64 \<Rightarrow> 'a Xmach_scheme \<Rightarrow> 'a Xmach_scheme" where
  "free_pd pd s =
     (let s = fold (\<lambda>i2 s. if tbl_get pd (of_nat i2) s AND XPT_PRESENT \<noteq> 0
                           then free_frame (tbl_get pd (of_nat i2) s AND XPT_ADDR_MASK) s else s) [0..<XPT_ENTS] s
      in free_frame pd s)"

definition free_pdpt :: "u64 \<Rightarrow> 'a Xmach_scheme \<Rightarrow> 'a Xmach_scheme" where
  "free_pdpt pdpt s =
     (let s = fold (\<lambda>i3 s. if tbl_get pdpt (of_nat i3) s AND XPT_PRESENT \<noteq> 0
                           then free_pd (tbl_get pdpt (of_nat i3) s AND XPT_ADDR_MASK) s else s) [0..<XPT_ENTS] s
      in free_frame pdpt s)"

definition free_pml4 :: "u64 \<Rightarrow> 'a Xmach_scheme \<Rightarrow> 'a Xmach_scheme" where
  "free_pml4 pml4 s =
     (let s = fold (\<lambda>i4 s. if tbl_get pml4 (of_nat i4) s AND XPT_PRESENT \<noteq> 0
                           then free_pdpt (tbl_get pml4 (of_nat i4) s AND XPT_ADDR_MASK) s else s) [1..<XPT_KERNEL_HALF] s
      in free_frame pml4 s)"

definition xas_destroy :: "XAspace option \<Rightarrow> 'a Paging_scheme \<Rightarrow> XAspace option \<times> 'a Paging_scheme" where
  "xas_destroy asp s =
     (if asp = None \<or> \<not> as_live (the asp) then (asp, s)
      else (let pml4 = as_pml4_phys (the asp);
                (s, n) = fold (drop_where (\<lambda>r. mr_as_pml4 r = pml4)) [0..<XAS_MAX_MAPS] (s, 0);
                s = free_pml4 pml4 s
            in (Some ((the asp)\<lparr>as_live := False\<rparr>), s)))"

definition xas_live_mappings :: "'a Paging_scheme \<Rightarrow> u32" where
  "xas_live_mappings s = of_nat (length (filter (\<lambda>i. mr_live (pt_maps s ! i)) [0..<XAS_MAX_MAPS]))"

end
