(* ===== verification/Paging_Tree.thy ===== *)
theory Paging_Tree
  imports Paging
begin

text \<open>
  The page tables as trees. The ghost map \<open>R\<close> gives the role of every table frame: the root it
  belongs to and the indices that lead to it from there. \<open>tree\<close> says that memory agrees with \<open>R\<close>, that
  the entries of the shared half are the kernel's, and that the leaf entries in memory are exactly
  those of the abstract map \<open>M\<close> from a root and a path to an entry. The lemmas show how the table
  operations of \<open>paging.c\<close> act on \<open>R\<close> and \<open>M\<close>.
\<close>

section \<open>Entries\<close>

text \<open>The address of a frame and of an entry of it, and the entry.\<close>

definition fa :: "nat \<Rightarrow> u64" where
  "fa f = of_nat (f * 4096)"

definition ea :: "nat \<Rightarrow> nat \<Rightarrow> u64" where
  "ea f i = of_nat (f * 4096 + i * 8)"

definition ent :: "mem \<Rightarrow> nat \<Rightarrow> nat \<Rightarrow> u64" where
  "ent m f i = load64 m (ea f i)"

definition ptr :: "nat \<Rightarrow> u64 \<Rightarrow> u64" where
  "ptr g flags = fa g OR flags"

lemma fa_unat: "f < 33554432 \<Longrightarrow> unat (fa f) = f * 4096"
  unfolding fa_def by (rule unat_of_nat_u64) simp

lemma fa_eq_iff: "f < 33554432 \<Longrightarrow> unat a = f * 4096 \<Longrightarrow> a = fa f"
  by (simp add: fa_unat word_unat_eq_iff)

lemma fa_inj: "f < 33554432 \<Longrightarrow> g < 33554432 \<Longrightarrow> fa f = fa g \<longleftrightarrow> f = g"
  using fa_unat [of f] fa_unat [of g] by (metis mult_cancel2 zero_neq_numeral)

lemma present_iff: "(e :: u64) AND 1 = 0 \<longleftrightarrow> \<not> bit e 0"
  by (simp add: and_one_eq bit_0 even_iff_mod_2_eq_zero)

lemma bit_test_iff: "(e :: u64) AND push_bit n 1 = 0 \<longleftrightarrow> \<not> bit e n \<or> 64 \<le> n"
proof
  assume a: "e AND push_bit n 1 = 0"
  show "\<not> bit e n \<or> 64 \<le> n"
  proof (rule ccontr)
    assume "\<not> (\<not> bit e n \<or> 64 \<le> n)"
    then have "bit (e AND push_bit n 1) n" by (simp add: bit_simps)
    then show False using a by simp
  qed
next
  assume a: "\<not> bit e n \<or> 64 \<le> n"
  show "e AND push_bit n 1 = 0"
  proof (rule bit_word_eqI)
    fix k assume "k < LENGTH(64)"
    then show "bit (e AND push_bit n 1) k = bit (0 :: u64) k" using a by (cases "k = n") (auto simp: bit_simps)
  qed
qed

lemma huge_iff: "(e :: u64) AND XPT_HUGE = 0 \<longleftrightarrow> \<not> bit e 7"
  using bit_test_iff [of e 7] by (simp add: push_bit_eq_mult)

lemma addr_mask: "XPT_ADDR_MASK = mask 52 AND NOT (mask 12)"
  by (simp add: mask_eq_exp_minus_1)

lemma bit_addr_mask: "bit XPT_ADDR_MASK n \<longleftrightarrow> 12 \<le> n \<and> n < 52"
  unfolding addr_mask by (auto simp: bit_simps)

lemma bit_fa: "bit (fa g) n \<longleftrightarrow> 12 \<le> n \<and> n < 64 \<and> bit g (n - 12)"
proof -
  have "fa g = push_bit 12 (of_nat g :: u64)" by (simp add: fa_def push_bit_eq_mult mult.commute)
  then show ?thesis by (auto simp: bit_simps)
qed

lemma bit_small: "bit (g :: nat) n \<Longrightarrow> g < 2 ^ k \<Longrightarrow> n < k"
  by (metis bit_take_bit_iff take_bit_nat_eq_self)

lemma fa_masked: "g < 33554432 \<Longrightarrow> fa g AND XPT_ADDR_MASK = fa g"
proof (rule bit_word_eqI)
  fix n assume g: "g < 33554432"
  have "12 \<le> n \<and> n < 52" if "bit (fa g) n" using bit_small [of g "n - 12" 25] that g by (auto simp: bit_fa)
  then show "bit (fa g AND XPT_ADDR_MASK) n = bit (fa g) n" using bit_addr_mask [of n] by (auto simp only: bit_and_iff)
qed

lemma ptr_addr:
  assumes "g < 33554432" "flags AND XPT_ADDR_MASK = 0"
  shows "ptr g flags AND XPT_ADDR_MASK = fa g"
proof -
  have "ptr g flags AND XPT_ADDR_MASK = (fa g AND XPT_ADDR_MASK) OR (flags AND XPT_ADDR_MASK)"
    by (simp add: ptr_def bit.conj_disj_distrib2)
  then show ?thesis using assms by (simp add: fa_masked)
qed

lemma ptr_bit: "n < 12 \<Longrightarrow> bit (ptr g flags) n \<longleftrightarrow> bit flags n"
  by (simp add: ptr_def bit_or_iff bit_fa)

lemma ptr_inject:
  assumes "g < 33554432" "h < 33554432" "flags AND XPT_ADDR_MASK = 0" "ptr g flags = ptr h flags"
  shows "g = h"
  using ptr_addr [OF assms(1,3)] ptr_addr [OF assms(2,3)] assms(4) fa_inj [OF assms(1,2)] by simp

section \<open>Memory\<close>

lemma entry_addr:
  assumes "f < 33554432" "i < 512"
  shows "unat (ea f i) = f * 4096 + i * 8"
  unfolding ea_def by (rule unat_of_nat_u64) (use assms in linarith)

lemma entry_addr_mod: "f < 33554432 \<Longrightarrow> i < 512 \<Longrightarrow> unat (ea f i) mod 8 = 0"
  by (subst entry_addr) (auto simp: mod_eq_0_iff_dvd)

lemma ent_cong:
  assumes "f < 33554432" "i < 512" "\<And>x. unat x div 4096 = f \<Longrightarrow> m' x = m x"
  shows "ent m' f i = ent m f i"
  unfolding ent_def
proof (rule load64_cong)
  fix k :: nat assume k: "k < 8"
  have "unat (ea f i + of_nat k) = f * 4096 + i * 8 + k"
    using aligned_add_bound [OF entry_addr_mod [OF assms(1,2)] k] entry_addr [OF assms(1,2)] by simp
  moreover have "(f * 4096 + i * 8 + k) div 4096 = f" using assms(2) k by (intro div_nat_eqI) auto
  ultimately show "m' (ea f i + of_nat k) = m (ea f i + of_nat k)"
    by (intro assms(3)) simp
qed

lemma ent_store:
  assumes "f < 33554432" "i < 512" "g < 33554432" "j < 512"
  shows "ent (store64 m (ea f i) v) g j = (if g = f \<and> j = i then v else ent m g j)"
proof (cases "g = f \<and> j = i")
  case True
  then show ?thesis by (simp add: ent_def)
next
  case False
  have "f = g \<and> i = j" if "f * 4096 + i * 8 = g * 4096 + j * 8"
  proof -
    have "(f * 4096 + i * 8) div 4096 = f" "(g * 4096 + j * 8) div 4096 = g" using assms by (auto intro!: div_nat_eqI)
    then have "f = g" using that by simp
    then show ?thesis using that by simp
  qed
  then have "f * 4096 + i * 8 \<noteq> g * 4096 + j * 8" using False by blast
  then have "ea f i \<noteq> ea g j"
    using entry_addr [OF assms(1,2)] entry_addr [OF assms(3,4)] by metis
  then show ?thesis using False unfolding ent_def
    by (subst load64_store64_other) (simp_all only: entry_addr_mod assms if_False, simp_all)
qed

lemma store_outside:
  assumes "f < 33554432" "i < 512" "unat x div 4096 \<noteq> f"
  shows "store64 m (ea f i) v x = m x"
proof (rule store64_outside)
  have u: "unat (ea f i) = f * 4096 + i * 8" by (rule entry_addr [OF assms(1,2)])
  show "unat (ea f i) + 8 \<le> 18446744073709551616" unfolding u using assms by linarith
  have "\<not> (f * 4096 \<le> unat x \<and> unat x < f * 4096 + 4096)" using assms(3) by (auto intro!: div_nat_eqI)
  then show "unat x < unat (ea f i) \<or> unat (ea f i) + 8 \<le> unat x"
    unfolding u using assms(2) by linarith
qed

lemma ent_zero:
  assumes "f < 33554432" "i < 512" "\<And>x. unat x div 4096 = f \<Longrightarrow> m x = 0"
  shows "ent m f i = 0"
proof -
  have "ent m f i = ent (\<lambda>_. 0) f i" by (rule ent_cong [OF assms(1,2)]) (simp add: assms(3))
  also have "\<dots> = 0" unfolding ent_def by (rule load64_zero) simp
  finally show ?thesis .
qed

lemma tbl_get_ent: "tbl_get (fa f) (of_nat i) s = ent (xm_mem s) f i"
  by (simp add: tbl_get_def tbl_at_def ent_def fa_def ea_def)

lemma tbl_at_ea: "tbl_at (fa f) (of_nat i) = ea f i"
  by (simp add: tbl_at_def fa_def ea_def)

lemma tbl_set_mem: "tbl_set (fa f) (of_nat i) v s = s\<lparr>xm_mem := store64 (xm_mem s) (ea f i) v\<rparr>"
  by (simp add: tbl_set_def tbl_at_def fa_def ea_def)

section \<open>Trees\<close>

type_synonym roles = "nat \<rightharpoonup> u64 \<times> nat list"
type_synonym leaves = "u64 \<times> nat list \<rightharpoonup> u64"

definition fl :: "u64 \<Rightarrow> u64 \<Rightarrow> u64" where
  "fl K P = (if P = K then XPT_KERNEL_RW else XPT_UPPER)"

text \<open>The indices a root may use of its own: the kernel's are 0 and the upper half, a user root's
  are the rest. Below the root every index is allowed.\<close>

definition adm :: "u64 \<Rightarrow> u64 \<Rightarrow> nat list \<Rightarrow> nat \<Rightarrow> bool" where
  "adm K P p i \<longleftrightarrow> i < 512 \<and> (p = [] \<longrightarrow> (if P = K then i = 0 \<or> 256 \<le> i else 1 \<le> i \<and> i < 256))"

definition is_leaf :: "nat list \<Rightarrow> u64 \<Rightarrow> bool" where
  "is_leaf p e \<longleftrightarrow> bit e 0 \<and> (length p = 3 \<or> length p = 2 \<and> bit e 7)"

definition tree :: "u64 \<Rightarrow> roles \<Rightarrow> leaves \<Rightarrow> mem \<Rightarrow> nat \<Rightarrow> bool" where
  "tree K R M m tot \<longleftrightarrow> tot \<le> 33554432 \<and>
     (\<forall>f P p. R f = Some (P, p) \<longrightarrow> 0 < f \<and> f < tot \<and> length p \<le> 3) \<and>
     (\<forall>f P. R f = Some (P, []) \<longrightarrow> P = fa f) \<and>
     (\<forall>f P p i. R f = Some (P, p) \<longrightarrow> adm K P p i \<longrightarrow> bit (ent m f i) 0 \<longrightarrow> \<not> is_leaf p (ent m f i) \<longrightarrow>
        (\<exists>g. ent m f i = ptr g (fl K P) \<and> R g = Some (P, p @ [i]))) \<and>
     (\<forall>g P p i. R g = Some (P, p @ [i]) \<longrightarrow> (\<exists>f. R f = Some (P, p) \<and> adm K P p i \<and> ent m f i = ptr g (fl K P))) \<and>
     (\<forall>P p i e. M (P, p @ [i]) = Some e \<longleftrightarrow> (\<exists>f. R f = Some (P, p) \<and> adm K P p i \<and> e = ent m f i \<and> is_leaf p e)) \<and>
     (\<forall>P. M (P, []) = None) \<and>
     (\<forall>P q. M (P, q) \<noteq> None \<longrightarrow> P \<noteq> K \<longrightarrow> length q = 4) \<and>
     (\<forall>f k P i. R f = Some (P, []) \<longrightarrow> R k = Some (K, []) \<longrightarrow> P \<noteq> K \<longrightarrow> adm K K [] i \<longrightarrow> ent m f i = ent m k i) \<and>
     (\<forall>k i. R k = Some (K, []) \<longrightarrow> 1 \<le> i \<longrightarrow> i < 256 \<longrightarrow> \<not> bit (ent m k i) 0)"

lemma fl_props [simp]: "fl K P AND XPT_ADDR_MASK = 0" "bit (fl K P) 0" "\<not> bit (fl K P) 7"
  by (simp_all add: fl_def)

lemma ptr_fl [simp]: "bit (ptr g (fl K P)) 0" "\<not> bit (ptr g (fl K P)) 7"
  by (simp_all add: ptr_bit)

lemma ptr_not_leaf: "length p < 3 \<Longrightarrow> \<not> is_leaf p (ptr g (fl K P))"
  by (simp add: is_leaf_def)

lemmas tree1 = tree_def [THEN iffD1, THEN conjunct1, rule_format]
lemmas tree2 = tree_def [THEN iffD1, THEN conjunct2, THEN conjunct1, rule_format]
lemmas tree3 = tree_def [THEN iffD1, THEN conjunct2, THEN conjunct2, THEN conjunct1, rule_format]
lemmas tree4 = tree_def [THEN iffD1, THEN conjunct2, THEN conjunct2, THEN conjunct2, THEN conjunct1, rule_format]
lemmas tree5 = tree_def [THEN iffD1, THEN conjunct2, THEN conjunct2, THEN conjunct2, THEN conjunct2, THEN conjunct1, rule_format]
lemmas tree6 = tree_def [THEN iffD1, THEN conjunct2, THEN conjunct2, THEN conjunct2, THEN conjunct2, THEN conjunct2, THEN conjunct1, rule_format]
lemmas tree7 = tree_def [THEN iffD1, THEN conjunct2, THEN conjunct2, THEN conjunct2, THEN conjunct2, THEN conjunct2, THEN conjunct2, THEN conjunct1, rule_format]
lemmas tree8 = tree_def [THEN iffD1, THEN conjunct2, THEN conjunct2, THEN conjunct2, THEN conjunct2, THEN conjunct2, THEN conjunct2, THEN conjunct2, THEN conjunct1, rule_format]
lemmas tree9 = tree_def [THEN iffD1, THEN conjunct2, THEN conjunct2, THEN conjunct2, THEN conjunct2, THEN conjunct2, THEN conjunct2, THEN conjunct2, THEN conjunct2, THEN conjunct1, rule_format]
lemmas tree10 = tree_def [THEN iffD1, THEN conjunct2, THEN conjunct2, THEN conjunct2, THEN conjunct2, THEN conjunct2, THEN conjunct2, THEN conjunct2, THEN conjunct2, THEN conjunct2, rule_format]
lemmas treeD = tree1 tree2 tree3 tree4 tree5 tree6 tree7 tree8 tree9 tree10

lemma treeI:
  assumes "tot \<le> 33554432"
    and "\<And>f P p. R f = Some (P, p) \<Longrightarrow> 0 < f \<and> f < tot \<and> length p \<le> 3"
    and "\<And>f P. R f = Some (P, []) \<Longrightarrow> P = fa f"
    and "\<And>f P p i. R f = Some (P, p) \<Longrightarrow> adm K P p i \<Longrightarrow> bit (ent m f i) 0 \<Longrightarrow> \<not> is_leaf p (ent m f i) \<Longrightarrow>
       \<exists>g. ent m f i = ptr g (fl K P) \<and> R g = Some (P, p @ [i])"
    and "\<And>g P p i. R g = Some (P, p @ [i]) \<Longrightarrow> \<exists>f. R f = Some (P, p) \<and> adm K P p i \<and> ent m f i = ptr g (fl K P)"
    and "\<And>P p i e. M (P, p @ [i]) = Some e \<longleftrightarrow> (\<exists>f. R f = Some (P, p) \<and> adm K P p i \<and> e = ent m f i \<and> is_leaf p e)"
    and "\<And>P. M (P, []) = None"
    and "\<And>P q. M (P, q) \<noteq> None \<Longrightarrow> P \<noteq> K \<Longrightarrow> length q = 4"
    and "\<And>f k P i. R f = Some (P, []) \<Longrightarrow> R k = Some (K, []) \<Longrightarrow> P \<noteq> K \<Longrightarrow> adm K K [] i \<Longrightarrow> ent m f i = ent m k i"
    and "\<And>k i. R k = Some (K, []) \<Longrightarrow> 1 \<le> i \<Longrightarrow> i < 256 \<Longrightarrow> \<not> bit (ent m k i) 0"
  shows "tree K R M m tot"
  unfolding tree_def using assms(1-5,7-10) by (intro conjI allI impI assms(6)) blast+

lemma role_unique:
  assumes t: "tree K R M m tot"
  shows "R f = Some (P, p) \<Longrightarrow> R g = Some (P, p) \<Longrightarrow> f = g"
proof (induction p arbitrary: f g rule: rev_induct)
  case Nil
  have "f < 33554432" "g < 33554432" using treeD(1,2) [OF t] Nil by (meson less_le_trans)+
  then show ?case using treeD(3) [OF t Nil(1)] treeD(3) [OF t Nil(2)] fa_inj by blast
next
  case (snoc i p)
  have b: "f < 33554432" "g < 33554432" using treeD(1,2) [OF t] snoc.prems by (meson less_le_trans)+
  obtain f' where f': "R f' = Some (P, p)" "ent m f' i = ptr f (fl K P)" using treeD(5) [OF t snoc.prems(1)] by blast
  obtain g' where g': "R g' = Some (P, p)" "ent m g' i = ptr g (fl K P)" using treeD(5) [OF t snoc.prems(2)] by blast
  have "f' = g'" by (rule snoc.IH [OF f'(1) g'(1)])
  then show ?case using ptr_inject [OF b, of "fl K P"] f'(2) g'(2) by simp
qed

text \<open>A new empty table \<open>g\<close> under entry \<open>i\<close> of table \<open>f\<close>.\<close>

lemma tree_add:
  assumes t: "tree K R M m tot" and f: "R f = Some (P, p)" "length p < 3" "adm K P p i" "\<not> bit (ent m f i) 0"
    and g: "R g = None" "0 < g" "g < tot"
    and m': "\<And>h j. h < tot \<Longrightarrow> j < 512 \<Longrightarrow> ent m' h j =
      (if h = f \<and> j = i then ptr g (fl K P) else if h = g then 0 else ent m h j)"
    and sh: "P \<noteq> K \<or> p \<noteq> [] \<or> (\<forall>h Q. R h = Some (Q, []) \<longrightarrow> Q = K)"
  shows "tree K (R(g \<mapsto> (P, p @ [i]))) M m' tot"
proof -
  note d = treeD [OF t]
  have fg: "f \<noteq> g" using f(1) g(1) by auto
  have e: "ent m' h j = (if h = f \<and> j = i then ptr g (fl K P) else ent m h j)" if "R h = Some (Q, q)" "adm K Q' q' j" for h Q q j Q' q'
  proof -
    have "h < tot" "h \<noteq> g" "j < 512" using d(2) that g(1) by (auto simp: adm_def)
    then show ?thesis using m' by simp
  qed
  have e0: "ent m' g j = 0" if "j < 512" for j using m' [OF g(3) that] fg by auto
  have nl: "\<not> is_leaf p (ent m f i)" using f(4) by (simp add: is_leaf_def)
  show ?thesis
  proof (rule treeI [OF d(1)])
    show "0 < h \<and> h < tot \<and> length q \<le> 3" if "(R(g \<mapsto> (P, p @ [i]))) h = Some (Q, q)" for h Q q
      using that g f(2) d(2) by (auto split: if_splits)
    show "Q = fa h" if "(R(g \<mapsto> (P, p @ [i]))) h = Some (Q, [])" for h Q
      using that d(3) by (auto split: if_splits)
    show "\<exists>x. ent m' h j = ptr x (fl K Q) \<and> (R(g \<mapsto> (P, p @ [i]))) x = Some (Q, q @ [j])"
      if r: "(R(g \<mapsto> (P, p @ [i]))) h = Some (Q, q)" "adm K Q q j" "bit (ent m' h j) 0" "\<not> is_leaf q (ent m' h j)" for h Q q j
    proof (cases "h = g")
      case True
      then show ?thesis using e0 r(2,3) by (simp add: adm_def)
    next
      case hg: False
      then have rh: "R h = Some (Q, q)" using r(1) by simp
      show ?thesis
      proof (cases "h = f \<and> j = i")
        case True
        then show ?thesis using e [OF rh r(2)] rh f(1) by auto
      next
        case False
        then have ee: "ent m' h j = ent m h j" using e [OF rh r(2)] by auto
        then obtain x where "ent m h j = ptr x (fl K Q)" "R x = Some (Q, q @ [j])" using d(4) [OF rh r(2)] r(3,4) by auto
        then show ?thesis using ee g(1) by auto
      qed
    qed
    show "\<exists>x. (R(g \<mapsto> (P, p @ [i]))) x = Some (Q, q) \<and> adm K Q q j \<and> ent m' x j = ptr h (fl K Q)"
      if r: "(R(g \<mapsto> (P, p @ [i]))) h = Some (Q, q @ [j])" for h Q q j
    proof (cases "h = g")
      case True
      then have "Q = P" "q = p" "j = i" using r by auto
      then show ?thesis using e [OF f(1,3)] f fg True by auto
    next
      case False
      then obtain x where x: "R x = Some (Q, q)" "adm K Q q j" "ent m x j = ptr h (fl K Q)" using r d(5) [of h Q q j] by auto
      have "\<not> (x = f \<and> j = i)" using x(3) f(4) by auto
      then have "ent m' x j = ptr h (fl K Q)" using e [OF x(1,2)] x(3) by auto
      moreover have "x \<noteq> g" using x(1) g(1) by auto
      ultimately show ?thesis using x by auto
    qed
    show "M (Q, q @ [j]) = Some v \<longleftrightarrow>
        (\<exists>h. (R(g \<mapsto> (P, p @ [i]))) h = Some (Q, q) \<and> adm K Q q j \<and> v = ent m' h j \<and> is_leaf q v)" for Q q j v
    proof
      assume "M (Q, q @ [j]) = Some v"
      then obtain h where h: "R h = Some (Q, q)" "adm K Q q j" "v = ent m h j" "is_leaf q v" unfolding d(6) by blast
      have "\<not> (h = f \<and> j = i)" using h nl f(1) by auto
      then have "ent m' h j = v" using e [OF h(1,2)] h(3) by auto
      moreover have "h \<noteq> g" using h(1) g(1) by auto
      then have "(R(g \<mapsto> (P, p @ [i]))) h = Some (Q, q)" using h(1) by simp
      ultimately show "\<exists>h. (R(g \<mapsto> (P, p @ [i]))) h = Some (Q, q) \<and> adm K Q q j \<and> v = ent m' h j \<and> is_leaf q v"
        using h(2,4) by metis
    next
      assume "\<exists>h. (R(g \<mapsto> (P, p @ [i]))) h = Some (Q, q) \<and> adm K Q q j \<and> v = ent m' h j \<and> is_leaf q v"
      then obtain h where h: "(R(g \<mapsto> (P, p @ [i]))) h = Some (Q, q)" "adm K Q q j" "v = ent m' h j" "is_leaf q v" by blast
      have "j < 512" using h(2) by (simp add: adm_def)
      then have hg: "h \<noteq> g" using h(3,4) e0 [of j] by (auto simp: is_leaf_def)
      then have rh: "R h = Some (Q, q)" using h(1) by simp
      have "\<not> (h = f \<and> j = i)"
      proof
        assume hf: "h = f \<and> j = i"
        then have "v = ptr g (fl K P)" using e [OF rh h(2)] h(3) by simp
        moreover have "q = p" using hf rh f(1) by simp
        ultimately show False using h(4) ptr_not_leaf [OF f(2)] by simp
      qed
      then have "v = ent m h j" using e [OF rh h(2)] h(3) by auto
      then show "M (Q, q @ [j]) = Some v" unfolding d(6) using rh h(2,4) by blast
    qed
    show "ent m' h j = ent m' k j"
      if r: "(R(g \<mapsto> (P, p @ [i]))) h = Some (Q, [])" "(R(g \<mapsto> (P, p @ [i]))) k = Some (K, [])" "Q \<noteq> K" "adm K K [] j" for h k Q j
    proof -
      have rr: "R h = Some (Q, [])" "R k = Some (K, [])" using r by (auto split: if_splits)
      have "\<not> (h = f \<and> j = i)" using rr(1) f(1,3) r(3,4) by (auto simp: adm_def split: if_splits)
      moreover have "\<not> (k = f \<and> j = i)" using rr f(1) sh r(3) by auto
      ultimately show ?thesis using e [OF rr(1) r(4)] e [OF rr(2) r(4)] d(9) [OF rr r(3,4)] by auto
    qed
    show "\<not> bit (ent m' k j) 0" if r: "(R(g \<mapsto> (P, p @ [i]))) k = Some (K, [])" "1 \<le> j" "j < 256" for k j
    proof -
      have rr: "R k = Some (K, [])" using r by (auto split: if_splits)
      have "\<not> (k = f \<and> j = i)" using rr f(1,3) r(2,3) by (auto simp: adm_def)
      moreover have "k < tot" "k \<noteq> g" "j < 512" using d(2) [OF rr] rr g(1) r(3) by auto
      ultimately have "ent m' k j = ent m k j" using m' by auto
      then show ?thesis using d(10) [OF rr r(2,3)] by simp
    qed
  qed (use d in auto)
qed

text \<open>Writing or clearing a leaf entry.\<close>

lemma tree_leaf:
  assumes t: "tree K R M m tot" and f: "R f = Some (P, p)" "adm K P p i" and lv: "length p = 3 \<or> length p = 2 \<and> P = K"
    and old: "\<not> bit (ent m f i) 0 \<or> is_leaf p (ent m f i)" and new: "\<not> bit v 0 \<or> is_leaf p v"
    and m': "\<And>h j. h < tot \<Longrightarrow> j < 512 \<Longrightarrow> ent m' h j = (if h = f \<and> j = i then v else ent m h j)"
  shows "tree K R (M((P, p @ [i]) := if bit v 0 then Some v else None)) m' tot"
proof -
  note d = treeD [OF t]
  have pn: "p \<noteq> []" using lv by auto
  have e: "ent m' h j = (if h = f \<and> j = i then v else ent m h j)" if "R h = Some (Q, q)" "j < 512" for h Q q j
    using m' d(2) [OF that(1)] that(2) by simp
  have key: "h = f \<longleftrightarrow> Q = P \<and> q = p" if "R h = Some (Q, q)" for h Q q
    using role_unique [OF t f(1), of h] that f(1) by auto
  show ?thesis
  proof (rule treeI [OF d(1)])
    show "\<exists>x. ent m' h j = ptr x (fl K Q) \<and> R x = Some (Q, q @ [j])"
      if r: "R h = Some (Q, q)" "adm K Q q j" "bit (ent m' h j) 0" "\<not> is_leaf q (ent m' h j)" for h Q q j
    proof -
      have j: "j < 512" using r(2) by (simp add: adm_def)
      have "\<not> (h = f \<and> j = i)"
      proof
        assume hf: "h = f \<and> j = i"
        then have "ent m' h j = v" "q = p" using e [OF r(1) j] key [OF r(1)] by auto
        then show False using new r(3,4) by simp
      qed
      then have "ent m' h j = ent m h j" using e [OF r(1) j] by auto
      then show ?thesis using d(4) [OF r(1,2)] r(3,4) by simp
    qed
    show "\<exists>x. R x = Some (Q, q) \<and> adm K Q q j \<and> ent m' x j = ptr h (fl K Q)" if r: "R h = Some (Q, q @ [j])" for h Q q j
    proof -
      obtain x where x: "R x = Some (Q, q)" "adm K Q q j" "ent m x j = ptr h (fl K Q)" using d(5) [OF r] by blast
      have j: "j < 512" using x(2) by (simp add: adm_def)
      have "length (q @ [j]) \<le> 3" using d(2) [OF r] by blast
      then have q: "length q < 3" by simp
      have "\<not> (x = f \<and> j = i)"
      proof
        assume "x = f \<and> j = i"
        then have "q = p" "ent m f i = ptr h (fl K Q)" using key [OF x(1)] x(3) by auto
        then show False using old ptr_not_leaf [OF q] by simp
      qed
      then have "ent m' x j = ent m x j" using e [OF x(1) j] by auto
      then show ?thesis using x by auto
    qed
    show "(M((P, p @ [i]) := if bit v 0 then Some v else None)) (Q, q @ [j]) = Some w \<longleftrightarrow>
        (\<exists>h. R h = Some (Q, q) \<and> adm K Q q j \<and> w = ent m' h j \<and> is_leaf q w)" for Q q j w
    proof (cases "(Q, q @ [j]) = (P, p @ [i])")
      case True
      then have [simp]: "Q = P" "q = p" "j = i" by auto
      have i5: "i < 512" using f(2) by (simp add: adm_def)
      have ei: "ent m' f i = v" using e [OF f(1) i5] by simp
      have "h = f" if "R h = Some (P, p)" for h using role_unique [OF t f(1) that] by simp
      then have "(\<exists>h. R h = Some (P, p) \<and> adm K P p i \<and> w = ent m' h i \<and> is_leaf p w) \<longleftrightarrow> w = v \<and> is_leaf p v"
        using f ei by blast
      moreover have "is_leaf p v \<longleftrightarrow> bit v 0" using new by (auto simp: is_leaf_def)
      ultimately show ?thesis by auto
    next
      case False
      have same: "ent m' h j = ent m h j" if "R h = Some (Q, q)" "adm K Q q j" for h
      proof -
        have "j < 512" using that(2) by (simp add: adm_def)
        moreover have "\<not> (h = f \<and> j = i)" using key [OF that(1)] False by auto
        ultimately show ?thesis using e [OF that(1)] by auto
      qed
      have "(\<exists>h. R h = Some (Q, q) \<and> adm K Q q j \<and> w = ent m' h j \<and> is_leaf q w) \<longleftrightarrow>
          (\<exists>h. R h = Some (Q, q) \<and> adm K Q q j \<and> w = ent m h j \<and> is_leaf q w)"
        by (intro ex_cong conj_cong refl) (simp_all add: same)
      moreover have "(M((P, p @ [i]) := if bit v 0 then Some v else None)) (Q, q @ [j]) = M (Q, q @ [j])"
        by (rule fun_upd_other) (rule False)
      ultimately show ?thesis by (simp only: d(6))
    qed
    show "length q = 4" if "(M((P, p @ [i]) := if bit v 0 then Some v else None)) (Q, q) \<noteq> None" "Q \<noteq> K" for Q q
      using that d(8) lv by (auto split: if_splits)
    show "ent m' h j = ent m' k j"
      if r: "R h = Some (Q, [])" "R k = Some (K, [])" "Q \<noteq> K" "adm K K [] j" for h k Q j
    proof -
      have "j < 512" using r(4) by (simp add: adm_def)
      moreover have "h \<noteq> f" "k \<noteq> f" using key [OF r(1)] key [OF r(2)] pn by auto
      ultimately show ?thesis using e [OF r(1)] e [OF r(2)] d(9) [OF r] by auto
    qed
    show "\<not> bit (ent m' k j) 0" if r: "R k = Some (K, [])" "1 \<le> j" "j < 256" for k j
    proof -
      have "k \<noteq> f" using key [OF r(1)] pn by auto
      then show ?thesis using e [OF r(1), of j] r d(10) [OF r] by auto
    qed
  qed (use d in auto)
qed

text \<open>Memory outside the tables is irrelevant.\<close>

lemma tree_mem:
  assumes t: "tree K R M m tot" and m': "\<And>x. unat x div 4096 \<in> dom R \<Longrightarrow> m' x = m x"
  shows "tree K R M m' tot"
proof -
  note d = treeD [OF t]
  have e: "ent m' h j = ent m h j" if "R h = Some (Q, q)" "j < 512" for h Q q j
  proof (rule ent_cong [OF _ that(2)])
    show "h < 33554432" using d(1) d(2) [OF that(1)] by linarith
  qed (use that(1) m' in auto)
  have ea: "ent m' h j = ent m h j" if "R h = Some (Q, q)" "adm K Q' q' j" for h Q q j Q' q'
    using e [OF that(1)] that(2) by (simp add: adm_def)
  show ?thesis
  proof (rule treeI [OF d(1)])
    show "\<exists>x. ent m' h j = ptr x (fl K Q) \<and> R x = Some (Q, q @ [j])"
      if r: "R h = Some (Q, q)" "adm K Q q j" "bit (ent m' h j) 0" "\<not> is_leaf q (ent m' h j)" for h Q q j
      using d(4) [OF r(1,2)] r(3,4) unfolding ea [OF r(1,2)] by blast
    show "\<exists>x. R x = Some (Q, q) \<and> adm K Q q j \<and> ent m' x j = ptr h (fl K Q)" if r: "R h = Some (Q, q @ [j])" for h Q q j
      using d(5) [OF r] ea by metis
    show "M (Q, q @ [j]) = Some w \<longleftrightarrow> (\<exists>h. R h = Some (Q, q) \<and> adm K Q q j \<and> w = ent m' h j \<and> is_leaf q w)" for Q q j w
    proof -
      have "(\<exists>h. R h = Some (Q, q) \<and> adm K Q q j \<and> w = ent m' h j \<and> is_leaf q w) \<longleftrightarrow>
          (\<exists>h. R h = Some (Q, q) \<and> adm K Q q j \<and> w = ent m h j \<and> is_leaf q w)"
        by (intro ex_cong conj_cong refl) (simp_all add: ea)
      then show ?thesis by (simp only: d(6))
    qed
    show "ent m' h j = ent m' k j" if r: "R h = Some (Q, [])" "R k = Some (K, [])" "Q \<noteq> K" "adm K K [] j" for h k Q j
      using d(9) [OF r] ea [OF r(1,4)] ea [OF r(2,4)] by simp
    show "\<not> bit (ent m' k j) 0" if r: "R k = Some (K, [])" "1 \<le> j" "j < 256" for k j
      using d(10) [OF r] e [OF r(1), of j] r(3) by simp
  qed (use d in auto)
qed

section \<open>Table allocation\<close>

lemma alloc_zero_table_spec:
  assumes rdy: "phys_ready (xm_phys s)" and al: "alloc_zero_table s = (a, s')"
  shows "a = 0 \<Longrightarrow> s' = s \<and> ffree (xm_phys s) = {}"
    and "a \<noteq> 0 \<Longrightarrow> \<exists>g. a = fa g \<and> g \<in> ffree (xm_phys s) \<and> 0 < g \<and> g < unat (pb_total (xm_phys s)) \<and>
      phys_ready (xm_phys s') \<and> phys_same (xm_phys s) (xm_phys s') \<and> ffree (xm_phys s') = ffree (xm_phys s) - {g} \<and>
      xm_mem s' = (\<lambda>x. if unat x div 4096 = g then 0 else xm_mem s x) \<and> Xmach.more s' = Xmach.more s"
proof -
  obtain b p where pa: "phys_alloc_frames 1 (xm_phys s) = (b, p)" by fastforce
  note ps = phys_alloc_frames_spec [OF rdy pa]
  have "(a = 0 \<longrightarrow> s' = s \<and> ffree (xm_phys s) = {}) \<and>
    (a \<noteq> 0 \<longrightarrow> (\<exists>g. a = fa g \<and> g \<in> ffree (xm_phys s) \<and> 0 < g \<and> g < unat (pb_total (xm_phys s)) \<and>
      phys_ready (xm_phys s') \<and> phys_same (xm_phys s) (xm_phys s') \<and> ffree (xm_phys s') = ffree (xm_phys s) - {g} \<and>
      xm_mem s' = (\<lambda>x. if unat x div 4096 = g then 0 else xm_mem s x) \<and> Xmach.more s' = Xmach.more s))"
  proof (cases "b = 0")
    case True
    then have "p = xm_phys s" "\<forall>f. \<not> frun f (unat (1 :: u64)) \<subseteq> ffree (xm_phys s)" using ps(2) by auto
    moreover from this(2) have "f \<notin> ffree (xm_phys s)" for f by (auto dest!: spec [of _ f])
    ultimately show ?thesis using al pa True by (auto simp: alloc_zero_table_def)
  next
    case False
    then obtain g where g: "unat b = g * 4096" "0 < g" "g + unat (1 :: u64) \<le> unat (pb_total (xm_phys s))"
      "frun g (unat (1 :: u64)) \<subseteq> ffree (xm_phys s)" "ffree p = ffree (xm_phys s) - frun g (unat (1 :: u64))"
      and p: "phys_ready p" "phys_same (xm_phys s) p" using ps(1) by (auto simp: frames_taken_def)
    have tot: "unat (pb_total (xm_phys s)) \<le> 33554432" using rdy by (simp add: phys_ready_def phys_inv_def)
    have ba: "b = fa g" by (rule fa_eq_iff [OF _ g(1)]) (use g(3) tot in simp)
    have s': "a = b" "s' = s\<lparr>xm_phys := p, xm_mem := zero_words (xm_mem s) b (1 * 512)\<rparr>"
      using al pa False by (auto simp: alloc_zero_table_def)
    have "(g + 1) * 4096 \<le> 18446744073709551616" using g(3) tot by simp
    then have z: "zero_words (xm_mem s) b (1 * 512) = (\<lambda>x. if unat x div 4096 = g then 0 else xm_mem s x)"
      using zero_words_frames [OF g(1), of 1 "xm_mem s"] by (intro ext) (auto simp: in_frames_def)
    have "a = fa g" "xm_phys s' = p" "Xmach.more s' = Xmach.more s"
      "xm_mem s' = (\<lambda>x. if unat x div 4096 = g then 0 else xm_mem s x)"
      unfolding s'(2) z using s'(1) ba by simp_all
    moreover have "g \<in> ffree (xm_phys s)" "g < unat (pb_total (xm_phys s))" "ffree p = ffree (xm_phys s) - {g}"
      using g(3-5) by auto
    ultimately show ?thesis using g(2) p False s'(1) by blast
  qed
  then show "a = 0 \<Longrightarrow> s' = s \<and> ffree (xm_phys s) = {}"
    "a \<noteq> 0 \<Longrightarrow> \<exists>g. a = fa g \<and> g \<in> ffree (xm_phys s) \<and> 0 < g \<and> g < unat (pb_total (xm_phys s)) \<and>
      phys_ready (xm_phys s') \<and> phys_same (xm_phys s) (xm_phys s') \<and> ffree (xm_phys s') = ffree (xm_phys s) - {g} \<and>
      xm_mem s' = (\<lambda>x. if unat x div 4096 = g then 0 else xm_mem s x) \<and> Xmach.more s' = Xmach.more s" by blast+
qed

text \<open>A machine state whose memory holds the trees, and the growth of the trees by new tables from
  the pool.\<close>

definition trees :: "u64 \<Rightarrow> roles \<Rightarrow> leaves \<Rightarrow> 'a Xmach_scheme \<Rightarrow> bool" where
  "trees K R M s \<longleftrightarrow> tree K R M (xm_mem s) (unat (pb_total (xm_phys s))) \<and> phys_ready (xm_phys s) \<and>
     dom R \<inter> ffree (xm_phys s) = {}"

definition grown :: "roles \<Rightarrow> 'a Xmach_scheme \<Rightarrow> roles \<Rightarrow> 'a Xmach_scheme \<Rightarrow> bool" where
  "grown R s R' s' \<longleftrightarrow> R \<subseteq>\<^sub>m R' \<and> phys_same (xm_phys s) (xm_phys s') \<and>
     dom R' - dom R \<subseteq> ffree (xm_phys s) \<and> ffree (xm_phys s') = ffree (xm_phys s) - (dom R' - dom R) \<and>
     (\<forall>x. unat x div 4096 \<notin> dom R' \<longrightarrow> xm_mem s' x = xm_mem s x) \<and>
     (\<forall>g P. R' g = Some (P, []) \<longrightarrow> R g = Some (P, [])) \<and> Xmach.more s' = Xmach.more s"

lemma grown_refl [simp]: "grown R s R s"
  by (simp add: grown_def)

lemma grown_role: "grown R s R' s' \<Longrightarrow> R f = Some r \<Longrightarrow> R' f = Some r"
  by (auto simp: grown_def map_le_def dom_def)

lemma grown_trans:
  assumes a: "grown R s R1 s1" and b: "grown R1 s1 R2 s2"
  shows "grown R s R2 s2"
proof -
  have le: "R \<subseteq>\<^sub>m R1" "R1 \<subseteq>\<^sub>m R2" using a b by (auto simp: grown_def)
  then have dm: "dom R \<subseteq> dom R1" "dom R1 \<subseteq> dom R2" by (auto simp: map_le_implies_dom_le)
  have f1: "ffree (xm_phys s1) = ffree (xm_phys s) - (dom R1 - dom R)" "dom R1 - dom R \<subseteq> ffree (xm_phys s)"
    and f2: "ffree (xm_phys s2) = ffree (xm_phys s1) - (dom R2 - dom R1)" "dom R2 - dom R1 \<subseteq> ffree (xm_phys s1)"
    using a b by (auto simp: grown_def)
  have "dom R2 - dom R = (dom R2 - dom R1) \<union> (dom R1 - dom R)" using dm by auto
  then have "dom R2 - dom R \<subseteq> ffree (xm_phys s)" "ffree (xm_phys s2) = ffree (xm_phys s) - (dom R2 - dom R)"
    using f1 f2 by auto
  moreover have "xm_mem s2 x = xm_mem s x" if "unat x div 4096 \<notin> dom R2" for x
  proof -
    have "unat x div 4096 \<notin> dom R1" using that dm by auto
    then show ?thesis using that a b by (auto simp: grown_def)
  qed
  moreover have "phys_same (xm_phys s) (xm_phys s2)" using a b unfolding grown_def by (blast intro: phys_same_trans)
  moreover have "\<forall>g P. R2 g = Some (P, []) \<longrightarrow> R g = Some (P, [])" using a b unfolding grown_def by blast
  moreover have "Xmach.more s2 = Xmach.more s" using a b by (simp add: grown_def)
  ultimately show ?thesis using map_le_trans [OF le] unfolding grown_def by blast
qed

lemma next_level_spec:
  assumes t: "trees K R M s" and f: "R f = Some (P, p)" "length p < 3" "adm K P p i"
    and nl: "\<not> is_leaf p (ent (xm_mem s) f i)"
    and sh: "P \<noteq> K \<or> p \<noteq> [] \<or> (\<forall>h Q. R h = Some (Q, []) \<longrightarrow> Q = K)"
    and nx: "next_level (fa f) (of_nat i) (fl K P) s = (a, s')"
  shows "a = 0 \<Longrightarrow> s' = s \<and> ffree (xm_phys s) = {}"
    and "a \<noteq> 0 \<Longrightarrow> \<exists>g R'. a = fa g \<and> R' g = Some (P, p @ [i]) \<and> trees K R' M s' \<and> grown R s R' s' \<and> (\<forall>h r. R' h = Some r \<longrightarrow> R h = Some r \<or> r = (P, p @ [i]))"
proof -
  have tr: "tree K R M (xm_mem s) (unat (pb_total (xm_phys s)))" and rdy: "phys_ready (xm_phys s)"
    and dj: "dom R \<inter> ffree (xm_phys s) = {}" using t by (auto simp: trees_def)
  note d = treeD [OF tr]
  have "(a = 0 \<longrightarrow> s' = s \<and> ffree (xm_phys s) = {}) \<and>
    (a \<noteq> 0 \<longrightarrow> (\<exists>g R'. a = fa g \<and> R' g = Some (P, p @ [i]) \<and> trees K R' M s' \<and> grown R s R' s' \<and>
      (\<forall>h r. R' h = Some r \<longrightarrow> R h = Some r \<or> r = (P, p @ [i]))))"
  proof (cases "bit (ent (xm_mem s) f i) 0")
    case True
    then obtain g where g: "ent (xm_mem s) f i = ptr g (fl K P)" "R g = Some (P, p @ [i])" using d(4) [OF f(1,3)] nl by blast
    have gb: "0 < g" "g < 33554432" using d(1) d(2) [OF g(2)] by linarith+
    have e: "a = fa g" "s' = s" using nx True ptr_addr [OF gb(2), of "fl K P"]
      by (auto simp: next_level_def tbl_get_ent present_iff g(1))
    have "fa g \<noteq> 0" using fa_unat [OF gb(2)] gb(1) by auto
    then show ?thesis using e g(2) t by (auto intro!: exI [of _ g] exI [of _ R])
  next
    case False
    obtain b s1 where al: "alloc_zero_table s = (b, s1)" by fastforce
    note as = alloc_zero_table_spec [OF rdy al]
    show ?thesis
    proof (cases "b = 0")
      case True
      then show ?thesis using nx False al as(1) by (simp add: next_level_def tbl_get_ent present_iff)
    next
      case b0: False
      then obtain g where g: "b = fa g" "g \<in> ffree (xm_phys s)" "0 < g" "g < unat (pb_total (xm_phys s))"
        and s1: "phys_ready (xm_phys s1)" "phys_same (xm_phys s) (xm_phys s1)" "ffree (xm_phys s1) = ffree (xm_phys s) - {g}"
          "xm_mem s1 = (\<lambda>x. if unat x div 4096 = g then 0 else xm_mem s x)" "Xmach.more s1 = Xmach.more s"
        using as(2) by blast
      have e: "a = b" "s' = tbl_set (fa f) (of_nat i) (ptr g (fl K P)) s1"
        using nx False al b0 by (auto simp: next_level_def tbl_get_ent present_iff ptr_def g(1))
      have s': "xm_mem s' = store64 (xm_mem s1) (ea f i) (ptr g (fl K P))" "xm_phys s' = xm_phys s1" "Xmach.more s' = Xmach.more s1"
        by (simp_all add: e tbl_set_mem)
      have fb: "0 < f" "f < unat (pb_total (xm_phys s))" "f < 33554432" using d(1) d(2) [OF f(1)] by linarith+
      have i: "i < 512" using f(3) by (simp add: adm_def)
      have ng: "R g = None" using g(2) dj by (auto simp: disjoint_iff)
      let ?R = "R(g \<mapsto> (P, p @ [i]))"
      have m': "ent (xm_mem s') h j = (if h = f \<and> j = i then ptr g (fl K P) else if h = g then 0 else ent (xm_mem s) h j)"
        if hj: "h < unat (pb_total (xm_phys s))" "j < 512" for h j
      proof -
        have hb: "h < 33554432" using hj(1) d(1) by linarith
        have "ent (xm_mem s1) h j = (if h = g then 0 else ent (xm_mem s) h j)"
          using ent_zero [OF hb hj(2), of "xm_mem s1"] ent_cong [OF hb hj(2), of "xm_mem s1" "xm_mem s"] by (auto simp: s1(4))
        then show ?thesis unfolding s'(1) using ent_store [OF fb(3) i hb hj(2)] by auto
      qed
      have tot: "pb_total (xm_phys s') = pb_total (xm_phys s)" using s1(2) s'(2) by (simp add: phys_same_def)
      have "tree K ?R M (xm_mem s') (unat (pb_total (xm_phys s')))"
        unfolding tot by (rule tree_add [OF tr f False ng g(3,4) m' sh])
      moreover have "dom ?R \<inter> ffree (xm_phys s') = {}" using dj s1(3) s'(2) by auto
      ultimately have "trees K ?R M s'" using s1(1) s'(2) by (simp add: trees_def)
      moreover have "grown R s ?R s'"
      proof -
        have "dom ?R - dom R = {g}" using ng by auto
        moreover have "xm_mem s' x = xm_mem s x" if "unat x div 4096 \<notin> dom ?R" for x
        proof -
          have "unat x div 4096 \<noteq> f" "unat x div 4096 \<noteq> g" using that f(1) by auto
          then show ?thesis unfolding s'(1) using store_outside [OF fb(3) i] by (simp add: s1(4))
        qed
        ultimately show ?thesis using g(2) s1 s' ng
          by (auto simp: grown_def map_le_def)
      qed
      moreover have "b \<noteq> 0 \<and> ?R g = Some (P, p @ [i]) \<and> (\<forall>h r. ?R h = Some r \<longrightarrow> R h = Some r \<or> r = (P, p @ [i]))" using b0 by simp
      ultimately show ?thesis using e(1) g(1) by blast
    qed
  qed
  then show "a = 0 \<Longrightarrow> s' = s \<and> ffree (xm_phys s) = {}"
    "a \<noteq> 0 \<Longrightarrow> \<exists>g R'. a = fa g \<and> R' g = Some (P, p @ [i]) \<and> trees K R' M s' \<and> grown R s R' s' \<and> (\<forall>h r. R' h = Some r \<longrightarrow> R h = Some r \<or> r = (P, p @ [i]))" by blast+
qed

section \<open>Virtual addresses\<close>

definition ix :: "nat \<Rightarrow> u64 \<Rightarrow> nat" where
  "ix n va = unat (drop_bit n va AND 0x1FF)"

lemma ix_word: "drop_bit n va AND 0x1FF = (of_nat (ix n va) :: u64)"
  by (simp add: ix_def)

lemma ix_eq: "ix n va = unat va div 2 ^ n mod 512"
proof -
  have "drop_bit n va AND 0x1FF = take_bit 9 (drop_bit n va)"
    by (simp add: take_bit_eq_mask mask_eq_exp_minus_1)
  moreover have "unat (take_bit 9 (drop_bit n va)) = unat (drop_bit n va) mod 512" by (simp only: take_bit_eq_mod unat_mod) simp
  moreover have "unat (drop_bit n va) = unat va div 2 ^ n" by (subst unat_drop_bit_eq) (simp add: drop_bit_eq_div)
  ultimately show ?thesis by (simp only: ix_def)
qed

lemma ix_less [simp]: "ix n va < 512"
  by (simp add: ix_eq)

definition path4 :: "u64 \<Rightarrow> nat list" where
  "path4 va = [ix 39 va, ix 30 va, ix 21 va, ix 12 va]"

definition user_va :: "u64 \<Rightarrow> bool" where
  "user_va va \<longleftrightarrow> XAS_USER_BASE \<le> va \<and> va < XAS_USER_TOP"

lemma user_va_ix: "user_va va \<Longrightarrow> 1 \<le> ix 39 va \<and> ix 39 va < 256"
proof -
  assume "user_va va"
  then have "1 * 549755813888 \<le> unat va" "unat va < 256 * 549755813888"
    by (auto simp: user_va_def word_le_nat_alt word_less_nat_alt)
  then have "1 \<le> unat va div 549755813888" "unat va div 549755813888 < 256"
    by (auto simp: less_mult_imp_div_less intro: div_le_mono [of "1 * 549755813888", simplified])
  then show ?thesis by (simp add: ix_eq)
qed

lemma div_mod_eq_step:
  assumes "(a :: nat) div (512 * k) = b div (512 * k)" "a div k mod 512 = b div k mod 512"
  shows "a div k = b div k"
proof -
  have "a div k div 512 = b div k div 512" using assms(1) by (simp add: div_mult2_eq [symmetric] mult.commute)
  then show ?thesis using assms(2) by (metis div_mult_mod_eq)
qed

lemma path4_inj:
  assumes "path4 a = path4 b" "unat a < 281474976710656" "unat b < 281474976710656"
  shows "unat a div 4096 = unat b div 4096"
proof -
  have e: "unat a div 549755813888 mod 512 = unat b div 549755813888 mod 512"
    "unat a div 1073741824 mod 512 = unat b div 1073741824 mod 512"
    "unat a div 2097152 mod 512 = unat b div 2097152 mod 512"
    "unat a div 4096 mod 512 = unat b div 4096 mod 512"
    using assms(1) by (simp_all add: path4_def ix_eq)
  have "unat a div 549755813888 < 512" "unat b div 549755813888 < 512"
    using assms(2,3) by (simp_all add: less_mult_imp_div_less)
  then have "unat a div (512 * 1073741824) = unat b div (512 * 1073741824)" using e(1) by simp
  from div_mod_eq_step [OF this e(2)] have "unat a div (512 * 2097152) = unat b div (512 * 2097152)" by simp
  from div_mod_eq_step [OF this e(3)] have "unat a div (512 * 4096) = unat b div (512 * 4096)" by simp
  from div_mod_eq_step [OF this e(4)] show ?thesis .
qed

lemma page_addr:
  assumes "unat virt mod 4096 = 0" "unat virt + n * 4096 \<le> 281474976710656" "i < n"
  shows "unat (virt + of_nat i * XERET_FRAME_SIZE) = unat virt + i * 4096"
    "unat (virt + of_nat i * XERET_FRAME_SIZE) mod 4096 = 0"
proof -
  have i: "i * 4096 < 281474976710656" using assms(2,3) by linarith
  then have "unat (of_nat i * XERET_FRAME_SIZE) = i * 4096" by (simp add: unat_word_ariths unat_of_nat)
  then show u: "unat (virt + of_nat i * XERET_FRAME_SIZE) = unat virt + i * 4096"
    using assms(2) i unat_u64_bound [of virt] assms(3) by (subst unat_add_less) auto
  show "unat (virt + of_nat i * XERET_FRAME_SIZE) mod 4096 = 0" unfolding u using assms(1) by simp
qed

section \<open>Walking and mapping user pages\<close>

lemma user_step:
  assumes t: "tree K R M m tot" and f: "R f = Some (P, p)" "length p < 3" "adm K P p i" and P: "P \<noteq> K"
  shows "\<not> is_leaf p (ent m f i)"
    "\<not> bit (ent m f i) 0 \<Longrightarrow> R g \<noteq> Some (P, p @ [i])"
    "bit (ent m f i) 0 \<Longrightarrow> \<exists>g. ent m f i AND XPT_ADDR_MASK = fa g \<and> R g = Some (P, p @ [i]) \<and> \<not> bit (ent m f i) 7"
proof -
  note d = treeD [OF t]
  show nl: "\<not> is_leaf p (ent m f i)"
  proof
    assume "is_leaf p (ent m f i)"
    then have "M (P, p @ [i]) = Some (ent m f i)" unfolding d(6) using f by blast
    then have "length (p @ [i]) = 4" using d(8) P by (metis option.distinct(1))
    then show False using f(2) by simp
  qed
  show "R g \<noteq> Some (P, p @ [i])" if nb: "\<not> bit (ent m f i) 0"
  proof
    assume "R g = Some (P, p @ [i])"
    then obtain h where h: "R h = Some (P, p)" "ent m h i = ptr g (fl K P)" using d(5) by blast
    have "h = f" by (rule role_unique [OF t h(1) f(1)])
    then show False using h(2) nb by simp
  qed
  show "\<exists>g. ent m f i AND XPT_ADDR_MASK = fa g \<and> R g = Some (P, p @ [i]) \<and> \<not> bit (ent m f i) 7" if b0: "bit (ent m f i) 0"
  proof -
    obtain g where g: "ent m f i = ptr g (fl K P)" "R g = Some (P, p @ [i])" using d(4) [OF f(1,3) b0 nl] by blast
    have "g < 33554432" using d(1) d(2) [OF g(2)] by linarith
    then show ?thesis using g ptr_addr [of g "fl K P"] by auto
  qed
qed

lemma no_leaf_without_table:
  assumes "tree K R M m tot" "\<And>g. R g \<noteq> Some (P, p)"
  shows "M (P, p @ [i]) = None"
proof (rule ccontr)
  assume "M (P, p @ [i]) \<noteq> None"
  then obtain e where "M (P, p @ [i]) = Some e" by blast
  then show False using assms(2) unfolding tree6 [OF assms(1)] by blast
qed

lemma no_table_without_parent:
  assumes "tree K R M m tot" "\<And>g. R g \<noteq> Some (P, p)"
  shows "R g \<noteq> Some (P, p @ [i])"
  using tree5 [OF assms(1), of g P p i] assms(2) by blast

lemma walk_pte_spec:
  assumes t: "tree K R M (xm_mem s) tot" and P: "R f = Some (P, [])" "P \<noteq> K" and va: "user_va va"
  shows "walk_pte P va s = 0 \<Longrightarrow> M (P, path4 va) = None"
    "walk_pte P va s \<noteq> 0 \<Longrightarrow> \<exists>g. R g = Some (P, [ix 39 va, ix 30 va, ix 21 va]) \<and> walk_pte P va s = ea g (ix 12 va)"
proof -
  note d = treeD [OF t]
  define a b c where abc: "a = ix 39 va" "b = ix 30 va" "c = ix 21 va"
  have ad: "adm K P [] a" "\<And>p. p \<noteq> [] \<Longrightarrow> adm K P p b" "\<And>p. p \<noteq> [] \<Longrightarrow> adm K P p c"
    using user_va_ix [OF va] P(2) by (auto simp: adm_def abc)
  have Pf: "P = fa f" by (rule d(3) [OF P(1)])
  have w: "walk_pte P va s =
     (let e = ent (xm_mem s) f a in
      if \<not> bit e 0 then 0
      else (let e = tbl_get (e AND XPT_ADDR_MASK) (of_nat b) s in
        if \<not> bit e 0 then 0
        else (let e = tbl_get (e AND XPT_ADDR_MASK) (of_nat c) s in
          if \<not> bit e 0 \<or> bit e 7 then 0
          else tbl_at (e AND XPT_ADDR_MASK) (of_nat (ix 12 va)))))"
    unfolding walk_pte_def abc ix_word present_iff huge_iff Pf by (simp add: tbl_get_ent Let_def)
  have none: "M (P, path4 va) = None" if "\<And>g. R g \<noteq> Some (P, [a, b, c])"
    using no_leaf_without_table [OF t that, of "ix 12 va"] by (simp add: path4_def abc)
  have "(walk_pte P va s = 0 \<longrightarrow> M (P, path4 va) = None) \<and>
    (walk_pte P va s \<noteq> 0 \<longrightarrow> (\<exists>g. R g = Some (P, [a, b, c]) \<and> walk_pte P va s = ea g (ix 12 va)))"
  proof (cases "bit (ent (xm_mem s) f a) 0")
    case False
    have n1: "\<And>g. R g \<noteq> Some (P, [a])" using user_step(2) [OF t P(1) _ ad(1) P(2) False] by simp
    have n2: "\<And>g. R g \<noteq> Some (P, [a, b])" using no_table_without_parent [OF t n1] by simp
    have n3: "\<And>g. R g \<noteq> Some (P, [a, b, c])" using no_table_without_parent [OF t n2] by simp
    show ?thesis using none [OF n3] False by (simp add: w Let_def)
  next
    case p1: True
    obtain f1 where f1: "ent (xm_mem s) f a AND XPT_ADDR_MASK = fa f1" "R f1 = Some (P, [a])"
      using user_step(3) [OF t P(1) _ ad(1) P(2) p1] by auto
    show ?thesis
    proof (cases "bit (ent (xm_mem s) f1 b) 0")
      case False
      have n2: "\<And>g. R g \<noteq> Some (P, [a, b])" using user_step(2) [OF t f1(2) _ ad(2) P(2) False] by simp
      have n3: "\<And>g. R g \<noteq> Some (P, [a, b, c])" using no_table_without_parent [OF t n2] by simp
      show ?thesis using none [OF n3] False p1 f1(1) by (simp add: w Let_def tbl_get_ent)
    next
      case p2: True
      obtain f2 where f2: "ent (xm_mem s) f1 b AND XPT_ADDR_MASK = fa f2" "R f2 = Some (P, [a, b])"
        using user_step(3) [OF t f1(2) _ ad(2) P(2) p2] by auto
      show ?thesis
      proof (cases "bit (ent (xm_mem s) f2 c) 0")
        case False
        have n3: "\<And>g. R g \<noteq> Some (P, [a, b, c])" using user_step(2) [OF t f2(2) _ ad(3) P(2) False] by simp
        show ?thesis using none [OF n3] False p1 p2 f1(1) f2(1) by (simp add: w Let_def tbl_get_ent)
      next
        case p3: True
        obtain f3 where f3: "ent (xm_mem s) f2 c AND XPT_ADDR_MASK = fa f3" "R f3 = Some (P, [a, b, c])" "\<not> bit (ent (xm_mem s) f2 c) 7"
          using user_step(3) [OF t f2(2) _ ad(3) P(2) p3] by auto
        have b3: "0 < f3" "f3 < 33554432" using d(1) d(2) [OF f3(2)] by linarith+
        have e: "walk_pte P va s = ea f3 (ix 12 va)"
          using p1 p2 p3 f1(1) f2(1) f3(1,3) by (simp add: w Let_def tbl_get_ent tbl_at_ea)
        have "ea f3 (ix 12 va) \<noteq> 0" using entry_addr [OF b3(2), of "ix 12 va"] b3(1) by auto
        then show ?thesis using e f3(2) by auto
      qed
    qed
  qed
  then show "walk_pte P va s = 0 \<Longrightarrow> M (P, path4 va) = None"
    "walk_pte P va s \<noteq> 0 \<Longrightarrow> \<exists>g. R g = Some (P, [ix 39 va, ix 30 va, ix 21 va]) \<and> walk_pte P va s = ea g (ix 12 va)"
    unfolding abc by auto
qed

end
