(* ===== verification/Paging_Map.thy ===== *)
theory Paging_Map
  imports Paging_Tree
begin

text \<open>
  The effect of the page operations on the abstract leaf map: \<open>map_page\<close> adds one leaf or reports why
  not, \<open>unmap_page\<close> removes one, and the loops over the pages of a token do so for a whole range.
\<close>

lemma user_fl: "P \<noteq> K \<Longrightarrow> XPT_UPPER = fl K P"
  by (simp add: fl_def)

lemma grown_store:
  assumes g: "grown R s R' s1" and f: "R' f = Some r" "f < 33554432" "i < 512"
  shows "grown R s R' (s1\<lparr>xm_mem := store64 (xm_mem s1) (ea f i) v\<rparr>)"
proof -
  have "store64 (xm_mem s1) (ea f i) v x = xm_mem s1 x" if "unat x div 4096 \<notin> dom R'" for x
    by (rule store_outside [OF f(2,3)]) (use that f(1) in auto)
  then show ?thesis using g by (auto simp: grown_def)
qed

lemma trees_leaf:
  assumes t: "trees K R M s" and f: "R f = Some (P, p)" "adm K P p i" and lv: "length p = 3 \<or> length p = 2 \<and> P = K"
    and old: "\<not> bit (ent (xm_mem s) f i) 0 \<or> is_leaf p (ent (xm_mem s) f i)" and new: "\<not> bit v 0 \<or> is_leaf p v"
  shows "trees K R (M((P, p @ [i]) := if bit v 0 then Some v else None)) (s\<lparr>xm_mem := store64 (xm_mem s) (ea f i) v\<rparr>)"
proof -
  have tr: "tree K R M (xm_mem s) (unat (pb_total (xm_phys s)))" using t by (simp add: trees_def)
  note d = treeD [OF tr]
  have b: "f < 33554432" "i < 512" using d(1) d(2) [OF f(1)] f(2) by (auto simp: adm_def)
  have "ent (store64 (xm_mem s) (ea f i) v) h j = (if h = f \<and> j = i then v else ent (xm_mem s) h j)"
    if "h < unat (pb_total (xm_phys s))" "j < 512" for h j
    by (rule ent_store [OF b _ that(2)]) (use that(1) d(1) in linarith)
  from tree_leaf [OF tr f lv old new this] t show ?thesis by (simp add: trees_def)
qed

text \<open>How many tables an operation adds: one level adds at most one, and the counts add up.\<close>

definition fresh_tables :: "roles \<Rightarrow> roles \<Rightarrow> nat" where
  "fresh_tables R R' = card (dom R' - dom R)"

lemma finite_roles: "tree K R M m tot \<Longrightarrow> finite (dom R)"
  by (rule finite_subset [of _ "{..<tot}"]) (auto dest: treeD(2))

lemma fresh_tables_refl [simp]: "fresh_tables R R = 0"
  by (simp add: fresh_tables_def)

lemma fresh_tables_one:
  assumes t: "trees K R' M s'" and r: "\<forall>h r. R' h = Some r \<longrightarrow> R h = Some r \<or> r = (P, p)"
  shows "fresh_tables R R' \<le> 1"
proof -
  have tr: "tree K R' M (xm_mem s') (unat (pb_total (xm_phys s')))" using t by (simp add: trees_def)
  have "\<exists>g. dom R' - dom R \<subseteq> {g}"
  proof (cases "dom R' - dom R = {}")
    case False
    then obtain g where g: "g \<in> dom R'" "g \<notin> dom R" by blast
    have "h = g" if "h \<in> dom R'" "h \<notin> dom R" for h
    proof -
      have "R' h = Some (P, p)" "R' g = Some (P, p)" using r that g by (metis domIff option.exhaust)+
      then show ?thesis by (rule role_unique [OF tr])
    qed
    then show ?thesis by blast
  next
    case True
    then show ?thesis by blast
  qed
  then obtain g where "dom R' - dom R \<subseteq> {g}" by blast
  then have "card (dom R' - dom R) \<le> card {g}" by (intro card_mono) simp_all
  then show ?thesis by (simp add: fresh_tables_def)
qed

lemma fresh_tables_trans:
  assumes "trees K R2 M s2" "grown R s R1 s1" "grown R1 s1 R2 s2" "fresh_tables R R1 \<le> a" "fresh_tables R1 R2 \<le> b"
  shows "fresh_tables R R2 \<le> a + b"
proof -
  have f: "finite (dom R2)" using assms(1) finite_roles by (auto simp: trees_def)
  have le: "dom R \<subseteq> dom R1" "dom R1 \<subseteq> dom R2" using assms(2,3) by (auto simp: grown_def dest: map_le_implies_dom_le)
  have "dom R2 - dom R \<subseteq> (dom R1 - dom R) \<union> (dom R2 - dom R1)" by blast
  then have "card (dom R2 - dom R) \<le> card ((dom R1 - dom R) \<union> (dom R2 - dom R1))" using f le by (intro card_mono) (auto intro: finite_subset)
  also have "\<dots> \<le> card (dom R1 - dom R) + card (dom R2 - dom R1)" by (rule card_Un_le)
  finally show ?thesis using assms(4,5) by (simp add: fresh_tables_def)
qed

lemma map_page_spec:
  assumes t: "trees K R M s" and P: "R f = Some (P, [])" "P \<noteq> K" and va: "user_va va" and leaf: "bit leaf 0"
    and mp: "map_page P va pa leaf s = (r, s')"
  shows "\<exists>R'. grown R s R' s' \<and> fresh_tables R R' \<le> 3 \<and>
    (if r = XAS_OK then M (P, path4 va) = None \<and> trees K R' (M((P, path4 va) \<mapsto> (pa AND XPT_ADDR_MASK) OR leaf)) s'
     else trees K R' M s' \<and> (r = XAS_ERR_BUSY \<and> M (P, path4 va) \<noteq> None \<or> r = XAS_ERR_NOMEM \<and> ffree (xm_phys s') = {}))"
proof -
  define a b c e where abc: "a = ix 39 va" "b = ix 30 va" "c = ix 21 va" "e = ix 12 va"
  have path: "path4 va = [a, b, c] @ [e]" by (simp add: path4_def abc)
  have ad: "adm K P [] a" "adm K P [a] b" "adm K P [a, b] c" "adm K P [a, b, c] e"
    using user_va_ix [OF va] P(2) by (auto simp: adm_def abc)
  have Pf: "P = fa f" using tree3 P(1) t by (auto simp: trees_def)
  have sh: "\<And>p R. P \<noteq> K \<or> p \<noteq> [] \<or> (\<forall>h Q. R h = Some (Q, []) \<longrightarrow> Q = K)" using P(2) by simp
  have nl: "\<not> is_leaf p (ent (xm_mem z) h i)" if "trees K Q M z" "Q h = Some (P, p)" "length p < 3" "adm K P p i"
    for Q z h p i
  proof -
    have "tree K Q M (xm_mem z) (unat (pb_total (xm_phys z)))" using that(1) by (simp add: trees_def)
    from user_step(1) [OF this that(2-4) P(2)] show ?thesis .
  qed
  have l: "length ([] :: nat list) < 3" "length [a] < 3" "length [a, b] < 3" by simp_all
  note mpd = mp [unfolded map_page_def ix_word user_fl [OF P(2)] abc [symmetric]]
  obtain t1 s1 where n1: "next_level P (of_nat a) (fl K P) s = (t1, s1)" by fastforce
  then have n1': "next_level (fa f) (of_nat a) (fl K P) s = (t1, s1)" using Pf by simp
  note x1 = next_level_spec [OF t P(1) l(1) ad(1) nl [OF t P(1) l(1) ad(1)] sh n1']
  show ?thesis
  proof (cases "t1 = 0")
    case True
    then have "r = XAS_ERR_NOMEM" "s' = s" "ffree (xm_phys s) = {}" using mpd n1 x1(1) n1 Pf by auto
    then show ?thesis using t by (auto intro!: exI [of _ R])
  next
    case z1: False
    obtain f1 R1 where f1: "t1 = fa f1" "R1 f1 = Some (P, [a])" "trees K R1 M s1" "grown R s R1 s1"
      and c1: "\<forall>h r. R1 h = Some r \<longrightarrow> R h = Some r \<or> r = (P, [a])"
      using x1(2) z1 by auto
    have c1: "fresh_tables R R1 \<le> 1" by (rule fresh_tables_one [OF f1(3) c1])
    obtain t2 s2 where n2: "next_level t1 (of_nat b) (fl K P) s1 = (t2, s2)" by fastforce
    note x2 = next_level_spec [OF f1(3,2) l(2) ad(2) nl [OF f1(3,2) l(2) ad(2)] sh n2 [unfolded f1(1)]]
    show ?thesis
    proof (cases "t2 = 0")
      case True
      then have "r = XAS_ERR_NOMEM" "s' = s1" "ffree (xm_phys s1) = {}" using mpd n1 n2 z1 x2(1) by auto
      then show ?thesis using f1 c1 by (auto intro!: exI [of _ R1])
    next
      case z2: False
      obtain f2 R2 where f2: "t2 = fa f2" "R2 f2 = Some (P, [a, b])" "trees K R2 M s2" "grown R1 s1 R2 s2"
        and c2: "\<forall>h r. R2 h = Some r \<longrightarrow> R1 h = Some r \<or> r = (P, [a, b])"
        using x2(2) z2 by auto
      have g2: "grown R s R2 s2" by (rule grown_trans [OF f1(4) f2(4)])
      have c2: "fresh_tables R R2 \<le> 1 + 1" by (rule fresh_tables_trans [OF f2(3) f1(4) f2(4) c1 fresh_tables_one [OF f2(3) c2]])
      obtain t3 s3 where n3: "next_level t2 (of_nat c) (fl K P) s2 = (t3, s3)" by fastforce
      note x3 = next_level_spec [OF f2(3,2) l(3) ad(3) nl [OF f2(3,2) l(3) ad(3)] sh n3 [unfolded f2(1)]]
      show ?thesis
      proof (cases "t3 = 0")
        case True
        then have "r = XAS_ERR_NOMEM" "s' = s2" "ffree (xm_phys s2) = {}" using mpd n1 n2 n3 z1 z2 x3(1) by auto
        then show ?thesis using f2 g2 c2 by (auto intro!: exI [of _ R2])
      next
        case z3: False
        obtain f3 R3 where f3: "t3 = fa f3" "R3 f3 = Some (P, [a, b, c])" "trees K R3 M s3" "grown R2 s2 R3 s3"
          and c3: "\<forall>h r. R3 h = Some r \<longrightarrow> R2 h = Some r \<or> r = (P, [a, b, c])"
          using x3(2) z3 by auto
        have g3: "grown R s R3 s3" by (rule grown_trans [OF g2 f3(4)])
        have c3: "fresh_tables R R3 \<le> 1 + 1 + 1" by (rule fresh_tables_trans [OF f3(3) g2 f3(4) c2 fresh_tables_one [OF f3(3) c3]])
        have tr3: "tree K R3 M (xm_mem s3) (unat (pb_total (xm_phys s3)))" using f3(3) by (simp add: trees_def)
        note d = treeD [OF tr3]
        have fb: "f3 < 33554432" "e < 512" using d(1) d(2) [OF f3(2)] by (auto simp: abc)
        have ae: "adm K P [a, b, c] e" by (rule ad(4))
        have lf: "is_leaf [a, b, c] w \<longleftrightarrow> bit w 0" for w by (simp add: is_leaf_def)
        show ?thesis
        proof (cases "bit (ent (xm_mem s3) f3 e) 0")
          case True
          then have "M (P, path4 va) = Some (ent (xm_mem s3) f3 e)" unfolding path d(6) using f3(2) ae lf by blast
          moreover have "r = XAS_ERR_BUSY" "s' = s3"
            using mpd n1 n2 n3 z1 z2 z3 True by (auto simp: f3(1) tbl_get_ent present_iff)
          ultimately show ?thesis using f3(3) g3 c3 by (auto intro!: exI [of _ R3])
        next
          case False
          let ?v = "(pa AND XPT_ADDR_MASK) OR leaf"
          have s': "r = XAS_OK" "s' = s3\<lparr>xm_mem := store64 (xm_mem s3) (ea f3 e) ?v\<rparr>"
            using mpd n1 n2 n3 z1 z2 z3 False by (auto simp: f3(1) tbl_get_ent present_iff tbl_set_mem)
          have v: "bit ?v 0" using leaf by (simp add: bit_or_iff)
          have "M (P, path4 va) = None"
          proof (rule ccontr)
            assume "M (P, path4 va) \<noteq> None"
            then obtain w where "M (P, [a, b, c] @ [e]) = Some w" unfolding path by blast
            then obtain h where h: "R3 h = Some (P, [a, b, c])" "w = ent (xm_mem s3) h e" "bit w 0" unfolding d(6) lf by blast
            have "h = f3" by (rule role_unique [OF tr3 h(1) f3(2)])
            then show False using h False by simp
          qed
          moreover have "trees K R3 (M((P, path4 va) \<mapsto> ?v)) s'"
            using trees_leaf [OF f3(3,2) ae, of ?v] False v by (simp add: s'(2) path lf)
          moreover have "grown R s R3 s'" unfolding s'(2) by (rule grown_store [OF g3 f3(2) fb])
          ultimately show ?thesis using s'(1) c3 by auto
        qed
      qed
    qed
  qed
qed

section \<open>Unmapping\<close>

text \<open>What unmapping may change: table memory, and the list of invalidated addresses, which grows.\<close>

definition flushed :: "roles \<Rightarrow> 'a Paging_scheme \<Rightarrow> u64 set \<Rightarrow> 'a Paging_scheme \<Rightarrow> bool" where
  "flushed R s V s' \<longleftrightarrow> (\<exists>m c. s' = s\<lparr>xm_mem := m, pt_cpu := c\<rparr> \<and> (\<forall>x. unat x div 4096 \<notin> dom R \<longrightarrow> m x = xm_mem s x) \<and>
     set (cpu_invlpg (pt_cpu s)) \<union> V \<subseteq> set (cpu_invlpg c) \<and>
     c\<lparr>cpu_invlpg := []\<rparr> = (pt_cpu s)\<lparr>cpu_invlpg := []\<rparr>)"

lemma flushed_refl: "flushed R s {} s"
  unfolding flushed_def by (intro exI [of _ "xm_mem s"] exI [of _ "pt_cpu s"]) simp

lemma flushed_trans:
  assumes "flushed R s V s1" "flushed R s1 W s2"
  shows "flushed R s (V \<union> W) s2"
proof -
  obtain m c where a: "s1 = s\<lparr>xm_mem := m, pt_cpu := c\<rparr>" "\<forall>x. unat x div 4096 \<notin> dom R \<longrightarrow> m x = xm_mem s x"
    "set (cpu_invlpg (pt_cpu s)) \<union> V \<subseteq> set (cpu_invlpg c)" "c\<lparr>cpu_invlpg := []\<rparr> = (pt_cpu s)\<lparr>cpu_invlpg := []\<rparr>"
    using assms(1) by (auto simp: flushed_def)
  obtain m' c' where b: "s2 = s1\<lparr>xm_mem := m', pt_cpu := c'\<rparr>" "\<forall>x. unat x div 4096 \<notin> dom R \<longrightarrow> m' x = xm_mem s1 x"
    "set (cpu_invlpg (pt_cpu s1)) \<union> W \<subseteq> set (cpu_invlpg c')" "c'\<lparr>cpu_invlpg := []\<rparr> = (pt_cpu s1)\<lparr>cpu_invlpg := []\<rparr>"
    using assms(2) by (auto simp: flushed_def)
  have "s2 = s\<lparr>xm_mem := m', pt_cpu := c'\<rparr>" using a(1) b(1) by simp
  moreover have "\<forall>x. unat x div 4096 \<notin> dom R \<longrightarrow> m' x = xm_mem s x" using a(1,2) b(2) by simp
  moreover have "set (cpu_invlpg (pt_cpu s)) \<union> (V \<union> W) \<subseteq> set (cpu_invlpg c')" using a(1,3) b(3) by auto
  moreover have "c'\<lparr>cpu_invlpg := []\<rparr> = (pt_cpu s)\<lparr>cpu_invlpg := []\<rparr>" using a(1,4) b(4) by simp
  ultimately show ?thesis unfolding flushed_def by blast
qed

lemma unmap_page_spec:
  assumes t: "trees K R M s" and P: "R f = Some (P, [])" "P \<noteq> K" and va: "user_va va"
  shows "trees K R (M((P, path4 va) := None)) (unmap_page P va s)"
    "flushed R s (if M (P, path4 va) = None then {} else {va}) (unmap_page P va s)"
proof -
  have tr: "tree K R M (xm_mem s) (unat (pb_total (xm_phys s)))" using t by (simp add: trees_def)
  note d = treeD [OF tr] and w = walk_pte_spec [OF tr P va]
  have "trees K R (M((P, path4 va) := None)) (unmap_page P va s) \<and>
    flushed R s (if M (P, path4 va) = None then {} else {va}) (unmap_page P va s)"
  proof (cases "walk_pte P va s = 0")
    case True
    then have "M (P, path4 va) = None" "unmap_page P va s = s" using w(1) by (simp_all add: unmap_page_def)
    then show ?thesis using t flushed_refl by (simp add: fun_upd_idem)
  next
    case False
    obtain g where g: "R g = Some (P, [ix 39 va, ix 30 va, ix 21 va])" "walk_pte P va s = ea g (ix 12 va)" using w(2) [OF False] by blast
    let ?p = "[ix 39 va, ix 30 va, ix 21 va]" and ?e = "ent (xm_mem s) g (ix 12 va)"
    have gb: "g < 33554432" using d(1) d(2) [OF g(1)] by linarith
    have path: "path4 va = ?p @ [ix 12 va]" by (simp add: path4_def)
    have ad: "adm K P ?p (ix 12 va)" by (simp add: adm_def)
    have lf: "is_leaf ?p v \<longleftrightarrow> bit v 0" for v by (simp add: is_leaf_def)
    show ?thesis
    proof (cases "bit ?e 0")
      case True
      have u: "unmap_page P va s = invlpg va (s\<lparr>xm_mem := store64 (xm_mem s) (ea g (ix 12 va)) 0\<rparr>)"
        using False True by (simp add: unmap_page_def g(2) Let_def present_iff ent_def)
      have "trees K R (M((P, path4 va) := None)) (s\<lparr>xm_mem := store64 (xm_mem s) (ea g (ix 12 va)) 0\<rparr>)"
        using trees_leaf [OF t g(1) ad, of 0] True by (simp add: lf path)
      then have "trees K R (M((P, path4 va) := None)) (unmap_page P va s)"
        by (simp add: u invlpg_def cpu_update_def trees_def)
      moreover have "flushed R s {va} (unmap_page P va s)"
      proof -
        have "store64 (xm_mem s) (ea g (ix 12 va)) 0 x = xm_mem s x" if "unat x div 4096 \<notin> dom R" for x
          by (rule store_outside [OF gb]) (use that g(1) in auto)
        then show ?thesis unfolding flushed_def u
          by (intro exI [of _ "store64 (xm_mem s) (ea g (ix 12 va)) 0"]
              exI [of _ "(pt_cpu s)\<lparr>cpu_invlpg := va # cpu_invlpg (pt_cpu s)\<rparr>"]) (auto simp: invlpg_def cpu_update_def)
      qed
      moreover have "M (P, path4 va) = Some ?e" unfolding path d(6) using g(1) ad True lf by blast
      ultimately show ?thesis by simp
    next
      case nb: False
      have "unmap_page P va s = s" using nb by (simp add: unmap_page_def g(2) Let_def present_iff ent_def)
      moreover have "M (P, path4 va) = None"
      proof (rule ccontr)
        assume "M (P, path4 va) \<noteq> None"
        then obtain v where "M (P, ?p @ [ix 12 va]) = Some v" unfolding path by blast
        then obtain h where h: "R h = Some (P, ?p)" "v = ent (xm_mem s) h (ix 12 va)" "bit v 0" unfolding d(6) lf by blast
        have "h = g" by (rule role_unique [OF tr h(1) g(1)])
        then show False using h nb by simp
      qed
      ultimately show ?thesis using t flushed_refl by (simp add: fun_upd_idem)
    qed
  qed
  then show "trees K R (M((P, path4 va) := None)) (unmap_page P va s)"
    "flushed R s (if M (P, path4 va) = None then {} else {va}) (unmap_page P va s)" by auto
qed

section \<open>Ranges of pages\<close>

definition page :: "u64 \<Rightarrow> nat \<Rightarrow> u64" where
  "page virt i = virt + of_nat i * XERET_FRAME_SIZE"

definition pkeys :: "u64 \<Rightarrow> u64 \<Rightarrow> nat \<Rightarrow> (u64 \<times> nat list) set" where
  "pkeys P virt n = (\<lambda>i. (P, path4 (page virt i))) ` {..<n}"

lemma pkeys_0 [simp]: "pkeys P virt 0 = {}"
  by (simp add: pkeys_def)

lemma pkeys_Suc: "pkeys P virt (Suc n) = insert (P, path4 (page virt n)) (pkeys P virt n)"
  by (simp add: pkeys_def lessThan_Suc)

text \<open>A range inside user space.\<close>

definition user_range :: "u64 \<Rightarrow> nat \<Rightarrow> bool" where
  "user_range virt n \<longleftrightarrow> user_va virt \<and> unat virt mod 4096 = 0 \<and> unat virt + n * 4096 \<le> 140737488355328"

lemma user_range_page:
  assumes "user_range virt n" "i < n"
  shows "user_va (page virt i)" "unat (page virt i) = unat virt + i * 4096"
proof -
  have b: "unat virt mod 4096 = 0" "unat virt + n * 4096 \<le> 281474976710656" using assms(1) by (auto simp: user_range_def)
  show u: "unat (page virt i) = unat virt + i * 4096" unfolding page_def by (rule page_addr(1) [OF b assms(2)])
  have "i * 4096 + 4096 \<le> n * 4096" using assms(2) by linarith
  then show "user_va (page virt i)"
    using assms u by (auto simp: user_range_def user_va_def word_le_nat_alt word_less_nat_alt)
qed

lemma user_range_inj:
  assumes "user_range v n" "i < n" "user_range w k" "j < k" "path4 (page v i) = path4 (page w j)"
  shows "unat v + i * 4096 = unat w + j * 4096"
proof -
  note a = user_range_page [OF assms(1,2)] and b = user_range_page [OF assms(3,4)]
  have "unat (page v i) < 281474976710656" "unat (page w j) < 281474976710656"
    using a(1) b(1) by (auto simp: user_va_def word_less_nat_alt)
  from path4_inj [OF assms(5) this] have "(unat v + i * 4096) div 4096 = (unat w + j * 4096) div 4096" using a(2) b(2) by simp
  moreover have "unat v mod 4096 = 0" "unat w mod 4096 = 0" using assms by (auto simp: user_range_def)
  ultimately show ?thesis by (metis mod_mult_self1 div_mult_mod_eq)
qed

lemma unmap_pages_spec:
  assumes t: "trees K R M s" and P: "R f = Some (P, [])" "P \<noteq> K" and va: "user_range virt n"
  shows "trees K R (M |` (- pkeys P virt n)) (unmap_pages P virt n s)"
    "flushed R s {page virt i |i. i < n \<and> M (P, path4 (page virt i)) \<noteq> None} (unmap_pages P virt n s)"
proof -
  have "trees K R (M |` (- pkeys P virt k)) (unmap_pages P virt k s) \<and>
    flushed R s {page virt i |i. i < k \<and> M (P, path4 (page virt i)) \<noteq> None} (unmap_pages P virt k s)" if "k \<le> n" for k
    using that
  proof (induction k)
    case 0
    have "M |` (- pkeys P virt 0) = M" by (auto simp: restrict_map_def)
    then show ?case using t flushed_refl by (simp add: unmap_pages_def)
  next
    case (Suc k)
    let ?s = "unmap_pages P virt k s" and ?M = "M |` (- pkeys P virt k)"
    have ih: "trees K R ?M ?s" "flushed R s {page virt i |i. i < k \<and> M (P, path4 (page virt i)) \<noteq> None} ?s" using Suc by simp_all
    have uk: "user_va (page virt k)" using user_range_page(1) [OF va, of k] Suc.prems by simp
    have e: "unmap_pages P virt (Suc k) s = unmap_page P (page virt k) ?s" by (simp add: unmap_pages_def page_def)
    note u = unmap_page_spec [OF ih(1) P uk]
    have m: "?M((P, path4 (page virt k)) := None) = M |` (- pkeys P virt (Suc k))"
      by (auto simp: restrict_map_def pkeys_Suc fun_eq_iff)
    have nk: "(P, path4 (page virt k)) \<notin> pkeys P virt k"
    proof
      assume "(P, path4 (page virt k)) \<in> pkeys P virt k"
      then obtain i where "i < k" "path4 (page virt k) = path4 (page virt i)" by (auto simp: pkeys_def)
      then show False using user_range_inj [OF va, of k virt n i] va Suc.prems by simp
    qed
    then have mk: "?M (P, path4 (page virt k)) = M (P, path4 (page virt k))" by (simp add: restrict_map_def)
    have "{page virt i |i. i < k \<and> M (P, path4 (page virt i)) \<noteq> None} \<union>
        (if ?M (P, path4 (page virt k)) = None then {} else {page virt k}) =
        {page virt i |i. i < Suc k \<and> M (P, path4 (page virt i)) \<noteq> None}"
      unfolding mk by (auto simp: less_Suc_eq)
    with flushed_trans [OF ih(2) u(2)] u(1) m show ?case unfolding e by simp
  qed
  then show "trees K R (M |` (- pkeys P virt n)) (unmap_pages P virt n s)"
    "flushed R s {page virt i |i. i < n \<and> M (P, path4 (page virt i)) \<noteq> None} (unmap_pages P virt n s)" by auto
qed

text \<open>The leaves that mapping \<open>n\<close> pages of a token makes.\<close>

definition pleaves :: "u64 \<Rightarrow> u64 \<Rightarrow> u64 \<Rightarrow> u64 \<Rightarrow> nat \<Rightarrow> leaves" where
  "pleaves P virt phys leaf n =
     fold (\<lambda>i L. L((P, path4 (page virt i)) \<mapsto> (page phys i AND XPT_ADDR_MASK) OR leaf)) [0..<n] Map.empty"

lemma pleaves_0 [simp]: "pleaves P virt phys leaf 0 = Map.empty"
  by (simp add: pleaves_def)

lemma pleaves_Suc: "pleaves P virt phys leaf (Suc n) =
  (pleaves P virt phys leaf n)((P, path4 (page virt n)) \<mapsto> (page phys n AND XPT_ADDR_MASK) OR leaf)"
  by (simp add: pleaves_def)

lemma dom_pleaves: "dom (pleaves P virt phys leaf n) = pkeys P virt n"
  by (induction n) (simp, simp only: pleaves_Suc pkeys_Suc dom_fun_upd option.simps if_False)

lemma pleaves_at:
  assumes "user_range virt n" "i < n"
  shows "pleaves P virt phys leaf n (P, path4 (page virt i)) = Some ((page phys i AND XPT_ADDR_MASK) OR leaf)"
proof -
  have "i < k \<Longrightarrow> k \<le> n \<Longrightarrow> pleaves P virt phys leaf k (P, path4 (page virt i)) = Some ((page phys i AND XPT_ADDR_MASK) OR leaf)" for k
  proof (induction k)
    case (Suc k)
    show ?case
    proof (cases "i = k")
      case True
      then show ?thesis by (simp add: pleaves_Suc)
    next
      case False
      then have "path4 (page virt i) \<noteq> path4 (page virt k)"
        using user_range_inj [OF assms(1) assms(2) assms(1), of k] Suc.prems by auto
      then show ?thesis using Suc False by (simp add: pleaves_Suc)
    qed
  qed simp
  then show ?thesis using assms(2) by simp
qed

lemma pleaves_None: "Q \<noteq> P \<Longrightarrow> pleaves P virt phys leaf n (Q, q) = None"
  using dom_pleaves [of P virt phys leaf n] by (auto simp: pkeys_def)

lemma map_loop_spec:
  assumes "trees K R (M ++ pleaves P virt phys leaf j) s" and "R f = Some (P, [])" "P \<noteq> K" and "user_range virt n"
    and "bit leaf 0" and "j \<le> n" and "dom M \<inter> pkeys P virt j = {}"
    and "map_loop P virt phys leaf [j..<n] s = (res, s')"
  shows "\<exists>R' k. grown R s R' s' \<and> fresh_tables R R' \<le> 3 * (n - j) \<and> j \<le> k \<and> k \<le> n \<and> trees K R' (M ++ pleaves P virt phys leaf k) s' \<and> dom M \<inter> pkeys P virt k = {} \<and>
    (case res of None \<Rightarrow> k = n
     | Some (r, i) \<Rightarrow> i = k \<and> k < n \<and> (r = XAS_ERR_BUSY \<and> M (P, path4 (page virt k)) \<noteq> None \<or> r = XAS_ERR_NOMEM \<and> ffree (xm_phys s') = {}))"
  using assms
proof (induction "n - j" arbitrary: j R s)
  case 0
  then have "j = n" by simp
  then show ?case using 0 by (auto intro!: exI [of _ R] exI [of _ n])
next
  case (Suc m)
  have jn: "j < n" using Suc.hyps(2) by simp
  then have up: "[j..<n] = j # [Suc j..<n]" by (simp add: upt_conv_Cons)
  have uj: "user_va (page virt j)" by (rule user_range_page(1) [OF Suc.prems(4) jn])
  obtain r s1 where mp: "map_page P (page virt j) (page phys j) leaf s = (r, s1)" by fastforce
  obtain R1 where c1: "fresh_tables R R1 \<le> 3" and R1: "grown R s R1 s1"
    "if r = XAS_OK then (M ++ pleaves P virt phys leaf j) (P, path4 (page virt j)) = None \<and>
        trees K R1 ((M ++ pleaves P virt phys leaf j)((P, path4 (page virt j)) \<mapsto> (page phys j AND XPT_ADDR_MASK) OR leaf)) s1
     else trees K R1 (M ++ pleaves P virt phys leaf j) s1 \<and>
       (r = XAS_ERR_BUSY \<and> (M ++ pleaves P virt phys leaf j) (P, path4 (page virt j)) \<noteq> None \<or> r = XAS_ERR_NOMEM \<and> ffree (xm_phys s1) = {})"
    using map_page_spec [OF Suc.prems(1-3) uj Suc.prems(5) mp] by blast
  have nj: "(P, path4 (page virt j)) \<notin> pkeys P virt j"
  proof
    assume "(P, path4 (page virt j)) \<in> pkeys P virt j"
    then obtain i where "i < j" "path4 (page virt j) = path4 (page virt i)" by (auto simp: pkeys_def)
    then show False using user_range_inj [OF Suc.prems(4) jn Suc.prems(4), of i] jn by simp
  qed
  then have mj: "(M ++ pleaves P virt phys leaf j) (P, path4 (page virt j)) = M (P, path4 (page virt j))"
    using dom_pleaves [of P virt phys leaf j] by (simp add: map_add_dom_app_simps(3))
  have lp: "map_loop P virt phys leaf [j..<n] s =
      (if r \<noteq> XAS_OK then (Some (r, j), s1) else map_loop P virt phys leaf [Suc j..<n] s1)"
    unfolding up using mp by (simp add: page_def)
  show ?case
  proof (cases "r = XAS_OK")
    case False
    then have "res = Some (r, j)" "s' = s1" using Suc.prems(8) lp by auto
    then show ?thesis using R1 False jn mj Suc.prems(7) c1
      by (intro exI [of _ R1] exI [of _ j]) auto
  next
    case True
    then have l2: "map_loop P virt phys leaf [Suc j..<n] s1 = (res, s')" using Suc.prems(8) lp by simp
    have "(M ++ pleaves P virt phys leaf j)((P, path4 (page virt j)) \<mapsto> (page phys j AND XPT_ADDR_MASK) OR leaf) =
        M ++ pleaves P virt phys leaf (Suc j)" by (simp add: pleaves_Suc)
    then have t1: "trees K R1 (M ++ pleaves P virt phys leaf (Suc j)) s1" using R1(2) True by simp
    have d1: "dom M \<inter> pkeys P virt (Suc j) = {}" using Suc.prems(7) R1(2) True mj by (auto simp: pkeys_Suc)
    have rt: "R1 f = Some (P, [])" by (rule grown_role [OF R1(1) Suc.prems(2)])
    have mm: "m = n - Suc j" "Suc j \<le> n" using Suc.hyps(2) jn by auto
    obtain R' k where c2: "fresh_tables R1 R' \<le> 3 * (n - Suc j)" and k: "grown R1 s1 R' s'" "Suc j \<le> k" "k \<le> n" "trees K R' (M ++ pleaves P virt phys leaf k) s'" "dom M \<inter> pkeys P virt k = {}"
      "case res of None \<Rightarrow> k = n
       | Some (r, i) \<Rightarrow> i = k \<and> k < n \<and> (r = XAS_ERR_BUSY \<and> M (P, path4 (page virt k)) \<noteq> None \<or> r = XAS_ERR_NOMEM \<and> ffree (xm_phys s') = {})"
      using Suc.hyps(1) [OF mm(1) t1 rt Suc.prems(3,4,5) mm(2) d1 l2] by blast
    have "j \<le> k" using k(2) by simp
    moreover have "fresh_tables R R' \<le> 3 * (n - j)" using fresh_tables_trans [OF k(4) R1(1) k(1) c1 c2] mm Suc.hyps(2) by simp
    ultimately show ?thesis using grown_trans [OF R1(1) k(1)] k(3-6) by blast
  qed
qed

end
