(* ===== verification/Paging_Recs.thy ===== *)
theory Paging_Recs
  imports Paging_Map
begin

text \<open>
  The mapping records against the ledger and the leaves. \<open>recs\<close> says that every leaf of a user root
  belongs to exactly one live record, that a record's pages map the frames of its token with
  permissions the token's rights allow, and that a token's mapping count is the number of its live
  records. The lemmas show that each elementary change of the records keeps this.
\<close>

definition legal_perms :: "u32 \<Rightarrow> bool" where
  "legal_perms perms \<longleftrightarrow> perms \<noteq> 0 \<and> perms AND NOT (XPERM_R OR XPERM_W OR XPERM_X) = 0 \<and>
     \<not> (perms AND XPERM_W \<noteq> 0 \<and> perms AND XPERM_X \<noteq> 0)"

definition rkeys :: "MapRec \<Rightarrow> (u64 \<times> nat list) set" where
  "rkeys r = pkeys (mr_as_pml4 r) (mr_virt r) (unat (mr_pages r))"

definition rec_ok :: "(u64 \<rightharpoonup> u32) \<Rightarrow> leaves \<Rightarrow> (XToken \<rightharpoonup> XTokenEntry) \<Rightarrow> MapRec \<Rightarrow> bool" where
  "rec_ok sp M T r \<longleftrightarrow> sp (mr_as_pml4 r) = Some (mr_owner r) \<and> user_range (mr_virt r) (unat (mr_pages r)) \<and>
     (\<exists>e perms. T (mr_tok r) = Some e \<and> te_owner e = mr_owner r \<and> te_frames e = mr_pages r \<and> legal_perms perms \<and>
        te_rights e AND need_rights perms = need_rights perms \<and>
        (\<forall>i < unat (mr_pages r). M (mr_as_pml4 r, path4 (page (mr_virt r) i)) =
           Some ((page (te_phys e) i AND XPT_ADDR_MASK) OR leaf_flags perms)))"

definition tok_recs :: "MapRec list \<Rightarrow> XToken \<Rightarrow> nat set" where
  "tok_recs maps t = {k. k < 1024 \<and> mr_live (maps ! k) \<and> mr_tok (maps ! k) = t}"

definition recs :: "u64 \<Rightarrow> (u64 \<rightharpoonup> u32) \<Rightarrow> leaves \<Rightarrow> (XToken \<rightharpoonup> XTokenEntry) \<Rightarrow> MapRec list \<Rightarrow> bool" where
  "recs K sp M T maps \<longleftrightarrow> length maps = 1024 \<and>
     (\<forall>k < 1024. mr_live (maps ! k) \<longrightarrow> rec_ok sp M T (maps ! k)) \<and>
     (\<forall>P q. M (P, q) \<noteq> None \<longrightarrow> P \<noteq> K \<longrightarrow> (\<exists>k < 1024. mr_live (maps ! k) \<and> (P, q) \<in> rkeys (maps ! k))) \<and>
     (\<forall>k < 1024. \<forall>l < 1024. mr_live (maps ! k) \<longrightarrow> mr_live (maps ! l) \<longrightarrow> k \<noteq> l \<longrightarrow> rkeys (maps ! k) \<inter> rkeys (maps ! l) = {}) \<and>
     (\<forall>t e. T t = Some e \<longrightarrow> unat (te_map_count e) = card (tok_recs maps t))"

lemmas recs1 = recs_def [THEN iffD1, THEN conjunct1]
lemmas recs2 = recs_def [THEN iffD1, THEN conjunct2, THEN conjunct1, rule_format]
lemmas recs3 = recs_def [THEN iffD1, THEN conjunct2, THEN conjunct2, THEN conjunct1, rule_format]
lemmas recs4 = recs_def [THEN iffD1, THEN conjunct2, THEN conjunct2, THEN conjunct2, THEN conjunct1, rule_format]
lemmas recs5 = recs_def [THEN iffD1, THEN conjunct2, THEN conjunct2, THEN conjunct2, THEN conjunct2, rule_format]
lemmas recsD = recs1 recs2 recs3 recs4 recs5

lemma recsI:
  assumes "length maps = 1024"
    and "\<And>k. k < 1024 \<Longrightarrow> mr_live (maps ! k) \<Longrightarrow> rec_ok sp M T (maps ! k)"
    and "\<And>P q. M (P, q) \<noteq> None \<Longrightarrow> P \<noteq> K \<Longrightarrow> \<exists>k < 1024. mr_live (maps ! k) \<and> (P, q) \<in> rkeys (maps ! k)"
    and "\<And>k l. k < 1024 \<Longrightarrow> l < 1024 \<Longrightarrow> mr_live (maps ! k) \<Longrightarrow> mr_live (maps ! l) \<Longrightarrow> k \<noteq> l \<Longrightarrow>
      rkeys (maps ! k) \<inter> rkeys (maps ! l) = {}"
    and "\<And>t e. T t = Some e \<Longrightarrow> unat (te_map_count e) = card (tok_recs maps t)"
  shows "recs K sp M T maps"
  using assms unfolding recs_def by blast

lemma finite_tok_recs [simp]: "finite (tok_recs maps t)"
  by (simp add: tok_recs_def)

lemma card_tok_recs: "card (tok_recs maps t) \<le> 1024"
proof -
  have "card (tok_recs maps t) \<le> card {..<1024 :: nat}" by (intro card_mono) (auto simp: tok_recs_def)
  then show ?thesis by simp
qed

text \<open>A change that keeps every token a record can refer to, up to its mapping count.\<close>

lemma rec_ok_cong:
  assumes "rec_ok sp M T r" and "sp' (mr_as_pml4 r) = sp (mr_as_pml4 r)"
    and "\<And>key. key \<in> rkeys r \<Longrightarrow> M' key = M key"
    and "\<And>e. T (mr_tok r) = Some e \<Longrightarrow> \<exists>c. T' (mr_tok r) = Some (e\<lparr>te_map_count := c\<rparr>)"
  shows "rec_ok sp' M' T' r"
proof -
  obtain e perms where e: "T (mr_tok r) = Some e" "te_owner e = mr_owner r" "te_frames e = mr_pages r" "legal_perms perms"
    "te_rights e AND need_rights perms = need_rights perms"
    "\<And>i. i < unat (mr_pages r) \<Longrightarrow> M (mr_as_pml4 r, path4 (page (mr_virt r) i)) = Some ((page (te_phys e) i AND XPT_ADDR_MASK) OR leaf_flags perms)"
    using assms(1) by (auto simp: rec_ok_def)
  obtain c where c: "T' (mr_tok r) = Some (e\<lparr>te_map_count := c\<rparr>)" using assms(4) [OF e(1)] by blast
  have "M' (mr_as_pml4 r, path4 (page (mr_virt r) i)) = Some ((page (te_phys e) i AND XPT_ADDR_MASK) OR leaf_flags perms)"
    if "i < unat (mr_pages r)" for i
    using assms(3) [of "(mr_as_pml4 r, path4 (page (mr_virt r) i))"] e(6) [OF that] that by (auto simp: rkeys_def pkeys_def)
  then show ?thesis using assms(1,2) e c unfolding rec_ok_def
    by (intro conjI exI [of _ "e\<lparr>te_map_count := c\<rparr>"] exI [of _ perms]) auto
qed

lemma recs_tokens:
  assumes r: "recs K sp M T maps"
    and keep: "\<And>k e. k < 1024 \<Longrightarrow> mr_live (maps ! k) \<Longrightarrow> T (mr_tok (maps ! k)) = Some e \<Longrightarrow> T' (mr_tok (maps ! k)) = Some e"
    and cnt: "\<And>t e. T' t = Some e \<Longrightarrow> unat (te_map_count e) = card (tok_recs maps t)"
  shows "recs K sp M T' maps"
proof (rule recsI [OF recs1 [OF r] _ recs3 [OF r] recs4 [OF r] cnt])
  fix k assume k: "k < 1024" "mr_live (maps ! k)"
  show "rec_ok sp M T' (maps ! k)"
  proof (rule rec_ok_cong [OF recs2 [OF r k]])
    fix e assume "T (mr_tok (maps ! k)) = Some e"
    from keep [OF k this] show "\<exists>c. T' (mr_tok (maps ! k)) = Some (e\<lparr>te_map_count := c\<rparr>)"
      by (intro exI [of _ "te_map_count e"]) simp
  qed simp_all
qed auto

lemma recs_token_add:
  assumes r: "recs K sp M T maps" and t: "T t = None" "te_map_count e = 0"
  shows "recs K sp M (T(t \<mapsto> e)) maps"
proof (rule recs_tokens [OF r])
  have no: "tok_recs maps t = {}"
  proof (rule ccontr)
    assume "tok_recs maps t \<noteq> {}"
    then obtain k where k: "k < 1024" "mr_live (maps ! k)" "mr_tok (maps ! k) = t" by (auto simp: tok_recs_def)
    then show False using recs2 [OF r k(1,2)] t(1) by (auto simp: rec_ok_def)
  qed
  show "unat (te_map_count e') = card (tok_recs maps u)" if "(T(t \<mapsto> e)) u = Some e'" for u e'
    using that recs5 [OF r, of u e'] t(2) no by (cases "u = t") auto
qed (use t in auto)

lemma recs_token_del:
  assumes r: "recs K sp M T maps" and t: "T t = Some e" "te_map_count e = 0"
  shows "recs K sp M (T(t := None)) maps"
proof (rule recs_tokens [OF r])
  have "card (tok_recs maps t) = 0" using recs5 [OF r t(1)] t(2) by simp
  then have no: "tok_recs maps t = {}" by simp
  show "(T(t := None)) (mr_tok (maps ! k)) = Some e'" if "k < 1024" "mr_live (maps ! k)" "T (mr_tok (maps ! k)) = Some e'" for k e'
    using that no by (auto simp: tok_recs_def)
  show "unat (te_map_count e') = card (tok_recs maps u)" if "(T(t := None)) u = Some e'" for u e'
    using that recs5 [OF r, of u e'] by (auto split: if_splits)
qed

lemma tok_recs_drop:
  assumes "k < 1024" "length maps = 1024" "mr_live (maps ! k)"
  shows "tok_recs (maps[k := (maps ! k)\<lparr>mr_live := False\<rparr>]) t = tok_recs maps t - (if mr_tok (maps ! k) = t then {k} else {})"
  using assms by (auto simp: tok_recs_def nth_list_update split: if_splits)

lemma recs_drop:
  assumes r: "recs K sp M T maps" and k: "k < 1024" "mr_live (maps ! k)" and e: "T (mr_tok (maps ! k)) = Some e"
  shows "recs K sp (M |` (- rkeys (maps ! k))) (T(mr_tok (maps ! k) \<mapsto> e\<lparr>te_map_count := te_map_count e - 1\<rparr>))
    (maps[k := (maps ! k)\<lparr>mr_live := False\<rparr>])" "te_map_count e \<noteq> 0"
proof -
  note d = recsD [OF r]
  let ?maps = "maps[k := (maps ! k)\<lparr>mr_live := False\<rparr>]" and ?M = "M |` (- rkeys (maps ! k))"
    and ?T = "T(mr_tok (maps ! k) \<mapsto> e\<lparr>te_map_count := te_map_count e - 1\<rparr>)"
  have kt: "k \<in> tok_recs maps (mr_tok (maps ! k))" using k by (simp add: tok_recs_def)
  have cp: "0 < card (tok_recs maps (mr_tok (maps ! k)))" using kt by (auto simp: card_gt_0_iff)
  then show nz: "te_map_count e \<noteq> 0" using d(5) [OF e] by auto
  have other: "l \<noteq> k \<and> ?maps ! l = maps ! l" if "l < 1024" "mr_live (?maps ! l)" for l
    using that d(1) k(1) by (auto simp: nth_list_update split: if_splits)
  show "recs K sp ?M ?T ?maps"
  proof (rule recsI)
    show "length ?maps = 1024" using d(1) by simp
    show "rec_ok sp ?M ?T (?maps ! l)" if l: "l < 1024" "mr_live (?maps ! l)" for l
    proof -
      have o: "l \<noteq> k" "?maps ! l = maps ! l" using other [OF l] by auto
      then have ll: "mr_live (maps ! l)" using l(2) by simp
      show ?thesis unfolding o(2)
      proof (rule rec_ok_cong [OF d(2) [OF l(1) ll]])
        show "?M key = M key" if "key \<in> rkeys (maps ! l)" for key
          using d(4) [OF l(1) k(1) ll k(2) o(1)] that by (auto simp: restrict_map_def)
        show "\<exists>c. ?T (mr_tok (maps ! l)) = Some (e'\<lparr>te_map_count := c\<rparr>)" if "T (mr_tok (maps ! l)) = Some e'" for e'
        proof (cases "mr_tok (maps ! l) = mr_tok (maps ! k)")
          case True
          then have "e' = e" using that e by simp
          then show ?thesis using True by auto
        next
          case False
          then show ?thesis using that by (intro exI [of _ "te_map_count e'"]) simp
        qed
      qed simp
    qed
    show "\<exists>l < 1024. mr_live (?maps ! l) \<and> (P, q) \<in> rkeys (?maps ! l)" if m: "?M (P, q) \<noteq> None" "P \<noteq> K" for P q
    proof -
      have "M (P, q) \<noteq> None" and nk: "(P, q) \<notin> rkeys (maps ! k)" using m(1) by (auto simp: restrict_map_def split: if_splits)
      then obtain l where l: "l < 1024" "mr_live (maps ! l)" "(P, q) \<in> rkeys (maps ! l)" using d(3) m(2) by blast
      then have "l \<noteq> k" using nk by auto
      then show ?thesis using l by (intro exI [of _ l]) simp
    qed
    show "rkeys (?maps ! a) \<inter> rkeys (?maps ! b) = {}"
      if "a < 1024" "b < 1024" "mr_live (?maps ! a)" "mr_live (?maps ! b)" "a \<noteq> b" for a b
      using other [OF that(1,3)] other [OF that(2,4)] d(4) [OF that(1,2)] that(3-5) by simp
    show "unat (te_map_count e') = card (tok_recs ?maps u)" if u: "?T u = Some e'" for u e'
    proof (cases "u = mr_tok (maps ! k)")
      case True
      then have "e' = e\<lparr>te_map_count := te_map_count e - 1\<rparr>" using u by simp
      moreover have "tok_recs ?maps u = tok_recs maps u - {k}" using tok_recs_drop [OF k(1) d(1) k(2), of u] True by simp
      moreover have "unat (te_map_count e - 1) = unat (te_map_count e) - 1" using nz by (simp add: unat_minus_one)
      ultimately show ?thesis using d(5) [OF e] kt True by simp
    next
      case False
      then show ?thesis using u d(5) [of u e'] tok_recs_drop [OF k(1) d(1) k(2), of u] by simp
    qed
  qed
qed

lemma recs_add:
  assumes r: "recs K sp M T maps" and k: "k < 1024" "\<not> mr_live (maps ! k)" and n: "mr_live nr"
    and e: "T (mr_tok nr) = Some e"
    and ok: "rec_ok sp M' (T(mr_tok nr \<mapsto> e\<lparr>te_map_count := te_map_count e + 1\<rparr>)) nr"
    and M': "M' = M ++ L" "dom L = rkeys nr" "dom M \<inter> rkeys nr = {}"
  shows "recs K sp M' (T(mr_tok nr \<mapsto> e\<lparr>te_map_count := te_map_count e + 1\<rparr>)) (maps[k := nr])"
proof -
  note d = recsD [OF r]
  let ?maps = "maps[k := nr]" and ?T = "T(mr_tok nr \<mapsto> e\<lparr>te_map_count := te_map_count e + 1\<rparr>)"
  have kk: "?maps ! k = nr" using d(1) k(1) by simp
  have keys: "rkeys (maps ! l) \<subseteq> dom M" if "l < 1024" "mr_live (maps ! l)" for l
    using d(2) [OF that] by (auto simp: rkeys_def pkeys_def rec_ok_def)
  have dj: "rkeys (maps ! l) \<inter> rkeys nr = {}" if "l < 1024" "mr_live (maps ! l)" for l
    using keys [OF that] M'(3) by blast
  have c: "unat (te_map_count e + 1) = unat (te_map_count e) + 1"
    using d(5) [OF e] card_tok_recs [of maps "mr_tok nr"] by (simp add: unat_word_ariths)
  show ?thesis
  proof (rule recsI)
    show "length ?maps = 1024" using d(1) by simp
    show "rec_ok sp M' ?T (?maps ! l)" if l: "l < 1024" "mr_live (?maps ! l)" for l
    proof (cases "l = k")
      case True
      then show ?thesis using ok kk by simp
    next
      case False
      then have ll: "mr_live (maps ! l)" "?maps ! l = maps ! l" using l(2) by simp_all
      show ?thesis unfolding ll(2)
      proof (rule rec_ok_cong [OF d(2) [OF l(1) ll(1)]])
        show "M' key = M key" if "key \<in> rkeys (maps ! l)" for key
          using dj [OF l(1) ll(1)] that M'(2) unfolding M'(1) by (intro map_add_dom_app_simps(3)) auto
        show "\<exists>c. ?T (mr_tok (maps ! l)) = Some (e'\<lparr>te_map_count := c\<rparr>)" if "T (mr_tok (maps ! l)) = Some e'" for e'
        proof (cases "mr_tok (maps ! l) = mr_tok nr")
          case True
          then have "e' = e" using that e by simp
          then show ?thesis using True by auto
        next
          case False
          then show ?thesis using that by (intro exI [of _ "te_map_count e'"]) simp
        qed
      qed simp
    qed
    show "\<exists>l < 1024. mr_live (?maps ! l) \<and> (P, q) \<in> rkeys (?maps ! l)" if m: "M' (P, q) \<noteq> None" "P \<noteq> K" for P q
    proof (cases "(P, q) \<in> rkeys nr")
      case True
      then show ?thesis using k(1) kk n by (intro exI [of _ k]) simp
    next
      case False
      then have "M (P, q) \<noteq> None" using m(1) M'(1,2) by (metis domIff map_add_dom_app_simps(3))
      then obtain l where l: "l < 1024" "mr_live (maps ! l)" "(P, q) \<in> rkeys (maps ! l)" using d(3) m(2) by blast
      then have "l \<noteq> k" using k(2) by auto
      then show ?thesis using l by (intro exI [of _ l]) simp
    qed
    show "rkeys (?maps ! a) \<inter> rkeys (?maps ! b) = {}"
      if ab: "a < 1024" "b < 1024" "mr_live (?maps ! a)" "mr_live (?maps ! b)" "a \<noteq> b" for a b
    proof -
      consider "a = k" "b \<noteq> k" | "a \<noteq> k" "b = k" | "a \<noteq> k" "b \<noteq> k" using ab(5) by blast
      then show ?thesis using ab dj d(4) [OF ab(1,2)] kk by cases (auto simp: Int_commute)
    qed
    have tr: "tok_recs ?maps u = tok_recs maps u \<union> (if u = mr_tok nr then {k} else {})" for u
      using k n d(1) by (auto simp: tok_recs_def nth_list_update split: if_splits)
    have nk: "k \<notin> tok_recs maps u" for u using k(2) by (simp add: tok_recs_def)
    show "unat (te_map_count e') = card (tok_recs ?maps u)" if u: "?T u = Some e'" for u e'
    proof (cases "u = mr_tok nr")
      case True
      then have "e' = e\<lparr>te_map_count := te_map_count e + 1\<rparr>" using u by simp
      then show ?thesis using True tr c d(5) [OF e] nk by simp
    next
      case False
      then show ?thesis using u d(5) [of u e'] tr by simp
    qed
  qed
qed

end
