(* ===== verification/Paging_Space.thy ===== *)
theory Paging_Space
  imports Paging_Recs
begin

text \<open>
  The invariant of the whole memory side and its preservation by the address space operations.
  \<open>sp\<close> maps the root of every live address space to its owner. \<open>pt_ok\<close> joins the ledger's invariant,
  the trees and the records. \<open>pt_inv\<close> hides the ghost state and adds the accounting: \<open>B\<close> is the set of
  frames that are free, hold a table or belong to a token.
\<close>

section \<open>Invariant\<close>

text \<open>The kernel's root, the table for the window of device mappings that boot installs in it, and the
  leaves of that window, which are 4 KiB pages.\<close>

definition kern_roles :: "u64 \<Rightarrow> roles \<Rightarrow> leaves \<Rightarrow> bool" where
  "kern_roles K R M \<longleftrightarrow> (\<exists>k. R k = Some (K, [])) \<and> (\<exists>g. R g = Some (K, [384])) \<and> (\<forall>q. M (K, 384 # q) \<noteq> None \<longrightarrow> length q = 3)"

lemma kern_roles_mono:
  assumes "kern_roles K R M" "\<And>f p. R f = Some (K, p) \<Longrightarrow> R' f = Some (K, p)" "\<And>q. M' (K, q) \<noteq> None \<Longrightarrow> M (K, q) \<noteq> None"
  shows "kern_roles K R' M'"
  using assms unfolding kern_roles_def by blast

definition pt_ok :: "(u64 \<rightharpoonup> u32) \<Rightarrow> roles \<Rightarrow> leaves \<Rightarrow> 'a Paging_scheme \<Rightarrow> bool" where
  "pt_ok sp R M s \<longleftrightarrow> ledger_inv s \<and> trees (pt_pml4_phys s) R M s \<and> kern_roles (pt_pml4_phys s) R M \<and>
     (\<forall>t e. toks s t = Some e \<longrightarrow> te_span e \<inter> dom R = {}) \<and>
     (\<forall>P. P \<in> dom sp \<longleftrightarrow> P \<noteq> pt_pml4_phys s \<and> (\<exists>f. R f = Some (P, []))) \<and> (\<forall>P. sp P \<noteq> Some 0) \<and>
     recs (pt_pml4_phys s) sp M (toks s) (pt_maps s)"

definition spans :: "'a Ledger_scheme \<Rightarrow> nat set" where
  "spans s = (\<Union>e \<in> ran (toks s). te_span e)"

definition mmio_ok :: "u64 \<Rightarrow> bool" where
  "mmio_ok v \<longleftrightarrow> unat XPT_MMIO_VA \<le> unat v \<and> unat v \<le> unat XPT_MMIO_VA + unat PML4_SPAN \<and> unat v mod 4096 = 0"

definition pt_inv :: "nat set \<Rightarrow> (u64 \<rightharpoonup> u32) \<Rightarrow> 'a Paging_scheme \<Rightarrow> bool" where
  "pt_inv B sp s \<longleftrightarrow> (\<exists>R M. pt_ok sp R M s \<and> ffree (xm_phys s) \<union> dom R \<union> spans s = B) \<and> mmio_ok (pt_mmio_next s)"

lemma pt_okD:
  assumes "pt_ok sp R M s"
  shows "ledger_inv s" "trees (pt_pml4_phys s) R M s" "kern_roles (pt_pml4_phys s) R M"
    "toks s t = Some e \<Longrightarrow> te_span e \<inter> dom R = {}"
    "P \<in> dom sp \<longleftrightarrow> P \<noteq> pt_pml4_phys s \<and> (\<exists>f. R f = Some (P, []))" "sp P \<noteq> Some 0"
    "recs (pt_pml4_phys s) sp M (toks s) (pt_maps s)"
  using assms unfolding pt_ok_def by auto

lemma ledger_more_fields:
  assumes "Ledger.more s' = Ledger.more s"
  shows "pt_pml4_phys s' = pt_pml4_phys s" "pt_prot s' = pt_prot s" "pt_maps s' = pt_maps s"
    "pt_mmio_next s' = pt_mmio_next s" "pt_cpu s' = pt_cpu s" "Paging.more s' = Paging.more s"
  using assms by (cases s; cases s'; simp)+

lemma xmach_more_fields:
  assumes "Xmach.more s' = Xmach.more s"
  shows "lg_table s' = lg_table s" "lg_live s' = lg_live s" "lg_next_hint s' = lg_next_hint s" "Ledger.more s' = Ledger.more s"
  using assms by (cases s; cases s'; simp)+

lemma ledger_inv_fields:
  assumes "ledger_inv s" "lg_table s' = lg_table s" "lg_live s' = lg_live s" "xm_phys s' = xm_phys s"
  shows "ledger_inv s'"
  using assms by (simp add: ledger_inv_def)

text \<open>What the operations on mappings leave alone: the pool up to new tables, all memory outside the
  tables, the tokens up to their mapping counts, and the other globals.\<close>

definition unpinned :: "(XToken \<rightharpoonup> XTokenEntry) \<Rightarrow> (XToken \<rightharpoonup> XTokenEntry) \<Rightarrow> bool" where
  "unpinned T T' \<longleftrightarrow> (\<forall>t. (T t = None \<longrightarrow> T' t = None) \<and> (\<forall>e. T t = Some e \<longrightarrow> (\<exists>c. T' t = Some (e\<lparr>te_map_count := c\<rparr>))))"

lemma unpinned_refl [simp]: "unpinned T T"
proof -
  have "e = e\<lparr>te_map_count := te_map_count e\<rparr>" for e :: XTokenEntry by simp
  then show ?thesis unfolding unpinned_def by metis
qed

lemma unpinned_trans: "unpinned T T1 \<Longrightarrow> unpinned T1 T2 \<Longrightarrow> unpinned T T2"
proof -
  assume a: "unpinned T T1" "unpinned T1 T2"
  have "\<exists>c. T2 t = Some (e\<lparr>te_map_count := c\<rparr>)" if e: "T t = Some e" for t e
  proof -
    obtain c where "T1 t = Some (e\<lparr>te_map_count := c\<rparr>)" using a(1) e unfolding unpinned_def by blast
    then obtain c' where "T2 t = Some (e\<lparr>te_map_count := c, te_map_count := c'\<rparr>)" using a(2) unfolding unpinned_def by blast
    then show ?thesis by auto
  qed
  then show "unpinned T T2" using a unfolding unpinned_def by blast
qed

lemma unpinned_upd: "T t = Some e \<Longrightarrow> unpinned T (T(t \<mapsto> e\<lparr>te_map_count := c\<rparr>))"
proof -
  assume t: "T t = Some e"
  have "\<exists>c'. (T(t \<mapsto> e\<lparr>te_map_count := c\<rparr>)) u = Some (e'\<lparr>te_map_count := c'\<rparr>)" if "T u = Some e'" for u e'
  proof (cases "u = t")
    case True
    then show ?thesis using t that by auto
  next
    case False
    then show ?thesis using that by (intro exI [of _ "te_map_count e'"]) simp
  qed
  then show ?thesis using t by (auto simp: unpinned_def)
qed

definition dropped :: "roles \<Rightarrow> 'a Paging_scheme \<Rightarrow> 'a Paging_scheme \<Rightarrow> bool" where
  "dropped R s s' \<longleftrightarrow> xm_phys s' = xm_phys s \<and> unpinned (toks s) (toks s') \<and>
     (\<forall>x. unat x div 4096 \<notin> dom R \<longrightarrow> xm_mem s' x = xm_mem s x) \<and> pt_pml4_phys s' = pt_pml4_phys s \<and>
     pt_mmio_next s' = pt_mmio_next s \<and> set (cpu_invlpg (pt_cpu s)) \<subseteq> set (cpu_invlpg (pt_cpu s')) \<and>
     Paging.more s' = Paging.more s"

lemma dropped_refl [simp]: "dropped R s s"
  by (simp add: dropped_def)

lemma dropped_trans: "dropped R s s1 \<Longrightarrow> dropped R s1 s2 \<Longrightarrow> dropped R s s2"
  unfolding dropped_def by (auto intro: unpinned_trans)

section \<open>Dropping records\<close>

lemma flushed_fields:
  assumes "flushed R s V s'"
  shows "xm_phys s' = xm_phys s" "lg_table s' = lg_table s" "lg_live s' = lg_live s" "toks s' = toks s"
    "pt_pml4_phys s' = pt_pml4_phys s" "pt_maps s' = pt_maps s" "pt_mmio_next s' = pt_mmio_next s"
    "Paging.more s' = Paging.more s" "set (cpu_invlpg (pt_cpu s)) \<union> V \<subseteq> set (cpu_invlpg (pt_cpu s'))"
    "\<And>x. unat x div 4096 \<notin> dom R \<Longrightarrow> xm_mem s' x = xm_mem s x"
proof -
  obtain m c where f: "s' = s\<lparr>xm_mem := m, pt_cpu := c\<rparr>" "\<forall>x. unat x div 4096 \<notin> dom R \<longrightarrow> m x = xm_mem s x"
    "set (cpu_invlpg (pt_cpu s)) \<union> V \<subseteq> set (cpu_invlpg c)" using assms by (auto simp: flushed_def)
  have t: "lg_table s' = lg_table s" by (simp add: f(1))
  show "xm_phys s' = xm_phys s" "lg_table s' = lg_table s" "lg_live s' = lg_live s" "toks s' = toks s"
    "pt_pml4_phys s' = pt_pml4_phys s" "pt_maps s' = pt_maps s" "pt_mmio_next s' = pt_mmio_next s"
    "Paging.more s' = Paging.more s" "set (cpu_invlpg (pt_cpu s)) \<union> V \<subseteq> set (cpu_invlpg (pt_cpu s'))"
    "\<And>x. unat x div 4096 \<notin> dom R \<Longrightarrow> xm_mem s' x = xm_mem s x"
    using f toks_cong [OF t] by simp_all
qed

lemma recounted_fields:
  assumes "recounted tok c s s'"
  shows "ledger_inv s'" "xm_mem s' = xm_mem s" "xm_phys s' = xm_phys s" "pt_pml4_phys s' = pt_pml4_phys s"
    "pt_maps s' = pt_maps s" "pt_mmio_next s' = pt_mmio_next s" "pt_cpu s' = pt_cpu s" "Paging.more s' = Paging.more s"
  using assms ledger_more_fields [of s' s] by (simp_all add: recounted_def)

lemma drop_record_spec:
  assumes ok: "pt_ok sp R M s" and k: "k < 1024" "mr_live (pt_maps s ! k)"
  shows "pt_ok sp R (M |` (- rkeys (pt_maps s ! k))) (drop_record k s)"
    "pt_maps (drop_record k s) = (pt_maps s)[k := (pt_maps s ! k)\<lparr>mr_live := False\<rparr>]"
    "dropped R s (drop_record k s)"
    "(\<lambda>i. page (mr_virt (pt_maps s ! k)) i) ` {..<unat (mr_pages (pt_maps s ! k))} \<subseteq> set (cpu_invlpg (pt_cpu (drop_record k s)))"
proof -
  note d = pt_okD [OF ok] and rd = recsD [OF pt_okD(7) [OF ok]]
  define r where "r = pt_maps s ! k"
  have ro: "rec_ok sp M (toks s) r" using rd(2) [OF k] by (simp add: r_def)
  obtain e where e: "toks s (mr_tok r) = Some e" using ro by (auto simp: rec_ok_def)
  have rng: "user_range (mr_virt r) (unat (mr_pages r))" using ro by (simp add: rec_ok_def)
  have sp: "mr_as_pml4 r \<in> dom sp" using ro by (auto simp: rec_ok_def)
  obtain f where f: "R f = Some (mr_as_pml4 r, [])" and pk: "mr_as_pml4 r \<noteq> pt_pml4_phys s" using sp d(5) by blast
  define s1 where "s1 = unmap_pages (mr_as_pml4 r) (mr_virt r) (unat (mr_pages r)) s"
  note u = unmap_pages_spec [OF d(2) f pk rng, folded s1_def] and fu = flushed_fields [OF unmap_pages_spec(2) [OF d(2) f pk rng, folded s1_def]]
  have inv1: "ledger_inv s1" by (rule ledger_inv_fields [OF d(1) fu(2,3,1)])
  note dr = recs_drop [OF d(7) k, folded r_def, OF e]
  define s2 where "s2 = xtok_map_release (mr_tok r) s1"
  have rc: "recounted (mr_tok r) (te_map_count e - 1) s1 s2"
    using xtok_map_release_spec [OF inv1, of "mr_tok r"] e dr(2) by (simp add: fu(4) s2_def)
  note rf = recounted_fields [OF rc]
  have t2: "toks s2 = (toks s)(mr_tok r \<mapsto> e\<lparr>te_map_count := te_map_count e - 1\<rparr>)"
    using rc e fu(4) by (auto simp: recounted_def)
  have dd: "drop_record k s = s2\<lparr>pt_maps := (pt_maps s2)[k := (pt_maps s2 ! k)\<lparr>mr_live := False\<rparr>]\<rparr>"
    by (simp add: drop_record_def Let_def r_def s1_def s2_def)
  have m2: "pt_maps s2 = pt_maps s" using rf(5) fu(6) by simp
  have tk: "toks (drop_record k s) = toks s2" by (rule toks_cong) (simp add: dd)
  have K: "pt_pml4_phys (drop_record k s) = pt_pml4_phys s" using rf(4) fu(5) by (simp add: dd)
  show mp: "pt_maps (drop_record k s) = (pt_maps s)[k := (pt_maps s ! k)\<lparr>mr_live := False\<rparr>]" by (simp add: dd m2)
  have tr: "trees (pt_pml4_phys s) R (M |` (- rkeys r)) (drop_record k s)"
    using u(1) rf(2,3) by (simp add: trees_def dd rkeys_def)
  have rs: "recs (pt_pml4_phys s) sp (M |` (- rkeys r)) (toks s2) (pt_maps (drop_record k s))"
    using dr(1) by (simp add: t2 mp r_def)
  have li: "ledger_inv (drop_record k s)" by (rule ledger_inv_fields [OF rf(1)]) (simp_all add: dd)
  have spn: "te_span e' \<inter> dom R = {}" if t: "toks s2 t = Some e'" for t e'
  proof (cases "t = mr_tok r")
    case True
    then have "e' = e\<lparr>te_map_count := te_map_count e - 1\<rparr>" using t t2 by simp
    then show ?thesis using d(4) [OF e] by (simp add: te_span_def)
  next
    case False
    then show ?thesis using t t2 d(4) by simp
  qed
  have "kern_roles (pt_pml4_phys s) R (M |` (- rkeys r))"
    by (rule kern_roles_mono [OF d(3)]) (auto simp: restrict_map_def split: if_splits)
  then show "pt_ok sp R (M |` (- rkeys (pt_maps s ! k))) (drop_record k s)"
    unfolding pt_ok_def K tk r_def [symmetric] using li tr spn d(5,6) rs by blast
  show "dropped R s (drop_record k s)"
    using unpinned_upd [where T = "toks s" and t = "mr_tok r" and c = "te_map_count e - 1", OF e] rf fu(1,5,7,8,9,10) tk t2
    by (auto simp: dropped_def dd)
  have "{page (mr_virt r) i |i. i < unat (mr_pages r) \<and> M (mr_as_pml4 r, path4 (page (mr_virt r) i)) \<noteq> None} =
      (\<lambda>i. page (mr_virt r) i) ` {..<unat (mr_pages r)}"
    using ro by (auto simp: rec_ok_def)
  then show "(\<lambda>i. page (mr_virt (pt_maps s ! k)) i) ` {..<unat (mr_pages (pt_maps s ! k))} \<subseteq> set (cpu_invlpg (pt_cpu (drop_record k s)))"
    using fu(9) rf(7) by (simp add: dd r_def)
qed

text \<open>The loops that drop the live records satisfying \<open>Q\<close>.\<close>

definition dead_where :: "(MapRec \<Rightarrow> bool) \<Rightarrow> nat \<Rightarrow> MapRec list \<Rightarrow> MapRec list" where
  "dead_where Q n maps = map (\<lambda>k. if k < n \<and> mr_live (maps ! k) \<and> Q (maps ! k) then (maps ! k)\<lparr>mr_live := False\<rparr> else maps ! k) [0..<length maps]"

definition keys_where :: "(MapRec \<Rightarrow> bool) \<Rightarrow> nat \<Rightarrow> MapRec list \<Rightarrow> (u64 \<times> nat list) set" where
  "keys_where Q n maps = (\<Union>k \<in> {k. k < n \<and> mr_live (maps ! k) \<and> Q (maps ! k)}. rkeys (maps ! k))"

lemma drop_fold_spec:
  assumes ok: "pt_ok sp R M s" and n: "n \<le> 1024" and fo: "fold (drop_where Q) [0..<n] (s, 0) = (s', c)"
  shows "pt_ok sp R (M |` (- keys_where Q n (pt_maps s))) s' \<and> pt_maps s' = dead_where Q n (pt_maps s) \<and> dropped R s s' \<and>
    c = card {k. k < n \<and> mr_live (pt_maps s ! k) \<and> Q (pt_maps s ! k)}"
  using n fo
proof (induction n arbitrary: s' c)
  case 0
  have "dead_where Q 0 (pt_maps s) = pt_maps s" by (simp add: dead_where_def map_nth)
  moreover have "M |` (- keys_where Q 0 (pt_maps s)) = M" by (auto simp: keys_where_def restrict_map_def)
  ultimately show ?case using 0 ok by simp
next
  case (Suc n)
  have len: "length (pt_maps s) = 1024" using recs1 pt_okD(7) [OF ok] by blast
  obtain s1 c1 where f1: "fold (drop_where Q) [0..<n] (s, 0) = (s1, c1)" by fastforce
  have ih: "pt_ok sp R (M |` (- keys_where Q n (pt_maps s))) s1" "pt_maps s1 = dead_where Q n (pt_maps s)" "dropped R s s1"
    "c1 = card {k. k < n \<and> mr_live (pt_maps s ! k) \<and> Q (pt_maps s ! k)}"
    using Suc.IH [OF _ f1] Suc.prems(1) by simp_all
  have st: "drop_where Q n (s1, c1) = (s', c)" using Suc.prems(2) f1 by simp
  have nn: "n < 1024" using Suc.prems(1) by simp
  have at: "pt_maps s1 ! n = pt_maps s ! n" using nn len by (simp add: ih(2) dead_where_def)
  let ?live = "mr_live (pt_maps s ! n) \<and> Q (pt_maps s ! n)"
  have ks: "keys_where Q (Suc n) (pt_maps s) = keys_where Q n (pt_maps s) \<union> (if ?live then rkeys (pt_maps s ! n) else {})"
    by (auto simp: keys_where_def less_Suc_eq)
  have cs: "{k. k < Suc n \<and> mr_live (pt_maps s ! k) \<and> Q (pt_maps s ! k)} =
      (if ?live then insert n {k. k < n \<and> mr_live (pt_maps s ! k) \<and> Q (pt_maps s ! k)} else {k. k < n \<and> mr_live (pt_maps s ! k) \<and> Q (pt_maps s ! k)})"
    by (auto simp: less_Suc_eq)
  show ?case
  proof (cases ?live)
    case True
    then have e: "s' = drop_record n s1" "c = Suc c1" using st at by (auto simp: drop_where_def)
    have lv: "mr_live (pt_maps s1 ! n)" using True at by simp
    note dr = drop_record_spec [OF ih(1) nn lv]
    have "M |` (- keys_where Q n (pt_maps s)) |` (- rkeys (pt_maps s1 ! n)) = M |` (- keys_where Q (Suc n) (pt_maps s))"
      using True by (simp add: ks at Int_commute)
    moreover have "(dead_where Q n (pt_maps s))[n := (pt_maps s1 ! n)\<lparr>mr_live := False\<rparr>] = dead_where Q (Suc n) (pt_maps s)"
      by (rule nth_equalityI) (use True len nn at in \<open>auto simp: dead_where_def nth_list_update less_Suc_eq\<close>)
    ultimately show ?thesis using dr(1,2) dropped_trans [OF ih(3) dr(3)] True ih(4) by (simp add: e ih(2) cs)
  next
    case False
    then have e: "s' = s1" "c = c1" using st at by (auto simp: drop_where_def split: if_splits)
    have "dead_where Q n (pt_maps s) = dead_where Q (Suc n) (pt_maps s)"
      using False by (auto simp: dead_where_def less_Suc_eq)
    then show ?thesis unfolding ks cs if_not_P [OF False] using ih by (simp add: e)
  qed
qed

section \<open>Mapping a token\<close>

lemma ledger_inv_grown:
  assumes inv: "ledger_inv s" and g: "grown R s R' s'" and rdy: "phys_ready (xm_phys s')"
  shows "ledger_inv s'" "toks s' = toks s"
proof -
  note f = xmach_more_fields [of s' s]
  have m: "Xmach.more s' = Xmach.more s" using g by (simp add: grown_def)
  have t: "lg_table s' = lg_table s" by (rule f(1) [OF m])
  show "toks s' = toks s" by (rule toks_cong [OF t])
  show "ledger_inv s'"
  proof (rule ledger_inv_pool [OF inv rdy _ _ t f(2) [OF m] refl])
    show "pb_total (xm_phys s') = pb_total (xm_phys s)" using g by (simp add: grown_def phys_same_def)
    show "te_span (lg_table s ! i) \<inter> ffree (xm_phys s') = {}" if "i < 4096" "te_live (lg_table s ! i)" for i
      using ledger_invD(3) [OF inv that(1)] that(2) g by (auto simp: entry_ok_def grown_def)
  qed
qed

text \<open>Releasing the pin that \<open>xtok_map_acquire\<close> took restores the token.\<close>

lemma unpin_back:
  assumes rc: "recounted tok (te_map_count e + 1) s s1" and e: "toks s tok = Some e" "te_map_count e \<noteq> 0xFFFF"
    and s2: "ledger_inv s2" "toks s2 = toks s1"
  shows "recounted tok (te_map_count e) s2 (xtok_map_release tok s2)" "toks (xtok_map_release tok s2) = toks s"
proof -
  have t1: "toks s1 = (toks s)(tok \<mapsto> e\<lparr>te_map_count := te_map_count e + 1\<rparr>)" using rc e(1) by (auto simp: recounted_def)
  have nz: "te_map_count e + 1 \<noteq> 0" using e(2) by (simp add: u16_succ)
  show r: "recounted tok (te_map_count e) s2 (xtok_map_release tok s2)"
    using xtok_map_release_spec [OF s2(1), of tok] nz by (simp add: s2(2) t1)
  have "toks (xtok_map_release tok s2) = (toks s)(tok \<mapsto> e)"
    using r by (auto simp: recounted_def s2(2) t1)
  then show "toks (xtok_map_release tok s2) = toks s" using e(1) by (simp add: fun_upd_idem)
qed

lemma page_mask: "unat (virt :: u64) mod 4096 = 0 \<longleftrightarrow> virt AND (XERET_FRAME_SIZE - 1) = 0"
proof -
  have "unat (virt AND mask 12) = unat virt mod 4096"
    by (simp only: take_bit_eq_mask [symmetric] take_bit_eq_mod unat_mod) simp
  then show ?thesis by (simp add: mask_eq_exp_minus_1 unat_eq_zero [symmetric])
qed

lemma user_rangeI:
  assumes "virt AND (XERET_FRAME_SIZE - 1) = 0" "\<not> (virt < XAS_USER_BASE \<or> virt \<ge> XAS_USER_TOP)"
    "\<not> frames > (XAS_USER_TOP - virt) div XERET_FRAME_SIZE"
  shows "user_range virt (unat frames)"
proof -
  have v: "unat virt < 140737488355328" "549755813888 \<le> unat virt" using assms(2) by (auto simp: word_less_nat_alt word_le_nat_alt)
  have "unat (XAS_USER_TOP - virt) = 140737488355328 - unat virt" using assms(2) by (subst unat_sub) (auto simp: not_le)
  then have "unat frames \<le> (140737488355328 - unat virt) div 4096"
    using assms(3) by (simp add: word_less_nat_alt unat_div)
  then have "unat frames * 4096 \<le> 140737488355328 - unat virt" by (simp add: less_eq_div_iff_mult_less_eq)
  then show ?thesis using v assms(1,2) page_mask [of virt] by (auto simp: user_range_def user_va_def)
qed

text \<open>What a successful \<open>xas_map\<close> of token \<open>tok\<close> at \<open>virt\<close> does.\<close>

text \<open>The frames that are free or hold tables stay the same set.\<close>

definition acct :: "roles \<Rightarrow> 'a Xmach_scheme \<Rightarrow> roles \<Rightarrow> 'a Xmach_scheme \<Rightarrow> bool" where
  "acct R s R' s' \<longleftrightarrow> ffree (xm_phys s') \<union> dom R' = ffree (xm_phys s) \<union> dom R"

lemma acct_refl [simp]: "acct R s R s"
  by (simp add: acct_def)

lemma acct_grown: "grown R s R' s' \<Longrightarrow> acct R s R' s'"
proof -
  assume g: "grown R s R' s'"
  then have "dom R \<subseteq> dom R'" unfolding grown_def by (blast dest: map_le_implies_dom_le)
  then show ?thesis using g by (auto simp: acct_def grown_def)
qed

definition map_done :: "(u64 \<rightharpoonup> u32) \<Rightarrow> roles \<Rightarrow> leaves \<Rightarrow> 'a Paging_scheme \<Rightarrow> XAspace \<Rightarrow> u64 \<Rightarrow> XToken \<Rightarrow> u32 \<Rightarrow> 'a Paging_scheme \<Rightarrow> bool" where
  "map_done sp R M s a virt tok perms s' \<longleftrightarrow> (\<exists>R' e k.
     toks s tok = Some e \<and> te_owner e = as_owner_id a \<and> te_rights e AND need_rights perms = need_rights perms \<and>
     legal_perms perms \<and> user_range virt (unat (te_frames e)) \<and> dom M \<inter> pkeys (as_pml4_phys a) virt (unat (te_frames e)) = {} \<and>
     pt_ok sp R' (M ++ pleaves (as_pml4_phys a) virt (te_phys e) (leaf_flags perms) (unat (te_frames e))) s' \<and> acct R s R' s' \<and>
     fresh_tables R R' \<le> 3 * unat (te_frames e) \<and> ffree (xm_phys s') = ffree (xm_phys s) - (dom R' - dom R) \<and>
     toks s' = (toks s)(tok \<mapsto> e\<lparr>te_map_count := te_map_count e + 1\<rparr>) \<and>
     k < 1024 \<and> \<not> mr_live (pt_maps s ! k) \<and>
     pt_maps s' = (pt_maps s)[k := \<lparr>mr_as_pml4 = as_pml4_phys a, mr_owner = as_owner_id a, mr_virt = virt, mr_tok = tok,
       mr_pages = te_frames e, mr_live = True\<rparr>])"

text \<open>What holds between the states of any \<open>xas_map\<close>: tables may have been added.\<close>

definition tabled :: "'a Paging_scheme \<Rightarrow> 'a Paging_scheme \<Rightarrow> bool" where
  "tabled s s' \<longleftrightarrow> phys_same (xm_phys s) (xm_phys s') \<and> ffree (xm_phys s') \<subseteq> ffree (xm_phys s) \<and>
     pt_pml4_phys s' = pt_pml4_phys s \<and> pt_mmio_next s' = pt_mmio_next s \<and> Paging.more s' = Paging.more s \<and>
     unpinned (toks s) (toks s') \<and>
     (\<forall>t e x. toks s t = Some e \<longrightarrow> unat x div 4096 \<in> te_span e \<longrightarrow> xm_mem s' x = xm_mem s x)"

lemma pin_state:
  assumes ok: "pt_ok sp R M s" and rc: "recounted tok c s s1"
  shows "trees (pt_pml4_phys s) R M s1" "ledger_inv s1"
  using pt_okD(2) [OF ok] recounted_fields [OF rc] by (simp_all add: trees_def)

lemma pt_ok_restore:
  assumes ok: "pt_ok sp R M s" and g: "grown R s1 R' s2" and s1: "xm_phys s1 = xm_phys s"
    and li: "ledger_inv s'" and tr: "trees (pt_pml4_phys s) R' M' s'" and tk: "\<And>t e. toks s' t = Some e \<Longrightarrow> \<exists>e'. toks s t = Some e' \<and> te_span e' = te_span e"
    and kM: "\<And>q. M' (pt_pml4_phys s, q) \<noteq> None \<Longrightarrow> M (pt_pml4_phys s, q) \<noteq> None"
    and K: "pt_pml4_phys s' = pt_pml4_phys s" and rs: "recs (pt_pml4_phys s) sp M' (toks s') (pt_maps s')"
  shows "pt_ok sp R' M' s'"
proof -
  note d = pt_okD [OF ok]
  have "te_span e \<inter> dom R' = {}" if t: "toks s' t = Some e" for t e
  proof -
    obtain e' where e': "toks s t = Some e'" "te_span e' = te_span e" using tk [OF t] by blast
    obtain i where i: "lookup_live t s = Some i" "e' = lg_table s ! i" using e'(1) by (auto simp: toks_Some_iff)
    have "te_span e' \<inter> ffree (xm_phys s) = {}"
      using ledger_invD(3) [OF d(1) lookup_liveD(1) [OF i(1)]] lookup_liveD(2) [OF i(1)] i(2) by (simp add: entry_ok_def)
    moreover have "dom R' \<subseteq> dom R \<union> ffree (xm_phys s)" using g s1 by (auto simp: grown_def)
    ultimately show ?thesis using d(4) [OF e'(1)] e'(2) by blast
  qed
  moreover have "P \<in> dom sp \<longleftrightarrow> P \<noteq> pt_pml4_phys s \<and> (\<exists>f. R' f = Some (P, []))" for P
    using d(5) [of P] grown_role [OF g] g unfolding grown_def by blast
  moreover have "kern_roles (pt_pml4_phys s) R' M'" by (rule kern_roles_mono [OF d(3) grown_role [OF g] kM])
  ultimately show ?thesis using li tr d(6) rs unfolding pt_ok_def K by blast
qed

lemma leaf_flags_present: "bit (leaf_flags perms) 0"
  by (simp add: leaf_flags_def Let_def bit_simps)

definition map_failed :: "(u64 \<rightharpoonup> u32) \<Rightarrow> roles \<Rightarrow> leaves \<Rightarrow> 'a Paging_scheme \<Rightarrow> 'a Paging_scheme \<Rightarrow> bool" where
  "map_failed sp R M s s' \<longleftrightarrow> (\<exists>R'. pt_ok sp R' M s' \<and> acct R s R' s') \<and> toks s' = toks s \<and> pt_maps s' = pt_maps s"

text \<open>The state after \<open>xtok_map_acquire\<close> has pinned the token, and the three ways on from there: release
  the pin, unmap what was mapped and release, or record the mapping.\<close>

definition pinned :: "(u64 \<rightharpoonup> u32) \<Rightarrow> roles \<Rightarrow> leaves \<Rightarrow> 'a Paging_scheme \<Rightarrow> XToken \<Rightarrow> XTokenEntry \<Rightarrow> 'a Paging_scheme \<Rightarrow> bool" where
  "pinned sp R M s tok e s1 \<longleftrightarrow> pt_ok sp R M s \<and> toks s tok = Some e \<and> te_map_count e \<noteq> 0xFFFF \<and>
     recounted tok (te_map_count e + 1) s s1"

lemma pinnedD:
  assumes "pinned sp R M s tok e s1"
  shows "pt_ok sp R M s" "toks s tok = Some e" "te_map_count e \<noteq> 0xFFFF" "recounted tok (te_map_count e + 1) s s1"
    "toks s1 = (toks s)(tok \<mapsto> e\<lparr>te_map_count := te_map_count e + 1\<rparr>)"
  using assms by (auto simp: pinned_def recounted_def)

lemma unpin_spec:
  assumes pin: "pinned sp R M s tok e s1"
    and z: "ledger_inv z" "toks z = toks s1" "trees (pt_pml4_phys s) R' M z" "grown R s1 R' y" "xm_phys z = xm_phys y"
      "pt_maps z = pt_maps s" "pt_pml4_phys z = pt_pml4_phys s" "pt_mmio_next z = pt_mmio_next s" "Paging.more z = Paging.more s"
      "\<And>x. unat x div 4096 \<notin> dom R' \<Longrightarrow> xm_mem z x = xm_mem s x"
  shows "tabled s (xtok_map_release tok z) \<and> map_failed sp R M s (xtok_map_release tok z)"
proof -
  note p = pinnedD [OF pin]
  note rf = recounted_fields [OF p(4)] and ub = unpin_back [OF p(4,2,3) z(1,2)]
  note uf = recounted_fields [OF ub(1)]
  have tr': "trees (pt_pml4_phys s) R' M (xtok_map_release tok z)" using z(3) uf(2,3) by (simp add: trees_def)
  have ok': "pt_ok sp R' M (xtok_map_release tok z)"
    by (rule pt_ok_restore [OF p(1) z(4) rf(3) uf(1) tr']) (use ub(2) pt_okD(7) [OF p(1)] uf z in auto)
  have "te_span e' \<inter> dom R' = {}" if "toks s t = Some e'" for t e' using pt_okD(4) [OF ok'] that ub(2) by simp
  then have "tabled s (xtok_map_release tok z)"
    using z(4,5,7-10) uf ub(2) rf(3) unfolding tabled_def grown_def by (auto simp: disjoint_iff)
  moreover have "acct R s R' (xtok_map_release tok z)" using acct_grown [OF z(4)] z(5) uf(3) rf(3) by (simp add: acct_def)
  ultimately show ?thesis using ok' ub(2) uf(5) z(6) by (auto simp: map_failed_def)
qed

lemma pinned_fields:
  assumes pin: "pinned sp R M s tok e s1" and g: "grown R s1 R' s2" and tr: "trees (pt_pml4_phys s) R' M' s2"
  shows "ledger_inv s2" "toks s2 = toks s1" "pt_pml4_phys s2 = pt_pml4_phys s" "pt_maps s2 = pt_maps s"
    "pt_mmio_next s2 = pt_mmio_next s" "Paging.more s2 = Paging.more s" "xm_phys s1 = xm_phys s"
    "\<And>x. unat x div 4096 \<notin> dom R' \<Longrightarrow> xm_mem s2 x = xm_mem s x"
proof -
  note p = pinnedD [OF pin]
  note rf = recounted_fields [OF p(4)] and ps = pin_state [OF p(1,4)]
  have rdy: "phys_ready (xm_phys s2)" using tr by (simp add: trees_def)
  have mo: "Ledger.more s2 = Ledger.more s1" using g xmach_more_fields(4) [of s2 s1] by (simp add: grown_def)
  show "ledger_inv s2" "toks s2 = toks s1" using ledger_inv_grown [OF ps(2) g rdy] by simp_all
  show "pt_pml4_phys s2 = pt_pml4_phys s" "pt_maps s2 = pt_maps s" "pt_mmio_next s2 = pt_mmio_next s"
    "Paging.more s2 = Paging.more s" "xm_phys s1 = xm_phys s" using ledger_more_fields [OF mo] rf by simp_all
  show "xm_mem s2 x = xm_mem s x" if "unat x div 4096 \<notin> dom R'" for x using g that rf(2) by (simp add: grown_def)
qed

lemma unmap_back_spec:
  assumes pin: "pinned sp R M s tok e s1" and f: "R f = Some (P, [])" "P \<noteq> pt_pml4_phys s"
    and rn: "user_range virt n" and g: "grown R s1 R' s2" and dj: "dom M \<inter> pkeys P virt n = {}"
    and tr: "trees (pt_pml4_phys s) R' (M ++ pleaves P virt phys leaf n) s2"
  shows "tabled s (xtok_map_release tok (unmap_pages P virt n s2)) \<and> map_failed sp R M s (xtok_map_release tok (unmap_pages P virt n s2))"
proof -
  define s3 where "s3 = unmap_pages P virt n s2"
  note us = unmap_pages_spec [OF tr grown_role [OF g f(1)] f(2) rn, folded s3_def] and pf = pinned_fields [OF pin g tr]
  note ff = flushed_fields [OF us(2)]
  have "(M ++ pleaves P virt phys leaf n) |` (- pkeys P virt n) = M"
  proof (rule ext)
    fix x
    have "M x = None" if "x \<in> pkeys P virt n" using dj that by blast
    then show "((M ++ pleaves P virt phys leaf n) |` (- pkeys P virt n)) x = M x"
      using dom_pleaves [of P virt phys leaf n]
      by (cases "x \<in> pkeys P virt n") (auto simp: restrict_map_def map_add_dom_app_simps(3))
  qed
  then have t3: "trees (pt_pml4_phys s) R' M s3" using us(1) by simp
  have "xm_mem s3 x = xm_mem s x" if "unat x div 4096 \<notin> dom R'" for x using ff(10) [OF that] pf(8) [OF that] by simp
  note un = unpin_spec [OF pin ledger_inv_fields [OF pf(1) ff(2,3,1)] _ t3 g ff(1) _ _ _ _ this]
  show ?thesis unfolding s3_def [symmetric] by (rule un) (use ff pf in simp_all)
qed

lemma record_spec:
  assumes pin: "pinned sp R M s tok e s1" and g: "grown R s1 R' s2" and k: "k < 1024" "\<not> mr_live (pt_maps s ! k)"
    and a: "sp (as_pml4_phys a) = Some (as_owner_id a)" and er: "te_owner e = as_owner_id a" "te_rights e AND need_rights perms = need_rights perms"
    and lp: "legal_perms perms" and rng: "user_range virt (unat (te_frames e))"
    and dj: "dom M \<inter> pkeys (as_pml4_phys a) virt (unat (te_frames e)) = {}"
    and tr: "trees (pt_pml4_phys s) R' (M ++ pleaves (as_pml4_phys a) virt (te_phys e) (leaf_flags perms) (unat (te_frames e))) s2"
    and s': "s' = s2\<lparr>pt_maps := (pt_maps s2)[k := \<lparr>mr_as_pml4 = as_pml4_phys a, mr_owner = as_owner_id a, mr_virt = virt, mr_tok = tok,
       mr_pages = te_frames e, mr_live = True\<rparr>]\<rparr>"
    and ft: "fresh_tables R R' \<le> 3 * unat (te_frames e)"
  shows "tabled s s' \<and> map_done sp R M s a virt tok perms s'"
proof -
  note p = pinnedD [OF pin] and pf = pinned_fields [OF pin g tr]
  let ?n = "unat (te_frames e)" and ?K = "pt_pml4_phys s"
  let ?M = "M ++ pleaves (as_pml4_phys a) virt (te_phys e) (leaf_flags perms) ?n" and ?e = "e\<lparr>te_map_count := te_map_count e + 1\<rparr>"
  define nr where "nr = \<lparr>mr_as_pml4 = as_pml4_phys a, mr_owner = as_owner_id a, mr_virt = virt, mr_tok = tok, mr_pages = te_frames e, mr_live = True\<rparr>"
  have nrf: "mr_as_pml4 nr = as_pml4_phys a" "mr_owner nr = as_owner_id a" "mr_virt nr = virt" "mr_tok nr = tok" "mr_pages nr = te_frames e" "mr_live nr"
    by (simp_all add: nr_def)
  have li: "ledger_inv s'" by (rule ledger_inv_fields [OF pf(1)]) (simp_all add: s')
  have "toks s' = toks s2" by (rule toks_cong) (simp add: s')
  then have tk: "toks s' = (toks s)(mr_tok nr \<mapsto> ?e)" using pf(2) p(5) nrf by simp
  have pm: "pt_maps s' = (pt_maps s)[k := nr]" "pt_pml4_phys s' = ?K" using pf by (simp_all add: s' nr_def)
  have tr': "trees ?K R' ?M s'" using tr by (simp add: trees_def s')
  have ro: "rec_ok sp ?M ((toks s)(mr_tok nr \<mapsto> ?e)) nr"
    unfolding rec_ok_def
    by (intro conjI exI [of _ ?e] exI [of _ perms] allI impI)
      (use a er lp rng pleaves_at [OF rng, of _ "as_pml4_phys a" "te_phys e" "leaf_flags perms"] in \<open>simp_all add: nrf\<close>)
  have rs: "recs ?K sp ?M (toks s') (pt_maps s')"
    unfolding tk pm
    by (rule recs_add [OF pt_okD(7) [OF p(1)] k _ _ ro refl]) (use p(2) dj dom_pleaves in \<open>simp_all add: nrf rkeys_def\<close>)
  have "as_pml4_phys a \<noteq> ?K" using a pt_okD(5) [OF p(1), of "as_pml4_phys a"] by auto
  then have kM: "M (?K, q) \<noteq> None" if "?M (?K, q) \<noteq> None" for q
    using that pleaves_None [of ?K "as_pml4_phys a"] by (simp add: map_add_def split: option.splits)
  have ok': "pt_ok sp R' ?M s'"
    by (rule pt_ok_restore [OF p(1) g pf(7) li tr' _ kM pm(2) rs]) (use p(2) in \<open>auto simp: tk nrf te_span_def split: if_splits\<close>)
  have spd: "te_span e' \<inter> dom R' = {}" if "toks s t = Some e'" for t e'
  proof -
    have "\<exists>e''. toks s' t = Some e'' \<and> te_span e'' = te_span e'" using that p(2) by (auto simp: tk nrf te_span_def)
    then show ?thesis using pt_okD(4) [OF ok'] by metis
  qed
  have "unpinned (toks s) (toks s')" using unpinned_upd [where T = "toks s" and t = tok, OF p(2)] by (simp add: tk nrf)
  then have tb: "tabled s s'"
    using g spd pf pm(2) unfolding tabled_def grown_def by (auto simp: disjoint_iff s')
  have "acct R s R' s'" using acct_grown [OF g] pf(7) by (simp add: acct_def s')
  moreover have "ffree (xm_phys s') = ffree (xm_phys s) - (dom R' - dom R)" using g pf(7) by (simp add: grown_def s')
  ultimately have "map_done sp R M s a virt tok perms s'"
    unfolding map_done_def by (intro exI [of _ R'] exI [of _ e] exI [of _ k] conjI) (use p(2) er lp rng dj ok' tk k pm ft in \<open>simp_all add: nr_def\<close>)
  with tb show ?thesis ..
qed

text \<open>The body of \<open>xas_map\<close> once its arguments are checked.\<close>

lemma xas_map_body:
  assumes ok: "pt_ok sp R M s" and a: "sp (as_pml4_phys a) = Some (as_owner_id a)" and lp: "legal_perms perms"
    and va: "virt AND (XERET_FRAME_SIZE - 1) = 0" "\<not> (virt < XAS_USER_BASE \<or> virt \<ge> XAS_USER_TOP)"
    and mp: "(rc, s') = (case xtok_map_acquire tok (as_owner_id a) (need_rights perms) s of
          (rc, None, s) \<Rightarrow> (map_err rc, s)
        | (rc, Some (phys, frames), s) \<Rightarrow>
            (if frames = 0 \<or> frames > (XAS_USER_TOP - virt) div XERET_FRAME_SIZE
             then (XAS_ERR_RANGE, xtok_map_release tok s)
             else (case free_record s of
               None \<Rightarrow> (XAS_ERR_NOMEM, xtok_map_release tok s)
             | Some k \<Rightarrow>
                 (case map_loop (as_pml4_phys a) virt phys (leaf_flags perms) [0..<unat frames] s of
                    (Some (r, i), s) \<Rightarrow> (r, xtok_map_release tok (unmap_pages (as_pml4_phys a) virt i s))
                  | (None, s) \<Rightarrow>
                      (XAS_OK, s\<lparr>pt_maps := (pt_maps s)[k := \<lparr>mr_as_pml4 = as_pml4_phys a, mr_owner = as_owner_id a, mr_virt = virt,
                         mr_tok = tok, mr_pages = frames, mr_live = True\<rparr>]\<rparr>)))))"
  shows "tabled s s' \<and> (if rc = XAS_OK then map_done sp R M s a virt tok perms s' else map_failed sp R M s s')"
proof -
  note d = pt_okD [OF ok]
  let ?P = "as_pml4_phys a" and ?K = "pt_pml4_phys s"
  obtain r0 out s1 where ac: "xtok_map_acquire tok (as_owner_id a) (need_rights perms) s = (r0, out, s1)" by (metis prod_cases3)
  note aq = xtok_map_acquire_spec [OF d(1) ac] and mp1 = mp [unfolded ac]
  show ?thesis
  proof (cases "r0 = 0")
    case False
    then have "out = None" "s1 = s" using aq(2) by auto
    then have "rc = map_err r0" "s' = s" using mp1 by auto
    then show ?thesis using ok by (auto simp: map_err_def tabled_def map_failed_def intro: acct_refl)
  next
    case True
    obtain e where e: "toks s tok = Some e" "out = Some (te_phys e, te_frames e)" "recounted tok (te_map_count e + 1) s s1"
      using aq(3) [OF True] by blast
    have "map_code (as_owner_id a) (need_rights perms) (Some e) = 0" using aq(1) True e(1) by simp
    then have er: "te_owner e = as_owner_id a" "te_rights e AND need_rights perms = need_rights perms" "te_map_count e \<noteq> 0xFFFF"
      by (auto simp: map_code_def split: if_splits)
    have pin: "pinned sp R M s tok e s1" using ok e er(3) by (simp add: pinned_def)
    note rf = recounted_fields [OF e(3)] and ps = pin_state [OF ok e(3)]
    have undo: "tabled s (xtok_map_release tok s1) \<and> map_failed sp R M s (xtok_map_release tok s1)"
      by (rule unpin_spec [OF pin ps(2) refl ps(1) grown_refl refl]) (use rf in simp_all)
    consider "te_frames e = 0 \<or> te_frames e > (XAS_USER_TOP - virt) div XERET_FRAME_SIZE"
      | "\<not> (te_frames e = 0 \<or> te_frames e > (XAS_USER_TOP - virt) div XERET_FRAME_SIZE)" "free_record s1 = None"
      | k where "\<not> (te_frames e = 0 \<or> te_frames e > (XAS_USER_TOP - virt) div XERET_FRAME_SIZE)" "free_record s1 = Some k" by blast
    then show ?thesis
    proof cases
      case 1
      then have "rc = XAS_ERR_RANGE" "s' = xtok_map_release tok s1" using mp1 e(2) by auto
      then show ?thesis using undo by simp
    next
      case 2
      then have "rc = XAS_ERR_NOMEM" "s' = xtok_map_release tok s1" using mp1 e(2) by auto
      then show ?thesis using undo by simp
    next
      case fr: 3
      have rng: "user_range virt (unat (te_frames e))" by (rule user_rangeI [OF va]) (use fr(1) in blast)
      have k: "k < 1024" "\<not> mr_live (pt_maps s ! k)" using fr(2) rf(5) by (auto simp: free_record_def find_Some_iff)
      obtain f where f: "R f = Some (?P, [])" "?P \<noteq> ?K" using a d(5) [of ?P] by auto
      let ?pl = "pleaves ?P virt (te_phys e) (leaf_flags perms)"
      obtain res s2 where lo: "map_loop ?P virt (te_phys e) (leaf_flags perms) [0..<unat (te_frames e)] s1 = (res, s2)" by fastforce
      have t0: "trees ?K R (M ++ ?pl 0) s1" using ps(1) by simp
      obtain R' n where ft: "fresh_tables R R' \<le> 3 * unat (te_frames e)" and n: "grown R s1 R' s2" "n \<le> unat (te_frames e)" "trees ?K R' (M ++ ?pl n) s2" "dom M \<inter> pkeys ?P virt n = {}"
        "case res of None \<Rightarrow> n = unat (te_frames e)
         | Some (r, i) \<Rightarrow> i = n \<and> n < unat (te_frames e) \<and> (r = XAS_ERR_BUSY \<and> M (?P, path4 (page virt n)) \<noteq> None \<or> r = XAS_ERR_NOMEM \<and> ffree (xm_phys s2) = {})"
        using map_loop_spec [OF t0 f rng leaf_flags_present _ _ lo] by auto
      show ?thesis
      proof (cases res)
        case (Some ri)
        obtain r i where ri: "ri = (r, i)" by (cases ri)
        have i: "i = n" "n < unat (te_frames e)" "r \<noteq> XAS_OK" using n(5) Some ri by auto
        have s': "rc = r" "s' = xtok_map_release tok (unmap_pages ?P virt n s2)" using mp1 e(2) fr lo Some ri i(1) by auto
        have rn: "user_range virt n" using rng i(2) by (auto simp: user_range_def)
        show ?thesis using unmap_back_spec [OF pin f rn n(1,4,3)] s' i(3) by simp
      next
        case None
        then have nn: "n = unat (te_frames e)" using n(5) by simp
        have s': "rc = XAS_OK" "s' = s2\<lparr>pt_maps := (pt_maps s2)[k := \<lparr>mr_as_pml4 = ?P, mr_owner = as_owner_id a, mr_virt = virt,
            mr_tok = tok, mr_pages = te_frames e, mr_live = True\<rparr>]\<rparr>" using mp1 e(2) fr lo None by auto
        show ?thesis using record_spec [OF pin n(1) k a er(1,2) lp rng n(4,3) [unfolded nn] s'(2) ft] s'(1) by simp
      qed
    qed
  qed
qed

lemma xas_map_spec:
  assumes ok: "pt_ok sp R M s" and a: "as_live a \<longrightarrow> sp (as_pml4_phys a) = Some (as_owner_id a)"
    and mp: "xas_map (Some a) virt tok perms s = (rc, s')"
  shows "tabled s s'" "rc = XAS_OK \<Longrightarrow> map_done sp R M s a virt tok perms s'" "rc \<noteq> XAS_OK \<Longrightarrow> map_failed sp R M s s'"
proof -
  have "tabled s s' \<and> (if rc = XAS_OK then map_done sp R M s a virt tok perms s' else map_failed sp R M s s')"
  proof (cases "\<not> as_live a \<or> \<not> legal_perms perms \<or> virt AND (XERET_FRAME_SIZE - 1) \<noteq> 0 \<or>
      virt < XAS_USER_BASE \<or> virt \<ge> XAS_USER_TOP \<or> owner_maps (as_owner_id a) s \<ge> XAS_MAX_MAPS_PER_OWNER")
    case True
    then have "rc \<noteq> XAS_OK \<and> s' = s" using mp by (auto simp: xas_map_def legal_perms_def split: if_split_asm)
    then show ?thesis using ok by (auto simp: tabled_def map_failed_def intro: acct_refl)
  next
    case False
    then have gd: "as_live a" "legal_perms perms" "virt AND (XERET_FRAME_SIZE - 1) = 0" "\<not> (virt < XAS_USER_BASE \<or> virt \<ge> XAS_USER_TOP)"
      "\<not> owner_maps (as_owner_id a) s \<ge> XAS_MAX_MAPS_PER_OWNER" by auto
    have c: "(Some a = None \<or> \<not> as_live a) = False"
      "(perms = 0 \<or> perms AND NOT (XPERM_R OR XPERM_W OR XPERM_X) \<noteq> 0) = False"
      "(perms AND XPERM_W \<noteq> 0 \<and> perms AND XPERM_X \<noteq> 0) = False" "(virt AND (XERET_FRAME_SIZE - 1) \<noteq> 0) = False"
      "(virt < XAS_USER_BASE \<or> virt \<ge> XAS_USER_TOP) = False" "(owner_maps (as_owner_id a) s \<ge> XAS_MAX_MAPS_PER_OWNER) = False"
      using gd by (auto simp: legal_perms_def)
    show ?thesis
    proof (rule xas_map_body [OF ok _ gd(2-4) mp [unfolded xas_map_def option.sel c(1-5) if_False Let_def c(6), symmetric]])
      show "sp (as_pml4_phys a) = Some (as_owner_id a)" using a gd(1) by blast
    qed
  qed
  then show "tabled s s'" "rc = XAS_OK \<Longrightarrow> map_done sp R M s a virt tok perms s'" "rc \<noteq> XAS_OK \<Longrightarrow> map_failed sp R M s s'"
    by auto
qed

end
