(* ===== verification/Paging_Life.thy ===== *)
theory Paging_Life
  imports Paging_Space
begin

text \<open>
  Creation and destruction of address spaces, unmapping and revocation. A new root shares the
  kernel's half and is empty below it; destruction frees every table of the root and nothing else.
\<close>

section \<open>New roots\<close>

lemma tree_new_root:
  assumes t: "tree K R M m tot" and k: "R k = Some (K, [])" and g: "R g = None" "0 < g" "g < tot"
    and m': "\<And>h j. h < tot \<Longrightarrow> j < 512 \<Longrightarrow> ent m' h j = (if h = g then (if adm K K [] j then ent m k j else 0) else ent m h j)"
  shows "tree K (R(g \<mapsto> (fa g, []))) M m' tot" "fa g \<noteq> K"
proof -
  note d = treeD [OF t]
  have kb: "k < tot" "k \<noteq> g" using d(2) [OF k] k g(1) by auto
  show gk: "fa g \<noteq> K"
  proof
    assume "fa g = K"
    then have "fa g = fa k" using d(3) [OF k] by simp
    moreover have "g < 33554432" "k < 33554432" using d(1) g(3) kb(1) by linarith+
    ultimately show False using fa_inj kb(2) by blast
  qed
  have e: "ent m' h j = ent m h j" if "R h = Some (Q, q)" "j < 512" for h Q q j
  proof -
    have "h < tot" "h \<noteq> g" using d(2) that(1) g(1) by auto
    then show ?thesis using m' that(2) by simp
  qed
  have ea: "ent m' h j = ent m h j" if "R h = Some (Q, q)" "adm K Q' q' j" for h Q q j Q' q'
    using e [OF that(1)] that(2) by (simp add: adm_def)
  have eg: "ent m' g j = 0" if "adm K (fa g) [] j" for j
    using m' [OF g(3), of j] that gk by (auto simp: adm_def)
  let ?R = "R(g \<mapsto> (fa g, []))"
  have old: "R h = Some (Q, q)" if "?R h = Some (Q, q)" "h \<noteq> g" for h Q q using that by simp
  have nog: "Q \<noteq> fa g" if "R h = Some (Q, q)" for h Q q
  proof
    assume "Q = fa g"
    have "\<exists>h. R h = Some (Q, [])" using that
    proof (induction q arbitrary: h rule: rev_induct)
      case (snoc i q)
      then show ?case using d(5) by blast
    qed blast
    then obtain h' where h': "R h' = Some (fa g, [])" using \<open>Q = fa g\<close> by blast
    then have "fa h' = fa g" "h' < 33554432" "g < 33554432" using d(1,2,3) h' g(3) by (metis, meson less_le_trans, linarith)
    then show False using fa_inj h' g(1) by auto
  qed
  show "tree K ?R M m' tot"
  proof (rule treeI [OF d(1)])
    show "0 < h \<and> h < tot \<and> length q \<le> 3" if "?R h = Some (Q, q)" for h Q q
      using that g d(2) by (cases "h = g") auto
    show "Q = fa h" if "?R h = Some (Q, [])" for h Q using that d(3) by (cases "h = g") auto
    show "\<exists>x. ent m' h j = ptr x (fl K Q) \<and> ?R x = Some (Q, q @ [j])"
      if r: "?R h = Some (Q, q)" "adm K Q q j" "bit (ent m' h j) 0" "\<not> is_leaf q (ent m' h j)" for h Q q j
    proof (cases "h = g")
      case True
      then show ?thesis using r eg by auto
    next
      case False
      note rh = old [OF r(1) False]
      obtain x where x: "ent m h j = ptr x (fl K Q)" "R x = Some (Q, q @ [j])"
        using d(4) [OF rh r(2)] r(3,4) unfolding ea [OF rh r(2)] by blast
      have "x \<noteq> g" using x(2) g(1) by auto
      then show ?thesis using x ea [OF rh r(2)] by auto
    qed
    show "\<exists>x. ?R x = Some (Q, q) \<and> adm K Q q j \<and> ent m' x j = ptr h (fl K Q)" if r: "?R h = Some (Q, q @ [j])" for h Q q j
    proof -
      have "h \<noteq> g" using r by auto
      note rh = old [OF r this]
      obtain x where x: "R x = Some (Q, q)" "adm K Q q j" "ent m x j = ptr h (fl K Q)" using d(5) [OF rh] by blast
      have "x \<noteq> g" using x(1) g(1) by auto
      then show ?thesis using x ea [OF x(1,2)] by auto
    qed
    show "M (Q, q @ [j]) = Some w \<longleftrightarrow> (\<exists>h. ?R h = Some (Q, q) \<and> adm K Q q j \<and> w = ent m' h j \<and> is_leaf q w)" for Q q j w
    proof
      assume "M (Q, q @ [j]) = Some w"
      then obtain h where h: "R h = Some (Q, q)" "adm K Q q j" "w = ent m h j" "is_leaf q w" unfolding d(6) by blast
      have "h \<noteq> g" using h(1) g(1) by auto
      then have "?R h = Some (Q, q)" "w = ent m' h j" using h(1,3) ea [OF h(1,2)] by auto
      then show "\<exists>h. ?R h = Some (Q, q) \<and> adm K Q q j \<and> w = ent m' h j \<and> is_leaf q w" using h(2,4) by blast
    next
      assume "\<exists>h. ?R h = Some (Q, q) \<and> adm K Q q j \<and> w = ent m' h j \<and> is_leaf q w"
      then obtain h where h: "?R h = Some (Q, q)" "adm K Q q j" "w = ent m' h j" "is_leaf q w" by blast
      have hg: "h \<noteq> g" using h by (auto simp: is_leaf_def)
      note rh = old [OF h(1) hg]
      then show "M (Q, q @ [j]) = Some w" unfolding d(6) using h(2-4) ea [OF rh h(2)] by auto
    qed
    show "ent m' h j = ent m' l j" if r: "?R h = Some (Q, [])" "?R l = Some (K, [])" "Q \<noteq> K" "adm K K [] j" for h l Q j
    proof -
      have lg: "l \<noteq> g" using r(2) gk by auto
      note rl = old [OF r(2) lg]
      have "l = k" by (rule role_unique [OF t rl k])
      show ?thesis
      proof (cases "h = g")
        case True
        have "j < 512" using r(4) by (simp add: adm_def)
        then show ?thesis using True r(4) m' [OF g(3)] ea [OF rl r(4)] \<open>l = k\<close> by simp
      next
        case False
        note rh = old [OF r(1) False]
        show ?thesis using d(9) [OF rh rl r(3,4)] ea [OF rh r(4)] ea [OF rl r(4)] by simp
      qed
    qed
    show "\<not> bit (ent m' l j) 0" if r: "?R l = Some (K, [])" "1 \<le> j" "j < 256" for l j
    proof -
      have "l \<noteq> g" using r(1) gk by auto
      note rl = old [OF r(1) this]
      show ?thesis using d(10) [OF rl r(2,3)] e [OF rl, of j] r(3) by simp
    qed
  qed (use d in auto)
qed

section \<open>Dropping a root\<close>

definition sub :: "roles \<Rightarrow> u64 \<Rightarrow> nat list \<Rightarrow> nat set" where
  "sub R P p = {f. \<exists>q. R f = Some (P, p @ q)}"

lemma tree_drop_root:
  assumes t: "tree K R M m tot" and P: "P \<noteq> K" "\<And>q. M (P, q) = None"
  shows "tree K (R |` (- sub R P [])) M m tot"
proof -
  note d = treeD [OF t]
  let ?R = "R |` (- sub R P [])"
  have r: "?R f = Some (Q, q) \<longleftrightarrow> R f = Some (Q, q) \<and> Q \<noteq> P" for f Q q
    by (auto simp: restrict_map_def sub_def)
  show ?thesis
  proof (rule treeI [OF d(1)])
    show "M (Q, q @ [j]) = Some w \<longleftrightarrow> (\<exists>h. ?R h = Some (Q, q) \<and> adm K Q q j \<and> w = ent m h j \<and> is_leaf q w)" for Q q j w
    proof (cases "Q = P")
      case True
      then show ?thesis using P(2) by (simp add: r)
    next
      case False
      then show ?thesis unfolding d(6) r by blast
    qed
  qed (use d P(1) in \<open>auto simp: r\<close>)
qed

section \<open>Creation\<close>

lemma copy_entries:
  assumes kg: "k \<noteq> g" "k < 33554432" "g < 33554432" and js: "\<forall>j \<in> set js. j < 512"
  shows "\<exists>m'. fold (\<lambda>i s. tbl_set (fa g) (of_nat i) (tbl_get (fa k) (of_nat i) s) s) js s = s\<lparr>xm_mem := m'\<rparr> \<and>
    (\<forall>h < 33554432. \<forall>j < 512. ent m' h j = (if h = g \<and> j \<in> set js then ent (xm_mem s) k j else ent (xm_mem s) h j)) \<and>
    (\<forall>x. unat x div 4096 \<noteq> g \<longrightarrow> m' x = xm_mem s x)"
  using js
proof (induction js arbitrary: s)
  case Nil
  then show ?case by (intro exI [of _ "xm_mem s"]) simp
next
  case (Cons i js)
  let ?s = "tbl_set (fa g) (of_nat i) (tbl_get (fa k) (of_nat i) s) s"
  have i: "i < 512" using Cons.prems by simp
  have m1: "xm_mem ?s = store64 (xm_mem s) (ea g i) (ent (xm_mem s) k i)" by (simp add: tbl_set_mem tbl_get_ent)
  have e1: "ent (xm_mem ?s) h j = (if h = g \<and> j = i then ent (xm_mem s) k i else ent (xm_mem s) h j)"
    if "h < 33554432" "j < 512" for h j unfolding m1 by (rule ent_store [OF kg(3) i that])
  obtain m' where m': "fold (\<lambda>i s. tbl_set (fa g) (of_nat i) (tbl_get (fa k) (of_nat i) s) s) js ?s = ?s\<lparr>xm_mem := m'\<rparr>"
    "\<forall>h < 33554432. \<forall>j < 512. ent m' h j = (if h = g \<and> j \<in> set js then ent (xm_mem ?s) k j else ent (xm_mem ?s) h j)"
    "\<forall>x. unat x div 4096 \<noteq> g \<longrightarrow> m' x = xm_mem ?s x" using Cons.IH [of ?s] Cons.prems by auto
  have "?s\<lparr>xm_mem := m'\<rparr> = s\<lparr>xm_mem := m'\<rparr>" by (simp add: tbl_set_mem)
  moreover have "ent m' h j = (if h = g \<and> j \<in> set (i # js) then ent (xm_mem s) k j else ent (xm_mem s) h j)"
    if hj: "h < 33554432" "j < 512" for h j using m'(2) hj e1 [OF hj] e1 [OF kg(2) hj(2)] kg(1) by auto
  moreover have "m' x = xm_mem s x" if "unat x div 4096 \<noteq> g" for x
    using m'(3) that store_outside [OF kg(3) i that] by (simp add: m1)
  ultimately show ?case using m'(1) by auto
qed

lemma ledger_inv_taken:
  assumes inv: "ledger_inv s" and rdy: "phys_ready (xm_phys s')" and ps: "phys_same (xm_phys s) (xm_phys s')"
    and f: "ffree (xm_phys s') \<subseteq> ffree (xm_phys s)" and m: "lg_table s' = lg_table s" "lg_live s' = lg_live s"
  shows "ledger_inv s'"
proof (rule ledger_inv_pool [OF inv rdy _ _ m refl])
  show "pb_total (xm_phys s') = pb_total (xm_phys s)" using ps by (simp add: phys_same_def)
  show "te_span (lg_table s ! i) \<inter> ffree (xm_phys s') = {}" if "i < 4096" "te_live (lg_table s ! i)" for i
    using ledger_invD(3) [OF inv that(1)] that(2) f by (auto simp: entry_ok_def)
qed

lemma span_not_free: "ledger_inv s \<Longrightarrow> toks s t = Some e \<Longrightarrow> te_span e \<inter> ffree (xm_phys s) = {}"
proof -
  assume inv: "ledger_inv s" and t: "toks s t = Some e"
  obtain i where i: "lookup_live t s = Some i" "e = lg_table s ! i" using t by (auto simp: toks_Some_iff)
  show ?thesis using ledger_invD(3) [OF inv lookup_liveD(1) [OF i(1)]] lookup_liveD(2) [OF i(1)] i(2) by (simp add: entry_ok_def)
qed

lemma recs_space_add:
  assumes r: "recs K sp M T maps" and P: "sp P = None"
  shows "recs K (sp(P \<mapsto> v)) M T maps"
proof (rule recsI [OF recs1 [OF r] _ recs3 [OF r] recs4 [OF r] recs5 [OF r]])
  fix k assume k: "k < 1024" "mr_live (maps ! k)"
  show "rec_ok (sp(P \<mapsto> v)) M T (maps ! k)"
    using recs2 [OF r k] P by (auto simp: rec_ok_def)
qed auto

lemma recs_space_del:
  assumes r: "recs K sp M T maps" and P: "\<And>k. k < 1024 \<Longrightarrow> mr_live (maps ! k) \<Longrightarrow> mr_as_pml4 (maps ! k) \<noteq> P"
  shows "recs K (sp(P := None)) M T maps"
proof (rule recsI [OF recs1 [OF r] _ recs3 [OF r] recs4 [OF r] recs5 [OF r]])
  fix k assume k: "k < 1024" "mr_live (maps ! k)"
  show "rec_ok (sp(P := None)) M T (maps ! k)"
    using recs2 [OF r k] P [OF k] by (auto simp: rec_ok_def)
qed auto

definition created :: "(u64 \<rightharpoonup> u32) \<Rightarrow> roles \<Rightarrow> leaves \<Rightarrow> 'a Paging_scheme \<Rightarrow> u32 \<Rightarrow> XAspace \<Rightarrow> 'a Paging_scheme \<Rightarrow> bool" where
  "created sp R M s owner a s' \<longleftrightarrow> as_live a \<and> as_owner_id a = owner \<and> owner \<noteq> 0 \<and> sp (as_pml4_phys a) = None \<and>
     (\<exists>R'. pt_ok (sp(as_pml4_phys a \<mapsto> owner)) R' M s' \<and> acct R s R' s') \<and> toks s' = toks s \<and> pt_maps s' = pt_maps s \<and> tabled s s' \<and>
     (\<exists>g. ffree (xm_phys s') = ffree (xm_phys s) - {g})"

text \<open>The entries of the new root \<open>g\<close>: the kernel's in the shared half, none in the user half.\<close>

lemma share_kernel_half:
  assumes k: "pt_pml4_phys s1 = fa k" "k \<noteq> g" "k < 33554432" "g < 33554432"
    and z: "\<And>h j. h < 33554432 \<Longrightarrow> j < 512 \<Longrightarrow> ent (xm_mem s1) h j = (if h = g then 0 else ent m h j)"
  shows "\<exists>m'. fold (\<lambda>i s. tbl_set (fa g) (of_nat i) (tbl_get (pt_pml4_phys s) (of_nat i) s) s) (0 # [XPT_KERNEL_HALF..<XPT_ENTS]) s1 = s1\<lparr>xm_mem := m'\<rparr> \<and>
    (\<forall>h < 33554432. \<forall>j < 512. ent m' h j = (if h = g then (if j = 0 \<or> 256 \<le> j then ent m k j else 0) else ent m h j)) \<and>
    (\<forall>x. unat x div 4096 \<noteq> g \<longrightarrow> m' x = xm_mem s1 x)"
proof -
  define js where "js = 0 # [XPT_KERNEL_HALF..<XPT_ENTS]"
  have js: "j \<in> set js \<longleftrightarrow> j = 0 \<or> 256 \<le> j \<and> j < 512" for j by (auto simp: js_def simp del: upt_rec_numeral)
  have jb: "\<forall>j \<in> set js. j < 512" using js by (metis zero_less_numeral)
  have frz: "fold (\<lambda>i s. tbl_set (fa g) (of_nat i) (tbl_get (pt_pml4_phys s) (of_nat i) s) s) js z =
      fold (\<lambda>i s. tbl_set (fa g) (of_nat i) (tbl_get (fa k) (of_nat i) s) s) js z" if "pt_pml4_phys z = fa k" for js and z :: "'a Paging_scheme"
    using that
  proof (induction js arbitrary: z)
    case (Cons i js)
    have "pt_pml4_phys (tbl_set (fa g) (of_nat i) (tbl_get (fa k) (of_nat i) z) z) = fa k" using Cons.prems by (simp add: tbl_set_def)
    then show ?case using Cons by simp
  qed simp
  obtain m' where m': "fold (\<lambda>i s. tbl_set (fa g) (of_nat i) (tbl_get (fa k) (of_nat i) s) s) js s1 = s1\<lparr>xm_mem := m'\<rparr>"
    "\<forall>h < 33554432. \<forall>j < 512. ent m' h j = (if h = g \<and> j \<in> set js then ent (xm_mem s1) k j else ent (xm_mem s1) h j)"
    "\<forall>x. unat x div 4096 \<noteq> g \<longrightarrow> m' x = xm_mem s1 x"
    using copy_entries [OF k(2-4) jb, of s1] by (elim exE conjE) (rule that)
  have "ent m' h j = (if h = g then (if j = 0 \<or> 256 \<le> j then ent m k j else 0) else ent m h j)" if "h < 33554432" "j < 512" for h j
    using m'(2) that z [OF k(3) that(2)] z [OF that] k(2) js by auto
  then show ?thesis unfolding js_def [symmetric] using frz [OF k(1)] m'(1,3) by auto
qed

lemma new_space_ok:
  assumes ok: "pt_ok sp R M s" and k: "R k = Some (pt_pml4_phys s, [])" and ow: "owner \<noteq> 0"
    and g: "g \<in> ffree (xm_phys s)" "0 < g" "g < unat (pb_total (xm_phys s))"
    and p: "phys_ready (xm_phys s')" "phys_same (xm_phys s) (xm_phys s')" "ffree (xm_phys s') = ffree (xm_phys s) - {g}"
    and m: "Xmach.more s' = Xmach.more s" "\<And>x. unat x div 4096 \<noteq> g \<Longrightarrow> xm_mem s' x = xm_mem s x"
    and em: "\<And>h j. h < 33554432 \<Longrightarrow> j < 512 \<Longrightarrow>
      ent (xm_mem s') h j = (if h = g then (if j = 0 \<or> 256 \<le> j then ent (xm_mem s) k j else 0) else ent (xm_mem s) h j)"
  shows "created sp R M s owner \<lparr>as_pml4_phys = fa g, as_owner_id = owner, as_live = True\<rparr> s'"
proof -
  note d = pt_okD [OF ok]
  let ?K = "pt_pml4_phys s" and ?R = "R(g \<mapsto> (fa g, []))"
  have tr: "tree ?K R M (xm_mem s) (unat (pb_total (xm_phys s)))" and dj: "dom R \<inter> ffree (xm_phys s) = {}"
    using d(2) by (auto simp: trees_def)
  note td = treeD [OF tr]
  have ng: "R g = None" using g(1) dj by (auto simp: disjoint_iff)
  have gb: "g < 33554432" "k \<noteq> g" using g(3) td(1) ng k by auto
  have "ent (xm_mem s') h j = (if h = g then (if adm ?K ?K [] j then ent (xm_mem s) k j else 0) else ent (xm_mem s) h j)"
    if "h < unat (pb_total (xm_phys s))" "j < 512" for h j using em [of h j] that td(1) by (auto simp: adm_def)
  note nr = tree_new_root [OF tr k ng g(2,3) this]
  note xf = xmach_more_fields [OF m(1)] and lf = ledger_more_fields [OF xmach_more_fields(4) [OF m(1)]]
  have tk: "toks s' = toks s" by (rule toks_cong [OF xf(1)])
  have trs: "trees ?K ?R M s'" using nr(1) p dj by (auto simp: trees_def phys_same_def)
  have li: "ledger_inv s'" by (rule ledger_inv_taken [OF d(1) p(1,2) _ xf(1,2)]) (use p(3) in auto)
  have spn: "te_span e \<inter> dom ?R = {}" if "toks s' t = Some e" for t e
    using d(4) [of t e] span_not_free [OF d(1), of t e] that g(1) tk by auto
  have rg: "R f \<noteq> Some (fa g, [])" for f
  proof
    assume f: "R f = Some (fa g, [])"
    then have "fa f = fa g" "f < 33554432" using td(1,3) td(2) [OF f] by auto
    then show False using fa_inj gb(1) f ng by auto
  qed
  then have sn: "sp (fa g) = None" using d(5) [of "fa g"] by auto
  have dm: "Q \<in> dom (sp(fa g \<mapsto> owner)) \<longleftrightarrow> Q \<noteq> ?K \<and> (\<exists>f. ?R f = Some (Q, []))" for Q
  proof (cases "Q = fa g")
    case True
    then show ?thesis using nr(2) by auto
  next
    case False
    have "(\<exists>f. ?R f = Some (Q, [])) \<longleftrightarrow> (\<exists>f. R f = Some (Q, []))"
      using False ng by (metis fun_upd_apply option.distinct(1) option.inject prod.inject)
    then show ?thesis using d(5) [of Q] False by auto
  qed
  have kr: "kern_roles ?K ?R M" by (rule kern_roles_mono [OF d(3)]) (use ng in auto)
  have "pt_ok (sp(fa g \<mapsto> owner)) ?R M s'"
    unfolding pt_ok_def lf(1,3)
    using li trs kr ng spn dm ow d(6) recs_space_add [OF d(7) sn, of owner] tk gb(2) by (auto split: if_splits)
  moreover have "acct R s ?R s'" using p(3) g(1) by (auto simp: acct_def)
  moreover have "xm_mem s' x = xm_mem s x" if "toks s t = Some e" "unat x div 4096 \<in> te_span e" for t e x
    by (rule m(2)) (use span_not_free [OF d(1) that(1)] that(2) g(1) in auto)
  then have "tabled s s'" using p(2,3) lf tk unfolding tabled_def by auto
  ultimately show ?thesis using ow sn tk lf(3) p(3) by (auto simp: created_def)
qed

lemma xas_create_spec:
  assumes ok: "pt_ok sp R M s" and cr: "xas_create (Some a0) owner s = (rc, a, s')"
  shows "if rc = XAS_OK then \<exists>b. a = Some b \<and> created sp R M s owner b s'
    else a = Some a0 \<and> s' = s \<and> (owner = 0 \<and> rc = XAS_ERR_ARG \<or> ffree (xm_phys s) = {} \<and> rc = XAS_ERR_NOMEM)"
proof -
  note d = pt_okD [OF ok]
  let ?K = "pt_pml4_phys s"
  have tr: "tree ?K R M (xm_mem s) (unat (pb_total (xm_phys s)))" and rdy: "phys_ready (xm_phys s)"
    and dj: "dom R \<inter> ffree (xm_phys s) = {}" using d(2) by (auto simp: trees_def)
  note td = treeD [OF tr]
  obtain k where k: "R k = Some (?K, [])" using d(3) by (auto simp: kern_roles_def)
  have Kk: "?K = fa k" by (rule td(3) [OF k])
  have kb: "0 < k" "k < 33554432" using td(1) td(2) [OF k] by linarith+
  have K0: "?K \<noteq> 0" using fa_unat [OF kb(2)] kb(1) Kk by auto
  obtain b s1 where al: "alloc_zero_table s = (b, s1)" by fastforce
  note as = alloc_zero_table_spec [OF rdy al]
  consider "owner = 0" | "owner \<noteq> 0" "b = 0" | "owner \<noteq> 0" "b \<noteq> 0" by blast
  then show ?thesis
  proof cases
    case 1
    then show ?thesis using cr by (auto simp: xas_create_def)
  next
    case 2
    then show ?thesis using cr K0 al as(1) by (auto simp: xas_create_def)
  next
    case 3
    obtain g where g: "b = fa g" "g \<in> ffree (xm_phys s)" "0 < g" "g < unat (pb_total (xm_phys s))"
      and s1: "phys_ready (xm_phys s1)" "phys_same (xm_phys s) (xm_phys s1)" "ffree (xm_phys s1) = ffree (xm_phys s) - {g}"
        "xm_mem s1 = (\<lambda>x. if unat x div 4096 = g then 0 else xm_mem s x)" "Xmach.more s1 = Xmach.more s"
      using as(2) 3(2) by blast
    have gb: "g < 33554432" "k \<noteq> g" using g(2,4) td(1) dj k by (auto simp: disjoint_iff)
    note lf = ledger_more_fields [OF xmach_more_fields(4) [OF s1(5)]]
    have e1: "ent (xm_mem s1) h j = (if h = g then 0 else ent (xm_mem s) h j)" if "h < 33554432" "j < 512" for h j
      using ent_zero [OF that, of "xm_mem s1"] ent_cong [OF that, of "xm_mem s1" "xm_mem s"] by (auto simp: s1(4))
    have chk: "\<not> (\<exists>i \<in> set [1..<XPT_KERNEL_HALF]. tbl_get (pt_pml4_phys s1) (of_nat i) s1 AND XPT_PRESENT \<noteq> 0)"
      using e1 [OF kb(2)] gb(2) td(10) [OF k] by (auto simp: lf(1) Kk tbl_get_ent present_iff)
    obtain m' where m': "fold (\<lambda>i s. tbl_set (fa g) (of_nat i) (tbl_get (pt_pml4_phys s) (of_nat i) s) s) (0 # [XPT_KERNEL_HALF..<XPT_ENTS]) s1 = s1\<lparr>xm_mem := m'\<rparr>"
      "\<forall>h < 33554432. \<forall>j < 512. ent m' h j = (if h = g then (if j = 0 \<or> 256 \<le> j then ent (xm_mem s) k j else 0) else ent (xm_mem s) h j)"
      "\<forall>x. unat x div 4096 \<noteq> g \<longrightarrow> m' x = xm_mem s1 x"
    proof -
      have "\<exists>m'. fold (\<lambda>i s. tbl_set (fa g) (of_nat i) (tbl_get (pt_pml4_phys s) (of_nat i) s) s) (0 # [XPT_KERNEL_HALF..<XPT_ENTS]) s1 = s1\<lparr>xm_mem := m'\<rparr> \<and>
        (\<forall>h < 33554432. \<forall>j < 512. ent m' h j = (if h = g then (if j = 0 \<or> 256 \<le> j then ent (xm_mem s) k j else 0) else ent (xm_mem s) h j)) \<and>
        (\<forall>x. unat x div 4096 \<noteq> g \<longrightarrow> m' x = xm_mem s1 x)"
        by (rule share_kernel_half [OF lf(1) [unfolded Kk] gb(2) kb(2) gb(1)]) (rule e1)
      then show thesis by (elim exE conjE) (rule that)
    qed
    have s': "rc = XAS_OK" "a = Some \<lparr>as_pml4_phys = fa g, as_owner_id = owner, as_live = True\<rparr>" "s' = s1\<lparr>xm_mem := m'\<rparr>"
      using cr 3 K0 al chk g(1) m'(1) unfolding xas_create_def by (auto simp: Let_def simp del: upt_rec_numeral)
    have "created sp R M s owner \<lparr>as_pml4_phys = fa g, as_owner_id = owner, as_live = True\<rparr> s'"
      by (rule new_space_ok [OF ok k 3(1) g(2-4)]) (simp_all add: s'(3) s1 m'(2,3))
    then show ?thesis using s'(1,2) by simp
  qed
qed

section \<open>Freeing the tables of a root\<close>

lemma ancestor:
  assumes t: "tree K R M m tot" and x: "R x = Some (P, p @ q)"
  shows "\<exists>h. R h = Some (P, p)"
  using x
proof (induction q arbitrary: x rule: rev_induct)
  case (snoc i q)
  then show ?case using tree5 [OF t, of x P "p @ q" i] by auto
qed auto

lemma sub_unfold:
  assumes t: "tree K R M m tot" and f: "R f = Some (P, p)"
  shows "sub R P p = insert f (\<Union>i \<in> {i. adm K P p i}. sub R P (p @ [i]))"
proof (intro equalityI subsetI)
  fix x assume "x \<in> sub R P p"
  then obtain q where q: "R x = Some (P, p @ q)" by (auto simp: sub_def)
  show "x \<in> insert f (\<Union>i \<in> {i. adm K P p i}. sub R P (p @ [i]))"
  proof (cases q)
    case Nil
    then show ?thesis using role_unique [OF t f, of x] q by simp
  next
    case (Cons i q')
    then have r: "R x = Some (P, (p @ [i]) @ q')" using q by simp
    obtain h where "R h = Some (P, p @ [i])" using ancestor [OF t r] by blast
    then have "adm K P p i" using tree5 [OF t] by blast
    moreover have "x \<in> sub R P (p @ [i])" using r by (auto simp: sub_def)
    ultimately show ?thesis by blast
  qed
next
  fix x assume "x \<in> insert f (\<Union>i \<in> {i. adm K P p i}. sub R P (p @ [i]))"
  then consider "x = f" | i q where "R x = Some (P, (p @ [i]) @ q)" by (auto simp: sub_def)
  then show "x \<in> sub R P p"
  proof cases
    case 1
    then show ?thesis using f unfolding sub_def by (intro CollectI exI [of _ "[]"]) simp
  next
    case 2
    then show ?thesis unfolding sub_def by (intro CollectI exI [of _ "i # q"]) simp
  qed
qed

lemma sub_empty:
  assumes t: "tree K R M m tot" and f: "R f = Some (P, p)" and e: "\<not> bit (ent m f i) 0"
  shows "sub R P (p @ [i]) = {}"
proof (rule ccontr)
  assume "sub R P (p @ [i]) \<noteq> {}"
  then obtain x q where "R x = Some (P, (p @ [i]) @ q)" by (auto simp: sub_def)
  then obtain h where "R h = Some (P, p @ [i])" using ancestor [OF t] by blast
  then obtain g where "R g = Some (P, p)" "ent m g i = ptr h (fl K P)" using tree5 [OF t] by blast
  then show False using role_unique [OF t f, of g] e by simp
qed

definition freed :: "nat set \<Rightarrow> 'a Xmach_scheme \<Rightarrow> 'a Xmach_scheme \<Rightarrow> bool" where
  "freed X s s' \<longleftrightarrow> phys_ready (xm_phys s') \<and> phys_same (xm_phys s) (xm_phys s') \<and>
     ffree (xm_phys s') = ffree (xm_phys s) \<union> X \<and> s' = s\<lparr>xm_phys := xm_phys s'\<rparr>"

lemma freed_refl: "phys_ready (xm_phys s) \<Longrightarrow> freed {} s s"
  by (simp add: freed_def)

lemma freed_trans: "freed X s s1 \<Longrightarrow> freed Y s1 s2 \<Longrightarrow> freed (X \<union> Y) s s2"
  unfolding freed_def
proof (intro conjI)
  assume a: "phys_ready (xm_phys s1) \<and> phys_same (xm_phys s) (xm_phys s1) \<and>
      ffree (xm_phys s1) = ffree (xm_phys s) \<union> X \<and> s1 = s\<lparr>xm_phys := xm_phys s1\<rparr>"
    and b: "phys_ready (xm_phys s2) \<and> phys_same (xm_phys s1) (xm_phys s2) \<and>
      ffree (xm_phys s2) = ffree (xm_phys s1) \<union> Y \<and> s2 = s1\<lparr>xm_phys := xm_phys s2\<rparr>"
  show "phys_same (xm_phys s) (xm_phys s2)" using a b phys_same_trans by blast
  show "s2 = s\<lparr>xm_phys := xm_phys s2\<rparr>" using a b by (metis Xmach.fold_congs(1) Xmach.surjective Xmach.update_convs(1))
qed auto

lemma free_frame_freed:
  assumes "phys_ready (xm_phys s)" "0 < f" "f < unat (pb_total (xm_phys s))"
  shows "freed {f} s (free_frame (fa f) s)"
proof -
  have "f < 33554432" using assms(1,3) by (auto simp: phys_ready_def phys_inv_def)
  moreover have "frun f 1 = {f}" by auto
  ultimately show ?thesis
    using phys_free_frames_spec [OF assms(1) fa_unat assms(2), of 1] assms(3) by (simp add: freed_def free_frame_def)
qed

text \<open>One level of the teardown: free what each present entry points to, then the table itself.\<close>

lemma free_level:
  assumes t: "tree K R M m tot" and f: "R f = Some (P, p)" and P: "P \<noteq> K" and p: "length p < 3"
    and js: "set js = {i. adm K P p i}"
    and s: "phys_ready (xm_phys s)" "xm_mem s = m" "unat (pb_total (xm_phys s)) = tot"
    and fr: "\<And>g i z. R g = Some (P, p @ [i]) \<Longrightarrow> phys_ready (xm_phys z) \<Longrightarrow> xm_mem z = m \<Longrightarrow>
      unat (pb_total (xm_phys z)) = tot \<Longrightarrow> freed (sub R P (p @ [i])) z (fr (fa g) z)"
  shows "freed (sub R P p) s (free_frame (fa f) (fold (\<lambda>i s. if tbl_get (fa f) (of_nat i) s AND XPT_PRESENT \<noteq> 0
      then fr (tbl_get (fa f) (of_nat i) s AND XPT_ADDR_MASK) s else s) js s))"
proof -
  note d = treeD [OF t]
  let ?h = "\<lambda>i s. if tbl_get (fa f) (of_nat i) s AND XPT_PRESENT \<noteq> 0
      then fr (tbl_get (fa f) (of_nat i) s AND XPT_ADDR_MASK) s else s"
  have keep: "phys_ready (xm_phys z) \<and> xm_mem z = m \<and> unat (pb_total (xm_phys z)) = tot" if "freed X s z" for X z
  proof -
    have "xm_mem z = xm_mem (s\<lparr>xm_phys := xm_phys z\<rparr>)" using that unfolding freed_def by metis
    then show ?thesis using that s by (auto simp: freed_def phys_same_def)
  qed
  have step: "freed (sub R P (p @ [i])) z (?h i z)" if fz: "freed X s z" and i: "adm K P p i" for X i z
  proof (cases "bit (ent m f i) 0")
    case True
    have pr: "tbl_get (fa f) (of_nat i) z = ent m f i" using keep [OF fz] by (simp add: tbl_get_ent)
    have nl: "\<not> is_leaf p (ent m f i)" by (rule user_step(1) [OF t f p i P])
    obtain g where g: "ent m f i = ptr g (fl K P)" "R g = Some (P, p @ [i])" using d(4) [OF f i True nl] by blast
    have "g < 33554432" using d(1) d(2) [OF g(2)] by simp
    then have "?h i z = fr (fa g) z" using pr True g(1) by (simp add: present_iff ptr_addr)
    then show ?thesis using fr [OF g(2)] keep [OF fz] by simp
  next
    case False
    have "?h i z = z" using keep [OF fz] False by (simp add: tbl_get_ent present_iff)
    then show ?thesis using freed_refl [of z] keep [OF fz] sub_empty [OF t f False] by simp
  qed
  have "freed (\<Union>i \<in> set l. sub R P (p @ [i])) s (fold ?h l s)" if "set l \<subseteq> {i. adm K P p i}" for l
    using that
  proof (induction l rule: rev_induct)
    case Nil
    then show ?case using freed_refl [of s] s(1) by simp
  next
    case (snoc i l)
    have ih: "freed (\<Union>i \<in> set l. sub R P (p @ [i])) s (fold ?h l s)" using snoc by simp
    have "freed ((\<Union>i \<in> set l. sub R P (p @ [i])) \<union> sub R P (p @ [i])) s (fold ?h (l @ [i]) s)"
      using freed_trans [OF ih step [OF ih]] snoc.prems by simp
    then show ?case by (simp add: Un_commute)
  qed
  note all = this [of js, unfolded js, OF subset_refl]
  have "freed {f} (fold ?h js s) (free_frame (fa f) (fold ?h js s))"
    by (rule free_frame_freed) (use keep [OF all] d(2) [OF f] in auto)
  from freed_trans [OF all this] show ?thesis unfolding sub_unfold [OF t f] by (simp add: Un_commute)
qed

lemma free_pml4_freed:
  assumes t: "tree K R M m tot" and f: "R f = Some (P, [])" and P: "P \<noteq> K"
    and s: "phys_ready (xm_phys s)" "xm_mem s = m" "unat (pb_total (xm_phys s)) = tot"
  shows "freed (sub R P []) s (free_pml4 P s)"
proof -
  note d = treeD [OF t]
  have all: "set [0..<XPT_ENTS] = {i. adm K P (a # p) i}" for a p by (auto simp: adm_def simp del: upt_rec_numeral)
  have user: "set [1..<XPT_KERNEL_HALF] = {i. adm K P [] i}" using P by (auto simp: adm_def simp del: upt_rec_numeral)
  have l3: "freed (sub R P [a, b, c]) z (free_frame (fa g) z)"
    if g: "R g = Some (P, [a, b, c])" and z: "phys_ready (xm_phys z)" "xm_mem z = m" "unat (pb_total (xm_phys z)) = tot"
    for a b c g and z :: "'a Xmach_scheme"
  proof -
    have "sub R P [a, b, c] = {g}"
    proof (intro equalityI subsetI)
      fix x assume "x \<in> sub R P [a, b, c]"
      then obtain q where q: "R x = Some (P, [a, b, c] @ q)" by (auto simp: sub_def)
      then have "q = []" using d(2) [OF q] by simp
      then show "x \<in> {g}" using role_unique [OF t g, of x] q by simp
    qed (use g in \<open>auto simp: sub_def\<close>)
    then show ?thesis using free_frame_freed [OF z(1), of g] d(2) [OF g] z(3) by simp
  qed
  have l2: "freed (sub R P [a, b]) z (free_pd (fa g) z)"
    if g: "R g = Some (P, [a, b])" and z: "phys_ready (xm_phys z)" "xm_mem z = m" "unat (pb_total (xm_phys z)) = tot"
    for a b g and z :: "'a Xmach_scheme"
    unfolding free_pd_def Let_def using l3 by (intro free_level [OF t g P _ all z]) auto
  have l1: "freed (sub R P [a]) z (free_pdpt (fa g) z)"
    if g: "R g = Some (P, [a])" and z: "phys_ready (xm_phys z)" "xm_mem z = m" "unat (pb_total (xm_phys z)) = tot"
    for a g and z :: "'a Xmach_scheme"
    unfolding free_pdpt_def Let_def using l2 by (intro free_level [OF t g P _ all z]) auto
  show ?thesis unfolding free_pml4_def Let_def d(3) [OF f]
    using l1 by (intro free_level [OF t f [unfolded d(3) [OF f]] P [unfolded d(3) [OF f]] _ user [unfolded d(3) [OF f]] s]) (auto simp: d(3) [OF f])
qed

section \<open>Destruction, unmapping and revocation\<close>

text \<open>What the operations that remove mappings leave alone: the tokens up to their mapping counts, and
  all memory outside the tables.\<close>

lemma keys_where_root:
  assumes r: "recs K sp M T maps" and P: "P \<noteq> K"
  shows "(M |` (- keys_where (\<lambda>r. mr_as_pml4 r = P) 1024 maps)) (P, q) = None"
proof (cases "M (P, q) = None")
  case True
  then show ?thesis by (simp add: restrict_map_def)
next
  case False
  obtain k where k: "k < 1024" "mr_live (maps ! k)" "(P, q) \<in> rkeys (maps ! k)" using recs3 [OF r False P] by blast
  then have "mr_as_pml4 (maps ! k) = P" by (auto simp: rkeys_def pkeys_def)
  then have "(P, q) \<in> keys_where (\<lambda>r. mr_as_pml4 r = P) 1024 maps" using k by (auto simp: keys_where_def)
  then show ?thesis by (simp add: restrict_map_def)
qed

lemma dead_where_live:
  assumes "k < length maps" "k < n" "mr_live (dead_where Q n maps ! k)"
  shows "dead_where Q n maps ! k = maps ! k" "\<not> Q (maps ! k)"
  using assms by (auto simp: dead_where_def split: if_splits)

lemma xas_destroy_spec:
  assumes ok: "pt_ok sp R M s" and a: "as_live a" "P = as_pml4_phys a" "sp P = Some owner"
    and ds: "xas_destroy (Some a) s = (b, s')"
  shows "b = Some (a\<lparr>as_live := False\<rparr>)"
    "pt_ok (sp(P := None)) (R |` (- sub R P [])) (M |` (- keys_where (\<lambda>r. mr_as_pml4 r = P) 1024 (pt_maps s))) s'"
    "acct R s (R |` (- sub R P [])) s'" "sub R P [] \<subseteq> ffree (xm_phys s')" "unpinned (toks s) (toks s')"
    "\<And>x. unat x div 4096 \<notin> dom R \<Longrightarrow> xm_mem s' x = xm_mem s x" "Paging.more s' = Paging.more s" "pt_mmio_next s' = pt_mmio_next s"
    "pt_maps s' = dead_where (\<lambda>r. mr_as_pml4 r = P) 1024 (pt_maps s)"
proof -
  let ?Q = "\<lambda>r. mr_as_pml4 r = P" and ?R = "R |` (- sub R P [])"
  obtain s1 n where f1: "fold (drop_where ?Q) [0..<1024] (s, 0) = (s1, n)" by fastforce
  note df = drop_fold_spec [OF ok order_refl f1]
  have ok1: "pt_ok sp R (M |` (- keys_where ?Q 1024 (pt_maps s))) s1" and dr: "dropped R s s1"
    and mp1: "pt_maps s1 = dead_where ?Q 1024 (pt_maps s)" using df by simp_all
  note d = pt_okD [OF ok1]
  have s': "b = Some (a\<lparr>as_live := False\<rparr>)" "s' = free_pml4 P s1" using ds a(1,2) f1 by (auto simp: xas_destroy_def)
  have K1: "pt_pml4_phys s1 = pt_pml4_phys s" using dr by (simp add: dropped_def)
  obtain f where f: "R f = Some (P, [])" "P \<noteq> pt_pml4_phys s1" using a(3) d(5) [of P] by auto
  have tr: "tree (pt_pml4_phys s1) R (M |` (- keys_where ?Q 1024 (pt_maps s))) (xm_mem s1) (unat (pb_total (xm_phys s1)))"
    and rdy: "phys_ready (xm_phys s1)" and dj: "dom R \<inter> ffree (xm_phys s1) = {}" using d(2) by (auto simp: trees_def)
  note fr = free_pml4_freed [OF tr f rdy refl refl, folded s'(2)]
  have fp: "phys_ready (xm_phys s')" "phys_same (xm_phys s1) (xm_phys s')" "ffree (xm_phys s') = ffree (xm_phys s1) \<union> sub R P []"
    and e: "s' = s1\<lparr>xm_phys := xm_phys s'\<rparr>" using fr by (simp_all add: freed_def)
  have fld: "xm_mem s' = xm_mem s1" "lg_table s' = lg_table s1" "lg_live s' = lg_live s1" "pt_pml4_phys s' = pt_pml4_phys s1"
    "pt_maps s' = pt_maps s1" "Paging.more s' = Paging.more s1" "pt_mmio_next s' = pt_mmio_next s1"
    by (subst e, simp)+
  have tk: "toks s' = toks s1" by (rule toks_cong [OF fld(2)])
  have rd: "dom ?R = dom R - sub R P []" by (simp add: dom_restrict Diff_eq)
  have sd: "sub R P [] \<subseteq> dom R" by (auto simp: sub_def)
  have tr': "trees (pt_pml4_phys s1) ?R (M |` (- keys_where ?Q 1024 (pt_maps s))) s'"
    using tree_drop_root [OF tr f(2) keys_where_root [OF pt_okD(7) [OF ok], of P]] f(2) K1 fp dj rd
    by (auto simp: trees_def fld(1) phys_same_def)
  have li: "ledger_inv s'"
  proof (rule ledger_inv_pool [OF d(1) fp(1) _ _ fld(2,3) refl])
    show "pb_total (xm_phys s') = pb_total (xm_phys s1)" using fp(2) by (simp add: phys_same_def)
    show "te_span (lg_table s1 ! i) \<inter> ffree (xm_phys s') = {}" if i: "i < 4096" "te_live (lg_table s1 ! i)" for i
    proof -
      have "te_generation (lg_table s1 ! i) \<noteq> 0" using ledger_invD(3) [OF d(1) i(1)] by (simp add: entry_ok_def)
      then have t: "toks s1 (pack_token (of_nat i) (te_generation (lg_table s1 ! i))) = Some (lg_table s1 ! i)"
        using toks_pack [OF i(1), of s1] i(2) pack_nonzero by simp
      show ?thesis using d(4) [OF t] span_not_free [OF d(1) t] fp(3) sd by blast
    qed
  qed
  have dm: "Q \<in> dom (sp(P := None)) \<longleftrightarrow> Q \<noteq> pt_pml4_phys s1 \<and> (\<exists>f. ?R f = Some (Q, []))" for Q
    using d(5) [of Q] by (auto simp: restrict_map_def sub_def split: if_splits)
  have nk: "mr_as_pml4 (pt_maps s1 ! k) \<noteq> P" if "k < 1024" "mr_live (pt_maps s1 ! k)" for k
    using dead_where_live(2) [of k "pt_maps s" 1024 ?Q] dead_where_live(1) [of k "pt_maps s" 1024 ?Q] that recs1 [OF pt_okD(7) [OF ok]] mp1 by simp
  have kr: "kern_roles (pt_pml4_phys s1) ?R (M |` (- keys_where ?Q 1024 (pt_maps s)))"
    by (rule kern_roles_mono [OF d(3)]) (use f(2) in \<open>auto simp: restrict_map_def sub_def\<close>)
  show "pt_ok (sp(P := None)) ?R (M |` (- keys_where ?Q 1024 (pt_maps s))) s'"
    unfolding pt_ok_def fld(4,5) tk using li tr' kr d(4,6) dm recs_space_del [OF d(7) nk] rd by auto
  show "b = Some (a\<lparr>as_live := False\<rparr>)" by (rule s'(1))
  show "acct R s ?R s'" using fp(3) rd sd dr by (auto simp: acct_def dropped_def)
  show "sub R P [] \<subseteq> ffree (xm_phys s')" using fp(3) by blast
  show "unpinned (toks s) (toks s')" "Paging.more s' = Paging.more s" "pt_mmio_next s' = pt_mmio_next s"
    using dr tk fld(6,7) by (simp_all add: dropped_def)
  show "xm_mem s' x = xm_mem s x" if "unat x div 4096 \<notin> dom R" for x using dr that fld(1) by (simp add: dropped_def)
  show "pt_maps s' = dead_where ?Q 1024 (pt_maps s)" using mp1 fld(5) by simp
qed

end
