(* ===== verification/Paging_Step.thy ===== *)
theory Paging_Step
  imports Paging_Life
begin

text \<open>
  Every operation of \<open>paging.c\<close> and \<open>token_ledger.c\<close>, on any arguments, keeps the invariant \<open>pt_inv\<close> of the
  address spaces, and with it the set of frames that are free, hold a table or belong to a token.
\<close>

section \<open>Accounting\<close>

lemma find_upt: "find P [a..<b] = Some k \<Longrightarrow> a \<le> k \<and> k < b \<and> P k"
  by (auto simp: find_Some_iff)

lemma spans_toks: "toks s' = toks s \<Longrightarrow> spans s' = spans s"
  by (simp add: spans_def)

lemma te_span_count [simp]: "te_span (e\<lparr>te_map_count := c\<rparr>) = te_span e"
  by (simp add: te_span_def)

lemma spans_unpinned:
  assumes "unpinned (toks s) (toks s')"
  shows "spans s' = spans s"
proof -
  have "x \<in> spans s' \<longleftrightarrow> x \<in> spans s" for x
  proof
    assume "x \<in> spans s'"
    then obtain t e' where t: "toks s' t = Some e'" "x \<in> te_span e'" by (auto simp: spans_def ran_def)
    then obtain e where e: "toks s t = Some e" using assms unfolding unpinned_def by (metis not_Some_eq)
    then obtain c where "toks s' t = Some (e\<lparr>te_map_count := c\<rparr>)" using assms unfolding unpinned_def by blast
    then have "x \<in> te_span e" using t by simp
    then show "x \<in> spans s" using e by (auto simp: spans_def ran_def)
  next
    assume "x \<in> spans s"
    then obtain t e where t: "toks s t = Some e" "x \<in> te_span e" by (auto simp: spans_def ran_def)
    then obtain c where "toks s' t = Some (e\<lparr>te_map_count := c\<rparr>)" using assms unfolding unpinned_def by blast
    moreover have "x \<in> te_span (e\<lparr>te_map_count := c\<rparr>)" using t(2) by simp
    ultimately show "x \<in> spans s'" unfolding spans_def ran_def by blast
  qed
  then show ?thesis by blast
qed

lemma pt_invI: "pt_ok sp R M s \<Longrightarrow> ffree (xm_phys s) \<union> dom R \<union> spans s = B \<Longrightarrow> mmio_ok (pt_mmio_next s) \<Longrightarrow> pt_inv B sp s"
  by (auto simp: pt_inv_def)

lemma pt_invE:
  assumes "pt_inv B sp s"
  obtains R M where "pt_ok sp R M s" "ffree (xm_phys s) \<union> dom R \<union> spans s = B" "mmio_ok (pt_mmio_next s)"
  using assms by (auto simp: pt_inv_def)

lemma pt_inv_acct:
  assumes "ffree (xm_phys s) \<union> dom R \<union> spans s = B" "mmio_ok (pt_mmio_next s)" "pt_ok sp' R' M' s'" "acct R s R' s'" "unpinned (toks s) (toks s')"
    "pt_mmio_next s' = pt_mmio_next s"
  shows "pt_inv B sp' s'"
  by (rule pt_invI [OF assms(3)]) (use assms(1,2,4,6) spans_unpinned [OF assms(5)] in \<open>simp_all add: acct_def\<close>)

section \<open>Operations on address spaces\<close>

lemma pt_inv_create:
  assumes "pt_inv B sp s" "xas_create (Some a0) owner s = (rc, a, s')"
  shows "if rc = XAS_OK then \<exists>b. a = Some b \<and> as_live b \<and> as_owner_id b = owner \<and> sp (as_pml4_phys b) = None \<and>
      pt_inv B (sp(as_pml4_phys b \<mapsto> owner)) s' else a = Some a0 \<and> s' = s"
proof -
  obtain R M where ok: "pt_ok sp R M s" and b: "ffree (xm_phys s) \<union> dom R \<union> spans s = B" "mmio_ok (pt_mmio_next s)"
    using assms(1) by (rule pt_invE)
  have "\<exists>b. a = Some b \<and> as_live b \<and> as_owner_id b = owner \<and> sp (as_pml4_phys b) = None \<and>
      pt_inv B (sp(as_pml4_phys b \<mapsto> owner)) s'" if c: "created sp R M s owner x s'" and x: "a = Some x" for x
  proof -
    obtain R' where r: "pt_ok (sp(as_pml4_phys x \<mapsto> owner)) R' M s'" "acct R s R' s'" using c by (auto simp: created_def)
    have "unpinned (toks s) (toks s')" "pt_mmio_next s' = pt_mmio_next s" using c by (simp_all add: created_def tabled_def)
    from pt_inv_acct [OF b r this] show ?thesis using c x by (simp add: created_def)
  qed
  then show ?thesis using xas_create_spec [OF ok assms(2)] by (auto split: if_splits)
qed

lemma pt_inv_map:
  assumes "pt_inv B sp s" "as_live a \<longrightarrow> sp (as_pml4_phys a) = Some (as_owner_id a)" "xas_map (Some a) virt tok perms s = (rc, s')"
  shows "pt_inv B sp s'"
proof -
  obtain R M where ok: "pt_ok sp R M s" and b: "ffree (xm_phys s) \<union> dom R \<union> spans s = B" "mmio_ok (pt_mmio_next s)"
    using assms(1) by (rule pt_invE)
  note m = xas_map_spec [OF ok assms(2,3)]
  have u: "unpinned (toks s) (toks s')" "pt_mmio_next s' = pt_mmio_next s" using m(1) by (simp_all add: tabled_def)
  show ?thesis
  proof (cases "rc = XAS_OK")
    case True
    from m(2) [OF this] show ?thesis unfolding map_done_def using pt_inv_acct [OF b _ _ u] by blast
  next
    case False
    from m(3) [OF this] show ?thesis unfolding map_failed_def using pt_inv_acct [OF b _ _ u] by blast
  qed
qed

lemma pt_inv_dropped:
  assumes "ffree (xm_phys s) \<union> dom R \<union> spans s = B" "mmio_ok (pt_mmio_next s)" "pt_ok sp R M' s'" "dropped R s s'"
  shows "pt_inv B sp s'"
  by (rule pt_inv_acct [OF assms(1-3)]) (use assms(4) in \<open>auto simp: dropped_def acct_def\<close>)

lemma pt_inv_unmap:
  assumes "pt_inv B sp s" "xas_unmap (Some a) virt s = (rc, s')"
  shows "pt_inv B sp s'"
proof -
  obtain R M where ok: "pt_ok sp R M s" and b: "ffree (xm_phys s) \<union> dom R \<union> spans s = B" "mmio_ok (pt_mmio_next s)"
    using assms(1) by (rule pt_invE)
  consider "s' = s" | k where "k < 1024" "mr_live (pt_maps s ! k)" "s' = drop_record k s"
  proof (cases "as_live a")
    case False
    then have "s' = s" using assms(2) by (simp add: xas_unmap_def)
    then show ?thesis by (rule that(1))
  next
    case True
    let ?f = "find (\<lambda>i. mr_live (pt_maps s ! i) \<and> mr_as_pml4 (pt_maps s ! i) = as_pml4_phys a \<and> mr_virt (pt_maps s ! i) = virt) [0..<XAS_MAX_MAPS]"
    have e: "(rc, s') = (case ?f of None \<Rightarrow> (XAS_ERR_NOTMAPPED, s) | Some k \<Rightarrow> (XAS_OK, drop_record k s))"
      using assms(2) True unfolding xas_unmap_def by (simp del: upt_rec_numeral)
    show ?thesis
    proof (cases ?f)
      case None
      then show ?thesis using e that(1) by simp
    next
      case (Some k)
      then show ?thesis using e find_upt [OF Some] by (intro that(2) [of k]) auto
    qed
  qed
  then show ?thesis
  proof cases
    case 1
    then show ?thesis using assms(1) by simp
  next
    case 2
    note d = drop_record_spec [OF ok 2(1,2)]
    show ?thesis unfolding 2(3) by (rule pt_inv_dropped [OF b d(1,3)])
  qed
qed

lemma pt_inv_revoke:
  assumes "pt_inv B sp s" "xas_revoke_token tok s = (rc, s')"
  shows "pt_inv B sp s'"
proof -
  obtain R M where ok: "pt_ok sp R M s" and b: "ffree (xm_phys s) \<union> dom R \<union> spans s = B" "mmio_ok (pt_mmio_next s)"
    using assms(1) by (rule pt_invE)
  obtain n where "fold (drop_where (\<lambda>r. mr_tok r = tok)) [0..<1024] (s, 0) = (s', n)"
    using assms(2) by (cases "fold (drop_where (\<lambda>r. mr_tok r = tok)) [0..<1024] (s, 0)") (simp add: xas_revoke_token_def del: upt_rec_numeral)
  from drop_fold_spec [OF ok order_refl this] show ?thesis using pt_inv_dropped [OF b] by blast
qed

lemma pt_inv_destroy:
  assumes "pt_inv B sp s" "as_live a" "sp (as_pml4_phys a) = Some owner" "xas_destroy (Some a) s = (b, s')"
  shows "b = Some (a\<lparr>as_live := False\<rparr>)" "pt_inv B (sp(as_pml4_phys a := None)) s'"
proof -
  obtain R M where ok: "pt_ok sp R M s" and bb: "ffree (xm_phys s) \<union> dom R \<union> spans s = B" "mmio_ok (pt_mmio_next s)"
    using assms(1) by (rule pt_invE)
  note d = xas_destroy_spec [OF ok assms(2) refl assms(3,4)]
  show "b = Some (a\<lparr>as_live := False\<rparr>)" by (rule d(1))
  show "pt_inv B (sp(as_pml4_phys a := None)) s'" by (rule pt_inv_acct [OF bb d(2,3,5,8)])
qed

section \<open>Operations on tokens\<close>

text \<open>The ledger writes only to frames that were free, so it leaves every table alone.\<close>

lemma pt_ok_tokens:
  assumes ok: "pt_ok sp R M s" and li: "ledger_inv s'" and mo: "Ledger.more s' = Ledger.more s" and ps: "phys_same (xm_phys s) (xm_phys s')"
    and fr: "ffree (xm_phys s') \<inter> dom R = {}" and mem: "\<And>x. unat x div 4096 \<in> dom R \<Longrightarrow> xm_mem s' x = xm_mem s x"
    and spn: "\<And>t e. toks s' t = Some e \<Longrightarrow> te_span e \<inter> dom R = {}"
    and rs: "recs (pt_pml4_phys s) sp M (toks s') (pt_maps s)"
  shows "pt_ok sp R M s'"
proof -
  note d = pt_okD [OF ok] and lf = ledger_more_fields [OF mo]
  have tr: "tree (pt_pml4_phys s) R M (xm_mem s) (unat (pb_total (xm_phys s)))" using d(2) by (simp add: trees_def)
  have "tree (pt_pml4_phys s) R M (xm_mem s') (unat (pb_total (xm_phys s)))" by (rule tree_mem [OF tr mem])
  moreover have "pb_total (xm_phys s') = pb_total (xm_phys s)" using ps by (simp add: phys_same_def)
  ultimately have "trees (pt_pml4_phys s) R M s'" using fr ledger_invD(1) [OF li] by (auto simp: trees_def)
  then show ?thesis unfolding pt_ok_def lf using li d(3,5,6) spn rs by blast
qed

lemma pt_ok_alloc:
  assumes ok: "pt_ok sp R M s" and al: "alloc_done owner rights n s tok s'"
  shows "pt_ok sp R M s'" "ffree (xm_phys s') \<union> spans s' = ffree (xm_phys s) \<union> spans s" "pt_mmio_next s' = pt_mmio_next s"
proof -
  note d = pt_okD [OF ok]
  have dj: "dom R \<inter> ffree (xm_phys s) = {}" using d(2) by (simp add: trees_def)
  have a: "ledger_inv s'" "Ledger.more s' = Ledger.more s" "phys_same (xm_phys s) (xm_phys s')" using al by (simp_all add: alloc_done_def)
  show "pt_mmio_next s' = pt_mmio_next s" by (rule ledger_more_fields(4) [OF a(2)])
  have "pt_ok sp R M s' \<and> ffree (xm_phys s') \<union> spans s' = ffree (xm_phys s) \<union> spans s"
  proof (cases "tok = 0")
    case True
    then have n: "lg_table s' = lg_table s" "ffree (xm_phys s') = ffree (xm_phys s)"
      "\<And>x. unat x div 4096 \<notin> ffree (xm_phys s) \<Longrightarrow> xm_mem s' x = xm_mem s x" using al by (simp_all add: alloc_done_def)
    have tk: "toks s' = toks s" by (rule toks_cong [OF n(1)])
    have "pt_ok sp R M s'"
      by (rule pt_ok_tokens [OF ok a]) (use n dj d(4,7) tk in auto)
    then show ?thesis using n(2) spans_toks [OF tk] by simp
  next
    case False
    then obtain e where e: "toks s tok = None" "ram_entry owner rights (te_phys e) n e" "toks s' = (toks s)(tok \<mapsto> e)"
      "te_span e \<subseteq> ffree (xm_phys s)" "ffree (xm_phys s') = ffree (xm_phys s) - te_span e"
      "xm_mem s' = (\<lambda>x. if unat x div 4096 \<in> te_span e then 0 else xm_mem s x)" using al by (auto simp: alloc_done_def)
    have c0: "te_map_count e = 0" using e(2) by (simp add: ram_entry_def)
    have spn: "te_span e' \<inter> dom R = {}" if "toks s' t = Some e'" for t e'
      using that e(3,4) dj d(4) by (cases "t = tok") auto
    have "pt_ok sp R M s'"
      by (rule pt_ok_tokens [OF ok a _ _ spn]) (use e dj recs_token_add [OF d(7) e(1) c0] in auto)
    moreover have "spans s' = spans s \<union> te_span e" using e(1) by (auto simp: spans_def e(3))
    ultimately show ?thesis using e(4,5) by auto
  qed
  then show "pt_ok sp R M s'" "ffree (xm_phys s') \<union> spans s' = ffree (xm_phys s) \<union> spans s" by simp_all
qed

lemma pt_ok_release:
  assumes ok: "pt_ok sp R M s" and rl: "released tok s s'"
  shows "pt_ok sp R M s'" "ffree (xm_phys s') \<union> spans s' = ffree (xm_phys s) \<union> spans s" "pt_mmio_next s' = pt_mmio_next s"
proof -
  note d = pt_okD [OF ok]
  have dj: "dom R \<inter> ffree (xm_phys s) = {}" using d(2) by (simp add: trees_def)
  have re: "ledger_inv s'" "Ledger.more s' = Ledger.more s" "xm_mem s' = xm_mem s" "phys_same (xm_phys s) (xm_phys s')"
    using rl by (simp_all add: released_def)
  obtain e where e: "toks s tok = Some e" "te_map_count e = 0" "toks s' = (toks s)(tok := None)" "ffree (xm_phys s') = ffree (xm_phys s) \<union> te_span e"
    using rl by (auto simp: released_def)
  have sd: "x \<notin> dom R" if "x \<in> te_span e" for x using d(4) [OF e(1)] that by blast
  show "pt_ok sp R M s'"
    by (rule pt_ok_tokens [OF ok re(1,2,4)]) (use e re(3) dj sd d(4) recs_token_del [OF d(7) e(1,2)] in \<open>auto split: if_splits\<close>)
  have "ran (toks s) = insert e (ran ((toks s)(tok := None)))" using e(1) ran_map_upd [of "(toks s)(tok := None)" tok e] by (simp add: fun_upd_idem)
  then have "spans s' \<union> te_span e = spans s" by (auto simp: spans_def e(3))
  then show "ffree (xm_phys s') \<union> spans s' = ffree (xm_phys s) \<union> spans s" using e(4) by blast
  show "pt_mmio_next s' = pt_mmio_next s" by (rule ledger_more_fields(4) [OF re(2)])
qed

lemma pt_inv_same:
  assumes "pt_inv B sp s" "\<And>R M. pt_ok sp R M s \<Longrightarrow> pt_ok sp R M s'" "ffree (xm_phys s') \<union> spans s' = ffree (xm_phys s) \<union> spans s"
    "pt_mmio_next s' = pt_mmio_next s"
  shows "pt_inv B sp s'"
proof -
  obtain R M where ok: "pt_ok sp R M s" and b: "ffree (xm_phys s) \<union> dom R \<union> spans s = B" "mmio_ok (pt_mmio_next s)"
    using assms(1) by (rule pt_invE)
  show ?thesis by (rule pt_invI [OF assms(2) [OF ok]]) (use assms(3,4) b in auto)
qed

lemma pt_inv_alloc:
  assumes "pt_inv B sp s" "alloc_done owner rights n s tok s'"
  shows "pt_inv B sp s'"
proof -
  obtain R M where ok: "pt_ok sp R M s" using assms(1) by (rule pt_invE)
  show ?thesis by (rule pt_inv_same [OF assms(1) pt_ok_alloc(1) [OF _ assms(2)] pt_ok_alloc(2,3) [OF ok assms(2)]])
qed

lemma pt_inv_release:
  assumes "pt_inv B sp s" "release_impl tok cr co owner s = (rc, s')"
  shows "pt_inv B sp s'"
proof (cases "rc = 0")
  case True
  obtain R M where ok: "pt_ok sp R M s" using assms(1) by (rule pt_invE)
  have rl: "released tok s s'" using release_impl_spec(3) [OF pt_okD(1) [OF ok] assms(2) True] .
  show ?thesis by (rule pt_inv_same [OF assms(1) pt_ok_release(1) [OF _ rl] pt_ok_release(2,3) [OF ok rl]])
next
  case False
  then show ?thesis using release_impl_spec(2) [OF _ assms(2)] assms(1) by (auto simp: pt_inv_def dest: pt_okD(1))
qed

end
