(* ===== verification/Paging_Mmu.thy ===== *)
theory Paging_Mmu
  imports Paging_Step
begin

text \<open>
  The processor's four-level translation, written from the architecture manual and independent of the
  code: an address must be canonical, every level must be present, a set PS bit ends the walk early,
  and an access is allowed for user mode, writing or execution when every level allows it (NX is on);
  the last level's PCD bit makes it uncached.
  The section shows what the walk of a live address space can give a user program.
\<close>

section \<open>The walk\<close>

record Access =
  ac_phys :: u64
  ac_user :: bool
  ac_write :: bool
  ac_exec :: bool
  ac_uncached :: bool

definition canonical :: "u64 \<Rightarrow> bool" where
  "canonical va \<longleftrightarrow> unat va < 2 ^ 47 \<or> 2 ^ 64 - 2 ^ 47 \<le> unat va"

definition access :: "u64 \<Rightarrow> u64 list \<Rightarrow> Access" where
  "access pa es = \<lparr>ac_phys = pa, ac_user = list_all (\<lambda>e. bit e 2) es, ac_write = list_all (\<lambda>e. bit e 1) es,
     ac_exec = list_all (\<lambda>e. \<not> bit e 63) es, ac_uncached = bit (last es) 4\<rparr>"

definition mmu :: "mem \<Rightarrow> u64 \<Rightarrow> u64 \<Rightarrow> Access option" where
  "mmu m cr3 va =
     (if \<not> canonical va then None
      else (let e4 = load64 m ((cr3 AND 0x000FFFFFFFFFF000) + of_nat (ix 39 va) * 8) in
        if \<not> bit e4 0 then None
        else (let e3 = load64 m ((e4 AND 0x000FFFFFFFFFF000) + of_nat (ix 30 va) * 8) in
          if \<not> bit e3 0 then None
          else if bit e3 7 then Some (access ((e3 AND 0x000FFFFFC0000000) OR (va AND 0x3FFFFFFF)) [e4, e3])
          else (let e2 = load64 m ((e3 AND 0x000FFFFFFFFFF000) + of_nat (ix 21 va) * 8) in
            if \<not> bit e2 0 then None
            else if bit e2 7 then Some (access ((e2 AND 0x000FFFFFFFE00000) OR (va AND 0x1FFFFF)) [e4, e3, e2])
            else (let e1 = load64 m ((e2 AND 0x000FFFFFFFFFF000) + of_nat (ix 12 va) * 8) in
              if \<not> bit e1 0 then None
              else Some (access ((e1 AND 0x000FFFFFFFFFF000) OR (va AND 0xFFF)) [e4, e3, e2, e1]))))))"

lemma load_entry: "load64 m (fa f + of_nat i * 8) = ent m f i"
  by (simp add: ent_def fa_def ea_def)

section \<open>The shared half\<close>

text \<open>Entries of the kernel's half are the kernel's own, and those give user mode nothing.\<close>

lemma mmu_kernel_half:
  assumes ok: "pt_ok sp R M s" and f: "R f = Some (P, [])" and i: "ix 39 va = 0 \<or> 256 \<le> ix 39 va"
    and w: "mmu (xm_mem s) P va = Some ac"
  shows "\<not> ac_user ac"
proof -
  let ?K = "pt_pml4_phys s" and ?i = "ix 39 va" and ?m = "xm_mem s"
  have t: "tree ?K R M ?m (unat (pb_total (xm_phys s)))" using pt_okD(2) [OF ok] by (simp add: trees_def)
  note d = treeD [OF t]
  obtain k where k: "R k = Some (?K, [])" using pt_okD(3) [OF ok] by (auto simp: kern_roles_def)
  have ad: "adm ?K ?K [] ?i" using i by (auto simp: adm_def)
  have e: "ent ?m f ?i = ent ?m k ?i"
    using d(9) [OF f k _ ad] role_unique [OF t f, of k] k by (cases "P = ?K") auto
  have fb: "f < 33554432" using d(1) d(2) [OF f] by linarith
  have P: "(P AND XPT_ADDR_MASK) = fa f" using d(3) [OF f] fa_masked [OF fb] by simp
  have b0: "bit (ent ?m f ?i) 0" using w by (auto simp: mmu_def P load_entry Let_def split: if_splits)
  then have "\<not> is_leaf [] (ent ?m k ?i)" "bit (ent ?m k ?i) 0" by (simp_all add: is_leaf_def e)
  then obtain g where "ent ?m k ?i = ptr g (fl ?K ?K)" using d(4) [OF k ad] by blast
  then have "\<not> bit (ent ?m f ?i) 2" using e ptr_bit [of 2 g "fl ?K ?K"] by (simp add: fl_def)
  then show ?thesis using w by (auto simp: mmu_def P load_entry access_def Let_def split: if_splits)
qed

section \<open>The user half\<close>

lemma mmu_user_half:
  assumes t: "tree K R M m tot" and f: "R f = Some (P, [])" "P \<noteq> K" and i: "1 \<le> ix 39 va" "ix 39 va < 256"
    and w: "mmu m P va = Some ac"
  shows "\<exists>e. M (P, path4 va) = Some e \<and> ac_phys ac = (e AND XPT_ADDR_MASK) OR (va AND 0xFFF) \<and>
    (ac_write ac \<longrightarrow> bit e 1) \<and> (ac_exec ac \<longrightarrow> \<not> bit e 63) \<and> canonical va"
proof -
  note d = treeD [OF t]
  define a b c l where abc: "a = ix 39 va" "b = ix 30 va" "c = ix 21 va" "l = ix 12 va"
  have ad: "adm K P [] a" "adm K P [a] b" "adm K P [a, b] c" "adm K P [a, b, c] l" using i f(2) by (auto simp: adm_def abc)
  have fb: "f < 33554432" using d(1) d(2) [OF f(1)] by linarith
  have P: "(P AND XPT_ADDR_MASK) = fa f" using d(3) [OF f(1)] fa_masked [OF fb] by simp
  have ca: "canonical va" using w by (auto simp: mmu_def split: if_splits)
  note w1 = w [unfolded mmu_def abc [symmetric] P load_entry Let_def]
  have p1: "bit (ent m f a) 0" using w1 ca by (auto split: if_splits)
  obtain f1 where f1: "ent m f a AND XPT_ADDR_MASK = fa f1" "R f1 = Some (P, [a])" using user_step(3) [OF t f(1) _ ad(1) f(2) p1] by auto
  note w2 = w1 [unfolded f1(1) load_entry]
  have p2: "bit (ent m f1 b) 0" using w2 ca p1 by (auto split: if_splits)
  obtain f2 where f2: "ent m f1 b AND XPT_ADDR_MASK = fa f2" "R f2 = Some (P, [a, b])" "\<not> bit (ent m f1 b) 7"
    using user_step(3) [OF t f1(2) _ ad(2) f(2) p2] by auto
  note w3 = w2 [unfolded f2(1) load_entry]
  have p3: "bit (ent m f2 c) 0" using w3 ca p1 p2 f2(3) by (auto split: if_splits)
  obtain f3 where f3: "ent m f2 c AND XPT_ADDR_MASK = fa f3" "R f3 = Some (P, [a, b, c])" "\<not> bit (ent m f2 c) 7"
    using user_step(3) [OF t f2(2) _ ad(3) f(2) p3] by auto
  note w4 = w3 [unfolded f3(1) load_entry]
  have p4: "bit (ent m f3 l) 0" using w4 ca p1 p2 p3 f2(3) f3(3) by (auto split: if_splits)
  then have "M (P, [a, b, c] @ [l]) = Some (ent m f3 l)" unfolding d(6) using f3(2) ad(4) by (auto simp: is_leaf_def)
  moreover have "ac = access ((ent m f3 l AND XPT_ADDR_MASK) OR (va AND 0xFFF)) [ent m f a, ent m f1 b, ent m f2 c, ent m f3 l]"
    using w4 ca p1 p2 p3 p4 f2(3) f3(3) by simp
  ultimately show ?thesis using ca by (auto simp: access_def path4_def abc)
qed

lemma masked_page:
  assumes "unat phys mod 4096 = 0" "unat phys div 4096 + n \<le> 33554432" "i < n" "leaf AND XPT_ADDR_MASK = 0"
  shows "((((page phys i AND XPT_ADDR_MASK) OR leaf) AND XPT_ADDR_MASK) OR (va AND 0xFFF)) = fa (unat phys div 4096 + i) OR (va AND 0xFFF)"
proof -
  let ?g = "unat phys div 4096 + i"
  have p: "unat phys = unat phys div 4096 * 4096" using div_mult_mod_eq [of "unat phys" 4096] assms(1) by linarith
  have "unat phys + n * 4096 \<le> 281474976710656" using p assms(2) by linarith
  from page_addr(1) [OF assms(1) this assms(3)] have "unat (page phys i) = ?g * 4096" using p by (simp add: page_def)
  then have "page phys i = fa ?g" using assms(2,3) by (intro fa_eq_iff) auto
  then have "page phys i AND XPT_ADDR_MASK = fa ?g" using fa_masked [of ?g] assms(2,3) by simp
  then show ?thesis using assms(4) fa_masked [of ?g] assms(2,3) by (simp add: bit.conj_disj_distrib2)
qed

lemma frame_of_access:
  assumes "g < 33554432"
  shows "unat (fa g OR (va AND 0xFFF)) div 4096 = g"
proof -
  have "drop_bit 12 (va AND 0xFFF :: u64) = 0"
    by (rule bit_word_eqI) (simp add: bit_simps mask_eq_exp_minus_1 [of 12, simplified, symmetric])
  then have "drop_bit 12 (fa g OR (va AND 0xFFF)) = drop_bit 12 (fa g)" by (simp add: drop_bit_or)
  then have "unat (drop_bit 12 (fa g OR (va AND 0xFFF))) = unat (drop_bit 12 (fa g))" by simp
  then show ?thesis using fa_unat [OF assms] by (simp add: drop_bit_eq_div unat_div)
qed

lemma leaf_flags_bits:
  "bit (leaf_flags perms) 1 \<longleftrightarrow> perms AND XPERM_W \<noteq> 0" "bit (leaf_flags perms) 63 \<longleftrightarrow> perms AND XPERM_X = 0"
  "leaf_flags perms AND XPT_ADDR_MASK = 0"
  by (simp_all add: leaf_flags_def Let_def)

lemma need_rights_covers:
  assumes "(r :: u32) AND need_rights perms = need_rights perms"
  shows "r AND (XTOK_RIGHT_MAP OR XTOK_RIGHT_READ) = XTOK_RIGHT_MAP OR XTOK_RIGHT_READ"
    "perms AND XPERM_W \<noteq> 0 \<Longrightarrow> r AND XTOK_RIGHT_WRITE = XTOK_RIGHT_WRITE"
    "perms AND XPERM_X \<noteq> 0 \<Longrightarrow> r AND XTOK_RIGHT_EXECUTE = XTOK_RIGHT_EXECUTE"
proof -
  have sub: "r AND w = w" if "need_rights perms AND w = w" for w
    using assms that by (metis and.assoc)
  show "r AND (XTOK_RIGHT_MAP OR XTOK_RIGHT_READ) = XTOK_RIGHT_MAP OR XTOK_RIGHT_READ"
    by (rule sub) (simp add: need_rights_def Let_def)
  show "perms AND XPERM_W \<noteq> 0 \<Longrightarrow> r AND XTOK_RIGHT_WRITE = XTOK_RIGHT_WRITE"
    by (rule sub) (simp add: need_rights_def Let_def)
  show "perms AND XPERM_X \<noteq> 0 \<Longrightarrow> r AND XTOK_RIGHT_EXECUTE = XTOK_RIGHT_EXECUTE"
    by (rule sub) (simp add: need_rights_def Let_def)
qed

text \<open>What the ledger must say for a user program of \<open>owner\<close> to have the access \<open>ac\<close>.\<close>

definition allowed :: "(XToken \<rightharpoonup> XTokenEntry) \<Rightarrow> u32 \<Rightarrow> Access \<Rightarrow> bool" where
  "allowed T owner ac \<longleftrightarrow> (\<exists>t e. T t = Some e \<and> te_owner e = owner \<and> unat (ac_phys ac) div 4096 \<in> te_span e \<and>
     te_rights e AND (XTOK_RIGHT_MAP OR XTOK_RIGHT_READ) = XTOK_RIGHT_MAP OR XTOK_RIGHT_READ \<and>
     (ac_write ac \<longrightarrow> te_rights e AND XTOK_RIGHT_WRITE = XTOK_RIGHT_WRITE) \<and>
     (ac_exec ac \<longrightarrow> te_rights e AND XTOK_RIGHT_EXECUTE = XTOK_RIGHT_EXECUTE)) \<and> \<not> (ac_write ac \<and> ac_exec ac)"

lemma mmu_allowed:
  assumes ok: "pt_ok sp R M s" and sp: "sp P = Some owner" and w: "mmu (xm_mem s) P va = Some ac" and u: "ac_user ac"
  shows "user_va va" "allowed (toks s) owner ac"
proof -
  note d = pt_okD [OF ok]
  let ?K = "pt_pml4_phys s"
  obtain f where f: "R f = Some (P, [])" "P \<noteq> ?K" using d(5) [of P] sp by auto
  have t: "tree ?K R M (xm_mem s) (unat (pb_total (xm_phys s)))" using d(2) by (simp add: trees_def)
  have i: "1 \<le> ix 39 va" "ix 39 va < 256" using mmu_kernel_half [OF ok f(1) _ w] u by fastforce+
  obtain e where e: "M (P, path4 va) = Some e" "ac_phys ac = (e AND XPT_ADDR_MASK) OR (va AND 0xFFF)"
    "ac_write ac \<longrightarrow> bit e 1" "ac_exec ac \<longrightarrow> \<not> bit e 63" "canonical va" using mmu_user_half [OF t f i w] by blast
  obtain k where k: "k < 1024" "mr_live (pt_maps s ! k)" "(P, path4 va) \<in> rkeys (pt_maps s ! k)"
    using recs3 [OF d(7), of P "path4 va"] e(1) f(2) by auto
  define r where "r = pt_maps s ! k"
  obtain j where j: "j < unat (mr_pages r)" "path4 va = path4 (page (mr_virt r) j)" "P = mr_as_pml4 r"
    using k(3) by (auto simp: rkeys_def pkeys_def r_def)
  have ro: "rec_ok sp M (toks s) r" using recs2 [OF d(7) k(1,2)] by (simp add: r_def)
  obtain en perms where en: "toks s (mr_tok r) = Some en" "te_owner en = mr_owner r" "te_frames en = mr_pages r" "legal_perms perms"
      "te_rights en AND need_rights perms = need_rights perms" "sp (mr_as_pml4 r) = Some (mr_owner r)"
      "e = (page (te_phys en) j AND XPT_ADDR_MASK) OR leaf_flags perms"
    using ro j e(1) by (auto simp: rec_ok_def)
  obtain sl where sl: "lookup_live (mr_tok r) s = Some sl" "en = lg_table s ! sl" using en(1) by (auto simp: toks_Some_iff)
  have eo: "unat (te_phys en) mod 4096 = 0" "unat (te_phys en) div 4096 + unat (te_frames en) \<le> 33554432"
    using ledger_invD(3) [OF d(1) lookup_liveD(1) [OF sl(1)]] lookup_liveD(2) [OF sl(1)] sl(2) treeD(1) [OF t] by (auto simp: entry_ok_def)
  let ?g = "unat (te_phys en) div 4096 + j"
  have ph: "ac_phys ac = fa ?g OR (va AND 0xFFF)"
    unfolding e(2) en(7) using j(1) en(3) by (intro masked_page [OF eo]) (simp_all add: leaf_flags_bits)
  have "unat (ac_phys ac) div 4096 = ?g" unfolding ph by (rule frame_of_access) (use eo(2) j(1) en(3) in simp)
  then have "unat (ac_phys ac) div 4096 \<in> te_span en" using j(1) en(3) by (simp add: te_span_def)
  moreover have "perms AND XPERM_W \<noteq> 0" if "ac_write ac" using e(3) that by (simp add: en(7) bit_or_iff bit_and_iff bit_addr_mask leaf_flags_bits leaf_flags_bits [simplified])
  moreover have "perms AND XPERM_X \<noteq> 0" if "ac_exec ac" using e(4) that by (simp add: en(7) bit_or_iff bit_and_iff bit_addr_mask leaf_flags_bits leaf_flags_bits [simplified])
  moreover note need_rights_covers [OF en(5)]
  ultimately show "allowed (toks s) owner ac"
    using en(1,2,4,6) sp j(3) unfolding allowed_def legal_perms_def by auto
  show "user_va va"
  proof -
    have m: "unat va div 549755813888 mod 512 \<ge> 1" "unat va div 549755813888 mod 512 < 256" using i by (simp_all add: ix_eq)
    have "unat va < 140737488355328"
    proof (rule ccontr)
      assume "\<not> unat va < 140737488355328"
      then have "33554176 * 549755813888 \<le> unat va" using e(5) by (simp add: canonical_def)
      then have "33554176 \<le> unat va div 549755813888" by (simp add: less_eq_div_iff_mult_less_eq)
      moreover have "unat va div 549755813888 < 33554432" using unat_u64_bound [of va] by (simp add: less_mult_imp_div_less)
      ultimately obtain q where q: "unat va div 549755813888 = 512 * 65535 + (256 + q)" "q < 256"
        by (intro that [of "unat va div 549755813888 - 33554176"]) simp_all
      have "(512 * 65535 + (256 + q)) mod 512 = 256 + q" using q(2) by (simp only: mod_mult_self4) simp
      then show False using m(2) unfolding q(1) by simp
    qed
    moreover have "549755813888 \<le> unat va"
    proof (rule ccontr)
      assume "\<not> 549755813888 \<le> unat va"
      then show False using m(1) by simp
    qed
    ultimately show ?thesis by (simp add: user_va_def word_le_nat_alt word_less_nat_alt)
  qed
qed

end
