(* ===== verification/Sys.thy ===== *)
theory Sys
  imports Paging_Mmu
begin

text \<open>
  Model of \<open>arch/amd64/kernel/xeret/sys.c\<close>: the resource system calls of a user program, the quotas
  they enforce and the teardown of a process. The quota table extends the machine record. A system
  call takes the caller's address space and its register frame and returns the frame with the
  results; the registers are the only way in and out. \<open>ExcFrame\<close> is the frame of \<open>xframe.h\<close>.
\<close>

section \<open>State\<close>

record ExcFrame =
  f_r15 :: u64
  f_r14 :: u64
  f_r13 :: u64
  f_r12 :: u64
  f_r11 :: u64
  f_r10 :: u64
  f_r9 :: u64
  f_r8 :: u64
  f_rbp :: u64
  f_rdi :: u64
  f_rsi :: u64
  f_rdx :: u64
  f_rcx :: u64
  f_rbx :: u64
  f_rax :: u64
  f_vector :: u64
  f_error :: u64
  f_rip :: u64
  f_cs :: u64
  f_rflags :: u64
  f_rsp :: u64
  f_ss :: u64

record Quota =
  q_frames :: u64
  q_tokens :: u32
  q_set :: bool

record Sys = Paging +
  sy_quota :: "Quota list"
  sy_def_frames :: u64
  sy_def_tokens :: u32

abbreviation XOWNER_MAX :: u32 where "XOWNER_MAX \<equiv> 64"

abbreviation XSYS_EXIT :: u64 where "XSYS_EXIT \<equiv> 1"
abbreviation XSYS_LOG :: u64 where "XSYS_LOG \<equiv> 2"
abbreviation XSYS_YIELD :: u64 where "XSYS_YIELD \<equiv> 3"
abbreviation XSYS_ALLOC :: u64 where "XSYS_ALLOC \<equiv> 4"
abbreviation XSYS_MAP :: u64 where "XSYS_MAP \<equiv> 5"
abbreviation XSYS_UNMAP :: u64 where "XSYS_UNMAP \<equiv> 6"
abbreviation XSYS_FREE :: u64 where "XSYS_FREE \<equiv> 7"
abbreviation XSYS_INFO :: u64 where "XSYS_INFO \<equiv> 8"

abbreviation XINFO_FRAMES_USED :: u64 where "XINFO_FRAMES_USED \<equiv> 0"
abbreviation XINFO_FRAMES_LIMIT :: u64 where "XINFO_FRAMES_LIMIT \<equiv> 1"
abbreviation XINFO_TOKENS_USED :: u64 where "XINFO_TOKENS_USED \<equiv> 2"
abbreviation XINFO_TOKENS_LIMIT :: u64 where "XINFO_TOKENS_LIMIT \<equiv> 3"

definition XSYS_USER_RIGHTS :: u32 where
  "XSYS_USER_RIGHTS = XTOK_RIGHT_READ OR XTOK_RIGHT_WRITE OR XTOK_RIGHT_EXECUTE OR XTOK_RIGHT_MAP OR XTOK_RIGHT_RELEASE"

abbreviation XERR_NOSYS :: int where "XERR_NOSYS \<equiv> -1"
abbreviation XERR_INVAL :: int where "XERR_INVAL \<equiv> -2"
abbreviation XERR_NOMEM :: int where "XERR_NOMEM \<equiv> -3"
abbreviation XERR_BADTOKEN :: int where "XERR_BADTOKEN \<equiv> -4"
abbreviation XERR_PERM :: int where "XERR_PERM \<equiv> -5"
abbreviation XERR_BUSY :: int where "XERR_BUSY \<equiv> -6"
abbreviation XERR_RANGE :: int where "XERR_RANGE \<equiv> -7"
abbreviation XERR_NOMAP :: int where "XERR_NOMAP \<equiv> -8"

section \<open>Quotas\<close>

definition xproc_set_quota :: "u32 \<Rightarrow> u64 \<Rightarrow> u32 \<Rightarrow> 'a Sys_scheme \<Rightarrow> int \<times> 'a Sys_scheme" where
  "xproc_set_quota owner max_frames max_tokens s =
     (if owner = XTOK_OWNER_KERNEL \<or> owner \<ge> XOWNER_MAX then (-1, s)
      else (0, s\<lparr>sy_quota := (sy_quota s)[unat owner := \<lparr>q_frames = max_frames, q_tokens = max_tokens, q_set = True\<rparr>]\<rparr>))"

definition quota_of :: "u32 \<Rightarrow> 'a Sys_scheme \<Rightarrow> u64 \<times> u32" where
  "quota_of owner s =
     (if owner < XOWNER_MAX \<and> q_set (sy_quota s ! unat owner)
      then (q_frames (sy_quota s ! unat owner), q_tokens (sy_quota s ! unat owner))
      else (sy_def_frames s, sy_def_tokens s))"

definition xproc_quota_get :: "u32 \<Rightarrow> 'a Sys_scheme \<Rightarrow> u64 \<times> u32" where
  "xproc_quota_get owner s = quota_of owner s"

section \<open>System calls\<close>

definition ret :: "ExcFrame \<Rightarrow> int \<Rightarrow> ExcFrame" where
  "ret f code = f\<lparr>f_rax := word_of_int code\<rparr>"

definition map_xas_err :: "int \<Rightarrow> int" where
  "map_xas_err rc =
     (if rc = XAS_OK then 0
      else if rc = XAS_ERR_ARG then XERR_INVAL
      else if rc = XAS_ERR_WX then XERR_PERM
      else if rc = XAS_ERR_RANGE then XERR_RANGE
      else if rc = XAS_ERR_TOKEN then XERR_BADTOKEN
      else if rc = XAS_ERR_OWNER then XERR_BADTOKEN
      else if rc = XAS_ERR_RIGHTS then XERR_PERM
      else if rc = XAS_ERR_BUSY then XERR_BUSY
      else if rc = XAS_ERR_NOMEM then XERR_NOMEM
      else if rc = XAS_ERR_NOTMAPPED then XERR_NOMAP
      else XERR_INVAL)"

definition sys_alloc :: "XAspace \<Rightarrow> ExcFrame \<Rightarrow> 'a Sys_scheme \<Rightarrow> ExcFrame \<times> 'a Sys_scheme" where
  "sys_alloc as f s =
     (let n = f_rdi f; rights = f_rsi f; f = f\<lparr>f_rdx := 0\<rparr> in
      if n = 0 \<or> rights = 0 then (ret f XERR_INVAL, s)
      else if rights AND NOT (ucast XSYS_USER_RIGHTS) \<noteq> 0 then (ret f XERR_PERM, s)
      else (let (max_frames, max_tokens) = quota_of (as_owner_id as) s;
                (used_frames, used_tokens) = xtok_owner_usage (as_owner_id as) s in
        if used_tokens \<ge> max_tokens then (ret f XERR_NOMEM, s)
        else if n > max_frames \<or> used_frames > max_frames - n then (ret f XERR_NOMEM, s)
        else (let (tok, s) = xtok_alloc_ram (as_owner_id as) n (ucast rights) s in
          if tok = XTOKEN_INVALID then (ret f XERR_NOMEM, s)
          else (ret (f\<lparr>f_rdx := tok\<rparr>) 0, s))))"

definition sys_map :: "XAspace \<Rightarrow> ExcFrame \<Rightarrow> 'a Sys_scheme \<Rightarrow> ExcFrame \<times> 'a Sys_scheme" where
  "sys_map as f s =
     (if f_rdx f > 0xFFFFFFFF then (ret f XERR_INVAL, s)
      else (let (rc, s) = xas_map (Some as) (f_rsi f) (f_rdi f) (ucast (f_rdx f)) s in (ret f (map_xas_err rc), s)))"

definition sys_unmap :: "XAspace \<Rightarrow> ExcFrame \<Rightarrow> 'a Sys_scheme \<Rightarrow> ExcFrame \<times> 'a Sys_scheme" where
  "sys_unmap as f s = (let (rc, s) = xas_unmap (Some as) (f_rdi f) s in (ret f (map_xas_err rc), s))"

definition sys_free :: "XAspace \<Rightarrow> ExcFrame \<Rightarrow> 'a Sys_scheme \<Rightarrow> ExcFrame \<times> 'a Sys_scheme" where
  "sys_free as f s =
     (let (rc, s) = xtok_release_owned (f_rdi f) (as_owner_id as) s in
      (if rc = 0 then ret f 0
       else if rc = XTOK_REL_EBUSY then ret f XERR_BUSY
       else if rc = XTOK_REL_ERIGHTS then ret f XERR_PERM
       else ret f XERR_BADTOKEN, s))"

definition sys_info :: "XAspace \<Rightarrow> ExcFrame \<Rightarrow> 'a Sys_scheme \<Rightarrow> ExcFrame \<times> 'a Sys_scheme" where
  "sys_info as f s =
     (let (max_frames, max_tokens) = quota_of (as_owner_id as) s;
          (used_frames, used_tokens) = xtok_owner_usage (as_owner_id as) s in
      (if f_rdi f = XINFO_FRAMES_USED then f\<lparr>f_rax := used_frames\<rparr>
       else if f_rdi f = XINFO_FRAMES_LIMIT then f\<lparr>f_rax := max_frames\<rparr>
       else if f_rdi f = XINFO_TOKENS_USED then f\<lparr>f_rax := ucast used_tokens\<rparr>
       else if f_rdi f = XINFO_TOKENS_LIMIT then f\<lparr>f_rax := ucast max_tokens\<rparr>
       else ret f XERR_INVAL, s))"

definition xsys_resource :: "XAspace \<Rightarrow> ExcFrame \<Rightarrow> 'a Sys_scheme \<Rightarrow> ExcFrame \<times> 'a Sys_scheme" where
  "xsys_resource as f s =
     (if f_rax f = XSYS_ALLOC then sys_alloc as f s
      else if f_rax f = XSYS_MAP then sys_map as f s
      else if f_rax f = XSYS_UNMAP then sys_unmap as f s
      else if f_rax f = XSYS_FREE then sys_free as f s
      else if f_rax f = XSYS_INFO then sys_info as f s
      else (ret f XERR_NOSYS, s))"

section \<open>Teardown\<close>

text \<open>One pass over a batch of tokens: revoke every mapping of each, then reclaim it.\<close>

definition reap_round :: "XToken list \<Rightarrow> 'a Paging_scheme \<Rightarrow> u32 \<times> 'a Paging_scheme" where
  "reap_round toklist s = fold (\<lambda>tok (progress, s).
     (let (n, s) = xas_revoke_token tok s; (rc, s) = xtok_reclaim tok s in (if rc = 0 then progress + 1 else progress, s))) toklist (0, s)"

partial_function (option) reap_loop :: "u32 \<Rightarrow> u32 \<Rightarrow> 'a Paging_scheme \<Rightarrow> (u32 \<times> 'a Paging_scheme) option" where
  "reap_loop owner tot s =
     (let toklist = xtok_owner_tokens owner 64 s in
      if toklist = [] then Some (tot, s)
      else (let (progress, s) = reap_round toklist s in
        if progress = 0 then Some (tot, s) else reap_loop owner (tot + progress) s))"

definition xproc_reap :: "XAspace option \<Rightarrow> 'a Paging_scheme \<Rightarrow> (u32 \<times> XAspace option \<times> 'a Paging_scheme) option" where
  "xproc_reap asp s =
     (if asp = None \<or> \<not> as_live (the asp) then Some (0, asp, s)
      else (case reap_loop (as_owner_id (the asp)) 0 s of
        None \<Rightarrow> None
      | Some (tot, s) \<Rightarrow> (let (asp, s) = xas_destroy asp s in Some (tot, asp, s))))"

end
