(* ===== verification/Lapic.thy ===== *)
theory Lapic
  imports Sys
begin

text \<open>
  Model of \<open>arch/amd64/kernel/xeret/lapic.c\<close>: the one-shot timer of the local APIC and its calibration
  against the PIT. The globals of the file extend the machine record. The registers of the APIC are
  reached through MSRs or through memory-mapped words, as \<open>lread\<close> and \<open>lwrite\<close> choose; the mapped
  words are \<open>lp_regs\<close>. What the hardware answers is a parameter: the successive values of port 0x61,
  the value of the current-count register when it is read, and the feature bits of CPUID leaf 1.
  Writes to ports are recorded in order.
\<close>

section \<open>State\<close>

record Lapic = Sys +
  lp_ready :: bool
  lp_x2 :: bool
  lp_mmio :: u64
  lp_ticks_per_ms :: u32
  lp_regs :: "u32 \<Rightarrow> u32"
  lp_ports :: "(u16 \<times> u8) list"

record LapicHw =
  hw_cpuid1_edx :: u32
  hw_port61 :: "nat \<Rightarrow> u8"
  hw_timer_cur :: u32

abbreviation IA32_APIC_BASE :: u32 where "IA32_APIC_BASE \<equiv> 0x1B"
abbreviation APIC_BASE_X2 :: u64 where "APIC_BASE_X2 \<equiv> 0x400"
abbreviation APIC_BASE_EN :: u64 where "APIC_BASE_EN \<equiv> 0x800"
abbreviation REG_EOI :: u32 where "REG_EOI \<equiv> 0x0B0"
abbreviation REG_SVR :: u32 where "REG_SVR \<equiv> 0x0F0"
abbreviation REG_LVT_TIMER :: u32 where "REG_LVT_TIMER \<equiv> 0x320"
abbreviation REG_TIMER_INIT :: u32 where "REG_TIMER_INIT \<equiv> 0x380"
abbreviation REG_TIMER_CUR :: u32 where "REG_TIMER_CUR \<equiv> 0x390"
abbreviation REG_TIMER_DIV :: u32 where "REG_TIMER_DIV \<equiv> 0x3E0"
abbreviation LVT_MASKED :: u32 where "LVT_MASKED \<equiv> 0x10000"
abbreviation DIV_BY_16 :: u32 where "DIV_BY_16 \<equiv> 3"
abbreviation PIT_10MS_COUNT :: u32 where "PIT_10MS_COUNT \<equiv> 11932"
abbreviation LAPIC_TIMER_VEC :: u32 where "LAPIC_TIMER_VEC \<equiv> 0x40"
abbreviation LAPIC_SPURIOUS_VEC :: u32 where "LAPIC_SPURIOUS_VEC \<equiv> 0xFF"
abbreviation PIT_SPINS :: nat where "PIT_SPINS \<equiv> 200000000"

section \<open>Registers and ports\<close>

definition outb :: "u16 \<Rightarrow> u8 \<Rightarrow> 'a Lapic_scheme \<Rightarrow> 'a Lapic_scheme" where
  "outb p v s = s\<lparr>lp_ports := lp_ports s @ [(p, v)]\<rparr>"

definition lread :: "u32 \<Rightarrow> 'a Lapic_scheme \<Rightarrow> u32" where
  "lread r s = (if lp_x2 s then ucast (rdmsr (0x800 + drop_bit 4 r) s) else lp_regs s (drop_bit 2 r))"

definition lwrite :: "u32 \<Rightarrow> u32 \<Rightarrow> 'a Lapic_scheme \<Rightarrow> 'a Lapic_scheme" where
  "lwrite r v s =
     (if lp_x2 s then wrmsr (0x800 + drop_bit 4 r) (ucast v) s
      else s\<lparr>lp_regs := (lp_regs s)(drop_bit 2 r := v)\<rparr>)"

text \<open>The current-count register is a counter of the device: reading it gives what the device holds then.\<close>

definition timer_counts :: "u32 \<Rightarrow> 'a Lapic_scheme \<Rightarrow> 'a Lapic_scheme" where
  "timer_counts cur s =
     (if lp_x2 s then wrmsr (0x800 + drop_bit 4 REG_TIMER_CUR) (ucast cur) s
      else s\<lparr>lp_regs := (lp_regs s)(drop_bit 2 REG_TIMER_CUR := cur)\<rparr>)"

definition pic_mask_all :: "'a Lapic_scheme \<Rightarrow> 'a Lapic_scheme" where
  "pic_mask_all s = fold (\<lambda>(p, v). outb p v)
     [(0x20, 0x11), (0xA0, 0x11), (0x21, 0x20), (0xA1, 0x28), (0x21, 0x04), (0xA1, 0x02),
      (0x21, 0x01), (0xA1, 0x01), (0x21, 0xFF), (0xA1, 0xFF)] s"

section \<open>Calibration\<close>

text \<open>The bounded wait: read \<open>k\<close> onwards of port 0x61, at most \<open>n\<close> times.\<close>

fun pit_wait :: "(nat \<Rightarrow> u8) \<Rightarrow> nat \<Rightarrow> nat \<Rightarrow> bool" where
  "pit_wait port k 0 = False"
| "pit_wait port k (Suc n) = (if port k AND 0x20 \<noteq> 0 then True else pit_wait port (Suc k) n)"

definition calibrate :: "LapicHw \<Rightarrow> 'a Lapic_scheme \<Rightarrow> u32 option \<times> 'a Lapic_scheme" where
  "calibrate hw s =
     (let s = outb 0x61 ((hw_port61 hw 0 AND NOT 0x02) OR 0x01) s;
          s = outb 0x43 0xB0 s;
          s = lwrite REG_TIMER_DIV DIV_BY_16 s;
          s = lwrite REG_LVT_TIMER (LVT_MASKED OR LAPIC_TIMER_VEC) s;
          s = outb 0x42 (ucast (PIT_10MS_COUNT AND 0xFF)) s;
          s = outb 0x42 (ucast (drop_bit 8 PIT_10MS_COUNT)) s;
          s = lwrite REG_TIMER_INIT 0xFFFFFFFF s;
          pit_done = pit_wait (hw_port61 hw) 1 PIT_SPINS;
          s = timer_counts (hw_timer_cur hw) s;
          cur = lread REG_TIMER_CUR s;
          s = lwrite REG_TIMER_INIT 0 s
      in if \<not> pit_done then (None, s)
         else (let elapsed = 0xFFFFFFFF - cur in
           if elapsed < 1000 \<or> elapsed > 0xFFFF0000 then (None, s) else (Some (elapsed div 10), s)))"

definition lapic_timer_init :: "LapicHw \<Rightarrow> 'a Lapic_scheme \<Rightarrow> int \<times> 'a Lapic_scheme" where
  "lapic_timer_init hw s =
     (if hw_cpuid1_edx hw AND 0x200 = 0 then (-1, s)
      else (let base = rdmsr IA32_APIC_BASE s;
                (base, s) = (if base AND APIC_BASE_EN = 0
                   then (base OR APIC_BASE_EN, wrmsr IA32_APIC_BASE (base OR APIC_BASE_EN) s) else (base, s));
                s = s\<lparr>lp_x2 := base AND APIC_BASE_X2 \<noteq> 0\<rparr>;
                addr = base AND 0xFFFFF000
            in if \<not> lp_x2 s \<and> (addr < 0xFEC00000 \<or> addr \<ge> 0x100000000) then (-1, s)
               else (let s = (if lp_x2 s then s else s\<lparr>lp_mmio := addr\<rparr>);
                         s = pic_mask_all s;
                         s = lwrite REG_SVR (0x100 OR LAPIC_SPURIOUS_VEC) s
                     in case calibrate hw s of
                          (None, s) \<Rightarrow> (-1, s)
                        | (Some ticks, s) \<Rightarrow> (0, s\<lparr>lp_ticks_per_ms := ticks, lp_ready := True\<rparr>))))"

section \<open>The timer\<close>

definition lapic_ticks_per_ms :: "'a Lapic_scheme \<Rightarrow> u32" where
  "lapic_ticks_per_ms s = lp_ticks_per_ms s"

definition lapic_x2apic :: "'a Lapic_scheme \<Rightarrow> bool" where
  "lapic_x2apic s = lp_x2 s"

definition lapic_timer_arm :: "u32 \<Rightarrow> 'a Lapic_scheme \<Rightarrow> 'a Lapic_scheme" where
  "lapic_timer_arm ticks s =
     (if \<not> lp_ready s then s
      else lwrite REG_TIMER_INIT ticks (lwrite REG_LVT_TIMER LAPIC_TIMER_VEC (lwrite REG_TIMER_DIV DIV_BY_16 s)))"

definition lapic_timer_stop :: "'a Lapic_scheme \<Rightarrow> 'a Lapic_scheme" where
  "lapic_timer_stop s =
     (if \<not> lp_ready s then s else lwrite REG_LVT_TIMER (LVT_MASKED OR LAPIC_TIMER_VEC) (lwrite REG_TIMER_INIT 0 s))"

definition lapic_eoi :: "'a Lapic_scheme \<Rightarrow> 'a Lapic_scheme" where
  "lapic_eoi s = (if \<not> lp_ready s then s else lwrite REG_EOI 0 s)"

end
