(* ===== verification/Idt.thy ===== *)
theory Idt
  imports Lapic
begin

text \<open>
  Model of \<open>gdt.c\<close> and \<open>idt.c\<close> under \<open>arch/amd64/kernel/xeret/\<close>: the segment descriptors with the task
  state segment, the interrupt descriptors, and the dispatch of every trap in \<open>exception_handler\<close>.
  The addresses the linker chooses are a parameter (\<open>Layout\<close>). The two hooks are function pointers and
  are arguments of the handler. A handler either returns to the interrupted context, with the frame
  possibly changed, or abandons it through \<open>xproc_leave_asm\<close>, or halts the machine; \<open>Halted\<close> carries
  what was printed before.
\<close>

section \<open>State\<close>

record Tss =
  ts_rsp0 :: u64
  ts_ist :: "u64 list"
  ts_iopb :: u16

record IdtEntry =
  ie_off_lo :: u16
  ie_selector :: u16
  ie_ist :: u8
  ie_attr :: u8
  ie_off_mid :: u16
  ie_off_hi :: u32
  ie_zero :: u32

record Layout =
  ly_tss :: u64
  ly_k_stack :: u64
  ly_df_stack :: u64
  ly_isr_stub_base :: u64
  ly_isr_stub_syscall :: u64
  ly_isr_irq_base :: u64

record Idt = Lapic +
  gd_tss :: Tss
  gd_gdt :: "u64 list"
  gd_ready :: bool
  id_idt :: "IdtEntry list"
  id_cs :: u64

datatype Outcome = Return ExcFrame | Leave u64 | Halted string

type_synonym 's hook = "ExcFrame \<Rightarrow> u64 \<Rightarrow> 's \<Rightarrow> Outcome \<times> 's"

section \<open>Descriptors\<close>

abbreviation TSS_SIZE :: u64 where "TSS_SIZE \<equiv> 104"

definition tss_descriptor :: "u64 \<Rightarrow> u64" where
  "tss_descriptor base =
     (let limit = TSS_SIZE - 1
      in (limit AND 0xFFFF) OR push_bit 16 (base AND 0xFFFFFF) OR push_bit 40 0x89
         OR push_bit 48 (drop_bit 16 limit AND 0xF) OR push_bit 56 (drop_bit 24 base AND 0xFF))"

definition gdt_init :: "Layout \<Rightarrow> 'a Idt_scheme \<Rightarrow> 'a Idt_scheme" where
  "gdt_init ly s =
     (if gd_ready s then s
      else s\<lparr>gd_gdt := [0, 0x00AF9A000000FFFF, 0x00CF92000000FFFF, 0x00CFF2000000FFFF, 0x00AFFA000000FFFF,
                tss_descriptor (ly_tss ly), drop_bit 32 (ly_tss ly)],
             gd_tss := (gd_tss s)\<lparr>ts_iopb := ucast TSS_SIZE, ts_rsp0 := ly_k_stack ly + 16384,
                ts_ist := (ts_ist (gd_tss s))[0 := ly_df_stack ly + 8192]\<rparr>,
             id_cs := 0x08, gd_ready := True\<rparr>)"

definition gdt_is_ready :: "'a Idt_scheme \<Rightarrow> bool" where
  "gdt_is_ready s = gd_ready s"

definition idt_gate :: "u64 \<Rightarrow> u64 \<Rightarrow> u8 \<Rightarrow> IdtEntry" where
  "idt_gate addr csel attr =
     \<lparr>ie_off_lo = ucast (addr AND 0xFFFF), ie_selector = ucast csel, ie_ist = 0, ie_attr = attr,
      ie_off_mid = ucast (drop_bit 16 addr AND 0xFFFF), ie_off_hi = ucast (drop_bit 32 addr), ie_zero = 0\<rparr>"

definition idt_init :: "Layout \<Rightarrow> 'a Idt_scheme \<Rightarrow> 'a Idt_scheme" where
  "idt_init ly s =
     s\<lparr>id_idt := fold (\<lambda>i t. t[i := idt_gate (ly_isr_stub_base ly + 16 * of_nat i) (id_cs s) 0x8E]) [0..<32] (id_idt s)\<rparr>"

definition idt_install_user_gates :: "Layout \<Rightarrow> 'a Idt_scheme \<Rightarrow> 'a Idt_scheme" where
  "idt_install_user_gates ly s =
     (let t = (id_idt s)[0x80 := idt_gate (ly_isr_stub_syscall ly) (id_cs s) 0xEE]
      in s\<lparr>id_idt := t[8 := (t ! 8)\<lparr>ie_ist := 1\<rparr>]\<rparr>)"

definition idt_install_irq_gates :: "Layout \<Rightarrow> 'a Idt_scheme \<Rightarrow> 'a Idt_scheme" where
  "idt_install_irq_gates ly s =
     s\<lparr>id_idt := fold (\<lambda>v t. if v = 0x80 then t
        else t[v := idt_gate (ly_isr_irq_base ly + 16 * of_nat (v - 32)) (id_cs s) 0x8E]) [32..<256] (id_idt s)\<rparr>"

section \<open>Reports\<close>

definition hex_digits :: string where
  "hex_digits = ''0123456789ABCDEF''"

definition report_hex :: "u64 \<Rightarrow> string" where
  "report_hex v = ''0x'' @ map (\<lambda>i. hex_digits ! unat (drop_bit (60 - 4 * i) v AND 0xF)) [0..<16]"

definition report_reg :: "string \<Rightarrow> u64 \<Rightarrow> string" where
  "report_reg name v = name @ ''='' @ report_hex v @ ''  ''"

definition exc_names :: "string list" where
  "exc_names = [''#DE divide error'', ''#DB debug'', ''NMI'', ''#BP breakpoint'', ''#OF overflow'', ''#BR bound range'',
     ''#UD invalid opcode'', ''#NM device not available'', ''#DF double fault'', ''coprocessor overrun'', ''#TS invalid TSS'',
     ''#NP segment not present'', ''#SS stack fault'', ''#GP general protection'', ''#PF page fault'', ''reserved (15)'',
     ''#MF x87 fp error'', ''#AC alignment check'', ''#MC machine check'', ''#XM simd fp error'', ''#VE virtualization'',
     ''#CP control protection'', ''reserved (22)'', ''reserved (23)'', ''reserved (24)'', ''reserved (25)'', ''reserved (26)'',
     ''reserved (27)'', ''#HV hypervisor injection'', ''#VC vmm communication'', ''#SX security'', ''reserved (31)'']"

abbreviation nl :: string where "nl \<equiv> [CHR 0x0A]"

definition page_fault_text :: "ExcFrame \<Rightarrow> u64 \<Rightarrow> string" where
  "page_fault_text f cr2 =
     report_reg ''CR2'' cr2 @ nl @ ''  #PF: '' @
     (if f_error f AND 1 \<noteq> 0 then ''protection-violation '' else ''page-not-present '') @
     (if f_error f AND 2 \<noteq> 0 then ''write '' else ''read '') @
     (if f_error f AND 4 \<noteq> 0 then ''user '' else ''supervisor '') @
     (if f_error f AND 8 \<noteq> 0 then ''reserved-bit-set '' else []) @
     (if f_error f AND 16 \<noteq> 0 then ''instruction-fetch '' else []) @ nl"

definition exception_text :: "ExcFrame \<Rightarrow> u64 \<Rightarrow> u64 \<Rightarrow> string" where
  "exception_text f cr2 cr3 =
     nl @ ''*** CPU EXCEPTION: '' @ (if f_vector f < 32 then exc_names ! unat (f_vector f) else ''unknown'') @ '' ***'' @ nl @
     report_reg ''VEC'' (f_vector f) @ report_reg ''ERR'' (f_error f) @ nl @
     report_reg ''RIP'' (f_rip f) @ report_reg ''CS'' (f_cs f) @ nl @
     report_reg ''RFLAGS'' (f_rflags f) @ report_reg ''RSP'' (f_rsp f) @ nl @
     (if f_vector f = 14 then page_fault_text f cr2 else []) @
     report_reg ''RAX'' (f_rax f) @ report_reg ''RBX'' (f_rbx f) @ nl @
     report_reg ''RCX'' (f_rcx f) @ report_reg ''RDX'' (f_rdx f) @ nl @
     report_reg ''RSI'' (f_rsi f) @ report_reg ''RDI'' (f_rdi f) @ nl @
     report_reg ''RBP'' (f_rbp f) @ report_reg ''CR3'' cr3 @ nl @ ''System halted.'' @ nl"

section \<open>Dispatch\<close>

definition exception_handler :: "'a Idt_scheme hook option \<Rightarrow> 'a Idt_scheme hook option \<Rightarrow> 'a Idt_scheme hook" where
  "exception_handler g_hook g_irq_hook f cr2 s =
     (if f_vector f \<ge> 32 \<and> f_vector f \<noteq> 0x80
      then (case g_irq_hook of None \<Rightarrow> (Return f, s) | Some h \<Rightarrow> h f cr2 s)
      else if g_hook \<noteq> None \<and> (f_vector f = 0x80 \<or> f_cs f AND 3 = 3) then the g_hook f cr2 s
      else (Halted (exception_text f cr2 (xpt_read_cr3 s)), s))"

end
