(* ===== verification/Proc.thy ===== *)
theory Proc
  imports Idt
begin

text \<open>
  Model of \<open>arch/amd64/kernel/xeret/proc.c\<close>: running a program in ring 3 until it exits, faults, yields
  or is preempted. The globals of the file extend the machine record; \<open>g_res\<close>, \<open>g_ctx\<close> and \<open>g_as\<close> point
  to the caller's structures during a run, so the structures themselves are kept there. The program
  is a parameter: the list of what it does, in order, each either a store through the MMU or a trap
  with the frame the processor and \<open>isr_common\<close> build. The two assembly routines are modelled by the
  moves they make on the kernel's stack pointer, the words of its stack and its integer registers.
  The registers \<open>xmm6\<close> to \<open>xmm15\<close>, which the routines do not save, are not part of the state. Both
  routines that start or resume a program end in \<open>iretq\<close>, which faults in ring 0 when the instruction pointer
  it is given is not canonical; the fault goes through \<open>exception_handler\<close> like any other.
\<close>

section \<open>State\<close>

record XContext =
  c_rax :: u64
  c_rbx :: u64
  c_rcx :: u64
  c_rdx :: u64
  c_rsi :: u64
  c_rdi :: u64
  c_rbp :: u64
  c_r8 :: u64
  c_r9 :: u64
  c_r10 :: u64
  c_r11 :: u64
  c_r12 :: u64
  c_r13 :: u64
  c_r14 :: u64
  c_r15 :: u64
  c_rip :: u64
  c_rsp :: u64
  c_rflags :: u64

record XProcResult =
  rs_reason :: int
  rs_exit_code :: u64
  rs_vector :: u64
  rs_error :: u64
  rs_rip :: u64
  rs_cr2 :: u64
  rs_log :: "u64 list"
  rs_log_n :: u32

text \<open>The kernel's integer registers that survive a call. The state has its stack pointer with the words of the stack by
  address, the global \<open>g_xproc_resume_rsp\<close>, the flags the kernel runs with and the addresses of the two \<open>iretq\<close>
  instructions, which the linker chooses.\<close>

record KRegs =
  k_rbx :: u64
  k_rbp :: u64
  k_rdi :: u64
  k_rsi :: u64
  k_r12 :: u64
  k_r13 :: u64
  k_r14 :: u64
  k_r15 :: u64

record Proc = Idt +
  pr_res :: "XProcResult option"
  pr_ctx :: "XContext option"
  pr_as :: "XAspace option"
  pr_quantum_ticks :: u32
  pr_irq_unexpected :: u64
  pr_irq_last :: u64
  pr_kernel_cr3 :: u64
  pr_hooks :: bool
  pr_kregs :: KRegs
  pr_rsp :: u64
  pr_stack :: "u64 \<Rightarrow> u64"
  pr_resume_rsp :: u64
  pr_rflags :: u64
  pr_isr_iretq :: u64
  pr_enter_iretq :: u64

abbreviation XPROC_EXIT :: u64 where "XPROC_EXIT \<equiv> 0"
abbreviation XPROC_FAULT :: u64 where "XPROC_FAULT \<equiv> 1"
abbreviation XPROC_PREEMPT :: u64 where "XPROC_PREEMPT \<equiv> 2"
abbreviation XPROC_YIELD :: u64 where "XPROC_YIELD \<equiv> 3"
abbreviation XPROC_LOG_MAX :: nat where "XPROC_LOG_MAX \<equiv> 8"
abbreviation RFLAGS_IF :: u64 where "RFLAGS_IF \<equiv> 0x200"
abbreviation RFLAGS_USER_KEEP :: u64 where "RFLAGS_USER_KEEP \<equiv> 0xCD5"

section \<open>Entering and leaving ring 3\<close>

text \<open>What \<open>iretq\<close> starts the program with: every register comes from the context, the selectors are the
  user ones.\<close>

definition enter_frame :: "XContext \<Rightarrow> ExcFrame" where
  "enter_frame c = \<lparr>f_r15 = c_r15 c, f_r14 = c_r14 c, f_r13 = c_r13 c, f_r12 = c_r12 c, f_r11 = c_r11 c, f_r10 = c_r10 c,
     f_r9 = c_r9 c, f_r8 = c_r8 c, f_rbp = c_rbp c, f_rdi = c_rdi c, f_rsi = c_rsi c, f_rdx = c_rdx c, f_rcx = c_rcx c,
     f_rbx = c_rbx c, f_rax = c_rax c, f_vector = 0, f_error = 0, f_rip = c_rip c, f_cs = 0x23, f_rflags = c_rflags c,
     f_rsp = c_rsp c, f_ss = 0x1B\<rparr>"

definition push :: "u64 \<Rightarrow> 'a Proc_scheme \<Rightarrow> 'a Proc_scheme" where
  "push v s = s\<lparr>pr_rsp := pr_rsp s - 8, pr_stack := (pr_stack s)(pr_rsp s - 8 := v)\<rparr>"

definition xproc_enter_asm :: "u64 \<Rightarrow> XContext \<Rightarrow> 'a Proc_scheme \<Rightarrow> ExcFrame \<times> 'a Proc_scheme" where
  "xproc_enter_asm cr3 c s =
     (let k = pr_kregs s;
          s = fold push [k_rbx k, k_rbp k, k_rdi k, k_rsi k, k_r12 k, k_r13 k, k_r14 k, k_r15 k] s;
          s = s\<lparr>pr_resume_rsp := pr_rsp s\<rparr>;
          s = write_cr3 cr3 s;
          s = fold push [0x1B, c_rsp c, c_rflags c, 0x23, c_rip c] s;
          s = s\<lparr>pr_kregs := \<lparr>k_rbx = c_rbx c, k_rbp = c_rbp c, k_rdi = c_rdi c, k_rsi = c_rsi c, k_r12 = c_r12 c, k_r13 = c_r13 c,
                k_r14 = c_r14 c, k_r15 = c_r15 c\<rparr>\<rparr>
      in (enter_frame c, s))"

text \<open>The eight pops read upwards from \<open>g_xproc_resume_rsp\<close>, \<open>r15\<close> first.\<close>

definition xproc_leave_asm :: "u64 \<Rightarrow> 'a Proc_scheme \<Rightarrow> u64 \<times> 'a Proc_scheme" where
  "xproc_leave_asm status s =
     (let s = s\<lparr>pr_rsp := pr_resume_rsp s\<rparr>;
          s = write_cr3 (pr_kernel_cr3 s) s;
          w = (\<lambda>n. pr_stack s (pr_rsp s + 8 * n))
      in (status, s\<lparr>pr_kregs := \<lparr>k_rbx = w 7, k_rbp = w 6, k_rdi = w 5, k_rsi = w 4, k_r12 = w 3, k_r13 = w 2, k_r14 = w 1, k_r15 = w 0\<rparr>,
            pr_rsp := pr_rsp s + 64\<rparr>))"

section \<open>The hooks\<close>

definition save_ctx :: "ExcFrame \<Rightarrow> XContext" where
  "save_ctx f = \<lparr>c_rax = f_rax f, c_rbx = f_rbx f, c_rcx = f_rcx f, c_rdx = f_rdx f, c_rsi = f_rsi f, c_rdi = f_rdi f,
     c_rbp = f_rbp f, c_r8 = f_r8 f, c_r9 = f_r9 f, c_r10 = f_r10 f, c_r11 = f_r11 f, c_r12 = f_r12 f, c_r13 = f_r13 f,
     c_r14 = f_r14 f, c_r15 = f_r15 f, c_rip = f_rip f, c_rsp = f_rsp f, c_rflags = f_rflags f\<rparr>"

definition user_hook :: "ExcFrame \<Rightarrow> u64 \<Rightarrow> 'a Proc_scheme \<Rightarrow> Outcome \<times> 'a Proc_scheme" where
  "user_hook f cr2 s =
     (case pr_res s of
        None \<Rightarrow> (Halted [], s)
      | Some res \<Rightarrow>
        if f_vector f = 0x80
        then (if f_rax f = XSYS_EXIT
              then (Leave XPROC_EXIT, s\<lparr>pr_res := Some (res\<lparr>rs_reason := 0, rs_exit_code := f_rdi f, rs_rip := f_rip f\<rparr>)\<rparr>)
              else if f_rax f = XSYS_LOG
              then (Return (f\<lparr>f_rax := 0\<rparr>),
                    if unat (rs_log_n res) < XPROC_LOG_MAX
                    then s\<lparr>pr_res := Some (res\<lparr>rs_log := (rs_log res)[unat (rs_log_n res) := f_rdi f], rs_log_n := rs_log_n res + 1\<rparr>)\<rparr>
                    else s)
              else if f_rax f = XSYS_YIELD
              then (let f = f\<lparr>f_rax := 0\<rparr>
                    in (Leave XPROC_YIELD, s\<lparr>pr_ctx := Some (save_ctx f), pr_res := Some (res\<lparr>rs_reason := 3, rs_rip := f_rip f\<rparr>)\<rparr>))
              else if f_rax f \<ge> XSYS_ALLOC \<and> f_rax f \<le> XSYS_INFO \<and> pr_as s \<noteq> None
              then (let (f, s) = xsys_resource (the (pr_as s)) f s in (Return f, s))
              else (Return (f\<lparr>f_rax := word_of_int XERR_NOSYS\<rparr>), s))
        else (Leave XPROC_FAULT, s\<lparr>pr_res := Some (res\<lparr>rs_reason := 1, rs_vector := f_vector f, rs_error := f_error f,
                rs_rip := f_rip f, rs_cr2 := cr2\<rparr>)\<rparr>))"

definition irq_hook :: "ExcFrame \<Rightarrow> u64 \<Rightarrow> 'a Proc_scheme \<Rightarrow> Outcome \<times> 'a Proc_scheme" where
  "irq_hook f cr2 s =
     (if f_vector f = ucast LAPIC_TIMER_VEC
      then (let s = lapic_eoi s in
        case pr_res s of
          Some res \<Rightarrow>
            if f_cs f AND 3 = 3 \<and> pr_ctx s \<noteq> None
            then (Leave XPROC_PREEMPT, s\<lparr>pr_ctx := Some (save_ctx f), pr_res := Some (res\<lparr>rs_reason := 2, rs_rip := f_rip f\<rparr>)\<rparr>)
            else (Return f, s)
        | None \<Rightarrow> (Return f, s))
      else if f_vector f = ucast LAPIC_SPURIOUS_VEC then (Return f, s)
      else (Return f, lapic_eoi (s\<lparr>pr_irq_unexpected := pr_irq_unexpected s + 1, pr_irq_last := f_vector f\<rparr>)))"

definition xproc_init :: "Layout \<Rightarrow> 'a Proc_scheme \<Rightarrow> 'a Proc_scheme" where
  "xproc_init ly s =
     (idt_install_irq_gates ly (idt_install_user_gates ly (idt_init ly (gdt_init ly s))))\<lparr>pr_hooks := True\<rparr>"

text \<open>The common handler, with the hooks that \<open>xproc_init\<close> installs.\<close>

definition handle :: "ExcFrame \<Rightarrow> u64 \<Rightarrow> 'a Proc_scheme \<Rightarrow> Outcome \<times> 'a Proc_scheme" where
  "handle f cr2 s = exception_handler (if pr_hooks s then Some user_hook else None) (if pr_hooks s then Some irq_hook else None) f cr2 s"

text \<open>The frame of the general protection fault that an \<open>iretq\<close> at \<open>ip\<close> raises in ring 0, with the stack pointer \<open>rsp\<close> and the
  stack selector \<open>ss\<close>. The other registers already hold what the program would have resumed with.\<close>

definition iretq_fault :: "u64 \<Rightarrow> u64 \<Rightarrow> u64 \<Rightarrow> u64 \<Rightarrow> ExcFrame \<Rightarrow> ExcFrame" where
  "iretq_fault ip rsp flags ss f =
     f\<lparr>f_vector := 13, f_error := 0, f_rip := ip, f_cs := 0x08, f_rflags := flags, f_rsp := rsp, f_ss := ss\<rparr>"

text \<open>A trap with its return: the stub, the handler and the \<open>iretq\<close> of \<open>isr_common\<close>.\<close>

definition trap :: "ExcFrame \<Rightarrow> u64 \<Rightarrow> 'a Proc_scheme \<Rightarrow> Outcome \<times> 'a Proc_scheme" where
  "trap f cr2 s =
     (case handle f cr2 s of
        (Return g, s) \<Rightarrow>
          if canonical (f_rip g) then (Return g, s)
          else handle (iretq_fault (pr_isr_iretq s) (ts_rsp0 (gd_tss s) - 40) (pr_rflags s) 0 g) cr2 s
      | out \<Rightarrow> out)"

text \<open>The \<open>iretq\<close> of \<open>xproc_enter_asm\<close>.\<close>

definition enter_iretq :: "ExcFrame \<Rightarrow> 'a Proc_scheme \<Rightarrow> Outcome \<times> 'a Proc_scheme" where
  "enter_iretq f s =
     (if canonical (f_rip f) then (Return f, s)
      else handle (iretq_fault (pr_enter_iretq s) (pr_rsp s) (pr_rflags s) 0x10 f) 0 s)"

section \<open>Running a program\<close>

text \<open>What a program does: store a byte, or trap with a frame and the faulting address. The processor pushes the code
  selector it runs with, so a trap that is taken in ring 3 has the user selector in its frame.\<close>

datatype Event = Store u64 u8 | Trap ExcFrame u64

text \<open>How a run goes on after a trap: in the program, in the kernel, or not at all.\<close>

definition settle :: "('a Proc_scheme \<Rightarrow> ((u64 + string) \<times> 'a Proc_scheme) option) \<Rightarrow> Outcome \<times> 'a Proc_scheme \<Rightarrow> ((u64 + string) \<times> 'a Proc_scheme) option" where
  "settle run out =
     (case out of
        (Return f, s) \<Rightarrow> run s
      | (Leave status, s) \<Rightarrow> (let (status, s) = xproc_leave_asm status s in Some (Inl status, s))
      | (Halted msg, s) \<Rightarrow> Some (Inr msg, s))"

fun run_user :: "Event list \<Rightarrow> 'a Proc_scheme \<Rightarrow> ((u64 + string) \<times> 'a Proc_scheme) option" where
  "run_user [] s = None"
| "run_user (Store v b # evs) s =
     (case mmu (xm_mem s) (xpt_read_cr3 s) v of
        Some a \<Rightarrow> run_user evs (if ac_user a \<and> ac_write a then s\<lparr>xm_mem := (xm_mem s)(ac_phys a := b)\<rparr> else s)
      | None \<Rightarrow> run_user evs s)"
| "run_user (Trap f cr2 # evs) s = settle (run_user evs) (trap (f\<lparr>f_cs := 0x23\<rparr>) cr2 s)"

definition xctx_init :: "u64 \<Rightarrow> u64 \<Rightarrow> XContext" where
  "xctx_init entry user_rsp = \<lparr>c_rax = 0, c_rbx = 0, c_rcx = 0, c_rdx = 0, c_rsi = 0, c_rdi = 0, c_rbp = 0, c_r8 = 0, c_r9 = 0,
     c_r10 = 0, c_r11 = 0, c_r12 = 0, c_r13 = 0, c_r14 = 0, c_r15 = 0, c_rip = entry, c_rsp = user_rsp, c_rflags = 2\<rparr>"

definition xproc_set_quantum_ms :: "u32 \<Rightarrow> 'a Proc_scheme \<Rightarrow> int \<times> 'a Proc_scheme" where
  "xproc_set_quantum_ms ms s =
     (if ms = 0 then (0, s\<lparr>pr_quantum_ticks := 0\<rparr>)
      else (let per_ms = lapic_ticks_per_ms s in
        if per_ms = 0 then (-1, s)
        else (let t = (ucast ms :: u64) * ucast per_ms in
          if t > 0xFFFFFFFF then (-1, s) else (0, s\<lparr>pr_quantum_ticks := ucast t\<rparr>))))"

definition clear_result :: XProcResult where
  "clear_result = \<lparr>rs_reason = 0, rs_exit_code = 0, rs_vector = 0, rs_error = 0, rs_rip = 0, rs_cr2 = 0,
     rs_log = replicate XPROC_LOG_MAX 0, rs_log_n = 0\<rparr>"

text \<open>The code up to the entry: what the program is started with, and the state then. A timer tick that
  is still pending is taken in ring 0 here; \<open>pending\<close> says whether there is one.\<close>

definition run_prepare :: "XAspace \<Rightarrow> XContext \<Rightarrow> bool \<Rightarrow> 'a Proc_scheme \<Rightarrow> XContext \<times> 'a Proc_scheme" where
  "run_prepare as ctx pending s =
     (let armed = pr_quantum_ticks s \<noteq> 0;
          ctx = ctx\<lparr>c_rflags := (c_rflags ctx AND RFLAGS_USER_KEEP) OR 0x2 OR (if armed then RFLAGS_IF else 0)\<rparr>;
          s = s\<lparr>pr_res := Some clear_result, pr_ctx := Some ctx, pr_as := Some as, pr_kernel_cr3 := pt_pml4_phys s\<rparr>;
          s = (if armed
               then (let s = lapic_timer_stop s;
                         s = (if pending then lapic_eoi s else s)
                     in lapic_timer_arm (pr_quantum_ticks s) s)
               else s)
      in (ctx, s))"

definition xproc_run_ctx :: "XAspace option \<Rightarrow> XContext option \<Rightarrow> XProcResult option \<Rightarrow> bool \<Rightarrow> Event list \<Rightarrow> 'a Proc_scheme \<Rightarrow>
    ((int + string) \<times> XContext option \<times> XProcResult option \<times> 'a Proc_scheme) option" where
  "xproc_run_ctx asp ctxp resp pending evs s =
     (if asp = None \<or> \<not> as_live (the asp) \<or> ctxp = None \<or> resp = None then Some (Inl (-1), ctxp, resp, s)
      else (let armed = pr_quantum_ticks s \<noteq> 0;
                (ctx, s) = run_prepare (the asp) (the ctxp) pending s;
                (f, s) = xproc_enter_asm (as_pml4_phys (the asp)) ctx s
            in case settle (run_user evs) (enter_iretq f s) of
                 None \<Rightarrow> None
               | Some (Inr text, s) \<Rightarrow> Some (Inr text, pr_ctx s, pr_res s, s)
               | Some (Inl r, s) \<Rightarrow>
                   (let s = (if armed then lapic_timer_stop s else s)
                    in Some (Inl (uint r), pr_ctx s, pr_res s, s\<lparr>pr_res := None, pr_ctx := None, pr_as := None\<rparr>))))"

definition xproc_run :: "XAspace option \<Rightarrow> u64 \<Rightarrow> u64 \<Rightarrow> XProcResult option \<Rightarrow> bool \<Rightarrow> Event list \<Rightarrow> 'a Proc_scheme \<Rightarrow>
    ((int + string) \<times> XContext option \<times> XProcResult option \<times> 'a Proc_scheme) option" where
  "xproc_run asp entry user_rsp resp pending evs s = xproc_run_ctx asp (Some (xctx_init entry user_rsp)) resp pending evs s"

definition xproc_unexpected_irqs :: "'a Proc_scheme \<Rightarrow> u64" where
  "xproc_unexpected_irqs s = pr_irq_unexpected s"

definition xproc_last_unexpected_vector :: "'a Proc_scheme \<Rightarrow> u64" where
  "xproc_last_unexpected_vector s = pr_irq_last s"

end
