(* ===== verification/Paging_Kernel.thy ===== *)
theory Paging_Kernel
  imports Paging_Mmu
begin

text \<open>
  The kernel's own map: what \<open>xpt_init_identity\<close> builds at boot. The tables under construction are a
  tree with the kernel's root only, whose leaves are 2 MiB entries. The first mapping of an address
  wins, so the uncached windows mapped first stay uncached.
\<close>

section \<open>Huge leaves\<close>

definition path3 :: "u64 \<Rightarrow> nat list" where
  "path3 a = [ix 39 a, ix 30 a, ix 21 a]"

definition huge_leaf :: "u64 \<Rightarrow> u64 \<Rightarrow> u64" where
  "huge_leaf flags a = (a AND XPT_HUGE_MASK) OR flags OR XPT_HUGE"

definition kmap :: "u64 \<Rightarrow> roles \<Rightarrow> leaves \<Rightarrow> 'a Xmach_scheme \<Rightarrow> bool" where
  "kmap K R M s \<longleftrightarrow> trees K R M s \<and> (\<exists>k. R k = Some (K, [])) \<and> (\<forall>f Q p. R f = Some (Q, p) \<longrightarrow> Q = K \<and> length p \<le> 2)"

definition hadd :: "u64 \<Rightarrow> u64 \<Rightarrow> u64 \<Rightarrow> leaves \<Rightarrow> leaves" where
  "hadd K flags a M = (case M (K, path3 a) of None \<Rightarrow> M((K, path3 a) \<mapsto> huge_leaf flags a) | Some e \<Rightarrow> M)"

lemma kmap_role:
  assumes k: "kmap K R M s" and x: "trees K R' M s'" "grown R s R' s'" "\<forall>h r. R' h = Some r \<longrightarrow> R h = Some r \<or> r = (K, p @ [i])" "length p < 2"
  shows "kmap K R' M s'"
  unfolding kmap_def
proof (intro conjI allI impI)
  show "trees K R' M s'" by (rule x(1))
  show "\<exists>k. R' k = Some (K, [])" using k grown_role [OF x(2)] unfolding kmap_def by blast
  show "Q = K" "length q \<le> 2" if "R' f = Some (Q, q)" for f Q q
  proof -
    have fl: "Q = K \<and> length q \<le> 2" if "R f = Some (Q, q)" using k that unfolding kmap_def by blast
    have "R f = Some (Q, q) \<or> (Q, q) = (K, p @ [i])" using x(3) that by blast
    then have "Q = K \<and> length q \<le> 2" using fl x(4) by (elim disjE) simp_all
    then show "Q = K" "length q \<le> 2" by simp_all
  qed
qed

lemma ix39_low: "unat a < 549755813888 \<Longrightarrow> ix 39 a = 0"
  by (simp add: ix_eq)

lemma map_huge_one_spec:
  assumes k: "kmap K R M s" and a: "unat a < 549755813888" and fl: "bit flags 0" and mh: "map_huge_one K flags a s = (r, s')"
  shows "\<exists>R'. grown R s R' s' \<and> (if r = 0 then kmap K R' (hadd K flags a M) s' else r = -1 \<and> kmap K R' M s' \<and> ffree (xm_phys s') = {})"
proof -
  define i j c where ijc: "i = ix 39 a" "j = ix 30 a" "c = ix 21 a"
  have ad: "adm K K [] i" "adm K K [i] j" "adm K K [i, j] c" using ix39_low [OF a] by (auto simp: adm_def ijc)
  have t: "trees K R M s" and roots: "\<forall>h Q. R h = Some (Q, []) \<longrightarrow> Q = K" using k by (auto simp: kmap_def)
  obtain f where f: "R f = Some (K, [])" using k by (auto simp: kmap_def)
  have Kf: "K = fa f" using t treeD(3) f by (auto simp: trees_def)
  have rw: "XPT_KERNEL_RW = fl K K" by (simp add: fl_def)
  note mhd = mh [unfolded map_huge_one_def ix_word rw ijc [symmetric]]
  obtain t1 s1 where n1: "next_level K (of_nat i) (fl K K) s = (t1, s1)" by fastforce
  then have n1': "next_level (fa f) (of_nat i) (fl K K) s = (t1, s1)" using Kf by simp
  note x1 = next_level_spec [OF t f _ ad(1) _ _ n1']
  show ?thesis
  proof (cases "t1 = 0")
    case True
    then have "r = -1" "s' = s" "ffree (xm_phys s) = {}" using mhd n1 x1(1) roots by (auto simp: is_leaf_def)
    then show ?thesis using k by (intro exI [of _ R]) simp
  next
    case False
    obtain f1 R1 where f1: "t1 = fa f1" "R1 f1 = Some (K, [i])" "trees K R1 M s1" "grown R s R1 s1"
      "\<forall>h r. R1 h = Some r \<longrightarrow> R h = Some r \<or> r = (K, [] @ [i])" using x1(2) [OF _ _ _ False] roots by (auto simp: is_leaf_def)
    have k1: "kmap K R1 M s1" by (rule kmap_role [OF k f1(3-5)]) simp
    obtain t2 s2 where n2: "next_level (fa f1) (of_nat j) (fl K K) s1 = (t2, s2)" by fastforce
    note x2 = next_level_spec [OF f1(3,2) _ ad(2) _ _ n2]
    show ?thesis
    proof (cases "t2 = 0")
      case True
      then have "r = -1" "s' = s1" "ffree (xm_phys s1) = {}" using mhd n1 n2 f1(1) False x2(1) by (auto simp: is_leaf_def)
      then show ?thesis using k1 f1(4) by (intro exI [of _ R1]) simp
    next
      case t2: False
      obtain f2 R2 where f2: "t2 = fa f2" "R2 f2 = Some (K, [i, j])" "trees K R2 M s2" "grown R1 s1 R2 s2"
        "\<forall>h r. R2 h = Some r \<longrightarrow> R1 h = Some r \<or> r = (K, [i] @ [j])" using x2(2) [OF _ _ _ t2] by (auto simp: is_leaf_def)
      have k2: "kmap K R2 M s2" by (rule kmap_role [OF k1 f2(3-5)]) simp
      have g2: "grown R s R2 s2" by (rule grown_trans [OF f1(4) f2(4)])
      have tr2: "tree K R2 M (xm_mem s2) (unat (pb_total (xm_phys s2)))" using f2(3) by (simp add: trees_def)
      note d = treeD [OF tr2]
      have p3: "path3 a = [i, j] @ [c]" by (simp add: path3_def ijc)
      have fb: "f2 < 33554432" using d(1) d(2) [OF f2(2)] by linarith
      show ?thesis
      proof (cases "bit (ent (xm_mem s2) f2 c) 0")
        case True
        have lf: "is_leaf [i, j] (ent (xm_mem s2) f2 c)"
        proof (rule ccontr)
          assume "\<not> is_leaf [i, j] (ent (xm_mem s2) f2 c)"
          then obtain g where "R2 g = Some (K, [i, j] @ [c])" using d(4) [OF f2(2) ad(3) True] by blast
          then have "length ([i, j] @ [c]) \<le> 2" using k2 unfolding kmap_def by blast
          then show False by simp
        qed
        then have "M (K, [i, j] @ [c]) = Some (ent (xm_mem s2) f2 c)" unfolding d(6) using f2(2) ad(3) by blast
        then have "hadd K flags a M = M" by (simp add: hadd_def p3)
        moreover have "r = 0" "s' = s2" using mhd n1 n2 f1(1) f2(1) False t2 True by (auto simp: Let_def tbl_get_ent present_iff)
        ultimately show ?thesis using k2 g2 by (intro exI [of _ R2]) simp
      next
        case nb: False
        let ?v = "huge_leaf flags a"
        have v: "bit ?v 0" "bit ?v 7" using fl by (simp_all add: huge_leaf_def bit_simps)
        have "M (K, [i, j] @ [c]) = None"
        proof (rule ccontr)
          assume "M (K, [i, j] @ [c]) \<noteq> None"
          then obtain e h where "R2 h = Some (K, [i, j])" "e = ent (xm_mem s2) h c" "is_leaf [i, j] e" using d(6) [of K "[i, j]" c] by auto
          then show False using role_unique [OF tr2 f2(2), of h] nb by (simp add: is_leaf_def)
        qed
        then have h: "hadd K flags a M = M((K, [i, j] @ [c]) := if bit ?v 0 then Some ?v else None)" using v by (simp add: hadd_def p3)
        have s': "r = 0" "s' = s2\<lparr>xm_mem := store64 (xm_mem s2) (ea f2 c) ?v\<rparr>"
          using mhd n1 n2 f1(1) f2(1) False t2 nb by (auto simp: Let_def tbl_get_ent present_iff tbl_set_mem huge_leaf_def)
        have "trees K R2 (hadd K flags a M) s'" unfolding h s'(2)
          by (rule trees_leaf [OF f2(3,2) ad(3)]) (use nb v in \<open>auto simp: is_leaf_def\<close>)
        moreover have "grown R s R2 s'" unfolding s'(2) by (rule grown_store [OF g2 f2(2) fb]) (simp add: ijc)
        ultimately show ?thesis using k2 s'(1) by (intro exI [of _ R2]) (simp add: kmap_def)
      qed
    qed
  qed
qed

lemma map_huge_loop_spec:
  assumes "kmap K R M s" "\<forall>a \<in> set as. unat a < 549755813888" "bit flags 0" "map_huge_loop K flags as s = (r, s')"
  shows "\<exists>R'. grown R s R' s' \<and> (if r = 0 then kmap K R' (fold (hadd K flags) as M) s'
    else r = -1 \<and> ffree (xm_phys s') = {} \<and> (\<exists>M'. kmap K R' M' s'))"
  using assms
proof (induction as arbitrary: R M s)
  case Nil
  then show ?case by (intro exI [of _ R]) simp
next
  case (Cons a as)
  obtain r1 s1 where o: "map_huge_one K flags a s = (r1, s1)" by fastforce
  have a: "unat a < 549755813888" using Cons.prems(2) by simp
  obtain R1 where R1: "grown R s R1 s1" "if r1 = 0 then kmap K R1 (hadd K flags a M) s1 else r1 = -1 \<and> kmap K R1 M s1 \<and> ffree (xm_phys s1) = {}"
    using map_huge_one_spec [OF Cons.prems(1) a Cons.prems(3) o] by blast
  show ?case
  proof (cases "r1 = 0")
    case False
    then show ?thesis using Cons.prems(4) o R1 by (intro exI [of _ R1]) auto
  next
    case True
    obtain R2 where "grown R1 s1 R2 s'" "if r = 0 then kmap K R2 (fold (hadd K flags) as (hadd K flags a M)) s'
        else r = -1 \<and> ffree (xm_phys s') = {} \<and> (\<exists>M'. kmap K R2 M' s')"
      using Cons.IH [of R1 "hadd K flags a M" s1] Cons.prems(2-4) R1(2) True o by auto
    then show ?thesis using grown_trans [OF R1(1)] by (intro exI [of _ R2]) auto
  qed
qed

section \<open>Regions of 2 MiB pages\<close>

text \<open>Page \<open>q\<close> below 512 GiB: its address, its path, and the pages the loop of \<open>map_huge\<close> visits.\<close>

definition hq :: "nat \<Rightarrow> u64" where
  "hq q = of_nat (q * 2097152)"

definition pq :: "nat \<Rightarrow> nat list" where
  "pq q = [0, q div 512, q mod 512]"

definition hull :: "u64 \<Rightarrow> u64 \<Rightarrow> nat set" where
  "hull start stop = {q. unat start div 2097152 \<le> q \<and> q * 2097152 < unat stop}"

lemma pq_inj [simp]: "pq q = pq r \<longleftrightarrow> q = r"
  unfolding pq_def by (metis div_mult_mod_eq list.inject)

lemma hq_unat: "q < 262144 \<Longrightarrow> unat (hq q) = q * 2097152"
  unfolding hq_def by (rule unat_of_nat_u64) simp

lemma path3_low:
  assumes "unat va < 549755813888"
  shows "path3 va = pq (unat va div 2097152)"
proof -
  have "unat va div 1073741824 = unat va div 2097152 div 512" by (simp add: div_mult2_eq [symmetric])
  moreover have "unat va div 1073741824 < 512" using assms by (simp add: less_mult_imp_div_less)
  ultimately show ?thesis using assms by (simp add: path3_def pq_def ix_eq)
qed

lemma path3_hq: "q < 262144 \<Longrightarrow> path3 (hq q) = pq q"
  using path3_low [of "hq q"] hq_unat [of q] by simp

lemma align_down_unat: "unat (align_down v XERET_HUGE_SIZE) = unat v div 2097152 * 2097152"
proof -
  have "XERET_HUGE_SIZE - 1 = (mask 21 :: u64)" by (simp add: mask_eq_exp_minus_1)
  then have "align_down v XERET_HUGE_SIZE = v AND NOT (mask 21)" by (simp only: align_down_def)
  then have "align_down v XERET_HUGE_SIZE = push_bit 21 (drop_bit 21 v)"
    by (simp only:) (rule bit_word_eqI, auto simp: bit_simps)
  moreover have "unat (push_bit 21 (drop_bit 21 v)) = unat v div 2097152 * 2097152"
  proof -
    have "unat (drop_bit 21 v) = unat v div 2097152" by (simp add: drop_bit_eq_div unat_div)
    moreover have "unat v div 2097152 * 2097152 < 18446744073709551616"
      using unat_u64_bound [of v] by (meson div_times_less_eq_dividend le_less_trans)
    ultimately show ?thesis by (simp add: push_bit_eq_mult unat_word_ariths unat_div)
  qed
  ultimately show ?thesis by simp
qed

lemma huge_addrs_eq:
  assumes "unat stop \<le> 549755813888"
  shows "\<exists>qs. huge_addrs start stop = map hq qs \<and> set qs = hull start stop"
proof (intro exI conjI)
  let ?a = "unat start div 2097152"
  let ?n = "(unat stop - ?a * 2097152 + 0x1FFFFF) div 0x200000"
  show "huge_addrs start stop = map hq (map (\<lambda>k. ?a + k) [0..<?n])"
  proof -
    have "align_down start XERET_HUGE_SIZE = hq ?a"
      by (simp only: hq_def align_down_unat [symmetric] of_nat_unat ucast_id)
    then show ?thesis using align_down_unat [of start] by (simp add: huge_addrs_def Let_def hq_def distrib_right)
  qed
  show "set (map (\<lambda>k. ?a + k) [0..<?n]) = hull start stop"
  proof -
    have less: "k < ?n \<longleftrightarrow> (?a + k) * 2097152 < unat stop" for k
    proof -
      have "k < ?n \<longleftrightarrow> (k + 1) * 0x200000 \<le> unat stop - ?a * 2097152 + 0x1FFFFF"
        by (metis Suc_eq_plus1 Suc_le_eq less_eq_div_iff_mult_less_eq zero_less_numeral)
      also have "\<dots> \<longleftrightarrow> (?a + k) * 2097152 < unat stop" unfolding distrib_right by linarith
      finally show ?thesis .
    qed
    have "q \<in> hull start stop \<longleftrightarrow> (\<exists>k < ?n. q = ?a + k)" for q
    proof
      assume q: "q \<in> hull start stop"
      then have "?a \<le> q" by (simp only: hull_def mem_Collect_eq)
      then obtain k where k: "q = ?a + k" using le_Suc_ex by blast
      then have "k < ?n" using q unfolding less hull_def k by (simp only: mem_Collect_eq)
      then show "\<exists>k < ?n. q = ?a + k" using k by blast
    next
      assume "\<exists>k < ?n. q = ?a + k"
      then obtain k where k: "k < ?n" "q = ?a + k" by blast
      then show "q \<in> hull start stop" unfolding less hull_def k(2) by (simp only: mem_Collect_eq le_add1 simp_thms)
    qed
    then have "hull start stop = (\<lambda>k. ?a + k) ` {..<?n}" by (auto simp only: image_iff lessThan_iff Bex_def)
    then show ?thesis by (simp only: set_map set_upt atLeast0LessThan)
  qed
qed

lemma hull_bound: "unat stop \<le> 549755813888 \<Longrightarrow> q \<in> hull start stop \<Longrightarrow> q < 262144"
  by (simp add: hull_def)

definition hset :: "u64 \<Rightarrow> u64 \<Rightarrow> nat set \<Rightarrow> leaves" where
  "hset K flags Q = (\<lambda>(P, p). if P = K \<and> p \<in> pq ` Q then Some (huge_leaf flags (hq (p ! 1 * 512 + p ! 2))) else None)"

lemma hset_pq: "hset K flags Q (K, pq q) = (if q \<in> Q then Some (huge_leaf flags (hq q)) else None)"
proof -
  have "pq q ! 1 * 512 + pq q ! 2 = q" by (simp add: pq_def)
  moreover have "pq q \<in> pq ` Q \<longleftrightarrow> q \<in> Q" by auto
  ultimately show ?thesis by (simp add: hset_def)
qed

lemma hset_other: "P \<noteq> K \<or> (\<forall>q. p \<noteq> pq q) \<Longrightarrow> hset K flags Q (P, p) = None"
  by (auto simp: hset_def)

lemma fold_hadd:
  assumes "\<forall>q \<in> set qs. q < 262144"
  shows "fold (hadd K flags) (map hq qs) M = hset K flags (set qs) ++ M"
  using assms
proof (induction qs arbitrary: M)
  case Nil
  have "hset K flags {} = Map.empty" by (auto simp: hset_def)
  then show ?case by simp
next
  case (Cons q qs)
  have ha: "hadd K flags (hq q) M = [(K, pq q) \<mapsto> huge_leaf flags (hq q)] ++ M"
    using Cons.prems path3_hq [of q] by (auto simp: hadd_def map_add_def fun_eq_iff split: option.split)
  have "hset K flags (set (q # qs)) = hset K flags (set qs) ++ [(K, pq q) \<mapsto> huge_leaf flags (hq q)]"
  proof (rule ext, clarify)
    fix P p
    show "hset K flags (set (q # qs)) (P, p) = (hset K flags (set qs) ++ [(K, pq q) \<mapsto> huge_leaf flags (hq q)]) (P, p)"
      using hset_pq [of K flags "set (q # qs)" q] by (auto simp: hset_def map_add_def)
  qed
  then show ?case using Cons.IH [of "hadd K flags (hq q) M"] Cons.prems ha by (simp add: fun_upd_def)
qed

lemma map_huge_spec:
  assumes k: "kmap K R M s" and st: "unat stop \<le> 549755813888" and fl: "bit flags 0" and mh: "map_huge K start stop flags s = (r, s')"
  shows "\<exists>R'. grown R s R' s' \<and> (if r = 0 then kmap K R' (hset K flags (hull start stop) ++ M) s'
    else r = -1 \<and> ffree (xm_phys s') = {} \<and> (\<exists>M'. kmap K R' M' s'))"
proof -
  obtain qs where qs: "huge_addrs start stop = map hq qs" "set qs = hull start stop" using huge_addrs_eq [OF st] by blast
  have b: "\<forall>q \<in> set qs. q < 262144" using hull_bound [OF st] qs(2) by blast
  have "\<forall>a \<in> set (map hq qs). unat a < 549755813888" using b hq_unat by auto
  from map_huge_loop_spec [OF k this fl mh [unfolded map_huge_def qs(1)]]
  show ?thesis unfolding fold_hadd [OF b] qs(2) .
qed

section \<open>Reading the kernel's map\<close>

lemma kmap_walk:
  assumes k: "kmap K R M s" and pk: "pt_pml4_phys s = K" and va: "unat va < 549755813888"
  shows "xpt_attributes va s = M (K, path3 va)"
    "xpt_translate va s = map_option (\<lambda>e. (e AND XPT_HUGE_MASK) OR (va AND (XERET_HUGE_SIZE - 1))) (M (K, path3 va))"
    "M (K, path3 va) = None \<Longrightarrow> mmu (xm_mem s) K va = None"
    "M (K, path3 va) = Some e \<Longrightarrow> \<exists>e4 e3. mmu (xm_mem s) K va =
       Some (access ((e AND XPT_HUGE_MASK) OR (va AND (XERET_HUGE_SIZE - 1))) [e4, e3, e]) \<and> \<not> bit e4 2 \<and> bit e4 1 \<and> bit e3 1"
proof -
  let ?m = "xm_mem s"
  define i j c where ijc: "i = ix 39 va" "j = ix 30 va" "c = ix 21 va"
  have ad: "adm K K [] i" "adm K K [i] j" "adm K K [i, j] c" using ix39_low [OF va] by (auto simp: adm_def ijc)
  have t: "tree K R M ?m (unat (pb_total (xm_phys s)))" using k by (simp add: kmap_def trees_def)
  note d = treeD [OF t]
  have flat: "length p \<le> 2" if "R f = Some (Q, p)" for f Q p using k that unfolding kmap_def by blast
  obtain f where f: "R f = Some (K, [])" using k by (auto simp: kmap_def)
  have fb: "0 < f" "f < 33554432" using d(1) d(2) [OF f] by linarith+
  have Kf: "K = fa f" "K AND XPT_ADDR_MASK = fa f" using d(3) [OF f] fa_masked [OF fb(2)] by simp_all
  have K0: "K \<noteq> 0" using fa_unat [OF fb(2)] fb(1) Kf(1) by auto
  have tK: "tbl_get K (of_nat x) s = ent ?m f x" for x by (simp add: Kf(1) tbl_get_ent)
  note att = xpt_attributes_def [of va s, unfolded pk ix_word ijc [symmetric] tK present_iff huge_iff Let_def]
  note tra = xpt_translate_def [of va s, unfolded pk ix_word ijc [symmetric] tK present_iff huge_iff Let_def]
  note mm = mmu_def [of ?m K va, unfolded ijc [symmetric] Kf(2) load_entry Let_def]
  have p3: "path3 va = [i, j] @ [c]" by (simp add: path3_def ijc)
  have ca: "canonical va" using va by (simp add: canonical_def)
  have step: "\<exists>g. ent ?m h x AND XPT_ADDR_MASK = fa g \<and> R g = Some (K, p @ [x]) \<and> \<not> bit (ent ?m h x) 7 \<and> \<not> bit (ent ?m h x) 2 \<and> bit (ent ?m h x) 1"
    if h: "R h = Some (K, p)" "length p < 2" "adm K K p x" "bit (ent ?m h x) 0" for h p x
  proof -
    have "\<not> is_leaf p (ent ?m h x)" using h(2) by (auto simp: is_leaf_def)
    then obtain g where g: "ent ?m h x = ptr g (fl K K)" "R g = Some (K, p @ [x])" using d(4) [OF h(1,3,4)] by blast
    have "g < 33554432" using d(1) d(2) [OF g(2)] by linarith
    then show ?thesis using g ptr_addr [of g "fl K K"] ptr_bit [of _ g "fl K K"] by (auto simp: fl_def)
  qed
  have stop: "R g \<noteq> Some (K, p @ [x])" if h: "R h = Some (K, p)" "\<not> bit (ent ?m h x) 0" for h p x g
  proof
    assume "R g = Some (K, p @ [x])"
    then obtain h' where "R h' = Some (K, p)" "ent ?m h' x = ptr g (fl K K)" using d(5) by blast
    then show False using role_unique [OF t h(1), of h'] h(2) by simp
  qed
  have none: "M (K, path3 va) = None" if "\<And>g. R g \<noteq> Some (K, [i, j])" unfolding p3 by (rule no_leaf_without_table [OF t that])
  have "xpt_attributes va s = M (K, path3 va) \<and>
    xpt_translate va s = map_option (\<lambda>e. (e AND XPT_HUGE_MASK) OR (va AND (XERET_HUGE_SIZE - 1))) (M (K, path3 va)) \<and>
    (M (K, path3 va) = None \<longrightarrow> mmu ?m K va = None) \<and>
    (\<forall>e. M (K, path3 va) = Some e \<longrightarrow> (\<exists>e4 e3. mmu ?m K va =
       Some (access ((e AND XPT_HUGE_MASK) OR (va AND (XERET_HUGE_SIZE - 1))) [e4, e3, e]) \<and> \<not> bit e4 2 \<and> bit e4 1 \<and> bit e3 1))"
  proof (cases "bit (ent ?m f i) 0")
    case False
    have n1: "\<And>g. R g \<noteq> Some (K, [i])" using stop [OF f False] by simp
    have n2: "\<And>g. R g \<noteq> Some (K, [i, j])" using no_table_without_parent [OF t n1] by simp
    show ?thesis using none [OF n2] False by (simp add: att tra mm)
  next
    case p1: True
    obtain f1 where f1: "ent ?m f i AND XPT_ADDR_MASK = fa f1" "R f1 = Some (K, [i])" "\<not> bit (ent ?m f i) 7" "\<not> bit (ent ?m f i) 2" "bit (ent ?m f i) 1"
      using step [OF f _ ad(1) p1] by auto
    show ?thesis
    proof (cases "bit (ent ?m f1 j) 0")
      case False
      have n2: "\<And>g. R g \<noteq> Some (K, [i, j])" using stop [OF f1(2) False] by simp
      show ?thesis using none [OF n2] False by (simp add: att tra mm f1(1) tbl_get_ent load_entry)
    next
      case p2: True
      obtain f2 where f2: "ent ?m f1 j AND XPT_ADDR_MASK = fa f2" "R f2 = Some (K, [i, j])" "\<not> bit (ent ?m f1 j) 7" "bit (ent ?m f1 j) 1"
        using step [OF f1(2) _ ad(2) p2] by auto
      have lf: "is_leaf [i, j] (ent ?m f2 c)" if b0: "bit (ent ?m f2 c) 0"
      proof (rule ccontr)
        assume "\<not> is_leaf [i, j] (ent ?m f2 c)"
        then obtain g where "R g = Some (K, [i, j] @ [c])" using d(4) [OF f2(2) ad(3) b0] by blast
        then show False using flat by fastforce
      qed
      have M: "M (K, path3 va) = (if bit (ent ?m f2 c) 0 then Some (ent ?m f2 c) else None)"
      proof (cases "bit (ent ?m f2 c) 0")
        case True
        have "M (K, [i, j] @ [c]) = Some (ent ?m f2 c)" unfolding d(6) using f2(2) ad(3) lf [OF True] by blast
        then show ?thesis using True by (simp add: p3)
      next
        case False
        have "M (K, [i, j] @ [c]) = None"
        proof (rule ccontr)
          assume "M (K, [i, j] @ [c]) \<noteq> None"
          then obtain e h where "R h = Some (K, [i, j])" "e = ent ?m h c" "is_leaf [i, j] e" using d(6) [of K "[i, j]" c] by auto
          then show False using role_unique [OF t f2(2), of h] False by (simp add: is_leaf_def)
        qed
        then show ?thesis using False by (simp add: p3)
      qed
      have b7: "bit (ent ?m f2 c) 7" if "bit (ent ?m f2 c) 0" using lf [OF that] by (simp add: is_leaf_def)
      have a: "xpt_attributes va s = (if bit (ent ?m f2 c) 0 then Some (ent ?m f2 c) else None)"
        using p1 p2 b7 K0 by (simp add: att f1(1) f2(1) tbl_get_ent)
      have b: "xpt_translate va s = (if bit (ent ?m f2 c) 0 then Some ((ent ?m f2 c AND XPT_HUGE_MASK) OR (va AND (XERET_HUGE_SIZE - 1))) else None)"
        using p1 p2 b7 K0 by (simp add: tra f1(1) f2(1) tbl_get_ent)
      have e: "mmu ?m K va = (if bit (ent ?m f2 c) 0 then Some (access ((ent ?m f2 c AND XPT_HUGE_MASK) OR (va AND (XERET_HUGE_SIZE - 1)))
          [ent ?m f i, ent ?m f1 j, ent ?m f2 c]) else None)"
        using p1 p2 b7 ca f2(3) by (simp add: mm f1(1) f2(1) load_entry)
      show ?thesis
      proof (cases "bit (ent ?m f2 c) 0")
        case True
        then show ?thesis using f1(4,5) f2(4) unfolding M a b e by auto
      next
        case False
        then show ?thesis by (simp add: M a b e)
      qed
    qed
  qed
  then show "xpt_attributes va s = M (K, path3 va)"
    "xpt_translate va s = map_option (\<lambda>e. (e AND XPT_HUGE_MASK) OR (va AND (XERET_HUGE_SIZE - 1))) (M (K, path3 va))"
    "M (K, path3 va) = None \<Longrightarrow> mmu (xm_mem s) K va = None"
    "M (K, path3 va) = Some e \<Longrightarrow> \<exists>e4 e3. mmu (xm_mem s) K va =
       Some (access ((e AND XPT_HUGE_MASK) OR (va AND (XERET_HUGE_SIZE - 1))) [e4, e3, e]) \<and> \<not> bit e4 2 \<and> bit e4 1 \<and> bit e3 1"
    by blast+
qed

section \<open>Boot\<close>

text \<open>The leaf flags \<open>xpt_init_identity\<close> gives page \<open>q\<close>: uncached in the device window and the
  framebuffer, cached in RAM below the window and above 4 GiB, nothing elsewhere.\<close>

definition boot_uc :: "u64 \<Rightarrow> u64 \<Rightarrow> nat set" where
  "boot_uc extra_base extra_size = hull XPT_MMIO_BASE FOUR_GIB \<union> (if extra_size \<noteq> 0 then hull extra_base (extra_base + extra_size) else {})"

definition boot_ram :: "u64 \<Rightarrow> nat set" where
  "boot_ram phys_end = hull 0 (align_up (min phys_end XPT_MMIO_BASE) XERET_HUGE_SIZE) \<union>
     (if phys_end > FOUR_GIB then hull FOUR_GIB (align_up phys_end XERET_HUGE_SIZE) else {})"

definition boot_flags :: "u64 \<Rightarrow> u64 \<Rightarrow> u64 \<Rightarrow> nat \<Rightarrow> u64 option" where
  "boot_flags phys_end extra_base extra_size q =
     (if q \<in> boot_uc extra_base extra_size then Some (XPT_KERNEL_RW OR XPT_GLOBAL OR XPT_UC)
      else if q \<in> boot_ram phys_end then Some (XPT_KERNEL_RW OR XPT_GLOBAL) else None)"

lemma enable_protections_frame:
  assumes "enable_protections cpuid s = (r, s')"
  shows "\<exists>c p. s' = s\<lparr>pt_cpu := c, pt_prot := p\<rparr>"
proof -
  have same: "\<exists>c p. s = s\<lparr>pt_cpu := c, pt_prot := p\<rparr>" by (intro exI [of _ "pt_cpu s"] exI [of _ "pt_prot s"]) simp
  show ?thesis using assms same
    by (auto simp: enable_protections_def wrmsr_def cpu_update_def Let_def split: prod.splits if_splits)
qed

lemma tree_single:
  assumes "tot \<le> 33554432" "0 < g" "g < tot" "\<And>j. j < 512 \<Longrightarrow> ent m g j = 0"
  shows "tree (fa g) [g \<mapsto> (fa g, [])] Map.empty m tot"
  by (rule treeI) (use assms in \<open>auto simp: adm_def is_leaf_def split: if_splits\<close>)

lemma new_root_kmap:
  assumes rdy: "phys_ready (xm_phys s)" and al: "alloc_zero_table s = (a, s')" and a: "a \<noteq> 0"
  shows "\<exists>g. a = fa g \<and> kmap a [g \<mapsto> (a, [])] Map.empty s' \<and> g \<in> ffree (xm_phys s) \<and> phys_same (xm_phys s) (xm_phys s') \<and>
    ffree (xm_phys s') = ffree (xm_phys s) - {g} \<and> (\<forall>x. unat x div 4096 \<noteq> g \<longrightarrow> xm_mem s' x = xm_mem s x) \<and> Xmach.more s' = Xmach.more s"
proof -
  obtain g where g: "a = fa g" "g \<in> ffree (xm_phys s)" "0 < g" "g < unat (pb_total (xm_phys s))"
    and s1: "phys_ready (xm_phys s')" "phys_same (xm_phys s) (xm_phys s')" "ffree (xm_phys s') = ffree (xm_phys s) - {g}"
      "xm_mem s' = (\<lambda>x. if unat x div 4096 = g then 0 else xm_mem s x)" "Xmach.more s' = Xmach.more s"
    using alloc_zero_table_spec(2) [OF rdy al a] by blast
  have tot: "unat (pb_total (xm_phys s)) \<le> 33554432" using rdy by (simp add: phys_ready_def phys_inv_def)
  have "ent (xm_mem s') g j = 0" if "j < 512" for j by (rule ent_zero) (use that g(4) tot s1(4) in auto)
  from tree_single [OF tot g(3,4) this] have "trees a [g \<mapsto> (a, [])] Map.empty s'"
    using s1(1-3) by (simp add: trees_def g(1) phys_same_def)
  then have "kmap a [g \<mapsto> (a, [])] Map.empty s'" by (auto simp: kmap_def split: if_splits)
  then show ?thesis using g s1 by auto
qed

text \<open>The four regions in the order they are mapped.\<close>

lemma map_huge_opt:
  assumes "kmap K R M s" "c \<longrightarrow> unat stop \<le> 549755813888" "bit flags 0"
    "(if c then map_huge K start stop flags s else (0, s)) = (r, s')"
  shows "\<exists>R'. grown R s R' s' \<and> (if r = 0 then kmap K R' (hset K flags (if c then hull start stop else {}) ++ M) s'
    else r = -1 \<and> ffree (xm_phys s') = {} \<and> (\<exists>M'. kmap K R' M' s'))"
proof (cases c)
  case True
  then show ?thesis using map_huge_spec [OF assms(1) _ assms(3)] assms(2,4) by simp
next
  case False
  have "hset K flags {} = Map.empty" by (auto simp: hset_def)
  then show ?thesis using False assms(1,4) by (intro exI [of _ R]) auto
qed

lemma align_up_bound:
  assumes "unat v + 2097151 < 18446744073709551616"
  shows "unat (align_up v XERET_HUGE_SIZE) \<le> unat v + 2097151"
proof -
  have "align_up v XERET_HUGE_SIZE = align_down (v + XERET_HUGE_SIZE - 1) XERET_HUGE_SIZE" by (simp add: align_up_def align_down_def)
  then have "unat (align_up v XERET_HUGE_SIZE) \<le> unat (v + XERET_HUGE_SIZE - 1)" by (simp only: align_down_unat div_times_less_eq_dividend)
  also have "v + XERET_HUGE_SIZE - 1 = v + 2097151" by simp
  also have "unat (v + 2097151) = unat v + 2097151" using assms by (subst unat_add_less) simp_all
  finally show ?thesis .
qed

definition booted :: "u64 \<Rightarrow> u64 \<Rightarrow> u64 \<Rightarrow> 'a Paging_scheme \<Rightarrow> roles \<Rightarrow> leaves \<Rightarrow> 'a Paging_scheme \<Rightarrow> bool" where
  "booted phys_end extra_base extra_size s R M s' \<longleftrightarrow> kmap (pt_pml4_phys s') R M s' \<and> kern_roles (pt_pml4_phys s') R M \<and>
     (\<forall>q. M (pt_pml4_phys s', pq q) = map_option (\<lambda>flags. huge_leaf flags (hq q)) (boot_flags phys_end extra_base extra_size q)) \<and>
     (\<forall>P p. P \<noteq> pt_pml4_phys s' \<or> (\<forall>q. p \<noteq> pq q) \<longrightarrow> M (P, p) = None) \<and>
     cpu_cr3 (pt_cpu s') = pt_pml4_phys s' \<and> pt_mmio_next s' = XPT_MMIO_VA \<and> phys_same (xm_phys s) (xm_phys s') \<and>
     dom R \<subseteq> ffree (xm_phys s) \<and> ffree (xm_phys s') = ffree (xm_phys s) - dom R \<and>
     (\<forall>x. unat x div 4096 \<notin> dom R \<longrightarrow> xm_mem s' x = xm_mem s x) \<and>
     lg_table s' = lg_table s \<and> lg_live s' = lg_live s \<and> pt_maps s' = pt_maps s \<and> Paging.more s' = Paging.more s"

lemma xpt_init_spec:
  assumes rdy: "phys_ready (xm_phys s)" and it: "xpt_init_identity cpuid pe eb es s = (0, s')"
  shows "\<exists>R M. booted pe eb es s R M s'"
proof -
  have c: "\<not> pe = 0" "\<not> align_up pe XERET_HUGE_SIZE > PML4_SPAN"
    "\<not> (es \<noteq> 0 \<and> (eb + es > PML4_SPAN \<or> eb + es < eb))"
    using it unfolding xpt_init_identity_def by (auto simp only: if_P if_not_P prod.inject split: if_splits)
  have span: "unat PML4_SPAN = 549755813888" by simp
  have b: "unat FOUR_GIB \<le> 549755813888" "es \<noteq> 0 \<longrightarrow> unat (eb + es) \<le> 549755813888" "unat (align_up pe XERET_HUGE_SIZE) \<le> 549755813888"
    using c(2,3) span by (auto simp: word_less_nat_alt)
  define low where "low = (if pe < XPT_MMIO_BASE then pe else XPT_MMIO_BASE)"
  have lowm: "low = min pe XPT_MMIO_BASE" by (auto simp: low_def min_def)
  have lowb: "unat (align_up low XERET_HUGE_SIZE) \<le> 549755813888"
  proof -
    have "unat low \<le> 0xC0000000" by (simp add: lowm min_def word_le_nat_alt word_less_nat_alt)
    then show ?thesis using align_up_bound [of low] by simp
  qed
  let ?uc = "XPT_KERNEL_RW OR XPT_GLOBAL OR XPT_UC" and ?g = "XPT_KERNEL_RW OR XPT_GLOBAL"
  have fl: "bit ?uc 0" "bit ?g 0" by simp_all
  obtain r0 s0 where e0: "enable_protections cpuid s = (r0, s0)" by fastforce
  obtain K s1 where e1: "alloc_zero_table s0 = (K, s1)" by fastforce
  obtain r2 s2 where e2: "map_huge K XPT_MMIO_BASE FOUR_GIB ?uc s1 = (r2, s2)" by fastforce
  obtain r3 s3 where e3: "(if es \<noteq> 0 then map_huge K eb (eb + es) ?uc s2 else (0, s2)) = (r3, s3)" by fastforce
  obtain r4 s4 where e4: "map_huge K 0 (align_up low XERET_HUGE_SIZE) ?g s3 = (r4, s4)" by fastforce
  obtain r5 s5 where e5: "(if pe > FOUR_GIB then map_huge K FOUR_GIB (align_up pe XERET_HUGE_SIZE) ?g s4 else (0, s4)) = (r5, s5)" by fastforce
  obtain t s6 where e6: "next_level K XPT_MMIO_PML4 XPT_KERNEL_RW s5 = (t, s6)" by fastforce
  note it1 = it [unfolded xpt_init_identity_def if_not_P [OF c(1)] if_not_P [OF c(2)] if_not_P [OF c(3)] Let_def low_def [symmetric] e0 prod.case e1 e2 e3 e4 e5 e6]
  have z: "r0 = 0" "K \<noteq> 0" "r2 = 0" "r3 = 0" "r4 = 0" "r5 = 0" "t \<noteq> 0"
    and s': "s' = (write_cr3 K s6)\<lparr>pt_pml4_phys := K, pt_mmio_next := XPT_MMIO_VA\<rparr>"
    using it1 by (auto split: if_splits)
  obtain cp pr where s0: "s0 = s\<lparr>pt_cpu := cp, pt_prot := pr\<rparr>" using enable_protections_frame [OF e0] by blast
  have rdy0: "phys_ready (xm_phys s0)" using rdy by (simp add: s0)
  obtain g where g: "K = fa g" "kmap K [g \<mapsto> (K, [])] Map.empty s1" "g \<in> ffree (xm_phys s0)" "phys_same (xm_phys s0) (xm_phys s1)"
      "ffree (xm_phys s1) = ffree (xm_phys s0) - {g}" "\<forall>x. unat x div 4096 \<noteq> g \<longrightarrow> xm_mem s1 x = xm_mem s0 x" "Xmach.more s1 = Xmach.more s0"
    using new_root_kmap [OF rdy0 e1 z(2)] by blast
  let ?M2 = "hset K ?uc (hull XPT_MMIO_BASE FOUR_GIB) ++ Map.empty"
  let ?M3 = "hset K ?uc (if es \<noteq> 0 then hull eb (eb + es) else {}) ++ ?M2"
  let ?M4 = "hset K ?g (hull 0 (align_up low XERET_HUGE_SIZE)) ++ ?M3"
  let ?M5 = "hset K ?g (if pe > FOUR_GIB then hull FOUR_GIB (align_up pe XERET_HUGE_SIZE) else {}) ++ ?M4"
  obtain R2 where R2: "grown [g \<mapsto> (K, [])] s1 R2 s2" "kmap K R2 ?M2 s2" using map_huge_spec [OF g(2) b(1) fl(1) e2] z(3) by auto
  obtain R3 where R3: "grown R2 s2 R3 s3" "kmap K R3 ?M3 s3" using map_huge_opt [OF R2(2) b(2) fl(1) e3] z(4) by auto
  obtain R4 where R4: "grown R3 s3 R4 s4" "kmap K R4 ?M4 s4" using map_huge_spec [OF R3(2) lowb fl(2) e4] z(5) by auto
  obtain R5 where R5: "grown R4 s4 R5 s5" "kmap K R5 ?M5 s5" using map_huge_opt [OF R4(2) _ fl(2) e5] b(3) z(6) by auto
  have kg: "R5 g = Some (K, [])"
    using grown_role [OF R5(1)] grown_role [OF R4(1)] grown_role [OF R3(1)] grown_role [OF R2(1), of g "(K, [])"] by simp
  have n6: "next_level (fa g) (of_nat 384) (fl K K) s5 = (t, s6)" using e6 g(1) by (simp add: fl_def)
  have t5: "trees K R5 ?M5 s5" "\<forall>h Q. R5 h = Some (Q, []) \<longrightarrow> Q = K" using R5(2) by (auto simp: kmap_def)
  obtain g6 R6 where R6: "R6 g6 = Some (K, [] @ [384])" "trees K R6 ?M5 s6" "grown R5 s5 R6 s6"
    "\<forall>h r. R6 h = Some r \<longrightarrow> R5 h = Some r \<or> r = (K, [] @ [384])"
    using next_level_spec(2) [OF t5(1) kg _ _ _ _ n6 z(7)] t5(2) by (auto simp: adm_def is_leaf_def)
  have k6: "kmap K R6 ?M5 s6" by (rule kmap_role [OF R5(2) R6(2-4)]) simp
  have gr: "grown [g \<mapsto> (K, [])] s1 R6 s6"
    by (rule grown_trans [OF grown_trans [OF grown_trans [OF grown_trans [OF R2(1) R3(1)] R4(1)] R5(1)] R6(3)])
  note xf = xmach_more_fields [of s6 s1] xmach_more_fields [OF g(7)]
  have mo: "Xmach.more s6 = Xmach.more s1" using gr by (simp add: grown_def)
  have fld: "pt_pml4_phys s' = K" "xm_phys s' = xm_phys s6" "xm_mem s' = xm_mem s6" "lg_table s' = lg_table s" "lg_live s' = lg_live s"
    "cpu_cr3 (pt_cpu s') = K" "pt_mmio_next s' = XPT_MMIO_VA" "pt_maps s' = pt_maps s" "Paging.more s' = Paging.more s"
    using xmach_more_fields [OF mo] xmach_more_fields [OF g(7)] ledger_more_fields [OF xmach_more_fields(4) [OF mo]]
      ledger_more_fields [OF xmach_more_fields(4) [OF g(7)]]
    by (simp_all add: s' s0 write_cr3_def cpu_update_def)
  have "kmap K R6 ?M5 s'" using k6 fld(2,3) by (simp add: kmap_def trees_def)
  moreover have "?M5 (K, pq q) = map_option (\<lambda>flags. huge_leaf flags (hq q)) (boot_flags pe eb es q)" for q
    by (auto simp: map_add_def hset_pq boot_flags_def boot_uc_def boot_ram_def lowm)
  moreover have "?M5 (P, p) = None" if "P \<noteq> K \<or> (\<forall>q. p \<noteq> pq q)" for P p
    using hset_other [OF that] by (simp add: map_add_def)
  moreover have "kern_roles K R6 ?M5"
    using grown_role [OF R6(3) kg] R6(1) calculation(3) [of K] unfolding kern_roles_def by (auto simp: pq_def)
  moreover have "g \<in> dom R6" using grown_role [OF R6(3) kg] by auto
  moreover have "dom [g \<mapsto> (K, [])] = {g}" by simp
  moreover have "phys_same (xm_phys s) (xm_phys s')" "dom R6 - {g} \<subseteq> ffree (xm_phys s1)" "ffree (xm_phys s') = ffree (xm_phys s1) - (dom R6 - {g})"
    using gr g(4) phys_same_trans [of "xm_phys s" "xm_phys s1" "xm_phys s6"] by (auto simp: grown_def fld(2) s0)
  moreover have "xm_mem s' x = xm_mem s x" if "unat x div 4096 \<notin> dom R6" for x
  proof -
    have "unat x div 4096 \<noteq> g" using that \<open>g \<in> dom R6\<close> by metis
    then show ?thesis using g(6) gr that by (simp add: grown_def fld(3) s0)
  qed
  ultimately have "booted pe eb es s R6 ?M5 s'"
    using g(3,5) fld unfolding booted_def by (auto simp: s0)
  then show ?thesis by blast
qed

end
