(* ===== verification/Paging_Mmio.thy ===== *)
theory Paging_Mmio
  imports Paging_Kernel
begin

text \<open>
  Boot establishes the invariant, and \<open>xpt_map_uncached\<close> keeps it and maps what it says: every byte of
  the device range is reachable by the kernel, uncached and never executable, through the window.
\<close>

section \<open>The invariant after boot\<close>

lemma boot_pt_inv:
  assumes inv: "ledger_inv s" and cnt: "\<And>t e. toks s t = Some e \<Longrightarrow> te_map_count e = 0"
    and maps: "length (pt_maps s) = 1024" "\<And>k. k < 1024 \<Longrightarrow> \<not> mr_live (pt_maps s ! k)"
    and it: "xpt_init_identity cpuid pe eb es s = (0, s')"
  shows "pt_inv (ffree (xm_phys s) \<union> spans s) Map.empty s'"
proof -
  obtain R M where b: "booted pe eb es s R M s'" using xpt_init_spec [OF ledger_invD(1) [OF inv] it] by blast
  let ?K = "pt_pml4_phys s'"
  have k: "kmap ?K R M s'" "kern_roles ?K R M" and none: "\<And>P p. P \<noteq> ?K \<Longrightarrow> M (P, p) = None"
    and ph: "phys_same (xm_phys s) (xm_phys s')" "dom R \<subseteq> ffree (xm_phys s)" "ffree (xm_phys s') = ffree (xm_phys s) - dom R"
    and fld: "lg_table s' = lg_table s" "lg_live s' = lg_live s" "pt_maps s' = pt_maps s" "pt_mmio_next s' = XPT_MMIO_VA"
    using b by (auto simp: booted_def)
  have tr: "trees ?K R M s'" using k(1) by (simp add: kmap_def)
  have rdy: "phys_ready (xm_phys s')" using tr by (simp add: trees_def)
  have tk: "toks s' = toks s" by (rule toks_cong [OF fld(1)])
  have li: "ledger_inv s'" by (rule ledger_inv_taken [OF inv rdy ph(1) _ fld(1,2)]) (use ph(3) in blast)
  have spn: "te_span e \<inter> dom R = {}" if "toks s' t = Some e" for t e
    using span_not_free [OF inv, of t e] that ph(2) tk by auto
  have "P \<in> dom Map.empty \<longleftrightarrow> P \<noteq> ?K \<and> (\<exists>f. R f = Some (P, []))" for P using k(1) unfolding kmap_def by auto
  moreover have "recs ?K Map.empty M (toks s') (pt_maps s')"
  proof (rule recsI)
    show "unat (te_map_count e) = card (tok_recs (pt_maps s') t)" if "toks s' t = Some e" for t e
    proof -
      have "tok_recs (pt_maps s') t = {}" using maps(2) by (auto simp: tok_recs_def fld(3))
      then show ?thesis using cnt that tk by simp
    qed
  qed (use maps none in \<open>auto simp: fld(3)\<close>)
  ultimately have "pt_ok Map.empty R M s'" unfolding pt_ok_def using li tr k(2) spn by auto
  then show ?thesis
    by (rule pt_invI) (use ph spans_toks [OF tk] in \<open>auto simp: fld(4) mmio_ok_def\<close>)
qed

section \<open>Device pages\<close>

definition mpath :: "u64 \<Rightarrow> nat list" where
  "mpath va = [384, ix 30 va, ix 21 va, ix 12 va]"

definition mleaf :: "u64 \<Rightarrow> u64" where
  "mleaf pa = (pa AND XPT_ADDR_MASK) OR (XPT_KERNEL_RW OR XPT_GLOBAL OR XPT_UC OR XPT_NX)"

text \<open>What the device operations do to the leaves: they add leaves of the kernel in the window.\<close>

definition madded :: "u64 \<Rightarrow> leaves \<Rightarrow> leaves \<Rightarrow> bool" where
  "madded K M M' \<longleftrightarrow> M \<subseteq>\<^sub>m M' \<and> (\<forall>P q. M (P, q) = None \<longrightarrow> M' (P, q) \<noteq> None \<longrightarrow> P = K \<and> length q = 4)"

lemma madded_refl [simp]: "madded K M M"
  by (simp add: madded_def)

lemma madded_trans: "madded K M M1 \<Longrightarrow> madded K M1 M2 \<Longrightarrow> madded K M M2"
proof -
  assume a: "madded K M M1" "madded K M1 M2"
  have "P = K \<and> length q = 4" if "M (P, q) = None" "M2 (P, q) \<noteq> None" for P q
    using a that unfolding madded_def by (cases "M1 (P, q) = None") blast+
  moreover have "M \<subseteq>\<^sub>m M2" using a map_le_trans unfolding madded_def by blast
  ultimately show ?thesis unfolding madded_def by blast
qed

definition window4 :: "u64 \<Rightarrow> leaves \<Rightarrow> bool" where
  "window4 K M \<longleftrightarrow> (\<forall>q. M (K, 384 # q) \<noteq> None \<longrightarrow> length q = 3)"

lemma window4_madded: "window4 K M \<Longrightarrow> madded K M M' \<Longrightarrow> window4 K M'"
  unfolding window4_def madded_def
proof (intro allI impI)
  fix q assume a: "\<forall>q. M (K, 384 # q) \<noteq> None \<longrightarrow> length q = 3"
    "M \<subseteq>\<^sub>m M' \<and> (\<forall>P q. M (P, q) = None \<longrightarrow> M' (P, q) \<noteq> None \<longrightarrow> P = K \<and> length q = 4)" "M' (K, 384 # q) \<noteq> None"
  show "length q = 3"
  proof (cases "M (K, 384 # q) = None")
    case True
    then have "length (384 # q) = 4" using a(2,3) by blast
    then show ?thesis by simp
  qed (use a in blast)
qed

lemma mmio_page_spec:
  assumes t: "trees K R M s" and f: "R f = Some (K, [384])" and w4: "window4 K M" and mp: "mmio_page (fa f) va pa s = (r, s')"
  shows "\<exists>R'. grown R s R' s' \<and> (if r = 0 then M (K, mpath va) = None \<and> trees K R' (M((K, mpath va) \<mapsto> mleaf pa)) s'
     else r = -1 \<and> trees K R' M s')"
proof -
  define j c l where jcl: "j = ix 30 va" "c = ix 21 va" "l = ix 12 va"
  have ad: "adm K K [384] j" "adm K K [384, j] c" "adm K K [384, j, c] l" by (auto simp: adm_def jcl)
  have rw: "XPT_KERNEL_RW = fl K K" by (simp add: fl_def)
  have uc: "XPT_KERNEL_RW OR XPT_GLOBAL OR XPT_UC OR XPT_NX = (fl K K OR XPT_GLOBAL OR XPT_UC OR XPT_NX)" by (simp add: fl_def)
  note mpd = mp [unfolded mmio_page_def ix_word rw jcl [symmetric]]
  obtain t1 s1 where n1: "next_level (fa f) (of_nat j) (fl K K) s = (t1, s1)" by fastforce
  note x1 = next_level_spec [OF t f _ ad(1) _ _ n1]
  show ?thesis
  proof (cases "t1 = 0")
    case True
    then have "r = -1" "s' = s" using mpd n1 x1(1) by (auto simp: is_leaf_def)
    then show ?thesis using t by (intro exI [of _ R]) simp
  next
    case False
    obtain f1 R1 where f1: "t1 = fa f1" "R1 f1 = Some (K, [384, j])" "trees K R1 M s1" "grown R s R1 s1"
      using x1(2) [OF _ _ _ False] by (auto simp: is_leaf_def)
    have tr1: "tree K R1 M (xm_mem s1) (unat (pb_total (xm_phys s1)))" using f1(3) by (simp add: trees_def)
    have nl: "\<not> is_leaf [384, j] (ent (xm_mem s1) f1 c)"
    proof
      assume "is_leaf [384, j] (ent (xm_mem s1) f1 c)"
      then have "M (K, [384, j] @ [c]) = Some (ent (xm_mem s1) f1 c)" unfolding tree6 [OF tr1] using f1(2) ad(2) by blast
      then have "length [j, c] = 3" using w4 unfolding window4_def by fastforce
      then show False by simp
    qed
    obtain t2 s2 where n2: "next_level (fa f1) (of_nat c) (fl K K) s1 = (t2, s2)" by fastforce
    note x2 = next_level_spec [OF f1(3,2) _ ad(2) nl _ n2]
    show ?thesis
    proof (cases "t2 = 0")
      case True
      then have "r = -1" "s' = s1" using mpd n1 n2 f1(1) False x2(1) by auto
      then show ?thesis using f1(3,4) by (intro exI [of _ R1]) simp
    next
      case t2: False
      obtain f2 R2 where f2: "t2 = fa f2" "R2 f2 = Some (K, [384, j, c])" "trees K R2 M s2" "grown R1 s1 R2 s2"
        using x2(2) [OF _ _ t2] by auto
      have g2: "grown R s R2 s2" by (rule grown_trans [OF f1(4) f2(4)])
      have tr2: "tree K R2 M (xm_mem s2) (unat (pb_total (xm_phys s2)))" using f2(3) by (simp add: trees_def)
      note d = treeD [OF tr2]
      have fb: "f2 < 33554432" using d(1) d(2) [OF f2(2)] by linarith
      have p: "mpath va = [384, j, c] @ [l]" by (simp add: mpath_def jcl)
      show ?thesis
      proof (cases "bit (ent (xm_mem s2) f2 l) 0")
        case True
        have "r = -1" "s' = s2" using mpd n1 n2 f1(1) f2(1) False t2 True by (auto simp: Let_def tbl_get_ent present_iff)
        then show ?thesis using f2(3) g2 by (intro exI [of _ R2]) simp
      next
        case nb: False
        have v: "bit (mleaf pa) 0" by (simp add: mleaf_def bit_simps)
        have "M (K, [384, j, c] @ [l]) = None"
        proof (rule ccontr)
          assume "M (K, [384, j, c] @ [l]) \<noteq> None"
          then obtain e h where "R2 h = Some (K, [384, j, c])" "e = ent (xm_mem s2) h l" "is_leaf [384, j, c] e"
            using d(6) [of K "[384, j, c]" l] by auto
          then show False using role_unique [OF tr2 f2(2), of h] nb by (simp add: is_leaf_def)
        qed
        moreover have s': "r = 0" "s' = s2\<lparr>xm_mem := store64 (xm_mem s2) (ea f2 l) (mleaf pa)\<rparr>"
          using mpd n1 n2 f1(1) f2(1) False t2 nb by (auto simp: Let_def tbl_get_ent present_iff tbl_set_mem mleaf_def fl_def)
        moreover have "trees K R2 (M((K, [384, j, c] @ [l]) := if bit (mleaf pa) 0 then Some (mleaf pa) else None)) s'" unfolding s'(2)
          by (rule trees_leaf [OF f2(3,2) ad(3)]) (use nb v in \<open>auto simp: is_leaf_def\<close>)
        moreover have "grown R s R2 s'" unfolding s'(2) by (rule grown_store [OF g2 f2(2) fb]) (simp add: jcl)
        ultimately show ?thesis using v p by (intro exI [of _ R2]) simp
      qed
    qed
  qed
qed

lemma mmio_loop_spec:
  assumes "trees K R M s" "R f = Some (K, [384])" "window4 K M" "mmio_loop (fa f) base start js s = (r, s')"
  shows "\<exists>R' M'. grown R s R' s' \<and> trees K R' M' s' \<and> madded K M M' \<and> (r = 0 \<or> r = -1) \<and>
    (r = 0 \<longrightarrow> (\<forall>i \<in> set js. M' (K, mpath (page base i)) = Some (mleaf (page start i))))"
  using assms
proof (induction js arbitrary: R M s)
  case Nil
  then show ?case by (intro exI [of _ R] exI [of _ M]) simp
next
  case (Cons i js)
  obtain r1 s1 where o: "mmio_page (fa f) (page base i) (page start i) s = (r1, s1)" by fastforce
  obtain R1 where R1: "grown R s R1 s1" "if r1 = 0 then M (K, mpath (page base i)) = None \<and>
      trees K R1 (M((K, mpath (page base i)) \<mapsto> mleaf (page start i))) s1 else r1 = -1 \<and> trees K R1 M s1"
    using mmio_page_spec [OF Cons.prems(1-3) o] by blast
  show ?case
  proof (cases "r1 = 0")
    case False
    then show ?thesis using Cons.prems(4) o R1 by (intro exI [of _ R1] exI [of _ M]) (auto simp: page_def)
  next
    case True
    let ?M = "M((K, mpath (page base i)) \<mapsto> mleaf (page start i))"
    have n: "M (K, mpath (page base i)) = None" and t1: "trees K R1 ?M s1" using R1(2) True by simp_all
    have ma: "madded K M ?M" using n by (auto simp: madded_def map_le_def mpath_def)
    have lp: "mmio_loop (fa f) base start js s1 = (r, s')" using Cons.prems(4) o True by (simp add: page_def)
    obtain R' M' where ih: "grown R1 s1 R' s'" "trees K R' M' s'" "madded K ?M M'" "r = 0 \<or> r = -1"
      "r = 0 \<longrightarrow> (\<forall>i \<in> set js. M' (K, mpath (page base i)) = Some (mleaf (page start i)))"
      using Cons.IH [OF t1 grown_role [OF R1(1) Cons.prems(2)] window4_madded [OF Cons.prems(3) ma] lp] by blast
    have "M' (K, mpath (page base i)) = Some (mleaf (page start i))"
      using ih(3) unfolding madded_def map_le_def by (metis domI fun_upd_same)
    then show ?thesis using ih grown_trans [OF R1(1) ih(1)] madded_trans [OF ma ih(3)]
      by (intro exI [of _ R'] exI [of _ M']) auto
  qed
qed

section \<open>Mapping a device range\<close>

lemma recs_kernel:
  assumes r: "recs K sp M T maps" and m: "madded K M M'" and K: "K \<notin> dom sp"
  shows "recs K sp M' T maps"
proof (rule recsI [OF recs1 [OF r] _ _ recs4 [OF r] recs5 [OF r]])
  have off: "M' (P, q) = M (P, q)" if "P \<noteq> K" for P q
    using m that unfolding madded_def map_le_def by (metis domIff)
  show "rec_ok sp M' T (maps ! k)" if k: "k < 1024" "mr_live (maps ! k)" for k
  proof -
    have "mr_as_pml4 (maps ! k) \<noteq> K" using recs2 [OF r k] K by (auto simp: rec_ok_def)
    then show ?thesis using recs2 [OF r k] off by (auto simp: rec_ok_def)
  qed
  show "\<exists>k < 1024. mr_live (maps ! k) \<and> (P, q) \<in> rkeys (maps ! k)" if "M' (P, q) \<noteq> None" "P \<noteq> K" for P q
    using recs3 [OF r, of P q] that off by simp
qed auto

lemma pt_ok_madded:
  assumes ok: "pt_ok sp R M s" and g: "grown R s R' s'" and t: "trees (pt_pml4_phys s) R' M' s'" and m: "madded (pt_pml4_phys s) M M'"
  shows "pt_ok sp R' M' s'"
proof -
  note d = pt_okD [OF ok]
  have rdy: "phys_ready (xm_phys s')" using t by (simp add: trees_def)
  note li = ledger_inv_grown [OF d(1) g rdy]
  have mo: "Ledger.more s' = Ledger.more s" using g xmach_more_fields(4) [of s' s] by (simp add: grown_def)
  note lf = ledger_more_fields [OF mo]
  have "window4 (pt_pml4_phys s) M'" by (rule window4_madded [OF _ m]) (use d(3) in \<open>simp add: kern_roles_def window4_def\<close>)
  then have kr: "kern_roles (pt_pml4_phys s) R' M'" using d(3) grown_role [OF g] unfolding kern_roles_def window4_def by blast
  have dR: "dom R' \<subseteq> dom R \<union> ffree (xm_phys s)" using g by (auto simp: grown_def)
  have spn: "te_span e \<inter> dom R' = {}" if "toks s' x = Some e" for x e
  proof -
    have "toks s x = Some e" using that li(2) by simp
    then show ?thesis using d(4) span_not_free [OF d(1)] dR by blast
  qed
  have dm: "P \<in> dom sp \<longleftrightarrow> P \<noteq> pt_pml4_phys s \<and> (\<exists>f. R' f = Some (P, []))" for P
    using d(5) [of P] grown_role [OF g] g unfolding grown_def by blast
  have K: "pt_pml4_phys s \<notin> dom sp" using d(5) by blast
  show ?thesis unfolding pt_ok_def lf li(2) using li(1) t kr spn li(2) dm d(6) recs_kernel [OF d(7) m K] by auto
qed

lemma grown_acct_toks: "grown R s R' s' \<Longrightarrow> lg_table s' = lg_table s"
  using xmach_more_fields(1) [of s' s] by (simp add: grown_def)

text \<open>The walk through the window.\<close>

lemma window_walk:
  assumes ok: "pt_ok sp R M s" and e: "M (pt_pml4_phys s, mpath va) = Some e" and va: "ix 39 va = 384" "canonical va"
  shows "\<exists>e4 e3 e2. mmu (xm_mem s) (pt_pml4_phys s) va = Some (access ((e AND XPT_ADDR_MASK) OR (va AND 0xFFF)) [e4, e3, e2, e]) \<and>
    \<not> bit e4 2 \<and> bit e4 1 \<and> bit e3 1 \<and> bit e2 1"
proof -
  let ?K = "pt_pml4_phys s" and ?m = "xm_mem s"
  have t: "tree ?K R M ?m (unat (pb_total (xm_phys s)))" using pt_okD(2) [OF ok] by (simp add: trees_def)
  note d = treeD [OF t]
  have up: "\<exists>h. R h = Some (?K, p) \<and> ent ?m h x AND XPT_ADDR_MASK = fa g \<and> bit (ent ?m h x) 0 \<and> \<not> bit (ent ?m h x) 7 \<and>
      \<not> bit (ent ?m h x) 2 \<and> bit (ent ?m h x) 1" if g: "R g = Some (?K, p @ [x])" for g p x
  proof -
    obtain h where h: "R h = Some (?K, p)" "ent ?m h x = ptr g (fl ?K ?K)" using d(5) [OF g] by blast
    have "g < 33554432" using d(1) d(2) [OF g] by linarith
    then show ?thesis using h ptr_addr [of g "fl ?K ?K"] ptr_bit [of _ g "fl ?K ?K"] by (intro exI [of _ h]) (auto simp: fl_def)
  qed
  define j c l where jcl: "j = ix 30 va" "c = ix 21 va" "l = ix 12 va"
  have "mpath va = [384, j, c] @ [l]" by (simp add: mpath_def jcl)
  then obtain f3 where f3: "R f3 = Some (?K, [384, j] @ [c])" "e = ent ?m f3 l" "bit e 0"
    using e d(6) [of ?K "[384, j, c]" l e] by (auto simp: is_leaf_def)
  obtain f2 where f2: "R f2 = Some (?K, [384] @ [j])" "ent ?m f2 c AND XPT_ADDR_MASK = fa f3" "bit (ent ?m f2 c) 0" "\<not> bit (ent ?m f2 c) 7" "bit (ent ?m f2 c) 1"
    using up [OF f3(1)] by auto
  obtain f1 where f1: "R f1 = Some (?K, [] @ [384])" "ent ?m f1 j AND XPT_ADDR_MASK = fa f2" "bit (ent ?m f1 j) 0" "\<not> bit (ent ?m f1 j) 7" "bit (ent ?m f1 j) 1"
    using up [OF f2(1)] by auto
  obtain f0 where f0: "R f0 = Some (?K, [])" "ent ?m f0 384 AND XPT_ADDR_MASK = fa f1" "bit (ent ?m f0 384) 0" "\<not> bit (ent ?m f0 384) 2" "bit (ent ?m f0 384) 1"
    using up [OF f1(1)] by auto
  have fb: "f0 < 33554432" using d(1) d(2) [OF f0(1)] by linarith
  have K: "?K AND XPT_ADDR_MASK = fa f0" using d(3) [OF f0(1)] fa_masked [OF fb] by simp
  have "mmu ?m ?K va = Some (access ((e AND XPT_ADDR_MASK) OR (va AND 0xFFF)) [ent ?m f0 384, ent ?m f1 j, ent ?m f2 c, e])"
    unfolding mmu_def va(1) jcl [symmetric] K load_entry Let_def
    using va(2) f0(2-3) f1(2-4) f2(2-4) f3(2,3) by (simp add: load_entry)
  then show ?thesis using f0(4,5) f1(5) f2(5) by blast
qed

lemma page_align_down: "unat (align_down v XERET_FRAME_SIZE) = unat v div 4096 * 4096"
proof -
  have "XERET_FRAME_SIZE - 1 = (mask 12 :: u64)" by (simp add: mask_eq_exp_minus_1)
  then have "align_down v XERET_FRAME_SIZE = v AND NOT (mask 12)" by (simp only: align_down_def)
  then have "align_down v XERET_FRAME_SIZE = push_bit 12 (drop_bit 12 v)"
    by (simp only:) (rule bit_word_eqI, auto simp: bit_simps)
  moreover have "unat v div 4096 * 4096 < 18446744073709551616"
    using unat_u64_bound [of v] by (meson div_times_less_eq_dividend le_less_trans)
  moreover have "unat (drop_bit 12 v) = unat v div 4096" by (simp add: drop_bit_eq_div unat_div)
  ultimately show ?thesis by (simp add: push_bit_eq_mult unat_word_ariths unat_div)
qed

lemma pages_of_range:
  assumes "unat phys + unat n \<le> 4503599627370496" "n \<noteq> 0"
  shows "unat ((align_up (phys + n) XERET_FRAME_SIZE - align_down phys XERET_FRAME_SIZE) div XERET_FRAME_SIZE) =
    (unat phys + unat n + 4095) div 4096 - unat phys div 4096"
proof -
  have e: "align_up (phys + n) XERET_FRAME_SIZE = align_down (phys + n + 4095) XERET_FRAME_SIZE"
    by (simp add: align_up_def align_down_def ac_simps)
  have u: "unat (phys + n + 4095) = unat phys + unat n + 4095"
    using assms(1) by (subst unat_add_less, subst unat_add_less) (simp_all add: unat_add_less)
  have up: "unat (align_up (phys + n) XERET_FRAME_SIZE) = (unat phys + unat n + 4095) div 4096 * 4096"
    unfolding e page_align_down u ..
  have "unat phys div 4096 * 4096 \<le> (unat phys + unat n + 4095) div 4096 * 4096" by (intro mult_le_mono1 div_le_mono) simp
  then have "unat (align_up (phys + n) XERET_FRAME_SIZE - align_down phys XERET_FRAME_SIZE) =
      ((unat phys + unat n + 4095) div 4096 - unat phys div 4096) * 4096"
    using up page_align_down [of phys] by (simp add: unat_sub word_le_nat_alt diff_mult_distrib)
  then show ?thesis by (simp add: unat_div)
qed

lemma window_ix:
  assumes "unat XPT_MMIO_VA \<le> unat va" "unat va < unat XPT_MMIO_VA + 549755813888"
  shows "ix 39 va = 384" "canonical va"
proof -
  have "unat va div 549755813888 = 33554304" using assms by (intro div_nat_eqI) simp_all
  then show "ix 39 va = 384" by (simp add: ix_eq)
  show "canonical va" using assms(1) by (simp add: canonical_def)
qed

lemma mpath_page:
  assumes "unat a div 4096 = unat b div 4096"
  shows "mpath a = mpath b"
proof -
  have "unat x div 1073741824 = unat x div 4096 div 262144" "unat x div 2097152 = unat x div 4096 div 512" for x :: u64
    by (simp_all add: div_mult2_eq [symmetric])
  then show ?thesis using assms by (simp add: mpath_def ix_eq)
qed

lemma aligned_bits:
  assumes "unat (x :: u64) mod 4096 = 0" "unat x < 4503599627370496"
  shows "x AND XPT_ADDR_MASK = x" "x OR (v AND 0xFFF) = x + (v AND 0xFFF)"
proof -
  have "unat (take_bit 12 x) = unat x mod 4096" by (simp only: take_bit_eq_mod unat_mod) simp
  then have "take_bit 12 x = 0" using assms(1) by (simp add: unat_eq_zero [symmetric])
  then have lo: "12 \<le> n" if "bit x n" for n using that by (metis bit_0_eq bit_take_bit_iff bot_apply bot_bool_def not_le)
  have "unat (take_bit 52 x) = unat x mod 4503599627370496" by (simp only: take_bit_eq_mod unat_mod) simp
  then have "take_bit 52 x = x" using assms(2) by (simp add: word_unat_eq_iff)
  then have hi: "n < 52" if "bit x n" for n using that by (metis bit_take_bit_iff)
  show "x AND XPT_ADDR_MASK = x"
  proof (rule bit_word_eqI)
    fix n show "bit (x AND XPT_ADDR_MASK) n = bit x n" using lo hi bit_addr_mask [of n] by (auto simp only: bit_and_iff)
  qed
  have "(0xFFF :: u64) = mask 12" by (simp add: mask_eq_exp_minus_1)
  then have "n < 12" if "bit (v AND 0xFFF) n" for n using that by (simp only: bit_and_iff bit_mask_iff)
  then have "\<not> bit x n \<or> \<not> bit (v AND 0xFFF) n" for n using lo not_le by blast
  then show "x OR (v AND 0xFFF) = x + (v AND 0xFFF)" by (rule disjunctive_add [symmetric])
qed

lemma mleaf_addr: "mleaf pa AND XPT_ADDR_MASK = pa AND XPT_ADDR_MASK"
  by (simp add: mleaf_def bit.conj_disj_distrib2)

lemma page_split: "(a :: nat) mod 4096 = 0 \<Longrightarrow> l < 4096 \<Longrightarrow> (a + l) div 4096 = a div 4096" "(a :: nat) mod 4096 = 0 \<Longrightarrow> l < 4096 \<Longrightarrow> (a + l) mod 4096 = l"
  by (auto elim!: dvdE simp: mod_eq_0_iff_dvd)

lemma window_access:
  assumes ok: "pt_ok sp R M s" and M: "M (pt_pml4_phys s, mpath (page base i)) = Some (mleaf (page start i))"
    and va: "unat (page base i) mod 4096 = 0" "unat va = unat (page base i) + l" "l < 4096"
      "unat XPT_MMIO_VA \<le> unat va" "unat va < unat XPT_MMIO_VA + 549755813888"
    and pa: "unat (page start i) mod 4096 = 0" "unat pa = unat (page start i) + l" "unat pa < 4503599627370496"
  shows "\<exists>ac. mmu (xm_mem s) (pt_pml4_phys s) va = Some ac \<and> ac_phys ac = pa \<and> ac_write ac \<and> ac_uncached ac \<and> \<not> ac_user ac \<and> \<not> ac_exec ac"
proof -
  have "unat va div 4096 = unat (page base i) div 4096" unfolding va(2) by (rule page_split(1) [OF va(1,3)])
  then have "M (pt_pml4_phys s, mpath va) = Some (mleaf (page start i))" using M mpath_page by metis
  from window_walk [OF ok this window_ix [OF va(4,5)]] obtain e4 e3 e2 where w: "mmu (xm_mem s) (pt_pml4_phys s) va =
      Some (access ((mleaf (page start i) AND XPT_ADDR_MASK) OR (va AND 0xFFF)) [e4, e3, e2, mleaf (page start i)])"
    "\<not> bit e4 2" "bit e4 1" "bit e3 1" "bit e2 1" by blast
  have b: "unat (page start i) < 4503599627370496" using pa(2,3) by linarith
  have "unat (va AND 0xFFF) = l"
  proof -
    have "va AND 0xFFF = take_bit 12 va" by (simp add: take_bit_eq_mask mask_eq_exp_minus_1)
    moreover have "unat (take_bit 12 va) = unat va mod 4096" by (simp only: take_bit_eq_mod unat_mod) simp
    moreover have "unat va mod 4096 = l" unfolding va(2) by (rule page_split(2) [OF va(1,3)])
    ultimately show ?thesis by simp
  qed
  then have "unat (page start i + (va AND 0xFFF)) = unat pa" using pa(2,3) by (subst unat_add_less) simp_all
  then have "(mleaf (page start i) AND XPT_ADDR_MASK) OR (va AND 0xFFF) = pa"
    unfolding mleaf_addr aligned_bits [OF pa(1) b] by (simp only: word_unat_eq_iff)
  moreover have "bit (mleaf x) 1" "bit (mleaf x) 4" "bit (mleaf x) 63" for x by (simp_all add: mleaf_def bit_simps)
  ultimately show ?thesis using w by (simp add: access_def)
qed

text \<open>The guards of \<open>xpt_map_uncached\<close> and its one loop.\<close>

lemma map_uncached_cases:
  assumes "xpt_map_uncached phys n s = (res, s')"
  obtains "res = None" "s' = s"
  | pages r s1 where "n \<noteq> 0" "\<not> phys + n < phys"
      "pages = (align_up (phys + n) XERET_FRAME_SIZE - align_down phys XERET_FRAME_SIZE) div XERET_FRAME_SIZE" "pages \<noteq> 0" "\<not> pages > 4096"
      "\<not> (pt_mmio_next s + pages * XERET_FRAME_SIZE < pt_mmio_next s)" "\<not> pt_mmio_next s + pages * XERET_FRAME_SIZE > XPT_MMIO_VA + PML4_SPAN"
      "mmio_loop (tbl_get (pt_pml4_phys s) XPT_MMIO_PML4 s AND XPT_ADDR_MASK) (pt_mmio_next s) (align_down phys XERET_FRAME_SIZE) [0..<unat pages] s = (r, s1)"
      "(res, s') = (if r \<noteq> 0 then (None, s1) else (Some (pt_mmio_next s + (phys - align_down phys XERET_FRAME_SIZE)),
          s1\<lparr>pt_mmio_next := pt_mmio_next s + pages * XERET_FRAME_SIZE\<rparr>))"
proof -
  let ?p = "(align_up (phys + n) XERET_FRAME_SIZE - align_down phys XERET_FRAME_SIZE) div XERET_FRAME_SIZE"
  obtain r s1 where l: "mmio_loop (tbl_get (pt_pml4_phys s) XPT_MMIO_PML4 s AND XPT_ADDR_MASK) (pt_mmio_next s) (align_down phys XERET_FRAME_SIZE) [0..<unat ?p] s = (r, s1)" by fastforce
  consider "pt_pml4_phys s = 0 \<or> n = 0" | "\<not> (pt_pml4_phys s = 0 \<or> n = 0)" "phys + n < phys"
    | "\<not> (pt_pml4_phys s = 0 \<or> n = 0)" "\<not> phys + n < phys" "?p = 0 \<or> ?p > XPT_MMIO_MAX_PAGES"
    | "\<not> (pt_pml4_phys s = 0 \<or> n = 0)" "\<not> phys + n < phys" "\<not> (?p = 0 \<or> ?p > XPT_MMIO_MAX_PAGES)"
      "pt_mmio_next s + ?p * XERET_FRAME_SIZE < pt_mmio_next s \<or> pt_mmio_next s + ?p * XERET_FRAME_SIZE > 0xFFFFC00000000000 + PML4_SPAN"
    | "\<not> (pt_pml4_phys s = 0 \<or> n = 0)" "\<not> phys + n < phys" "\<not> (?p = 0 \<or> ?p > XPT_MMIO_MAX_PAGES)"
      "\<not> (pt_mmio_next s + ?p * XERET_FRAME_SIZE < pt_mmio_next s \<or> pt_mmio_next s + ?p * XERET_FRAME_SIZE > 0xFFFFC00000000000 + PML4_SPAN)" by argo
  then show thesis
  proof cases
    case 5
    note u = assms [unfolded xpt_map_uncached_def Let_def if_not_P [OF 5(1)] if_not_P [OF 5(2)] if_not_P [OF 5(3)] if_not_P [OF 5(4)] l prod.case]
    show thesis by (rule that(2) [OF _ _ refl _ _ _ _ l u [symmetric]]) (use 5 in auto)
  qed (use assms that(1) in \<open>simp_all only: xpt_map_uncached_def Let_def if_True if_False simp_thms prod.inject\<close>)
qed

lemma window_table:
  assumes ok: "pt_ok sp R M s"
  shows "\<exists>f. R f = Some (pt_pml4_phys s, [384]) \<and> tbl_get (pt_pml4_phys s) XPT_MMIO_PML4 s AND XPT_ADDR_MASK = fa f"
proof -
  let ?K = "pt_pml4_phys s"
  have t: "tree ?K R M (xm_mem s) (unat (pb_total (xm_phys s)))" using pt_okD(2) [OF ok] by (simp add: trees_def)
  note d = treeD [OF t]
  obtain f where f: "R f = Some (?K, [] @ [384])" using pt_okD(3) [OF ok] by (auto simp: kern_roles_def)
  obtain h where h: "R h = Some (?K, [])" "ent (xm_mem s) h 384 = ptr f (fl ?K ?K)" using d(5) [OF f] by blast
  have fb: "f < 33554432" using d(1) d(2) [OF f] by linarith
  have "tbl_get ?K XPT_MMIO_PML4 s = ent (xm_mem s) h 384" using tbl_get_ent [of h 384 s] d(3) [OF h(1)] by simp
  then show ?thesis using h(2) ptr_addr [OF fb, of "fl ?K ?K"] f by auto
qed

text \<open>Byte \<open>off\<close> of a device range is byte \<open>l\<close> of page \<open>i\<close>, both physically and in the window.\<close>

lemma device_byte:
  assumes nx: "mmio_ok base" and pb: "unat phys + unat n \<le> 4503599627370496" and off: "off < unat (n :: u64)"
    and ps: "unat pages = (unat phys + unat n + 4095) div 4096 - unat phys div 4096" and pg: "unat (pages :: u64) \<le> 4096"
    and nb: "unat base + unat pages * 4096 \<le> unat XPT_MMIO_VA + 549755813888"
  obtains i l where "i < unat pages" "l < 4096" "unat (page base i) mod 4096 = 0" "unat (page (align_down phys XERET_FRAME_SIZE) i) mod 4096 = 0"
    "unat (base + (phys - align_down phys XERET_FRAME_SIZE) + of_nat off) = unat (page base i) + l"
    "unat (phys + of_nat off) = unat (page (align_down phys XERET_FRAME_SIZE) i) + l"
    "unat XPT_MMIO_VA \<le> unat (base + (phys - align_down phys XERET_FRAME_SIZE) + of_nat off)"
    "unat (base + (phys - align_down phys XERET_FRAME_SIZE) + of_nat off) < unat XPT_MMIO_VA + 549755813888"
    "unat (phys + of_nat off) < 4503599627370496"
proof -
  define x where "x = unat phys mod 4096 + off"
  define i where "i = x div 4096"
  have st: "unat (align_down phys XERET_FRAME_SIZE) = unat phys div 4096 * 4096" by (rule page_align_down)
  have sm: "unat (align_down phys XERET_FRAME_SIZE) mod 4096 = 0" "unat base mod 4096 = 0" using nx unfolding st by (simp_all add: mmio_ok_def)
  have ip: "i < unat pages"
  proof -
    have "unat phys + off = unat phys div 4096 * 4096 + x" unfolding x_def using div_mult_mod_eq [of "unat phys" 4096] by linarith
    then have "(unat phys + off) div 4096 = unat phys div 4096 + i" unfolding i_def by simp
    moreover have "(unat phys + off) div 4096 < (unat phys + unat n + 4095) div 4096"
    proof -
      have "(unat phys + off) div 4096 + 1 = (unat phys + off + 4096) div 4096" by simp
      also have "\<dots> \<le> (unat phys + unat n + 4095) div 4096" using off by (intro div_le_mono) simp
      finally show ?thesis by simp
    qed
    ultimately show ?thesis unfolding ps by linarith
  qed
  have pbase: "unat (page base i) = unat base + i * 4096" and pstart: "unat (page (align_down phys XERET_FRAME_SIZE) i) = unat phys div 4096 * 4096 + i * 4096"
  proof -
    have "unat (of_nat i * XERET_FRAME_SIZE :: u64) = i * 4096" using ip pg by (simp add: unat_word_ariths unat_of_nat)
    moreover have "unat base + i * 4096 < 18446744073709551616" using ip nb by simp
    moreover have "unat phys div 4096 * 4096 + i * 4096 < 18446744073709551616" using ip pg pb div_times_less_eq_dividend [of "unat phys" 4096] by linarith
    ultimately show "unat (page base i) = unat base + i * 4096" "unat (page (align_down phys XERET_FRAME_SIZE) i) = unat phys div 4096 * 4096 + i * 4096"
      unfolding page_def using st by (subst unat_add_less; simp)+
  qed
  have xl: "x = i * 4096 + x mod 4096" unfolding i_def by simp
  have pa: "unat (phys + of_nat off) = unat phys + off"
    using off pb by (subst unat_add_less) (simp_all add: unat_of_nat)
  have pa': "unat phys + off = unat (page (align_down phys XERET_FRAME_SIZE) i) + x mod 4096"
    using pstart xl div_mult_mod_eq [of "unat phys" 4096] unfolding x_def by linarith
  have dv: "unat (phys - (align_down phys XERET_FRAME_SIZE)) = unat phys mod 4096"
    using st div_times_less_eq_dividend [of "unat phys" 4096] by (subst unat_sub) (simp_all add: word_le_nat_alt minus_div_mult_eq_mod)
  have vb: "unat base + x < unat XPT_MMIO_VA + 549755813888" using ip nb xl mod_less_divisor [of 4096 x] by linarith
  have "unat (base + (phys - (align_down phys XERET_FRAME_SIZE)) + of_nat off) = unat base + x"
  proof -
    have "unat (base + (phys - (align_down phys XERET_FRAME_SIZE))) = unat base + unat phys mod 4096"
      using dv vb x_def by (subst unat_add_less) simp_all
    then show ?thesis using vb x_def off pb by (subst unat_add_less) (simp_all add: unat_of_nat)
  qed
  then have vu: "unat (base + (phys - align_down phys XERET_FRAME_SIZE) + of_nat off) = unat (page base i) + x mod 4096" using pbase xl by simp
  show thesis
  proof (rule that [OF ip _ _ _ vu])
    show "unat (page base i) mod 4096 = 0" unfolding pbase using sm(2) by simp
    show "unat (page (align_down phys XERET_FRAME_SIZE) i) mod 4096 = 0" unfolding pstart by simp
    show "unat (phys + of_nat off) = unat (page (align_down phys XERET_FRAME_SIZE) i) + x mod 4096" using pa pa' by simp
    show "unat XPT_MMIO_VA \<le> unat (base + (phys - align_down phys XERET_FRAME_SIZE) + of_nat off)" unfolding vu pbase using nx by (simp add: mmio_ok_def)
    show "unat (base + (phys - align_down phys XERET_FRAME_SIZE) + of_nat off) < unat XPT_MMIO_VA + 549755813888" unfolding vu pbase using vb xl by simp
    show "unat (phys + of_nat off) < 4503599627370496" unfolding pa using off pb by simp
  qed simp
qed

lemma map_uncached_spec:
  assumes inv: "pt_inv B sp s" and mp: "xpt_map_uncached phys n s = (res, s')"
  shows "pt_inv B sp s'"
    "res = Some va \<Longrightarrow> unat phys + unat n \<le> 4503599627370496 \<Longrightarrow> off < unat n \<Longrightarrow>
      \<exists>ac. mmu (xm_mem s') (pt_pml4_phys s') (va + of_nat off) = Some ac \<and> ac_phys ac = phys + of_nat off \<and>
        ac_write ac \<and> ac_uncached ac \<and> \<not> ac_user ac \<and> \<not> ac_exec ac"
proof -
  obtain R M where ok: "pt_ok sp R M s" and b: "ffree (xm_phys s) \<union> dom R \<union> spans s = B" and nx: "mmio_ok (pt_mmio_next s)"
    using inv by (rule pt_invE)
  let ?base = "pt_mmio_next s" and ?start = "align_down phys XERET_FRAME_SIZE" and ?K = "pt_pml4_phys s"
  have "pt_inv B sp s' \<and> (res = Some va \<longrightarrow> unat phys + unat n \<le> 4503599627370496 \<longrightarrow> off < unat n \<longrightarrow>
      (\<exists>ac. mmu (xm_mem s') (pt_pml4_phys s') (va + of_nat off) = Some ac \<and> ac_phys ac = phys + of_nat off \<and>
        ac_write ac \<and> ac_uncached ac \<and> \<not> ac_user ac \<and> \<not> ac_exec ac))"
    using mp
  proof (cases rule: map_uncached_cases)
    case 1
    then show ?thesis using inv by simp
  next
    case (2 pages r s1)
    obtain f where f: "R f = Some (?K, [384])" "tbl_get ?K XPT_MMIO_PML4 s AND XPT_ADDR_MASK = fa f" using window_table [OF ok] by blast
    have w4: "window4 ?K M" using pt_okD(3) [OF ok] by (simp add: kern_roles_def window4_def)
    obtain R' M' where l: "grown R s R' s1" "trees ?K R' M' s1" "madded ?K M M'" "r = 0 \<or> r = -1"
      "r = 0 \<longrightarrow> (\<forall>i \<in> set [0..<unat pages]. M' (?K, mpath (page ?base i)) = Some (mleaf (page ?start i)))"
      using mmio_loop_spec [OF pt_okD(2) [OF ok] f(1) w4 2(8) [unfolded f(2)]] by blast
    have ok1: "pt_ok sp R' M' s1" by (rule pt_ok_madded [OF ok l(1-3)])
    have mo: "Ledger.more s1 = Ledger.more s" using l(1) xmach_more_fields(4) [of s1 s] by (simp add: grown_def)
    note lf = ledger_more_fields [OF mo]
    have sp1: "spans s1 = spans s" by (rule spans_toks [OF toks_cong [OF grown_acct_toks [OF l(1)]]])
    have acc: "ffree (xm_phys s1) \<union> dom R' \<union> spans s1 = B" using acct_grown [OF l(1)] b sp1 by (simp add: acct_def)
    have pg: "unat (pages * XERET_FRAME_SIZE) = unat pages * 4096" "unat pages \<le> 4096"
      using 2(5) by (simp_all add: word_less_nat_alt unat_word_ariths)
    have nb: "unat (?base + pages * XERET_FRAME_SIZE) = unat ?base + unat pages * 4096"
      "unat ?base + unat pages * 4096 \<le> unat XPT_MMIO_VA + 549755813888"
    proof -
      have "unat ?base + unat pages * 4096 < 18446744073709551616" using nx pg(2) by (simp add: mmio_ok_def)
      then show e: "unat (?base + pages * XERET_FRAME_SIZE) = unat ?base + unat pages * 4096" using pg(1) by (subst unat_add_less) simp_all
      have "unat (?base + pages * XERET_FRAME_SIZE) \<le> unat (XPT_MMIO_VA + PML4_SPAN)" using 2(7) by (simp add: word_less_nat_alt not_less)
      then show "unat ?base + unat pages * 4096 \<le> unat XPT_MMIO_VA + 549755813888" unfolding e by simp
    qed
    show ?thesis
    proof (cases "r = 0")
      case False
      then have "res = None" "s' = s1" using 2(9) by auto
      then show ?thesis using pt_invI [OF ok1 acc] nx lf(4) by simp
    next
      case True
      then have res: "res = Some (?base + (phys - ?start))" and s': "s' = s1\<lparr>pt_mmio_next := ?base + pages * XERET_FRAME_SIZE\<rparr>" using 2(9) by auto
      have ok': "pt_ok sp R' M' s'"
      proof -
        have "toks s' = toks s1" by (rule toks_cong) (simp add: s')
        moreover have "ledger_inv s'" by (rule ledger_inv_fields [OF pt_okD(1) [OF ok1]]) (simp_all add: s')
        ultimately show ?thesis using ok1 unfolding pt_ok_def trees_def by (simp add: s')
      qed
      have nx': "mmio_ok (pt_mmio_next s')" using nx nb unfolding mmio_ok_def by (simp add: s')
      have "spans s' = spans s1" by (rule spans_toks, rule toks_cong) (simp add: s')
      then have "pt_inv B sp s'" using acc by (intro pt_invI [OF ok' _ nx']) (simp add: s')
      moreover have "\<exists>ac. mmu (xm_mem s') (pt_pml4_phys s') (va + of_nat off) = Some ac \<and> ac_phys ac = phys + of_nat off \<and>
        ac_write ac \<and> ac_uncached ac \<and> \<not> ac_user ac \<and> \<not> ac_exec ac"
        if va: "res = Some va" and pb: "unat phys + unat n \<le> 4503599627370496" and off: "off < unat n"
      proof -
        have ps: "unat pages = (unat phys + unat n + 4095) div 4096 - unat phys div 4096" using pages_of_range [OF pb 2(1)] 2(3) by simp
        obtain i l where il: "i < unat pages" "l < 4096" "unat (page ?base i) mod 4096 = 0" "unat (page ?start i) mod 4096 = 0"
          "unat (?base + (phys - ?start) + of_nat off) = unat (page ?base i) + l" "unat (phys + of_nat off) = unat (page ?start i) + l"
          "unat XPT_MMIO_VA \<le> unat (?base + (phys - ?start) + of_nat off)" "unat (?base + (phys - ?start) + of_nat off) < unat XPT_MMIO_VA + 549755813888"
          "unat (phys + of_nat off) < 4503599627370496"
          using nx pb off ps pg(2) nb(2) by (rule device_byte)
        show ?thesis
          using window_access [OF ok' _ il(3,5,2,7,8,4,6,9)] l(5) True il(1) va res lf(1) by (simp add: s')
      qed
      ultimately show ?thesis by blast
    qed
  qed
  then show "pt_inv B sp s'"
    "res = Some va \<Longrightarrow> unat phys + unat n \<le> 4503599627370496 \<Longrightarrow> off < unat n \<Longrightarrow>
      \<exists>ac. mmu (xm_mem s') (pt_pml4_phys s') (va + of_nat off) = Some ac \<and> ac_phys ac = phys + of_nat off \<and>
        ac_write ac \<and> ac_uncached ac \<and> \<not> ac_user ac \<and> \<not> ac_exec ac" by blast+
qed

end
