(* ===== verification/Paging_Live.thy ===== *)
theory Paging_Live
  imports Paging_Mmio
begin

text \<open>
  When the paging operations succeed. The only resource they can run out of is frames for tables, and
  the number of tables an operation adds is bounded: the kernel map of boot has at most one root, one
  table per root entry and one per entry of those, and mapping a page adds at most three. With that
  many free frames boot succeeds, and so does \<open>xas_map\<close> on a legal request. A sample machine is booted
  and runs one program, for use in the witnesses.
\<close>

section \<open>Boot\<close>

lemma role_indices:
  assumes t: "tree K R M m tot"
  shows "R f = Some (P, p) \<Longrightarrow> set p \<subseteq> {..<512}"
proof (induction p arbitrary: f rule: rev_induct)
  case (snoc i p)
  obtain g where "R g = Some (P, p)" "adm K P p i" using treeD(5) [OF t snoc.prems] by blast
  then show ?case using snoc.IH by (auto simp: adm_def)
qed simp

lemma kmap_card:
  assumes k: "kmap K R M s"
  shows "card (dom R) \<le> 262657"
proof -
  have t: "tree K R M (xm_mem s) (unat (pb_total (xm_phys s)))" using k by (simp add: kmap_def trees_def)
  let ?L = "{p. set p \<subseteq> {..<512 :: nat} \<and> length p \<le> 2}"
  have r: "\<exists>p. R f = Some (K, p) \<and> p \<in> ?L" if "f \<in> dom R" for f
    using that k role_indices [OF t, of f] unfolding kmap_def by auto
  have "inj_on (\<lambda>f. snd (the (R f))) (dom R)"
  proof (rule inj_onI)
    fix f g assume fg: "f \<in> dom R" "g \<in> dom R" "snd (the (R f)) = snd (the (R g))"
    obtain p q where "R f = Some (K, p)" "R g = Some (K, q)" using r fg by blast
    then show "f = g" using fg(3) role_unique [OF t] by simp
  qed
  moreover have "(\<lambda>f. snd (the (R f))) ` dom R \<subseteq> ?L"
  proof
    fix x assume "x \<in> (\<lambda>f. snd (the (R f))) ` dom R"
    then obtain f where f: "f \<in> dom R" "x = snd (the (R f))" by blast
    then show "x \<in> ?L" using r [OF f(1)] by auto
  qed
  moreover have "finite ?L" by (rule finite_lists_length_le) simp
  ultimately have "card (dom R) \<le> card ?L" by (rule card_inj_on_le)
  also have "\<dots> = (\<Sum>i\<le>2. 512 ^ i)" using card_lists_length_le [of "{..<512 :: nat}" 2] by simp
  also have "\<dots> = 262657" by (simp add: numeral_2_eq_2)
  finally show ?thesis .
qed

text \<open>The state in which a step of boot has run out of frames: all frames went into tables.\<close>

lemma exhausted:
  assumes "grown R s R' s'" "kmap K R' M s'" "ffree (xm_phys s') = {}"
  shows "card (ffree (xm_phys s)) \<le> 262657"
proof -
  have "tree K R' M (xm_mem s') (unat (pb_total (xm_phys s')))" using assms(2) by (simp add: kmap_def trees_def)
  then have "finite (dom R')" by (rule finite_roles)
  moreover have "ffree (xm_phys s) \<subseteq> dom R'" using assms(1,3) by (auto simp: grown_def)
  ultimately show ?thesis using kmap_card [OF assms(2)] by (meson card_mono order_trans)
qed

lemma boot_chain:
  assumes "kmap K R M s" "262657 < card (ffree (xm_phys s0))" "grown R0 s0 R s" "c \<longrightarrow> unat stop \<le> 549755813888" "bit flags 0"
  shows "\<exists>s' R' M'. (if c then map_huge K start stop flags s else (0, s)) = (0, s') \<and> kmap K R' M' s' \<and> grown R0 s0 R' s'"
proof -
  obtain r s' where m: "(if c then map_huge K start stop flags s else (0, s)) = (r, s')" by fastforce
  obtain R' where R': "grown R s R' s'" "if r = 0 then kmap K R' (hset K flags (if c then hull start stop else {}) ++ M) s'
      else r = -1 \<and> ffree (xm_phys s') = {} \<and> (\<exists>M'. kmap K R' M' s')" using map_huge_opt [OF assms(1,4,5) m] by blast
  have g: "grown R0 s0 R' s'" by (rule grown_trans [OF assms(3) R'(1)])
  have "r = 0"
  proof (rule ccontr)
    assume "r \<noteq> 0"
    then show False using R'(2) exhausted [OF g] assms(2) by auto
  qed
  then show ?thesis using m g R'(2) by auto
qed

lemma boot_succeeds:
  assumes rdy: "phys_ready (xm_phys s)" and free: "262658 < card (ffree (xm_phys s))"
    and prot: "fst (enable_protections cpuid s) = 0"
    and g: "pe \<noteq> 0" "\<not> align_up pe XERET_HUGE_SIZE > PML4_SPAN" "\<not> (es \<noteq> 0 \<and> (eb + es > PML4_SPAN \<or> eb + es < eb))"
  shows "\<exists>s'. xpt_init_identity cpuid pe eb es s = (0, s')"
proof -
  let ?uc = "XPT_KERNEL_RW OR XPT_GLOBAL OR XPT_UC" and ?g = "XPT_KERNEL_RW OR XPT_GLOBAL"
  define low where "low = (if pe < XPT_MMIO_BASE then pe else XPT_MMIO_BASE)"
  have "unat low \<le> 0xC0000000" by (simp add: low_def word_less_nat_alt)
  then have low: "unat (align_up low XERET_HUGE_SIZE) \<le> 549755813888" using align_up_bound [of low] by simp
  have lim: "unat FOUR_GIB \<le> 549755813888" "es \<noteq> 0 \<longrightarrow> unat (eb + es) \<le> 549755813888" "unat (align_up pe XERET_HUGE_SIZE) \<le> 549755813888"
    using g(2,3) by (auto simp: word_less_nat_alt)
  have fl: "bit ?uc 0" "bit ?g 0" by simp_all
  obtain s0 where e0: "enable_protections cpuid s = (0, s0)" using prot by (metis prod.collapse)
  obtain cp pr where s0: "s0 = s\<lparr>pt_cpu := cp, pt_prot := pr\<rparr>" using enable_protections_frame [OF e0] by blast
  have rdy0: "phys_ready (xm_phys s0)" "262658 < card (ffree (xm_phys s0))" using rdy free by (simp_all add: s0)
  obtain K s1 where e1: "alloc_zero_table s0 = (K, s1)" by fastforce
  have K: "K \<noteq> 0" using alloc_zero_table_spec(1) [OF rdy0(1) e1] rdy0(2) by auto
  obtain k where k: "kmap K [k \<mapsto> (K, [])] Map.empty s1" "K = fa k" "ffree (xm_phys s1) = ffree (xm_phys s0) - {k}"
    using new_root_kmap [OF rdy0(1) e1 K] by blast
  have c1: "262657 < card (ffree (xm_phys s1))" using rdy0(2) k(3) diff_card_le_card_Diff [of "{k}" "ffree (xm_phys s0)"] by simp
  let ?R = "[k \<mapsto> (K, [])]"
  obtain s2 R2 M2 where 2: "map_huge K XPT_MMIO_BASE FOUR_GIB ?uc s1 = (0, s2)" "kmap K R2 M2 s2" "grown ?R s1 R2 s2"
    using boot_chain [OF k(1) c1 grown_refl, of True FOUR_GIB ?uc XPT_MMIO_BASE] lim(1) fl(1) by (auto simp only: if_True)
  obtain s3 R3 M3 where 3: "(if es \<noteq> 0 then map_huge K eb (eb + es) ?uc s2 else (0, s2)) = (0, s3)" "kmap K R3 M3 s3" "grown ?R s1 R3 s3"
    using boot_chain [OF 2(2) c1 2(3) lim(2) fl(1), of eb] by blast
  obtain s4 R4 M4 where 4: "map_huge K 0 (align_up low XERET_HUGE_SIZE) ?g s3 = (0, s4)" "kmap K R4 M4 s4" "grown ?R s1 R4 s4"
    using boot_chain [OF 3(2) c1 3(3), of True "align_up low XERET_HUGE_SIZE" ?g 0] low fl(2) by (auto simp only: if_True)
  obtain s5 R5 M5 where 5: "(if pe > FOUR_GIB then map_huge K FOUR_GIB (align_up pe XERET_HUGE_SIZE) ?g s4 else (0, s4)) = (0, s5)"
      "kmap K R5 M5 s5" "grown ?R s1 R5 s5"
    using boot_chain [OF 4(2) c1 4(3) _ fl(2), of "pe > FOUR_GIB" "align_up pe XERET_HUGE_SIZE" FOUR_GIB] lim(3) by blast
  obtain t s6 where 6: "next_level K XPT_MMIO_PML4 XPT_KERNEL_RW s5 = (t, s6)" by fastforce
  then have n6: "next_level (fa k) (of_nat 384) (fl K K) s5 = (t, s6)" using k(2) by (simp add: fl_def)
  have kg: "R5 k = Some (K, [])" using grown_role [OF 5(3), of k "(K, [])"] by simp
  have t5: "trees K R5 M5 s5" "\<forall>h Q. R5 h = Some (Q, []) \<longrightarrow> Q = K" using 5(2) by (auto simp: kmap_def)
  have "t \<noteq> 0"
  proof
    assume "t = 0"
    then have "ffree (xm_phys s5) = {}"
      using next_level_spec(1) [OF t5(1) kg _ _ _ _ n6] t5(2) by (auto simp: adm_def is_leaf_def)
    then show False using exhausted [OF 5(3,2)] c1 by simp
  qed
  then show ?thesis
    unfolding xpt_init_identity_def if_not_P [OF g(1)] if_not_P [OF g(2)] if_not_P [OF g(3)] Let_def low_def [symmetric]
      e0 prod.case e1 2(1) 3(1) 4(1) 5(1) 6 using K by simp
qed

section \<open>Mapping\<close>

lemma xas_map_live:
  assumes ok: "pt_ok sp R M s" and a: "as_live a" "sp (as_pml4_phys a) = Some (as_owner_id a)" and lp: "legal_perms perms"
    and va: "unat virt mod 4096 = 0" "unat XAS_USER_BASE \<le> unat virt" "0 < unat (te_frames e)"
      "unat virt + unat (te_frames e) * 4096 \<le> unat XAS_USER_TOP"
    and tok: "toks s tok = Some e" "te_owner e = as_owner_id a" "te_rights e AND need_rights perms = need_rights perms" "te_map_count e \<noteq> 0xFFFF"
    and rcd: "owner_maps (as_owner_id a) s < XAS_MAX_MAPS_PER_OWNER" "k < 1024" "\<not> mr_live (pt_maps s ! k)"
    and free: "\<And>i. i < unat (te_frames e) \<Longrightarrow> M (as_pml4_phys a, path4 (page virt i)) = None"
    and room: "3 * unat (te_frames e) < card (ffree (xm_phys s))"
  shows "fst (xas_map (Some a) virt tok perms s) = XAS_OK"
proof -
  note d = pt_okD [OF ok]
  let ?P = "as_pml4_phys a" and ?K = "pt_pml4_phys s" and ?n = "unat (te_frames e)"
  have v: "virt AND (XERET_FRAME_SIZE - 1) = 0" by (rule iffD1 [OF page_mask va(1)])
  have vr: "\<not> (virt < XAS_USER_BASE \<or> virt \<ge> XAS_USER_TOP)" 
  proof -
    have "unat virt < unat XAS_USER_TOP" using va(3,4) by linarith
    then show ?thesis using va(2) unfolding word_less_nat_alt word_le_nat_alt by linarith
  qed
  have c: "(Some a = None \<or> \<not> as_live a) = False"
      "(perms = 0 \<or> perms AND NOT (XPERM_R OR XPERM_W OR XPERM_X) \<noteq> 0) = False"
      "(perms AND XPERM_W \<noteq> 0 \<and> perms AND XPERM_X \<noteq> 0) = False" "(virt AND (XERET_FRAME_SIZE - 1) \<noteq> 0) = False"
      "(virt < XAS_USER_BASE \<or> virt \<ge> XAS_USER_TOP) = False" "(owner_maps (as_owner_id a) s \<ge> XAS_MAX_MAPS_PER_OWNER) = False"
    using a(1) lp v vr rcd(1) by (auto simp: legal_perms_def)
  obtain r0 out s1 where ac: "xtok_map_acquire tok (as_owner_id a) (need_rights perms) s = (r0, out, s1)" by (metis prod_cases3)
  note aq = xtok_map_acquire_spec [OF d(1) ac]
  have r0: "r0 = 0" using aq(1) tok by (simp add: map_code_def)
  have out: "out = Some (te_phys e, te_frames e)" and rec: "recounted tok (te_map_count e + 1) s s1" using aq(3) [OF r0] tok(1) by auto
  note rf = recounted_fields [OF rec] and ps = pin_state [OF ok rec]
  have "?n \<le> (unat XAS_USER_TOP - unat virt) div 4096" using va(4) by (simp add: less_eq_div_iff_mult_less_eq)
  moreover have "unat ((XAS_USER_TOP - virt) div XERET_FRAME_SIZE) = (unat XAS_USER_TOP - unat virt) div 4096"
    using va by (simp add: unat_div unat_sub word_le_nat_alt)
  ultimately have fr: "(te_frames e = 0 \<or> te_frames e > (XAS_USER_TOP - virt) div XERET_FRAME_SIZE) = False"
    using va(3) unfolding word_less_nat_alt by (simp add: unat_gt_0)
  have rng: "user_range virt ?n" by (rule user_rangeI [OF v vr]) (use fr in blast)
  have "k \<in> set [0..<1024]" using rcd(2) by (simp only: set_upt atLeastLessThan_iff) simp
  then have "free_record s1 \<noteq> None" unfolding free_record_def find_None_iff rf(5) using rcd(3) by blast
  then obtain k' where k': "free_record s1 = Some k'" by blast
  obtain f where f: "R f = Some (?P, [])" "?P \<noteq> ?K" using a(2) d(5) [of ?P] by auto
  let ?pl = "pleaves ?P virt (te_phys e) (leaf_flags perms)"
  obtain res s2 where lo: "map_loop ?P virt (te_phys e) (leaf_flags perms) [0..<?n] s1 = (res, s2)" by fastforce
  have t0: "trees ?K R (M ++ ?pl 0) s1" using ps(1) by simp
  obtain R' n where n: "grown R s1 R' s2" "fresh_tables R R' \<le> 3 * (?n - 0)" "trees ?K R' (M ++ ?pl n) s2"
    "case res of None \<Rightarrow> n = ?n
     | Some (r, i) \<Rightarrow> i = n \<and> n < ?n \<and> (r = XAS_ERR_BUSY \<and> M (?P, path4 (page virt n)) \<noteq> None \<or> r = XAS_ERR_NOMEM \<and> ffree (xm_phys s2) = {})"
    using map_loop_spec [OF t0 f rng leaf_flags_present _ _ lo] by auto
  have "res = None"
  proof (rule ccontr)
    assume "res \<noteq> None"
    then have "ffree (xm_phys s2) = {}" using n(4) free by (cases res) auto
    then have "ffree (xm_phys s) \<subseteq> dom R' - dom R" using n(1) rf by (auto simp: grown_def)
    moreover have "finite (dom R')" using n(3) finite_roles by (auto simp: trees_def)
    ultimately have "card (ffree (xm_phys s)) \<le> fresh_tables R R'" unfolding fresh_tables_def by (intro card_mono) auto
    then show False using n(2) room by simp
  qed
  then show ?thesis unfolding xas_map_def option.sel c(1-5) if_False Let_def c(6) ac prod.case out option.case fr k' lo by simp
qed

end
