(* ===== verification/Paging_Frame.thy ===== *)
theory Paging_Frame
  imports Paging_Mmio Paging_Mmu
begin

text \<open>
  What the operations on address spaces leave alone: the part of the machine the memory invariants
  read, the page table base register, and the tables under a store that a user program or the kernel
  makes to a frame of a token.
\<close>

section \<open>The part the invariants read\<close>

text \<open>What the memory invariants read of a machine.\<close>

definition core :: "'a Paging_scheme \<Rightarrow> PhysBitmap \<times> mem \<times> XTokenEntry list \<times> u32 \<times> u64 \<times> MapRec list \<times> u64" where
  "core s = (xm_phys s, xm_mem s, lg_table s, lg_live s, pt_pml4_phys s, pt_maps s, pt_mmio_next s)"

lemma pt_ok_core:
  assumes "core s' = core s"
  shows "pt_ok sp R M s' = pt_ok sp R M s"
proof -
  have f: "xm_phys s' = xm_phys s" "xm_mem s' = xm_mem s" "lg_table s' = lg_table s" "lg_live s' = lg_live s"
    "pt_pml4_phys s' = pt_pml4_phys s" "pt_maps s' = pt_maps s" using assms by (simp_all add: core_def)
  have "toks s' = toks s" by (rule toks_cong [OF f(3)])
  then show ?thesis by (simp add: pt_ok_def ledger_inv_def trees_def f)
qed

lemma pt_inv_core:
  assumes "core s' = core s"
  shows "pt_inv B sp s' = pt_inv B sp s" "toks s' = toks s"
proof -
  have f: "xm_phys s' = xm_phys s" "lg_table s' = lg_table s" "pt_mmio_next s' = pt_mmio_next s" using assms by (simp_all add: core_def)
  show tk: "toks s' = toks s" by (rule toks_cong [OF f(2)])
  show "pt_inv B sp s' = pt_inv B sp s" by (simp add: pt_inv_def pt_ok_core [OF assms] f spans_toks [OF tk])
qed

section \<open>The page table base\<close>

text \<open>Only \<open>write_cr3\<close> changes the base; it and what extends the record are the same after every other
  operation on tables.\<close>

definition outer :: "'a Paging_scheme \<Rightarrow> u64 \<times> 'a" where
  "outer s = (xpt_read_cr3 s, Paging.more s)"

lemma outer_ledger: "Ledger.more s' = Ledger.more s \<Longrightarrow> outer s' = outer s"
  using ledger_more_fields(5,6) [of s' s] by (simp add: outer_def xpt_read_cr3_def)

lemma outer_xmach: "Xmach.more s' = Xmach.more s \<Longrightarrow> outer s' = outer s"
  by (rule outer_ledger) (rule xmach_more_fields(4))

lemma next_level_more: "Xmach.more (snd (next_level t i w s)) = Xmach.more s"
  by (simp add: next_level_def alloc_zero_table_def tbl_set_def Let_def split: prod.splits)

lemma map_page_more: "Xmach.more (snd (map_page p va pa w s)) = Xmach.more s"
proof -
  obtain a s1 where 1: "next_level p (drop_bit 39 va AND 0x1FF) XPT_UPPER s = (a, s1)" by fastforce
  obtain b s2 where 2: "next_level a (drop_bit 30 va AND 0x1FF) XPT_UPPER s1 = (b, s2)" by fastforce
  obtain c s3 where 3: "next_level b (drop_bit 21 va AND 0x1FF) XPT_UPPER s2 = (c, s3)" by fastforce
  have "Xmach.more s1 = Xmach.more s" "Xmach.more s2 = Xmach.more s1" "Xmach.more s3 = Xmach.more s2"
    using next_level_more [of p _ _ s] next_level_more [of a _ _ s1] next_level_more [of b _ _ s2] 1 2 3 by (metis snd_conv)+
  then show ?thesis by (simp add: map_page_def 1 [simplified] 2 [simplified] 3 [simplified] Let_def tbl_set_def)
qed

lemma map_loop_more: "Xmach.more (snd (map_loop p virt phys w js s)) = Xmach.more s"
proof (induction js arbitrary: s)
  case (Cons i js)
  obtain r s1 where e: "map_page p (virt + of_nat i * XERET_FRAME_SIZE) (phys + of_nat i * XERET_FRAME_SIZE) w s = (r, s1)" by fastforce
  then have "Xmach.more s1 = Xmach.more s" using map_page_more [of p "virt + of_nat i * XERET_FRAME_SIZE" "phys + of_nat i * XERET_FRAME_SIZE" w s] by simp
  then show ?case using Cons.IH [of s1] by (simp add: e)
qed simp

lemma xtok_map_outer: "outer (xtok_map_release t s) = outer s" "outer (snd (snd (xtok_map_acquire t c n s))) = outer s"
  by (rule outer_ledger, simp add: xtok_map_release_def xtok_map_acquire_def set_map_count_def Let_def split: option.split)+

lemma unmap_page_outer: "outer (unmap_page p va s) = outer s"
  by (simp add: unmap_page_def outer_def xpt_read_cr3_def invlpg_def cpu_update_def Let_def)

lemma unmap_pages_outer: "outer (unmap_pages p va n s) = outer s"
  unfolding unmap_pages_def by (induction n) (simp_all add: unmap_page_outer)

lemma drop_record_outer: "outer (drop_record k s) = outer s"
proof -
  have "outer (s\<lparr>pt_maps := m\<rparr>) = outer s" for s :: "'a Paging_scheme" and m by (simp add: outer_def xpt_read_cr3_def)
  then show ?thesis by (simp add: drop_record_def Let_def xtok_map_outer unmap_pages_outer)
qed

lemma xas_unmap_outer: "xas_unmap asp virt s = (rc, s') \<Longrightarrow> outer s' = outer s"
  by (auto simp: xas_unmap_def drop_record_outer simp del: upt_rec_numeral split: if_splits option.splits)

lemma xas_map_outer:
  assumes "xas_map asp virt tok perms s = (rc, s')"
  shows "outer s' = outer s"
proof -
  have o: "outer (s\<lparr>pt_maps := m\<rparr>) = outer s" for s :: "'a Paging_scheme" and m by (simp add: outer_def xpt_read_cr3_def)
  have l: "outer s2 = outer s1" if "map_loop p va pa w js s1 = (r, s2)" for p va pa w js r and s1 s2 :: "'a Paging_scheme"
    using map_loop_more [of p va pa w js s1] that by (intro outer_xmach) simp
  have q: "outer s1 = outer s" if "xtok_map_acquire t c n s = (r, v, s1)" for t c n r v and s1 :: "'a Paging_scheme"
    using xtok_map_outer(2) [of t c n s] that by simp
  show ?thesis using assms unfolding xas_map_def Let_def
    by (auto simp del: upt_rec_numeral simp: xtok_map_outer unmap_pages_outer o split: if_split_asm prod.splits option.splits) (metis l q)+
qed

section \<open>Stores to the frames of a token\<close>

lemma pt_ok_store:
  assumes ok: "pt_ok sp R M s" and e: "toks s t = Some e" "unat x div 4096 \<in> te_span e"
  shows "pt_ok sp R M (s\<lparr>xm_mem := (xm_mem s)(x := b)\<rparr>)"
proof -
  let ?s = "s\<lparr>xm_mem := (xm_mem s)(x := b)\<rparr>"
  note d = pt_okD [OF ok]
  have lt: "lg_table ?s = lg_table s" by simp
  have tk: "toks ?s = toks s" by (rule toks_cong [OF lt])
  have "unat x div 4096 \<notin> dom R" using d(4) [OF e(1)] e(2) by blast
  then show "pt_ok sp R M ?s"
    by (intro pt_ok_tokens [OF ok]) (use d(1,2,4,7) tk in \<open>auto simp: ledger_inv_def phys_same_def trees_def\<close>)
qed

lemma pt_inv_store:
  assumes inv: "pt_inv B sp s" and e: "toks s t = Some e" "unat x div 4096 \<in> te_span e"
  shows "pt_inv B sp (s\<lparr>xm_mem := (xm_mem s)(x := b)\<rparr>)" "toks (s\<lparr>xm_mem := (xm_mem s)(x := b)\<rparr>) = toks s"
proof -
  let ?s = "s\<lparr>xm_mem := (xm_mem s)(x := b)\<rparr>"
  have lt: "lg_table ?s = lg_table s" by simp
  show tk: "toks ?s = toks s" by (rule toks_cong [OF lt])
  show "pt_inv B sp ?s" by (rule pt_inv_same [OF inv pt_ok_store [OF _ e]]) (simp_all add: spans_toks [OF tk])
qed

end
