(* ===== verification/Boot.thy ===== *)
theory Boot
  imports Proc Paging_Live Paging_Frame
begin

text \<open>
  The kernel's entry point (\<open>kernel/xeret/main.c\<close>). \<open>kernel_main\<close> composes the components in the order of
  the source: physical memory from the boot loader's hand-over, the token ledger, the kernel's page
  tables, the descriptor tables and gates, the timer. Every failed step halts with the message the
  source prints on the serial line. Console output and the command loop that follows are not part of
  it. The lemmas show that a successful start establishes the invariants of the ledger and of the
  address spaces, and a machine of 16 GiB is started as an example.
\<close>

definition fb_hex :: "u64 \<Rightarrow> string" where
  "fb_hex v = ''0x'' @ map (\<lambda>i. ''0123456789ABCDEF'' ! unat (drop_bit (60 - 4 * i) v AND 0xF)) [0..<16]"

definition kernel_main ::
  "cpuid \<Rightarrow> Layout \<Rightarrow> LapicHw \<Rightarrow> XeretHandoff \<Rightarrow> 'a Proc_scheme \<Rightarrow> string + 'a Proc_scheme" where
  "kernel_main cpuid ly hw hand s =
     (if h_magic hand \<noteq> XERET_HANDOFF_MAGIC then Inl ''EXBADBOOT: handoff magic mismatch''
      else (let (r, p) = phys_init_from_handoff (Some hand) (xm_phys s) in
        if r \<noteq> 0 then Inl ''EXBADBOOT: phys_init_from_handoff failed''
        else (let s = xtok_init (s\<lparr>xm_phys := p\<rparr>);
                  fb_bytes = ucast (h_fb_pixels_per_scanline hand) * 4 * ucast (h_fb_height hand);
                  (r, s) = xpt_init_identity cpuid (h_phys_end hand) (h_fb_base hand) fb_bytes s in
          if r \<noteq> 0 then Inl ''EXBADBOOT: xpt_init_identity failed''
          else (let s = xproc_init ly s;
                    (r, s) = lapic_timer_init hw s
                in Inr s))))"

section \<open>What a start establishes\<close>

text \<open>The part of the machine that the kernel's C start-up code expects: zeroed static data.\<close>

definition cold :: "'a Proc_scheme \<Rightarrow> bool" where
  "cold s \<longleftrightarrow> length (pb_bits (xm_phys s)) = XERET_BITMAP_BYTES \<and> length (lg_table s) = 4096 \<and>
     length (pt_maps s) = 1024 \<and> (\<forall>r \<in> set (pt_maps s). \<not> mr_live r)"

lemma kernel_main_stages:
  assumes "kernel_main cpuid ly hw hand s = Inr s'"
  obtains p s1 fb where "phys_init_from_handoff (Some hand) (xm_phys s) = (0, p)"
    "fb = ucast (h_fb_pixels_per_scanline hand) * 4 * ucast (h_fb_height hand)"
    "xpt_init_identity cpuid (h_phys_end hand) (h_fb_base hand) fb (xtok_init (s\<lparr>xm_phys := p\<rparr>)) = (0, s1)"
    "s' = snd (lapic_timer_init hw (xproc_init ly s1))"
proof -
  let ?fb = "ucast (h_fb_pixels_per_scanline hand) * 4 * ucast (h_fb_height hand)"
  obtain r p where e1: "phys_init_from_handoff (Some hand) (xm_phys s) = (r, p)" by fastforce
  obtain r1 s1 where e2: "xpt_init_identity cpuid (h_phys_end hand) (h_fb_base hand) ?fb (xtok_init (s\<lparr>xm_phys := p\<rparr>)) = (r1, s1)" by fastforce
  have m: "h_magic hand = XERET_HANDOFF_MAGIC" using assms by (rule contrapos_pp) (simp add: kernel_main_def)
  have "r = 0" using assms by (rule contrapos_pp) (simp add: kernel_main_def e1 m)
  moreover have "r1 = 0" using assms by (rule contrapos_pp) (simp add: kernel_main_def e1 e2 m Let_def)
  moreover have "s' = snd (lapic_timer_init hw (xproc_init ly s1))"
    using assms by (simp add: kernel_main_def e1 e2 m Let_def calculation split: prod.splits)
  ultimately show ?thesis using that e1 e2 by blast
qed

lemma tables_core:
  "core (gdt_init ly s) = core s" "core (idt_init ly s) = core s" "core (idt_install_user_gates ly s) = core s"
  "core (idt_install_irq_gates ly s) = core s" "core (s\<lparr>pr_hooks := h\<rparr>) = core s"
  unfolding core_def gdt_init_def idt_init_def idt_install_user_gates_def idt_install_irq_gates_def Let_def
  by (simp_all del: upt_rec_numeral)

lemma xproc_init_core: "core (xproc_init ly s) = core s"
  by (simp only: xproc_init_def tables_core)

text \<open>The timer's own operations change only its registers and the model specific registers.\<close>

definition calm :: "'a Lapic_scheme \<Rightarrow> (PhysBitmap \<times> mem \<times> XTokenEntry list \<times> u32 \<times> u64 \<times> MapRec list \<times> u64) \<times> 'a" where
  "calm s = (core s, Lapic.Lapic.more s)"

lemma lapic_calm:
  "calm (outb p v s) = calm s" "calm (lwrite r w s) = calm s" "calm (timer_counts c s) = calm s" "calm (pic_mask_all s) = calm s"
  by (simp_all add: calm_def core_def outb_def lwrite_def timer_counts_def pic_mask_all_def wrmsr_def cpu_update_def)

lemma calibrate_calm: "calibrate hw s = (r, s') \<Longrightarrow> calm s' = calm s"
  unfolding calibrate_def Let_def by (auto simp only: lapic_calm prod.inject split: if_splits)

lemma lapic_timer_calm: "calm (snd (lapic_timer_init hw s)) = calm s"
proof -
  have x: "calm (s\<lparr>lp_x2 := b\<rparr>) = calm s" "calm (s\<lparr>lp_mmio := w\<rparr>) = calm s" "calm (s\<lparr>lp_ticks_per_ms := t, lp_ready := r\<rparr>) = calm s"
    "calm (wrmsr m v s) = calm s" for s :: "'b Lapic_scheme" and b w t r m v
    by (simp_all add: calm_def core_def wrmsr_def cpu_update_def)
  define base where "base = rdmsr IA32_APIC_BASE s"
  define b1 where "b1 = (if base AND APIC_BASE_EN = 0 then base OR APIC_BASE_EN else base)"
  define s1 where "s1 = (if base AND APIC_BASE_EN = 0 then wrmsr IA32_APIC_BASE (base OR APIC_BASE_EN) s else s)\<lparr>lp_x2 := b1 AND APIC_BASE_X2 \<noteq> 0\<rparr>"
  define s2 where "s2 = lwrite REG_SVR (0x100 OR LAPIC_SPURIOUS_VEC) (pic_mask_all (if lp_x2 s1 then s1 else s1\<lparr>lp_mmio := b1 AND 0xFFFFF000\<rparr>))"
  have c1: "calm s1 = calm s" by (simp add: s1_def x)
  have c2: "calm s2 = calm s" using c1 by (simp add: s2_def lapic_calm x)
  obtain r s3 where e: "calibrate hw s2 = (r, s3)" by fastforce
  have c3: "calm s3 = calm s" using calibrate_calm [OF e] c2 by simp
  have "lapic_timer_init hw s = (if hw_cpuid1_edx hw AND 0x200 = 0 then (-1, s)
      else if \<not> lp_x2 s1 \<and> (b1 AND 0xFFFFF000 < 0xFEC00000 \<or> b1 AND 0xFFFFF000 \<ge> 0x100000000) then (-1, s1)
      else case r of None \<Rightarrow> (-1, s3) | Some ticks \<Rightarrow> (0, s3\<lparr>lp_ticks_per_ms := ticks, lp_ready := True\<rparr>))"
  proof (cases "base AND APIC_BASE_EN = 0")
    case True
    have b: "base OR APIC_BASE_EN = b1" by (simp only: b1_def True if_P)
    have s: "wrmsr IA32_APIC_BASE b1 s\<lparr>lp_x2 := b1 AND APIC_BASE_X2 \<noteq> 0\<rparr> = s1" by (simp only: s1_def b True if_P)
    show ?thesis unfolding lapic_timer_init_def base_def [symmetric] Let_def
      by (simp only: True if_P prod.case b s s2_def [symmetric] e; cases r; simp)
  next
    case False
    have b: "base = b1" by (simp only: b1_def False if_False)
    have s: "s\<lparr>lp_x2 := b1 AND APIC_BASE_X2 \<noteq> 0\<rparr> = s1" by (simp only: s1_def False if_False)
    show ?thesis unfolding lapic_timer_init_def base_def [symmetric] Let_def
      by (simp only: False if_False prod.case) (simp only: b s s2_def [symmetric] e; cases r; simp)
  qed
  then show ?thesis using c1 c3 by (simp add: x split: option.split)
qed

lemma calm_core: "calm s' = calm s \<Longrightarrow> core s' = core s"
  by (simp add: calm_def)

lemmas lapic_core = lapic_calm [THEN calm_core] and lapic_timer_core = lapic_timer_calm [THEN calm_core]

lemma calm_hooks: "calm s' = calm s \<Longrightarrow> pr_hooks s' = pr_hooks s"
  by (cases s; cases s') (simp add: calm_def)

lemma kernel_main_spec:
  assumes cold: "cold s" and run: "kernel_main cpuid ly hw hand s = Inr s'"
  shows "\<exists>p s1 fb R M. phys_init_from_handoff (Some hand) (xm_phys s) = (0, p) \<and> phys_ready p \<and>
    fb = ucast (h_fb_pixels_per_scanline hand) * 4 * ucast (h_fb_height hand) \<and>
    booted (h_phys_end hand) (h_fb_base hand) fb (xtok_init (s\<lparr>xm_phys := p\<rparr>)) R M s1 \<and>
    s' = snd (lapic_timer_init hw (xproc_init ly s1)) \<and> core s' = core s1 \<and>
    pt_inv (ffree p) Map.empty s' \<and> toks s' = Map.empty \<and> pr_hooks s'"
proof -
  obtain p s1 fb where p: "phys_init_from_handoff (Some hand) (xm_phys s) = (0, p)"
    and fb: "fb = ucast (h_fb_pixels_per_scanline hand) * 4 * ucast (h_fb_height hand)"
    and e: "xpt_init_identity cpuid (h_phys_end hand) (h_fb_base hand) fb (xtok_init (s\<lparr>xm_phys := p\<rparr>)) = (0, s1)"
    and s': "s' = snd (lapic_timer_init hw (xproc_init ly s1))" using run by (rule kernel_main_stages)
  let ?t = "xtok_init (s\<lparr>xm_phys := p\<rparr>)"
  have rdy: "phys_ready p" using phys_init_spec(1) [OF _ p] cold by (simp add: cold_def)
  have ti: "ledger_inv ?t" "toks ?t = Map.empty" "xm_phys ?t = p" "Ledger.more ?t = Ledger.more s"
    using xtok_init_spec [of "s\<lparr>xm_phys := p\<rparr>"] rdy cold by (simp_all add: cold_def)
  have mp: "pt_maps ?t = pt_maps s" using ledger_more_fields [OF ti(4)] by simp
  obtain R M where b: "booted (h_phys_end hand) (h_fb_base hand) fb ?t R M s1"
    using xpt_init_spec [OF ledger_invD(1) [OF ti(1)] e] by blast
  have dead: "\<not> mr_live (pt_maps ?t ! k)" if "k < 1024" for k using that cold unfolding mp by (simp add: cold_def)
  have "pt_inv (ffree (xm_phys ?t) \<union> spans ?t) Map.empty s1"
    by (rule boot_pt_inv [OF ti(1) _ _ dead e]) (use ti(2) mp cold in \<open>simp_all add: cold_def\<close>)
  then have inv: "pt_inv (ffree p) Map.empty s1" by (simp add: ti(2,3) spans_def)
  have c: "core s' = core s1" by (simp only: s' lapic_timer_core xproc_init_core)
  have hk: "pr_hooks s'" unfolding s' calm_hooks [OF lapic_timer_calm] by (simp add: xproc_init_def)
  have "lg_table s1 = lg_table ?t" using b by (simp add: booted_def)
  then have tk: "toks s1 = Map.empty" using toks_cong ti(2) by metis
  show ?thesis using p rdy fb b s' c pt_inv_core [OF c] inv tk hk by metis
qed

section \<open>An example machine\<close>

definition big_box :: XeretHandoff where
  "big_box = \<lparr>h_magic = XERET_HANDOFF_MAGIC, h_mmap_addr = 0x8000,
     h_mmap = [\<lparr>d_Type = 7, d_PhysicalStart = 0, d_NumberOfPages = 0x400000\<rparr>],
     h_mmap_size = 48, h_mmap_desc_size = 48, h_phys_end = 0x400000000,
     h_fb_base = 0, h_fb_pixels_per_scanline = 0, h_fb_height = 0\<rparr>"

definition nx_cpu :: cpuid where
  "nx_cpu leaf subleaf = (if leaf = 0x80000000 then (0x80000008, 0, 0, 0) else if leaf = 0x80000001 then (0, 0, 0, 0x100000) else (1, 0, 0, 0))"

definition quiet_hw :: LapicHw where
  "quiet_hw = \<lparr>hw_cpuid1_edx = 0, hw_port61 = (\<lambda>_. 0), hw_timer_cur = 0\<rparr>"

definition flat_layout :: Layout where
  "flat_layout = \<lparr>ly_tss = 0x200000, ly_k_stack = 0x210000, ly_df_stack = 0x220000, ly_isr_stub_base = 0x230000,
     ly_isr_stub_syscall = 0x240000, ly_isr_irq_base = 0x250000\<rparr>"

lemma phys_big_box:
  assumes "length (pb_bits p) = XERET_BITMAP_BYTES"
  obtains q where "phys_init_from_handoff (Some big_box) p = (0, q)" "phys_ready q" "ffree q = {256..<4194304}" "pb_total q = 4194304"
proof -
  obtain q where q: "phys_init_from_handoff (Some big_box) p = (0, q)"
    by (simp add: phys_init_from_handoff_def big_box_def Let_def)
  define z where "z = \<lparr>pb_total = 4194304, pb_free = 0, pb_used = 4194304, pb_end = 0x400000000,
      pb_bits = fill_bytes (pb_bits p) 0 XERET_BITMAP_BYTES 0\<rparr>"
  have e: "q = phys_reserve_range (mark_range_free z 0 4194304) 0 0x100000"
    using q by (simp add: phys_init_from_handoff_def big_box_def Let_def z_def init_descriptor_def efi_free_type_def)
  have "ffree z = {}" using bit_zero_fill [OF assms] by (auto simp: ffree_def z_def bit_test_def)
  then have zi: "phys_inv z" using assms by (simp add: phys_inv_def z_def)
  note m = mark_range_free_spec [OF zi, of 0 4194304]
  have s: "page_span 0 4194304 = {0..<4194304}" by (simp add: page_span_def)
  have fm: "ffree (mark_range_free z 0 4194304) = {0..<4194304}" using m(3) \<open>ffree z = {}\<close> s by (auto simp: z_def)
  note r = phys_reserve_range_spec [OF m(1), of 0 "0x100000"]
  show ?thesis
  proof (rule that [OF q])
    show "phys_ready q" by (rule phys_init_spec(1) [OF assms q])
    show "ffree q = {256..<4194304}" using r(3) fm page_span_low by (auto simp: e)
    show "pb_total q = 4194304" using r(2) m(2) by (simp add: e phys_same_def z_def)
  qed
qed

lemma big_box_boots:
  assumes cold: "cold s"
  obtains s' where "kernel_main nx_cpu flat_layout quiet_hw big_box s = Inr s'" "pt_inv {256..<4194304} Map.empty s'" "toks s' = Map.empty"
    "3900000 < card (ffree (xm_phys s'))"
proof -
  obtain p where p: "phys_init_from_handoff (Some big_box) (xm_phys s) = (0, p)" "phys_ready p" "ffree p = {256..<4194304}"
    using phys_big_box cold unfolding cold_def by metis
  let ?t = "xtok_init (s\<lparr>xm_phys := p\<rparr>)"
  have ti: "ledger_inv ?t" "xm_phys ?t = p" using xtok_init_spec [of "s\<lparr>xm_phys := p\<rparr>"] p(2) cold by (simp_all add: cold_def)
  have pr: "fst (enable_protections nx_cpu ?t) = 0" by (simp add: enable_protections_def nx_cpu_def Let_def)
  have "\<exists>s1. xpt_init_identity nx_cpu 0x400000000 0 0 ?t = (0, s1)"
    by (rule boot_succeeds) (use ti p pr in \<open>simp_all add: align_up_def\<close>)
  then obtain s1 where s1: "xpt_init_identity nx_cpu 0x400000000 0 0 ?t = (0, s1)" ..
  have "kernel_main nx_cpu flat_layout quiet_hw big_box s = Inr (snd (lapic_timer_init quiet_hw (xproc_init flat_layout s1)))"
    by (simp add: kernel_main_def big_box_def Let_def p(1)[unfolded big_box_def] s1 split: prod.split)
  then obtain s' where s': "kernel_main nx_cpu flat_layout quiet_hw big_box s = Inr s'" by blast
  obtain p' s2 fb R M where k: "phys_init_from_handoff (Some big_box) (xm_phys s) = (0, p')"
    "booted (h_phys_end big_box) (h_fb_base big_box) fb (xtok_init (s\<lparr>xm_phys := p'\<rparr>)) R M s2" "core s' = core s2"
    "pt_inv (ffree p') Map.empty s'" "toks s' = Map.empty"
    using kernel_main_spec [OF cold s'] by blast
  have p': "p' = p" using k(1) p(1) by simp
  have b: "kmap (pt_pml4_phys s2) R M s2" "ffree (xm_phys s2) = ffree p - dom R" using k(2) ti(2) by (simp_all add: booted_def p')
  have fin: "finite (dom R)" using b(1) by (auto simp: kmap_def trees_def intro: finite_roles)
  have "card (ffree p) - card (dom R) \<le> card (ffree p - dom R)" by (rule diff_card_le_card_Diff [OF fin])
  moreover have "card (ffree p) = 4194048" unfolding p(3) card_atLeastLessThan by simp
  ultimately have "3900000 < card (ffree p - dom R)" using kmap_card [OF b(1)] by linarith
  moreover have "xm_phys s' = xm_phys s2" using k(3) by (simp add: core_def)
  ultimately have "3900000 < card (ffree (xm_phys s'))" by (simp only: b(2))
  then show ?thesis using that [OF s'] k(4,5) unfolding p' p(3) by blast
qed

definition power_on :: Proc where
  "power_on = \<lparr>xm_phys = phys_blank, xm_mem = (\<lambda>_. 0),
     lg_table = replicate 4096 \<lparr>te_generation = 0, te_kind = XTOK_KIND_NONE, te_owner = 0, te_rights = 0, te_phys = 0,
       te_frames = 0, te_live = False, te_map_count = 0\<rparr>, lg_live = 0, lg_next_hint = 0,
     pt_pml4_phys = 0, pt_prot = 0,
     pt_maps = replicate 1024 \<lparr>mr_as_pml4 = 0, mr_owner = 0, mr_virt = 0, mr_tok = 0, mr_pages = 0, mr_live = False\<rparr>,
     pt_mmio_next = 0, pt_cpu = \<lparr>cpu_cr0 = 0x80000001, cpu_cr3 = 0, cpu_cr4 = 0x20, cpu_msr = (\<lambda>_. 0), cpu_invlpg = []\<rparr>,
     sy_quota = replicate 64 \<lparr>q_frames = 0, q_tokens = 0, q_set = False\<rparr>, sy_def_frames = 2048, sy_def_tokens = 256,
     lp_ready = False, lp_x2 = False, lp_mmio = 0, lp_ticks_per_ms = 0, lp_regs = (\<lambda>_. 0), lp_ports = [],
     gd_tss = \<lparr>ts_rsp0 = 0, ts_ist = replicate 7 0, ts_iopb = 0\<rparr>, gd_gdt = replicate 7 0, gd_ready = False,
     id_idt = replicate 256 \<lparr>ie_off_lo = 0, ie_selector = 0, ie_ist = 0, ie_attr = 0, ie_off_mid = 0, ie_off_hi = 0, ie_zero = 0\<rparr>,
     id_cs = 0x38, pr_res = None, pr_ctx = None, pr_as = None, pr_quantum_ticks = 0, pr_irq_unexpected = 0, pr_irq_last = 0,
     pr_kernel_cr3 = 0, pr_hooks = False,
     pr_kregs = \<lparr>k_rbx = 0, k_rbp = 0, k_rdi = 0, k_rsi = 0, k_r12 = 0, k_r13 = 0, k_r14 = 0, k_r15 = 0\<rparr>, 
     pr_rsp = 0x300000, pr_stack = (\<lambda>_. 0), pr_resume_rsp = 0, pr_rflags = 2, pr_isr_iretq = 0x260000, pr_enter_iretq = 0x270000\<rparr>"

lemma power_on_fields:
  "pb_bits (xm_phys power_on) = replicate XERET_BITMAP_BYTES 0"
  "\<exists>e. lg_table power_on = replicate 4096 e" "\<exists>r. pt_maps power_on = replicate 1024 r \<and> \<not> mr_live r"
  unfolding power_on_def phys_blank_def
  by (simp_all only: Xmach.select_convs Ledger.select_convs Paging.select_convs PhysBitmap.select_convs) (auto intro: exI [of _ "\<lparr>mr_as_pml4 = 0, mr_owner = 0, mr_virt = 0, mr_tok = 0, mr_pages = 0, mr_live = False\<rparr>"])

lemma cold_power_on: "cold power_on"
proof -
  obtain e r where "lg_table power_on = replicate 4096 e" "pt_maps power_on = replicate 1024 r" "\<not> mr_live r"
    using power_on_fields(2,3) by blast
  then show ?thesis unfolding cold_def power_on_fields(1) by (simp only: length_replicate set_replicate_conv_if) simp
qed

lemma power_on_boots:
  obtains s where "kernel_main nx_cpu flat_layout quiet_hw big_box power_on = Inr s" "pt_inv {256..<4194304} Map.empty s" "toks s = Map.empty"
    "3900000 < card (ffree (xm_phys s))"
  by (rule big_box_boots [OF cold_power_on]) (rule that)

end
