(* ===== verification/Sys_Inv.thy ===== *)
theory Sys_Inv
  imports Sys Paging_Frame
begin

text \<open>
  The system calls and the teardown of a process keep the invariant of the address spaces, and the
  teardown terminates: every token of the owner can be reclaimed once its mappings are revoked, so each
  pass of \<open>xproc_reap\<close> makes progress until the owner holds nothing.
\<close>

section \<open>System calls\<close>

lemma alloc_inv:
  assumes "pt_inv B sp s" "xtok_alloc_ram owner n rights s = (tok, s')"
  shows "alloc_done owner rights n s tok s'" "pt_inv B sp s'" "outer s' = outer s"
proof -
  have "ledger_inv s" using assms(1) by (auto simp: pt_inv_def pt_ok_def)
  from xtok_alloc_ram_spec [OF this assms(2)] show a: "alloc_done owner rights n s tok s'" ..
  show "pt_inv B sp s'" by (rule pt_inv_alloc [OF assms(1) a])
  show "outer s' = outer s" using a by (intro outer_ledger) (simp add: alloc_done_def)
qed

lemma release_inv:
  assumes "pt_inv B sp s" "release_impl tok cr co owner s = (rc, s')"
  shows "rc = release_code cr co owner (toks s tok)" "rc \<noteq> 0 \<Longrightarrow> s' = s" "rc = 0 \<Longrightarrow> released tok s s'" "pt_inv B sp s'" "outer s' = outer s"
proof -
  have li: "ledger_inv s" using assms(1) by (auto simp: pt_inv_def pt_ok_def)
  note r = release_impl_spec [OF li assms(2)]
  show "rc = release_code cr co owner (toks s tok)" "rc \<noteq> 0 \<Longrightarrow> s' = s" "rc = 0 \<Longrightarrow> released tok s s'" by (fact r)+
  show "pt_inv B sp s'" by (rule pt_inv_release [OF assms])
  show "outer s' = outer s" using r(2,3) by (cases "rc = 0") (auto simp: released_def intro: outer_ledger)
qed

lemma syscall_inv:
  assumes inv: "pt_inv B sp s" and a: "as_live a \<longrightarrow> sp (as_pml4_phys a) = Some (as_owner_id a)" and sy: "xsys_resource a f s = (f', s')"
  shows "pt_inv B sp s'" "outer s' = outer s"
proof -
  consider "sys_alloc a f s = (f', s')" | "sys_map a f s = (f', s')" | "sys_unmap a f s = (f', s')" | "sys_free a f s = (f', s')" | "s' = s"
    using sy unfolding xsys_resource_def by (auto simp: sys_info_def Let_def split: if_splits prod.splits)
  then have "pt_inv B sp s' \<and> outer s' = outer s"
  proof cases
    case 1
    have "s' = s \<or> s' = snd (xtok_alloc_ram (as_owner_id a) (f_rdi f) (ucast (f_rsi f)) s)"
      using 1 unfolding sys_alloc_def Let_def by (auto split: if_split_asm prod.split_asm)
    then show ?thesis using inv alloc_inv(2,3) [OF inv, of "as_owner_id a" "f_rdi f" "ucast (f_rsi f)"] by (metis prod.collapse)
  next
    case 2
    have "s' = s \<or> s' = snd (xas_map (Some a) (f_rsi f) (f_rdi f) (ucast (f_rdx f)) s)"
      using 2 unfolding sys_map_def Let_def by (auto split: if_split_asm prod.split_asm)
    then show ?thesis using inv pt_inv_map [OF inv a, of "f_rsi f" "f_rdi f" "ucast (f_rdx f)"] xas_map_outer [of "Some a" "f_rsi f" "f_rdi f" "ucast (f_rdx f)" s]
      by (metis prod.collapse)
  next
    case 3
    then have "s' = snd (xas_unmap (Some a) (f_rdi f) s)" unfolding sys_unmap_def Let_def by (auto split: prod.split_asm)
    then show ?thesis using pt_inv_unmap [OF inv, of a "f_rdi f"] xas_unmap_outer [of "Some a" "f_rdi f" s] by (metis prod.collapse)
  next
    case 4
    then have "s' = snd (release_impl (f_rdi f) True True (as_owner_id a) s)"
      unfolding sys_free_def Let_def xtok_release_owned_def by (auto split: prod.split_asm)
    then show ?thesis using release_inv(4,5) [OF inv, of "f_rdi f" True True "as_owner_id a"] by (metis prod.collapse)
  qed (use inv in simp)
  then show "pt_inv B sp s'" "outer s' = outer s" by simp_all
qed

section \<open>Revoking and reclaiming one token\<close>

text \<open>What a teardown of \<open>owner\<close> leaves alone: the mappings of other owners and the memory of their tokens.\<close>

definition spared :: "u32 \<Rightarrow> 'a Paging_scheme \<Rightarrow> 'a Paging_scheme \<Rightarrow> bool" where
  "spared owner s s' \<longleftrightarrow> (\<forall>k < 1024. mr_live (pt_maps s ! k) \<longrightarrow> mr_owner (pt_maps s ! k) \<noteq> owner \<longrightarrow> pt_maps s' ! k = pt_maps s ! k) \<and>
     (\<forall>t e x. toks s t = Some e \<longrightarrow> te_owner e \<noteq> owner \<longrightarrow> unat x div 4096 \<in> te_span e \<longrightarrow> xm_mem s' x = xm_mem s x) \<and>
     Paging.more s' = Paging.more s"

lemma revoke_spec:
  assumes inv: "pt_inv B sp s" and rv: "xas_revoke_token tok s = (n, s')" and e: "toks s tok = Some e"
  shows "pt_inv B sp s'" "unpinned (toks s) (toks s')" "\<exists>e'. toks s' tok = Some e' \<and> te_map_count e' = 0 \<and> te_span e' = te_span e"
    "spared (te_owner e) s s'" "xm_phys s' = xm_phys s"
proof -
  obtain R M where ok: "pt_ok sp R M s" and b: "ffree (xm_phys s) \<union> dom R \<union> spans s = B" "mmio_ok (pt_mmio_next s)"
    using inv by (rule pt_invE)
  note d = pt_okD [OF ok]
  let ?Q = "\<lambda>r. mr_tok r = tok"
  obtain c where "fold (drop_where ?Q) [0..<1024] (s, 0) = (s', c)"
    using rv by (cases "fold (drop_where ?Q) [0..<1024] (s, 0)") (simp add: xas_revoke_token_def del: upt_rec_numeral)
  from drop_fold_spec [OF ok order_refl this] have df: "pt_ok sp R (M |` (- keys_where ?Q 1024 (pt_maps s))) s'"
    "pt_maps s' = dead_where ?Q 1024 (pt_maps s)" "dropped R s s'" by simp_all
  show "pt_inv B sp s'" by (rule pt_inv_dropped [OF b df(1,3)])
  show u: "unpinned (toks s) (toks s')" and "xm_phys s' = xm_phys s" using df(3) by (simp_all add: dropped_def)
  obtain c' where c': "toks s' tok = Some (e\<lparr>te_map_count := c'\<rparr>)" using u e by (auto simp: unpinned_def)
  have len: "length (pt_maps s) = 1024" using recs1 [OF d(7)] .
  have nth: "pt_maps s' ! k = (if mr_live (pt_maps s ! k) \<and> ?Q (pt_maps s ! k) then (pt_maps s ! k)\<lparr>mr_live := False\<rparr> else pt_maps s ! k)" if "k < 1024" for k
    using that len by (simp add: df(2) dead_where_def)
  have "tok_recs (pt_maps s') tok = {}" using nth by (auto simp: tok_recs_def split: if_splits)
  then have "c' = 0" using recs5 [OF pt_okD(7) [OF df(1)] c'] by (simp add: unat_eq_0)
  then show "\<exists>e'. toks s' tok = Some e' \<and> te_map_count e' = 0 \<and> te_span e' = te_span e" using c' by simp
  have "mr_owner (pt_maps s ! k) = te_owner e" if "k < 1024" "mr_live (pt_maps s ! k)" "mr_tok (pt_maps s ! k) = tok" for k
    using recs2 [OF d(7) that(1,2)] that(3) e by (auto simp: rec_ok_def)
  then show "spared (te_owner e) s s'"
    using nth d(4) df(3) unfolding spared_def dropped_def by (auto split: if_splits) blast
qed

section \<open>Passes over the tokens of an owner\<close>

text \<open>The tokens \<open>D\<close> of \<open>owner\<close> are gone, their frames free, everything else is spared.\<close>

definition reaped :: "u32 \<Rightarrow> XToken set \<Rightarrow> 'a Paging_scheme \<Rightarrow> 'a Paging_scheme \<Rightarrow> bool" where
  "reaped owner D s s' \<longleftrightarrow> unpinned (toks s |` (- D)) (toks s') \<and> spared owner s s' \<and>
     (\<forall>t \<in> D. \<exists>e. toks s t = Some e \<and> te_owner e = owner) \<and>
     ffree (xm_phys s) \<union> (\<Union>t \<in> D. te_span (the (toks s t))) \<subseteq> ffree (xm_phys s')"

lemma unpinned_Some: "unpinned T T' \<Longrightarrow> T t = Some e \<Longrightarrow> \<exists>c. T' t = Some (e\<lparr>te_map_count := c\<rparr>)"
  "unpinned T T' \<Longrightarrow> T' t = Some e' \<Longrightarrow> \<exists>e c. T t = Some e \<and> e' = e\<lparr>te_map_count := c\<rparr>"
proof -
  show "unpinned T T' \<Longrightarrow> T t = Some e \<Longrightarrow> \<exists>c. T' t = Some (e\<lparr>te_map_count := c\<rparr>)" by (simp add: unpinned_def)
  assume u: "unpinned T T'" and t: "T' t = Some e'"
  obtain e where e: "T t = Some e" using u t unfolding unpinned_def by (metis not_Some_eq)
  moreover obtain c where "T' t = Some (e\<lparr>te_map_count := c\<rparr>)" using u e by (auto simp: unpinned_def)
  ultimately show "\<exists>e c. T t = Some e \<and> e' = e\<lparr>te_map_count := c\<rparr>" using t by auto
qed

lemma unpinned_restrict: "unpinned T T' \<Longrightarrow> unpinned (T |` A) (T' |` A)"
  by (auto simp: unpinned_def restrict_map_def)

lemma reaped_refl [simp]: "reaped owner {} s s"
  by (simp add: reaped_def spared_def restrict_map_def)

lemma reaped_trans:
  assumes a: "reaped owner D s s1" and b: "reaped owner E s1 s2"
  shows "reaped owner (D \<union> E) s s2"
proof -
  have u1: "unpinned (toks s |` (- D)) (toks s1)" and u2: "unpinned (toks s1 |` (- E)) (toks s2)"
    and sp1: "spared owner s s1" and sp2: "spared owner s1 s2" using a b by (simp_all add: reaped_def)
  have bk: "\<exists>e c. t \<notin> D \<and> toks s t = Some e \<and> e1 = e\<lparr>te_map_count := c\<rparr>" if "toks s1 t = Some e1" for t e1
    using unpinned_Some(2) [OF u1 that] by (auto simp: restrict_map_def split: if_splits)
  have fwd: "\<exists>c. toks s1 t = Some (e\<lparr>te_map_count := c\<rparr>)" if "toks s t = Some e" "t \<notin> D" for t e
    using unpinned_Some(1) [OF u1, of t e] that by (simp add: restrict_map_def)
  have "unpinned (toks s |` (- (D \<union> E))) (toks s2)"
    using unpinned_trans [OF unpinned_restrict [OF u1, of "- E"] u2] by (simp add: Int_commute)
  moreover have oD: "te_owner e = owner" if "t \<in> D" "toks s t = Some e" for t e using a that by (auto simp: reaped_def)
  have "spared owner s s2" unfolding spared_def
  proof (intro conjI allI impI)
    show "pt_maps s2 ! k = pt_maps s ! k" if "k < 1024" "mr_live (pt_maps s ! k)" "mr_owner (pt_maps s ! k) \<noteq> owner" for k
      using sp1 sp2 that by (simp add: spared_def)
    show "xm_mem s2 x = xm_mem s x" if t: "toks s t = Some e" "te_owner e \<noteq> owner" "unat x div 4096 \<in> te_span e" for t e x
    proof -
      obtain c where c: "toks s1 t = Some (e\<lparr>te_map_count := c\<rparr>)" using fwd [OF t(1)] oD t(1,2) by blast
      have "xm_mem s2 x = xm_mem s1 x" using sp2 c t(2,3) unfolding spared_def by fastforce
      then show ?thesis using sp1 t unfolding spared_def by metis
    qed
    show "Paging.more s2 = Paging.more s" using sp1 sp2 by (simp add: spared_def)
  qed
  moreover have E: "\<exists>e. toks s t = Some e \<and> te_owner e = owner \<and> te_span e = te_span (the (toks s1 t))" if tE: "t \<in> E" for t
  proof -
    obtain e1 where e1: "toks s1 t = Some e1" "te_owner e1 = owner" using b tE by (auto simp: reaped_def)
    then show ?thesis using bk [OF e1(1)] by auto
  qed
  moreover have "ffree (xm_phys s) \<union> (\<Union>t \<in> D \<union> E. te_span (the (toks s t))) \<subseteq> ffree (xm_phys s2)"
  proof -
    have f: "ffree (xm_phys s) \<subseteq> ffree (xm_phys s1)" "(\<Union>t \<in> D. te_span (the (toks s t))) \<subseteq> ffree (xm_phys s1)"
      "ffree (xm_phys s1) \<subseteq> ffree (xm_phys s2)" "(\<Union>t \<in> E. te_span (the (toks s1 t))) \<subseteq> ffree (xm_phys s2)"
      using a b by (simp_all add: reaped_def)
    have "te_span (the (toks s t)) = te_span (the (toks s1 t))" if "t \<in> E" for t using E [OF that] by (elim exE conjE) (simp only: option.sel)
    then have "(\<Union>t \<in> E. te_span (the (toks s t))) \<subseteq> ffree (xm_phys s2)" using f(4) by simp
    then show ?thesis unfolding UN_Un by (intro Un_least subset_trans [OF f(1,3)] subset_trans [OF f(2,3)])
  qed
  ultimately show ?thesis using a unfolding reaped_def by blast
qed

lemma reap_one:
  assumes inv: "pt_inv B sp s" and e: "toks s tok = Some e" and rv: "xas_revoke_token tok s = (n, s1)" and rc: "xtok_reclaim tok s1 = (rc, s2)"
  shows "rc = 0" "pt_inv B sp s2" "reaped (te_owner e) {tok} s s2"
proof -
  note r = revoke_spec [OF inv rv e]
  obtain e1 where e1: "toks s1 tok = Some e1" "te_map_count e1 = 0" "te_span e1 = te_span e" using r(3) by blast
  note l = release_inv [OF r(1) rc [unfolded xtok_reclaim_def]]
  show z: "rc = 0" using l(1) e1 by (simp add: release_code_def)
  show "pt_inv B sp s2" by (rule l(4))
  have rl: "toks s2 = (toks s1)(tok := None)" "ffree (xm_phys s2) = ffree (xm_phys s1) \<union> te_span e" "xm_mem s2 = xm_mem s1"
    "Ledger.more s2 = Ledger.more s1" using l(3) [OF z] e1 by (auto simp: released_def)
  have "unpinned (toks s |` (- {tok})) (toks s2)"
    using unpinned_restrict [OF r(2), of "- {tok}"] by (simp add: rl(1) restrict_complement_singleton_eq)
  moreover have "spared (te_owner e) s s2" using r(4) rl(3) ledger_more_fields(3,6) [OF rl(4)] by (simp add: spared_def)
  ultimately show "reaped (te_owner e) {tok} s s2" using rl(2) r(5) e by (simp add: reaped_def)
qed

lemma reaped_tokens:
  assumes "reaped owner D s s'"
  shows "owner_tokens s' owner = owner_tokens s owner - D"
proof -
  have u: "unpinned (toks s |` (- D)) (toks s')" using assms by (simp add: reaped_def)
  show ?thesis unfolding owner_tokens_def
  proof (intro equalityI subsetI)
    fix t assume "t \<in> {t. \<exists>e. toks s' t = Some e \<and> te_owner e = owner}"
    then obtain e' where e': "toks s' t = Some e'" "te_owner e' = owner" by blast
    then show "t \<in> {t. \<exists>e. toks s t = Some e \<and> te_owner e = owner} - D"
      using unpinned_Some(2) [OF u e'(1)] by (auto simp: restrict_map_def split: if_splits)
  next
    fix t assume "t \<in> {t. \<exists>e. toks s t = Some e \<and> te_owner e = owner} - D"
    then obtain e where e: "toks s t = Some e" "te_owner e = owner" "t \<notin> D" by blast
    then show "t \<in> {t. \<exists>e. toks s' t = Some e \<and> te_owner e = owner}"
      using unpinned_Some(1) [OF u, of t e] by auto
  qed
qed

lemma reap_fold:
  assumes "pt_inv B sp s" "distinct ts" "set ts \<subseteq> owner_tokens s owner"
    "fold (\<lambda>tok (progress, s). (let (n, s) = xas_revoke_token tok s; (rc, s) = xtok_reclaim tok s
       in (if rc = 0 then progress + 1 else progress, s))) ts (p, s) = (p', s')"
  shows "p' = p + of_nat (length ts) \<and> pt_inv B sp s' \<and> reaped owner (set ts) s s'"
  using assms
proof (induction ts arbitrary: p s)
  case Nil
  then show ?case by simp
next
  case (Cons tok ts)
  obtain e where e: "toks s tok = Some e" "te_owner e = owner" using Cons.prems(3) by (auto simp: owner_tokens_def)
  obtain n s1 where rv: "xas_revoke_token tok s = (n, s1)" by fastforce
  obtain rc s2 where rc: "xtok_reclaim tok s1 = (rc, s2)" by fastforce
  note one = reap_one [OF Cons.prems(1) e(1) rv rc, unfolded e(2)]
  have sub: "set ts \<subseteq> owner_tokens s2 owner" using Cons.prems(2,3) reaped_tokens [OF one(3)] by auto
  have "p' = (p + 1) + of_nat (length ts) \<and> pt_inv B sp s' \<and> reaped owner (set ts) s2 s'"
    by (rule Cons.IH [OF one(2) _ sub]) (use Cons.prems(2,4) one(1) in \<open>simp_all add: rv rc\<close>)
  then show ?case using reaped_trans [OF one(3)] by (simp add: add.assoc)
qed

lemma finite_owner_tokens:
  assumes "ledger_inv s"
  shows "finite (owner_tokens s owner)" "card (owner_tokens s owner) \<le> 4096"
proof -
  have f: "owner_slots s owner \<subseteq> {..<4096}" by (auto simp: owner_slots_def)
  then have fin: "finite (owner_slots s owner)" by (rule finite_subset) simp
  then show "finite (owner_tokens s owner)" by (simp add: owner_tokens_slots [OF assms])
  show "card (owner_tokens s owner) \<le> 4096" using card_owner_tokens [OF assms, of owner] card_mono [OF _ f] by simp
qed

lemma reap_loop_spec:
  assumes "pt_inv B sp s"
  shows "\<exists>s'. reap_loop owner tot s = Some (tot + of_nat (card (owner_tokens s owner)), s') \<and> pt_inv B sp s' \<and>
    reaped owner (owner_tokens s owner) s s'"
  using assms
proof (induction "card (owner_tokens s owner)" arbitrary: s tot rule: less_induct)
  case less
  have li: "ledger_inv s" using less.prems by (auto simp: pt_inv_def pt_ok_def)
  define ts where "ts = xtok_owner_tokens owner 64 s"
  have ts: "set ts \<subseteq> owner_tokens s owner" "distinct ts" "length ts = min 64 (card (owner_tokens s owner))"
    using xtok_owner_tokens_spec [OF li, of owner 64] by (simp_all add: ts_def)
  note fin = finite_owner_tokens [OF li]
  show ?case
  proof (cases "ts = []")
    case True
    then have "min 64 (card (owner_tokens s owner)) = 0" using ts(3) by simp
    then have "card (owner_tokens s owner) = 0" by linarith
    then have "owner_tokens s owner = {}" using fin(1) by simp
    moreover have "reap_loop owner tot s = Some (tot, s)" using True by (subst reap_loop.simps) (simp add: ts_def [symmetric])
    ultimately show ?thesis using less.prems by simp
  next
    case False
    obtain p s1 where r: "reap_round ts s = (p, s1)" by fastforce
    have q: "p = of_nat (length ts)" "pt_inv B sp s1" "reaped owner (set ts) s s1"
      using reap_fold [OF less.prems ts(2,1), of 0 p s1] r by (simp_all add: reap_round_def)
    have len: "0 < length ts" using False by simp
    have len64: "length ts \<le> 64" using ts(3) by simp
    with len have p0: "p \<noteq> 0" unfolding q(1) by (simp add: word_unat_eq_iff unat_of_nat_u32)
    have ot: "owner_tokens s1 owner = owner_tokens s owner - set ts" by (rule reaped_tokens [OF q(3)])
    have card: "card (owner_tokens s owner) = length ts + card (owner_tokens s1 owner)"
      unfolding ot using card_Diff_subset [OF _ ts(1)] card_mono [OF fin(1) ts(1)] distinct_card [OF ts(2)] by simp
    obtain s2 where s2: "reap_loop owner (tot + p) s1 = Some (tot + p + of_nat (card (owner_tokens s1 owner)), s2)"
      "pt_inv B sp s2" "reaped owner (owner_tokens s1 owner) s1 s2"
      using less.hyps [OF _ q(2), of "tot + p"] card len by auto
    have "reap_loop owner tot s = reap_loop owner (tot + p) s1"
      using False p0 by (subst reap_loop.simps) (simp add: ts_def [symmetric] r)
    moreover have "set ts \<union> owner_tokens s1 owner = owner_tokens s owner" using ot ts(1) by blast
    ultimately show ?thesis using s2 reaped_trans [OF q(3) s2(3)] by (simp add: card q(1) add.assoc)
  qed
qed

section \<open>The teardown of a process\<close>

lemma destroy_spared:
  assumes inv: "pt_inv B sp s" and a: "as_live a" "sp (as_pml4_phys a) = Some owner" and ds: "xas_destroy (Some a) s = (b, s')"
  shows "unpinned (toks s) (toks s')" "spared owner s s'" "ffree (xm_phys s) \<subseteq> ffree (xm_phys s')"
    "\<And>k. k < 1024 \<Longrightarrow> mr_live (pt_maps s' ! k) \<Longrightarrow> mr_as_pml4 (pt_maps s' ! k) \<noteq> as_pml4_phys a"
proof -
  obtain R M where ok: "pt_ok sp R M s" using inv by (rule pt_invE)
  note d = xas_destroy_spec [OF ok a(1) refl a(2) ds] and k = pt_okD [OF ok]
  show "unpinned (toks s) (toks s')" by (rule d(5))
  let ?Q = "\<lambda>r. mr_as_pml4 r = as_pml4_phys a"
  have nth: "pt_maps s' ! i = (if mr_live (pt_maps s ! i) \<and> ?Q (pt_maps s ! i) then (pt_maps s ! i)\<lparr>mr_live := False\<rparr> else pt_maps s ! i)" if "i < 1024" for i
    using that recs1 [OF k(7)] by (simp add: d(9) dead_where_def)
  show "mr_as_pml4 (pt_maps s' ! i) \<noteq> as_pml4_phys a" if "i < 1024" "mr_live (pt_maps s' ! i)" for i
    using nth [OF that(1)] that(2) by (auto split: if_splits)
  have "mr_owner (pt_maps s ! i) = owner" if "i < 1024" "mr_live (pt_maps s ! i)" "?Q (pt_maps s ! i)" for i
    using recs2 [OF k(7) that(1,2)] that(3) a(2) by (simp add: rec_ok_def)
  then show "spared owner s s'" using nth d(6,7) k(4) unfolding spared_def by (auto split: if_splits) blast
  have "dom R \<inter> ffree (xm_phys s) = {}" using k(2) by (simp add: trees_def)
  then show "ffree (xm_phys s) \<subseteq> ffree (xm_phys s')" using d(3) unfolding acct_def by (simp add: set_eq_iff subset_iff) blast
qed

lemma xproc_reap_spec:
  assumes inv: "pt_inv B sp s" and a: "as_live a" "sp (as_pml4_phys a) = Some (as_owner_id a)"
  shows "\<exists>s'. xproc_reap (Some a) s = Some (of_nat (card (owner_tokens s (as_owner_id a))), Some (a\<lparr>as_live := False\<rparr>), s') \<and>
    pt_inv B (sp(as_pml4_phys a := None)) s' \<and> reaped (as_owner_id a) (owner_tokens s (as_owner_id a)) s s' \<and>
    (\<forall>k < 1024. mr_live (pt_maps s' ! k) \<longrightarrow> mr_as_pml4 (pt_maps s' ! k) \<noteq> as_pml4_phys a)"
proof -
  let ?o = "as_owner_id a"
  obtain s1 where s1: "reap_loop ?o 0 s = Some (0 + of_nat (card (owner_tokens s ?o)), s1)" "pt_inv B sp s1" "reaped ?o (owner_tokens s ?o) s s1"
    using reap_loop_spec [OF inv] by blast
  obtain b s2 where s2: "xas_destroy (Some a) s1 = (b, s2)" by fastforce
  note d = pt_inv_destroy [OF s1(2) a s2] and e = destroy_spared [OF s1(2) a s2]
  have "reaped ?o {} s1 s2" using e(1-3) unpinned_restrict [OF e(1), of UNIV] by (simp add: reaped_def restrict_map_def)
  then have "reaped ?o (owner_tokens s ?o) s s2" using reaped_trans [OF s1(3)] by fastforce
  moreover have "xproc_reap (Some a) s = Some (of_nat (card (owner_tokens s ?o)), Some (a\<lparr>as_live := False\<rparr>), s2)"
    using a(1) by (simp add: xproc_reap_def s1(1) s2 d(1))
  ultimately show ?thesis using d(2) e(4) by blast
qed

end
