(* ===== verification/Proc_Inv.thy ===== *)
theory Proc_Inv
  imports Boot Sys_Inv
begin

text \<open>
  Running a program. Whatever a program stores and whichever traps it takes, the memory invariants
  hold afterwards, and when the run comes back the kernel has its integer registers, its stack and its page
  tables. A trap from ring 3 halts the machine only by the \<open>iretq\<close> that would resume the program at an
  address that is not canonical.
\<close>

section \<open>One trap\<close>

text \<open>What a trap keeps of the process state.\<close>

definition kept :: "'a Proc_scheme \<Rightarrow> 'a Proc_scheme \<Rightarrow> bool" where
  "kept s s' \<longleftrightarrow> pr_as s' = pr_as s \<and> pr_kernel_cr3 s' = pr_kernel_cr3 s \<and> pr_stack s' = pr_stack s \<and>
     pr_resume_rsp s' = pr_resume_rsp s \<and> pr_rsp s' = pr_rsp s \<and> (pr_ctx s \<noteq> None \<longrightarrow> pr_ctx s' \<noteq> None) \<and> pr_hooks s' = pr_hooks s \<and>
     xpt_read_cr3 s' = xpt_read_cr3 s \<and> (pr_res s \<noteq> None \<longrightarrow> pr_res s' \<noteq> None) \<and> pr_quantum_ticks s' = pr_quantum_ticks s"

lemma kept_trans: "kept s s1 \<Longrightarrow> kept s1 s2 \<Longrightarrow> kept s s2"
  by (auto simp: kept_def)

lemma kept_outer: "outer s' = outer s \<Longrightarrow> kept s s'"
  by (cases s; cases s') (simp add: kept_def outer_def xpt_read_cr3_def)

lemma lapic_kept: "kept s (lwrite r v s)" "kept s (lapic_eoi s)" "kept s (lapic_timer_stop s)" "kept s (lapic_timer_arm t s)"
  by (simp_all add: kept_def lwrite_def lapic_eoi_def lapic_timer_stop_def lapic_timer_arm_def wrmsr_def cpu_update_def xpt_read_cr3_def Let_def)

lemma lapic_eoi_core: "core (lapic_eoi s) = core s" "core (lapic_timer_stop s) = core s" "core (lapic_timer_arm t s) = core s"
  by (simp_all add: lapic_eoi_def lapic_timer_stop_def lapic_timer_arm_def lapic_core)

text \<open>A hook does a system call on resources, or changes nothing the memory invariants read.\<close>

lemma proc_core: "core (s\<lparr>pr_res := r\<rparr>) = core s" "core (s\<lparr>pr_ctx := c\<rparr>) = core s"
  "core (s\<lparr>pr_irq_unexpected := n, pr_irq_last := l\<rparr>) = core s"
  by (simp_all add: core_def)

lemma proc_kept: "kept s (s\<lparr>pr_res := Some r\<rparr>)" "kept s (s\<lparr>pr_ctx := Some c, pr_res := Some r\<rparr>)"
  "kept s (s\<lparr>pr_irq_unexpected := n, pr_irq_last := l\<rparr>)" "kept s s"
  by (simp_all add: kept_def xpt_read_cr3_def)

lemma user_hook_cases:
  assumes "user_hook f cr2 s = (out, s')"
  obtains (quiet) "core s' = core s" "kept s s'" | (call) f' where "pr_as s \<noteq> None" "xsys_resource (the (pr_as s)) f s = (f', s')"
  using assms unfolding user_hook_def Let_def
  by (auto simp: proc_core proc_kept split: option.splits if_split_asm prod.split_asm)

lemma user_hook_out:
  assumes "user_hook f cr2 s = (out, s')" "pr_res s \<noteq> None"
  shows "\<not> (\<exists>text. out = Halted text)" "out = Leave status \<Longrightarrow> status \<in> {XPROC_EXIT, XPROC_FAULT, XPROC_PREEMPT, XPROC_YIELD}"
  using assms unfolding user_hook_def Let_def by (auto split: option.splits if_split_asm prod.split_asm)

lemma irq_hook_spec:
  assumes "irq_hook f cr2 s = (out, s')"
  shows "core s' = core s" "kept s s'" "\<not> (\<exists>text. out = Halted text)"
    "out = Leave status \<Longrightarrow> status \<in> {XPROC_EXIT, XPROC_FAULT, XPROC_PREEMPT, XPROC_YIELD}"
proof -
  note d = assms [unfolded irq_hook_def Let_def]
  show "core s' = core s" using d by (auto simp: proc_core lapic_eoi_core split: option.splits if_split_asm)
  have k: "kept s ((lapic_eoi s)\<lparr>pr_ctx := Some c, pr_res := Some r\<rparr>)" "kept s (lapic_eoi (s\<lparr>pr_irq_unexpected := n, pr_irq_last := l\<rparr>))" for c r n l
    using kept_trans [OF lapic_kept(2) proc_kept(2)] kept_trans [OF proc_kept(3) lapic_kept(2)] by blast+
  show "kept s s'" using d k by (auto simp: lapic_kept proc_kept split: option.splits if_split_asm)
  show "\<not> (\<exists>text. out = Halted text)" "out = Leave status \<Longrightarrow> status \<in> {XPROC_EXIT, XPROC_FAULT, XPROC_PREEMPT, XPROC_YIELD}"
    using d by (auto split: option.splits if_split_asm)
qed

text \<open>The system calls leave the instruction pointer of the frame alone.\<close>

lemma sys_rip:
  assumes "xsys_resource a f s = (f', s')"
  shows "f_rip f' = f_rip f"
  using assms unfolding xsys_resource_def sys_alloc_def sys_map_def sys_unmap_def sys_free_def sys_info_def ret_def Let_def
  by (auto split: if_split_asm prod.split_asm)

lemma hook_rip:
  "user_hook f cr2 s = (Return g, s') \<Longrightarrow> f_rip g = f_rip f" "irq_hook f cr2 s = (Return g, s') \<Longrightarrow> f_rip g = f_rip f"
proof -
  show "user_hook f cr2 s = (Return g, s') \<Longrightarrow> f_rip g = f_rip f"
    unfolding user_hook_def Let_def by (auto dest: sys_rip split: option.splits if_split_asm prod.split_asm)
  show "irq_hook f cr2 s = (Return g, s') \<Longrightarrow> f_rip g = f_rip f"
    unfolding irq_hook_def Let_def by (auto split: option.splits if_split_asm)
qed

lemma handle_spec:
  assumes inv: "pt_inv B sp s" and a: "pr_as s = Some a" "as_live a \<longrightarrow> sp (as_pml4_phys a) = Some (as_owner_id a)"
    and tr: "handle f cr2 s = (out, s')" and u: "f_cs f AND 3 = 3" and h: "pr_hooks s" "pr_res s \<noteq> None"
  shows "pt_inv B sp s'" "kept s s'" "\<not> (\<exists>msg. out = Halted msg)" "out = Return g \<Longrightarrow> f_rip g = f_rip f"
    "out = Leave status \<Longrightarrow> status \<in> {XPROC_EXIT, XPROC_FAULT, XPROC_PREEMPT, XPROC_YIELD}"
proof -
  consider (irq) "irq_hook f cr2 s = (out, s')" | (user) "user_hook f cr2 s = (out, s')"
    using tr u h(1) unfolding handle_def exception_handler_def by (auto split: if_split_asm)
  note c = this
  have "pt_inv B sp s' \<and> kept s s'"
  proof (cases rule: c)
    case irq
    then show ?thesis using irq_hook_spec(1,2) pt_inv_core(1) inv by metis
  next
    case user
    then show ?thesis
    proof (cases rule: user_hook_cases)
      case quiet
      then show ?thesis using pt_inv_core(1) inv by metis
    next
      case (call f')
      then show ?thesis using syscall_inv [OF inv a(2)] kept_outer a(1) by (metis option.sel)
    qed
  qed
  then show "pt_inv B sp s'" "kept s s'" by simp_all
  show "\<not> (\<exists>msg. out = Halted msg)" by (cases rule: c) (use h irq_hook_spec(3) user_hook_out(1) in blast)+
  show "f_rip g = f_rip f" if "out = Return g" by (cases rule: c) (use that hook_rip in blast)+
  show "status \<in> {XPROC_EXIT, XPROC_FAULT, XPROC_PREEMPT, XPROC_YIELD}" if "out = Leave status"
    by (cases rule: c) (use that h irq_hook_spec(4) user_hook_out(2) in blast)+
qed

text \<open>A fault of \<open>iretq\<close> is taken in ring 0, so it halts.\<close>

lemma iretq_halts: "\<exists>msg. handle (iretq_fault ip rsp flags ss f) cr2 s = (Halted msg, s)"
  by (simp add: handle_def exception_handler_def iretq_fault_def)

lemma trap_spec:
  assumes inv: "pt_inv B sp s" and a: "pr_as s = Some a" "as_live a \<longrightarrow> sp (as_pml4_phys a) = Some (as_owner_id a)"
    and tr: "trap f cr2 s = (out, s')" and u: "f_cs f AND 3 = 3" and h: "pr_hooks s" "pr_res s \<noteq> None"
  shows "pt_inv B sp s'" "kept s s'" "out = Halted msg \<Longrightarrow> \<not> canonical (f_rip f)"
    "out = Leave status \<Longrightarrow> status \<in> {XPROC_EXIT, XPROC_FAULT, XPROC_PREEMPT, XPROC_YIELD}"
proof -
  obtain o1 s1 where t: "handle f cr2 s = (o1, s1)" by fastforce
  note hs = handle_spec [OF inv a t u h]
  have "s' = s1 \<and> (out = o1 \<or> (\<exists>g msg. o1 = Return g \<and> \<not> canonical (f_rip g) \<and> out = Halted msg))"
  proof (cases o1)
    case (Return g)
    obtain m where "handle (iretq_fault (pr_isr_iretq s1) (ts_rsp0 (gd_tss s1) - 40) (pr_rflags s1) 0 g) cr2 s1 = (Halted m, s1)" using iretq_halts by blast
    then show ?thesis using tr Return by (auto simp: trap_def t split: if_split_asm)
  qed (use tr t in \<open>simp_all add: trap_def\<close>)
  note c = this
  show "pt_inv B sp s'" "kept s s'" using c hs(1,2) by simp_all
  show "out = Halted msg \<Longrightarrow> \<not> canonical (f_rip f)" using c hs(3,4) by auto
  show "out = Leave status \<Longrightarrow> status \<in> {XPROC_EXIT, XPROC_FAULT, XPROC_PREEMPT, XPROC_YIELD}" using c hs(5) by auto
qed

section \<open>A whole run\<close>

definition running :: "nat set \<Rightarrow> (u64 \<rightharpoonup> u32) \<Rightarrow> XAspace \<Rightarrow> 'a Proc_scheme \<Rightarrow> bool" where
  "running B sp a s \<longleftrightarrow> pt_inv B sp s \<and> pr_as s = Some a \<and> sp (as_pml4_phys a) = Some (as_owner_id a) \<and>
     xpt_read_cr3 s = as_pml4_phys a \<and> pr_hooks s \<and> pr_res s \<noteq> None \<and> pr_ctx s \<noteq> None"

text \<open>The events at which a program gives up the processor: an exception, the system calls to exit and to yield, and a
  tick of the timer. An event can be resumed if its instruction pointer is canonical.\<close>

fun leaves :: "Event \<Rightarrow> bool" where
  "leaves (Store v b) = False"
| "leaves (Trap f cr2) = (f_vector f < 32 \<or> f_vector f = 0x80 \<and> f_rax f \<in> {XSYS_EXIT, XSYS_YIELD} \<or> f_vector f = ucast LAPIC_TIMER_VEC)"

fun resumable :: "Event \<Rightarrow> bool" where
  "resumable (Store v b) = True"
| "resumable (Trap f cr2) = canonical (f_rip f)"

lemma running_kept: "running B sp a s \<Longrightarrow> pt_inv B sp s' \<Longrightarrow> kept s s' \<Longrightarrow> running B sp a s'"
  by (auto simp: running_def kept_def)

lemma store_running:
  assumes r: "running B sp a s" and m: "mmu (xm_mem s) (xpt_read_cr3 s) v = Some ac" and u: "ac_user ac"
  shows "running B sp a (s\<lparr>xm_mem := (xm_mem s)(ac_phys ac := b)\<rparr>)" "kept s (s\<lparr>xm_mem := (xm_mem s)(ac_phys ac := b)\<rparr>)"
proof -
  have inv: "pt_inv B sp s" and root: "sp (as_pml4_phys a) = Some (as_owner_id a)" "xpt_read_cr3 s = as_pml4_phys a" using r by (simp_all add: running_def)
  obtain R M where ok: "pt_ok sp R M s" using inv by (rule pt_invE)
  have "allowed (toks s) (as_owner_id a) ac" by (rule mmu_allowed(2) [OF ok root(1) _ u]) (use m root(2) in simp)
  then obtain t e where e: "toks s t = Some e" "unat (ac_phys ac) div 4096 \<in> te_span e" by (auto simp: allowed_def)
  show k: "kept s (s\<lparr>xm_mem := (xm_mem s)(ac_phys ac := b)\<rparr>)" by (rule kept_outer) (simp add: outer_def xpt_read_cr3_def)
  show "running B sp a (s\<lparr>xm_mem := (xm_mem s)(ac_phys ac := b)\<rparr>)" by (rule running_kept [OF r pt_inv_store(1) [OF inv e] k])
qed

lemma leaving_trap:
  assumes r: "running B sp a s" and l: "leaves (Trap f cr2)"
  shows "\<exists>st s'. trap (f\<lparr>f_cs := 0x23\<rparr>) cr2 s = (Leave st, s')"
proof -
  let ?f = "f\<lparr>f_cs := 0x23\<rparr>"
  obtain q c where q: "pr_res s = Some q" "pr_ctx s = Some c" "pr_hooks s" using r by (auto simp: running_def)
  have eoi: "pr_res (lapic_eoi s) = pr_res s" "pr_ctx (lapic_eoi s) = pr_ctx s"
    by (simp_all add: lapic_eoi_def lwrite_def wrmsr_def cpu_update_def)
  have "\<exists>st s'. handle ?f cr2 s = (Leave st, s')"
  proof (cases "f_vector f = ucast LAPIC_TIMER_VEC")
    case True
    then show ?thesis using q eoi by (simp add: handle_def exception_handler_def irq_hook_def)
  next
    case False
    then have "handle ?f cr2 s = user_hook ?f cr2 s" using l q(3) by (auto simp: handle_def exception_handler_def)
    moreover have "\<exists>st s'. user_hook ?f cr2 s = (Leave st, s')" using False l q(1) by (auto simp: user_hook_def Let_def)
    ultimately show ?thesis by simp
  qed
  then show ?thesis by (auto simp: trap_def)
qed

text \<open>A run that comes back comes back through \<open>xproc_leave_asm\<close> unless an event could not be resumed, and a run that goes on has not
  met an event at which the program leaves.\<close>

lemma run_user_spec:
  assumes "running B sp a s"
  shows "case run_user evs s of
      None \<Rightarrow> \<forall>ev \<in> set evs. \<not> leaves ev
    | Some (Inl st, s') \<Rightarrow> st \<in> {XPROC_EXIT, XPROC_FAULT, XPROC_PREEMPT, XPROC_YIELD} \<and>
        (\<exists>s1. running B sp a s1 \<and> kept s s1 \<and> xproc_leave_asm st s1 = (st, s'))
    | Some (Inr msg, s') \<Rightarrow> \<exists>ev \<in> set evs. \<not> resumable ev"
    (is "?P evs s")
  using assms
proof (induction evs arbitrary: s)
  case Nil
  then show ?case by simp
next
  case (Cons ev evs)
  have step: ?case if k: "running B sp a s1" "kept s s1" and e: "run_user (ev # evs) s = run_user evs s1" and n: "\<not> leaves ev" for s1
  proof (cases "run_user evs s1")
    case None
    then show ?thesis using Cons.IH [OF k(1)] n by (simp add: e)
  next
    case (Some rs)
    obtain r s' where rs: "rs = (r, s')" by fastforce
    show ?thesis
    proof (cases r)
      case (Inl st)
      then show ?thesis using Cons.IH [OF k(1)] kept_trans [OF k(2)] Some rs unfolding e by (simp only: option.case sum.case prod.case) blast
    next
      case (Inr m)
      then show ?thesis using Cons.IH [OF k(1)] Some rs by (simp add: e)
    qed
  qed
  show ?case
  proof (cases ev)
    case (Store v b)
    show ?thesis
    proof (cases "mmu (xm_mem s) (xpt_read_cr3 s) v")
      case None
      show ?thesis by (rule step [OF Cons.prems proc_kept(4)]) (simp_all add: Store None)
    next
      case (Some ac)
      let ?s = "if ac_user ac \<and> ac_write ac then s\<lparr>xm_mem := (xm_mem s)(ac_phys ac := b)\<rparr> else s"
      have "kept s s" by (rule proc_kept(4))
      then have k: "running B sp a ?s" "kept s ?s" using store_running [OF Cons.prems Some] Cons.prems by simp_all
      show ?thesis by (rule step [OF k]) (simp_all add: Store Some)
    qed
  next
    case (Trap f cr2)
    obtain out s1 where t: "trap (f\<lparr>f_cs := 0x23\<rparr>) cr2 s = (out, s1)" by fastforce
    have inv: "pt_inv B sp s" "pr_as s = Some a" "as_live a \<longrightarrow> sp (as_pml4_phys a) = Some (as_owner_id a)"
      "f_cs (f\<lparr>f_cs := 0x23\<rparr>) AND 3 = 3" "pr_hooks s" "pr_res s \<noteq> None" using Cons.prems by (simp_all add: running_def)
    note ts = trap_spec [OF inv(1-3) t inv(4-6)]
    have r1: "running B sp a s1" by (rule running_kept [OF Cons.prems ts(1,2)])
    show ?thesis
    proof (cases out)
      case (Return g)
      have "\<not> leaves ev" using leaving_trap [OF Cons.prems, of f cr2] t Return Trap by auto
      then show ?thesis by (intro step [OF r1 ts(2)]) (simp_all add: Trap t Return settle_def)
    next
      case (Leave st)
      have "run_user (ev # evs) s = Some (Inl st, snd (xproc_leave_asm st s1))"
        by (simp add: Trap t Leave settle_def Let_def xproc_leave_asm_def)
      then show ?thesis using ts(4) [OF Leave] r1 ts(2) by (auto simp: xproc_leave_asm_def Let_def)
    next
      case (Halted m)
      then show ?thesis using ts(3) by (simp add: Trap t settle_def)
    qed
  qed
qed

lemma write_cr3_core: "core (write_cr3 v s) = core s" "xpt_read_cr3 (write_cr3 v s) = v"
  by (simp_all add: core_def write_cr3_def cpu_update_def xpt_read_cr3_def)

text \<open>The words of the kernel's stack that entering a program writes, below the stack pointer.\<close>

definition scratch_words :: "u64 \<Rightarrow> u64 set" where
  "scratch_words rsp = {rsp - 8, rsp - 16, rsp - 24, rsp - 32, rsp - 40, rsp - 48, rsp - 56, rsp - 64, rsp - 72, rsp - 80, rsp - 88, rsp - 96, rsp - 104}"

lemma enter_spec:
  assumes "xproc_enter_asm cr3 c s = (f, s')"
  shows "core s' = core s" "xpt_read_cr3 s' = cr3" "pr_as s' = pr_as s" "pr_res s' = pr_res s" "pr_ctx s' = pr_ctx s" "pr_kernel_cr3 s' = pr_kernel_cr3 s"
    "pr_hooks s' = pr_hooks s" "pr_resume_rsp s' = pr_rsp s - 64" "x \<notin> scratch_words (pr_rsp s) \<Longrightarrow> pr_stack s' x = pr_stack s x" "f = enter_frame c"
    "map (\<lambda>n. pr_stack s' (pr_rsp s - 64 + 8 * n)) [0, 1, 2, 3, 4, 5, 6, 7] =
      [k_r15 (pr_kregs s), k_r14 (pr_kregs s), k_r13 (pr_kregs s), k_r12 (pr_kregs s), k_rsi (pr_kregs s), k_rdi (pr_kregs s), k_rbp (pr_kregs s), k_rbx (pr_kregs s)]"
proof -
  let ?k = "pr_kregs s" and ?r = "pr_rsp s"
  have e: "s' = s\<lparr>pt_cpu := (pt_cpu s)\<lparr>cpu_cr3 := cr3\<rparr>, pr_kregs := pr_kregs s', pr_rsp := pr_rsp s', pr_stack := pr_stack s', pr_resume_rsp := ?r - 64\<rparr>"
    and f: "f = enter_frame c"
    and st: "pr_stack s' = (pr_stack s)(?r - 8 := k_rbx ?k, ?r - 16 := k_rbp ?k, ?r - 24 := k_rdi ?k, ?r - 32 := k_rsi ?k, ?r - 40 := k_r12 ?k,
      ?r - 48 := k_r13 ?k, ?r - 56 := k_r14 ?k, ?r - 64 := k_r15 ?k, ?r - 72 := 0x1B, ?r - 80 := c_rsp c, ?r - 88 := c_rflags c, ?r - 96 := 0x23, ?r - 104 := c_rip c)"
    using assms by (simp_all add: xproc_enter_asm_def Let_def push_def write_cr3_def cpu_update_def) auto
  show "core s' = core s" "xpt_read_cr3 s' = cr3" "pr_as s' = pr_as s" "pr_res s' = pr_res s" "pr_ctx s' = pr_ctx s" "pr_kernel_cr3 s' = pr_kernel_cr3 s"
    "pr_hooks s' = pr_hooks s" "pr_resume_rsp s' = ?r - 64" by (subst e, simp add: core_def xpt_read_cr3_def)+
  show "f = enter_frame c" by (rule f)
  show "pr_stack s' x = pr_stack s x" if "x \<notin> scratch_words ?r" using that by (simp add: st scratch_words_def)
  have w: "?r - 64 + 8 * 0 = ?r - 64" "?r - 64 + 8 * 1 = ?r - 56" "?r - 64 + 8 * 2 = ?r - 48" "?r - 64 + 8 * 3 = ?r - 40" "?r - 64 + 8 * 4 = ?r - 32"
    "?r - 64 + 8 * 5 = ?r - 24" "?r - 64 + 8 * 6 = ?r - 16" "?r - 64 + 8 * 7 = ?r - 8" by simp_all
  show "map (\<lambda>n. pr_stack s' (?r - 64 + 8 * n)) [0, 1, 2, 3, 4, 5, 6, 7] = [k_r15 ?k, k_r14 ?k, k_r13 ?k, k_r12 ?k, k_rsi ?k, k_rdi ?k, k_rbp ?k, k_rbx ?k]"
    by (simp only: list.map w) (simp add: st)
qed

lemma leave_spec:
  assumes "xproc_leave_asm st s = (st, s')"
    and "map (\<lambda>n. pr_stack s (pr_resume_rsp s + 8 * n)) [0, 1, 2, 3, 4, 5, 6, 7] = [k_r15 k, k_r14 k, k_r13 k, k_r12 k, k_rsi k, k_rdi k, k_rbp k, k_rbx k]"
  shows "core s' = core s" "xpt_read_cr3 s' = pr_kernel_cr3 s" "pr_kregs s' = k" "pr_rsp s' = pr_resume_rsp s + 64" "pr_stack s' = pr_stack s" "pr_hooks s' = pr_hooks s"
proof -
  have e: "s' = (write_cr3 (pr_kernel_cr3 s) s)\<lparr>pr_kregs := k, pr_rsp := pr_resume_rsp s + 64\<rparr>"
    using assms by (cases k) (simp add: xproc_leave_asm_def Let_def write_cr3_def cpu_update_def)
  show "core s' = core s" by (simp add: e core_def write_cr3_def cpu_update_def)
  show "xpt_read_cr3 s' = pr_kernel_cr3 s" by (simp add: e xpt_read_cr3_def write_cr3_def cpu_update_def)
  show "pr_kregs s' = k" "pr_rsp s' = pr_resume_rsp s + 64" "pr_stack s' = pr_stack s" "pr_hooks s' = pr_hooks s" by (simp_all add: e write_cr3_def cpu_update_def)
qed

text \<open>The state in which a program starts.\<close>

lemma prepare_spec:
  assumes "run_prepare a ctx pending s = (ctx', s')"
  shows "core s' = core s" "pr_as s' = Some a" "pr_res s' \<noteq> None" "pr_kernel_cr3 s' = pt_pml4_phys s" "pr_kregs s' = pr_kregs s"
    "pr_stack s' = pr_stack s" "pr_rsp s' = pr_rsp s" "pr_hooks s' = pr_hooks s" "pr_ctx s' \<noteq> None"
    "ctx' = ctx\<lparr>c_rflags := (c_rflags ctx AND RFLAGS_USER_KEEP) OR 0x2 OR (if pr_quantum_ticks s \<noteq> 0 then RFLAGS_IF else 0)\<rparr>"
proof -
  let ?s = "s\<lparr>pr_res := Some clear_result, pr_ctx := Some ctx', pr_as := Some a, pr_kernel_cr3 := pt_pml4_phys s\<rparr>"
  note d = assms [unfolded run_prepare_def Let_def]
  show c: "ctx' = ctx\<lparr>c_rflags := (c_rflags ctx AND RFLAGS_USER_KEEP) OR 0x2 OR (if pr_quantum_ticks s \<noteq> 0 then RFLAGS_IF else 0)\<rparr>"
    using d by auto
  have c0: "core ?s = core s" by (simp add: core_def)
  have s': "s' = ?s \<or> (\<exists>t x. s' = lapic_timer_arm t x \<and> (x = lapic_timer_stop ?s \<or> x = lapic_eoi (lapic_timer_stop ?s)))"
    using d c by (auto split: if_splits)
  have lk: "pr_kregs (lapic_timer_arm t x) = pr_kregs x" "pr_kregs (lapic_timer_stop x) = pr_kregs x" "pr_kregs (lapic_eoi x) = pr_kregs x" for t and x :: "'a Proc_scheme"
    by (simp_all add: lapic_timer_arm_def lapic_timer_stop_def lapic_eoi_def lwrite_def wrmsr_def cpu_update_def)
  have k0: "pr_kregs ?s = pr_kregs s" by simp
  from s' have "core s' = core s \<and> kept ?s s' \<and> pr_kregs s' = pr_kregs s"
  proof (elim disjE exE conjE)
    assume "s' = ?s"
    then show ?thesis using c0 k0 proc_kept(4) by (simp only: simp_thms)
  next
    fix t x assume e: "s' = lapic_timer_arm t x" "x = lapic_timer_stop ?s"
    then show ?thesis using kept_trans [OF lapic_kept(3) lapic_kept(4)] by (simp only: lapic_eoi_core c0 lk k0 simp_thms)
  next
    fix t x assume e: "s' = lapic_timer_arm t x" "x = lapic_eoi (lapic_timer_stop ?s)"
    then show ?thesis using kept_trans [OF kept_trans [OF lapic_kept(3) lapic_kept(2)] lapic_kept(4)] by (simp only: lapic_eoi_core c0 lk k0 simp_thms)
  qed
  then show "core s' = core s" "pr_as s' = Some a" "pr_res s' \<noteq> None" "pr_kernel_cr3 s' = pt_pml4_phys s" "pr_kregs s' = pr_kregs s"
    "pr_stack s' = pr_stack s" "pr_rsp s' = pr_rsp s" "pr_hooks s' = pr_hooks s" "pr_ctx s' \<noteq> None" by (auto simp: kept_def)
qed

text \<open>A run as a whole: it goes on only while the program has not left, and a run that returns leaves the kernel as it was.\<close>

definition restored :: "'a Proc_scheme \<Rightarrow> 'a Proc_scheme \<Rightarrow> bool" where
  "restored s s' \<longleftrightarrow> pr_kregs s' = pr_kregs s \<and> pr_rsp s' = pr_rsp s \<and> (\<forall>x. x \<notin> scratch_words (pr_rsp s) \<longrightarrow> pr_stack s' x = pr_stack s x) \<and>
     xpt_read_cr3 s' = pt_pml4_phys s \<and> pr_res s' = None \<and> pr_ctx s' = None \<and> pr_as s' = None"

lemma run_ctx_stages:
  assumes inv: "pt_inv B sp s" and a: "as_live a" "sp (as_pml4_phys a) = Some (as_owner_id a)" and h: "pr_hooks s"
  obtains f s2 where "running B sp a s2" "f_rip f = c_rip ctx" "pr_kernel_cr3 s2 = pt_pml4_phys s" "pr_resume_rsp s2 = pr_rsp s - 64"
    "\<forall>x. x \<notin> scratch_words (pr_rsp s) \<longrightarrow> pr_stack s2 x = pr_stack s x"
    "map (\<lambda>n. pr_stack s2 (pr_resume_rsp s2 + 8 * n)) [0, 1, 2, 3, 4, 5, 6, 7] =
      [k_r15 (pr_kregs s), k_r14 (pr_kregs s), k_r13 (pr_kregs s), k_r12 (pr_kregs s), k_rsi (pr_kregs s), k_rdi (pr_kregs s), k_rbp (pr_kregs s), k_rbx (pr_kregs s)]"
    "\<forall>evs. xproc_run_ctx (Some a) (Some ctx) (Some res) pending evs s =
      (case settle (run_user evs) (enter_iretq f s2) of
         None \<Rightarrow> None
       | Some (Inr msg, s) \<Rightarrow> Some (Inr msg, pr_ctx s, pr_res s, s)
       | Some (Inl r, s3) \<Rightarrow>
           (let s = (if pr_quantum_ticks s \<noteq> 0 then lapic_timer_stop s3 else s3)
            in Some (Inl (uint r), pr_ctx s, pr_res s, s\<lparr>pr_res := None, pr_ctx := None, pr_as := None\<rparr>)))"
proof -
  obtain c1 s1 where p: "run_prepare a ctx pending s = (c1, s1)" by fastforce
  note ps = prepare_spec [OF p]
  obtain f s2 where e: "xproc_enter_asm (as_pml4_phys a) c1 s1 = (f, s2)" by fastforce
  note es = enter_spec [OF e]
  have "core s2 = core s" by (simp only: es(1) ps(1))
  then have "pt_inv B sp s2" using inv by (simp only: pt_inv_core(1) [of s2 s])
  then have rn: "running B sp a s2" unfolding running_def es(2-5) es(7) ps(8) using a(2) h ps(2,3,9) by simp
  have rip: "f_rip f = c_rip ctx" by (simp add: es(10) enter_frame_def ps(10))
  have st: "pr_stack s2 x = pr_stack s x" if "x \<notin> scratch_words (pr_rsp s)" for x using es(9) [of x] that by (simp add: ps(6,7))
  show ?thesis
    by (rule that [OF rn rip _ _ _ es(11) [folded es(8), unfolded ps(5)]])
      (use st a(1) in \<open>simp_all add: es(6,8) ps(4,7) xproc_run_ctx_def p e\<close>)
qed

lemma run_ctx_spec:
  assumes inv: "pt_inv B sp s" and a: "as_live a" "sp (as_pml4_phys a) = Some (as_owner_id a)" and h: "pr_hooks s"
  shows "case xproc_run_ctx (Some a) (Some ctx) (Some res) pending evs s of
      None \<Rightarrow> \<forall>ev \<in> set evs. \<not> leaves ev
    | Some (Inl r, ctx', res', s') \<Rightarrow> (\<exists>st \<in> {XPROC_EXIT, XPROC_FAULT, XPROC_PREEMPT, XPROC_YIELD}. r = uint st) \<and>
        pt_inv B sp s' \<and> restored s s' \<and> pr_hooks s'
    | Some (Inr msg, _) \<Rightarrow> \<not> canonical (c_rip ctx) \<or> (\<exists>ev \<in> set evs. \<not> resumable ev)"
proof (rule run_ctx_stages [OF assms, of ctx res pending], goal_cases)
  case (1 f s2)
  show ?case
  proof (cases "canonical (c_rip ctx)")
    case False
    obtain m where "handle (iretq_fault (pr_enter_iretq s2) (pr_rsp s2) (pr_rflags s2) 0x10 f) 0 s2 = (Halted m, s2)" using iretq_halts by blast
    then have "enter_iretq f s2 = (Halted m, s2)" using False 1(2) by (simp add: enter_iretq_def)
    then show ?thesis using False by (simp add: 1(7) settle_def)
  next
    case True
    then have en: "settle (run_user evs) (enter_iretq f s2) = run_user evs s2" using 1(2) by (simp add: enter_iretq_def settle_def)
    note ru = run_user_spec [OF 1(1), of evs]
    show ?thesis
    proof (cases "run_user evs s2")
      case None
      then show ?thesis using ru by (simp add: 1(7) en)
    next
      case (Some rs)
      obtain r s3 where rs: "rs = (r, s3)" by fastforce
      show ?thesis
      proof (cases r)
        case (Inr m)
        then show ?thesis using ru Some rs by (simp add: 1(7) en)
      next
        case (Inl st)
        then obtain s4 where u: "st \<in> {XPROC_EXIT, XPROC_FAULT, XPROC_PREEMPT, XPROC_YIELD}" "running B sp a s4" "kept s2 s4" "xproc_leave_asm st s4 = (st, s3)"
          using ru Some rs by (simp only: option.case sum.case prod.case) blast
        have k: "pr_stack s4 = pr_stack s2" "pr_resume_rsp s4 = pr_resume_rsp s2" "pr_kernel_cr3 s4 = pr_kernel_cr3 s2" using u(3) by (simp_all add: kept_def)
        note lv = leave_spec [OF u(4), unfolded k, OF 1(6)]
        define s5 where "s5 = (if pr_quantum_ticks s \<noteq> 0 then lapic_timer_stop s3 else s3)"
        define s' where "s' = s5\<lparr>pr_res := None, pr_ctx := None, pr_as := None\<rparr>"
        have c5: "core s5 = core s3" "kept s3 s5" "pr_kregs s5 = pr_kregs s3"
          using proc_kept(4) [of s3] by (simp_all add: s5_def lapic_eoi_core(2) lapic_kept(3)) (simp add: lapic_timer_stop_def lwrite_def wrmsr_def cpu_update_def)
        have "core s' = core s5" by (simp add: s'_def core_def)
        then have "core s' = core s4" by (simp only: c5(1) lv(1))
        then have "pt_inv B sp s'" using u(2) pt_inv_core(1) [of s' s4] by (simp only: running_def)
        moreover have "restored s s'" using c5(2,3) lv(2-5) 1(3-5) by (simp add: restored_def s'_def kept_def xpt_read_cr3_def)
        moreover have "pr_hooks s'" using c5(2) lv(6) u(2) by (simp add: s'_def kept_def running_def)
        ultimately show ?thesis using u(1) by (auto simp: 1(7) en Some rs Inl s5_def [symmetric] s'_def [symmetric])
      qed
    qed
  qed
qed

end
