(* ===== verification/Exb.thy ===== *)
theory Exb
  imports Xasmos_Prelude
begin

text \<open>
  The validator of executable images, \<open>source/core/exb/exb.c\<close>. A file is a list of bytes; the pointer
  may be null, and the length is passed beside it as in the code. The arrays \<open>v0\<close>, \<open>v1\<close>, \<open>d0\<close> and
  \<open>d1\<close> of the segment loop are one list of quadruples. A \<open>return\<close> is a pair of the status and \<open>*out\<close>.
\<close>

section \<open>Data\<close>

record ExbSeg =
  es_vaddr :: u64
  es_mem_size :: u64
  es_pages :: u64
  es_file_off :: u32
  es_file_size :: u32
  es_flags :: u32

record ExbInfo =
  ei_entry :: u64
  ei_seg_count :: u32
  ei_seg :: "ExbSeg list"
  ei_image_pages :: u64
  ei_stack_bytes :: u32
  ei_heap_frames :: u64
  ei_extra_tokens :: u32

abbreviation EXB_VERSION :: u8 where "EXB_VERSION \<equiv> 1"
abbreviation EXB_ENDIAN_LITTLE :: u8 where "EXB_ENDIAN_LITTLE \<equiv> 1"
abbreviation EXB_HEADER_SIZE :: u64 where "EXB_HEADER_SIZE \<equiv> 64"
abbreviation EXB_SEG_SIZE :: u64 where "EXB_SEG_SIZE \<equiv> 32"
abbreviation EXB_CAP_SIZE :: u64 where "EXB_CAP_SIZE \<equiv> 16"
abbreviation EXB_TARGET_AMD64 :: u32 where "EXB_TARGET_AMD64 \<equiv> 1"
abbreviation EXB_KIND_USER :: u8 where "EXB_KIND_USER \<equiv> 0"
abbreviation EXB_SEG_R :: u32 where "EXB_SEG_R \<equiv> 1"
abbreviation EXB_SEG_W :: u32 where "EXB_SEG_W \<equiv> 2"
abbreviation EXB_SEG_X :: u32 where "EXB_SEG_X \<equiv> 4"
abbreviation EXB_CAP_STACK :: u32 where "EXB_CAP_STACK \<equiv> 1"
abbreviation EXB_CAP_HEAP_FRAMES :: u32 where "EXB_CAP_HEAP_FRAMES \<equiv> 2"
abbreviation EXB_CAP_TOKENS :: u32 where "EXB_CAP_TOKENS \<equiv> 3"
abbreviation EXB_CAP_OPTIONAL :: u32 where "EXB_CAP_OPTIONAL \<equiv> 0x80000000"
abbreviation EXB_PAGE :: u64 where "EXB_PAGE \<equiv> 4096"
abbreviation EXB_MAX_FILE :: u64 where "EXB_MAX_FILE \<equiv> 16777216"
abbreviation EXB_MAX_SEGS :: nat where "EXB_MAX_SEGS \<equiv> 8"
abbreviation EXB_MAX_CAPS :: u64 where "EXB_MAX_CAPS \<equiv> 8"
abbreviation EXB_MAX_IMAGE_PAGES :: u64 where "EXB_MAX_IMAGE_PAGES \<equiv> 4096"
abbreviation EXB_MAX_IMAGE_BYTES :: u64 where "EXB_MAX_IMAGE_BYTES \<equiv> 16777216"
abbreviation EXB_DEFAULT_STACK_PAGES :: u64 where "EXB_DEFAULT_STACK_PAGES \<equiv> 4"
abbreviation EXB_MAX_STACK_PAGES :: u64 where "EXB_MAX_STACK_PAGES \<equiv> 64"
abbreviation EXB_MAX_HEAP_REQUEST :: u64 where "EXB_MAX_HEAP_REQUEST \<equiv> 0x100000"
abbreviation EXB_MAX_TOKEN_REQUEST :: u64 where "EXB_MAX_TOKEN_REQUEST \<equiv> 4096"
abbreviation EXB_VA_MIN :: u64 where "EXB_VA_MIN \<equiv> 0x0000008000000000"
abbreviation EXB_VA_LIMIT :: u64 where "EXB_VA_LIMIT \<equiv> 0x0000700000000000"
abbreviation EXB_OK :: int where "EXB_OK \<equiv> 0"
abbreviation EXB_E_SIZE :: int where "EXB_E_SIZE \<equiv> -1"
abbreviation EXB_E_MAGIC :: int where "EXB_E_MAGIC \<equiv> -2"
abbreviation EXB_E_VERSION :: int where "EXB_E_VERSION \<equiv> -3"
abbreviation EXB_E_HEADER :: int where "EXB_E_HEADER \<equiv> -4"
abbreviation EXB_E_TARGET :: int where "EXB_E_TARGET \<equiv> -5"
abbreviation EXB_E_CRC :: int where "EXB_E_CRC \<equiv> -6"
abbreviation EXB_E_SEGTAB :: int where "EXB_E_SEGTAB \<equiv> -7"
abbreviation EXB_E_SEG :: int where "EXB_E_SEG \<equiv> -8"
abbreviation EXB_E_WX :: int where "EXB_E_WX \<equiv> -9"
abbreviation EXB_E_OVERLAP :: int where "EXB_E_OVERLAP \<equiv> -10"
abbreviation EXB_E_ENTRY :: int where "EXB_E_ENTRY \<equiv> -11"
abbreviation EXB_E_CAP :: int where "EXB_E_CAP \<equiv> -12"
abbreviation EXB_E_LIMIT :: int where "EXB_E_LIMIT \<equiv> -13"
abbreviation EXB_E_KIND :: int where "EXB_E_KIND \<equiv> -14"
abbreviation EXB_E_NOMEM :: int where "EXB_E_NOMEM \<equiv> -20"
abbreviation EXB_E_LOAD :: int where "EXB_E_LOAD \<equiv> -21"

section \<open>Reading and checksum\<close>

definition le16 :: "bytes \<Rightarrow> nat \<Rightarrow> u16" where
  "le16 p off = ucast (p ! off) OR push_bit 8 (ucast (p ! (off + 1)))"

definition le32 :: "bytes \<Rightarrow> nat \<Rightarrow> u32" where
  "le32 p off = ucast (p ! off) OR push_bit 8 (ucast (p ! (off + 1))) OR push_bit 16 (ucast (p ! (off + 2))) OR push_bit 24 (ucast (p ! (off + 3)))"

definition le64 :: "bytes \<Rightarrow> nat \<Rightarrow> u64" where
  "le64 p off = ucast (le32 p off) OR push_bit 32 (ucast (le32 p (off + 4)))"

definition crc_tab :: "u32 list" where
  "crc_tab = [0x00000000, 0x1DB71064, 0x3B6E20C8, 0x26D930AC, 0x76DC4190, 0x6B6B51F4, 0x4DB26158, 0x5005713C,
     0xEDB88320, 0xF00F9344, 0xD6D6A3E8, 0xCB61B38C, 0x9B64C2B0, 0x86D3D2D4, 0xA00AE278, 0xBDBDF21C]"

definition crc_nibble :: "u32 \<Rightarrow> u32" where
  "crc_nibble crc = drop_bit 4 crc XOR crc_tab ! unat (crc AND 15)"

definition crc_byte :: "u8 \<Rightarrow> u32 \<Rightarrow> u32" where
  "crc_byte b crc = crc_nibble (crc_nibble (crc XOR ucast b))"

definition exb_crc32_image :: "bytes \<Rightarrow> nat \<Rightarrow> u32" where
  "exb_crc32_image img fsize =
     NOT (fold (\<lambda>i crc. crc_byte (if 28 \<le> i \<and> i < 32 then 0 else img ! i) crc) [0..<fsize] 0xFFFFFFFF)"

definition overlap :: "u64 \<Rightarrow> u64 \<Rightarrow> u64 \<Rightarrow> u64 \<Rightarrow> bool" where
  "overlap a0 a1 b0 b1 \<longleftrightarrow> a0 < b1 \<and> b0 < a1"

definition zero_out :: ExbInfo where
  "zero_out = \<lparr>ei_entry = 0, ei_seg_count = 0,
     ei_seg = replicate EXB_MAX_SEGS \<lparr>es_vaddr = 0, es_mem_size = 0, es_pages = 0, es_file_off = 0, es_file_size = 0, es_flags = 0\<rparr>,
     ei_image_pages = 0, ei_stack_bytes = 0, ei_heap_frames = 0, ei_extra_tokens = 0\<rparr>"

section \<open>The parser\<close>

text \<open>The fields of segment entry \<open>i\<close>, and the checks of the loop body up to the page count; 0 means
  that none failed.\<close>

definition seg_fields :: "bytes \<Rightarrow> u64 \<Rightarrow> nat \<Rightarrow> u64 \<times> u64 \<times> u64 \<times> u64 \<times> u32" where
  "seg_fields img seg_off i =
     (let p = unat seg_off + i * unat EXB_SEG_SIZE
      in (le64 img p, le64 img (p + 8), ucast (le32 img (p + 16)), ucast (le32 img (p + 20)), le32 img (p + 24)))"

definition seg_pages :: "u64 \<Rightarrow> u64" where
  "seg_pages mem = (mem + EXB_PAGE - 1) div EXB_PAGE"

definition seg_check :: "bytes \<Rightarrow> u64 \<Rightarrow> u64 \<Rightarrow> u64 \<Rightarrow> u64 \<Rightarrow> u64 \<Rightarrow> u64 \<Rightarrow> nat \<Rightarrow> int" where
  "seg_check img fsize seg_off seg_end cap_cnt cap_off cap_end i =
     (let (vaddr, mem, foff, fsz, fl) = seg_fields img seg_off i in
      if le32 img (unat seg_off + i * unat EXB_SEG_SIZE + 28) \<noteq> 0 then EXB_E_SEG
      else if fl AND NOT (EXB_SEG_R OR EXB_SEG_W OR EXB_SEG_X) \<noteq> 0 then EXB_E_SEG
      else if fl AND EXB_SEG_R = 0 then EXB_E_SEG
      else if fl AND EXB_SEG_W \<noteq> 0 \<and> fl AND EXB_SEG_X \<noteq> 0 then EXB_E_WX
      else if vaddr AND (EXB_PAGE - 1) \<noteq> 0 then EXB_E_SEG
      else if vaddr < EXB_VA_MIN \<or> vaddr \<ge> EXB_VA_LIMIT then EXB_E_SEG
      else if mem = 0 \<or> mem > EXB_MAX_IMAGE_BYTES then EXB_E_SEG
      else if vaddr + seg_pages mem * EXB_PAGE > EXB_VA_LIMIT then EXB_E_SEG
      else if fsz > mem then EXB_E_SEG
      else if fsz = 0 then (if foff \<noteq> 0 then EXB_E_SEG else 0)
      else if foff < EXB_HEADER_SIZE then EXB_E_SEG
      else if foff + fsz > fsize then EXB_E_SEG
      else if overlap foff (foff + fsz) seg_off seg_end then EXB_E_OVERLAP
      else if cap_cnt \<noteq> 0 \<and> overlap foff (foff + fsz) cap_off cap_end then EXB_E_OVERLAP
      else 0)"

fun seg_loop :: "bytes \<Rightarrow> u64 \<Rightarrow> u64 \<Rightarrow> u64 \<Rightarrow> u64 \<Rightarrow> u64 \<Rightarrow> u64 \<Rightarrow> nat list \<Rightarrow> (u64 \<times> u64 \<times> u64 \<times> u64) list \<Rightarrow> u64 \<Rightarrow> ExbInfo \<Rightarrow>
    int \<times> u64 \<times> ExbInfo" where
  "seg_loop img fsize seg_off seg_end cap_cnt cap_off cap_end [] prev tot out = (0, tot, out)"
| "seg_loop img fsize seg_off seg_end cap_cnt cap_off cap_end (i # is) prev tot out =
     (let (vaddr, mem, foff, fsz, fl) = seg_fields img seg_off i;
          rc = seg_check img fsize seg_off seg_end cap_cnt cap_off cap_end i;
          pages = seg_pages mem; vend = vaddr + pages * EXB_PAGE
      in if rc \<noteq> 0 then (rc, tot, out)
         else if tot + pages > EXB_MAX_IMAGE_PAGES then (EXB_E_LIMIT, tot + pages, out)
         else if list_ex (\<lambda>(a, b, c, d). overlap vaddr vend a b \<or> fsz \<noteq> 0 \<and> d > c \<and> overlap foff (foff + fsz) c d) prev
         then (EXB_E_OVERLAP, tot + pages, out)
         else seg_loop img fsize seg_off seg_end cap_cnt cap_off cap_end is (prev @ [(vaddr, vend, foff, foff + fsz)]) (tot + pages)
                (out\<lparr>ei_seg := (ei_seg out)[i := \<lparr>es_vaddr = vaddr, es_mem_size = mem, es_pages = pages,
                   es_file_off = ucast foff, es_file_size = ucast fsz, es_flags = fl\<rparr>]\<rparr>))"

definition entry_in :: "u64 \<Rightarrow> ExbSeg \<Rightarrow> bool" where
  "entry_in entry s \<longleftrightarrow> es_flags s AND EXB_SEG_X \<noteq> 0 \<and> entry \<ge> es_vaddr s \<and> entry - es_vaddr s < ucast (es_file_size s)"

text \<open>One capability entry: the new output and the kinds seen, or nothing where the code goes to
  \<open>cap_fail\<close> or returns \<open>EXB_E_CAP\<close>.\<close>

definition cap_step :: "bytes \<Rightarrow> u64 \<Rightarrow> nat \<Rightarrow> ExbInfo \<times> u32 \<Rightarrow> (ExbInfo \<times> u32) option" where
  "cap_step img cap_off i = (\<lambda>(out, seen).
     (let p = unat cap_off + i * unat EXB_CAP_SIZE; kind = le32 img p; value = le64 img (p + 8); base = kind AND NOT EXB_CAP_OPTIONAL in
      if le32 img (p + 4) \<noteq> 0 then None
      else if base = 0 then None
      else if base = EXB_CAP_STACK
      then (if seen AND 1 \<noteq> 0 then None
            else if value mod EXB_PAGE \<noteq> 0 \<or> value < EXB_PAGE \<or> value > EXB_MAX_STACK_PAGES * EXB_PAGE then None
            else Some (out\<lparr>ei_stack_bytes := ucast value\<rparr>, seen OR 1))
      else if base = EXB_CAP_HEAP_FRAMES
      then (if seen AND 2 \<noteq> 0 then None
            else if value > EXB_MAX_HEAP_REQUEST then None
            else Some (out\<lparr>ei_heap_frames := value\<rparr>, seen OR 2))
      else if base = EXB_CAP_TOKENS
      then (if seen AND 4 \<noteq> 0 then None
            else if value > EXB_MAX_TOKEN_REQUEST then None
            else Some (out\<lparr>ei_extra_tokens := ucast value\<rparr>, seen OR 4))
      else if kind AND EXB_CAP_OPTIONAL = 0 then None else Some (out, seen)))"

fun cap_loop :: "bytes \<Rightarrow> u64 \<Rightarrow> nat list \<Rightarrow> ExbInfo \<times> u32 \<Rightarrow> int \<times> ExbInfo" where
  "cap_loop img cap_off [] os = (EXB_OK, fst os)"
| "cap_loop img cap_off (i # is) os =
     (case cap_step img cap_off i os of None \<Rightarrow> (EXB_E_CAP, zero_out) | Some os \<Rightarrow> cap_loop img cap_off is os)"

definition parse_impl :: "bytes option \<Rightarrow> u64 \<Rightarrow> ExbInfo \<Rightarrow> int \<times> ExbInfo" where
  "parse_impl imgp fsize out =
     (if imgp = None \<or> fsize < EXB_HEADER_SIZE \<or> fsize > EXB_MAX_FILE then (EXB_E_SIZE, out)
      else (let img = the imgp in
        if img ! 0 \<noteq> 0x7F \<or> img ! 1 \<noteq> 0x45 \<or> img ! 2 \<noteq> 0x58 \<or> img ! 3 \<noteq> 0x42 then (EXB_E_MAGIC, out)
        else if img ! 4 \<noteq> EXB_VERSION \<or> img ! 5 \<noteq> EXB_ENDIAN_LITTLE then (EXB_E_VERSION, out)
        else if le16 img 6 \<noteq> 64 then (EXB_E_HEADER, out)
        else if le32 img 8 \<noteq> 0 then (EXB_E_HEADER, out)
        else if list_ex (\<lambda>i. img ! i \<noteq> 0) [49..<64] then (EXB_E_HEADER, out)
        else if img ! 48 \<noteq> EXB_KIND_USER then (EXB_E_KIND, out)
        else if le32 img 12 \<noteq> EXB_TARGET_AMD64 then (EXB_E_TARGET, out)
        else if ucast (le32 img 24) \<noteq> fsize then (EXB_E_SIZE, out)
        else if le32 img 28 \<noteq> exb_crc32_image img (unat fsize) then (EXB_E_CRC, out)
        else (let entry = le64 img 16; seg_off = ucast (le32 img 32); seg_cnt = ucast (le32 img 36);
                  cap_off = ucast (le32 img 40); cap_cnt = ucast (le32 img 44) in
          if seg_cnt < 1 \<or> seg_cnt > of_nat EXB_MAX_SEGS then (EXB_E_SEGTAB, out)
          else (let seg_end = seg_off + seg_cnt * EXB_SEG_SIZE in
            if seg_off < EXB_HEADER_SIZE \<or> seg_end > fsize then (EXB_E_SEGTAB, out)
            else if cap_cnt > EXB_MAX_CAPS then (EXB_E_CAP, out)
            else (let cap_end = (if cap_cnt = 0 then cap_off else cap_off + cap_cnt * EXB_CAP_SIZE) in
              if cap_cnt = 0 \<and> cap_off \<noteq> 0 then (EXB_E_CAP, out)
              else if cap_cnt \<noteq> 0 \<and> (cap_off < EXB_HEADER_SIZE \<or> cap_end > fsize) then (EXB_E_CAP, out)
              else if cap_cnt \<noteq> 0 \<and> overlap seg_off seg_end cap_off cap_end then (EXB_E_OVERLAP, out)
              else (case seg_loop img fsize seg_off seg_end cap_cnt cap_off cap_end [0..<unat seg_cnt] [] 0 out of (rc, tot, out) \<Rightarrow>
                if rc \<noteq> 0 then (rc, out)
                else (let out = out\<lparr>ei_seg_count := ucast seg_cnt, ei_image_pages := tot\<rparr> in
                  if \<not> list_ex (\<lambda>i. entry_in entry (ei_seg out ! i)) [0..<unat seg_cnt] then (EXB_E_ENTRY, zero_out)
                  else cap_loop img cap_off [0..<unat cap_cnt]
                         (out\<lparr>ei_entry := entry, ei_stack_bytes := ucast (EXB_DEFAULT_STACK_PAGES * EXB_PAGE)\<rparr>, 0))))))))"

definition exb_parse :: "bytes option \<Rightarrow> u64 \<Rightarrow> ExbInfo \<Rightarrow> int \<times> ExbInfo" where
  "exb_parse imgp fsize out =
     (case parse_impl imgp fsize out of (rc, out) \<Rightarrow> (rc, if rc \<noteq> EXB_OK then zero_out else out))"

end
