(* ===== verification/Exb_Props.thy ===== *)
theory Exb_Props
  imports Exb
begin

text \<open>
  Correctness of the validator. The table-driven checksum is the bitwise CRC-32 of the file with the
  checksum field zeroed, and it detects every change of one byte. An accepted file describes segments
  that lie inside the file and the user range, do not overlap and are never writable and executable.
\<close>

section \<open>Checksum\<close>

text \<open>The reference: one bit of the reflected polynomial 0x04C11DB7 at a time.\<close>

definition crc_bit :: "u32 \<Rightarrow> u32" where
  "crc_bit c = drop_bit 1 c XOR (if bit c 0 then 0xEDB88320 else 0)"

definition crc32_ref :: "bytes \<Rightarrow> u32" where
  "crc32_ref bs = NOT (fold (\<lambda>b c. (crc_bit ^^ 8) (c XOR ucast b)) bs 0xFFFFFFFF)"

lemma crc_bit_xor: "crc_bit (a XOR b) = crc_bit a XOR crc_bit b"
  unfolding crc_bit_def by (rule bit_word_eqI) (auto simp: bit_simps)

lemma crc_bit_even: "\<not> bit c 0 \<Longrightarrow> crc_bit c = drop_bit 1 c"
  by (simp add: crc_bit_def)

lemma crc_bit4_high: "crc_bit (crc_bit (crc_bit (crc_bit (c AND NOT 15)))) = drop_bit 4 c"
proof -
  define h where "h = c AND NOT (mask 4)"
  have m: "c AND NOT 15 = h" by (simp add: h_def mask_eq_exp_minus_1)
  have b: "\<not> bit h n" if "n < 4" for n unfolding h_def using that by (simp add: bit_simps)
  have "crc_bit h = drop_bit 1 h" by (rule crc_bit_even) (simp add: b)
  moreover have "crc_bit (drop_bit 1 h) = drop_bit 2 h"
    by (subst crc_bit_even) (use b [of 1] in \<open>simp_all add: bit_drop_bit_eq eval_nat_numeral\<close>)
  moreover have "crc_bit (drop_bit 2 h) = drop_bit 3 h"
    by (subst crc_bit_even) (use b [of 2] in \<open>simp_all add: bit_drop_bit_eq eval_nat_numeral\<close>)
  moreover have "crc_bit (drop_bit 3 h) = drop_bit 4 h"
    by (subst crc_bit_even) (use b [of 3] in \<open>simp_all add: bit_drop_bit_eq eval_nat_numeral\<close>)
  moreover have "drop_bit 4 h = drop_bit 4 c" unfolding h_def by (rule bit_word_eqI) (auto simp: bit_simps dest: bit_imp_le_length)
  ultimately show ?thesis unfolding m by simp
qed

lemma crc_tab_bits: "list_all (\<lambda>n. crc_tab ! n = crc_bit (crc_bit (crc_bit (crc_bit (of_nat n))))) [0..<16]"
  by code_simp

lemma crc_nibble_bits: "crc_nibble c = crc_bit (crc_bit (crc_bit (crc_bit c)))"
proof -
  have "unat (c AND 15) < 16"
  proof -
    have "c AND 15 = take_bit 4 c" by (simp add: take_bit_eq_mask mask_eq_exp_minus_1)
    then show ?thesis by (simp add: take_bit_eq_mod unat_mod)
  qed
  then have "crc_tab ! unat (c AND 15) = crc_bit (crc_bit (crc_bit (crc_bit (of_nat (unat (c AND 15))))))"
    using crc_tab_bits by (auto simp: list_all_iff simp del: upt_rec_numeral of_nat_unat)
  then have t: "crc_tab ! unat (c AND 15) = crc_bit (crc_bit (crc_bit (crc_bit (c AND 15))))" by simp
  have "c = (c AND NOT 15) XOR (c AND 15)" by (rule bit_word_eqI) (auto simp: bit_simps)
  then have "crc_bit (crc_bit (crc_bit (crc_bit c))) =
      crc_bit (crc_bit (crc_bit (crc_bit (c AND NOT 15)))) XOR crc_bit (crc_bit (crc_bit (crc_bit (c AND 15))))"
    by (metis crc_bit_xor)
  then show ?thesis by (simp only: crc_nibble_def t crc_bit4_high)
qed

lemma crc_byte_bits: "crc_byte b c = (crc_bit ^^ 8) (c XOR ucast b)"
  by (simp add: crc_byte_def crc_nibble_bits numeral_eq_Suc)

text \<open>Each step of the checksum is injective, in the running value and in the byte.\<close>

lemma xor_cancel: "(a :: u32) XOR x = b XOR x \<Longrightarrow> a = b"
proof -
  assume "a XOR x = b XOR x"
  then have "(a XOR x) XOR x = (b XOR x) XOR x" by (rule arg_cong)
  then show ?thesis by (simp add: xor.assoc)
qed

lemma crc_bit_inj: "crc_bit a = crc_bit b \<Longrightarrow> a = b"
proof -
  have top: "bit (crc_bit c) 31 = bit c 0" for c by (auto simp: crc_bit_def bit_simps dest: bit_imp_le_length)
  assume e: "crc_bit a = crc_bit b"
  then have b0: "bit a 0 = bit b 0" using top by metis
  have "drop_bit 1 a = drop_bit 1 b"
    by (rule xor_cancel [of _ "if bit b 0 then 0xEDB88320 else 0"]) (use e b0 in \<open>simp add: crc_bit_def\<close>)
  then have "bit (drop_bit 1 a) n = bit (drop_bit 1 b) n" for n by simp
  then have "bit a (Suc n) = bit b (Suc n)" for n by (simp add: bit_drop_bit_eq)
  then have "bit a n = bit b n" for n using b0 by (cases n) auto
  then show "a = b" by (intro bit_word_eqI) simp
qed

lemma crc_bits_inj: "(crc_bit ^^ n) a = (crc_bit ^^ n) b \<Longrightarrow> a = b"
  by (induction n) (auto dest: crc_bit_inj)

lemma crc_byte_inj: "crc_byte x a = crc_byte x b \<Longrightarrow> a = b" "crc_byte x a = crc_byte y a \<Longrightarrow> x = y"
proof -
  assume "crc_byte x a = crc_byte x b"
  then have "a XOR ucast x = b XOR ucast x" using crc_bits_inj unfolding crc_byte_bits by blast
  then show "a = b" by (rule xor_cancel)
next
  assume "crc_byte x a = crc_byte y a"
  then have "a XOR ucast x = a XOR ucast y" using crc_bits_inj unfolding crc_byte_bits by blast
  then have "ucast x XOR a = ucast y XOR a" by (simp only: xor.commute)
  then have "(ucast x :: u32) = ucast y" by (rule xor_cancel)
  then have "unat (ucast x :: u32) = unat (ucast y :: u32)" by simp
  then show "x = y" by (simp add: unat_ucast_8_32 word_unat_eq_iff)
qed

lemma crc_fold_inj:
  "fold (\<lambda>i. crc_byte (f i)) is a = fold (\<lambda>i. crc_byte (f i)) is b \<Longrightarrow> a = b"
  by (induction "is" arbitrary: a b) (auto dest: crc_byte_inj(1))

lemma crc_change:
  assumes k: "k < n" "f k \<noteq> g k" "\<And>i. i \<noteq> k \<Longrightarrow> f i = g i"
  shows "fold (\<lambda>i. crc_byte (f i)) [0..<n] c \<noteq> fold (\<lambda>i. crc_byte (g i)) [0..<n] c"
proof
  assume e: "fold (\<lambda>i. crc_byte (f i)) [0..<n] c = fold (\<lambda>i. crc_byte (g i)) [0..<n] c"
  have s: "[0..<n] = [0..<k] @ k # [Suc k..<n]" using k(1) by (metis upt_add_eq_append upt_conv_Cons less_imp_add_positive add_0 le0)
  define a where "a = fold (\<lambda>i. crc_byte (f i)) [0..<k] c"
  have a: "fold (\<lambda>i. crc_byte (g i)) [0..<k] c = a" unfolding a_def by (rule fold_cong) (use k(3) in auto)
  have "fold (\<lambda>i. crc_byte (g i)) [Suc k..<n] x = fold (\<lambda>i. crc_byte (f i)) [Suc k..<n] x" for x by (rule fold_cong) (use k(3) in auto)
  then have "fold (\<lambda>i. crc_byte (f i)) [Suc k..<n] (crc_byte (f k) a) = fold (\<lambda>i. crc_byte (f i)) [Suc k..<n] (crc_byte (g k) a)"
    using e unfolding s by (simp add: a a_def [symmetric])
  then have "crc_byte (f k) a = crc_byte (g k) a" by (rule crc_fold_inj)
  then show False using crc_byte_inj(2) k(2) by blast
qed

section \<open>What an accepted file describes\<close>

definition seg_good :: "nat \<Rightarrow> ExbSeg \<Rightarrow> bool" where
  "seg_good fsize s \<longleftrightarrow> unat (es_vaddr s) mod 4096 = 0 \<and> unat EXB_VA_MIN \<le> unat (es_vaddr s) \<and>
     0 < unat (es_mem_size s) \<and> unat (es_pages s) = (unat (es_mem_size s) + 4095) div 4096 \<and>
     unat (es_vaddr s) + unat (es_pages s) * 4096 \<le> unat EXB_VA_LIMIT \<and>
     unat (es_file_size s) \<le> unat (es_mem_size s) \<and>
     (if es_file_size s = 0 then es_file_off s = 0 else 64 \<le> unat (es_file_off s) \<and> unat (es_file_off s) + unat (es_file_size s) \<le> fsize) \<and>
     es_flags s AND EXB_SEG_R \<noteq> 0 \<and> es_flags s AND NOT (EXB_SEG_R OR EXB_SEG_W OR EXB_SEG_X) = 0 \<and>
     \<not> (es_flags s AND EXB_SEG_W \<noteq> 0 \<and> es_flags s AND EXB_SEG_X \<noteq> 0)"

text \<open>Two segments share no page and no byte of the file.\<close>

definition seg_apart :: "ExbSeg \<Rightarrow> ExbSeg \<Rightarrow> bool" where
  "seg_apart s t \<longleftrightarrow> (unat (es_vaddr s) + unat (es_pages s) * 4096 \<le> unat (es_vaddr t) \<or>
       unat (es_vaddr t) + unat (es_pages t) * 4096 \<le> unat (es_vaddr s)) \<and>
     (es_file_size s = 0 \<or> es_file_size t = 0 \<or> unat (es_file_off s) + unat (es_file_size s) \<le> unat (es_file_off t) \<or>
       unat (es_file_off t) + unat (es_file_size t) \<le> unat (es_file_off s))"

definition info_good :: "nat \<Rightarrow> ExbInfo \<Rightarrow> ExbInfo \<Rightarrow> bool" where
  "info_good fsize out info \<longleftrightarrow> (let n = unat (ei_seg_count info); seg = ei_seg info in
     1 \<le> n \<and> n \<le> EXB_MAX_SEGS \<and> length seg = EXB_MAX_SEGS \<and> (\<forall>i < n. seg_good fsize (seg ! i)) \<and>
     (\<forall>i < n. \<forall>j < n. i \<noteq> j \<longrightarrow> seg_apart (seg ! i) (seg ! j)) \<and>
     unat (ei_image_pages info) = (\<Sum>i < n. unat (es_pages (seg ! i))) \<and> unat (ei_image_pages info) \<le> 4096 \<and>
     (\<exists>i < n. es_flags (seg ! i) AND EXB_SEG_X \<noteq> 0 \<and> unat (es_vaddr (seg ! i)) \<le> unat (ei_entry info) \<and>
        unat (ei_entry info) < unat (es_vaddr (seg ! i)) + unat (es_file_size (seg ! i))) \<and>
     unat (ei_stack_bytes info) mod 4096 = 0 \<and> 4096 \<le> unat (ei_stack_bytes info) \<and> unat (ei_stack_bytes info) \<le> 64 * 4096 \<and>
     (unat (ei_heap_frames info) \<le> 0x100000 \<or> ei_heap_frames info = ei_heap_frames out) \<and>
     (unat (ei_extra_tokens info) \<le> 4096 \<or> ei_extra_tokens info = ei_extra_tokens out))"

text \<open>The segment the loop stores for entry \<open>i\<close>.\<close>

definition seg_of :: "bytes \<Rightarrow> u64 \<Rightarrow> nat \<Rightarrow> ExbSeg" where
  "seg_of img seg_off i = (case seg_fields img seg_off i of (vaddr, mem, foff, fsz, fl) \<Rightarrow>
     \<lparr>es_vaddr = vaddr, es_mem_size = mem, es_pages = seg_pages mem, es_file_off = ucast foff, es_file_size = ucast fsz, es_flags = fl\<rparr>)"

definition seg_quad :: "ExbSeg \<Rightarrow> u64 \<times> u64 \<times> u64 \<times> u64" where
  "seg_quad s = (es_vaddr s, es_vaddr s + es_pages s * EXB_PAGE, ucast (es_file_off s), ucast (es_file_off s) + ucast (es_file_size s))"

lemma seg_fields_eq:
  "seg_fields img seg_off i = (es_vaddr (seg_of img seg_off i), es_mem_size (seg_of img seg_off i),
     ucast (es_file_off (seg_of img seg_off i)), ucast (es_file_size (seg_of img seg_off i)), es_flags (seg_of img seg_off i))"
  "es_pages (seg_of img seg_off i) = seg_pages (es_mem_size (seg_of img seg_off i))"
proof -
  have u: "ucast (ucast (x :: u32) :: u64) = x" for x by (rule bit_word_eqI) (simp add: bit_ucast_iff)
  show "seg_fields img seg_off i = (es_vaddr (seg_of img seg_off i), es_mem_size (seg_of img seg_off i),
     ucast (es_file_off (seg_of img seg_off i)), ucast (es_file_size (seg_of img seg_off i)), es_flags (seg_of img seg_off i))"
    "es_pages (seg_of img seg_off i) = seg_pages (es_mem_size (seg_of img seg_off i))"
    by (simp_all add: seg_of_def seg_fields_def Let_def u)
qed

lemma seg_pages_unat:
  assumes "unat mem \<le> 16777216"
  shows "unat (seg_pages mem) = (unat mem + 4095) div 4096"
proof -
  have "mem + EXB_PAGE - 1 = mem + 4095" by simp
  moreover have "unat (mem + 4095) = unat mem + 4095" using assms by (subst unat_add_less) simp_all
  ultimately show ?thesis by (simp only: seg_pages_def unat_div) simp
qed

lemma file_end_unat: "unat (ucast (a :: u32) + ucast (b :: u32) :: u64) = unat a + unat b"
  using unat_u32_bound [of a] unat_u32_bound [of b] by (subst unat_add_less) (simp_all add: unat_ucast_32_64)

lemma seg_check_good:
  assumes "seg_check img fsize seg_off seg_end cap_cnt cap_off cap_end i = 0"
  shows "seg_good (unat fsize) (seg_of img seg_off i)" "unat (es_pages (seg_of img seg_off i)) \<le> 4096"
    "unat (es_vaddr (seg_of img seg_off i) + es_pages (seg_of img seg_off i) * EXB_PAGE) =
      unat (es_vaddr (seg_of img seg_off i)) + unat (es_pages (seg_of img seg_off i)) * 4096"
proof -
  define s where "s = seg_of img seg_off i"
  note f = seg_fields_eq [of img seg_off i, folded s_def]
  have c: "es_flags s AND NOT (EXB_SEG_R OR EXB_SEG_W OR EXB_SEG_X) = 0" "es_flags s AND EXB_SEG_R \<noteq> 0"
    "\<not> (es_flags s AND EXB_SEG_W \<noteq> 0 \<and> es_flags s AND EXB_SEG_X \<noteq> 0)" "es_vaddr s AND (EXB_PAGE - 1) = 0"
    "\<not> (es_vaddr s < EXB_VA_MIN \<or> es_vaddr s \<ge> EXB_VA_LIMIT)" "\<not> (es_mem_size s = 0 \<or> es_mem_size s > EXB_MAX_IMAGE_BYTES)"
    "\<not> es_vaddr s + es_pages s * EXB_PAGE > EXB_VA_LIMIT" "\<not> ucast (es_file_size s) > es_mem_size s"
    "(ucast (es_file_size s) :: u64) = 0 \<longrightarrow> (ucast (es_file_off s) :: u64) = 0"
    "(ucast (es_file_size s) :: u64) \<noteq> 0 \<longrightarrow> \<not> ucast (es_file_off s) < EXB_HEADER_SIZE \<and> \<not> ucast (es_file_off s) + ucast (es_file_size s) > fsize"
    using assms unfolding seg_check_def f(1) f(2) prod.case Let_def by (simp_all split: if_split_asm)
  have m: "0 < unat (es_mem_size s)" "unat (es_mem_size s) \<le> 16777216"
    using c(6) by (auto simp: word_less_nat_alt unat_gt_0)
  have pg: "unat (es_pages s) = (unat (es_mem_size s) + 4095) div 4096" unfolding f(2) by (rule seg_pages_unat [OF m(2)])
  have p4: "unat (es_pages s) \<le> 4096" unfolding pg using m(2) by (simp add: div_le_mono [of _ "16777216 + 4095" 4096, simplified])
  have va: "unat EXB_VA_MIN \<le> unat (es_vaddr s)" "unat (es_vaddr s) < unat EXB_VA_LIMIT" using c(5) by (auto simp: word_less_nat_alt not_less not_le)
  have ve: "unat (es_vaddr s + es_pages s * EXB_PAGE) = unat (es_vaddr s) + unat (es_pages s) * 4096"
  proof -
    have "unat (es_pages s * EXB_PAGE) = unat (es_pages s) * 4096" using p4 by (subst unat_mult_less) simp_all
    then show ?thesis using va(2) p4 by (subst unat_add_less) simp_all
  qed
  have al: "unat (es_vaddr s) mod 4096 = 0"
  proof -
    have "es_vaddr s AND (EXB_PAGE - 1) = take_bit 12 (es_vaddr s)" by (simp add: take_bit_eq_mask mask_eq_exp_minus_1)
    moreover have "unat (take_bit 12 (es_vaddr s)) = unat (es_vaddr s) mod 4096" by (simp only: take_bit_eq_mod unat_mod) simp
    ultimately show ?thesis using c(4) by simp
  qed
  have z: "(ucast x :: u64) = 0 \<longleftrightarrow> x = 0" for x :: u32 by (simp add: unat_eq_zero [symmetric] unat_ucast_32_64 del: unat_eq_zero)
  show "seg_good (unat fsize) (seg_of img seg_off i)"
    unfolding s_def [symmetric] seg_good_def
    using al va m pg c ve z file_end_unat [of "es_file_off s" "es_file_size s"]
    by (auto simp: word_less_nat_alt not_less unat_ucast_32_64)
  show "unat (es_pages (seg_of img seg_off i)) \<le> 4096" using p4 by (simp add: s_def)
  show "unat (es_vaddr (seg_of img seg_off i) + es_pages (seg_of img seg_off i) * EXB_PAGE) =
      unat (es_vaddr (seg_of img seg_off i)) + unat (es_pages (seg_of img seg_off i)) * 4096" using ve by (simp add: s_def)
qed

text \<open>What the segment loop has established after the first \<open>k\<close> entries.\<close>

definition segs_upto :: "(nat \<Rightarrow> int) \<Rightarrow> (nat \<Rightarrow> ExbSeg) \<Rightarrow> ExbInfo \<Rightarrow> nat \<Rightarrow> u64 \<Rightarrow> ExbInfo \<Rightarrow> bool" where
  "segs_upto chk sg out0 k tot out \<longleftrightarrow> (\<forall>i < k. chk i = 0) \<and> (\<forall>i < k. \<forall>j < k. i \<noteq> j \<longrightarrow> seg_apart (sg i) (sg j)) \<and>
     unat tot = (\<Sum>i < k. unat (es_pages (sg i))) \<and> unat tot \<le> 4096 \<and>
     (\<exists>l. out = out0\<lparr>ei_seg := l\<rparr> \<and> length l = EXB_MAX_SEGS \<and> (\<forall>i < k. l ! i = sg i))"

lemma overlap_apart:
  assumes "unat a1 = unat a + x" "unat b1 = unat b + y" "\<not> overlap a a1 b b1"
  shows "unat a + x \<le> unat b \<or> unat b + y \<le> unat a"
  using assms by (auto simp: overlap_def word_less_nat_alt)

lemma seg_apart_sym: "seg_apart s t \<Longrightarrow> seg_apart t s" by (auto simp: seg_apart_def)

lemma quad_apart:
  assumes s: "unat (es_vaddr s + es_pages s * EXB_PAGE) = unat (es_vaddr s) + unat (es_pages s) * 4096"
    and t: "unat (es_vaddr t + es_pages t * EXB_PAGE) = unat (es_vaddr t) + unat (es_pages t) * 4096"
    and no: "\<not> (case seg_quad t of (a, b, c, d) \<Rightarrow> overlap (es_vaddr s) (es_vaddr s + es_pages s * EXB_PAGE) a b \<or>
      ucast (es_file_size s) \<noteq> (0 :: u64) \<and> d > c \<and> overlap (ucast (es_file_off s)) (ucast (es_file_off s) + ucast (es_file_size s)) c d)"
  shows "seg_apart s t"
proof -
  have z: "(ucast x :: u64) = 0 \<longleftrightarrow> x = 0" for x :: u32 by (simp add: unat_eq_zero [symmetric] unat_ucast_32_64 del: unat_eq_zero)
  have e: "(ucast a :: u64) < ucast a + ucast b \<longleftrightarrow> b \<noteq> 0" for a b :: u32
    by (simp add: word_less_nat_alt file_end_unat unat_ucast_32_64 unat_gt_0 del: word_less_nat_alt [symmetric])
  have va: "\<not> overlap (es_vaddr s) (es_vaddr s + es_pages s * EXB_PAGE) (es_vaddr t) (es_vaddr t + es_pages t * EXB_PAGE)"
    and fo: "es_file_size s \<noteq> 0 \<Longrightarrow> es_file_size t \<noteq> 0 \<Longrightarrow> \<not> overlap (ucast (es_file_off s)) (ucast (es_file_off s) + ucast (es_file_size s))
      (ucast (es_file_off t)) (ucast (es_file_off t) + ucast (es_file_size t))"
    using no unfolding seg_quad_def prod.case e z by blast+
  note va = overlap_apart [OF s t va]
  have fe: "unat (ucast (a :: u32) + ucast (b :: u32) :: u64) = unat (ucast a :: u64) + unat b" for a b by (simp add: file_end_unat unat_ucast_32_64)
  note fo = overlap_apart [OF fe fe fo]
  show ?thesis unfolding seg_apart_def using va fo by (auto simp: unat_ucast_32_64)
qed

lemma segs_upto_Suc:
  assumes u: "segs_upto chk sg out0 k tot out" and k: "k < EXB_MAX_SEGS" and c: "chk k = 0"
    and ap: "\<forall>j < k. seg_apart (sg k) (sg j)" and p: "unat (es_pages (sg k)) \<le> 4096"
    and lim: "\<not> tot + es_pages (sg k) > EXB_MAX_IMAGE_PAGES"
  shows "segs_upto chk sg out0 (Suc k) (tot + es_pages (sg k)) (out\<lparr>ei_seg := (ei_seg out)[k := sg k]\<rparr>)"
proof -
  obtain l where l: "out = out0\<lparr>ei_seg := l\<rparr>" "length l = EXB_MAX_SEGS" "\<forall>i < k. l ! i = sg i"
    and t: "unat tot = (\<Sum>i < k. unat (es_pages (sg i)))" "unat tot \<le> 4096"
    using u unfolding segs_upto_def by blast
  have s: "unat (tot + es_pages (sg k)) = unat tot + unat (es_pages (sg k))" using t(2) p by (subst unat_add_less) simp_all
  have apart: "\<forall>i < Suc k. \<forall>j < Suc k. i \<noteq> j \<longrightarrow> seg_apart (sg i) (sg j)"
    using u ap unfolding segs_upto_def less_Suc_eq by (metis seg_apart_sym)
  show ?thesis unfolding segs_upto_def
  proof (intro conjI)
    show "\<forall>i < Suc k. chk i = 0" using u c by (simp add: segs_upto_def less_Suc_eq)
    show "unat (tot + es_pages (sg k)) = (\<Sum>i < Suc k. unat (es_pages (sg i)))" using s t(1) by simp
    show "unat (tot + es_pages (sg k)) \<le> 4096" using lim by (simp add: word_less_nat_alt)
    show "\<exists>l. out\<lparr>ei_seg := (ei_seg out)[k := sg k]\<rparr> = out0\<lparr>ei_seg := l\<rparr> \<and> length l = EXB_MAX_SEGS \<and> (\<forall>i < Suc k. l ! i = sg i)"
      using l k by (intro exI [of _ "l[k := sg k]"]) (auto simp: nth_list_update)
  qed (rule apart)
qed

lemma seg_loop_upto:
  fixes img so
  defines "sg \<equiv> seg_of img so"
  assumes "seg_loop img fsize so se cc co ce [k..<n] (map (\<lambda>i. seg_quad (sg i)) [0..<k]) tot out = (0, tot', out')"
    "segs_upto (seg_check img fsize so se cc co ce) sg out0 k tot out" "k \<le> n" "n \<le> EXB_MAX_SEGS"
  shows "segs_upto (seg_check img fsize so se cc co ce) sg out0 n tot' out'"
  using assms(2-5)
proof (induction "n - k" arbitrary: k tot out)
  case 0
  then show ?case by simp
next
  case (Suc m)
  then have kn: "k < n" and up: "[k..<n] = k # [Suc k..<n]" by (simp_all add: upt_conv_Cons)
  note f = seg_fields_eq [of img so k, folded sg_def]
  note run = Suc.prems(1) [unfolded up seg_loop.simps f(1) prod.case Let_def f(2) [symmetric]]
  have c: "seg_check img fsize so se cc co ce k = 0" and lim: "\<not> tot + es_pages (sg k) > EXB_MAX_IMAGE_PAGES"
    and no: "\<not> list_ex (\<lambda>(a, b, c, d). overlap (es_vaddr (sg k)) (es_vaddr (sg k) + es_pages (sg k) * EXB_PAGE) a b \<or>
      ucast (es_file_size (sg k)) \<noteq> (0 :: u64) \<and> d > c \<and> overlap (ucast (es_file_off (sg k))) (ucast (es_file_off (sg k)) + ucast (es_file_size (sg k))) c d)
      (map (\<lambda>i. seg_quad (sg i)) [0..<k])"
    using run by (auto split: if_split_asm)
  note good = seg_check_good [OF c, folded sg_def]
  have ap: "\<forall>j < k. seg_apart (sg k) (sg j)"
  proof (intro allI impI)
    fix j assume j: "j < k"
    have "seg_check img fsize so se cc co ce j = 0" using Suc.prems(2) j by (simp add: segs_upto_def)
    note gj = seg_check_good(3) [OF this, folded sg_def]
    show "seg_apart (sg k) (sg j)" using no j by (intro quad_apart [OF good(3) gj]) (auto simp: list_ex_iff)
  qed
  have uc: "ucast (ucast (x :: u32) :: u64) = x" for x by (rule bit_word_eqI) (simp add: bit_ucast_iff)
  have "\<lparr>es_vaddr = es_vaddr (sg k), es_mem_size = es_mem_size (sg k), es_pages = es_pages (sg k), es_file_off = ucast (ucast (es_file_off (sg k)) :: u64),
    es_file_size = ucast (ucast (es_file_size (sg k)) :: u64), es_flags = es_flags (sg k)\<rparr> = sg k" by (simp add: uc)
  then have "seg_loop img fsize so se cc co ce [Suc k..<n] (map (\<lambda>i. seg_quad (sg i)) [0..<Suc k]) (tot + es_pages (sg k))
      (out\<lparr>ei_seg := (ei_seg out)[k := sg k]\<rparr>) = (0, tot', out')"
    using run c lim no by (simp add: seg_quad_def)
  then show ?case using Suc kn by (intro Suc.hyps(1) [OF _ _ segs_upto_Suc [OF Suc.prems(2) _ c ap good(2) lim]]) simp_all
qed

text \<open>What the capability loop keeps: only the three granted sizes change, and each stays in its
  bound or, when no entry names it, is what it was.\<close>

definition caps_upto :: "ExbInfo \<Rightarrow> ExbInfo \<Rightarrow> bool" where
  "caps_upto out0 out \<longleftrightarrow> (\<exists>st hp tk. out = out0\<lparr>ei_stack_bytes := st, ei_heap_frames := hp, ei_extra_tokens := tk\<rparr> \<and>
     unat st mod 4096 = 0 \<and> 4096 \<le> unat st \<and> unat st \<le> 64 * 4096 \<and>
     (unat hp \<le> 0x100000 \<or> hp = ei_heap_frames out0) \<and> (unat tk \<le> 4096 \<or> tk = ei_extra_tokens out0))"

lemma cap_step_upto:
  assumes c: "cap_step img co i (out, seen) = Some (out', seen')" and u: "caps_upto out0 out"
  shows "caps_upto out0 out'"
proof -
  obtain st hp tk where o: "out = out0\<lparr>ei_stack_bytes := st, ei_heap_frames := hp, ei_extra_tokens := tk\<rparr>"
    and b: "unat st mod 4096 = 0" "4096 \<le> unat st" "unat st \<le> 64 * 4096"
      "unat hp \<le> 0x100000 \<or> hp = ei_heap_frames out0" "unat tk \<le> 4096 \<or> tk = ei_extra_tokens out0"
    using u unfolding caps_upto_def by (elim exE conjE) (rule that; assumption)
  define v where "v = le64 img (unat co + i * unat EXB_CAP_SIZE + 8)"
  have "out' = out \<or> out' = out\<lparr>ei_stack_bytes := ucast v\<rparr> \<and> v mod EXB_PAGE = 0 \<and> \<not> v < EXB_PAGE \<and> \<not> v > EXB_MAX_STACK_PAGES * EXB_PAGE \<or>
      out' = out\<lparr>ei_heap_frames := v\<rparr> \<and> \<not> v > EXB_MAX_HEAP_REQUEST \<or> out' = out\<lparr>ei_extra_tokens := ucast v\<rparr> \<and> \<not> v > EXB_MAX_TOKEN_REQUEST"
    using c unfolding cap_step_def prod.case Let_def v_def [symmetric] by (simp split: if_split_asm)
  then consider (same) "out' = out" | (stack) "out' = out\<lparr>ei_stack_bytes := ucast v\<rparr>" "v mod EXB_PAGE = 0" "\<not> v < EXB_PAGE" "\<not> v > EXB_MAX_STACK_PAGES * EXB_PAGE"
    | (heap) "out' = out\<lparr>ei_heap_frames := v\<rparr>" "\<not> v > EXB_MAX_HEAP_REQUEST"
    | (tokens) "out' = out\<lparr>ei_extra_tokens := ucast v\<rparr>" "\<not> v > EXB_MAX_TOKEN_REQUEST" by blast
  then show ?thesis
  proof cases
    case same
    then show ?thesis using u by simp
  next
    case stack
    have le: "unat v \<le> 64 * 4096" "4096 \<le> unat v" using stack(3,4) by (simp_all add: word_less_nat_alt not_less)
    have "unat v mod 4096 = 0" using arg_cong [OF stack(2), of unat] by (simp add: unat_mod)
    moreover have "unat (ucast v :: u32) = unat v" using le(1) by (simp add: unat_ucast_64_32)
    ultimately show ?thesis unfolding caps_upto_def stack(1) o using le b
      by (intro exI [of _ "ucast v"] exI [of _ hp] exI [of _ tk]) simp
  next
    case heap
    have "unat v \<le> 0x100000" using heap(2) by (simp add: word_less_nat_alt)
    then show ?thesis unfolding caps_upto_def heap(1) o using b by (intro exI [of _ st] exI [of _ v] exI [of _ tk]) simp
  next
    case tokens
    have le: "unat v \<le> 4096" using tokens(2) by (simp add: word_less_nat_alt)
    then have "unat (ucast v :: u32) = unat v" by (simp add: unat_ucast_64_32)
    then show ?thesis unfolding caps_upto_def tokens(1) o using le b by (intro exI [of _ st] exI [of _ hp] exI [of _ "ucast v"]) simp
  qed
qed

lemma cap_loop_upto:
  "cap_loop img co ks (out, seen) = (EXB_OK, info) \<Longrightarrow> caps_upto out0 out \<Longrightarrow> caps_upto out0 info"
proof (induction ks arbitrary: out seen)
  case (Cons i ks)
  obtain out' seen' where s: "cap_step img co i (out, seen) = Some (out', seen')" and r: "cap_loop img co ks (out', seen') = (EXB_OK, info)"
    using Cons.prems(1) by (auto split: option.split_asm)
  show ?case by (rule Cons.IH [OF r cap_step_upto [OF s Cons.prems(2)]])
qed simp

text \<open>What a successful \<open>parse_impl\<close> has gone through.\<close>

lemma parse_impl_ok:
  assumes "parse_impl (Some img) fsize out = (EXB_OK, info)"
  defines "so \<equiv> ucast (le32 img 32) :: u64" and "n \<equiv> ucast (le32 img 36) :: u64" and "co \<equiv> ucast (le32 img 40) :: u64" and "c \<equiv> ucast (le32 img 44) :: u64"
  defines "se \<equiv> so + n * EXB_SEG_SIZE" and "ce \<equiv> (if c = 0 then co else co + c * EXB_CAP_SIZE)"
  obtains tot o' where "1 \<le> unat n" "unat n \<le> EXB_MAX_SEGS"
    "seg_loop img fsize so se c co ce [0..<unat n] [] 0 out = (0, tot, o')"
    "\<exists>i < unat n. entry_in (le64 img 16) (ei_seg o' ! i)"
    "cap_loop img co [0..<unat c] (o'\<lparr>ei_seg_count := ucast n, ei_image_pages := tot, ei_entry := le64 img 16,
       ei_stack_bytes := ucast (EXB_DEFAULT_STACK_PAGES * EXB_PAGE)\<rparr>, 0) = (EXB_OK, info)"
    "le32 img 28 = exb_crc32_image img (unat fsize)" "unat fsize \<le> 16777216"
proof -
  note run = assms(1) [unfolded parse_impl_def Let_def option.sel, folded so_def n_def co_def c_def, folded se_def ce_def]
  obtain rc tot o' where l: "seg_loop img fsize so se c co ce [0..<unat n] [] 0 out = (rc, tot, o')" by (rule prod_cases3)
  note run = run [unfolded l prod.case]
  have g: "\<not> fsize > EXB_MAX_FILE" "\<not> (n < 1 \<or> n > of_nat EXB_MAX_SEGS)" "rc = 0" "le32 img 28 = exb_crc32_image img (unat fsize)"
    "list_ex (\<lambda>i. entry_in (le64 img 16) (ei_seg o' ! i)) [0..<unat n]"
    "cap_loop img co [0..<unat c] (o'\<lparr>ei_seg_count := ucast n, ei_image_pages := tot, ei_entry := le64 img 16,
       ei_stack_bytes := ucast (EXB_DEFAULT_STACK_PAGES * EXB_PAGE)\<rparr>, 0) = (EXB_OK, info)"
    using run by (simp_all split: if_split_asm)
  have n: "1 \<le> unat n" "unat n \<le> EXB_MAX_SEGS" using g(2) by (simp_all add: word_less_nat_alt not_less)
  have "unat fsize \<le> 16777216" using g(1) by (simp add: word_less_nat_alt)
  moreover have "\<exists>i < unat n. entry_in (le64 img 16) (ei_seg o' ! i)" using g(5) by (auto simp: list_ex_iff)
  ultimately show thesis using that [OF n l [unfolded g(3)] _ g(6) g(4)] by simp
qed

lemma default_stack: "caps_upto o' (o'\<lparr>ei_stack_bytes := ucast (EXB_DEFAULT_STACK_PAGES * EXB_PAGE)\<rparr>)"
  unfolding caps_upto_def
  by (intro exI [of _ "ucast (EXB_DEFAULT_STACK_PAGES * EXB_PAGE)"] exI [of _ "ei_heap_frames o'"] exI [of _ "ei_extra_tokens o'"]) simp

lemma seg_loop_segs:
  assumes "seg_loop img fsize so se c co ce [0..<n] [] 0 out = (0, tot, o')" "n \<le> EXB_MAX_SEGS" "length (ei_seg out) = EXB_MAX_SEGS"
  shows "segs_upto (seg_check img fsize so se c co ce) (seg_of img so) out n tot o'"
  using assms by (intro seg_loop_upto [of img fsize so se c co ce 0 n 0 out]) (auto simp: segs_upto_def intro: exI [of _ "ei_seg out"])

lemma seg_loop_frame:
  assumes "seg_loop img fsize so se c co ce [0..<n] [] 0 out = (0, tot, o')" "n \<le> EXB_MAX_SEGS" "length (ei_seg out) = EXB_MAX_SEGS"
  shows "\<exists>k. o' = out\<lparr>ei_seg := k\<rparr>"
  using seg_loop_segs [OF assms] unfolding segs_upto_def by blast

lemma parse_sound:
  assumes p: "parse_impl (Some img) fsize out = (EXB_OK, info)" and len: "length (ei_seg out) = EXB_MAX_SEGS"
  shows "info_good (unat fsize) out info"
proof -
  define sg where "sg = seg_of img (ucast (le32 img 32))"
  obtain n :: u64 and so se c co ce :: u64 and tot o' where n: "1 \<le> unat n" "unat n \<le> EXB_MAX_SEGS"
    and l: "seg_loop img fsize so se c co ce [0..<unat n] [] 0 out = (0, tot, o')" and so: "so = ucast (le32 img 32)"
    and e: "\<exists>i < unat n. entry_in (le64 img 16) (ei_seg o' ! i)"
    and cl: "cap_loop img co [0..<unat c] (o'\<lparr>ei_seg_count := ucast n, ei_image_pages := tot, ei_entry := le64 img 16,
       ei_stack_bytes := ucast (EXB_DEFAULT_STACK_PAGES * EXB_PAGE)\<rparr>, 0) = (EXB_OK, info)"
    by (rule parse_impl_ok [OF p]) blast
  note u = seg_loop_segs [OF l n(2) len, unfolded so sg_def [symmetric], unfolded segs_upto_def]
  obtain lst where ol: "o' = out\<lparr>ei_seg := lst\<rparr>" "length lst = EXB_MAX_SEGS" "\<forall>i < unat n. lst ! i = sg i" using u by blast
  define o2 where "o2 = o'\<lparr>ei_seg_count := ucast n, ei_image_pages := tot, ei_entry := le64 img 16\<rparr>"
  have "caps_upto o2 info" by (rule cap_loop_upto [OF cl]) (use default_stack [of o2] in \<open>simp add: o2_def\<close>)
  then obtain st hp tk where i: "info = o2\<lparr>ei_stack_bytes := st, ei_heap_frames := hp, ei_extra_tokens := tk\<rparr>"
    and b: "unat st mod 4096 = 0" "4096 \<le> unat st" "unat st \<le> 64 * 4096"
      "unat hp \<le> 0x100000 \<or> hp = ei_heap_frames o2" "unat tk \<le> 4096 \<or> tk = ei_extra_tokens o2"
    unfolding caps_upto_def by (elim exE conjE) (rule that; assumption)
  have nn: "unat (ucast n :: u32) = unat n" using n(2) by (simp add: unat_ucast_64_32)
  have good: "\<forall>i < unat n. seg_good (unat fsize) (sg i)" using u seg_check_good(1) [of img fsize so se c co ce] by (simp add: so sg_def)
  obtain i where ei: "i < unat n" "entry_in (le64 img 16) (sg i)" using e ol by auto
  have "es_flags (sg i) AND EXB_SEG_X \<noteq> 0 \<and> unat (es_vaddr (sg i)) \<le> unat (le64 img 16) \<and>
      unat (le64 img 16) < unat (es_vaddr (sg i)) + unat (es_file_size (sg i))"
    using ei(2) by (auto simp: entry_in_def word_less_nat_alt word_le_nat_alt unat_sub unat_ucast_32_64)
  then have ent: "\<exists>i < unat n. es_flags (lst ! i) AND EXB_SEG_X \<noteq> 0 \<and> unat (es_vaddr (lst ! i)) \<le> unat (le64 img 16) \<and>
      unat (le64 img 16) < unat (es_vaddr (lst ! i)) + unat (es_file_size (lst ! i))" using ei(1) ol(3) by auto
  have f: "ei_seg info = lst" "ei_seg_count info = ucast n" "ei_image_pages info = tot" "ei_entry info = le64 img 16" "ei_stack_bytes info = st"
      "ei_heap_frames info = hp" "ei_extra_tokens info = tk" "ei_heap_frames o2 = ei_heap_frames out" "ei_extra_tokens o2 = ei_extra_tokens out"
    by (simp_all add: i o2_def ol(1))
  have ap: "\<forall>i < unat n. \<forall>j < unat n. i \<noteq> j \<longrightarrow> seg_apart (lst ! i) (lst ! j)" using conjunct1 [OF conjunct2 [OF u]] ol(3) by simp
  have tot: "unat tot = (\<Sum>i < unat n. unat (es_pages (lst ! i)))" "unat tot \<le> 4096" using u ol(3) by simp_all
  show ?thesis unfolding info_good_def Let_def f nn
    by (intro conjI n ol(2) ap tot ent b(1-3) b(4,5) [unfolded f]) (use good ol(3) in simp)
qed

section \<open>Reads stay inside the file\<close>

lemma le32_app: "off + 4 \<le> length img \<Longrightarrow> le32 (img @ xs) off = le32 img off"
  by (simp add: le32_def nth_append)

lemma le64_app: "off + 8 \<le> length img \<Longrightarrow> le64 (img @ xs) off = le64 img off"
  by (simp add: le64_def le32_app)

lemma le16_app: "off + 2 \<le> length img \<Longrightarrow> le16 (img @ xs) off = le16 img off"
  by (simp add: le16_def nth_append)

lemmas le_app = le16_app le32_app le64_app

lemma crc_app: "exb_crc32_image (img @ xs) (length img) = exb_crc32_image img (length img)"
proof -
  have "fold (\<lambda>i crc. crc_byte (if 28 \<le> i \<and> i < 32 then 0 else (img @ xs) ! i) crc) [0..<length img] c =
      fold (\<lambda>i crc. crc_byte (if 28 \<le> i \<and> i < 32 then 0 else img ! i) crc) [0..<length img] c" for c
    by (rule fold_cong) (simp_all add: nth_append)
  then show ?thesis by (simp add: exb_crc32_image_def)
qed

lemma seg_app:
  assumes "unat so + i * 32 + 32 \<le> length img"
  shows "seg_fields (img @ xs) so i = seg_fields img so i"
    "seg_check (img @ xs) fsize so se c co ce i = seg_check img fsize so se c co ce i"
proof -
  show f: "seg_fields (img @ xs) so i = seg_fields img so i" using assms by (simp add: seg_fields_def Let_def le_app)
  have "le32 (img @ xs) (unat so + i * unat EXB_SEG_SIZE + 28) = le32 img (unat so + i * unat EXB_SEG_SIZE + 28)"
    using assms by (intro le32_app) simp
  then show "seg_check (img @ xs) fsize so se c co ce i = seg_check img fsize so se c co ce i" by (simp only: seg_check_def f)
qed

lemma seg_loop_app:
  "(\<And>i. i \<in> set ks \<Longrightarrow> unat so + i * 32 + 32 \<le> length img) \<Longrightarrow>
   seg_loop (img @ xs) fsize so se c co ce ks prev tot out = seg_loop img fsize so se c co ce ks prev tot out"
proof (induction ks arbitrary: prev tot out)
  case (Cons i ks)
  have IH: "seg_loop (img @ xs) fsize so se c co ce ks prev tot out = seg_loop img fsize so se c co ce ks prev tot out" for prev tot out
    using Cons by simp
  show ?case unfolding seg_loop.simps seg_app [OF Cons.prems [OF list.set_intros(1)]] IH ..
qed simp

lemma cap_loop_app:
  "(\<And>i. i \<in> set ks \<Longrightarrow> unat co + i * 16 + 16 \<le> length img) \<Longrightarrow> cap_loop (img @ xs) co ks os = cap_loop img co ks os"
proof (induction ks arbitrary: os)
  case (Cons i ks)
  have "unat co + i * 16 + 16 \<le> length img" using Cons.prems by simp
  then have "le32 (img @ xs) (unat co + i * unat EXB_CAP_SIZE) = le32 img (unat co + i * unat EXB_CAP_SIZE)"
    "le32 (img @ xs) (unat co + i * unat EXB_CAP_SIZE + 4) = le32 img (unat co + i * unat EXB_CAP_SIZE + 4)"
    "le64 (img @ xs) (unat co + i * unat EXB_CAP_SIZE + 8) = le64 img (unat co + i * unat EXB_CAP_SIZE + 8)"
    by (simp_all add: le_app)
  then have "cap_step (img @ xs) co i os = cap_step img co i os" by (simp only: cap_step_def Let_def)
  then show ?case using Cons by (simp split: option.split)
qed simp

lemma table_in_file:
  assumes "i < unat (n :: u64)" "unat n \<le> 64" "unat w \<le> 32" "\<not> ucast (so :: u32) + n * w > fsize"
  shows "unat (ucast so :: u64) + i * unat w + unat w \<le> unat fsize"
proof -
  have "unat n * unat w \<le> 64 * 32" using assms(2,3) by (rule mult_le_mono)
  then have m: "unat (n * w) = unat n * unat w" by (subst unat_mult_less) simp_all
  have "unat (ucast so + n * w) = unat (ucast so :: u64) + unat n * unat w"
    unfolding m [symmetric] using unat_u32_bound [of so] m \<open>unat n * unat w \<le> 64 * 32\<close> by (subst unat_add_less) (simp_all add: unat_ucast_32_64)
  moreover have "Suc i * unat w \<le> unat n * unat w" using assms(1) by (intro mult_le_mono1) simp
  ultimately show ?thesis using assms(4) by (simp add: word_less_nat_alt)
qed

section \<open>A small program file\<close>

text \<open>One read-execute segment of one byte, no capabilities.\<close>

definition tiny_exb :: bytes where
  "tiny_exb = [127, 69, 88, 66, 1, 1, 64, 0, 0, 0, 0, 0, 1, 0, 0, 0, 0, 0, 0, 0, 128, 0, 0, 0, 97, 0, 0, 0, 108, 146, 176,
       89, 64, 0, 0, 0, 1, 0, 0, 0, 0, 0, 0, 0, 0, 0, 0, 0, 0, 0, 0, 0, 0, 0, 0, 0, 0, 0, 0, 0, 0, 0, 0, 0, 0, 0, 0,
       0, 128, 0, 0, 0, 1, 0, 0, 0, 0, 0, 0, 0, 96, 0, 0, 0, 1, 0, 0, 0, 5, 0, 0, 0, 0, 0, 0, 0, 244]"

definition tiny_seg :: ExbSeg where
  "tiny_seg = \<lparr>es_vaddr = EXB_VA_MIN, es_mem_size = 1, es_pages = 1, es_file_off = 96, es_file_size = 1, es_flags = 5\<rparr>"

lemma tiny_crc: "exb_crc32_image tiny_exb 97 = 1504744044"
proof -
  have l: "map (\<lambda>i. if 28 \<le> i \<and> i < 32 then 0 else tiny_exb ! i) [0..<97] =
      [127, 69, 88, 66, 1, 1, 64, 0, 0, 0, 0, 0, 1, 0, 0, 0, 0, 0, 0, 0, 128, 0, 0, 0, 97, 0, 0, 0, 0, 0, 0, 0, 64,
       0, 0, 0, 1, 0, 0, 0, 0, 0, 0, 0, 0, 0, 0, 0, 0, 0, 0, 0, 0, 0, 0, 0, 0, 0, 0, 0, 0, 0, 0, 0, 0, 0, 0, 0, 128,
       0, 0, 0, 1, 0, 0, 0, 0, 0, 0, 0, 96, 0, 0, 0, 1, 0, 0, 0, 5, 0, 0, 0, 0, 0, 0, 0, 244]" by (simp add: tiny_exb_def upt_rec)
  have "exb_crc32_image tiny_exb 97 = NOT (fold crc_byte (map (\<lambda>i. if 28 \<le> i \<and> i < 32 then 0 else tiny_exb ! i) [0..<97]) 0xFFFFFFFF)"
    by (simp only: exb_crc32_image_def fold_map o_def)
  then show ?thesis unfolding l by (simp add: crc_byte_def crc_nibble_def crc_tab_def)
qed

lemma tiny_fields: "le16 tiny_exb 6 = 64" "le32 tiny_exb 8 = 0" "le32 tiny_exb 12 = 1" "le64 tiny_exb 16 = EXB_VA_MIN" "le32 tiny_exb 24 = 97"
  "le32 tiny_exb 28 = 1504744044" "le32 tiny_exb 32 = 64" "le32 tiny_exb 36 = 1" "le32 tiny_exb 40 = 0" "le32 tiny_exb 44 = 0"
  "le64 tiny_exb 64 = EXB_VA_MIN" "le64 tiny_exb 72 = 1" "le32 tiny_exb 80 = 96" "le32 tiny_exb 84 = 1" "le32 tiny_exb 88 = 5" "le32 tiny_exb 92 = 0"
  by (simp_all add: le16_def le32_def le64_def tiny_exb_def)

lemma tiny_head: "tiny_exb ! 0 = 0x7F" "tiny_exb ! 1 = 0x45" "tiny_exb ! 2 = 0x58" "tiny_exb ! 3 = 0x42" "tiny_exb ! 4 = 1" "tiny_exb ! 5 = 1"
  "tiny_exb ! 48 = 0" "list_ex (\<lambda>i. tiny_exb ! i \<noteq> 0) [49..<64] = False"
  by (simp_all add: tiny_exb_def upt_rec)

lemma tiny_seg_loop: "seg_loop tiny_exb 97 64 96 0 0 0 [0] [] 0 out = (0, 1, out\<lparr>ei_seg := (ei_seg out)[0 := tiny_seg]\<rparr>)"
  by (simp add: seg_check_def seg_fields_def tiny_fields seg_pages_def tiny_seg_def overlap_def Let_def)

lemma tiny_parse:
  assumes "length (ei_seg out) = EXB_MAX_SEGS"
  shows "exb_parse (Some tiny_exb) 97 out = (EXB_OK, out\<lparr>ei_entry := EXB_VA_MIN, ei_seg_count := 1,
    ei_seg := (ei_seg out)[0 := tiny_seg], ei_image_pages := 1, ei_stack_bytes := 16384\<rparr>)"
proof -
  have one: "[0..<1 :: nat] = [0]" by simp
  show ?thesis using assms by (simp add: one exb_parse_def parse_impl_def tiny_head tiny_fields tiny_crc tiny_seg_loop entry_in_def tiny_seg_def Let_def
    del: upt_rec_numeral seg_loop.simps One_nat_def)
qed


lemma parse_crc: "fst (exb_parse (Some img) fsize out) = EXB_OK \<Longrightarrow> le32 img 28 = exb_crc32_image img (unat fsize)"
  unfolding exb_parse_def by (cases "parse_impl (Some img) fsize out") (auto elim: parse_impl_ok)

section \<open>Properties\<close>

text \<open>C35. (safety) A file the parser accepts describes only safe mappings: between one and eight
  segments, each page aligned inside the user range, with its file part inside the file and no longer
  than its memory, never writable and executable; no two share a page or a byte of the file; together
  at most 4096 pages, which is the number stored; the entry point is a byte of an executable segment that
  the file provides; the stack size is a whole number of pages between 1 and 64.\<close>

theorem exb_parse_sound:
  assumes "exb_parse (Some img) fsize out = (EXB_OK, info)" "length (ei_seg out) = EXB_MAX_SEGS"
  shows "info_good (unat fsize) out info"
proof -
  have "parse_impl (Some img) fsize out = (EXB_OK, info)" using assms(1) by (auto simp: exb_parse_def split: prod.split_asm if_split_asm)
  then show ?thesis using assms(2) by (rule parse_sound)
qed

theorem exb_parse_sound_witness:
  "info_good 97 zero_out (zero_out\<lparr>ei_entry := EXB_VA_MIN, ei_seg_count := 1, ei_seg := (ei_seg zero_out)[0 := tiny_seg],
     ei_image_pages := 1, ei_stack_bytes := 16384\<rparr>)"
proof -
  have l: "length (ei_seg zero_out) = EXB_MAX_SEGS" by (simp add: zero_out_def)
  show ?thesis using exb_parse_sound [OF tiny_parse [OF l] l] by simp
qed

text \<open>C36. (bounds) The parser reads no byte past the size it is given: what follows the file in memory
  has no influence on the result.\<close>

theorem exb_parse_in_bounds:
  assumes len: "length img = unat fsize"
  shows "exb_parse (Some (img @ xs)) fsize out = exb_parse (Some img) fsize out"
proof (cases "fsize < EXB_HEADER_SIZE")
  case True
  then show ?thesis by (simp add: exb_parse_def parse_impl_def)
next
  case False
  then have h: "64 \<le> length img" by (simp add: len word_less_nat_alt)
  have b: "(img @ xs) ! i = img ! i" if "i < 64" for i using h that by (simp add: nth_append)
  have z: "list_ex (\<lambda>i. (img @ xs) ! i \<noteq> 0) [49..<64] = list_ex (\<lambda>i. img ! i \<noteq> 0) [49..<64]"
    unfolding list_ex_iff by (intro bex_cong refl) (simp only: set_upt atLeastLessThan_iff b)
  define n :: u64 where "n = ucast (le32 img 36)"
  define c :: u64 where "c = ucast (le32 img 44)"
  note w = table_in_file [of _ n EXB_SEG_SIZE fsize "le32 img 32"] table_in_file [of _ c EXB_CAP_SIZE fsize "le32 img 40"]
  have s: "seg_loop (img @ xs) fsize (ucast (le32 img 32)) se c co ce [0..<unat n] [] 0 out =
      seg_loop img fsize (ucast (le32 img 32)) se c co ce [0..<unat n] [] 0 out"
    if "\<not> n > of_nat EXB_MAX_SEGS" "\<not> ucast (le32 img 32) + n * EXB_SEG_SIZE > fsize" for se co ce
    using that w(1) by (intro seg_loop_app) (auto simp: len word_less_nat_alt)
  have k: "cap_loop (img @ xs) (ucast (le32 img 40)) [0..<unat c] os = cap_loop img (ucast (le32 img 40)) [0..<unat c] os"
    if "\<not> c > EXB_MAX_CAPS" "c \<noteq> 0 \<longrightarrow> \<not> ucast (le32 img 40) + c * EXB_CAP_SIZE > fsize" for os
    using that w(2) by (intro cap_loop_app) (auto simp: len word_less_nat_alt)
  have "parse_impl (Some (img @ xs)) fsize out = parse_impl (Some img) fsize out"
    unfolding parse_impl_def option.sel Let_def z n_def [symmetric] c_def [symmetric]
    using h s k by (simp add: b le_app crc_app len [symmetric] n_def [symmetric] c_def [symmetric] del: upt_rec_numeral cong: if_cong)
  then show ?thesis by (simp add: exb_parse_def)
qed

theorem exb_parse_in_bounds_witness: "fst (exb_parse (Some (tiny_exb @ [1, 2, 3])) 97 zero_out) = EXB_OK"
proof -
  have l: "length (ei_seg zero_out) = EXB_MAX_SEGS" by (simp add: zero_out_def)
  have "length tiny_exb = unat (97 :: u64)" by (simp add: tiny_exb_def)
  then show ?thesis by (simp only: exb_parse_in_bounds tiny_parse [OF l] fst_conv)
qed

text \<open>C37. (safety) The checksum binds every byte: a file that differs from an accepted one in exactly
  one byte outside the checksum field itself is rejected.\<close>

theorem exb_parse_corrupt:
  assumes acc: "fst (exb_parse (Some img) fsize out) = EXB_OK"
    and len: "length img = unat fsize" and k: "k < length img" "\<not> (28 \<le> k \<and> k < 32)" and v: "v \<noteq> img ! k"
  shows "fst (exb_parse (Some (img[k := v])) fsize out') \<noteq> EXB_OK"
proof
  assume "fst (exb_parse (Some (img[k := v])) fsize out') = EXB_OK"
  then have c': "le32 (img[k := v]) 28 = exb_crc32_image (img[k := v]) (unat fsize)" by (rule parse_crc)
  have "k \<noteq> 28" "k \<noteq> 29" "k \<noteq> 30" "k \<noteq> 31" using k(2) by auto
  then have "le32 (img[k := v]) 28 = le32 img 28" by (simp add: le32_def)
  then have "exb_crc32_image (img[k := v]) (unat fsize) = exb_crc32_image img (unat fsize)" using c' parse_crc [OF acc] by simp
  moreover have "fold (\<lambda>i. crc_byte (if 28 \<le> i \<and> i < 32 then 0 else img[k := v] ! i)) [0..<unat fsize] 0xFFFFFFFF \<noteq>
      fold (\<lambda>i. crc_byte (if 28 \<le> i \<and> i < 32 then 0 else img ! i)) [0..<unat fsize] 0xFFFFFFFF"
    by (rule crc_change [of k]) (use k v len in \<open>auto simp: nth_list_update\<close>)
  ultimately show False by (simp add: exb_crc32_image_def)
qed

theorem exb_parse_corrupt_witness: "fst (exb_parse (Some (tiny_exb[96 := 0x90])) 97 zero_out) \<noteq> EXB_OK"
proof -
  have l: "length (ei_seg zero_out) = EXB_MAX_SEGS" by (simp add: zero_out_def)
  have "fst (exb_parse (Some tiny_exb) 97 zero_out) = EXB_OK" by (simp only: tiny_parse [OF l] fst_conv)
  then show ?thesis by (rule exb_parse_corrupt) (simp_all add: tiny_exb_def)
qed

text \<open>C38. (equivalence) The table-driven checksum is the CRC-32 of the file with its checksum field
  read as zero, computed bit by bit with the reflected polynomial.\<close>

theorem exb_crc32_image_eq:
  "exb_crc32_image img (length img) = crc32_ref (map (\<lambda>i. if 28 \<le> i \<and> i < 32 then 0 else img ! i) [0..<length img])"
  by (simp add: exb_crc32_image_def crc32_ref_def crc_byte_bits fold_map comp_def)

text \<open>C39. (error) The parser does not initialise the heap and token requests: when the file has no
  capability table, an accepted file leaves in both whatever the caller's buffer held.\<close>

theorem exb_parse_uninitialised:
  assumes "exb_parse (Some img) fsize out = (EXB_OK, info)" "length (ei_seg out) = EXB_MAX_SEGS" "le32 img 44 = 0"
  shows "ei_heap_frames info = ei_heap_frames out \<and> ei_extra_tokens info = ei_extra_tokens out"
proof -
  have "parse_impl (Some img) fsize out = (EXB_OK, info)" using assms(1) by (auto simp: exb_parse_def split: prod.split_asm if_split_asm)
  then obtain n :: u64 and so se c co ce :: u64 and tot o' where n: "unat n \<le> EXB_MAX_SEGS" and c: "c = ucast (le32 img 44)"
    and l: "seg_loop img fsize so se c co ce [0..<unat n] [] 0 out = (0, tot, o')"
    and cl: "cap_loop img co [0..<unat c] (o'\<lparr>ei_seg_count := ucast n, ei_image_pages := tot, ei_entry := le64 img 16,
       ei_stack_bytes := ucast (EXB_DEFAULT_STACK_PAGES * EXB_PAGE)\<rparr>, 0) = (EXB_OK, info)"
    by (rule parse_impl_ok) blast
  obtain k where "o' = out\<lparr>ei_seg := k\<rparr>" using seg_loop_frame [OF l n assms(2)] by blast
  then show ?thesis using cl by (auto simp: c assms(3))
qed

theorem exb_parse_uninitialised_witness:
  "ei_extra_tokens (snd (exb_parse (Some tiny_exb) 97 (zero_out\<lparr>ei_extra_tokens := 0xDEADBEEF\<rparr>))) = 0xDEADBEEF"
proof -
  let ?out = "zero_out\<lparr>ei_extra_tokens := 0xDEADBEEF\<rparr>"
  have l: "length (ei_seg ?out) = EXB_MAX_SEGS" by (simp add: zero_out_def)
  show ?thesis using exb_parse_uninitialised [OF tiny_parse [OF l] l tiny_fields(10)] tiny_parse [OF l] by simp
qed


end
