(* ===== verification/Load.thy ===== *)
theory Load
  imports Exb_Props Sys
begin

text \<open>
  Model of \<open>core/exb/load.c\<close>, the portable loader, and of \<open>load_amd64.c\<close>, its backend on this machine.
  The loader reaches the machine only through the functions of \<open>xload_backend.h\<close>; they are the fields
  of \<open>Backend\<close>, so the loader is the same definition on every backend. \<open>xlb_kernel_ptr\<close> gives an
  address the loader writes through; the write is the function \<open>xb_store\<close> of the backend. The
  transaction lists are kept newest first.
\<close>

section \<open>Data\<close>

record 's Backend =
  xb_quota_ok :: "u32 \<Rightarrow> u64 \<Rightarrow> u32 \<Rightarrow> 's \<Rightarrow> bool"
  xb_alloc :: "u32 \<Rightarrow> u64 \<Rightarrow> u32 \<Rightarrow> 's \<Rightarrow> int \<times> u64 \<times> 's"
  xb_kernel_ptr :: "u64 \<Rightarrow> 's \<Rightarrow> u64"
  xb_store :: "u64 \<Rightarrow> u8 \<Rightarrow> 's \<Rightarrow> 's"
  xb_release :: "u64 \<Rightarrow> 's \<Rightarrow> 's"
  xb_map :: "XAspace \<Rightarrow> u64 \<Rightarrow> u64 \<Rightarrow> u32 \<Rightarrow> 's \<Rightarrow> int \<times> 's"
  xb_unmap :: "XAspace \<Rightarrow> u64 \<Rightarrow> 's \<Rightarrow> int \<times> 's"

record Txn =
  tx_as :: XAspace
  tx_tok :: "u64 list"
  tx_va :: "u64 list"

record XLoadResult =
  lr_entry :: u64
  lr_stack_top :: u64
  lr_stack_bytes :: u32
  lr_tokens_granted :: u32

abbreviation XLB_PAGE :: u64 where "XLB_PAGE \<equiv> 4096"
abbreviation XLB_USER_TOP :: u64 where "XLB_USER_TOP \<equiv> 0x0000800000000000"
abbreviation XLB_PERM_R :: u32 where "XLB_PERM_R \<equiv> 1"
abbreviation XLB_PERM_W :: u32 where "XLB_PERM_W \<equiv> 2"
abbreviation XLB_PERM_X :: u32 where "XLB_PERM_X \<equiv> 4"
abbreviation XLOAD_OK :: int where "XLOAD_OK \<equiv> 0"
abbreviation XLOAD_E_ARG :: int where "XLOAD_E_ARG \<equiv> -1"
abbreviation XLOAD_E_IMAGE :: int where "XLOAD_E_IMAGE \<equiv> -2"
abbreviation XLOAD_E_QUOTA :: int where "XLOAD_E_QUOTA \<equiv> -3"
abbreviation XLOAD_E_NOMEM :: int where "XLOAD_E_NOMEM \<equiv> -4"
abbreviation XLOAD_E_MAP :: int where "XLOAD_E_MAP \<equiv> -5"

section \<open>The loader\<close>

definition rollback :: "'s Backend \<Rightarrow> Txn \<Rightarrow> 's \<Rightarrow> 's" where
  "rollback b t s = fold (xb_release b) (tx_tok t) (fold (\<lambda>va s. snd (xb_unmap b (tx_as t) va s)) (tx_va t) s)"

definition seg_rights :: "u32 \<Rightarrow> u32" where
  "seg_rights flags =
     (let r = XTOK_RIGHT_READ OR XTOK_RIGHT_MAP OR XTOK_RIGHT_RELEASE;
          r = (if flags AND EXB_SEG_W \<noteq> 0 then r OR XTOK_RIGHT_WRITE else r)
      in if flags AND EXB_SEG_X \<noteq> 0 then r OR XTOK_RIGHT_EXECUTE else r)"

definition seg_perms :: "u32 \<Rightarrow> u32" where
  "seg_perms flags =
     (let p = XLB_PERM_R;
          p = (if flags AND EXB_SEG_W \<noteq> 0 then p OR XLB_PERM_W else p)
      in if flags AND EXB_SEG_X \<noteq> 0 then p OR XLB_PERM_X else p)"

definition copy_in :: "'s Backend \<Rightarrow> bytes \<Rightarrow> ExbSeg \<Rightarrow> u64 \<Rightarrow> 's \<Rightarrow> 's" where
  "copy_in b img g dst s =
     fold (\<lambda>k s. xb_store b (dst + of_nat k) (img ! (unat (es_file_off g) + k)) s) [0..<unat (es_file_size g)] s"

text \<open>One allocation with its mapping; both failures roll back.\<close>

definition load_region :: "'s Backend \<Rightarrow> u32 \<Rightarrow> u64 \<Rightarrow> u32 \<Rightarrow> (u64 \<Rightarrow> 's \<Rightarrow> 's) \<Rightarrow> u64 \<Rightarrow> u32 \<Rightarrow> Txn \<Rightarrow> 's \<Rightarrow> int \<times> Txn \<times> 's" where
  "load_region b owner pages rights fill va perms t s =
     (case xb_alloc b owner pages rights s of (rc, tok, s) \<Rightarrow>
        if rc \<noteq> 0 then (XLOAD_E_NOMEM, t\<lparr>tx_va := [], tx_tok := []\<rparr>, rollback b t s)
        else (let t = t\<lparr>tx_tok := tok # tx_tok t\<rparr>; s = fill tok s; (rc, s) = xb_map b (tx_as t) va tok perms s in
          if rc \<noteq> 0 then (XLOAD_E_MAP, t\<lparr>tx_va := [], tx_tok := []\<rparr>, rollback b t s)
          else (0, t\<lparr>tx_va := va # tx_va t\<rparr>, s)))"

fun load_segs :: "'s Backend \<Rightarrow> u32 \<Rightarrow> bytes \<Rightarrow> ExbSeg list \<Rightarrow> Txn \<Rightarrow> 's \<Rightarrow> int \<times> Txn \<times> 's" where
  "load_segs b owner img [] t s = (0, t, s)"
| "load_segs b owner img (g # gs) t s =
     (case load_region b owner (es_pages g) (seg_rights (es_flags g)) (\<lambda>tok s. copy_in b img g (xb_kernel_ptr b tok s) s)
             (es_vaddr g) (seg_perms (es_flags g)) t s of
        (rc, t, s) \<Rightarrow> if rc \<noteq> 0 then (rc, t, s) else load_segs b owner img gs t s)"

definition stack_top :: u64 where
  "stack_top = XLB_USER_TOP - XLB_PAGE"

text \<open>\<open>info0\<close> is what the stack of the function happens to hold where \<open>info\<close> is declared.\<close>

definition xload_exb :: "'s Backend \<Rightarrow> ExbInfo \<Rightarrow> XAspace option \<Rightarrow> u32 \<Rightarrow> bytes option \<Rightarrow> u64 \<Rightarrow> XLoadResult option \<Rightarrow> 's \<Rightarrow>
    int \<times> XLoadResult option \<times> 's" where
  "xload_exb b info0 asp owner imgp fsize out s =
     (if asp = None \<or> imgp = None \<or> out = None \<or> fsize = 0 then (XLOAD_E_ARG, out, s)
      else if owner = XTOK_OWNER_KERNEL then (XLOAD_E_ARG, out, s)
      else (case exb_parse imgp fsize info0 of (prc, info) \<Rightarrow>
        if prc \<noteq> EXB_OK then (XLOAD_E_IMAGE, out, s)
        else (let stack_pages = ucast (ei_stack_bytes info) div XLB_PAGE;
                  frames = ei_image_pages info + stack_pages;
                  tokens = ei_seg_count info + 1 in
          if \<not> xb_quota_ok b owner frames tokens s then (XLOAD_E_QUOTA, out, s)
          else (let t = \<lparr>tx_as = the asp, tx_tok = [], tx_va = []\<rparr> in
            case load_segs b owner (the imgp) (map (\<lambda>i. ei_seg info ! i) [0..<unat (ei_seg_count info)]) t s of (rc, t, s) \<Rightarrow>
              if rc \<noteq> 0 then (rc, out, s)
              else (let stack_base = stack_top - ucast (ei_stack_bytes info) in
                case load_region b owner stack_pages (XTOK_RIGHT_READ OR XTOK_RIGHT_WRITE OR XTOK_RIGHT_MAP OR XTOK_RIGHT_RELEASE)
                       (\<lambda>tok s. s) stack_base (XLB_PERM_R OR XLB_PERM_W) t s of (rc, t, s) \<Rightarrow>
                  if rc \<noteq> 0 then (rc, out, s)
                  else (XLOAD_OK, Some \<lparr>lr_entry = ei_entry info, lr_stack_top = stack_top, lr_stack_bytes = ei_stack_bytes info,
                          lr_tokens_granted = ei_extra_tokens info\<rparr>, s))))))"

section \<open>The amd64 backend\<close>

definition xlb_quota_ok :: "u32 \<Rightarrow> u64 \<Rightarrow> u32 \<Rightarrow> 'a Sys_scheme \<Rightarrow> bool" where
  "xlb_quota_ok owner frames tokens s =
     (let (max_frames, max_tokens) = xproc_quota_get owner s;
          (used_frames, used_tokens) = xtok_owner_usage owner s in
      if used_frames > max_frames \<or> used_tokens > max_tokens then False
      else if frames > max_frames - used_frames then False
      else if tokens > max_tokens - used_tokens then False
      else True)"

definition xlb_alloc :: "u32 \<Rightarrow> u64 \<Rightarrow> u32 \<Rightarrow> 'a Sys_scheme \<Rightarrow> int \<times> u64 \<times> 'a Sys_scheme" where
  "xlb_alloc owner frames rights s =
     (let (t, s) = xtok_alloc_ram owner frames rights s in if t = XTOKEN_INVALID then (XLOAD_E_NOMEM, 0, s) else (0, t, s))"

definition xlb_kernel_ptr :: "u64 \<Rightarrow> 'a Sys_scheme \<Rightarrow> u64" where
  "xlb_kernel_ptr token s = (case xtok_ram_info token s of (rc, Some (phys, frames)) \<Rightarrow> phys | (rc, None) \<Rightarrow> 0)"

definition xlb_store :: "u64 \<Rightarrow> u8 \<Rightarrow> 'a Sys_scheme \<Rightarrow> 'a Sys_scheme" where
  "xlb_store a v s = s\<lparr>xm_mem := (xm_mem s)(a := v)\<rparr>"

definition xlb_release :: "u64 \<Rightarrow> 'a Sys_scheme \<Rightarrow> 'a Sys_scheme" where
  "xlb_release token s = snd (xtok_reclaim token s)"

definition xlb_map :: "XAspace \<Rightarrow> u64 \<Rightarrow> u64 \<Rightarrow> u32 \<Rightarrow> 'a Sys_scheme \<Rightarrow> int \<times> 'a Sys_scheme" where
  "xlb_map as vaddr token perms s = (let (rc, s) = xas_map (Some as) vaddr token perms s in (if rc = XAS_OK then 0 else XLOAD_E_MAP, s))"

definition xlb_unmap :: "XAspace \<Rightarrow> u64 \<Rightarrow> 'a Sys_scheme \<Rightarrow> int \<times> 'a Sys_scheme" where
  "xlb_unmap as vaddr s = (let (rc, s) = xas_unmap (Some as) vaddr s in (if rc = XAS_OK then 0 else -1, s))"

definition amd64 :: "'a Sys_scheme Backend" where
  "amd64 = \<lparr>xb_quota_ok = xlb_quota_ok, xb_alloc = xlb_alloc, xb_kernel_ptr = xlb_kernel_ptr, xb_store = xlb_store,
     xb_release = xlb_release, xb_map = xlb_map, xb_unmap = xlb_unmap\<rparr>"

end
