(* ===== verification/Paging_View.thy ===== *)
theory Paging_View
  imports Paging_Frame Paging_Live
begin

text \<open>
  What user programs see. The walk of a live address space is a function of its leaves, so the effect of
  \<open>xas_map\<close> and \<open>xas_unmap\<close> on every translation of every address space can be stated exactly.
\<close>

section \<open>The walk as a function of the leaves\<close>

definition leaf_access :: "u64 \<Rightarrow> u64 \<Rightarrow> Access" where
  "leaf_access va e = \<lparr>ac_phys = (e AND XPT_ADDR_MASK) OR (va AND 0xFFF), ac_user = bit e 2, ac_write = bit e 1,
     ac_exec = (\<not> bit e 63), ac_uncached = bit e 4\<rparr>"

lemma user_va_canonical: "user_va va \<Longrightarrow> canonical va"
  by (simp add: user_va_def canonical_def word_less_nat_alt)

lemma mmu_leaf:
  assumes t: "tree K R M m tot" and f: "R f = Some (P, [])" "P \<noteq> K" and va: "user_va va"
  shows "mmu m P va = map_option (leaf_access va) (M (P, path4 va))"
proof (cases "M (P, path4 va)")
  case None
  have i: "1 \<le> ix 39 va" "ix 39 va < 256" using user_va_ix [OF va] by simp_all
  show ?thesis using mmu_user_half [OF t f i] None by (cases "mmu m P va") auto
next
  case (Some e)
  note d = treeD [OF t]
  have up: "\<exists>h. R h = Some (P, p) \<and> ent m h x AND XPT_ADDR_MASK = fa g \<and> bit (ent m h x) 0 \<and> \<not> bit (ent m h x) 7 \<and>
      bit (ent m h x) 2 \<and> bit (ent m h x) 1 \<and> \<not> bit (ent m h x) 63" if g: "R g = Some (P, p @ [x])" for g p x
  proof -
    obtain h where h: "R h = Some (P, p)" "ent m h x = ptr g (fl K P)" using d(5) [OF g] by blast
    have "g < 33554432" using d(1) d(2) [OF g] by linarith
    moreover from this have "\<not> bit (fa g) 63" unfolding bit_fa by (simp add: bit_iff_odd)
    then have "\<not> bit (ptr g (fl K P)) 63" by (simp add: ptr_def fl_def bit_or_iff)
    ultimately show ?thesis using h f(2) ptr_addr [of g "fl K P"] ptr_bit [of _ g "fl K P"] by (intro exI [of _ h]) (auto simp: fl_def)
  qed
  define a b c l where abc: "a = ix 39 va" "b = ix 30 va" "c = ix 21 va" "l = ix 12 va"
  have "path4 va = [a, b, c] @ [l]" by (simp add: path4_def abc)
  then obtain f3 where f3: "R f3 = Some (P, [a, b] @ [c])" "e = ent m f3 l" "bit e 0"
    using Some d(6) [of P "[a, b, c]" l e] by (auto simp: is_leaf_def)
  obtain f2 where f2: "R f2 = Some (P, [a] @ [b])" "ent m f2 c AND XPT_ADDR_MASK = fa f3" "bit (ent m f2 c) 0" "\<not> bit (ent m f2 c) 7"
      "bit (ent m f2 c) 2" "bit (ent m f2 c) 1" "\<not> bit (ent m f2 c) 63"
    using up [OF f3(1)] by auto
  obtain f1 where f1: "R f1 = Some (P, [] @ [a])" "ent m f1 b AND XPT_ADDR_MASK = fa f2" "bit (ent m f1 b) 0" "\<not> bit (ent m f1 b) 7"
      "bit (ent m f1 b) 2" "bit (ent m f1 b) 1" "\<not> bit (ent m f1 b) 63"
    using up [OF f2(1)] by auto
  obtain f0 where f0: "R f0 = Some (P, [])" "ent m f0 a AND XPT_ADDR_MASK = fa f1" "bit (ent m f0 a) 0"
      "bit (ent m f0 a) 2" "bit (ent m f0 a) 1" "\<not> bit (ent m f0 a) 63"
    using up [OF f1(1)] by auto
  have fb: "f0 < 33554432" using d(1) d(2) [OF f0(1)] by linarith
  have P: "P AND XPT_ADDR_MASK = fa f0" using d(3) [OF f0(1)] fa_masked [OF fb] by simp
  have "mmu m P va = Some (access ((e AND XPT_ADDR_MASK) OR (va AND 0xFFF)) [ent m f0 a, ent m f1 b, ent m f2 c, e])"
    unfolding mmu_def abc [symmetric] P load_entry Let_def
    using user_va_canonical [OF va] f0(2-3) f1(2-4) f2(2-4) f3(2,3) by (simp add: load_entry)
  then show ?thesis using f0(4-6) f1(5-7) f2(5-7) by (simp add: Some access_def leaf_access_def)
qed

lemma mmu_space:
  assumes ok: "pt_ok sp R M s" and P: "sp P \<noteq> None" and va: "user_va va"
  shows "mmu (xm_mem s) P va = map_option (leaf_access va) (M (P, path4 va))"
proof -
  obtain f where f: "R f = Some (P, [])" "P \<noteq> pt_pml4_phys s" using pt_okD(5) [OF ok, of P] P by auto
  have t: "tree (pt_pml4_phys s) R M (xm_mem s) (unat (pb_total (xm_phys s)))" using pt_okD(2) [OF ok] by (simp add: trees_def)
  show ?thesis by (rule mmu_leaf [OF t f va])
qed

section \<open>The bytes of a range\<close>

lemma path4_cong:
  assumes "unat a div 4096 = unat b div 4096"
  shows "path4 a = path4 b"
proof -
  have "ix n a = ix n b" if "12 \<le> n" for n
  proof -
    have e: "(2 :: nat) ^ n = 4096 * 2 ^ (n - 12)" using that power_add [of "2 :: nat" 12 "n - 12"] by simp
    have "unat a div 2 ^ n = unat b div 2 ^ n" unfolding e div_mult2_eq using assms by simp
    then have "unat (drop_bit n a) = unat (drop_bit n b)" unfolding unat_drop_bit_eq by (simp only: drop_bit_eq_div)
    then have "drop_bit n a = drop_bit n b" by (simp only: word_unat_eq_iff)
    then show ?thesis by (simp add: ix_def)
  qed
  then show ?thesis by (simp add: path4_def)
qed

text \<open>Byte \<open>off\<close> of a user range lies in page \<open>off div 4096\<close> of it.\<close>

lemma range_byte:
  assumes r: "user_range virt n" and off: "off < n * 4096"
  shows "user_va (virt + of_nat off)" "unat (virt + of_nat off) = unat virt + off"
    "path4 (virt + of_nat off) = path4 (page virt (off div 4096))" "off div 4096 < n"
    "(virt + of_nat off) AND 0xFFF = of_nat (off mod 4096)"
proof -
  show i: "off div 4096 < n" using off by (simp add: div_less_iff_less_mult)
  have b: "unat virt mod 4096 = 0" "unat virt + n * 4096 \<le> 140737488355328" "user_va virt" using r by (simp_all add: user_range_def)
  show u: "unat (virt + of_nat off) = unat virt + off" 
  proof -
    have o: "unat (of_nat off :: u64) = off" by (rule unat_of_nat_u64) (use b(2) off in linarith)
    have "unat virt + unat (of_nat off :: u64) < 2 ^ LENGTH(64)" unfolding o using b(2) off by simp
    then show ?thesis using o unat_add_lem [of virt "of_nat off"] by simp
  qed
  have ub: "549755813888 \<le> unat virt" using b(3) by (simp add: user_va_def word_le_nat_alt)
  show "user_va (virt + of_nat off)" unfolding user_va_def word_le_nat_alt word_less_nat_alt u using ub b(2) off by simp
  have d: "(unat virt + off) div 4096 = unat virt div 4096 + off div 4096" "(unat virt + off) mod 4096 = off mod 4096"
    using b(1) by (simp_all add: div_add1_eq mod_add_eq [symmetric, of "unat virt" off])
  show "path4 (virt + of_nat off) = path4 (page virt (off div 4096))"
    by (rule path4_cong) (simp add: u user_range_page(2) [OF r i] d(1))
  have "unat ((virt + of_nat off) AND 0xFFF) = (unat virt + off) mod 4096"
  proof -
    have "(virt + of_nat off) AND 0xFFF = take_bit 12 (virt + of_nat off)" by (simp add: take_bit_eq_mask mask_eq_exp_minus_1)
    moreover have "unat (take_bit 12 (virt + of_nat off)) = unat (virt + of_nat off) mod 4096" by (simp only: take_bit_eq_mod unat_mod) simp
    ultimately show ?thesis by (simp only: u)
  qed
  then show "(virt + of_nat off) AND 0xFFF = of_nat (off mod 4096)"
    by (simp add: d(2) word_unat_eq_iff unat_of_nat_u64)
qed

text \<open>The translation that a mapping with \<open>perms\<close> gives the byte at \<open>phys\<close>.\<close>

definition granted :: "u64 \<Rightarrow> u32 \<Rightarrow> Access" where
  "granted phys perms = \<lparr>ac_phys = phys, ac_user = True, ac_write = (perms AND XPERM_W \<noteq> 0), ac_exec = (perms AND XPERM_X \<noteq> 0), ac_uncached = False\<rparr>"

lemma leaf_granted:
  assumes r: "user_range virt n" and off: "off < n * 4096" and ph: "unat phys mod 4096 = 0" "unat phys div 4096 + n \<le> 33554432"
  shows "leaf_access (virt + of_nat off) ((page phys (off div 4096) AND XPT_ADDR_MASK) OR leaf_flags perms) = granted (phys + of_nat off) perms"
proof -
  let ?i = "off div 4096" and ?e = "(page phys (off div 4096) AND XPT_ADDR_MASK) OR leaf_flags perms"
  note rb = range_byte [OF r off]
  have p: "unat phys = unat phys div 4096 * 4096" using div_mult_mod_eq [of "unat phys" 4096] ph(1) by linarith
  have pb: "unat phys + n * 4096 \<le> 137438953472" using p ph(2) by linarith
  have up: "unat (page phys ?i) = unat phys + ?i * 4096" unfolding page_def by (rule page_addr(1) [OF ph(1) _ rb(4)]) (use pb in linarith)
  have al: "unat (page phys ?i) mod 4096 = 0" "unat (page phys ?i) < 4503599627370496" unfolding up using ph(1) pb rb(4) by (simp_all add: mod_add_eq [symmetric])
  have "?e AND XPT_ADDR_MASK = page phys ?i AND XPT_ADDR_MASK" by (simp add: bit.conj_disj_distrib2 leaf_flags_bits and.assoc)
  then have "(?e AND XPT_ADDR_MASK) OR ((virt + of_nat off) AND 0xFFF) = page phys ?i + ((virt + of_nat off) AND 0xFFF)"
    by (simp only: aligned_bits [OF al])
  also have "\<dots> = phys + of_nat (?i * 4096 + off mod 4096)" unfolding page_def rb(5) by (simp only: of_nat_add of_nat_mult of_nat_numeral add.assoc)
  also have "?i * 4096 + off mod 4096 = off" by simp
  finally have a: "(?e AND XPT_ADDR_MASK) OR ((virt + of_nat off) AND 0xFFF) = phys + of_nat off" .
  have b: "bit ?e n \<longleftrightarrow> bit (leaf_flags perms) n" if "n < 12 \<or> 52 \<le> n" for n using that bit_addr_mask [of n] by (auto simp only: bit_or_iff bit_and_iff)
  have "bit (leaf_flags perms) 2" "\<not> bit (leaf_flags perms) 4" by (simp_all add: leaf_flags_def Let_def bit_or_iff)
  then show ?thesis unfolding leaf_access_def granted_def a using leaf_flags_bits(1,2) [of perms] by (simp add: b)
qed

section \<open>Mapping and unmapping\<close>

definition covers :: "u64 \<Rightarrow> nat \<Rightarrow> u64 \<Rightarrow> bool" where
  "covers virt n va \<longleftrightarrow> unat virt \<le> unat va \<and> unat va < unat virt + n * 4096"

lemma covers_key:
  assumes r: "user_range virt n" and va: "user_va va"
  shows "(P, path4 va) \<in> pkeys P virt n \<longleftrightarrow> covers virt n va"
proof
  assume "(P, path4 va) \<in> pkeys P virt n"
  then obtain i where i: "i < n" "path4 va = path4 (page virt i)" by (auto simp: pkeys_def)
  note p = user_range_page [OF r i(1)]
  have b: "unat va < 281474976710656" "unat (page virt i) < 281474976710656" using va p(1) by (simp_all add: user_va_def word_less_nat_alt)
  have d: "unat va div 4096 = (unat virt + i * 4096) div 4096" using path4_inj [OF i(2) b] unfolding p(2) .
  have v: "unat virt = unat virt div 4096 * 4096" using r div_mult_mod_eq [of "unat virt" 4096] by (simp add: user_range_def)
  have q: "unat va div 4096 = unat virt div 4096 + i" using d by simp
  have "unat va = (unat virt div 4096 + i) * 4096 + unat va mod 4096" using div_mult_mod_eq [of "unat va" 4096] unfolding q by (rule sym)
  also have "(unat virt div 4096 + i) * 4096 = unat virt + i * 4096" unfolding add_mult_distrib by (simp only: v [symmetric])
  finally have "unat va = unat virt + i * 4096 + unat va mod 4096" .
  then obtain m where m: "unat va = unat virt + i * 4096 + m" "m < 4096" by (rule that) simp
  have "(i + 1) * 4096 \<le> n * 4096" by (rule mult_le_mono1) (use i(1) in simp)
  then show "covers virt n va" unfolding covers_def m(1) using m(2) by simp
next
  assume c: "covers virt n va"
  define off where "off = unat va - unat virt"
  have off: "off < n * 4096" using c by (auto simp: covers_def off_def)
  note rb = range_byte [OF r off]
  have "unat va = unat (virt + of_nat off)" using c unfolding rb(2) by (simp add: covers_def off_def)
  then have "va = virt + of_nat off" by (simp only: word_unat_eq_iff)
  then show "(P, path4 va) \<in> pkeys P virt n" using rb(3,4) by (auto simp: pkeys_def)
qed

lemma token_aligned:
  assumes ok: "pt_ok sp R M s" and e: "toks s t = Some e"
  shows "unat (te_phys e) mod 4096 = 0" "unat (te_phys e) div 4096 + unat (te_frames e) \<le> 33554432" "te_kind e = XTOK_KIND_RAM" "te_frames e \<noteq> 0"
proof -
  obtain sl where sl: "lookup_live t s = Some sl" "e = lg_table s ! sl" using e by (auto simp: toks_Some_iff)
  have tot: "unat (pb_total (xm_phys s)) \<le> 33554432" using pt_okD(2) [OF ok] treeD(1) unfolding trees_def by blast
  have eo: "entry_ok (xm_phys s) e" "te_live e" using ledger_invD(3) [OF pt_okD(1) [OF ok] lookup_liveD(1) [OF sl(1)]] lookup_liveD(2) [OF sl(1)] sl(2) by simp_all
  then show "unat (te_phys e) mod 4096 = 0" "unat (te_phys e) div 4096 + unat (te_frames e) \<le> 33554432" "te_kind e = XTOK_KIND_RAM" "te_frames e \<noteq> 0"
    using tot by (auto simp: entry_ok_def)
qed

lemma xas_map_view:
  assumes inv: "pt_inv B sp s" and a: "as_live a" "sp (as_pml4_phys a) = Some (as_owner_id a)" and mp: "xas_map (Some a) virt tok perms s = (XAS_OK, s')"
  shows "\<exists>e. toks s tok = Some e \<and> te_owner e = as_owner_id a \<and> te_rights e AND need_rights perms = need_rights perms \<and> user_range virt (unat (te_frames e)) \<and>
    (\<forall>off < unat (te_frames e) * 4096. mmu (xm_mem s) (as_pml4_phys a) (virt + of_nat off) = None \<and>
       mmu (xm_mem s') (as_pml4_phys a) (virt + of_nat off) = Some (granted (te_phys e + of_nat off) perms)) \<and>
    (\<forall>Q va. sp Q \<noteq> None \<longrightarrow> user_va va \<longrightarrow> \<not> (Q = as_pml4_phys a \<and> covers virt (unat (te_frames e)) va) \<longrightarrow>
       mmu (xm_mem s') Q va = mmu (xm_mem s) Q va)"
proof -
  let ?P = "as_pml4_phys a"
  obtain R M where ok: "pt_ok sp R M s" using inv by (rule pt_invE)
  obtain R' e where d: "toks s tok = Some e" "te_owner e = as_owner_id a" "te_rights e AND need_rights perms = need_rights perms"
    "user_range virt (unat (te_frames e))" "dom M \<inter> pkeys ?P virt (unat (te_frames e)) = {}"
    "pt_ok sp R' (M ++ pleaves ?P virt (te_phys e) (leaf_flags perms) (unat (te_frames e))) s'"
    using xas_map_spec(2) [OF ok _ mp] a by (auto simp: map_done_def)
  let ?n = "unat (te_frames e)" and ?L = "pleaves ?P virt (te_phys e) (leaf_flags perms) (unat (te_frames e))"
  note al = token_aligned [OF ok d(1)]
  have sp: "sp ?P \<noteq> None" using a(2) by simp
  have "mmu (xm_mem s) ?P (virt + of_nat off) = None \<and> mmu (xm_mem s') ?P (virt + of_nat off) = Some (granted (te_phys e + of_nat off) perms)"
    if off: "off < ?n * 4096" for off
  proof -
    note rb = range_byte [OF d(4) off]
    have key: "(?P, path4 (virt + of_nat off)) \<in> pkeys ?P virt ?n" using rb(3,4) by (auto simp: pkeys_def)
    have "M (?P, path4 (virt + of_nat off)) = None" using d(5) key by blast
    moreover have "?L (?P, path4 (virt + of_nat off)) = Some ((page (te_phys e) (off div 4096) AND XPT_ADDR_MASK) OR leaf_flags perms)"
      unfolding rb(3) by (rule pleaves_at [OF d(4) rb(4)])
    ultimately show ?thesis using mmu_space [OF ok sp rb(1)] mmu_space [OF d(6) sp rb(1)] leaf_granted [OF d(4) off al(1,2)]
      by (simp add: map_add_def)
  qed
  moreover have "mmu (xm_mem s') Q va = mmu (xm_mem s) Q va" if Q: "sp Q \<noteq> None" "user_va va" "\<not> (Q = ?P \<and> covers virt ?n va)" for Q va
  proof -
    have "(Q, path4 va) \<notin> pkeys ?P virt ?n" using covers_key [OF d(4) Q(2), of ?P] Q(3) by (auto simp: pkeys_def)
    then have "?L (Q, path4 va) = None" using dom_pleaves [of ?P virt "te_phys e" "leaf_flags perms" ?n] by blast
    then show ?thesis using mmu_space [OF ok Q(1,2)] mmu_space [OF d(6) Q(1,2)] by (simp add: map_add_def)
  qed
  ultimately show ?thesis using d(1-4) by blast
qed

lemma xas_map_fail_view:
  assumes inv: "pt_inv B sp s" and a: "as_live a \<longrightarrow> sp (as_pml4_phys a) = Some (as_owner_id a)" and mp: "xas_map (Some a) virt tok perms s = (rc, s')" "rc \<noteq> XAS_OK"
  shows "toks s' = toks s" "pt_maps s' = pt_maps s" "sp Q \<noteq> None \<Longrightarrow> user_va va \<Longrightarrow> mmu (xm_mem s') Q va = mmu (xm_mem s) Q va"
proof -
  obtain R M where ok: "pt_ok sp R M s" using inv by (rule pt_invE)
  obtain R' where d: "pt_ok sp R' M s'" "toks s' = toks s" "pt_maps s' = pt_maps s"
    using xas_map_spec(3) [OF ok a mp] by (auto simp: map_failed_def)
  show "toks s' = toks s" "pt_maps s' = pt_maps s" by (fact d)+
  show "mmu (xm_mem s') Q va = mmu (xm_mem s) Q va" if Q: "sp Q \<noteq> None" "user_va va"
    by (simp only: mmu_space [OF ok Q] mmu_space [OF d(1) Q])
qed

lemma drop_view:
  assumes inv: "pt_inv B sp s" and k: "k < 1024" "mr_live (pt_maps s ! k)" "r = pt_maps s ! k"
    and Q: "sp Q \<noteq> None" "user_va va"
  shows "mmu (xm_mem (drop_record k s)) Q va =
    (if Q = mr_as_pml4 r \<and> covers (mr_virt r) (unat (mr_pages r)) va then None else mmu (xm_mem s) Q va)"
proof -
  obtain R M where ok: "pt_ok sp R M s" using inv by (rule pt_invE)
  note d = drop_record_spec [OF ok k(1,2), folded k(3)]
  have ur: "user_range (mr_virt r) (unat (mr_pages r))" using recs2 [OF pt_okD(7) [OF ok] k(1,2)] by (simp add: rec_ok_def k(3))
  have "(Q, path4 va) \<in> rkeys r \<longleftrightarrow> Q = mr_as_pml4 r \<and> covers (mr_virt r) (unat (mr_pages r)) va"
    using covers_key [OF ur Q(2), of Q] by (auto simp: rkeys_def pkeys_def)
  then show ?thesis using mmu_space [OF ok Q] mmu_space [OF d(1) Q] by (simp add: restrict_map_def)
qed

end
