(* ===== verification/Load_Inv.thy ===== *)
theory Load_Inv
  imports Load Sys_Inv Paging_View
begin

text \<open>
  The loader as a transaction. \<open>load_machine\<close> is the contract of \<open>xload_backend.h\<close>: what allocation,
  release, mapping, unmapping and the writes through \<open>xlb_kernel_ptr\<close> do to the tokens, to the mappings and
  to the contents of the tokens. Under it the loader either builds the whole image, or gives back every
  token and every mapping it made. The contract is then discharged for the amd64 backend.
\<close>

section \<open>The contract\<close>

text \<open>The bytes a segment must have in memory: its part of the file, then zeros.\<close>

definition seg_bytes :: "u8 list \<Rightarrow> ExbSeg \<Rightarrow> nat \<Rightarrow> u8" where
  "seg_bytes img g j = (if j < unat (es_file_size g) then img ! (unat (es_file_off g) + j) else 0)"

text \<open>\<open>held\<close> gives the tokens with what does not change while they are mapped, \<open>mapped\<close> the mappings by address space and
  address, with the token and whatever else can be observed of them, \<open>byte\<close> the contents.\<close>

locale load_machine =
  fixes b :: "'s Backend" and asp :: XAspace and inv :: "'s \<Rightarrow> bool"
    and held :: "'s \<Rightarrow> u64 \<rightharpoonup> 'e" and bytes_of :: "'e \<Rightarrow> nat"
    and mapped :: "'s \<Rightarrow> u64 \<times> u64 \<rightharpoonup> u64 \<times> 'v"
    and grants :: "'e \<Rightarrow> u64 \<Rightarrow> u32 \<Rightarrow> 'v"
    and byte :: "'s \<Rightarrow> u64 \<Rightarrow> nat \<Rightarrow> u8"
  assumes mapped_held: "inv s \<Longrightarrow> mapped s ky = Some (t, w) \<Longrightarrow> held s t \<noteq> None"
    and alloc_ok: "inv s \<Longrightarrow> xb_alloc b owner n r s = (0, tok, s') \<Longrightarrow>
      inv s' \<and> held s tok = None \<and> mapped s' = mapped s \<and>
      (\<exists>e. held s' = (held s)(tok \<mapsto> e) \<and> bytes_of e = unat n * 4096) \<and>
      (\<forall>k < unat n * 4096. byte s' tok k = 0) \<and> (\<forall>t \<in> dom (held s). byte s' t = byte s t)"
    and alloc_fail: "inv s \<Longrightarrow> xb_alloc b owner n r s = (rc, tok, s') \<Longrightarrow> rc \<noteq> 0 \<Longrightarrow>
      inv s' \<and> held s' = held s \<and> mapped s' = mapped s \<and> (\<forall>t \<in> dom (held s). byte s' t = byte s t)"
    and write_ok: "inv s \<Longrightarrow> held s tok = Some e \<Longrightarrow> k < bytes_of e \<Longrightarrow> s' = xb_store b (xb_kernel_ptr b tok s + of_nat k) v s \<Longrightarrow>
      inv s' \<and> held s' = held s \<and> mapped s' = mapped s \<and> xb_kernel_ptr b tok s' = xb_kernel_ptr b tok s \<and>
      (\<forall>j < bytes_of e. byte s' tok j = (if j = k then v else byte s tok j)) \<and> (\<forall>t \<in> dom (held s) - {tok}. byte s' t = byte s t)"
    and map_ok: "inv s \<Longrightarrow> xb_map b asp va tok p s = (0, s') \<Longrightarrow>
      inv s' \<and> mapped s (as_pml4_phys asp, va) = None \<and> held s' = held s \<and>
      (\<exists>e. held s tok = Some e \<and> mapped s' = (mapped s)((as_pml4_phys asp, va) \<mapsto> (tok, grants e va p))) \<and>
      (\<forall>t \<in> dom (held s). byte s' t = byte s t)"
    and map_fail: "inv s \<Longrightarrow> xb_map b asp va tok p s = (rc, s') \<Longrightarrow> rc \<noteq> 0 \<Longrightarrow>
      inv s' \<and> held s' = held s \<and> mapped s' = mapped s \<and> (\<forall>t \<in> dom (held s). byte s' t = byte s t)"
    and unmap_ok: "inv s \<Longrightarrow> mapped s (as_pml4_phys asp, va) \<noteq> None \<Longrightarrow> s' = snd (xb_unmap b asp va s) \<Longrightarrow>
      inv s' \<and> held s' = held s \<and> mapped s' = (mapped s)((as_pml4_phys asp, va) := None) \<and> (\<forall>t \<in> dom (held s). byte s' t = byte s t)"
    and release_ok: "inv s \<Longrightarrow> held s tok \<noteq> None \<Longrightarrow> \<forall>ky w. mapped s ky \<noteq> Some (tok, w) \<Longrightarrow> s' = xb_release b tok s \<Longrightarrow>
      inv s' \<and> held s' = (held s)(tok := None) \<and> mapped s' = mapped s \<and> (\<forall>t \<in> dom (held s) - {tok}. byte s' t = byte s t)"
begin

text \<open>The state \<open>s\<close> is \<open>s0\<close> with the tokens \<open>tks\<close> and the mappings at \<open>vas\<close> added.\<close>

definition grew :: "'s \<Rightarrow> u64 list \<Rightarrow> u64 list \<Rightarrow> 's \<Rightarrow> bool" where
  "grew s0 tks vas s \<longleftrightarrow> inv s \<and> distinct tks \<and> distinct vas \<and>
     held s |` (- set tks) = held s0 \<and> set tks \<subseteq> dom (held s) \<and>
     mapped s |` (- ((\<lambda>va. (as_pml4_phys asp, va)) ` set vas)) = mapped s0 \<and> (\<lambda>va. (as_pml4_phys asp, va)) ` set vas \<subseteq> dom (mapped s) \<and>
     (\<forall>t \<in> dom (held s0). byte s t = byte s0 t)"

lemma grew_refl: "inv s \<Longrightarrow> grew s [] [] s"
  by (simp add: grew_def restrict_map_def)

lemma unmap_all:
  assumes "grew s0 tks vas s"
  shows "grew s0 tks [] (fold (\<lambda>va s. snd (xb_unmap b asp va s)) vas s)"
  using assms
proof (induction vas arbitrary: s)
  case Nil
  then show ?case by simp
next
  case (Cons va vas)
  let ?P = "as_pml4_phys asp"
  define s1 where "s1 = snd (xb_unmap b asp va s)"
  have g: "inv s" "mapped s (?P, va) \<noteq> None" "va \<notin> set vas" "held s |` (- set tks) = held s0"
    "mapped s |` (- ((\<lambda>va. (?P, va)) ` set (va # vas))) = mapped s0" "(\<lambda>va. (?P, va)) ` set (va # vas) \<subseteq> dom (mapped s)"
    "\<forall>t \<in> dom (held s0). byte s t = byte s0 t"
    using Cons.prems by (auto simp: grew_def)
  note u = unmap_ok [OF g(1,2) s1_def]
  have sub: "dom (held s0) \<subseteq> dom (held s)" unfolding g(4) [symmetric] by auto
  have by1: "\<forall>t \<in> dom (held s0). byte s1 t = byte s0 t" using u g(7) sub by (metis subsetD)
  have "mapped s1 |` (- ((\<lambda>va. (?P, va)) ` set vas)) = mapped s0"
    unfolding g(5) [symmetric] using u by (auto simp: restrict_map_def fun_eq_iff)
  moreover have "(\<lambda>va. (?P, va)) ` set vas \<subseteq> dom (mapped s1)" using u g(3,6) by auto
  ultimately have "grew s0 tks vas s1" using Cons.prems u by1 unfolding grew_def by (metis distinct.simps(2))
  from Cons.IH [OF this] show ?case by (simp add: s1_def)
qed

lemma release_all:
  assumes "inv s0" "grew s0 tks [] s"
  shows "grew s0 [] [] (fold (xb_release b) tks s)"
  using assms(2)
proof (induction tks arbitrary: s)
  case Nil
  then show ?case by simp
next
  case (Cons tok tks)
  define s1 where "s1 = xb_release b tok s"
  have g: "inv s" "held s tok \<noteq> None" "tok \<notin> set tks" "held s |` (- set (tok # tks)) = held s0" "mapped s = mapped s0"
    "set (tok # tks) \<subseteq> dom (held s)" "\<forall>t \<in> dom (held s0). byte s t = byte s0 t"
    using Cons.prems by (auto simp: grew_def restrict_map_def)
  have "held s0 tok = None" unfolding g(4) [symmetric] by (simp add: restrict_map_def)
  then have "\<forall>ky w. mapped s ky \<noteq> Some (tok, w)" using mapped_held [OF assms(1)] g(5) by metis
  note r = release_ok [OF g(1,2) this s1_def]
  have "held s1 |` (- set tks) = held s0" unfolding g(4) [symmetric] using r by (auto simp: restrict_map_def fun_eq_iff)
  moreover have "set tks \<subseteq> dom (held s1)" using r g(3,6) by auto
  moreover have "byte s1 t = byte s0 t" if "t \<in> dom (held s0)" for t
  proof -
    have "t \<in> dom (held s) - {tok}" using that unfolding g(4) [symmetric] by (auto simp: restrict_map_def split: if_splits)
    then show ?thesis using r g(7) that by simp
  qed
  ultimately have "grew s0 tks [] s1" using Cons.prems r g(5) by (auto simp: grew_def restrict_map_def)
  from Cons.IH [OF this] show ?case by (simp add: s1_def)
qed

lemma rollback_ok:
  assumes "inv s0" "grew s0 (tx_tok t) (tx_va t) s" "tx_as t = asp"
  shows "grew s0 [] [] (rollback b t s)"
  unfolding rollback_def assms(3) by (rule release_all [OF assms(1) unmap_all [OF assms(2)]])

text \<open>Nothing that was there is gone or changed.\<close>

definition extends :: "'s \<Rightarrow> 's \<Rightarrow> bool" where
  "extends s s' \<longleftrightarrow> held s \<subseteq>\<^sub>m held s' \<and> mapped s \<subseteq>\<^sub>m mapped s' \<and> (\<forall>t \<in> dom (held s). byte s' t = byte s t)"

lemma extends_refl: "extends s s"
  by (simp add: extends_def)

lemma extends_trans: "extends s s1 \<Longrightarrow> extends s1 s2 \<Longrightarrow> extends s s2"
  unfolding extends_def by (metis map_le_trans map_le_implies_dom_le subsetD)

lemma grew_dom: "grew s0 tks vas s \<Longrightarrow> t \<in> dom (held s0) \<Longrightarrow> t \<in> dom (held s) \<and> t \<notin> set tks"
  unfolding grew_def by (auto simp: restrict_map_def fun_eq_iff split: if_splits) (metis option.distinct(1))+

lemma grew_same:
  assumes "grew s0 tks vas s" "inv s'" "held s' = held s" "mapped s' = mapped s" "\<forall>t \<in> dom (held s) - set tks. byte s' t = byte s t"
  shows "grew s0 tks vas s'"
  using assms grew_dom [OF assms(1)] unfolding grew_def by simp

lemma grew_alloc:
  assumes g: "grew s0 tks vas s" and al: "xb_alloc b owner n r s = (0, tok, s')"
  shows "grew s0 (tok # tks) vas s'" "extends s s'"
proof -
  have iv: "inv s" using g by (simp add: grew_def)
  obtain e where e: "inv s'" "held s tok = None" "mapped s' = mapped s" "held s' = (held s)(tok \<mapsto> e)" "\<forall>t \<in> dom (held s). byte s' t = byte s t"
    using alloc_ok [OF iv al] by blast
  have "held s' |` (- set (tok # tks)) = held s |` (- set tks)" using e(2,4) by (auto simp: restrict_map_def fun_eq_iff)
  moreover have "tok \<notin> set tks" "set (tok # tks) \<subseteq> dom (held s')" using g e(2,4) by (auto simp: grew_def)
  moreover have "\<forall>t \<in> dom (held s0). byte s' t = byte s0 t" using g e(5) grew_dom [OF g] by (simp add: grew_def)
  ultimately show "grew s0 (tok # tks) vas s'" using g e(1,3) unfolding grew_def by simp
  show "extends s s'" using e unfolding extends_def by (auto simp: map_le_def)
qed

lemma grew_map:
  assumes g: "grew s0 tks vas s" and mp: "xb_map b asp va tok p s = (0, s')"
  shows "grew s0 tks (va # vas) s'" "extends s s'"
proof -
  let ?P = "as_pml4_phys asp"
  have iv: "inv s" using g by (simp add: grew_def)
  obtain v where e: "inv s'" "mapped s (?P, va) = None" "held s' = held s" "mapped s' = (mapped s)((?P, va) \<mapsto> v)" "\<forall>t \<in> dom (held s). byte s' t = byte s t"
    using map_ok [OF iv mp] by blast
  have vn: "(?P, va) \<notin> (\<lambda>va. (?P, va)) ` set vas" using g e(2) unfolding grew_def by blast
  have "mapped s' |` (- ((\<lambda>va. (?P, va)) ` set (va # vas))) = mapped s |` (- ((\<lambda>va. (?P, va)) ` set vas))"
    using e(2,4) vn by (auto simp: restrict_map_def fun_eq_iff)
  moreover have "va \<notin> set vas" "(\<lambda>va. (?P, va)) ` set (va # vas) \<subseteq> dom (mapped s')" using g e(4) vn by (auto simp: grew_def)
  moreover have "\<forall>t \<in> dom (held s0). byte s' t = byte s0 t" using g e(5) grew_dom [OF g] by (simp add: grew_def)
  ultimately show "grew s0 tks (va # vas) s'" using g e(1,3) unfolding grew_def by simp
  show "extends s s'" using e unfolding extends_def by (auto simp: map_le_def)
qed

text \<open>Filling a new token: only its own bytes change.\<close>

definition fills :: "u64 \<Rightarrow> nat \<Rightarrow> (nat \<Rightarrow> u8) \<Rightarrow> 's \<Rightarrow> 's \<Rightarrow> bool" where
  "fills tok n want s s' \<longleftrightarrow> inv s' \<and> held s' = held s \<and> mapped s' = mapped s \<and> (\<forall>j < n. byte s' tok j = want j) \<and>
     (\<forall>t \<in> dom (held s) - {tok}. byte s' t = byte s t)"

lemma copy_in_fills:
  assumes iv: "inv s" and e: "held s tok = Some e" and z: "\<forall>j < bytes_of e. byte s tok j = 0" and fs: "unat (es_file_size g) \<le> bytes_of e"
  shows "fills tok (bytes_of e) (\<lambda>j. if j < unat (es_file_size g) then img ! (unat (es_file_off g) + j) else 0) s
    (copy_in b img g (xb_kernel_ptr b tok s) s)"
proof -
  let ?dst = "xb_kernel_ptr b tok s" and ?n = "bytes_of e"
  let ?step = "\<lambda>k s. xb_store b (?dst + of_nat k) (img ! (unat (es_file_off g) + k)) s"
  have "m \<le> ?n \<Longrightarrow> fills tok ?n (\<lambda>j. if j < m then img ! (unat (es_file_off g) + j) else 0) s (fold ?step [0..<m] s) \<and>
      xb_kernel_ptr b tok (fold ?step [0..<m] s) = ?dst" for m
  proof (induction m)
    case 0
    then show ?case using iv z by (simp add: fills_def)
  next
    case (Suc m)
    define s1 where "s1 = fold ?step [0..<m] s"
    have ih: "inv s1" "held s1 = held s" "mapped s1 = mapped s" "\<forall>j < ?n. byte s1 tok j = (if j < m then img ! (unat (es_file_off g) + j) else 0)"
      "\<forall>t \<in> dom (held s) - {tok}. byte s1 t = byte s t" "xb_kernel_ptr b tok s1 = ?dst"
      using Suc by (simp_all add: fills_def s1_def)
    have h1: "held s1 tok = Some e" using ih(2) e by simp
    have m: "m < ?n" using Suc.prems by simp
    define s2 where "s2 = xb_store b (xb_kernel_ptr b tok s1 + of_nat m) (img ! (unat (es_file_off g) + m)) s1"
    note w = write_ok [OF ih(1) h1 m s2_def]
    have s2: "fold ?step [0..<Suc m] s = s2" by (simp add: s2_def s1_def ih(6) [unfolded s1_def])
    have "\<forall>j < ?n. byte s2 tok j = (if j < Suc m then img ! (unat (es_file_off g) + j) else 0)" using w ih(4) by (auto simp: less_Suc_eq)
    then show ?case unfolding s2 using w ih by (simp add: fills_def)
  qed
  from this [OF fs] show ?thesis by (simp add: copy_in_def)
qed

section \<open>The loader\<close>

text \<open>A region of the image is in place: a token of the right size with the wanted bytes, mapped at \<open>va\<close>.\<close>

definition placed :: "'s \<Rightarrow> u64 \<Rightarrow> nat \<Rightarrow> u32 \<Rightarrow> (nat \<Rightarrow> u8) \<Rightarrow> bool" where
  "placed s va n p want \<longleftrightarrow> (\<exists>tok e. held s tok = Some e \<and> bytes_of e = n \<and>
     mapped s (as_pml4_phys asp, va) = Some (tok, grants e va p) \<and> (\<forall>j < n. byte s tok j = want j))"

lemma placed_extends: "placed s va n p want \<Longrightarrow> extends s s' \<Longrightarrow> placed s' va n p want"
  unfolding placed_def extends_def map_le_def by (metis domI)

lemma extends_fills:
  assumes x: "extends s s1" and n: "held s tok = None" and f: "fills tok n want s1 s2"
  shows "extends s s2"
proof -
  have "byte s2 t = byte s t" if t: "t \<in> dom (held s)" for t
  proof -
    have "t \<in> dom (held s1) - {tok}" using x t n unfolding extends_def by (metis Diff_iff domIff map_le_implies_dom_le singletonD subsetD)
    then show ?thesis using f x t by (simp add: fills_def extends_def)
  qed
  then show ?thesis using x f by (simp add: extends_def fills_def)
qed

lemma load_region_ok:
  assumes s0: "inv s0" and g: "grew s0 (tx_tok t) (tx_va t) s" and as: "tx_as t = asp"
    and fill: "\<And>tok s e. inv s \<Longrightarrow> held s tok = Some e \<Longrightarrow> bytes_of e = unat n * 4096 \<Longrightarrow> \<forall>j < bytes_of e. byte s tok j = 0 \<Longrightarrow>
      fills tok (unat n * 4096) want s (fill tok s)"
    and lr: "load_region b owner n r fill va p t s = (rc, t', s')"
  shows "if rc = 0 then grew s0 (tx_tok t') (tx_va t') s' \<and> tx_as t' = asp \<and> extends s s' \<and> placed s' va (unat n * 4096) p want
    else grew s0 [] [] s'"
proof -
  have iv: "inv s" using g by (simp add: grew_def)
  obtain rc1 tok s1 where al: "xb_alloc b owner n r s = (rc1, tok, s1)" by (metis prod.collapse)
  show ?thesis
  proof (cases "rc1 = 0")
    case False
    then have e: "rc = XLOAD_E_NOMEM" "s' = rollback b t s1" using lr by (simp_all add: load_region_def al)
    have "grew s0 (tx_tok t) (tx_va t) s1" using alloc_fail [OF iv al False] by (intro grew_same [OF g]) auto
    then show ?thesis using rollback_ok [OF s0 _ as] e by simp
  next
    case True
    note al0 = al [unfolded True]
    note ga = grew_alloc [OF g al0]
    have i1: "inv s1" using ga(1) by (simp add: grew_def)
    obtain e where e: "held s1 tok = Some e" "bytes_of e = unat n * 4096" "\<forall>j < bytes_of e. byte s1 tok j = 0" "held s tok = None"
      using alloc_ok [OF iv al0] by auto
    define s2 where "s2 = fill tok s1"
    have f: "fills tok (unat n * 4096) want s1 s2" unfolding s2_def by (rule fill [OF i1 e(1-3)])
    have g2: "grew s0 (tok # tx_tok t) (tx_va t) s2" by (rule grew_same [OF ga(1)]) (use f in \<open>auto simp: fills_def\<close>)
    have x2: "extends s s2" by (rule extends_fills [OF ga(2) e(4) f])
    obtain rc3 s3 where mp: "xb_map b asp va tok p s2 = (rc3, s3)" by fastforce
    let ?t1 = "t\<lparr>tx_tok := tok # tx_tok t\<rparr>"
    show ?thesis
    proof (cases "rc3 = 0")
      case False
      then have q: "rc = XLOAD_E_MAP" "s' = rollback b ?t1 s3" using lr by (simp_all add: load_region_def al0 Let_def as s2_def [symmetric] mp)
      have i2: "inv s2" using g2 by (simp add: grew_def)
      note mf = map_fail [OF i2 mp False]
      have "grew s0 (tok # tx_tok t) (tx_va t) s3" by (rule grew_same [OF g2]) (use mf in blast)+
      then have "grew s0 (tx_tok ?t1) (tx_va ?t1) s3" by simp
      then show ?thesis using rollback_ok [OF s0, of ?t1] as q by simp
    next
      case True
      have q: "rc = 0" "t' = ?t1\<lparr>tx_va := va # tx_va t\<rparr>" "s' = s3"
        using lr True by (simp_all add: load_region_def al0 Let_def as s2_def [symmetric] mp)
      note mp0 = mp [unfolded True]
      note gm = grew_map [OF g2 mp0]
      have h2: "held s2 tok = Some e" "inv s2" "\<forall>j < unat n * 4096. byte s2 tok j = want j" using f e(1) by (simp_all add: fills_def)
      note mo = map_ok [OF h2(2) mp0]
      have m3: "held s3 = held s2" "mapped s3 = (mapped s2)((as_pml4_phys asp, va) \<mapsto> (tok, grants e va p))" using mo h2(1) by (elim conjE exE; simp)+
      have "byte s3 tok = byte s2 tok" using mo h2(1) by blast
      then have "placed s3 va (unat n * 4096) p want" using m3 h2(1,3) e(2) by (simp add: placed_def)
      then show ?thesis using gm extends_trans [OF x2 gm(2)] q as by simp
    qed
  qed
qed

lemma load_segs_ok:
  assumes "inv s0" "grew s0 (tx_tok t) (tx_va t) s" "tx_as t = asp" "\<forall>g \<in> set gs. unat (es_file_size g) \<le> unat (es_pages g) * 4096"
    "load_segs b owner img gs t s = (rc, t', s')"
  shows "if rc = 0 then grew s0 (tx_tok t') (tx_va t') s' \<and> tx_as t' = asp \<and> extends s s' \<and>
      (\<forall>g \<in> set gs. placed s' (es_vaddr g) (unat (es_pages g) * 4096) (seg_perms (es_flags g)) (seg_bytes img g))
    else grew s0 [] [] s'"
  using assms(2-5)
proof (induction gs arbitrary: t s)
  case Nil
  then show ?case by (simp add: extends_refl)
next
  case (Cons g gs)
  let ?fill = "\<lambda>tok s. copy_in b img g (xb_kernel_ptr b tok s) s"
  obtain rc1 t1 s1 where lr: "load_region b owner (es_pages g) (seg_rights (es_flags g)) ?fill (es_vaddr g) (seg_perms (es_flags g)) t s = (rc1, t1, s1)"
    by (rule prod_cases3)
  have fl: "fills tok (unat (es_pages g) * 4096) (seg_bytes img g) s (?fill tok s)"
    if "inv s" "held s tok = Some e" "bytes_of e = unat (es_pages g) * 4096" "\<forall>j < bytes_of e. byte s tok j = 0" for tok s e
  proof -
    have "unat (es_file_size g) \<le> bytes_of e" unfolding that(3) using Cons.prems(3) by (simp only: list.set_intros)
    from copy_in_fills [OF that(1,2,4) this, of img] show ?thesis unfolding that(3) seg_bytes_def [abs_def] .
  qed
  have r: "if rc1 = 0 then grew s0 (tx_tok t1) (tx_va t1) s1 \<and> tx_as t1 = asp \<and> extends s s1 \<and>
      placed s1 (es_vaddr g) (unat (es_pages g) * 4096) (seg_perms (es_flags g)) (seg_bytes img g) else grew s0 [] [] s1"
    by (rule load_region_ok [OF assms(1) Cons.prems(1,2) _ lr]) (rule fl)
  show ?case
  proof (cases "rc1 = 0")
    case False
    then show ?thesis using r Cons.prems(4) lr by simp
  next
    case True
    then have ih: "if rc = 0 then grew s0 (tx_tok t') (tx_va t') s' \<and> tx_as t' = asp \<and> extends s1 s' \<and>
        (\<forall>g \<in> set gs. placed s' (es_vaddr g) (unat (es_pages g) * 4096) (seg_perms (es_flags g)) (seg_bytes img g)) else grew s0 [] [] s'"
      by (intro Cons.IH [of t1 s1]) (use r Cons.prems(3,4) lr in simp_all)
    have x: "extends s s1" "placed s1 (es_vaddr g) (unat (es_pages g) * 4096) (seg_perms (es_flags g)) (seg_bytes img g)" using r True by simp_all
    show ?thesis
    proof (cases "rc = 0")
      case True
      then have "extends s1 s'" using ih by simp
      then show ?thesis using ih True extends_trans [OF x(1)] placed_extends [OF x(2)] by simp
    next
      case False
      then show ?thesis using ih by simp
    qed
  qed
qed

text \<open>What a successful load leaves: every segment and the stack in place, everything else as it was.\<close>

definition loaded :: "u8 list \<Rightarrow> ExbInfo \<Rightarrow> 's \<Rightarrow> 's \<Rightarrow> bool" where
  "loaded img info s s' \<longleftrightarrow> inv s' \<and> extends s s' \<and>
     (\<forall>i < unat (ei_seg_count info). placed s' (es_vaddr (ei_seg info ! i)) (unat (es_pages (ei_seg info ! i)) * 4096)
        (seg_perms (es_flags (ei_seg info ! i))) (seg_bytes img (ei_seg info ! i))) \<and>
     placed s' (stack_top - ucast (ei_stack_bytes info)) (unat (ei_stack_bytes info)) (XLB_PERM_R OR XLB_PERM_W) (\<lambda>_. 0)"

lemma exb_parse_good:
  assumes "exb_parse (Some img) fsize info0 = (EXB_OK, info)" "length (ei_seg info0) = EXB_MAX_SEGS"
  shows "info_good (unat fsize) info0 info"
proof -
  have "parse_impl (Some img) fsize info0 = (EXB_OK, info)" using assms(1) by (auto simp: exb_parse_def split: prod.split_asm if_split_asm)
  then show ?thesis using assms(2) by (rule parse_sound)
qed

lemma stack_pages_bytes:
  assumes "info_good fsize info0 info"
  shows "unat (ucast (ei_stack_bytes info) div XLB_PAGE :: u64) * 4096 = unat (ei_stack_bytes info)"
proof -
  have "unat (ei_stack_bytes info) mod 4096 = 0" using assms by (simp add: info_good_def Let_def)
  then show ?thesis using div_mult_mod_eq [of "unat (ei_stack_bytes info)" 4096] by (simp add: unat_div unat_ucast_32_64)
qed

lemma load_all:
  assumes s0: "inv s" and gd: "info_good fsize info0 info"
    and ls: "load_segs b owner img (map (\<lambda>i. ei_seg info ! i) [0..<unat (ei_seg_count info)]) \<lparr>tx_as = asp, tx_tok = [], tx_va = []\<rparr> s = (rc, t, s1)"
  shows "rc \<noteq> 0 \<Longrightarrow> grew s [] [] s1"
    "rc = 0 \<Longrightarrow> load_region b owner (ucast (ei_stack_bytes info) div XLB_PAGE) r (\<lambda>tok s. s) (stack_top - ucast (ei_stack_bytes info))
       (XLB_PERM_R OR XLB_PERM_W) t s1 = (rc', t', s') \<Longrightarrow> if rc' = 0 then loaded img info s s' else grew s [] [] s'"
proof -
  let ?t0 = "\<lparr>tx_as = asp, tx_tok = [], tx_va = []\<rparr>" and ?gs = "map (\<lambda>i. ei_seg info ! i) [0..<unat (ei_seg_count info)]"
  have g0: "grew s (tx_tok ?t0) (tx_va ?t0) s" "tx_as ?t0 = asp" using grew_refl [OF s0] by simp_all
  have fs: "\<forall>g \<in> set ?gs. unat (es_file_size g) \<le> unat (es_pages g) * 4096"
  proof
    fix g assume "g \<in> set ?gs"
    then have "seg_good fsize g" using gd by (auto simp: info_good_def Let_def)
    then have "unat (es_file_size g) \<le> unat (es_mem_size g)" "unat (es_pages g) = (unat (es_mem_size g) + 4095) div 4096" by (simp_all add: seg_good_def)
    moreover have "unat (es_mem_size g) \<le> (unat (es_mem_size g) + 4095) div 4096 * 4096" by simp
    ultimately show "unat (es_file_size g) \<le> unat (es_pages g) * 4096" by simp
  qed
  note l = load_segs_ok [OF s0 g0 fs ls]
  show "rc \<noteq> 0 \<Longrightarrow> grew s [] [] s1" using l by simp
  assume rc: "rc = 0" and lr: "load_region b owner (ucast (ei_stack_bytes info) div XLB_PAGE) r (\<lambda>tok s. s) (stack_top - ucast (ei_stack_bytes info))
       (XLB_PERM_R OR XLB_PERM_W) t s1 = (rc', t', s')"
  have l1: "grew s (tx_tok t) (tx_va t) s1" "tx_as t = asp" "extends s s1"
    "\<forall>g \<in> set ?gs. placed s1 (es_vaddr g) (unat (es_pages g) * 4096) (seg_perms (es_flags g)) (seg_bytes img g)" using l rc by simp_all
  have q: "if rc' = 0 then grew s (tx_tok t') (tx_va t') s' \<and> tx_as t' = asp \<and> extends s1 s' \<and>
      placed s' (stack_top - ucast (ei_stack_bytes info)) (unat (ucast (ei_stack_bytes info) div XLB_PAGE :: u64) * 4096) (XLB_PERM_R OR XLB_PERM_W) (\<lambda>_. 0)
    else grew s [] [] s'"
    by (rule load_region_ok [OF s0 l1(1,2) _ lr]) (simp add: fills_def)
  show "if rc' = 0 then loaded img info s s' else grew s [] [] s'"
  proof (cases "rc' = 0")
    case True
    then have x: "grew s (tx_tok t') (tx_va t') s'" "extends s1 s'" using q by simp_all
    have "placed s' (es_vaddr g) (unat (es_pages g) * 4096) (seg_perms (es_flags g)) (seg_bytes img g)" if "g \<in> set ?gs" for g
      using l1(4) that placed_extends x(2) by blast
    then show ?thesis using True q x extends_trans [OF l1(3) x(2)] stack_pages_bytes [OF gd] by (simp add: loaded_def grew_def)
  next
    case False
    then show ?thesis using q by simp
  qed
qed

lemma xload_ok:
  assumes s0: "inv s" and len: "length (ei_seg info0) = EXB_MAX_SEGS"
    and ld: "xload_exb b info0 (Some asp) owner (Some img) fsize (Some out) s = (rc, out', s')"
  shows "if rc = XLOAD_OK then \<exists>info. exb_parse (Some img) fsize info0 = (EXB_OK, info) \<and> loaded img info s s' \<and>
      out' = Some \<lparr>lr_entry = ei_entry info, lr_stack_top = stack_top, lr_stack_bytes = ei_stack_bytes info, lr_tokens_granted = ei_extra_tokens info\<rparr>
    else out' = Some out \<and> grew s [] [] s'"
proof -
  note d = ld [unfolded xload_exb_def Let_def option.sel]
  obtain prc info where p: "exb_parse (Some img) fsize info0 = (prc, info)" by fastforce
  have g0: "grew s [] [] s" by (rule grew_refl [OF s0])
  show ?thesis
  proof (cases "fsize = 0 \<or> owner = XTOK_OWNER_KERNEL \<or> prc \<noteq> EXB_OK \<or> \<not> xb_quota_ok b owner (ei_image_pages info + ucast (ei_stack_bytes info) div XLB_PAGE) (ei_seg_count info + 1) s")
    case True
    then have "rc \<noteq> XLOAD_OK \<and> out' = Some out \<and> s' = s" using d p by (auto split: if_split_asm)
    then show ?thesis using g0 by simp
  next
    case False
    note p0 = p
    have prc: "prc = EXB_OK" using False by simp
    have gd: "info_good (unat fsize) info0 info" by (rule exb_parse_good [OF p0 [unfolded prc] len])
    obtain rc1 t s1 where ls: "load_segs b owner img (map (\<lambda>i. ei_seg info ! i) [0..<unat (ei_seg_count info)]) \<lparr>tx_as = asp, tx_tok = [], tx_va = []\<rparr> s = (rc1, t, s1)"
      by (rule prod_cases3)
    obtain rc2 t2 s2 where lr: "load_region b owner (ucast (ei_stack_bytes info) div XLB_PAGE) (XTOK_RIGHT_READ OR XTOK_RIGHT_WRITE OR XTOK_RIGHT_MAP OR XTOK_RIGHT_RELEASE)
        (\<lambda>tok s. s) (stack_top - ucast (ei_stack_bytes info)) (XLB_PERM_R OR XLB_PERM_W) t s1 = (rc2, t2, s2)" by (rule prod_cases3)
    note la = load_all [OF s0 gd ls]
    have e: "(rc, out', s') = (if rc1 \<noteq> 0 then (rc1, Some out, s1) else if rc2 \<noteq> 0 then (rc2, Some out, s2) else
        (XLOAD_OK, Some \<lparr>lr_entry = ei_entry info, lr_stack_top = stack_top, lr_stack_bytes = ei_stack_bytes info, lr_tokens_granted = ei_extra_tokens info\<rparr>, s2))"
      using d False p prc by (cases "rc1 = 0"; cases "rc2 = 0") (simp_all add: ls lr lr [simplified])
    show ?thesis
    proof (cases "rc1 = 0")
      case True
      then show ?thesis using e la(2) [OF True lr] p prc by (auto split: if_split_asm)
    next
      case False
      then show ?thesis using e la(1) by simp
    qed
  qed
qed

end

end
