(* ===== verification/Load_Amd64.thy ===== *)
theory Load_Amd64
  imports Load_Inv
begin

text \<open>
  The amd64 backend meets the contract of the loader. A mapping is observed through the processor's walk:
  the translation of each of its bytes, with the permissions. So the loader's guarantee speaks about
  what programs can access.
\<close>

section \<open>What the loader can observe\<close>

definition bare :: "'a Ledger_scheme \<Rightarrow> XToken \<rightharpoonup> XTokenEntry" where
  "bare s = (\<lambda>t. map_option (\<lambda>e. e\<lparr>te_map_count := 0\<rparr>) (toks s t))"

definition token_bytes :: "XTokenEntry \<Rightarrow> nat" where
  "token_bytes e = unat (te_frames e) * 4096"

definition seen :: "mem \<Rightarrow> u64 \<Rightarrow> u64 \<Rightarrow> nat \<Rightarrow> nat \<Rightarrow> Access option" where
  "seen m P va n = (\<lambda>off. if off < n * 4096 then mmu m P (va + of_nat off) else None)"

definition rec_at :: "MapRec list \<Rightarrow> u64 \<Rightarrow> u64 \<Rightarrow> nat \<Rightarrow> bool" where
  "rec_at maps P va k \<longleftrightarrow> mr_live (maps ! k) \<and> mr_as_pml4 (maps ! k) = P \<and> mr_virt (maps ! k) = va"

definition mappings :: "'a Paging_scheme \<Rightarrow> u64 \<times> u64 \<rightharpoonup> u64 \<times> (nat \<Rightarrow> Access option)" where
  "mappings s = (\<lambda>(P, va). map_option (\<lambda>k. (mr_tok (pt_maps s ! k), seen (xm_mem s) P va (unat (mr_pages (pt_maps s ! k)))))
     (find (rec_at (pt_maps s) P va) [0..<1024]))"

definition full_grant :: "XTokenEntry \<Rightarrow> u64 \<Rightarrow> u32 \<Rightarrow> nat \<Rightarrow> Access option" where
  "full_grant e va p = (\<lambda>off. if off < token_bytes e then Some (granted (te_phys e + of_nat off) p) else None)"

definition token_byte :: "'a Ledger_scheme \<Rightarrow> u64 \<Rightarrow> nat \<Rightarrow> u8" where
  "token_byte s t k = (case toks s t of Some e \<Rightarrow> if k < token_bytes e then xm_mem s (te_phys e + of_nat k) else 0 | None \<Rightarrow> 0)"

definition space_inv :: "nat set \<Rightarrow> (u64 \<rightharpoonup> u32) \<Rightarrow> XAspace \<Rightarrow> u64 \<times> 'a \<Rightarrow> 'a Paging_scheme \<Rightarrow> bool" where
  "space_inv B sp a h s \<longleftrightarrow> pt_inv B sp s \<and> as_live a \<and> sp (as_pml4_phys a) = Some (as_owner_id a) \<and> outer s = h"

section \<open>Records\<close>

lemma rec_bytes:
  assumes ok: "pt_ok sp R M s" and k: "k < 1024" "mr_live (pt_maps s ! k)" "r = pt_maps s ! k"
  shows "user_range (mr_virt r) (unat (mr_pages r))" "sp (mr_as_pml4 r) \<noteq> None" "0 < unat (mr_pages r)"
    "off < unat (mr_pages r) * 4096 \<Longrightarrow> mmu (xm_mem s) (mr_as_pml4 r) (mr_virt r + of_nat off) \<noteq> None"
    "toks s (mr_tok r) \<noteq> None"
proof -
  have ro: "rec_ok sp M (toks s) r" using recs2 [OF pt_okD(7) [OF ok] k(1,2)] by (simp add: k(3))
  obtain e p where e: "toks s (mr_tok r) = Some e" "te_frames e = mr_pages r"
    "\<forall>i < unat (mr_pages r). M (mr_as_pml4 r, path4 (page (mr_virt r) i)) = Some ((page (te_phys e) i AND XPT_ADDR_MASK) OR leaf_flags p)"
    using ro by (auto simp: rec_ok_def)
  show ur: "user_range (mr_virt r) (unat (mr_pages r))" and sp: "sp (mr_as_pml4 r) \<noteq> None" using ro by (simp_all add: rec_ok_def)
  show "0 < unat (mr_pages r)" using token_aligned(4) [OF ok e(1)] e(2) by (simp add: unat_gt_0)
  show "toks s (mr_tok r) \<noteq> None" using e(1) by simp
  assume off: "off < unat (mr_pages r) * 4096"
  note rb = range_byte [OF ur off]
  show "mmu (xm_mem s) (mr_as_pml4 r) (mr_virt r + of_nat off) \<noteq> None"
    unfolding mmu_space [OF ok sp rb(1)] rb(3) using e(3) rb(4) by simp
qed

lemma rec_unique:
  assumes ok: "pt_ok sp R M s" and k: "k < 1024" "rec_at (pt_maps s) P va k" and l: "l < 1024" "rec_at (pt_maps s) P va l"
  shows "k = l"
proof (rule ccontr)
  assume n: "k \<noteq> l"
  have lk: "mr_live (pt_maps s ! k)" "mr_live (pt_maps s ! l)" using k(2) l(2) by (simp_all add: rec_at_def)
  have "(P, path4 (page va 0)) \<in> rkeys (pt_maps s ! k)" "(P, path4 (page va 0)) \<in> rkeys (pt_maps s ! l)"
    using rec_bytes(3) [OF ok k(1) lk(1) refl] rec_bytes(3) [OF ok l(1) lk(2) refl] k(2) l(2) by (auto simp: rkeys_def pkeys_def rec_at_def)
  then show False using recs4 [OF pt_okD(7) [OF ok] k(1) l(1) lk n] by blast
qed

lemma find_rec:
  assumes ok: "pt_ok sp R M s"
  shows "find (rec_at (pt_maps s) P va) [0..<1024] = Some k \<longleftrightarrow> k < 1024 \<and> rec_at (pt_maps s) P va k"
proof
  assume "find (rec_at (pt_maps s) P va) [0..<1024] = Some k"
  then show "k < 1024 \<and> rec_at (pt_maps s) P va k" using find_upt by blast
next
  assume k: "k < 1024 \<and> rec_at (pt_maps s) P va k"
  have "find (rec_at (pt_maps s) P va) [0..<1024] \<noteq> None"
    unfolding find_None_iff using k by (simp only: set_upt atLeastLessThan_iff) blast
  then obtain l where l: "find (rec_at (pt_maps s) P va) [0..<1024] = Some l" by blast
  then have "l < 1024 \<and> rec_at (pt_maps s) P va l" using find_upt by blast
  then have "l = k" using rec_unique [OF ok] k by blast
  then show "find (rec_at (pt_maps s) P va) [0..<1024] = Some k" using l by simp
qed

lemma mappings_Some:
  assumes ok: "pt_ok sp R M s"
  shows "mappings s (P, va) = Some (t, v) \<longleftrightarrow> (\<exists>k < 1024. rec_at (pt_maps s) P va k \<and> mr_tok (pt_maps s ! k) = t \<and>
    v = seen (xm_mem s) P va (unat (mr_pages (pt_maps s ! k))))"
  using find_rec [OF ok, of P va] by (auto simp: mappings_def simp del: upt_rec_numeral)

lemma seen_cong:
  assumes "user_range va n" "\<And>v. user_va v \<Longrightarrow> covers va n v \<Longrightarrow> mmu m' P v = mmu m P v"
  shows "seen m' P va n = seen m P va n"
proof -
  have "mmu m' P (va + of_nat off) = mmu m P (va + of_nat off)" if off: "off < n * 4096" for off
    by (rule assms(2) [OF range_byte(1) [OF assms(1) off]]) (use range_byte(2) [OF assms(1) off] off in \<open>simp add: covers_def\<close>)
  then show ?thesis by (auto simp: seen_def)
qed

text \<open>Nothing observable of the mappings changes when the records and the walks do not.\<close>

lemma mappings_cong:
  assumes ok: "pt_ok sp R M s" and ok': "pt_ok sp R' M s'" and mp: "pt_maps s' = pt_maps s"
  shows "mappings s' = mappings s"
proof -
  have "mappings s' (P, va) = mappings s (P, va)" for P va
  proof (cases "find (rec_at (pt_maps s) P va) [0..<1024]")
    case None
    then show ?thesis by (simp add: mappings_def mp del: upt_rec_numeral)
  next
    case (Some k)
    then have k: "k < 1024" "rec_at (pt_maps s) P va k" using find_upt by blast+
    then have r: "mr_live (pt_maps s ! k)" "mr_as_pml4 (pt_maps s ! k) = P" "mr_virt (pt_maps s ! k) = va" by (simp_all add: rec_at_def)
    note rb = rec_bytes [OF ok k(1) r(1) refl, unfolded r(2,3)]
    have "seen (xm_mem s') P va (unat (mr_pages (pt_maps s ! k))) = seen (xm_mem s) P va (unat (mr_pages (pt_maps s ! k)))"
      by (rule seen_cong [OF rb(1)]) (simp add: mmu_space [OF ok rb(2)] mmu_space [OF ok' rb(2)])
    then show ?thesis using Some by (simp add: mappings_def mp del: upt_rec_numeral)
  qed
  then show ?thesis by (simp add: fun_eq_iff)
qed

section \<open>Contents\<close>

lemma token_addr:
  assumes ok: "pt_ok sp R M s" and e: "toks s t = Some e" and k: "k < token_bytes e"
  shows "unat (te_phys e + of_nat k) div 4096 \<in> te_span e" "unat (te_phys e + of_nat k) = unat (te_phys e) + k"
proof -
  note al = token_aligned [OF ok e]
  have p: "unat (te_phys e) = unat (te_phys e) div 4096 * 4096" using div_mult_mod_eq [of "unat (te_phys e)" 4096] al(1) by linarith
  have b: "unat (te_phys e) + unat (te_frames e) * 4096 \<le> 137438953472" using p al(2) by linarith
  have kb: "k < unat (te_frames e) * 4096" using k by (simp add: token_bytes_def)
  have o: "unat (of_nat k :: u64) = k" by (rule unat_of_nat_u64) (use b kb in linarith)
  show u: "unat (te_phys e + of_nat k) = unat (te_phys e) + k" by (subst unat_add_less) (use o b kb in simp_all)
  have "(unat (te_phys e) + k) div 4096 = unat (te_phys e) div 4096 + k div 4096" using al(1) by (simp add: div_add1_eq)
  then show "unat (te_phys e + of_nat k) div 4096 \<in> te_span e" unfolding u te_span_def using kb by (simp add: div_less_iff_less_mult)
qed

lemma token_byte_cong:
  assumes ok: "pt_ok sp R M s" and e: "toks s t = Some e" "toks s' t = Some (e\<lparr>te_map_count := c\<rparr>)"
    and m: "\<And>x. unat x div 4096 \<in> te_span e \<Longrightarrow> xm_mem s' x = xm_mem s x"
  shows "token_byte s' t = token_byte s t"
proof
  fix k show "token_byte s' t k = token_byte s t k"
    using e m token_addr(1) [OF ok e(1), of k] by (simp add: token_byte_def token_bytes_def)
qed

lemma bare_unpinned:
  assumes "unpinned (toks s) (toks s')"
  shows "bare s' = bare s"
proof
  fix t show "bare s' t = bare s t"
    using assms unfolding unpinned_def bare_def by (cases "toks s t") (auto dest!: spec [of _ t])
qed

lemma bare_dom: "t \<in> dom (bare s) \<longleftrightarrow> t \<in> dom (toks s)" "bare s t = None \<longleftrightarrow> toks s t = None"
  "bare s t = Some e \<Longrightarrow> \<exists>c. toks s t = Some (e\<lparr>te_map_count := c\<rparr>)"
proof -
  show "t \<in> dom (bare s) \<longleftrightarrow> t \<in> dom (toks s)" "bare s t = None \<longleftrightarrow> toks s t = None" by (auto simp: bare_def)
  assume "bare s t = Some e"
  then obtain f where f: "toks s t = Some f" "e = f\<lparr>te_map_count := 0\<rparr>" by (auto simp: bare_def)
  then show "\<exists>c. toks s t = Some (e\<lparr>te_map_count := c\<rparr>)" by (intro exI [of _ "te_map_count f"]) simp
qed

lemma tabled_bytes:
  assumes ok: "pt_ok sp R M s" and t: "tabled s s'" and d: "t \<in> dom (bare s)"
  shows "token_byte s' t = token_byte s t"
proof -
  obtain e where e: "toks s t = Some e" using d bare_dom(1) by blast
  have u: "unpinned (toks s) (toks s')" using t by (simp add: tabled_def)
  obtain c where "toks s' t = Some (e\<lparr>te_map_count := c\<rparr>)" using unpinned_Some(1) [OF u e] by blast
  then show ?thesis by (rule token_byte_cong [OF ok e]) (use t e in \<open>auto simp: tabled_def\<close>)
qed

lemma token_span_used:
  assumes ok: "pt_ok sp R M s" and e: "toks s t = Some e"
  shows "te_span e \<inter> ffree (xm_phys s) = {}"
proof -
  obtain sl where sl: "lookup_live t s = Some sl" "e = lg_table s ! sl" using e by (auto simp: toks_Some_iff)
  show ?thesis using ledger_invD(3) [OF pt_okD(1) [OF ok] lookup_liveD(1) [OF sl(1)]] lookup_liveD(2) [OF sl(1)] sl(2) by (simp add: entry_ok_def)
qed

section \<open>The laws\<close>

lemma alloc_law:
  assumes inv: "space_inv B sp a h s" and al: "xlb_alloc owner n r s = (0, tok, s')"
  shows "space_inv B sp a h s'" "bare s tok = None" "mappings s' = mappings s" "\<exists>e. bare s' = (bare s)(tok \<mapsto> e) \<and> token_bytes e = unat n * 4096"
    "\<forall>k < unat n * 4096. token_byte s' tok k = 0" "\<forall>t \<in> dom (bare s). token_byte s' t = token_byte s t"
proof -
  have pi: "pt_inv B sp s" using inv by (simp add: space_inv_def)
  obtain R M where ok: "pt_ok sp R M s" using pi by (rule pt_invE)
  have x: "xtok_alloc_ram owner n r s = (tok, s')" "tok \<noteq> 0" using al by (auto simp: xlb_alloc_def Let_def split: prod.split_asm if_split_asm)
  note ai = alloc_inv [OF pi x(1)]
  note ok' = pt_ok_alloc(1) [OF ok ai(1)]
  show "space_inv B sp a h s'" using ai(2,3) inv by (simp add: space_inv_def)
  have lm: "Ledger.more s' = Ledger.more s" using ai(1) by (simp add: alloc_done_def)
  show "mappings s' = mappings s" by (rule mappings_cong [OF ok ok' ledger_more_fields(3) [OF lm]])
  obtain e where e: "toks s tok = None" "ram_entry owner r (te_phys e) n e" "toks s' = (toks s)(tok \<mapsto> e)" "te_span e \<subseteq> ffree (xm_phys s)"
    "xm_mem s' = (\<lambda>x. if unat x div 4096 \<in> te_span e then 0 else xm_mem s x)" using ai(1) x(2) by (auto simp: alloc_done_def)
  have fr: "te_frames e = n" using e(2) by (simp add: ram_entry_def)
  show "bare s tok = None" using e(1) by (simp add: bare_def)
  show "\<exists>e. bare s' = (bare s)(tok \<mapsto> e) \<and> token_bytes e = unat n * 4096"
    by (intro exI [of _ "e\<lparr>te_map_count := 0\<rparr>"]) (simp add: e(3) bare_def token_bytes_def fr fun_eq_iff)
  have te: "toks s' tok = Some e" by (simp add: e(3))
  show "\<forall>k < unat n * 4096. token_byte s' tok k = 0"
    using token_addr(1) [OF ok' te] by (simp add: token_byte_def te token_bytes_def fr e(5))
  show "\<forall>t \<in> dom (bare s). token_byte s' t = token_byte s t"
  proof
    fix t assume "t \<in> dom (bare s)"
    then obtain f where f: "toks s t = Some f" using bare_dom(1) by blast
    have "te_span f \<inter> ffree (xm_phys s) = {}" by (rule token_span_used [OF ok f])
    then have "xm_mem s' x = xm_mem s x" if "unat x div 4096 \<in> te_span f" for x using that e(4,5) by auto
    moreover have "toks s' t = Some (f\<lparr>te_map_count := te_map_count f\<rparr>)" using f e(1,3) by auto
    ultimately show "token_byte s' t = token_byte s t" using token_byte_cong [OF ok f] by blast
  qed
qed

lemma alloc_fail_law:
  assumes inv: "space_inv B sp a h s" and al: "xlb_alloc owner n r s = (rc, tok, s')" and rc: "rc \<noteq> 0"
  shows "space_inv B sp a h s'" "bare s' = bare s" "mappings s' = mappings s" "\<forall>t \<in> dom (bare s). token_byte s' t = token_byte s t"
proof -
  have pi: "pt_inv B sp s" using inv by (simp add: space_inv_def)
  obtain R M where ok: "pt_ok sp R M s" using pi by (rule pt_invE)
  have x: "xtok_alloc_ram owner n r s = (0, s')" using al rc by (auto simp: xlb_alloc_def Let_def split: prod.split_asm if_split_asm)
  note ai = alloc_inv [OF pi x]
  note ok' = pt_ok_alloc(1) [OF ok ai(1)]
  show "space_inv B sp a h s'" using ai(2,3) inv by (simp add: space_inv_def)
  have f: "Ledger.more s' = Ledger.more s" "lg_table s' = lg_table s"
    "\<And>x. unat x div 4096 \<notin> ffree (xm_phys s) \<Longrightarrow> xm_mem s' x = xm_mem s x" using ai(1) by (simp_all add: alloc_done_def)
  have tk: "toks s' = toks s" by (rule toks_cong [OF f(2)])
  show "mappings s' = mappings s" by (rule mappings_cong [OF ok ok' ledger_more_fields(3) [OF f(1)]])
  show "bare s' = bare s" by (simp add: bare_def tk)
  show "\<forall>t \<in> dom (bare s). token_byte s' t = token_byte s t"
  proof
    fix t assume "t \<in> dom (bare s)"
    then obtain e where e: "toks s t = Some e" using bare_dom(1) by blast
    have "xm_mem s' x = xm_mem s x" if "unat x div 4096 \<in> te_span e" for x using that token_span_used [OF ok e] by (intro f(3)) blast
    moreover have "toks s' t = Some (e\<lparr>te_map_count := te_map_count e\<rparr>)" using e by (simp add: tk)
    ultimately show "token_byte s' t = token_byte s t" using token_byte_cong [OF ok e] by blast
  qed
qed

lemma kernel_ptr:
  assumes ok: "pt_ok sp R M s" and e: "toks s t = Some e"
  shows "xlb_kernel_ptr t s = te_phys e"
proof -
  obtain i where i: "lookup_live t s = Some i" "e = lg_table s ! i" using e by (auto simp: toks_Some_iff)
  then show ?thesis using token_aligned(3) [OF ok e] by (simp add: xlb_kernel_ptr_def xtok_ram_info_def Let_def)
qed

lemma span_disjoint:
  assumes ok: "pt_ok sp R M s" and e: "toks s t = Some e" "toks s u = Some f" "t \<noteq> u"
  shows "te_span e \<inter> te_span f = {}"
proof -
  obtain i j where i: "lookup_live t s = Some i" "e = lg_table s ! i" and j: "lookup_live u s = Some j" "f = lg_table s ! j"
    using e by (auto simp: toks_Some_iff)
  have "i \<noteq> j" using lookup_liveD(3) [OF i(1)] lookup_liveD(3) [OF j(1)] e(3) by auto
  then show ?thesis using ledger_invD(4) [OF pt_okD(1) [OF ok] lookup_liveD(1) [OF i(1)] lookup_liveD(1) [OF j(1)]] lookup_liveD(2) [OF i(1)] lookup_liveD(2) [OF j(1)] i(2) j(2) by simp
qed

lemma write_law:
  assumes inv: "space_inv B sp a h s" and e: "bare s tok = Some e" and k: "k < token_bytes e" and s': "s' = xlb_store (xlb_kernel_ptr tok s + of_nat k) v s"
  shows "space_inv B sp a h s'" "bare s' = bare s" "mappings s' = mappings s" "xlb_kernel_ptr tok s' = xlb_kernel_ptr tok s"
    "\<forall>j < token_bytes e. token_byte s' tok j = (if j = k then v else token_byte s tok j)" "\<forall>t \<in> dom (bare s) - {tok}. token_byte s' t = token_byte s t"
proof -
  have pi: "pt_inv B sp s" using inv by (simp add: space_inv_def)
  obtain R M where ok: "pt_ok sp R M s" using pi by (rule pt_invE)
  obtain c where c: "toks s tok = Some (e\<lparr>te_map_count := c\<rparr>)" using bare_dom(3) [OF e] by blast
  let ?e = "e\<lparr>te_map_count := c\<rparr>"
  have kp: "xlb_kernel_ptr tok s = te_phys e" using kernel_ptr [OF ok c] by simp
  have kb: "k < token_bytes ?e" using k by (simp add: token_bytes_def)
  note ad = token_addr [OF ok c kb]
  have s: "s' = s\<lparr>xm_mem := (xm_mem s)(te_phys ?e + of_nat k := v)\<rparr>" by (simp add: s' kp xlb_store_def)
  note st = pt_inv_store [OF pi c ad(1), of v, folded s] and ok' = pt_ok_store [OF ok c ad(1), of v, folded s]
  show "space_inv B sp a h s'" using st(1) inv by (simp add: space_inv_def s outer_def xpt_read_cr3_def)
  show "bare s' = bare s" by (simp add: bare_def st(2))
  show "mappings s' = mappings s" by (rule mappings_cong [OF ok ok']) (simp add: s)
  have c': "toks s' tok = Some ?e" by (simp add: st(2) c)
  show "xlb_kernel_ptr tok s' = xlb_kernel_ptr tok s" using kernel_ptr [OF ok' c'] kp by simp
  show "\<forall>j < token_bytes e. token_byte s' tok j = (if j = k then v else token_byte s tok j)"
  proof (intro allI impI)
    fix j assume j: "j < token_bytes e"
    then have jb: "j < token_bytes ?e" by (simp add: token_bytes_def)
    have "te_phys ?e + of_nat j = te_phys ?e + of_nat k \<longleftrightarrow> j = k" using token_addr(2) [OF ok c jb] ad(2) by (metis add_left_cancel)
    then show "token_byte s' tok j = (if j = k then v else token_byte s tok j)" using jb by (simp add: token_byte_def c c') (simp add: s)
  qed
  show "\<forall>t \<in> dom (bare s) - {tok}. token_byte s' t = token_byte s t"
  proof
    fix t assume t: "t \<in> dom (bare s) - {tok}"
    then obtain f where f: "toks s t = Some f" using bare_dom(1) by blast
    have "te_span f \<inter> te_span ?e = {}" using span_disjoint [OF ok f c] t by blast
    then have "xm_mem s' x = xm_mem s x" if "unat x div 4096 \<in> te_span f" for x using that ad(1) by (auto simp: s)
    moreover have "toks s' t = Some (f\<lparr>te_map_count := te_map_count f\<rparr>)" using f by (simp add: st(2))
    ultimately show "token_byte s' t = token_byte s t" using token_byte_cong [OF ok f] by blast
  qed
qed

lemma find_upd:
  assumes "\<And>i. i < 1024 \<Longrightarrow> rec_at maps' P va i = rec_at maps P va i"
  shows "find (rec_at maps' P va) [0..<1024] = find (rec_at maps P va) [0..<1024]"
  by (rule find_cong [OF refl]) (use assms in \<open>simp only: set_upt atLeastLessThan_iff\<close>)

text \<open>A record that the operation does not touch is seen as before.\<close>

lemma mappings_other:
  assumes ok: "pt_ok sp R M s" and len: "length maps' = 1024"
    and same: "\<And>i. i < 1024 \<Longrightarrow> rec_at (pt_maps s) P va i \<Longrightarrow> maps' ! i = pt_maps s ! i"
    and new: "\<And>i. i < 1024 \<Longrightarrow> rec_at maps' P va i \<Longrightarrow> rec_at (pt_maps s) P va i"
    and s': "pt_maps s' = maps'"
    and view: "\<And>k v. k < 1024 \<Longrightarrow> rec_at (pt_maps s) P va k \<Longrightarrow> user_va v \<Longrightarrow> covers va (unat (mr_pages (pt_maps s ! k))) v \<Longrightarrow>
      mmu (xm_mem s') P v = mmu (xm_mem s) P v"
  shows "mappings s' (P, va) = mappings s (P, va)"
proof -
  have f: "find (rec_at maps' P va) [0..<1024] = find (rec_at (pt_maps s) P va) [0..<1024]"
    by (rule find_upd) (use same new in \<open>metis rec_at_def\<close>)
  show ?thesis
  proof (cases "find (rec_at (pt_maps s) P va) [0..<1024]")
    case None
    then show ?thesis by (simp add: mappings_def s' f del: upt_rec_numeral)
  next
    case (Some k)
    then have k: "k < 1024" "rec_at (pt_maps s) P va k" using find_upt by blast+
    then have r: "mr_live (pt_maps s ! k)" "mr_as_pml4 (pt_maps s ! k) = P" "mr_virt (pt_maps s ! k) = va" by (simp_all add: rec_at_def)
    note rb = rec_bytes [OF ok k(1) r(1) refl, unfolded r(2,3)]
    have "seen (xm_mem s') P va (unat (mr_pages (pt_maps s ! k))) = seen (xm_mem s) P va (unat (mr_pages (pt_maps s ! k)))"
      by (rule seen_cong [OF rb(1)]) (rule view [OF k])
    then show ?thesis using Some same [OF k] by (simp add: mappings_def s' f del: upt_rec_numeral)
  qed
qed

lemma map_law:
  assumes inv: "space_inv B sp a h s" and mp: "xlb_map a va tok p s = (0, s')"
  shows "space_inv B sp a h s'" "mappings s (as_pml4_phys a, va) = None" "bare s' = bare s"
    "\<exists>e. bare s tok = Some e \<and> mappings s' = (mappings s)((as_pml4_phys a, va) \<mapsto> (tok, full_grant e va p))"
    "\<forall>t \<in> dom (bare s). token_byte s' t = token_byte s t"
proof -
  let ?P = "as_pml4_phys a"
  have pi: "pt_inv B sp s" and a: "as_live a" "sp ?P = Some (as_owner_id a)" using inv by (simp_all add: space_inv_def)
  obtain R M where ok: "pt_ok sp R M s" using pi by (rule pt_invE)
  have mp': "xas_map (Some a) va tok p s = (XAS_OK, s')" using mp by (auto simp: xlb_map_def Let_def split: prod.split_asm if_split_asm)
  have al: "as_live a \<longrightarrow> sp ?P = Some (as_owner_id a)" using a by simp
  show "space_inv B sp a h s'" using pt_inv_map [OF pi al mp'] xas_map_outer [OF mp'] inv by (simp add: space_inv_def)
  note ms = xas_map_spec [OF ok al mp']
  show "bare s' = bare s" by (rule bare_unpinned) (use ms(1) in \<open>simp add: tabled_def\<close>)
  show "\<forall>t \<in> dom (bare s). token_byte s' t = token_byte s t" using tabled_bytes [OF ok ms(1)] by blast
  obtain e where e: "toks s tok = Some e" "user_range va (unat (te_frames e))"
    and v1: "\<And>off. off < unat (te_frames e) * 4096 \<Longrightarrow> mmu (xm_mem s) ?P (va + of_nat off) = None"
      "\<And>off. off < unat (te_frames e) * 4096 \<Longrightarrow> mmu (xm_mem s') ?P (va + of_nat off) = Some (granted (te_phys e + of_nat off) p)"
    and v2: "\<And>Q v. sp Q \<noteq> None \<Longrightarrow> user_va v \<Longrightarrow> \<not> (Q = ?P \<and> covers va (unat (te_frames e)) v) \<Longrightarrow> mmu (xm_mem s') Q v = mmu (xm_mem s) Q v"
    using xas_map_view [OF pi a mp'] by blast
  obtain k where k: "k < 1024" "\<not> mr_live (pt_maps s ! k)" and m': "pt_maps s' = (pt_maps s)[k := \<lparr>mr_as_pml4 = ?P, mr_owner = as_owner_id a, mr_virt = va,
      mr_tok = tok, mr_pages = te_frames e, mr_live = True\<rparr>]" using ms(2) e(1) by (auto simp: map_done_def)
  have len: "length (pt_maps s) = 1024" using recs1 [OF pt_okD(7) [OF ok]] .
  have none: "\<not> rec_at (pt_maps s) ?P va i" if i: "i < 1024" for i
  proof
    assume r: "rec_at (pt_maps s) ?P va i"
    then have r': "mr_live (pt_maps s ! i)" "mr_as_pml4 (pt_maps s ! i) = ?P" "mr_virt (pt_maps s ! i) = va" by (simp_all add: rec_at_def)
    note rb = rec_bytes [OF ok i r'(1) refl, unfolded r'(2,3)]
    have "0 < unat (te_frames e) * 4096" using token_aligned(4) [OF ok e(1)] by (simp add: unat_gt_0)
    then show False using v1(1) [of 0] rb(3) rb(4) [of 0] by simp
  qed
  then show "mappings s (?P, va) = None" using find_rec [OF ok, of ?P va] by (cases "find (rec_at (pt_maps s) ?P va) [0..<1024]") (auto simp: mappings_def simp del: upt_rec_numeral)
  obtain R' M' where ok': "pt_ok sp R' M' s'" using pt_inv_map [OF pi al mp'] by (rule pt_invE)
  have rk: "rec_at (pt_maps s') ?P va k" using k len by (simp add: m' rec_at_def)
  have "mappings s' (?P, va) = Some (tok, seen (xm_mem s') ?P va (unat (te_frames e)))"
    unfolding mappings_Some [OF ok'] using rk k(1) len by (intro exI [of _ k]) (simp add: m')
  moreover have "seen (xm_mem s') ?P va (unat (te_frames e)) = full_grant (e\<lparr>te_map_count := 0\<rparr>) va p"
    using v1(2) by (auto simp: seen_def full_grant_def token_bytes_def)
  moreover have "mappings s' (Q, w) = mappings s (Q, w)" if q: "(Q, w) \<noteq> (?P, va)" for Q w
  proof (rule mappings_other [OF ok _ _ _ refl])
    show "length (pt_maps s') = 1024" using len by (simp add: m')
    show "pt_maps s' ! i = pt_maps s ! i" if "i < 1024" "rec_at (pt_maps s) Q w i" for i using that k by (auto simp: m' rec_at_def nth_list_update len)
    show "rec_at (pt_maps s) Q w i" if "i < 1024" "rec_at (pt_maps s') Q w i" for i using that q k by (auto simp: m' rec_at_def nth_list_update len split: if_splits)
    show "mmu (xm_mem s') Q v = mmu (xm_mem s) Q v" if l: "l < 1024" "rec_at (pt_maps s) Q w l" "user_va v" "covers w (unat (mr_pages (pt_maps s ! l))) v" for l v
    proof -
      have r: "mr_live (pt_maps s ! l)" "mr_as_pml4 (pt_maps s ! l) = Q" "mr_virt (pt_maps s ! l) = w" using l(2) by (simp_all add: rec_at_def)
      note rb = rec_bytes [OF ok l(1) r(1) refl, unfolded r(2,3)]
      have off: "unat v - unat w < unat (mr_pages (pt_maps s ! l)) * 4096" using l(4) by (auto simp: covers_def)
      have "v = w + of_nat (unat v - unat w)" using l(4) by (simp add: covers_def of_nat_diff)
      then have some: "mmu (xm_mem s) Q v \<noteq> None" using rb(4) [OF off] by simp
      have "\<not> (Q = ?P \<and> covers va (unat (te_frames e)) v)"
      proof
        assume c: "Q = ?P \<and> covers va (unat (te_frames e)) v"
        then have "v = va + of_nat (unat v - unat va)" "unat v - unat va < unat (te_frames e) * 4096" by (auto simp: covers_def of_nat_diff)
        then show False using v1(1) some c by metis
      qed
      then show ?thesis by (rule v2 [OF rb(2) l(3)])
    qed
  qed
  ultimately have "mappings s' = (mappings s)((?P, va) \<mapsto> (tok, full_grant (e\<lparr>te_map_count := 0\<rparr>) va p))" by (auto simp: fun_eq_iff)
  moreover have "bare s tok = Some (e\<lparr>te_map_count := 0\<rparr>)" using e(1) by (simp add: bare_def)
  ultimately show "\<exists>e. bare s tok = Some e \<and> mappings s' = (mappings s)((?P, va) \<mapsto> (tok, full_grant e va p))" by blast
qed

lemma map_fail_law:
  assumes inv: "space_inv B sp a h s" and mp: "xlb_map a va tok p s = (rc, s')" "rc \<noteq> 0"
  shows "space_inv B sp a h s'" "bare s' = bare s" "mappings s' = mappings s" "\<forall>t \<in> dom (bare s). token_byte s' t = token_byte s t"
proof -
  have pi: "pt_inv B sp s" and al: "as_live a \<longrightarrow> sp (as_pml4_phys a) = Some (as_owner_id a)" using inv by (simp_all add: space_inv_def)
  obtain R M where ok: "pt_ok sp R M s" using pi by (rule pt_invE)
  obtain rc' where mp': "xas_map (Some a) va tok p s = (rc', s')" "rc' \<noteq> XAS_OK"
    using mp by (auto simp: xlb_map_def Let_def split: prod.split_asm if_split_asm)
  show "space_inv B sp a h s'" using pt_inv_map [OF pi al mp'(1)] xas_map_outer [OF mp'(1)] inv by (simp add: space_inv_def)
  note ms = xas_map_spec [OF ok al mp'(1)]
  obtain R' where f: "pt_ok sp R' M s'" "pt_maps s' = pt_maps s" using ms(3) [OF mp'(2)] by (auto simp: map_failed_def)
  show "mappings s' = mappings s" by (rule mappings_cong [OF ok f])
  show "bare s' = bare s" by (rule bare_unpinned) (use ms(1) in \<open>simp add: tabled_def\<close>)
  show "\<forall>t \<in> dom (bare s). token_byte s' t = token_byte s t" using tabled_bytes [OF ok ms(1)] by blast
qed

lemma unmap_law:
  assumes inv: "space_inv B sp a h s" and m: "mappings s (as_pml4_phys a, va) \<noteq> None" and s': "s' = snd (xlb_unmap a va s)"
  shows "space_inv B sp a h s'" "bare s' = bare s" "mappings s' = (mappings s)((as_pml4_phys a, va) := None)"
    "\<forall>t \<in> dom (bare s). token_byte s' t = token_byte s t"
proof -
  let ?P = "as_pml4_phys a"
  have pi: "pt_inv B sp s" and a: "as_live a" using inv by (simp_all add: space_inv_def)
  obtain R M where ok: "pt_ok sp R M s" using pi by (rule pt_invE)
  obtain k where fk: "find (rec_at (pt_maps s) ?P va) [0..<1024] = Some k" using m by (auto simp: mappings_def simp del: upt_rec_numeral)
  have k: "k < 1024" "rec_at (pt_maps s) ?P va k" using fk find_rec [OF ok] by blast+
  have r: "mr_live (pt_maps s ! k)" "mr_as_pml4 (pt_maps s ! k) = ?P" "mr_virt (pt_maps s ! k) = va" using k(2) by (simp_all add: rec_at_def)
  have um: "xas_unmap (Some a) va s = (XAS_OK, drop_record k s)"
    using a fk unfolding xas_unmap_def rec_at_def [abs_def] by (simp del: upt_rec_numeral)
  have e: "s' = drop_record k s" by (simp add: s' xlb_unmap_def um)
  show "space_inv B sp a h s'" using pt_inv_unmap [OF pi um] xas_unmap_outer [OF um] inv by (simp add: space_inv_def e)
  note d = drop_record_spec [OF ok k(1) r(1), folded e]
  have u: "unpinned (toks s) (toks s')" using d(3) by (simp add: dropped_def)
  have dm: "xm_mem s' x = xm_mem s x" if "unat x div 4096 \<notin> dom R" for x using d(3) that by (simp add: dropped_def)
  show "bare s' = bare s" by (rule bare_unpinned [OF u])
  show "\<forall>t \<in> dom (bare s). token_byte s' t = token_byte s t"
  proof
    fix t assume "t \<in> dom (bare s)"
    then obtain f where f: "toks s t = Some f" using bare_dom(1) by blast
    obtain c where c: "toks s' t = Some (f\<lparr>te_map_count := c\<rparr>)" using unpinned_Some(1) [OF u f] by blast
    show "token_byte s' t = token_byte s t"
      by (rule token_byte_cong [OF ok f c], rule dm) (use pt_okD(4) [OF ok f] in blast)
  qed
  have len: "length (pt_maps s) = 1024" using recs1 [OF pt_okD(7) [OF ok]] .
  have gone: "\<not> rec_at (pt_maps s') ?P va i" if i: "i < 1024" for i
    using rec_unique [OF ok k(1,2) i] i len by (cases "i = k") (auto simp: d(2) rec_at_def)
  then have "mappings s' (?P, va) = None" using find_upt [of "rec_at (pt_maps s') ?P va" 0 1024]
    by (cases "find (rec_at (pt_maps s') ?P va) [0..<1024]") (auto simp: mappings_def simp del: upt_rec_numeral)
  moreover have "mappings s' (Q, w) = mappings s (Q, w)" if q: "(Q, w) \<noteq> (?P, va)" for Q w
  proof (rule mappings_other [OF ok _ _ _ refl])
    show "length (pt_maps s') = 1024" using len by (simp add: d(2))
    show "pt_maps s' ! i = pt_maps s ! i" if "i < 1024" "rec_at (pt_maps s) Q w i" for i
      using that q r by (cases "i = k") (auto simp: d(2) rec_at_def len)
    show "rec_at (pt_maps s) Q w i" if "i < 1024" "rec_at (pt_maps s') Q w i" for i
      using that by (cases "i = k") (auto simp: d(2) rec_at_def len)
    show "mmu (xm_mem s') Q v = mmu (xm_mem s) Q v" if l: "l < 1024" "rec_at (pt_maps s) Q w l" "user_va v" "covers w (unat (mr_pages (pt_maps s ! l))) v" for l v
    proof -
      have rl: "mr_live (pt_maps s ! l)" "mr_as_pml4 (pt_maps s ! l) = Q" "mr_virt (pt_maps s ! l) = w" using l(2) by (simp_all add: rec_at_def)
      have kl: "k \<noteq> l" using q r rl by auto
      note bl = rec_bytes [OF ok l(1) rl(1) refl, unfolded rl(2,3)] and bk = rec_bytes [OF ok k(1) r(1) refl, unfolded r(2,3)]
      have "(Q, path4 v) \<in> rkeys (pt_maps s ! l)" using covers_key [OF bl(1) l(3), of Q] l(4) by (simp add: rkeys_def rl)
      then have "(Q, path4 v) \<notin> rkeys (pt_maps s ! k)" using recs4 [OF pt_okD(7) [OF ok] k(1) l(1) r(1) rl(1) kl] by blast
      then have "\<not> (Q = ?P \<and> covers va (unat (mr_pages (pt_maps s ! k))) v)" using covers_key [OF bk(1) l(3), of ?P] by (auto simp: rkeys_def r)
      then show ?thesis using drop_view [OF pi k(1) r(1) refl bl(2) l(3), folded e, unfolded r(2,3)] by auto
    qed
  qed
  ultimately show "mappings s' = (mappings s)((?P, va) := None)" by (auto simp: fun_eq_iff)
qed

lemma release_law:
  assumes inv: "space_inv B sp a h s" and t: "bare s tok \<noteq> None" and nm: "\<forall>ky w. mappings s ky \<noteq> Some (tok, w)" and s': "s' = xlb_release tok s"
  shows "space_inv B sp a h s'" "bare s' = (bare s)(tok := None)" "mappings s' = mappings s" "\<forall>t \<in> dom (bare s) - {tok}. token_byte s' t = token_byte s t"
proof -
  have pi: "pt_inv B sp s" using inv by (simp add: space_inv_def)
  obtain R M where ok: "pt_ok sp R M s" using pi by (rule pt_invE)
  obtain e where e: "toks s tok = Some e" using t bare_dom(2) [of s tok] by auto
  have "tok_recs (pt_maps s) tok = {}"
  proof (rule ccontr)
    assume "tok_recs (pt_maps s) tok \<noteq> {}"
    then obtain k where k: "k < 1024" "mr_live (pt_maps s ! k)" "mr_tok (pt_maps s ! k) = tok" by (auto simp: tok_recs_def)
    then have "\<exists>w. mappings s (mr_as_pml4 (pt_maps s ! k), mr_virt (pt_maps s ! k)) = Some (tok, w)"
      unfolding mappings_Some [OF ok] by (auto simp: rec_at_def)
    then show False using nm by blast
  qed
  then have c: "te_map_count e = 0" using recs5 [OF pt_okD(7) [OF ok] e] by (simp add: unat_eq_0)
  obtain rc where rl: "release_impl tok False False 0 s = (rc, s')"
    using s' by (cases "release_impl tok False False 0 s") (simp add: xlb_release_def xtok_reclaim_def)
  note ri = release_inv [OF pi rl]
  have z: "rc = 0" using ri(1) e c by (simp add: release_code_def)
  note rd = ri(3) [OF z]
  show "space_inv B sp a h s'" using ri(4,5) inv by (simp add: space_inv_def)
  have f: "toks s' = (toks s)(tok := None)" "xm_mem s' = xm_mem s" "Ledger.more s' = Ledger.more s" using rd by (auto simp: released_def)
  show "bare s' = (bare s)(tok := None)" by (simp add: bare_def f(1) fun_eq_iff)
  show "mappings s' = mappings s" by (rule mappings_cong [OF ok pt_ok_release(1) [OF ok rd] ledger_more_fields(3) [OF f(3)]])
  show "\<forall>t \<in> dom (bare s) - {tok}. token_byte s' t = token_byte s t" by (simp add: token_byte_def f(1,2) fun_eq_iff split: option.split)
qed

lemma mapped_law:
  assumes inv: "space_inv B sp a h s" and m: "mappings s ky = Some (t, w)"
  shows "bare s t \<noteq> None"
proof -
  obtain R M where ok: "pt_ok sp R M s" using inv unfolding space_inv_def by (auto elim: pt_invE)
  obtain P va where ky: "ky = (P, va)" by fastforce
  obtain k where k: "k < 1024" "rec_at (pt_maps s) P va k" "mr_tok (pt_maps s ! k) = t" using m unfolding ky mappings_Some [OF ok] by blast
  then show ?thesis using rec_bytes(5) [OF ok k(1) _ refl] bare_dom(2) [of s t] by (simp add: rec_at_def)
qed

interpretation amd: load_machine "amd64 :: 'a Sys_scheme Backend" a "space_inv B sp a h" bare token_bytes mappings full_grant token_byte
  for B sp a h
proof (unfold_locales, goal_cases)
  case (1 s ky t w)
  then show ?case by (rule mapped_law)
next
  case (2 s owner n r tok s')
  then show ?case using alloc_law [of B sp a h s owner n r tok s'] by (simp add: amd64_def)
next
  case (3 s owner n r rc tok s')
  then show ?case using alloc_fail_law [of B sp a h s owner n r rc tok s'] by (simp add: amd64_def)
next
  case (4 s tok e k s' v)
  then show ?case using write_law [of B sp a h s tok e k s' v] by (simp add: amd64_def)
next
  case (5 s va tok p s')
  then show ?case using map_law [of B sp a h s va tok p s'] by (simp add: amd64_def)
next
  case (6 s va tok p rc s')
  then show ?case using map_fail_law [of B sp a h s va tok p rc s'] by (simp add: amd64_def)
next
  case (7 s va s')
  then show ?case using unmap_law [of B sp a h s va s'] by (simp add: amd64_def)
next
  case (8 s tok s')
  then show ?case using release_law [of B sp a h s tok s'] by (simp add: amd64_def)
qed

section \<open>From mappings to walks\<close>

lemma walk_of_mapping:
  assumes ok: "pt_ok sp R M s" and Q: "sp Q \<noteq> None" and va: "user_va va" and m: "mmu (xm_mem s) Q va = Some ac"
  shows "\<exists>w t v. mappings s (Q, w) = Some (t, v) \<and> unat w \<le> unat va \<and> v (unat va - unat w) = Some ac"
proof -
  have "M (Q, path4 va) \<noteq> None" using m mmu_space [OF ok Q va] by auto
  moreover have "Q \<noteq> pt_pml4_phys s" using pt_okD(5) [OF ok, of Q] Q by auto
  ultimately obtain k where k: "k < 1024" "mr_live (pt_maps s ! k)" "(Q, path4 va) \<in> rkeys (pt_maps s ! k)"
    using recs3 [OF pt_okD(7) [OF ok]] by blast
  define r where "r = pt_maps s ! k"
  note rb = rec_bytes [OF ok k(1,2) r_def]
  have rq: "mr_as_pml4 r = Q" using k(3) by (auto simp: r_def rkeys_def pkeys_def)
  have c: "covers (mr_virt r) (unat (mr_pages r)) va" using covers_key [OF rb(1) va, of Q] k(3) by (simp add: rkeys_def r_def rq [unfolded r_def])
  have "mappings s (Q, mr_virt r) = Some (mr_tok r, seen (xm_mem s) Q (mr_virt r) (unat (mr_pages r)))"
    unfolding mappings_Some [OF ok] using k(1,2) rq by (intro exI [of _ k]) (simp add: rec_at_def r_def)
  moreover have "seen (xm_mem s) Q (mr_virt r) (unat (mr_pages r)) (unat va - unat (mr_virt r)) = Some ac"
    using c m by (auto simp: seen_def covers_def of_nat_diff)
  ultimately show ?thesis using c by (auto simp: covers_def)
qed

lemma mapping_walk:
  assumes ok: "pt_ok sp R M s" and m: "mappings s (Q, w) = Some (t, v)" and v: "v off = Some ac"
  shows "mmu (xm_mem s) Q (w + of_nat off) = Some ac"
  using m v unfolding mappings_Some [OF ok] by (auto simp: seen_def split: if_splits)

lemma walks_extend:
  assumes s: "pt_inv B sp s" "pt_inv B' sp s'" and m: "mappings s \<subseteq>\<^sub>m mappings s'" and Q: "sp Q \<noteq> None" "user_va va"
    and w: "mmu (xm_mem s) Q va = Some ac"
  shows "mmu (xm_mem s') Q va = Some ac"
proof -
  obtain R M R' M' where ok: "pt_ok sp R M s" "pt_ok sp R' M' s'" using s by (auto elim!: pt_invE)
  obtain w t v where v: "mappings s (Q, w) = Some (t, v)" "unat w \<le> unat va" "v (unat va - unat w) = Some ac"
    using walk_of_mapping [OF ok(1) Q w] by blast
  have "mappings s' (Q, w) = Some (t, v)" using m v(1) unfolding map_le_def by (metis domI)
  from mapping_walk [OF ok(2) this v(3)] show ?thesis using v(2) by (simp add: of_nat_diff)
qed

lemma walks_same:
  assumes s: "pt_inv B sp s" "pt_inv B' sp s'" and m: "mappings s' = mappings s" and Q: "sp Q \<noteq> None" "user_va va"
  shows "mmu (xm_mem s') Q va = mmu (xm_mem s) Q va"
proof (cases "mmu (xm_mem s) Q va")
  case None
  then show ?thesis using walks_extend [OF s(2,1) _ Q] m by (cases "mmu (xm_mem s') Q va") auto
next
  case (Some ac)
  then show ?thesis using walks_extend [OF s _ Q Some] m by simp
qed

text \<open>A region in place is what the program finds there: each byte with the permissions asked for.\<close>

lemma placed_walk:
  assumes inv: "space_inv B sp a h s" and pl: "amd.placed a s va n p want" and j: "j < n"
  shows "\<exists>ac. mmu (xm_mem s) (as_pml4_phys a) (va + of_nat j) = Some ac \<and> ac_user ac \<and> ac_write ac = (p AND XPERM_W \<noteq> 0) \<and>
    ac_exec ac = (p AND XPERM_X \<noteq> 0) \<and> xm_mem s (ac_phys ac) = want j"
proof -
  obtain R M where ok: "pt_ok sp R M s" using inv unfolding space_inv_def by (auto elim: pt_invE)
  obtain tok e where e: "bare s tok = Some e" "token_bytes e = n" "mappings s (as_pml4_phys a, va) = Some (tok, full_grant e va p)"
    "\<forall>j < n. token_byte s tok j = want j" using pl by (auto simp: amd.placed_def)
  obtain c where c: "toks s tok = Some (e\<lparr>te_map_count := c\<rparr>)" using bare_dom(3) [OF e(1)] by blast
  have "mmu (xm_mem s) (as_pml4_phys a) (va + of_nat j) = Some (granted (te_phys e + of_nat j) p)"
    by (rule mapping_walk [OF ok e(3)]) (use j e(2) in \<open>simp add: full_grant_def\<close>)
  moreover have "xm_mem s (te_phys e + of_nat j) = want j"
    using e(2,4) j c by (auto simp: token_byte_def token_bytes_def)
  ultimately show ?thesis by (simp add: granted_def)
qed

end
