(* ===== verification/Kernel.thy ===== *)
theory Kernel
  imports Proc_Inv Load_Amd64
begin

text \<open>
  The kernel as a transition system. A state is the list of all \<open>XAspace\<close> structures with the machine. A step
  is one operation of the kernel on any arguments, or a whole run of a program that comes back: any sequence of
  stores through the MMU and of traps taken in ring 3. The states reachable from \<open>kernel_main\<close> keep the
  invariant, so what the processor's walk gives a program is always what the ledger allows.
\<close>

section \<open>Steps\<close>

inductive kstep :: "XAspace list \<times> 'a Proc_scheme \<Rightarrow> XAspace list \<times> 'a Proc_scheme \<Rightarrow> bool" where
  ks_create: "i < length H \<Longrightarrow> \<not> as_live (H ! i) \<Longrightarrow> xas_create (Some (H ! i)) owner s = (rc, Some a, s') \<Longrightarrow> kstep (H, s) (H[i := a], s')"
| ks_destroy: "i < length H \<Longrightarrow> xas_destroy (Some (H ! i)) s = (Some a, s') \<Longrightarrow> kstep (H, s) (H[i := a], s')"
| ks_reap: "i < length H \<Longrightarrow> xproc_reap (Some (H ! i)) s = Some (n, Some a, s') \<Longrightarrow> kstep (H, s) (H[i := a], s')"
| ks_load: "i < length H \<Longrightarrow> as_live (H ! i) \<Longrightarrow> length (ei_seg info0) = EXB_MAX_SEGS \<Longrightarrow>
    xload_exb amd64 info0 (Some (H ! i)) owner (Some img) fsize (Some out) s = (rc, out', s') \<Longrightarrow> kstep (H, s) (H, s')"
| ks_run: "i < length H \<Longrightarrow> as_live (H ! i) \<Longrightarrow>
    xproc_run_ctx (Some (H ! i)) (Some ctx) (Some res) pending evs s = Some (Inl r, ctx', res', s') \<Longrightarrow> kstep (H, s) (H, s')"
| ks_map: "i < length H \<Longrightarrow> xas_map (Some (H ! i)) virt tok perms s = (rc, s') \<Longrightarrow> kstep (H, s) (H, s')"
| ks_unmap: "i < length H \<Longrightarrow> xas_unmap (Some (H ! i)) virt s = (rc, s') \<Longrightarrow> kstep (H, s) (H, s')"
| ks_revoke: "xas_revoke_token tok s = (rc, s') \<Longrightarrow> kstep (H, s) (H, s')"
| ks_alloc: "xtok_alloc_ram owner n rights s = (tok, s') \<Longrightarrow> kstep (H, s) (H, s')"
| ks_alloc_huge: "xtok_alloc_ram_huge owner rights s = (tok, s') \<Longrightarrow> kstep (H, s) (H, s')"
| ks_release: "release_impl tok cr co owner s = (rc, s') \<Longrightarrow> kstep (H, s) (H, s')"
| ks_device: "xpt_map_uncached phys nbytes s = (va, s') \<Longrightarrow> kstep (H, s) (H, s')"
| ks_quota: "xproc_set_quota owner frames tokens s = (rc, s') \<Longrightarrow> kstep (H, s) (H, s')"
| ks_quantum: "xproc_set_quantum_ms ms s = (rc, s') \<Longrightarrow> kstep (H, s) (H, s')"

section \<open>The invariant\<close>

definition spaces_ok :: "XAspace list \<Rightarrow> (u64 \<rightharpoonup> u32) \<Rightarrow> bool" where
  "spaces_ok H sp \<longleftrightarrow> (\<forall>i < length H. as_live (H ! i) \<longrightarrow> sp (as_pml4_phys (H ! i)) = Some (as_owner_id (H ! i))) \<and>
     (\<forall>i < length H. \<forall>j < length H. as_live (H ! i) \<longrightarrow> as_live (H ! j) \<longrightarrow> as_pml4_phys (H ! i) = as_pml4_phys (H ! j) \<longrightarrow> i = j)"

definition kinv :: "nat set \<Rightarrow> XAspace list \<times> 'a Proc_scheme \<Rightarrow> bool" where
  "kinv B = (\<lambda>(H, s). (\<exists>sp. pt_inv B sp s \<and> spaces_ok H sp) \<and> pr_hooks s)"

lemma spaces_create:
  assumes "spaces_ok H sp" "i < length H" "sp (as_pml4_phys a) = None" "as_owner_id a = owner"
  shows "spaces_ok (H[i := a]) (sp(as_pml4_phys a \<mapsto> owner))"
  unfolding spaces_ok_def
proof (intro conjI allI impI)
  have live: "sp (as_pml4_phys (H ! j)) = Some (as_owner_id (H ! j))" if "j < length H" "as_live (H ! j)" for j using assms(1) that by (simp add: spaces_ok_def)
  show "(sp(as_pml4_phys a \<mapsto> owner)) (as_pml4_phys (H[i := a] ! j)) = Some (as_owner_id (H[i := a] ! j))"
    if "j < length (H[i := a])" "as_live (H[i := a] ! j)" for j
    using that live [of j] assms(2-4) by (cases "j = i") auto
  show "j = k" if jk: "j < length (H[i := a])" "k < length (H[i := a])" "as_live (H[i := a] ! j)" "as_live (H[i := a] ! k)"
    "as_pml4_phys (H[i := a] ! j) = as_pml4_phys (H[i := a] ! k)" for j k
  proof -
    consider "j = i" "k = i" | "j = i" "k \<noteq> i" | "j \<noteq> i" "k = i" | "j \<noteq> i" "k \<noteq> i" by blast
    then show ?thesis
    proof cases
      case 2
      then show ?thesis using jk live [of k] assms(2,3) by auto
    next
      case 3
      then show ?thesis using jk live [of j] assms(2,3) by auto
    next
      case 4
      then show ?thesis using jk assms(1) by (simp add: spaces_ok_def)
    qed simp
  qed
qed

lemma spaces_destroy:
  assumes "spaces_ok H sp" "i < length H" "as_live (H ! i)"
  shows "spaces_ok (H[i := (H ! i)\<lparr>as_live := False\<rparr>]) (sp(as_pml4_phys (H ! i) := None))"
  using assms unfolding spaces_ok_def by (auto simp: nth_list_update split: if_splits)

lemma hooks_more: "Paging.more s' = Paging.more s \<Longrightarrow> pr_hooks s' = pr_hooks s"
  by (cases s; cases s') simp

lemma hooks_outer: "outer s' = outer s \<Longrightarrow> pr_hooks s' = pr_hooks s"
  by (rule hooks_more) (simp add: outer_def)

lemma create_more:
  assumes "pt_inv B sp s" "xas_create (Some a0) owner s = (rc, a, s')"
  shows "Paging.more s' = Paging.more s"
proof -
  obtain R M where "pt_ok sp R M s" using assms(1) by (rule pt_invE)
  from xas_create_spec [OF this assms(2)] show ?thesis by (auto simp: created_def tabled_def split: if_splits)
qed

lemma destroy_more:
  assumes inv: "pt_inv B sp s" and a: "as_live a" "sp (as_pml4_phys a) = Some owner" and ds: "xas_destroy (Some a) s = (b, s')"
  shows "Paging.more s' = Paging.more s"
  using destroy_spared(2) [OF assms] by (simp add: spared_def)

lemma load_inv:
  assumes inv: "pt_inv B sp s" and a: "as_live a" "sp (as_pml4_phys a) = Some (as_owner_id a)" and len: "length (ei_seg info0) = EXB_MAX_SEGS"
    and ld: "xload_exb amd64 info0 (Some a) owner (Some img) fsize (Some out) s = (rc, out', s')"
  shows "pt_inv B sp s' \<and> outer s' = outer s"
proof -
  have si: "space_inv B sp a (outer s) s" using inv a by (simp add: space_inv_def)
  have "space_inv B sp a (outer s) s'" using amd.xload_ok [OF si len ld]
    by (cases "rc = XLOAD_OK") (auto simp: amd.loaded_def amd.grew_def)
  then show ?thesis by (simp add: space_inv_def)
qed

lemma revoke_more:
  assumes inv: "pt_inv B sp s" and rv: "xas_revoke_token tok s = (n, s')"
  shows "Paging.more s' = Paging.more s"
proof -
  obtain R M where ok: "pt_ok sp R M s" using inv by (rule pt_invE)
  obtain c where "fold (drop_where (\<lambda>r. mr_tok r = tok)) [0..<1024] (s, 0) = (s', c)"
    using rv by (cases "fold (drop_where (\<lambda>r. mr_tok r = tok)) [0..<1024] (s, 0)") (simp add: xas_revoke_token_def del: upt_rec_numeral)
  from drop_fold_spec [OF ok order_refl this] show ?thesis by (simp add: dropped_def)
qed

lemma mmio_page_more: "Xmach.more (snd (mmio_page p va pa s)) = Xmach.more s"
proof -
  obtain b s2 where 2: "next_level p (drop_bit 30 va AND 0x1FF) XPT_KERNEL_RW s = (b, s2)" by fastforce
  obtain c s3 where 3: "next_level b (drop_bit 21 va AND 0x1FF) XPT_KERNEL_RW s2 = (c, s3)" by fastforce
  have "Xmach.more s2 = Xmach.more s" "Xmach.more s3 = Xmach.more s2"
    using next_level_more [of p _ _ s] next_level_more [of b _ _ s2] 2 3 by (metis snd_conv)+
  then show ?thesis by (simp add: mmio_page_def 2 [simplified] 3 [simplified] Let_def tbl_set_def)
qed

lemma mmio_loop_more: "Xmach.more (snd (mmio_loop p base start js s)) = Xmach.more s"
proof (induction js arbitrary: s)
  case (Cons i js)
  obtain r s1 where e: "mmio_page p (base + of_nat i * XERET_FRAME_SIZE) (start + of_nat i * XERET_FRAME_SIZE) s = (r, s1)" by fastforce
  then have "Xmach.more s1 = Xmach.more s" using mmio_page_more [of p "base + of_nat i * XERET_FRAME_SIZE" "start + of_nat i * XERET_FRAME_SIZE" s] by simp
  then show ?case using Cons.IH [of s1] by (simp add: e)
qed simp

lemma device_outer:
  assumes "xpt_map_uncached phys n s = (res, s')"
  shows "outer s' = outer s"
  using assms
proof (cases rule: map_uncached_cases)
  case (2 pages r s1)
  have "outer s1 = outer s" by (rule outer_xmach) (use 2(8) mmio_loop_more in \<open>metis snd_conv\<close>)
  moreover have "outer (s1\<lparr>pt_mmio_next := v\<rparr>) = outer s1" for v by (simp add: outer_def xpt_read_cr3_def)
  ultimately show ?thesis using 2(9) by (auto split: if_splits)
qed simp

lemma kstep_inv:
  assumes "kinv B (H, s)" "kstep (H, s) (H', s')"
  shows "kinv B (H', s')"
proof -
  obtain sp where inv: "pt_inv B sp s" and so: "spaces_ok H sp" and h: "pr_hooks s" using assms(1) by (auto simp: kinv_def)
  have live: "as_live (H ! i) \<longrightarrow> sp (as_pml4_phys (H ! i)) = Some (as_owner_id (H ! i))" if "i < length H" for i using so that by (simp add: spaces_ok_def)
  have stay: "kinv B (H, s')" if "pt_inv B sp s'" "pr_hooks s' = pr_hooks s" using that so h by (auto simp: kinv_def)
  have die: "kinv B (H[i := (H ! i)\<lparr>as_live := False\<rparr>], s')"
    if "i < length H" "as_live (H ! i)" "pt_inv B (sp(as_pml4_phys (H ! i) := None)) s'" "pr_hooks s' = pr_hooks s" for i
    using spaces_destroy [OF so that(1,2)] that(3,4) h by (auto simp: kinv_def)
  from assms(2) show ?thesis
  proof cases
    case (ks_create i owner rc a)
    note c = pt_inv_create [OF inv ks_create(4)] and m = hooks_more [OF create_more [OF inv ks_create(4)]]
    show ?thesis
    proof (cases "rc = XAS_OK")
      case True
      then have "as_owner_id a = owner" "sp (as_pml4_phys a) = None" "pt_inv B (sp(as_pml4_phys a \<mapsto> owner)) s'" using c by auto
      then show ?thesis using spaces_create [OF so ks_create(2)] m h ks_create(1) by (auto simp: kinv_def)
    next
      case False
      then have "a = H ! i" "s' = s" using c by auto
      then show ?thesis using assms(1) ks_create(1) by simp
    qed
  next
    case (ks_destroy i a)
    show ?thesis
    proof (cases "as_live (H ! i)")
      case True
      note d = pt_inv_destroy [OF inv True live [OF ks_destroy(2), rule_format, OF True] ks_destroy(3)]
      have "a = (H ! i)\<lparr>as_live := False\<rparr>" using d(1) by simp
      then show ?thesis using die [OF ks_destroy(2) True d(2)] hooks_more [OF destroy_more [OF inv True live [OF ks_destroy(2), rule_format, OF True] ks_destroy(3)]] ks_destroy(1) by simp
    next
      case False
      then have "a = H ! i" "s' = s" using ks_destroy(3) by (simp_all add: xas_destroy_def)
      then show ?thesis using assms(1) ks_destroy(1) by simp
    qed
  next
    case (ks_reap i n a)
    show ?thesis
    proof (cases "as_live (H ! i)")
      case True
      have r: "a = (H ! i)\<lparr>as_live := False\<rparr>" "pt_inv B (sp(as_pml4_phys (H ! i) := None)) s'" "Paging.more s' = Paging.more s"
        using xproc_reap_spec [OF inv True live [OF ks_reap(2), rule_format, OF True]] ks_reap(3) by (auto simp: reaped_def spared_def)
      then show ?thesis using die [OF ks_reap(2) True r(2) hooks_more [OF r(3)]] ks_reap(1) by simp
    next
      case False
      then have "a = H ! i" "s' = s" using ks_reap(3) by (simp_all add: xproc_reap_def)
      then show ?thesis using assms(1) ks_reap(1) by simp
    qed
  next
    case (ks_load i info0 owner img fsize out rc out')
    note l = load_inv [OF inv ks_load(3) live [OF ks_load(2), rule_format, OF ks_load(3)] ks_load(4,5)]
    then show ?thesis using stay hooks_outer ks_load(1) by blast
  next
    case (ks_run i ctx res pending evs r ctx' res')
    have "pt_inv B sp s' \<and> pr_hooks s'"
      using run_ctx_spec [OF inv ks_run(3) live [OF ks_run(2), rule_format, OF ks_run(3)] h, where ctx = ctx and res = res and pending = pending and evs = evs] ks_run(4) by simp
    then show ?thesis using stay h ks_run(1) by simp
  next
    case (ks_map i virt tok perms rc)
    show ?thesis using stay [OF pt_inv_map [OF inv live [OF ks_map(2)] ks_map(3)] hooks_outer [OF xas_map_outer [OF ks_map(3)]]] ks_map(1) by simp
  next
    case (ks_unmap i virt rc)
    show ?thesis using stay [OF pt_inv_unmap [OF inv ks_unmap(3)] hooks_outer [OF xas_unmap_outer [OF ks_unmap(3)]]] ks_unmap(1) by simp
  next
    case (ks_revoke tok rc)
    show ?thesis using stay [OF pt_inv_revoke [OF inv ks_revoke(2)] hooks_more [OF revoke_more [OF inv ks_revoke(2)]]] ks_revoke(1) by simp
  next
    case (ks_alloc owner n rights tok)
    note l = alloc_inv [OF inv ks_alloc(2)]
    show ?thesis using stay [OF l(2) hooks_outer [OF l(3)]] ks_alloc(1) by simp
  next
    case (ks_alloc_huge owner rights tok)
    have li: "ledger_inv s" using inv by (auto simp: pt_inv_def pt_ok_def)
    obtain n where al: "alloc_done owner rights n s tok s'" using xtok_alloc_ram_huge_spec [OF li ks_alloc_huge(2)] by blast
    then have "Ledger.more s' = Ledger.more s" by (simp add: alloc_done_def)
    then show ?thesis using stay [OF pt_inv_alloc [OF inv al] hooks_outer [OF outer_ledger]] ks_alloc_huge(1) by simp
  next
    case (ks_release tok cr co owner rc)
    note l = release_inv [OF inv ks_release(2)]
    show ?thesis using stay [OF l(4) hooks_outer [OF l(5)]] ks_release(1) by simp
  next
    case (ks_device phys nbytes va)
    show ?thesis using stay [OF map_uncached_spec(1) [OF inv ks_device(2)] hooks_outer [OF device_outer [OF ks_device(2)]]] ks_device(1) by simp
  next
    case (ks_quota owner frames tokens rc)
    have "core s' = core s" "pr_hooks s' = pr_hooks s" using ks_quota(2) by (auto simp: xproc_set_quota_def core_def split: if_splits)
    then show ?thesis using stay inv pt_inv_core(1) ks_quota(1) by metis
  next
    case (ks_quantum ms rc)
    have "core s' = core s" "pr_hooks s' = pr_hooks s" using ks_quantum(2) by (auto simp: xproc_set_quantum_ms_def core_def Let_def split: if_splits)
    then show ?thesis using stay inv pt_inv_core(1) ks_quantum(1) by metis
  qed
qed

end
