(* ===== verification/Paging_Walk.thy ===== *)
theory Paging_Walk
  imports Paging_Frame
begin

text \<open>
  The processor's walk reads nothing but the tables of the tree. So a store to a frame that holds no table changes no
  translation, of a user address or of the kernel's half, in any address space and in the kernel's own.
\<close>

lemma table_step:
  assumes t: "tree K R M m tot" and f: "R f = Some (P, p)" "adm K P p i" and e: "bit (ent m f i) 0" "\<not> is_leaf p (ent m f i)"
  obtains g where "ent m f i AND XPT_ADDR_MASK = fa g" "R g = Some (P, p @ [i])" "\<not> bit (ent m f i) 7"
proof -
  obtain g where g: "ent m f i = ptr g (fl K P)" "R g = Some (P, p @ [i])" using treeD(4) [OF t f e] by blast
  have "g < 33554432" using treeD(1) [OF t] treeD(2) [OF t g(2)] by linarith
  then show ?thesis using that [of g] g ptr_addr [of g "fl K P"] by simp
qed

text \<open>The entry a walk starts from belongs to the root itself or, in the shared half, to the kernel's root.\<close>

lemma root_entry:
  assumes t: "tree K R M m tot" and k: "R k = Some (K, [])" and f: "R f = Some (P, [])" and i: "i < 512"
  shows "\<not> bit (ent m f i) 0 \<or> (\<exists>Q r. R r = Some (Q, []) \<and> adm K Q [] i \<and> ent m f i = ent m r i)"
proof (cases "adm K P [] i")
  case False
  then show ?thesis
  proof (cases "P = K")
    case True
    then have "f = k" using role_unique [OF t f] k by simp
    then show ?thesis using treeD(10) [OF t k] False True i by (auto simp: adm_def)
  next
    case n: False
    then have "adm K K [] i" using False i by (auto simp: adm_def)
    then show ?thesis using treeD(9) [OF t f k n] k by blast
  qed
qed (use f in blast)

lemma mmu_frame:
  assumes t: "tree K R M m tot" and k: "R k = Some (K, [])" and f: "R f = Some (P, [])"
    and same: "\<And>g i. g \<in> dom R \<Longrightarrow> i < 512 \<Longrightarrow> ent m' g i = ent m g i"
  shows "mmu m' P va = mmu m P va"
proof -
  define a b c l where abc: "a = ix 39 va" "b = ix 30 va" "c = ix 21 va" "l = ix 12 va"
  have lt: "a < 512" "b < 512" "c < 512" "l < 512" by (simp_all add: abc)
  have fb: "f < 33554432" using treeD(1) [OF t] treeD(2) [OF t f] by linarith
  have P: "(P AND XPT_ADDR_MASK) = fa f" using treeD(3) [OF t f] fa_masked [OF fb] by simp
  note w = mmu_def abc [symmetric] P load_entry Let_def
  have s1: "ent m' f a = ent m f a" using same [of f a] f lt by auto
  consider "\<not> bit (ent m f a) 0" | Q r where "R r = Some (Q, [])" "adm K Q [] a" "ent m f a = ent m r a" "bit (ent m r a) 0"
    using root_entry [OF t k f lt(1)] by metis
  then show ?thesis
  proof cases
    case 1
    then show ?thesis by (simp add: w s1)
  next
    case (2 Q r)
    have ad: "adm K Q [a] b" "adm K Q [a, b] c" using lt by (auto simp: adm_def)
    obtain f1 where f1: "ent m r a AND XPT_ADDR_MASK = fa f1" "R f1 = Some (Q, [a])"
      by (rule table_step [OF t 2(1,2,4)]) (auto simp: is_leaf_def)
    have s2: "ent m' f1 b = ent m f1 b" using same [of f1 b] f1(2) lt by auto
    note w1 = w s1 2(3) f1(1) s2
    show ?thesis
    proof (cases "bit (ent m f1 b) 0")
      case True
      obtain f2 where f2: "ent m f1 b AND XPT_ADDR_MASK = fa f2" "R f2 = Some (Q, [a, b])"
        by (rule table_step [OF t f1(2) ad(1) True]) (auto simp: is_leaf_def)
      have s3: "ent m' f2 c = ent m f2 c" using same [of f2 c] f2(2) lt by auto
      note w2 = w1 f2(1) s3
      show ?thesis
      proof (cases "bit (ent m f2 c) 0 \<and> \<not> bit (ent m f2 c) 7")
        case p: True
        obtain f3 where f3: "ent m f2 c AND XPT_ADDR_MASK = fa f3" "R f3 = Some (Q, [a, b, c])"
          by (rule table_step [OF t f2(2) ad(2)]) (use p in \<open>auto simp: is_leaf_def\<close>)
        have s4: "ent m' f3 l = ent m f3 l" using same [of f3 l] f3(2) lt by auto
        show ?thesis by (simp add: w2 f3(1) s4)
      qed (auto simp: w2)
    qed (simp add: w1)
  qed
qed

lemma mmu_store:
  assumes ok: "pt_ok sp R M s" and P: "P = pt_pml4_phys s \<or> sp P \<noteq> None" and e: "toks s t = Some e" "unat x div 4096 \<in> te_span e"
  shows "mmu ((xm_mem s)(x := b)) P va = mmu (xm_mem s) P va"
proof -
  let ?K = "pt_pml4_phys s"
  have t: "tree ?K R M (xm_mem s) (unat (pb_total (xm_phys s)))" using pt_okD(2) [OF ok] by (simp add: trees_def)
  obtain k where k: "R k = Some (?K, [])" using pt_okD(3) [OF ok] by (auto simp: kern_roles_def)
  obtain f where f: "R f = Some (P, [])" using P k pt_okD(5) [OF ok, of P] by auto
  have x: "unat x div 4096 \<notin> dom R" using pt_okD(4) [OF ok e(1)] e(2) by blast
  have "ent ((xm_mem s)(x := b)) g i = ent (xm_mem s) g i" if g: "g \<in> dom R" "i < 512" for g i
  proof -
    obtain Q p where "R g = Some (Q, p)" using g(1) by auto
    then have "g < 33554432" using treeD(1,2) [OF t] by fastforce
    then show ?thesis by (rule ent_cong [OF _ g(2)]) (use x g(1) in auto)
  qed
  then show ?thesis by (rule mmu_frame [OF t k f])
qed

end
