(* ===== verification/Kernel_Props.thy ===== *)
theory Kernel_Props
  imports Kernel Paging_Walk
begin

text \<open>
  What the kernel guarantees to and against its programs, stated over the states reachable from
  \<open>kernel_main\<close>. The example of every statement is one machine: 16 GiB are started, an address
  space is made for owner 7, a token of one frame is allocated to it and mapped.
\<close>

section \<open>Reachable states\<close>

lemma ksteps_inv:
  assumes "kstep\<^sup>*\<^sup>* c c'" "kinv B c"
  shows "kinv B c'"
  using assms
proof (induction rule: rtranclp_induct)
  case (step y z)
  obtain H s H' s' where "y = (H, s)" "z = (H', s')" by fastforce
  then show ?case using kstep_inv step by blast
qed

lemma boot_kinv:
  assumes "cold s" "kernel_main cpuid ly hw hand s = Inr s0" "\<forall>a \<in> set H. \<not> as_live a"
  shows "\<exists>B. kinv B (H, s0)"
proof -
  obtain p where p: "pt_inv (ffree p) Map.empty s0" "pr_hooks s0" using kernel_main_spec [OF assms(1,2)] by blast
  have "spaces_ok H Map.empty" using assms(3) by (simp add: spaces_ok_def)
  then show ?thesis using p by (auto simp: kinv_def)
qed

lemma reachable_space:
  assumes "cold s" "kernel_main cpuid ly hw hand s = Inr s0" "\<forall>a \<in> set H0. \<not> as_live a" "kstep\<^sup>*\<^sup>* (H0, s0) (H, s')"
  obtains B sp where "pt_inv B sp s'" "spaces_ok H sp"
proof -
  obtain B where "kinv B (H0, s0)" using boot_kinv [OF assms(1-3)] by blast
  from ksteps_inv [OF assms(4) this] show ?thesis using that by (auto simp: kinv_def)
qed

section \<open>The example\<close>

lemma no_spaces:
  assumes "pt_inv B Map.empty s" "k < 1024"
  shows "\<not> mr_live (pt_maps s ! k)"
proof -
  obtain R M where ok: "pt_ok Map.empty R M s" using assms(1) by (rule pt_invE)
  show ?thesis using recs2 [OF pt_okD(7) [OF ok] assms(2)] by (auto simp: rec_ok_def)
qed

lemma no_leaves:
  assumes ok: "pt_ok sp R M s" and P: "sp P \<noteq> None" and n: "\<And>k. k < 1024 \<Longrightarrow> \<not> mr_live (pt_maps s ! k)"
  shows "M (P, q) = None"
proof -
  have "P \<noteq> pt_pml4_phys s" using pt_okD(5) [OF ok, of P] P by auto
  then show ?thesis using recs3 [OF pt_okD(7) [OF ok], of P q] n by blast
qed

definition no_space :: XAspace where
  "no_space = \<lparr>as_pml4_phys = 0, as_owner_id = 0, as_live = False\<rparr>"

abbreviation sample_rights :: u32 where
  "sample_rights \<equiv> XTOK_RIGHT_READ OR XTOK_RIGHT_WRITE OR XTOK_RIGHT_MAP OR XTOK_RIGHT_RELEASE"

abbreviation sample_perms :: u32 where "sample_perms \<equiv> XPERM_R OR XPERM_W"

lemma sample_space:
  obtains s0 a s1 where "kernel_main nx_cpu flat_layout quiet_hw big_box power_on = Inr s0"
    "xas_create (Some no_space) 7 s0 = (XAS_OK, Some a, s1)" "as_live a" "as_owner_id a = 7"
    "pt_inv {256..<4194304} [as_pml4_phys a \<mapsto> 7] s1" "toks s1 = Map.empty" "3899999 < card (ffree (xm_phys s1))"
    "\<forall>k < 1024. \<not> mr_live (pt_maps s1 ! k)" "pr_hooks s1"
proof -
  obtain s0 where s0: "kernel_main nx_cpu flat_layout quiet_hw big_box power_on = Inr s0" "pt_inv {256..<4194304} Map.empty s0" "toks s0 = Map.empty"
    "3900000 < card (ffree (xm_phys s0))" by (rule power_on_boots)
  obtain R M where ok: "pt_ok Map.empty R M s0" using s0(2) by (rule pt_invE)
  obtain rc b s1 where c: "xas_create (Some no_space) 7 s0 = (rc, b, s1)" by (rule prod_cases3)
  have rc: "rc = XAS_OK"
  proof (rule ccontr)
    assume "rc \<noteq> XAS_OK"
    then have "ffree (xm_phys s0) = {}" using xas_create_spec [OF ok c] by auto
    then show False using s0(4) by simp
  qed
  then obtain a where a: "b = Some a" "created Map.empty R M s0 7 a s1" using xas_create_spec [OF ok c] by auto
  have cr: "as_live a" "as_owner_id a = 7" "toks s1 = toks s0" "pt_maps s1 = pt_maps s0" using a(2) by (simp_all add: created_def)
  have inv1: "pt_inv {256..<4194304} [as_pml4_phys a \<mapsto> 7] s1" using pt_inv_create [OF s0(2) c] rc a(1) by auto
  obtain g where g: "ffree (xm_phys s1) = ffree (xm_phys s0) - {g}" using a(2) by (auto simp: created_def)
  have "card (ffree (xm_phys s0)) - card {g} \<le> card (ffree (xm_phys s1))" unfolding g by (rule diff_card_le_card_Diff) simp
  then have cd: "3899999 < card (ffree (xm_phys s1))" using s0(4) by simp
  obtain p where "pr_hooks s0" using kernel_main_spec [OF cold_power_on s0(1)] by blast
  then have hk: "pr_hooks s1" using hooks_more [OF create_more [OF s0(2) c]] by simp
  show ?thesis
    by (rule that [OF s0(1) c [unfolded rc a(1)] cr(1,2) inv1 _ cd _ hk]) (use cr(3,4) s0(3) no_spaces [OF s0(2)] in simp_all)
qed

lemma sample_token:
  obtains s0 a s1 tok s2 e where "kernel_main nx_cpu flat_layout quiet_hw big_box power_on = Inr s0"
    "xas_create (Some no_space) 7 s0 = (XAS_OK, Some a, s1)" "xtok_alloc_ram 7 1 sample_rights s1 = (tok, s2)" "tok \<noteq> 0"
    "as_live a" "as_owner_id a = 7" "pt_inv {256..<4194304} [as_pml4_phys a \<mapsto> 7] s2" "toks s2 = [tok \<mapsto> e]"
    "te_owner e = 7" "te_rights e = sample_rights" "te_frames e = 1" "te_map_count e = 0" "3899998 < card (ffree (xm_phys s2))"
    "\<forall>k < 1024. \<not> mr_live (pt_maps s2 ! k)" "pr_hooks s2"
proof -
  obtain s0 a s1 where s1: "kernel_main nx_cpu flat_layout quiet_hw big_box power_on = Inr s0"
    "xas_create (Some no_space) 7 s0 = (XAS_OK, Some a, s1)" "as_live a" "as_owner_id a = 7"
    "pt_inv {256..<4194304} [as_pml4_phys a \<mapsto> 7] s1" "toks s1 = Map.empty" "3899999 < card (ffree (xm_phys s1))"
    "\<forall>k < 1024. \<not> mr_live (pt_maps s1 ! k)" "pr_hooks s1" by (rule sample_space)
  obtain tok s2 where al: "xtok_alloc_ram 7 1 sample_rights s1 = (tok, s2)" by fastforce
  note ai = alloc_inv [OF s1(5) al]
  have li: "ledger_inv s1" using s1(5) by (auto simp: pt_inv_def pt_ok_def)
  have "tok \<noteq> 0"
  proof
    assume "tok = 0"
    then consider "\<forall>f. \<not> frun f 1 \<subseteq> ffree (xm_phys s1)" | "te_live (lg_table s1 ! 0)" using xtok_alloc_ram_spec [OF li al] by auto
    then show False
    proof cases
      case 1
      have "ffree (xm_phys s1) = {}"
      proof (rule equals0I)
        fix f assume "f \<in> ffree (xm_phys s1)"
        then have "frun f 1 \<subseteq> ffree (xm_phys s1)" by simp
        then show False using 1 by blast
      qed
      then show False using s1(7) by simp
    next
      case 2
      then show False using toks_slot [OF li _ 2] s1(6) by simp
    qed
  qed
  then obtain e where e: "ram_entry 7 sample_rights (te_phys e) 1 e" "toks s2 = (toks s1)(tok \<mapsto> e)" "ffree (xm_phys s2) = ffree (xm_phys s1) - te_span e"
    using ai(1) by (auto simp: alloc_done_def)
  have re: "te_owner e = 7" "te_rights e = sample_rights" "te_frames e = 1" "te_map_count e = 0" using e(1) by (simp_all add: ram_entry_def)
  have "card (te_span e) = 1" by (simp add: te_span_def re(3))
  then have "card (ffree (xm_phys s1)) - 1 \<le> card (ffree (xm_phys s2))"
    using diff_card_le_card_Diff [of "te_span e" "ffree (xm_phys s1)"] by (simp add: e(3) te_span_def)
  then have cd: "3899998 < card (ffree (xm_phys s2))" using s1(7) by simp
  have mp: "pt_maps s2 = pt_maps s1" using ai(1) ledger_more_fields(3) [of s2 s1] by (simp add: alloc_done_def)
  have hk: "pr_hooks s2" using hooks_outer [OF ai(3)] s1(9) by simp
  have tk: "toks s2 = [tok \<mapsto> e]" by (simp only: e(2) s1(6))
  show ?thesis
    by (rule that [OF s1(1,2) al \<open>tok \<noteq> 0\<close> s1(3,4) ai(2) tk re cd _ hk]) (use mp s1(8) in simp)
qed

lemma sample_maps:
  assumes s: "pt_inv B [as_pml4_phys a \<mapsto> 7] s" "as_live a" "as_owner_id a = 7" "toks s = [tok \<mapsto> e]" "te_owner e = 7" "te_rights e = sample_rights"
    "te_frames e = 1" "te_map_count e = 0" "3899998 < card (ffree (xm_phys s))" "\<forall>k < 1024. \<not> mr_live (pt_maps s ! k)"
  shows "fst (xas_map (Some a) XAS_USER_BASE tok sample_perms s) = XAS_OK"
proof -
  obtain R M where ok: "pt_ok [as_pml4_phys a \<mapsto> 7] R M s" using s(1) by (rule pt_invE)
  have om: "owner_maps 7 s = 0" unfolding owner_maps_def using s(10) by (simp add: filter_empty_conv del: upt_rec_numeral)
  show ?thesis
  proof (rule xas_map_live [OF ok s(2), where e = e and k = 0])
    show "[as_pml4_phys a \<mapsto> 7] (as_pml4_phys a) = Some (as_owner_id a)" by (simp add: s(3))
    show "legal_perms sample_perms" by (simp add: legal_perms_def)
    show "unat XAS_USER_BASE mod 4096 = 0" "unat XAS_USER_BASE \<le> unat XAS_USER_BASE" "0 < unat (te_frames e)" by (simp_all add: s(7))
    show "unat XAS_USER_BASE + unat (te_frames e) * 4096 \<le> unat XAS_USER_TOP" by (simp add: s(7))
    show "toks s tok = Some e" "te_owner e = as_owner_id a" using s(3-5) by simp_all
    show "te_rights e AND need_rights sample_perms = need_rights sample_perms" by (simp add: s(6) need_rights_def)
    show "te_map_count e \<noteq> 0xFFFF" by (simp add: s(8))
    show "owner_maps (as_owner_id a) s < XAS_MAX_MAPS_PER_OWNER" by (simp add: s(3) om)
    show "(0 :: nat) < 1024" "\<not> mr_live (pt_maps s ! 0)" using s(10) by simp_all
    show "M (as_pml4_phys a, path4 (page XAS_USER_BASE i)) = None" for i by (rule no_leaves [OF ok]) (use s(10) in simp_all)
    show "3 * unat (te_frames e) < card (ffree (xm_phys s))" using s(9) by (simp add: s(7))
  qed
qed

lemma sample_mapped:
  obtains s0 a s1 tok s2 e s3 where "kernel_main nx_cpu flat_layout quiet_hw big_box power_on = Inr s0"
    "xas_create (Some no_space) 7 s0 = (XAS_OK, Some a, s1)" "xtok_alloc_ram 7 1 sample_rights s1 = (tok, s2)"
    "xas_map (Some a) XAS_USER_BASE tok sample_perms s2 = (XAS_OK, s3)" "kstep\<^sup>*\<^sup>* ([no_space], s0) ([a], s3)"
    "as_live a" "as_owner_id a = 7" "pt_inv {256..<4194304} [as_pml4_phys a \<mapsto> 7] s2" "pt_inv {256..<4194304} [as_pml4_phys a \<mapsto> 7] s3"
    "toks s2 = [tok \<mapsto> e]" "te_frames e = 1" "pr_hooks s3"
    "mmu (xm_mem s3) (as_pml4_phys a) XAS_USER_BASE = Some (granted (te_phys e) sample_perms)"
proof -
  obtain s0 a s1 tok s2 e where s2: "kernel_main nx_cpu flat_layout quiet_hw big_box power_on = Inr s0"
    "xas_create (Some no_space) 7 s0 = (XAS_OK, Some a, s1)" "xtok_alloc_ram 7 1 sample_rights s1 = (tok, s2)" "tok \<noteq> 0"
    "as_live a" "as_owner_id a = 7" "pt_inv {256..<4194304} [as_pml4_phys a \<mapsto> 7] s2" "toks s2 = [tok \<mapsto> e]"
    "te_owner e = 7" "te_rights e = sample_rights" "te_frames e = 1" "te_map_count e = 0" "3899998 < card (ffree (xm_phys s2))"
    "\<forall>k < 1024. \<not> mr_live (pt_maps s2 ! k)" "pr_hooks s2" by (rule sample_token)
  obtain s3 where mp: "xas_map (Some a) XAS_USER_BASE tok sample_perms s2 = (XAS_OK, s3)"
    using sample_maps [OF s2(7,5,6,8-14)] by (metis prod.collapse)
  have sp: "[as_pml4_phys a \<mapsto> 7] (as_pml4_phys a) = Some (as_owner_id a)" by (simp add: s2(6))
  have inv3: "pt_inv {256..<4194304} [as_pml4_phys a \<mapsto> 7] s3" by (rule pt_inv_map [OF s2(7) _ mp]) (simp add: s2(6))
  have k1: "kstep ([no_space], s0) ([a], s1)" using ks_create [of 0 "[no_space]" 7 s0 XAS_OK a s1] s2(2) by (simp add: no_space_def)
  have k2: "kstep ([a], s1) ([a], s2)" by (rule ks_alloc [OF s2(3)])
  have k3: "kstep ([a], s2) ([a], s3)" by (rule ks_map [of 0]) (use mp in simp_all)
  have ks: "kstep\<^sup>*\<^sup>* ([no_space], s0) ([a], s3)" by (rule converse_rtranclp_into_rtranclp [OF k1 converse_rtranclp_into_rtranclp [where r = kstep, OF k2 r_into_rtranclp [where r = kstep, OF k3]]])
  have hk: "pr_hooks s3" using hooks_outer [OF xas_map_outer [OF mp]] s2(15) by simp
  obtain e' where e': "toks s2 tok = Some e'" "\<forall>off < unat (te_frames e') * 4096. mmu (xm_mem s3) (as_pml4_phys a) (XAS_USER_BASE + of_nat off) =
      Some (granted (te_phys e' + of_nat off) sample_perms)" using xas_map_view [OF s2(7,5) sp mp] by blast
  have "e' = e" using e'(1) by (simp add: s2(8))
  then have mm: "mmu (xm_mem s3) (as_pml4_phys a) XAS_USER_BASE = Some (granted (te_phys e) sample_perms)"
    using e'(2) [rule_format, of 0] by (simp add: s2(11))
  show ?thesis by (rule that [OF s2(1-3) mp ks s2(5-7) inv3 s2(8,11) hk mm])
qed

section \<open>Confinement\<close>

text \<open>C1. (safety) Programs are confined. Start the kernel and let it run for any sequence of operations and
  program runs. Whatever a program then reaches through the processor's page walk from ring 3 lies in
  the user range of addresses and in a frame of a live token of its own owner; it can be written only if the
  token has the write right, executed only with the execute right, and never both.\<close>

theorem kernel_confines:
  assumes "cold s" "kernel_main cpuid ly hw hand s = Inr s0" "\<forall>a \<in> set H0. \<not> as_live a" "kstep\<^sup>*\<^sup>* (H0, s0) (H, s')"
    and "i < length H" "as_live (H ! i)" "mmu (xm_mem s') (as_pml4_phys (H ! i)) va = Some ac" "ac_user ac"
  shows "user_va va \<and> allowed (toks s') (as_owner_id (H ! i)) ac"
proof -
  obtain B sp where inv: "pt_inv B sp s'" and so: "spaces_ok H sp" using reachable_space [OF assms(1-4)] by blast
  obtain R M where ok: "pt_ok sp R M s'" using inv by (rule pt_invE)
  have "sp (as_pml4_phys (H ! i)) = Some (as_owner_id (H ! i))" using so assms(5,6) by (simp add: spaces_ok_def)
  from mmu_allowed [OF ok this assms(7,8)] show ?thesis by simp
qed

theorem kernel_confines_witness:
  "\<exists>s0 a s. kernel_main nx_cpu flat_layout quiet_hw big_box power_on = Inr s0 \<and> kstep\<^sup>*\<^sup>* ([no_space], s0) ([a], s) \<and>
     (\<exists>ac. mmu (xm_mem s) (as_pml4_phys a) XAS_USER_BASE = Some ac \<and> ac_write ac \<and> user_va XAS_USER_BASE \<and> allowed (toks s) 7 ac)"
proof (rule sample_mapped, goal_cases)
  case (1 s0 a s1 tok s2 e s3)
  have "user_va XAS_USER_BASE \<and> allowed (toks s3) 7 (granted (te_phys e) sample_perms)"
    using kernel_confines [OF cold_power_on 1(1) _ 1(5), of 0 XAS_USER_BASE "granted (te_phys e) sample_perms"] 1(6,7,13)
    by (simp add: no_space_def granted_def)
  moreover have "ac_write (granted (te_phys e) sample_perms)" by (simp add: granted_def)
  ultimately show ?case using 1(1,5,13) by blast
qed

text \<open>C3. (invariant) Programs are isolated. In every reachable state a frame that a program reaches from
  ring 3 is not free, and any program that reaches the same frame has the same owner. Storing any byte to it
  changes no translation of any address, user or kernel, in any live address space and in the kernel's own page tables.\<close>

theorem kernel_isolates:
  assumes "cold s" "kernel_main cpuid ly hw hand s = Inr s0" "\<forall>a \<in> set H0. \<not> as_live a" "kstep\<^sup>*\<^sup>* (H0, s0) (H, s')"
    and i: "i < length H" "as_live (H ! i)" "mmu (xm_mem s') (as_pml4_phys (H ! i)) va = Some ac" "ac_user ac"
    and j: "j < length H" "as_live (H ! j)" "mmu (xm_mem s') (as_pml4_phys (H ! j)) va' = Some ac'" "ac_user ac'"
    and f: "unat (ac_phys ac) div 4096 = unat (ac_phys ac') div 4096"
  shows "as_owner_id (H ! i) = as_owner_id (H ! j) \<and> unat (ac_phys ac) div 4096 \<notin> ffree (xm_phys s') \<and>
    (\<forall>P v b. P = pt_pml4_phys s' \<or> (\<exists>k < length H. as_live (H ! k) \<and> P = as_pml4_phys (H ! k)) \<longrightarrow>
       mmu ((xm_mem s')(ac_phys ac := b)) P v = mmu (xm_mem s') P v)"
proof -
  obtain B sp where inv: "pt_inv B sp s'" and so: "spaces_ok H sp" using reachable_space [OF assms(1-4)] by blast
  obtain R M where ok: "pt_ok sp R M s'" using inv by (rule pt_invE)
  have sp: "sp (as_pml4_phys (H ! k)) = Some (as_owner_id (H ! k))" if "k < length H" "as_live (H ! k)" for k using so that by (simp add: spaces_ok_def)
  obtain t e where e: "toks s' t = Some e" "te_owner e = as_owner_id (H ! i)" "unat (ac_phys ac) div 4096 \<in> te_span e"
    using mmu_allowed(2) [OF ok sp [OF i(1,2)] i(3,4)] by (auto simp: allowed_def)
  obtain t' e' where e': "toks s' t' = Some e'" "te_owner e' = as_owner_id (H ! j)" "unat (ac_phys ac') div 4096 \<in> te_span e'"
    using mmu_allowed(2) [OF ok sp [OF j(1,2)] j(3,4)] by (auto simp: allowed_def)
  have "t = t'" using span_disjoint [OF ok e(1) e'(1)] e(3) e'(3) f by auto
  then have "as_owner_id (H ! i) = as_owner_id (H ! j)" using e e' by simp
  moreover have "unat (ac_phys ac) div 4096 \<notin> ffree (xm_phys s')" using token_span_used [OF ok e(1)] e(3) by blast
  moreover have "mmu ((xm_mem s')(ac_phys ac := b)) P v = mmu (xm_mem s') P v"
    if P: "P = pt_pml4_phys s' \<or> (\<exists>k < length H. as_live (H ! k) \<and> P = as_pml4_phys (H ! k))" for P v b
    by (rule mmu_store [OF ok _ e(1,3)]) (use P sp in fastforce)
  ultimately show ?thesis by blast
qed

theorem kernel_isolates_witness:
  "\<exists>s0 a s ac. kernel_main nx_cpu flat_layout quiet_hw big_box power_on = Inr s0 \<and> kstep\<^sup>*\<^sup>* ([no_space], s0) ([a], s) \<and>
     mmu (xm_mem s) (as_pml4_phys a) XAS_USER_BASE = Some ac \<and> unat (ac_phys ac) div 4096 \<notin> ffree (xm_phys s) \<and>
     mmu ((xm_mem s)(ac_phys ac := 1)) (as_pml4_phys a) XAS_USER_BASE = Some ac"
proof (rule sample_mapped, goal_cases)
  case (1 s0 a s1 tok s2 e s3)
  let ?ac = "granted (te_phys e) sample_perms"
  have u: "user_va XAS_USER_BASE" by (simp add: user_va_def)
  have nl: "\<forall>a \<in> set [no_space]. \<not> as_live a" by (simp add: no_space_def)
  have g: "ac_user ?ac" by (simp add: granted_def)
  have k: "0 < length [a]" "as_live ([a] ! 0)" "mmu (xm_mem s3) (as_pml4_phys ([a] ! 0)) XAS_USER_BASE = Some ?ac" using 1(6,13) by simp_all
  have r: "unat (ac_phys ?ac) div 4096 \<notin> ffree (xm_phys s3) \<and>
      (\<forall>P v b. P = pt_pml4_phys s3 \<or> (\<exists>k < length [a]. as_live ([a] ! k) \<and> P = as_pml4_phys ([a] ! k)) \<longrightarrow> mmu ((xm_mem s3)(ac_phys ?ac := b)) P v = mmu (xm_mem s3) P v)"
    using kernel_isolates [OF cold_power_on 1(1) nl 1(5) k g k g refl] by blast
  have "mmu ((xm_mem s3)(ac_phys ?ac := 1)) (as_pml4_phys a) XAS_USER_BASE = Some ?ac"
    using r [THEN conjunct2, rule_format, of "as_pml4_phys a" 1 XAS_USER_BASE] 1(6,13) by simp
  then show ?case using 1(1,5,13) r by blast
qed

section \<open>Teardown\<close>

text \<open>C4. (termination) Teardown is complete. In every reachable state \<open>xproc_reap\<close> on a live address space
  returns, with the number of tokens its owner held. Afterwards the structure is dead, the owner holds no
  token, every frame it held is free, no mapping of the space is left, and the mappings and the memory of
  all other owners are as before.\<close>

theorem xproc_reap_complete:
  assumes "cold s" "kernel_main cpuid ly hw hand s = Inr s0" "\<forall>a \<in> set H0. \<not> as_live a" "kstep\<^sup>*\<^sup>* (H0, s0) (H, s')"
    and "i < length H" "as_live (H ! i)" and o: "owner = as_owner_id (H ! i)"
  shows "\<exists>s''. xproc_reap (Some (H ! i)) s' = Some (of_nat (card (owner_tokens s' owner)), Some ((H ! i)\<lparr>as_live := False\<rparr>), s'') \<and>
    owner_tokens s'' owner = {} \<and> owner_frames s' owner \<subseteq> ffree (xm_phys s'') \<and>
    (\<forall>k < 1024. mr_live (pt_maps s'' ! k) \<longrightarrow> mr_as_pml4 (pt_maps s'' ! k) \<noteq> as_pml4_phys (H ! i)) \<and> spared owner s' s''"
proof -
  obtain B sp where inv: "pt_inv B sp s'" and so: "spaces_ok H sp" using reachable_space [OF assms(1-4)] by blast
  have sp: "sp (as_pml4_phys (H ! i)) = Some (as_owner_id (H ! i))" using so assms(5,6) by (simp add: spaces_ok_def)
  obtain s'' where r: "xproc_reap (Some (H ! i)) s' = Some (of_nat (card (owner_tokens s' owner)), Some ((H ! i)\<lparr>as_live := False\<rparr>), s'')"
    "reaped owner (owner_tokens s' owner) s' s''" "\<forall>k < 1024. mr_live (pt_maps s'' ! k) \<longrightarrow> mr_as_pml4 (pt_maps s'' ! k) \<noteq> as_pml4_phys (H ! i)"
    using xproc_reap_spec [OF inv assms(6) sp] unfolding o by blast
  have "owner_tokens s'' owner = {}" using reaped_tokens [OF r(2)] by simp
  moreover have "owner_frames s' owner \<subseteq> ffree (xm_phys s'')"
  proof
    fix x assume "x \<in> owner_frames s' owner"
    then obtain t e where e: "toks s' t = Some e" "te_owner e = owner" "x \<in> te_span e" by (auto simp: owner_frames_def)
    then have "t \<in> owner_tokens s' owner" "x \<in> te_span (the (toks s' t))" by (auto simp: owner_tokens_def)
    then have "x \<in> (\<Union>t \<in> owner_tokens s' owner. te_span (the (toks s' t)))" by (rule UN_I)
    then show "x \<in> ffree (xm_phys s'')" using r(2) unfolding reaped_def by blast
  qed
  ultimately show ?thesis using r(1,3) r(2) [unfolded reaped_def] by blast
qed

theorem xproc_reap_complete_witness:
  "\<exists>s0 a s n b s'. kernel_main nx_cpu flat_layout quiet_hw big_box power_on = Inr s0 \<and> kstep\<^sup>*\<^sup>* ([no_space], s0) ([a], s) \<and>
     xproc_reap (Some a) s = Some (n, b, s') \<and> owner_tokens s' 7 = {}"
proof (rule sample_mapped, goal_cases)
  case (1 s0 a s1 tok s2 e s3)
  have nl: "\<forall>a \<in> set [no_space]. \<not> as_live a" by (simp add: no_space_def)
  have k: "0 < length [a]" "as_live ([a] ! 0)" "7 = as_owner_id ([a] ! 0)" using 1(6,7) by simp_all
  obtain s' where "xproc_reap (Some ([a] ! 0)) s3 = Some (of_nat (card (owner_tokens s3 7)), Some (([a] ! 0)\<lparr>as_live := False\<rparr>), s')" "owner_tokens s' 7 = {}"
    using xproc_reap_complete [OF cold_power_on 1(1) nl 1(5) k] by blast
  then show ?case using 1(1,5) unfolding nth_Cons_0 by blast
qed

section \<open>Running programs\<close>

text \<open>C2. (safety) A program cannot harm the kernel as long as the addresses it is to be resumed at are canonical. In every reachable
  state let a program start at a canonical address and do any sequence of stores and of traps taken in ring 3 with any registers, each at
  a canonical instruction pointer. If the sequence has an exception, a tick of the timer or the system call to exit or to yield, then
  \<open>xproc_run_ctx\<close> returns, with one of its four reasons. Whenever it returns the kernel has its eight integer callee-saved registers and its
  stack pointer back, no word of its stack is changed but the thirteen that entering the program pushed below the stack pointer,
  it runs on its own page tables and has forgotten the program, and the state is again a reachable one.
  The registers \<open>xmm6\<close> to \<open>xmm15\<close>, which the code does not save, are outside the claim.\<close>

theorem program_contained:
  assumes "cold s" "kernel_main cpuid ly hw hand s = Inr s0" "\<forall>a \<in> set H0. \<not> as_live a" "kstep\<^sup>*\<^sup>* (H0, s0) (H, s')"
    and i: "i < length H" "as_live (H ! i)" and ev: "canonical (c_rip ctx)" "\<forall>ev \<in> set evs. resumable ev"
  shows "case xproc_run_ctx (Some (H ! i)) (Some ctx) (Some res) pending evs s' of
      None \<Rightarrow> \<forall>ev \<in> set evs. \<not> leaves ev
    | Some (r, ctx', res', s'') \<Rightarrow> (\<exists>st \<in> {XPROC_EXIT, XPROC_FAULT, XPROC_PREEMPT, XPROC_YIELD}. r = Inl (uint st)) \<and>
        restored s' s'' \<and> kstep\<^sup>*\<^sup>* (H0, s0) (H, s'')"
proof -
  obtain B where "kinv B (H0, s0)" using boot_kinv [OF assms(1-3)] by blast
  from ksteps_inv [OF assms(4) this] obtain sp where inv: "pt_inv B sp s'" "spaces_ok H sp" "pr_hooks s'" by (auto simp: kinv_def)
  have sp: "sp (as_pml4_phys (H ! i)) = Some (as_owner_id (H ! i))" using inv(2) i by (simp add: spaces_ok_def)
  note rs = run_ctx_spec [OF inv(1) i(2) sp inv(3), where ctx = ctx and res = res and pending = pending and evs = evs]
  show ?thesis
  proof (cases "xproc_run_ctx (Some (H ! i)) (Some ctx) (Some res) pending evs s'")
    case None
    then show ?thesis using rs by simp
  next
    case (Some x)
    obtain r ctx' res' s'' where x: "x = (r, ctx', res', s'')" by (cases x) auto
    then obtain w where r: "r = Inl w" using rs Some ev by (cases r) auto
    have "kstep (H, s') (H, s'')" by (rule ks_run [OF i]) (use Some x r in simp)
    then have "kstep\<^sup>*\<^sup>* (H0, s0) (H, s'')" by (rule rtranclp.rtrancl_into_rtrancl [where r = kstep, OF assms(4)])
    then show ?thesis using rs by (simp add: Some x r)
  qed
qed

definition exit_frame :: ExcFrame where
  "exit_frame = \<lparr>f_r15 = 0, f_r14 = 0, f_r13 = 0, f_r12 = 0, f_r11 = 0, f_r10 = 0, f_r9 = 0, f_r8 = 0, f_rbp = 0, f_rdi = 42, f_rsi = 0, f_rdx = 0,
     f_rcx = 0, f_rbx = 0, f_rax = XSYS_EXIT, f_vector = 0x80, f_error = 0, f_rip = XAS_USER_BASE, f_cs = 0x23, f_rflags = 2, f_rsp = 0, f_ss = 0x1B\<rparr>"

theorem program_contained_witness:
  "\<exists>s0 a s r c r' s'. kernel_main nx_cpu flat_layout quiet_hw big_box power_on = Inr s0 \<and> kstep\<^sup>*\<^sup>* ([no_space], s0) ([a], s) \<and>
     xproc_run_ctx (Some a) (Some (xctx_init XAS_USER_BASE 0)) (Some clear_result) False [Store XAS_USER_BASE 7, Trap exit_frame 0] s = Some (Inl r, c, r', s') \<and>
     pr_kregs s' = pr_kregs s \<and> pr_rsp s' = pr_rsp s \<and> xpt_read_cr3 s' = pt_pml4_phys s"
proof (rule sample_mapped, goal_cases)
  case (1 s0 a s1 tok s2 e s3)
  let ?evs = "[Store XAS_USER_BASE 7, Trap exit_frame 0]" and ?ctx = "xctx_init XAS_USER_BASE 0"
  have nl: "\<forall>a \<in> set [no_space]. \<not> as_live a" by (simp add: no_space_def)
  have k: "0 < length [a]" "as_live ([a] ! 0)" using 1(6) by simp_all
  have ca: "canonical XAS_USER_BASE" by (simp add: canonical_def)
  have ev: "canonical (c_rip ?ctx)" "\<forall>ev \<in> set ?evs. resumable ev" using ca by (simp_all add: xctx_init_def exit_frame_def)
  have l: "leaves (Trap exit_frame 0)" by (simp add: exit_frame_def)
  note pc = program_contained [OF cold_power_on 1(1) nl 1(5) k ev, of clear_result False]
  obtain r c r' s' where run: "xproc_run_ctx (Some a) (Some ?ctx) (Some clear_result) False ?evs s3 = Some (r, c, r', s')"
    using pc l by (cases "xproc_run_ctx (Some a) (Some ?ctx) (Some clear_result) False ?evs s3") auto
  then obtain w where w: "r = Inl w" "restored s3 s'" using pc by auto
  have "pr_kregs s' = pr_kregs s3" "pr_rsp s' = pr_rsp s3" "xpt_read_cr3 s' = pt_pml4_phys s3" using w(2) by (simp_all add: restored_def)
  then show ?case using 1(1,5) run unfolding w(1) by blast
qed

end
