(* ===== verification/Load_Live.thy ===== *)
theory Load_Live
  imports Kernel_Props
begin

text \<open>
  Loading succeeds when there is room. A state has room if few tokens and mapping records are in use and most frames are
  free; each region the loader allocates and maps leaves the state with slightly less room.
\<close>

section \<open>Runs of frames\<close>

lemma run_exists:
  fixes F :: "nat set"
  assumes "F \<subseteq> {..<4 * N}" "3 * N < card F"
  shows "\<exists>f. frun f 4 \<subseteq> F"
proof (rule ccontr)
  assume n: "\<nexists>f. frun f 4 \<subseteq> F"
  have c: "card (F \<inter> frun (4 * i) 4) \<le> 3" for i
  proof -
    have "F \<inter> frun (4 * i) 4 \<subset> frun (4 * i) 4" using n by blast
    then have "card (F \<inter> frun (4 * i) 4) < card (frun (4 * i) 4)" by (intro psubset_card_mono) simp_all
    then show ?thesis by simp
  qed
  have "F \<subseteq> (\<Union>i \<in> {..<N}. F \<inter> frun (4 * i) 4)"
  proof
    fix x assume x: "x \<in> F"
    then have "x \<in> frun (4 * (x div 4)) 4" "x div 4 < N" using assms(1) by auto
    then show "x \<in> (\<Union>i \<in> {..<N}. F \<inter> frun (4 * i) 4)" using x by blast
  qed
  then have "card F \<le> card (\<Union>i \<in> {..<N}. F \<inter> frun (4 * i) 4)" by (intro card_mono) auto
  also have "\<dots> \<le> (\<Sum>i \<in> {..<N}. card (F \<inter> frun (4 * i) 4))" by (rule card_UN_le) simp
  also have "\<dots> \<le> (\<Sum>i \<in> {..<N}. 3)" by (rule sum_mono) (rule c)
  finally show False using assms(2) by simp
qed

section \<open>Room\<close>

definition room :: "nat set \<Rightarrow> XAspace \<Rightarrow> nat \<Rightarrow> nat \<Rightarrow> 'a Paging_scheme \<Rightarrow> bool" where
  "room B a k c s \<longleftrightarrow> pt_inv B [as_pml4_phys a \<mapsto> as_owner_id a] s \<and> as_live a \<and> B \<subseteq> {..<4194304} \<and>
     card (dom (toks s)) \<le> k \<and> card {j. j < 1024 \<and> mr_live (pt_maps s ! j)} \<le> k \<and> c \<le> card (ffree (xm_phys s))"

lemma roomD:
  assumes "room B a k c s"
  shows "pt_inv B [as_pml4_phys a \<mapsto> as_owner_id a] s" "as_live a" "B \<subseteq> {..<4194304}" "card (dom (toks s)) \<le> k"
    "card {j. j < 1024 \<and> mr_live (pt_maps s ! j)} \<le> k" "c \<le> card (ffree (xm_phys s))" "ledger_inv s"
proof -
  show "ledger_inv s" using assms by (auto simp: room_def pt_inv_def pt_ok_def)
qed (use assms in \<open>simp_all add: room_def\<close>)

lemma finite_toks: "finite (dom (toks s))"
  by (rule finite)

lemma table_not_full:
  assumes li: "ledger_inv s" and c: "card (dom (toks s)) < 4096"
  shows "\<exists>i < 4096. \<not> te_live (lg_table s ! i)"
proof (rule ccontr)
  assume "\<not> (\<exists>i < 4096. \<not> te_live (lg_table s ! i))"
  then have t: "toks s (slot_tok s i) = Some (lg_table s ! i)" "lookup_live (slot_tok s i) s = Some i" if "i < 4096" for i
    using toks_slot [OF li that] lookup_liveI [OF that] that ledger_invD(3) [OF li that] by (auto simp: slot_tok_def entry_ok_def)
  have "{..<4096} \<subseteq> (\<lambda>t. the (lookup_live t s)) ` dom (toks s)"
  proof
    fix i :: nat assume "i \<in> {..<4096}"
    then have i: "i < 4096" by simp
    show "i \<in> (\<lambda>t. the (lookup_live t s)) ` dom (toks s)" by (rule image_eqI [of _ _ "slot_tok s i"]) (use t [OF i] in auto)
  qed
  then have "card {..<4096 :: nat} \<le> card (dom (toks s))" by (rule surj_card_le [OF finite_toks])
  then show False using c by simp
qed

lemma room_alloc:
  assumes r: "room B a k c s" and k: "k < 64" and n: "0 < unat n" "unat n \<le> 4" and c: "3145728 < c"
    and al: "xtok_alloc_ram (as_owner_id a) n rights s = (tok, s1)"
  shows "tok \<noteq> 0 \<and> toks s tok = None \<and> (\<exists>e. ram_entry (as_owner_id a) rights (te_phys e) n e \<and> toks s1 = (toks s)(tok \<mapsto> e)) \<and>
    pt_maps s1 = pt_maps s \<and> room B a (k + 1) (c - 4) s1"
proof -
  note d = roomD [OF r]
  note ai = alloc_inv [OF d(1) al]
  have "ffree (xm_phys s) \<subseteq> {..<4 * 1048576}" using d(1,3) by (auto simp: pt_inv_def)
  then obtain f where f: "frun f 4 \<subseteq> ffree (xm_phys s)" using run_exists [of "ffree (xm_phys s)" 1048576] d(6) c by auto
  have "frun f (unat n) \<subseteq> ffree (xm_phys s)" by (rule subset_trans [OF _ f]) (use n(2) in auto)
  moreover have "n \<noteq> 0" using n(1) by auto
  ultimately have tok: "tok \<noteq> 0" using xtok_alloc_ram_spec [OF d(7) al] table_not_full [OF d(7)] d(4) k by fastforce
  then obtain e where e: "toks s tok = None" "ram_entry (as_owner_id a) rights (te_phys e) n e" "toks s1 = (toks s)(tok \<mapsto> e)"
    "ffree (xm_phys s1) = ffree (xm_phys s) - te_span e" using ai(1) by (auto simp: alloc_done_def)
  have mp: "pt_maps s1 = pt_maps s" using ai(1) ledger_more_fields(3) [of s1 s] by (simp add: alloc_done_def)
  have "card (te_span e) \<le> 4" using e(2) n(2) by (simp add: te_span_def ram_entry_def)
  then have "c - 4 \<le> card (ffree (xm_phys s1))"
    using diff_card_le_card_Diff [of "te_span e" "ffree (xm_phys s)"] d(6) by (simp add: e(4) te_span_def)
  moreover have "card (dom (toks s1)) \<le> k + 1" using d(4) card_insert_le_m1 by (simp add: e(3) card_insert_if finite_toks)
  ultimately have "room B a (k + 1) (c - 4) s1" using ai(2) d(2,3,5) by (simp add: room_def mp)
  then show ?thesis using tok e(1-3) mp by blast
qed

lemma xas_map_walk_live:
  assumes inv: "pt_inv B sp s" and a: "as_live a" "sp (as_pml4_phys a) = Some (as_owner_id a)" and lp: "legal_perms perms"
    and va: "unat virt mod 4096 = 0" "unat XAS_USER_BASE \<le> unat virt" "unat virt + unat (te_frames e) * 4096 \<le> unat XAS_USER_TOP"
    and tok: "toks s tok = Some e" "te_owner e = as_owner_id a" "te_rights e AND need_rights perms = need_rights perms" "te_map_count e \<noteq> 0xFFFF"
    and rcd: "owner_maps (as_owner_id a) s < XAS_MAX_MAPS_PER_OWNER" "k < 1024" "\<not> mr_live (pt_maps s ! k)"
    and free: "\<forall>j < unat (te_frames e). mmu (xm_mem s) (as_pml4_phys a) (virt + of_nat (j * 4096)) = None"
    and room: "3 * unat (te_frames e) < card (ffree (xm_phys s))"
  shows "fst (xas_map (Some a) virt tok perms s) = XAS_OK"
proof -
  obtain R M where ok: "pt_ok sp R M s" using inv by (rule pt_invE)
  have n: "0 < unat (te_frames e)" using token_aligned(4) [OF ok tok(1)] by (simp add: unat_gt_0)
  have ur: "user_range virt (unat (te_frames e))" using va n by (simp add: user_range_def user_va_def word_less_nat_alt word_le_nat_alt)
  have "M (as_pml4_phys a, path4 (page virt j)) = None" if j: "j < unat (te_frames e)" for j
  proof -
    have off: "j * 4096 < unat (te_frames e) * 4096" using j by simp
    note rb = range_byte [OF ur off]
    have "M (as_pml4_phys a, path4 (virt + of_nat (j * 4096))) = None"
      using free j mmu_space [OF ok _ rb(1), of "as_pml4_phys a"] a(2) by simp
    then show ?thesis unfolding rb(3) by simp
  qed
  then show ?thesis by (rule xas_map_live [OF ok a lp va(1,2) n va(3) tok rcd _ room])
qed

lemma room_map:
  assumes r: "room B a k c s" and k: "k < 64" and c: "12 < c" and lp: "legal_perms perms"
    and va: "unat virt mod 4096 = 0" "unat XAS_USER_BASE \<le> unat virt" "unat virt + unat (te_frames e) * 4096 \<le> unat XAS_USER_TOP"
    and tok: "toks s tok = Some e" "te_owner e = as_owner_id a" "te_rights e AND need_rights perms = need_rights perms" "te_map_count e = 0"
    and n: "unat (te_frames e) \<le> 4"
    and free: "\<forall>j < unat (te_frames e). mmu (xm_mem s) (as_pml4_phys a) (virt + of_nat (j * 4096)) = None"
  shows "\<exists>s'. xas_map (Some a) virt tok perms s = (XAS_OK, s') \<and> room B a (k + 1) (c - 12) s' \<and>
    (\<forall>va. user_va va \<longrightarrow> \<not> covers virt (unat (te_frames e)) va \<longrightarrow> mmu (xm_mem s') (as_pml4_phys a) va = mmu (xm_mem s) (as_pml4_phys a) va)"
proof -
  note d = roomD [OF r]
  let ?L = "{j. j < 1024 \<and> mr_live (pt_maps s ! j)}" and ?sp = "[as_pml4_phys a \<mapsto> as_owner_id a]"
  have sp: "?sp (as_pml4_phys a) = Some (as_owner_id a)" by simp
  have "owner_maps (as_owner_id a) s = card {j. j < 1024 \<and> mr_live (pt_maps s ! j) \<and> mr_owner (pt_maps s ! j) = as_owner_id a}"
    unfolding owner_maps_def by (subst distinct_card [symmetric]) (simp_all del: upt_rec_numeral)
  also have "\<dots> \<le> card ?L" by (rule card_mono) auto
  finally have om: "owner_maps (as_owner_id a) s < XAS_MAX_MAPS_PER_OWNER" using d(5) k by simp
  have "\<exists>j < 1024. \<not> mr_live (pt_maps s ! j)"
  proof (rule ccontr)
    assume "\<not> (\<exists>j < 1024. \<not> mr_live (pt_maps s ! j))"
    then have "?L = {..<1024}" by auto
    then show False using d(5) k by simp
  qed
  then obtain j where j: "j < 1024" "\<not> mr_live (pt_maps s ! j)" by blast
  have "fst (xas_map (Some a) virt tok perms s) = XAS_OK"
    by (rule xas_map_walk_live [OF d(1,2) sp lp va tok(1-3) _ om j free]) (use tok(4) n c d(6) in auto)
  then obtain s' where mp: "xas_map (Some a) virt tok perms s = (XAS_OK, s')" by (metis prod.collapse)
  have inv': "pt_inv B ?sp s'" by (rule pt_inv_map [OF d(1) _ mp]) simp
  obtain R M where ok: "pt_ok ?sp R M s" using d(1) by (rule pt_invE)
  obtain R' l where md: "fresh_tables R R' \<le> 3 * unat (te_frames e)" "ffree (xm_phys s') = ffree (xm_phys s) - (dom R' - dom R)"
    "toks s' = (toks s)(tok \<mapsto> e\<lparr>te_map_count := te_map_count e + 1\<rparr>)" "l < 1024" "finite (dom R')"
    "pt_maps s' = (pt_maps s)[l := \<lparr>mr_as_pml4 = as_pml4_phys a, mr_owner = as_owner_id a, mr_virt = virt, mr_tok = tok,
       mr_pages = te_frames e, mr_live = True\<rparr>]"
    using xas_map_spec(2) [OF ok _ mp] tok(1) finite_roles by (auto simp: map_done_def dest!: pt_okD(2) simp: trees_def)
  have "c - 12 \<le> card (ffree (xm_phys s'))"
    using diff_card_le_card_Diff [of "dom R' - dom R" "ffree (xm_phys s)"] md(1,5) n d(6) by (simp add: md(2) fresh_tables_def)
  moreover have "card {j. j < 1024 \<and> mr_live (pt_maps s' ! j)} \<le> k + 1"
  proof -
    have "{j. j < 1024 \<and> mr_live (pt_maps s' ! j)} \<subseteq> insert l ?L" by (auto simp: md(6) nth_list_update)
    then have "card {j. j < 1024 \<and> mr_live (pt_maps s' ! j)} \<le> card (insert l ?L)" by (rule card_mono [rotated]) simp
    also have "\<dots> \<le> k + 1" using d(5) by (simp add: card_insert_if)
    finally show ?thesis .
  qed
  moreover have "dom (toks s') = dom (toks s)" using md(3) tok(1) by auto
  ultimately have rm: "room B a (k + 1) (c - 12) s'" using inv' d(2-4) by (simp add: room_def)
  obtain e' where e': "toks s tok = Some e'" "\<forall>Q va. ?sp Q \<noteq> None \<longrightarrow> user_va va \<longrightarrow> \<not> (Q = as_pml4_phys a \<and> covers virt (unat (te_frames e')) va) \<longrightarrow>
       mmu (xm_mem s') Q va = mmu (xm_mem s) Q va" using xas_map_view [OF d(1,2) sp mp] by blast
  then have "\<forall>va. user_va va \<longrightarrow> \<not> covers virt (unat (te_frames e)) va \<longrightarrow> mmu (xm_mem s') (as_pml4_phys a) va = mmu (xm_mem s) (as_pml4_phys a) va"
    using tok(1) sp by simp
  then show ?thesis using mp rm by blast
qed

section \<open>A region\<close>

lemma copy_in_amd64: "\<exists>m. copy_in amd64 img g dst s = s\<lparr>xm_mem := m\<rparr>"
proof -
  have "\<exists>m. fold (\<lambda>k s. xb_store amd64 (dst + of_nat k) (img ! (unat (es_file_off g) + k)) s) ks s = s\<lparr>xm_mem := m\<rparr>" for ks
  proof (induction ks arbitrary: s)
    case Nil
    show ?case by (rule exI [of _ "xm_mem s"]) simp
  next
    case (Cons k ks)
    show ?case using Cons.IH [of "s\<lparr>xm_mem := (xm_mem s)(dst + of_nat k := img ! (unat (es_file_off g) + k))\<rparr>"]
      by (auto simp: amd64_def xlb_store_def)
  qed
  then show ?thesis by (simp add: copy_in_def)
qed

text \<open>A fill that only stores into the token it is given, as both fills of the loader do.\<close>

definition mild :: "nat set \<Rightarrow> XAspace \<Rightarrow> (u64 \<Rightarrow> 'a Sys_scheme \<Rightarrow> 'a Sys_scheme) \<Rightarrow> u64 \<Rightarrow> bool" where
  "mild B a fill n \<longleftrightarrow> (\<forall>s tok e. space_inv B [as_pml4_phys a \<mapsto> as_owner_id a] a (outer s) s \<longrightarrow> bare s tok = Some e \<longrightarrow> token_bytes e = unat n * 4096 \<longrightarrow>
     (\<forall>j < token_bytes e. token_byte s tok j = 0) \<longrightarrow>
     (\<exists>m. fill tok s = s\<lparr>xm_mem := m\<rparr>) \<and> space_inv B [as_pml4_phys a \<mapsto> as_owner_id a] a (outer s) (fill tok s) \<and> mappings (fill tok s) = mappings s)"

lemma region_live:
  assumes r: "room B a k c s" and k: "k < 60" and n: "0 < unat n" "unat n \<le> 4" and c: "3145760 < c" and lp: "legal_perms perms"
    and va: "unat virt mod 4096 = 0" "unat XAS_USER_BASE \<le> unat virt" "unat virt + unat n * 4096 \<le> unat XAS_USER_TOP"
    and rt: "rights AND need_rights perms = need_rights perms" and fl: "mild B a fill n" and t: "tx_as t = a"
    and free: "\<forall>j < unat n. mmu (xm_mem s) (as_pml4_phys a) (virt + of_nat (j * 4096)) = None"
  shows "\<exists>t' s'. load_region amd64 (as_owner_id a) n rights fill virt perms t s = (0, t', s') \<and> tx_as t' = a \<and> room B a (k + 2) (c - 16) s' \<and>
    (\<forall>va. user_va va \<longrightarrow> \<not> covers virt (unat n) va \<longrightarrow> mmu (xm_mem s') (as_pml4_phys a) va = mmu (xm_mem s) (as_pml4_phys a) va)"
proof -
  let ?sp = "[as_pml4_phys a \<mapsto> as_owner_id a]" and ?P = "as_pml4_phys a"
  obtain tok s1 where al: "xtok_alloc_ram (as_owner_id a) n rights s = (tok, s1)" by fastforce
  obtain e where e: "tok \<noteq> 0" "ram_entry (as_owner_id a) rights (te_phys e) n e" "toks s1 = (toks s)(tok \<mapsto> e)"
    "pt_maps s1 = pt_maps s" "room B a (k + 1) (c - 4) s1" using room_alloc [OF r _ n _ al] k c by auto
  have re: "te_owner e = as_owner_id a" "te_rights e = rights" "te_frames e = n" "te_map_count e = 0" using e(2) by (simp_all add: ram_entry_def)
  note d = roomD [OF r] and d1 = roomD [OF e(5)]
  have si: "space_inv B ?sp a (outer s) s" "space_inv B ?sp a (outer s1) s1" using d(1,2) d1(1) by (simp_all add: space_inv_def)
  have xa: "xb_alloc amd64 (as_owner_id a) n rights s = (0, tok, s1)" using e(1) by (simp add: amd64_def xlb_alloc_def al)
  have mp1: "mappings s1 = mappings s" and z: "\<forall>j < unat n * 4096. token_byte s1 tok j = 0" using amd.alloc_ok [OF si(1) xa] by blast+
  have be: "bare s1 tok = Some (e\<lparr>te_map_count := 0\<rparr>)" by (simp add: bare_def e(3))
  have tb: "token_bytes (e\<lparr>te_map_count := 0\<rparr>) = unat n * 4096" by (simp add: token_bytes_def re(3))
  obtain m where m: "fill tok s1 = s1\<lparr>xm_mem := m\<rparr>" "space_inv B ?sp a (outer s1) (fill tok s1)" "mappings (fill tok s1) = mappings s1"
    using fl [unfolded mild_def, rule_format, OF si(2) be tb] z tb by auto
  define s2 where "s2 = fill tok s1"
  have i2: "pt_inv B ?sp s2" using m(2) by (simp add: space_inv_def s2_def)
  have t2: "toks s2 = toks s1" by (rule toks_cong) (simp add: s2_def m(1))
  have f2: "pt_maps s2 = pt_maps s1" "xm_phys s2 = xm_phys s1" by (simp_all add: s2_def m(1))
  have r2: "room B a (k + 1) (c - 4) s2" using e(5) i2 by (simp add: room_def t2 f2)
  have walk: "mmu (xm_mem s2) ?P va = mmu (xm_mem s) ?P va" if "user_va va" for va
    by (rule walks_same [OF d(1) i2 _ _ that]) (simp_all add: m(3) mp1 s2_def)
  have n0: "unat XAS_USER_BASE = 549755813888" "unat XAS_USER_TOP = 140737488355328" by simp_all
  have uva: "user_va (virt + of_nat (j * 4096))" if "j < unat n" for j
  proof -
    have ur: "user_range virt (unat n)" using va n(1) unfolding n0 by (simp add: user_range_def user_va_def word_less_nat_alt word_le_nat_alt)
    show ?thesis by (rule range_byte(1) [OF ur]) (use that in simp)
  qed
  have "\<exists>s'. xas_map (Some a) virt tok perms s2 = (XAS_OK, s') \<and> room B a (k + 1 + 1) (c - 4 - 12) s' \<and>
      (\<forall>va. user_va va \<longrightarrow> \<not> covers virt (unat (te_frames e)) va \<longrightarrow> mmu (xm_mem s') ?P va = mmu (xm_mem s2) ?P va)"
    by (rule room_map [OF r2 _ _ lp va(1,2) _ _ re(1)]) (use k c va(3) rt n(2) free walk uva e(3) re t2 in simp_all)
  then obtain s' where s': "xas_map (Some a) virt tok perms s2 = (XAS_OK, s')" "room B a (k + 2) (c - 16) s'"
    "\<forall>va. user_va va \<longrightarrow> \<not> covers virt (unat n) va \<longrightarrow> mmu (xm_mem s') ?P va = mmu (xm_mem s) ?P va" using walk re(3) by auto
  have "load_region amd64 (as_owner_id a) n rights fill virt perms t s = (0, t\<lparr>tx_tok := tok # tx_tok t, tx_va := virt # tx_va t\<rparr>, s')"
    unfolding load_region_def xa using s'(1) t by (simp add: s2_def [symmetric] Let_def) (simp add: amd64_def xlb_map_def)
  then show ?thesis using s'(2,3) t by auto
qed

section \<open>A small program\<close>

lemma mild_copy:
  assumes "unat (es_file_size g) \<le> unat n * 4096"
  shows "mild B a (\<lambda>tok s. copy_in amd64 img g (xb_kernel_ptr amd64 tok s) s) n"
  unfolding mild_def
proof (intro allI impI conjI)
  fix s :: "'a Sys_scheme" and tok e
  assume a: "space_inv B [as_pml4_phys a \<mapsto> as_owner_id a] a (outer s) s" "bare s tok = Some e" "token_bytes e = unat n * 4096"
    "\<forall>j < token_bytes e. token_byte s tok j = 0"
  show "\<exists>m. copy_in amd64 img g (xb_kernel_ptr amd64 tok s) s = s\<lparr>xm_mem := m\<rparr>" by (rule copy_in_amd64)
  note f = amd.copy_in_fills [OF a(1,2,4), of g img]
  show "space_inv B [as_pml4_phys a \<mapsto> as_owner_id a] a (outer s) (copy_in amd64 img g (xb_kernel_ptr amd64 tok s) s)"
    "mappings (copy_in amd64 img g (xb_kernel_ptr amd64 tok s) s) = mappings s"
    using f assms a(3) by (simp_all add: amd.fills_def)
qed

lemma mild_id: "mild B a (\<lambda>tok s. s) n"
  unfolding mild_def
proof (intro allI impI conjI)
  fix s :: "'a Sys_scheme"
  show "\<exists>m. s = s\<lparr>xm_mem := m\<rparr>" by (rule exI [of _ "xm_mem s"]) simp
qed simp_all

lemma tiny_load:
  assumes r: "room B a 0 c s" and c: "3145800 < c" and o: "as_owner_id a \<noteq> 0" and len: "length (ei_seg info0) = EXB_MAX_SEGS"
    and q: "xlb_quota_ok (as_owner_id a) 5 2 s"
    and free: "\<forall>va. user_va va \<longrightarrow> mmu (xm_mem s) (as_pml4_phys a) va = None"
  shows "\<exists>out' s'. xload_exb amd64 info0 (Some a) (as_owner_id a) (Some tiny_exb) 97 (Some out) s = (XLOAD_OK, out', s')"
proof -
  let ?g = "tiny_seg" and ?P = "as_pml4_phys a" and ?t = "\<lparr>tx_as = a, tx_tok = [], tx_va = []\<rparr>"
  let ?sb = "stack_top - ucast (16384 :: u32)"
  have sb: "?sb = 0x00007FFFFFFFB000" by (simp add: stack_top_def)
  obtain t1 s1 where s1: "load_region amd64 (as_owner_id a) (es_pages ?g) (seg_rights (es_flags ?g)) (\<lambda>tok s. copy_in amd64 tiny_exb ?g (xb_kernel_ptr amd64 tok s) s)
      (es_vaddr ?g) (seg_perms (es_flags ?g)) ?t s = (0, t1, s1)" "tx_as t1 = a" "room B a (0 + 2) (c - 16) s1"
    "\<forall>va. user_va va \<longrightarrow> \<not> covers (es_vaddr ?g) (unat (es_pages ?g)) va \<longrightarrow> mmu (xm_mem s1) ?P va = mmu (xm_mem s) ?P va"
    using region_live [OF r, of "es_pages ?g" "seg_perms (es_flags ?g)" "es_vaddr ?g" "seg_rights (es_flags ?g)" "\<lambda>tok s. copy_in amd64 tiny_exb ?g (xb_kernel_ptr amd64 tok s) s" ?t]
      c free
    by (auto simp: mild_copy tiny_seg_def seg_perms_def seg_rights_def need_rights_def legal_perms_def user_va_def)
  have nc: "mmu (xm_mem s1) ?P (?sb + of_nat (j * 4096)) = None" if "j < 4" for j :: nat
  proof -
    have oj: "unat (of_nat (j * 4096) :: u64) = j * 4096" by (rule unat_of_nat_u64) (use that in simp)
    have u: "unat (?sb + of_nat (j * 4096)) = unat ?sb + j * 4096" unfolding sb
      by (subst unat_add_less) (use that oj in simp_all)
    have "user_va (?sb + of_nat (j * 4096))" using u that by (simp add: stack_top_def user_va_def word_less_nat_alt word_le_nat_alt)
    moreover have "\<not> covers (es_vaddr ?g) (unat (es_pages ?g)) (?sb + of_nat (j * 4096))" unfolding covers_def u by (simp add: stack_top_def tiny_seg_def)
    ultimately show ?thesis using s1(4) free by simp
  qed
  have c1: "3145760 < c - 16" using c by simp
  obtain t2 s2 where s2: "load_region amd64 (as_owner_id a) 4 (XTOK_RIGHT_READ OR XTOK_RIGHT_WRITE OR XTOK_RIGHT_MAP OR XTOK_RIGHT_RELEASE)
      (\<lambda>tok s. s) ?sb (XLB_PERM_R OR XLB_PERM_W) t1 s1 = (0, t2, s2)"
    using region_live [OF s1(3), of 4 "XLB_PERM_R OR XLB_PERM_W" ?sb "XTOK_RIGHT_READ OR XTOK_RIGHT_WRITE OR XTOK_RIGHT_MAP OR XTOK_RIGHT_RELEASE" "\<lambda>tok s. s" t1]
      c1 nc s1(2)
    by (auto simp: mild_id need_rights_def legal_perms_def stack_top_def)
  define info where "info = info0\<lparr>ei_entry := EXB_VA_MIN, ei_seg_count := 1, ei_seg := (ei_seg info0)[0 := tiny_seg], ei_image_pages := 1, ei_stack_bytes := 16384\<rparr>"
  have p: "exb_parse (Some tiny_exb) 97 info0 = (EXB_OK, info)" unfolding info_def by (rule tiny_parse [OF len])
  have i: "ei_seg_count info = 1" "ei_image_pages info = 1" "ei_stack_bytes info = 16384" "ei_seg info ! 0 = ?g"
    using len by (simp_all add: info_def)
  have sg: "map (\<lambda>i. ei_seg info ! i) [0..<unat (ei_seg_count info)] = [?g]" by (simp add: i)
  have "load_segs amd64 (as_owner_id a) tiny_exb [?g] ?t s = (0, t1, s1)" by (simp add: s1(1))
  then show ?thesis using o q s2 unfolding xload_exb_def option.sel p sg by (simp add: i Let_def amd64_def)
qed

lemma more_quota: "Paging.more s' = Paging.more s \<Longrightarrow> quota_of owner s' = quota_of owner s"
  by (cases s; cases s') (simp add: quota_of_def)

lemma boot_quota:
  assumes "kernel_main nx_cpu flat_layout quiet_hw big_box power_on = Inr s0"
  shows "quota_of 7 s0 = (2048, 256)"
proof -
  obtain p s1 fb R M where k: "phys_ready p" "booted (h_phys_end big_box) (h_fb_base big_box) fb (xtok_init (power_on\<lparr>xm_phys := p\<rparr>)) R M s1"
    "s0 = snd (lapic_timer_init quiet_hw (xproc_init flat_layout s1))" using kernel_main_spec [OF cold_power_on assms] by blast
  have e: "s0 = xproc_init flat_layout s1" unfolding k(3) by (simp add: lapic_timer_init_def quiet_hw_def)
  have "Ledger.more (xtok_init (power_on\<lparr>xm_phys := p\<rparr>)) = Ledger.more power_on"
    using xtok_init_spec [of "power_on\<lparr>xm_phys := p\<rparr>"] k(1) cold_power_on by (simp add: cold_def)
  then have "Paging.more s1 = Paging.more power_on" using k(2) ledger_more_fields(6) by (simp add: booted_def)
  then have q: "quota_of 7 s1 = quota_of 7 power_on" by (rule more_quota)
  have "quota_of 7 s0 = quota_of 7 s1" unfolding e xproc_init_def gdt_init_def idt_init_def idt_install_user_gates_def idt_install_irq_gates_def Let_def quota_of_def
    by (simp del: upt_rec_numeral)
  then show ?thesis unfolding q by (simp add: quota_of_def power_on_def)
qed

lemma sample_room:
  obtains s0 a s1 where "kernel_main nx_cpu flat_layout quiet_hw big_box power_on = Inr s0"
    "xas_create (Some no_space) 7 s0 = (XAS_OK, Some a, s1)" "as_live a" "as_owner_id a = 7" "room {256..<4194304} a 0 3899999 s1"
    "quota_of 7 s1 = (2048, 256)" "xtok_owner_usage 7 s1 = (0, 0)" "\<forall>va. user_va va \<longrightarrow> mmu (xm_mem s1) (as_pml4_phys a) va = None"
proof -
  obtain s0 a s1 where s1: "kernel_main nx_cpu flat_layout quiet_hw big_box power_on = Inr s0"
    "xas_create (Some no_space) 7 s0 = (XAS_OK, Some a, s1)" "as_live a" "as_owner_id a = 7"
    "pt_inv {256..<4194304} [as_pml4_phys a \<mapsto> 7] s1" "toks s1 = Map.empty" "3899999 < card (ffree (xm_phys s1))"
    "\<forall>k < 1024. \<not> mr_live (pt_maps s1 ! k)" by (rule sample_space)
  obtain R M where ok: "pt_ok [as_pml4_phys a \<mapsto> 7] R M s1" using s1(5) by (rule pt_invE)
  have "{j. j < 1024 \<and> mr_live (pt_maps s1 ! j)} = {}" using s1(8) by blast
  then have r: "room {256..<4194304} a 0 3899999 s1" unfolding room_def using s1(3-7) by auto
  obtain p where "pt_inv (ffree p) Map.empty s0" using kernel_main_spec [OF cold_power_on s1(1)] by blast
  from more_quota [OF create_more [OF this s1(2)]] have q: "quota_of 7 s1 = (2048, 256)" using boot_quota [OF s1(1)] by simp
  have "unat (fst (xtok_owner_usage 7 s1)) = 0" "unat (snd (xtok_owner_usage 7 s1)) = 0"
    using xtok_owner_usage_spec [OF pt_okD(1) [OF ok] surjective_pairing, of 7] s1(6) by (simp_all add: owner_frames_def owner_tokens_def)
  then have u: "xtok_owner_usage 7 s1 = (0, 0)" by (simp add: prod_eq_iff unat_eq_0)
  have "mmu (xm_mem s1) (as_pml4_phys a) va = None" if va: "user_va va" for va
  proof -
    have "M (as_pml4_phys a, path4 va) = None" by (rule no_leaves [OF ok]) (use s1(8) in simp_all)
    then show ?thesis using mmu_space [OF ok _ va, of "as_pml4_phys a"] by simp
  qed
  then show ?thesis using that [OF s1(1-4) r q u] by blast
qed

lemma sample_load:
  obtains s0 a s1 out' s2 where "kernel_main nx_cpu flat_layout quiet_hw big_box power_on = Inr s0"
    "xas_create (Some no_space) 7 s0 = (XAS_OK, Some a, s1)" "as_live a"
    "xload_exb amd64 zero_out (Some a) 7 (Some tiny_exb) 97 (Some out) s1 = (XLOAD_OK, out', s2)"
proof -
  obtain s0 a s1 where s1: "kernel_main nx_cpu flat_layout quiet_hw big_box power_on = Inr s0"
    "xas_create (Some no_space) 7 s0 = (XAS_OK, Some a, s1)" "as_live a" "as_owner_id a = 7" "room {256..<4194304} a 0 3899999 s1"
    "quota_of 7 s1 = (2048, 256)" "xtok_owner_usage 7 s1 = (0, 0)" "\<forall>va. user_va va \<longrightarrow> mmu (xm_mem s1) (as_pml4_phys a) va = None"
    by (rule sample_room)
  have qo: "xlb_quota_ok (as_owner_id a) 5 2 s1" using s1(4,6,7) by (simp add: xlb_quota_ok_def xproc_quota_get_def)
  have "\<exists>out' s2. xload_exb amd64 zero_out (Some a) (as_owner_id a) (Some tiny_exb) 97 (Some out) s1 = (XLOAD_OK, out', s2)"
    by (rule tiny_load [OF s1(5) _ _ _ qo s1(8)]) (simp_all add: s1(4) zero_out_def)
  then show ?thesis using that [OF s1(1-3)] unfolding s1(4) by blast
qed

end
