(* ===== verification/Space_Props.thy ===== *)
theory Space_Props
  imports Load_Live
begin

text \<open>
  What the address-space operations, the loader and the resource calls do in a reachable state of the
  kernel, seen through the processor's page walk.
\<close>

section \<open>Reachable states\<close>

definition reachable :: "XAspace list \<Rightarrow> 'a Proc_scheme \<Rightarrow> bool" where
  "reachable H s \<longleftrightarrow> (\<exists>m cpuid ly hw hand s0 H0. cold m \<and> kernel_main cpuid ly hw hand m = Inr s0 \<and> (\<forall>a \<in> set H0. \<not> as_live a) \<and>
     kstep\<^sup>*\<^sup>* (H0, s0) (H, s))"

lemma reachable_inv:
  assumes "reachable H s"
  obtains B sp where "pt_inv B sp s" "spaces_ok H sp"
  using assms unfolding reachable_def by (elim exE conjE) (rule reachable_space)

lemma reachable_hooks:
  assumes "reachable H s"
  obtains B sp where "pt_inv B sp s" "spaces_ok H sp" "pr_hooks s"
proof -
  obtain m cpuid ly hw hand s0 H0 where r: "cold m" "kernel_main cpuid ly hw hand m = Inr s0" "\<forall>a \<in> set H0. \<not> as_live a" "kstep\<^sup>*\<^sup>* (H0, s0) (H, s)"
    using assms unfolding reachable_def by blast
  obtain B where "kinv B (H0, s0)" using boot_kinv [OF r(1-3)] by blast
  from ksteps_inv [OF r(4) this] show ?thesis using that by (auto simp: kinv_def)
qed

lemma live_space: "spaces_ok H sp \<Longrightarrow> i < length H \<Longrightarrow> as_live (H ! i) \<Longrightarrow> sp (as_pml4_phys (H ! i)) = Some (as_owner_id (H ! i))"
  by (simp add: spaces_ok_def)

lemma live_root: "spaces_ok H sp \<Longrightarrow> i < length H \<Longrightarrow> as_live (H ! i) \<Longrightarrow> sp (as_pml4_phys (H ! i)) \<noteq> None"
  by (simp add: spaces_ok_def)

lemma reachableI:
  assumes "cold m" "kernel_main cpuid ly hw hand m = Inr s0" "\<forall>a \<in> set H0. \<not> as_live a" "kstep\<^sup>*\<^sup>* (H0, s0) (H, s)"
  shows "reachable H s"
  unfolding reachable_def using assms by blast

lemma sample_reachable:
  assumes "kernel_main nx_cpu flat_layout quiet_hw big_box power_on = Inr s0" "xas_create (Some no_space) 7 s0 = (XAS_OK, Some a, s1)"
    "xtok_alloc_ram 7 1 sample_rights s1 = (tok, s2)"
  shows "reachable [a] s2"
proof -
  have k1: "kstep ([no_space], s0) ([a], s1)" using ks_create [of 0 "[no_space]" 7 s0 XAS_OK a s1] assms(2) by (simp add: no_space_def)
  have k2: "kstep ([a], s1) ([a], s2)" by (rule ks_alloc [OF assms(3)])
  have ks: "kstep\<^sup>*\<^sup>* ([no_space], s0) ([a], s2)" by (rule converse_rtranclp_into_rtranclp [where r = kstep, OF k1 r_into_rtranclp [where r = kstep, OF k2]])
  have nl: "\<forall>a \<in> set [no_space]. \<not> as_live a" by (simp add: no_space_def)
  show ?thesis by (rule reachableI [OF cold_power_on assms(1) nl ks])
qed

lemma reachable_step: "reachable H s \<Longrightarrow> kstep (H, s) (H', s') \<Longrightarrow> reachable H' s'"
  unfolding reachable_def by (elim exE conjE, intro exI conjI, assumption+) (rule rtranclp.rtrancl_into_rtrancl [where r = kstep])

text \<open>What every live address space translates, other than a range of pages of one of them.\<close>

definition others_kept :: "XAspace list \<Rightarrow> 'a Proc_scheme \<Rightarrow> 'a Proc_scheme \<Rightarrow> u64 \<Rightarrow> (u64 \<Rightarrow> bool) \<Rightarrow> bool" where
  "others_kept H s s' P within \<longleftrightarrow> (\<forall>j < length H. as_live (H ! j) \<longrightarrow> (\<forall>va. user_va va \<longrightarrow> \<not> (as_pml4_phys (H ! j) = P \<and> within va) \<longrightarrow>
     mmu (xm_mem s') (as_pml4_phys (H ! j)) va = mmu (xm_mem s) (as_pml4_phys (H ! j)) va))"

section \<open>Mapping\<close>



text \<open>C11. (error) A failed mapping leaves no trace. Whatever the reason of the failure, running out of memory for tables after
  some pages were already entered included, the ledger and the mapping records are unchanged and every live space
  translates every user address as before.\<close>

theorem xas_map_failure:
  assumes "reachable H s" "i < length H" "as_live (H ! i)" "xas_map (Some (H ! i)) virt tok perms s = (rc, s')" "rc \<noteq> XAS_OK"
  shows "toks s' = toks s \<and> pt_maps s' = pt_maps s \<and> others_kept H s s' 0 (\<lambda>_. False)"
proof -
  obtain B sp where inv: "pt_inv B sp s" and so: "spaces_ok H sp" using assms(1) by (rule reachable_inv)
  have a: "as_live (H ! i) \<longrightarrow> sp (as_pml4_phys (H ! i)) = Some (as_owner_id (H ! i))" using live_space [OF so assms(2)] by blast
  from xas_map_fail_view [OF inv a assms(4,5)] show ?thesis using live_root [OF so] unfolding others_kept_def by blast
qed

theorem xas_map_failure_witness:
  "\<exists>a s s' tok. reachable [a] (s :: Proc) \<and> xas_map (Some a) XAS_USER_BASE tok (XPERM_R OR XPERM_W OR XPERM_X) s = (XAS_ERR_WX, s') \<and> toks s' = toks s \<and>
     mmu (xm_mem s') (as_pml4_phys a) XAS_USER_BASE = mmu (xm_mem s) (as_pml4_phys a) XAS_USER_BASE"
proof (rule sample_mapped, goal_cases)
  case (1 s0 a s1 tok s2 e s3)
  have r: "reachable [a] s3" using reachable_step [OF sample_reachable [OF 1(1-3)]] ks_map [of 0 "[a]" XAS_USER_BASE tok sample_perms s2 XAS_OK s3] 1(4) by simp
  have f: "xas_map (Some a) XAS_USER_BASE tok (XPERM_R OR XPERM_W OR XPERM_X) s3 = (XAS_ERR_WX, s3)" using 1(6) by (simp add: xas_map_def)
  have "toks s3 = toks s3 \<and> pt_maps s3 = pt_maps s3 \<and> others_kept [a] s3 s3 0 (\<lambda>_. False)"
    using xas_map_failure [OF r, of 0 XAS_USER_BASE tok "XPERM_R OR XPERM_W OR XPERM_X" XAS_ERR_WX s3] 1(6) f by simp
  then show ?case using r f by blast
qed

text \<open>C10. (liveness) Mapping succeeds when it should. In a reachable state let the permissions be legal, the range aligned, in the user
  half and unmapped, the token live, owned, with the rights needed and not pinned to the limit, the owner below its number of
  mappings, one record unused and more than three free frames per page left for tables. Then \<open>xas_map\<close> returns \<open>XAS_OK\<close>.\<close>

theorem xas_map_complete:
  assumes "reachable H s" "i < length H" "as_live (H ! i)" and lp: "legal_perms perms"
    and va: "unat virt mod 4096 = 0" "unat XAS_USER_BASE \<le> unat virt" "unat virt + unat (te_frames e) * 4096 \<le> unat XAS_USER_TOP"
    and tok: "toks s tok = Some e" "te_owner e = as_owner_id (H ! i)" "te_rights e AND need_rights perms = need_rights perms" "te_map_count e \<noteq> 0xFFFF"
    and rcd: "owner_maps (as_owner_id (H ! i)) s < XAS_MAX_MAPS_PER_OWNER" "k < 1024" "\<not> mr_live (pt_maps s ! k)"
    and free: "\<forall>j < unat (te_frames e). mmu (xm_mem s) (as_pml4_phys (H ! i)) (virt + of_nat (j * 4096)) = None"
    and room: "3 * unat (te_frames e) < card (ffree (xm_phys s))"
  shows "fst (xas_map (Some (H ! i)) virt tok perms s) = XAS_OK"
proof -
  obtain B sp where inv: "pt_inv B sp s" and so: "spaces_ok H sp" using assms(1) by (rule reachable_inv)
  show ?thesis by (rule xas_map_walk_live [OF inv assms(3) live_space [OF so assms(2,3)] lp va tok rcd free room])
qed

theorem xas_map_complete_witness:
  "\<exists>a s tok. reachable [a] (s :: Proc) \<and> fst (xas_map (Some a) XAS_USER_BASE tok sample_perms s) = XAS_OK"
proof (rule sample_token, goal_cases)
  case (1 s0 a s1 tok s2 e)
  have r: "reachable [a] s2" by (rule sample_reachable [OF 1(1-3)])
  have om: "owner_maps 7 s2 = 0" unfolding owner_maps_def using 1(14) by (simp add: filter_empty_conv del: upt_rec_numeral)
  have nm: "mmu (xm_mem s2) (as_pml4_phys a) XAS_USER_BASE = None"
  proof -
    obtain R M where ok: "pt_ok [as_pml4_phys a \<mapsto> 7] R M s2" using 1(7) by (rule pt_invE)
    have "M (as_pml4_phys a, path4 XAS_USER_BASE) = None" by (rule no_leaves [OF ok]) (use 1(14) in simp_all)
    then show ?thesis using mmu_space [OF ok, of "as_pml4_phys a" XAS_USER_BASE] by (simp add: user_va_def)
  qed
  have "fst (xas_map (Some ([a] ! 0)) XAS_USER_BASE tok sample_perms s2) = XAS_OK"
    by (rule xas_map_complete [OF r, where k = 0 and e = e])
      (use 1(5,6,8-14) om nm in \<open>simp_all add: legal_perms_def need_rights_def\<close>)
  then show ?case using r by auto
qed

section \<open>Revoking\<close>






section \<open>Loading\<close>




end
