(* ===== verification/Machine_Props.thy ===== *)
theory Machine_Props
  imports Space_Props
begin

text \<open>
  Properties of the resource system calls, and of the tables the start-up code builds: the kernel's identity map and the
  interrupt gates.
\<close>

section \<open>Resource calls\<close>

lemma finite_owner_frames: "finite (owner_frames s owner)"
proof (rule finite_subset)
  show "owner_frames s owner \<subseteq> (\<Union>t. te_span (the (toks s t)))" 
  proof
    fix x assume "x \<in> owner_frames s owner"
    then obtain t e where "toks s t = Some e" "x \<in> te_span e" by (auto simp: owner_frames_def)
    then have "x \<in> te_span (the (toks s t))" by simp
    then show "x \<in> (\<Union>t. te_span (the (toks s t)))" by blast
  qed
  show "finite (\<Union>t. te_span (the (toks s t)))" by (simp add: te_span_def)
qed

text \<open>C8. (bounds) The quota is never exceeded. In a reachable state a system call for \<open>n\<close> frames that returns 0 hands out in \<open>rdx\<close>
  a fresh token of exactly \<open>n\<close> cleared frames with the rights asked for, and the frames and tokens of the owner, those included,
  are within its quota. Any other return code leaves the ledger as it was.\<close>

theorem sys_alloc_quota:
  assumes "reachable H s" "sys_alloc a f s = (f', s')" "quota_of (as_owner_id a) s = (max_frames, max_tokens)"
  shows "if f_rax f' = 0
    then card (owner_frames s' (as_owner_id a)) \<le> unat max_frames \<and> card (owner_tokens s' (as_owner_id a)) \<le> unat max_tokens \<and>
      (\<exists>e. toks s (f_rdx f') = None \<and> toks s' = (toks s)(f_rdx f' \<mapsto> e) \<and> te_frames e = f_rdi f \<and> te_owner e = as_owner_id a \<and>
         te_rights e = ucast (f_rsi f) \<and> (\<forall>x. unat x div 4096 \<in> te_span e \<longrightarrow> xm_mem s' x = 0))
    else toks s' = toks s \<and> f_rdx f' = 0"
proof -
  obtain B sp where inv: "pt_inv B sp s" using assms(1) by (rule reachable_inv)
  obtain R M where ok: "pt_ok sp R M s" using inv by (rule pt_invE)
  let ?o = "as_owner_id a"
  obtain uf ut where u: "xtok_owner_usage ?o s = (uf, ut)" by fastforce
  note us = xtok_owner_usage_spec [OF pt_okD(1) [OF ok] u]
  obtain tok s1 where al: "xtok_alloc_ram ?o (f_rdi f) (ucast (f_rsi f)) s = (tok, s1)" by fastforce
  note ai = alloc_inv [OF inv al]
  let ?bad = "f_rdi f = 0 \<or> f_rsi f = 0 \<or> f_rsi f AND NOT (ucast XSYS_USER_RIGHTS) \<noteq> 0 \<or> ut \<ge> max_tokens \<or> f_rdi f > max_frames \<or> uf > max_frames - f_rdi f"
  show ?thesis
  proof (cases "?bad \<or> tok = 0")
    case True
    have "toks s1 = toks s" if "tok = 0" using ai(1) toks_cong [of s1 s] that by (simp add: alloc_done_def)
    then show ?thesis using True assms(2) unfolding sys_alloc_def Let_def assms(3) u prod.case al
      by (auto simp: ret_def split: if_split_asm)
  next
    case False
    then have f': "f' = ret (f\<lparr>f_rdx := tok\<rparr>) 0" "s' = s1" using assms(2) unfolding sys_alloc_def Let_def assms(3) u prod.case al by (auto simp: ret_def)
    obtain e where e: "toks s tok = None" "ram_entry ?o (ucast (f_rsi f)) (te_phys e) (f_rdi f) e" "toks s1 = (toks s)(tok \<mapsto> e)"
      "xm_mem s1 = (\<lambda>x. if unat x div 4096 \<in> te_span e then 0 else xm_mem s x)" using ai(1) False by (auto simp: alloc_done_def)
    have re: "te_owner e = ?o" "te_frames e = f_rdi f" "te_rights e = ucast (f_rsi f)" using e(2) by (simp_all add: ram_entry_def)
    have "owner_frames s1 ?o \<subseteq> owner_frames s ?o \<union> te_span e" unfolding owner_frames_def by (auto simp: e(3) split: if_split_asm)
    then have "card (owner_frames s1 ?o) \<le> card (owner_frames s ?o \<union> te_span e)" by (rule card_mono [rotated]) (simp add: finite_owner_frames te_span_def)
    also have "\<dots> \<le> card (owner_frames s ?o) + unat (f_rdi f)" using card_Un_le [of "owner_frames s ?o" "te_span e"] by (simp add: te_span_def re(2))
    finally have "card (owner_frames s1 ?o) \<le> unat uf + unat (f_rdi f)" using us(1) by simp
    moreover have "unat uf + unat (f_rdi f) \<le> unat max_frames" using False by (auto simp: word_less_nat_alt unat_sub_if_size not_less)
    moreover have "owner_tokens s1 ?o = insert tok (owner_tokens s ?o)" using re(1) by (auto simp: owner_tokens_def e(3))
    then have "card (owner_tokens s1 ?o) \<le> Suc (unat ut)" using us(2) card_insert_le_m1 by (simp add: card_insert_if)
    moreover have "Suc (unat ut) \<le> unat max_tokens" using False by (simp add: word_less_nat_alt not_le)
    ultimately show ?thesis using e(1,3,4) re unfolding f' by (auto simp: ret_def)
  qed
qed

theorem sys_alloc_quota_witness:
  "\<exists>a s f' s' max_frames max_tokens. reachable [a] (s :: Proc) \<and> quota_of 7 s = (max_frames, max_tokens) \<and>
     sys_alloc a (exit_frame\<lparr>f_rdi := 1, f_rsi := ucast sample_rights\<rparr>) s = (f', s') \<and> f_rax f' = 0 \<and>
     card (owner_frames s' 7) \<le> unat max_frames \<and> card (owner_tokens s' 7) \<le> unat max_tokens"
proof (rule sample_room, goal_cases)
  case (1 s0 a s1)
  let ?f = "exit_frame\<lparr>f_rdi := 1, f_rsi := ucast sample_rights\<rparr>"
  have k: "kstep\<^sup>*\<^sup>* ([no_space], s0) ([a], s1)" using ks_create [of 0 "[no_space]" 7 s0 XAS_OK a s1] 1(2) by (intro r_into_rtranclp) (simp add: no_space_def)
  have r: "reachable [a] s1" by (rule reachableI [OF cold_power_on 1(1) _ k]) (simp add: no_space_def)
  obtain tok s2 where al: "xtok_alloc_ram (as_owner_id a) 1 sample_rights s1 = (tok, s2)" by fastforce
  have "tok \<noteq> 0" using room_alloc [OF 1(5) _ _ _ _ al] by simp
  then have sa: "sys_alloc a ?f s1 = (ret (?f\<lparr>f_rdx := tok\<rparr>) 0, s2)" using al 1(4,6,7) by (simp add: sys_alloc_def exit_frame_def Let_def XSYS_USER_RIGHTS_def)
  have q: "quota_of (as_owner_id a) s1 = (2048, 256)" using 1(4,6) by simp
  have z: "f_rax (ret (?f\<lparr>f_rdx := tok\<rparr>) 0) = 0" by (simp add: ret_def)
  have "card (owner_frames s2 7) \<le> unat (2048 :: u64) \<and> card (owner_tokens s2 7) \<le> unat (256 :: u32)"
    using sys_alloc_quota [OF r sa q] z unfolding 1(4) by (simp only: if_P simp_thms)
  then show ?case using r 1(6) sa z by blast
qed

lemma acquire_foreign:
  assumes li: "ledger_inv s" and t: "\<forall>e. toks s t = Some e \<longrightarrow> te_owner e \<noteq> owner"
  shows "\<exists>rc. xtok_map_acquire t owner need s = (rc, None, s) \<and> map_xas_err (map_err rc) = XERR_BADTOKEN"
proof (cases "lookup_live t s")
  case None
  then show ?thesis by (simp add: xtok_map_acquire_def map_err_def map_xas_err_def)
next
  case (Some i)
  have "te_kind (lg_table s ! i) = XTOK_KIND_RAM" using ledger_invD(3) [OF li lookup_liveD(1) [OF Some]] lookup_liveD(2) [OF Some] by (simp add: entry_ok_def)
  moreover have "te_owner (lg_table s ! i) \<noteq> owner" using t Some by (simp add: toks_def)
  ultimately show ?thesis using Some by (simp add: xtok_map_acquire_def map_err_def map_xas_err_def)
qed

lemma map_foreign:
  assumes li: "ledger_inv s" and t: "\<forall>e. toks s t = Some e \<longrightarrow> te_owner e \<noteq> as_owner_id a" "\<forall>e. toks s u = Some e \<longrightarrow> te_owner e \<noteq> as_owner_id a"
  shows "\<exists>rc rc'. xas_map (Some a) virt t perms s = (rc, s) \<and> xas_map (Some a) virt u perms s = (rc', s) \<and>
    map_xas_err rc = map_xas_err rc' \<and> map_xas_err rc \<in> {XERR_INVAL, XERR_PERM, XERR_RANGE, XERR_NOMEM, XERR_BADTOKEN}"
proof -
  obtain rc rc' where a: "xtok_map_acquire t (as_owner_id a) (need_rights perms) s = (rc, None, s)" "map_xas_err (map_err rc) = XERR_BADTOKEN"
    "xtok_map_acquire u (as_owner_id a) (need_rights perms) s = (rc', None, s)" "map_xas_err (map_err rc') = XERR_BADTOKEN"
    using acquire_foreign [OF li t(1)] acquire_foreign [OF li t(2)] by blast
  show ?thesis unfolding xas_map_def Let_def option.sel a(1,3) using a(2,4) by (auto simp: map_xas_err_def)
qed

text \<open>C7. (safety) Tokens of others are invisible. In a reachable state, a program that maps or frees with a token number that is not a token
  of its own gets the same answer whether the number is another owner's live token or no token at all, and nothing changes; so
  it cannot probe what exists.\<close>

theorem foreign_token_opaque:
  assumes "reachable H s" "f_rax f = XSYS_MAP \<or> f_rax f = XSYS_FREE"
    and "\<forall>e. toks s t = Some e \<longrightarrow> te_owner e \<noteq> as_owner_id a" "\<forall>e. toks s u = Some e \<longrightarrow> te_owner e \<noteq> as_owner_id a"
  shows "\<exists>code. xsys_resource a (f\<lparr>f_rdi := t\<rparr>) s = (f\<lparr>f_rdi := t, f_rax := code\<rparr>, s) \<and>
    xsys_resource a (f\<lparr>f_rdi := u\<rparr>) s = (f\<lparr>f_rdi := u, f_rax := code\<rparr>, s) \<and> code \<noteq> 0"
proof -
  obtain B sp where inv: "pt_inv B sp s" using assms(1) by (rule reachable_inv)
  then have li: "ledger_inv s" by (auto simp: pt_inv_def pt_ok_def)
  show ?thesis
  proof (cases "f_rax f = XSYS_FREE")
    case True
    have "xtok_release_owned v (as_owner_id a) s = (XTOK_REL_ESTALE, s)" if "\<forall>e. toks s v = Some e \<longrightarrow> te_owner e \<noteq> as_owner_id a" for v
      using that by (auto simp: xtok_release_owned_def release_impl_def toks_def Let_def split: option.splits)
    then show ?thesis using True assms(3,4) by (intro exI [of _ "word_of_int XERR_BADTOKEN"]) (simp add: xsys_resource_def sys_free_def ret_def)
  next
    case False
    then have m: "f_rax f = XSYS_MAP" using assms(2) by blast
    obtain rc rc' where r: "xas_map (Some a) (f_rsi f) t (ucast (f_rdx f)) s = (rc, s)" "xas_map (Some a) (f_rsi f) u (ucast (f_rdx f)) s = (rc', s)"
      "map_xas_err rc = map_xas_err rc'" "map_xas_err rc \<in> {XERR_INVAL, XERR_PERM, XERR_RANGE, XERR_NOMEM, XERR_BADTOKEN}"
      using map_foreign [OF li assms(3,4)] by blast
    show ?thesis
    proof (cases "f_rdx f > 0xFFFFFFFF")
      case True
      then show ?thesis using m by (intro exI [of _ "word_of_int XERR_INVAL"]) (simp add: xsys_resource_def sys_map_def ret_def)
    next
      case False
      then show ?thesis using m r by (intro exI [of _ "word_of_int (map_xas_err rc)"]) (auto simp: xsys_resource_def sys_map_def ret_def)
    qed
  qed
qed

theorem foreign_token_opaque_witness:
  "\<exists>a s tok f. reachable [a] (s :: Proc) \<and> toks s tok \<noteq> None \<and> toks s 0 = None \<and>
     f_rax (fst (xsys_resource (a\<lparr>as_owner_id := 8\<rparr>) (f\<lparr>f_rdi := tok\<rparr>) s)) = f_rax (fst (xsys_resource (a\<lparr>as_owner_id := 8\<rparr>) (f\<lparr>f_rdi := 0\<rparr>) s))"
proof (rule sample_token, goal_cases)
  case (1 s0 a s1 tok s2 e)
  let ?f = "exit_frame\<lparr>f_rax := XSYS_FREE\<rparr>" and ?a = "a\<lparr>as_owner_id := 8\<rparr>"
  have r: "reachable [a] s2" by (rule sample_reachable [OF 1(1-3)])
  have n: "toks s2 0 = None" using 1(4,8) by simp
  have "\<exists>code. xsys_resource ?a (?f\<lparr>f_rdi := tok\<rparr>) s2 = (?f\<lparr>f_rdi := tok, f_rax := code\<rparr>, s2) \<and>
    xsys_resource ?a (?f\<lparr>f_rdi := 0\<rparr>) s2 = (?f\<lparr>f_rdi := 0, f_rax := code\<rparr>, s2) \<and> code \<noteq> 0"
    by (rule foreign_token_opaque [OF r]) (use 1(8,9) n in simp_all)
  then have "f_rax (fst (xsys_resource ?a (?f\<lparr>f_rdi := tok\<rparr>) s2)) = f_rax (fst (xsys_resource ?a (?f\<lparr>f_rdi := 0\<rparr>) s2))" by (elim exE conjE) simp
  moreover have "toks s2 tok \<noteq> None" by (simp add: 1(8))
  ultimately show ?case using r n by blast
qed

section \<open>Start-up tables\<close>

text \<open>The address a gate leads to, and the address each vector's stub has.\<close>

definition gate_target :: "IdtEntry \<Rightarrow> u64" where
  "gate_target g = ucast (ie_off_lo g) OR push_bit 16 (ucast (ie_off_mid g)) OR push_bit 32 (ucast (ie_off_hi g))"

definition stub_of :: "Layout \<Rightarrow> nat \<Rightarrow> u64" where
  "stub_of ly v = (if v < 32 then ly_isr_stub_base ly + 16 * of_nat v else if v = 0x80 then ly_isr_stub_syscall ly
     else ly_isr_irq_base ly + 16 * of_nat (v - 32))"

lemma gate_roundtrip: "gate_target (idt_gate addr csel attr) = addr"
proof (rule bit_word_eqI)
  fix n assume n: "n < LENGTH(64)"
  have m: "(0xFFFF :: u64) = mask 16" by (simp add: mask_eq_exp_minus_1)
  show "bit (gate_target (idt_gate addr csel attr)) n = bit addr n" unfolding gate_target_def idt_gate_def m
    using n by (cases "n < 16"; cases "n < 32") (auto simp: bit_simps)
qed

lemma fold_gates:
  assumes "b \<le> length t"
  shows "fold (\<lambda>i t. if Q i then t else t[i := g i]) [a..<b] t ! v = (if a \<le> v \<and> v < b \<and> \<not> Q v then g v else t ! v) \<and>
    length (fold (\<lambda>i t. if Q i then t else t[i := g i]) [a..<b] t) = length t"
  using assms
proof (induction b)
  case (Suc b)
  then show ?case by (cases "a \<le> b") (auto simp: nth_list_update)
qed simp

text \<open>C13. (type) The interrupt table is well-formed and ring 3 has one way in. After \<open>xproc_init\<close> every one of the 256 vectors is a present
  64-bit interrupt gate through the kernel code segment to the stub of that vector; only vector 0x80 may be raised from
  ring 3, and only the double fault switches to the stack of its own. The segment table has one kernel and one user code
  segment, and the privilege level of each user segment is 3.\<close>

theorem gates_typed:
  assumes "\<not> gd_ready s" "length (id_idt s) = 256" "length (ts_ist (gd_tss s)) = 7" "v < 256" "s' = xproc_init ly s"
  shows "gate_target (id_idt s' ! v) = stub_of ly v \<and> ie_selector (id_idt s' ! v) = 8 \<and> bit (ie_attr (id_idt s' ! v)) 7 \<and>
    ie_attr (id_idt s' ! v) AND 0xF = 0xE \<and> (drop_bit 5 (ie_attr (id_idt s' ! v)) AND 3 = (if v = 0x80 then 3 else 0)) \<and>
    ie_ist (id_idt s' ! v) = (if v = 8 then 1 else 0) \<and> ts_ist (gd_tss s') ! 0 = ly_df_stack ly + 8192 \<and>
    map (\<lambda>d. drop_bit 45 d AND 3) (take 5 (gd_gdt s')) = [0, 0, 0, 3, 3]"
proof -
  let ?g1 = "\<lambda>i. idt_gate (ly_isr_stub_base ly + 16 * of_nat i) 8 0x8E" and ?g2 = "\<lambda>v. idt_gate (ly_isr_irq_base ly + 16 * of_nat (v - 32)) 8 0x8E"
  define t1 where "t1 = fold (\<lambda>i t. if False then t else t[i := ?g1 i]) [0..<32] (id_idt s)"
  define t2 where "t2 = t1[0x80 := idt_gate (ly_isr_stub_syscall ly) 8 0xEE]"
  define t3 where "t3 = t2[8 := (t2 ! 8)\<lparr>ie_ist := 1\<rparr>]"
  have l: "length t1 = 256" "length t3 = 256" using fold_gates [of 32 "id_idt s" "\<lambda>_. False" ?g1 0] assms(2) by (simp_all add: t1_def t2_def t3_def del: upt_rec_numeral)
  have n1: "t1 ! w = (if w < 32 then ?g1 w else id_idt s ! w)" for w
    using fold_gates [of 32 "id_idt s" "\<lambda>_. False" ?g1 0 w] assms(2) by (simp add: t1_def del: upt_rec_numeral)
  have id: "id_idt s' = fold (\<lambda>v t. if v = 0x80 then t else t[v := ?g2 v]) [32..<256] t3"
    using assms(1) by (simp add: assms(5) xproc_init_def idt_install_irq_gates_def idt_install_user_gates_def idt_init_def gdt_init_def Let_def t1_def t2_def t3_def del: upt_rec_numeral cong: if_cong)
  have n: "id_idt s' ! v = (if 32 \<le> v \<and> v \<noteq> 0x80 then ?g2 v else t3 ! v)"
    using fold_gates [of 256 t3 "\<lambda>v. v = 0x80" ?g2 32 v] l(2) assms(4) by (simp add: id del: upt_rec_numeral)
  have t3: "t3 ! v = (if v = 8 then (?g1 8)\<lparr>ie_ist := 1\<rparr> else if v = 0x80 then idt_gate (ly_isr_stub_syscall ly) 8 0xEE else t1 ! v)"
    using l(1) by (simp add: t3_def t2_def nth_list_update n1)
  have f: "gate_target (g\<lparr>ie_ist := i\<rparr>) = gate_target g" "ie_selector (idt_gate x 8 w) = 8" "ie_attr (idt_gate x 8 w) = w" "ie_ist (idt_gate x 8 w) = 0"
    for g i x w by (simp_all add: gate_target_def idt_gate_def)
  have gt: "id_idt s' ! v = (let g = idt_gate (stub_of ly v) 8 (if v = 0x80 then 0xEE else 0x8E) in if v = 8 then g\<lparr>ie_ist := 1\<rparr> else g)"
    using assms(4) unfolding n t3 n1 stub_of_def by simp
  have "ts_ist (gd_tss s') ! 0 = ly_df_stack ly + 8192" "map (\<lambda>d. drop_bit 45 d AND 3) (take 5 (gd_gdt s')) = [0, 0, 0, 3, 3]"
    using assms(1,3) by (simp_all add: assms(5) xproc_init_def idt_install_irq_gates_def idt_install_user_gates_def idt_init_def gdt_init_def Let_def del: upt_rec_numeral)
  then show ?thesis unfolding gt Let_def by (simp add: f gate_roundtrip)
qed

theorem gates_typed_witness:
  "drop_bit 5 (ie_attr (id_idt (xproc_init flat_layout power_on) ! 0x80)) AND 3 = 3 \<and> gate_target (id_idt (xproc_init flat_layout power_on) ! 0x80) = 0x240000"
proof -
  have p: "\<not> gd_ready power_on" "length (id_idt power_on) = 256" "length (ts_ist (gd_tss power_on)) = 7" by (simp_all add: power_on_def)
  show ?thesis using gates_typed [where v = 128 and ly = flat_layout, OF p _ refl] by (simp add: stub_of_def flat_layout_def)
qed






section \<open>The last page\<close>

text \<open>C40. (error) A program can halt the kernel from the last page of the user range. \<open>xas_map\<close> accepts an executable mapping there, although
  the loader treats that page as a guard. A system call instruction in its last two bytes saves the address one past the user
  range, which is not canonical. The call is served, but the \<open>iretq\<close> that is to resume the program faults in ring 0,
  and the exception handler halts the machine.\<close>

theorem last_page_halts:
  assumes "reachable H s" "i < length H" "as_live (H ! i)" "xas_map (Some (H ! i)) (XAS_USER_TOP - 4096) tok (XPERM_R OR XPERM_X) s = (XAS_OK, s')"
    and f: "f_vector f = 0x80" "f_rax f = XSYS_LOG" "f_rip f = XAS_USER_TOP" and ctx: "canonical (c_rip ctx)"
  shows "(\<exists>ac. mmu (xm_mem s') (as_pml4_phys (H ! i)) (XAS_USER_TOP - 2) = Some ac \<and> ac_user ac \<and> ac_exec ac) \<and>
    (\<exists>msg c r s''. xproc_run_ctx (Some (H ! i)) (Some ctx) (Some res) pending [Trap f cr2] s' = Some (Inr msg, c, r, s''))"
proof -
  have "reachable H s'" by (rule reachable_step [OF assms(1) ks_map [OF assms(2,4)]])
  then obtain B sp where inv: "pt_inv B sp s'" and so: "spaces_ok H sp" and hk: "pr_hooks s'" by (rule reachable_hooks)
  obtain B0 sp0 where inv0: "pt_inv B0 sp0 s" and so0: "spaces_ok H sp0" using assms(1) by (rule reachable_inv)
  let ?a = "H ! i"
  obtain e where e: "user_range (XAS_USER_TOP - 4096) (unat (te_frames e))" "toks s tok = Some e"
    "\<forall>off < unat (te_frames e) * 4096. mmu (xm_mem s') (as_pml4_phys ?a) (XAS_USER_TOP - 4096 + of_nat off) = Some (granted (te_phys e + of_nat off) (XPERM_R OR XPERM_X))"
    using xas_map_view [OF inv0 assms(3) live_space [OF so0 assms(2,3)] assms(4)] by blast
  obtain R M where ok: "pt_ok sp0 R M s" using inv0 by (rule pt_invE)
  have n: "0 < unat (te_frames e)" using token_aligned(4) [OF ok e(2)] by (simp add: unat_gt_0)
  have "mmu (xm_mem s') (as_pml4_phys ?a) (XAS_USER_TOP - 4096 + of_nat 4094) = Some (granted (te_phys e + of_nat 4094) (XPERM_R OR XPERM_X))"
    by (rule e(3) [rule_format]) (use n in simp)
  then have x: "\<exists>ac. mmu (xm_mem s') (as_pml4_phys ?a) (XAS_USER_TOP - 2) = Some ac \<and> ac_user ac \<and> ac_exec ac" by (simp add: granted_def)
  have "\<exists>msg c r s''. xproc_run_ctx (Some ?a) (Some ctx) (Some res) pending [Trap f cr2] s' = Some (Inr msg, c, r, s'')"
  proof (rule run_ctx_stages [OF inv assms(3) live_space [OF so assms(2,3)] hk, of ctx res pending], goal_cases)
    case (1 g s2)
    let ?f = "f\<lparr>f_cs := 0x23\<rparr>"
    obtain q where q: "pr_res s2 = Some q" "pr_hooks s2" using 1(1) by (auto simp: running_def)
    obtain s3 where h: "handle ?f cr2 s2 = (Return (?f\<lparr>f_rax := 0\<rparr>), s3)" using q f by (simp add: handle_def exception_handler_def user_hook_def)
    have nc: "\<not> canonical (f_rip (?f\<lparr>f_rax := 0\<rparr>))" by (simp add: f(3) canonical_def)
    obtain m where "handle (iretq_fault (pr_isr_iretq s3) (ts_rsp0 (gd_tss s3) - 40) (pr_rflags s3) 0 (?f\<lparr>f_rax := 0\<rparr>)) cr2 s3 = (Halted m, s3)"
      using iretq_halts by blast
    then have "trap ?f cr2 s2 = (Halted m, s3)" using nc by (simp add: trap_def h)
    then have "settle (run_user [Trap f cr2]) (enter_iretq g s2) = Some (Inr m, s3)" using ctx 1(2) by (simp add: enter_iretq_def settle_def)
    then show ?case by (simp add: 1(7))
  qed
  then show ?thesis using x by blast
qed

theorem last_page_halts_witness:
  "\<exists>a s s' tok msg c r s''. reachable [a] (s :: Proc) \<and> xas_map (Some a) (XAS_USER_TOP - 4096) tok (XPERM_R OR XPERM_X) s = (XAS_OK, s') \<and>
     xproc_run_ctx (Some a) (Some (xctx_init XAS_USER_BASE 0)) (Some clear_result) False [Trap (exit_frame\<lparr>f_rax := XSYS_LOG, f_rip := XAS_USER_TOP\<rparr>) 0] s' =
       Some (Inr msg, c, r, s'')"
proof (rule sample_room, goal_cases)
  case (1 s0 a s1)
  let ?r = "XTOK_RIGHT_READ OR XTOK_RIGHT_EXECUTE OR XTOK_RIGHT_MAP" and ?v = "XAS_USER_TOP - 4096"
  have k: "kstep\<^sup>*\<^sup>* ([no_space], s0) ([a], s1)" using ks_create [of 0 "[no_space]" 7 s0 XAS_OK a s1] 1(2) by (intro r_into_rtranclp) (simp add: no_space_def)
  have r: "reachable [a] s1" by (rule reachableI [OF cold_power_on 1(1) _ k]) (simp add: no_space_def)
  obtain tok s2 where al: "xtok_alloc_ram (as_owner_id a) 1 ?r s1 = (tok, s2)" by fastforce
  obtain e where e: "ram_entry (as_owner_id a) ?r (te_phys e) 1 e" "toks s2 = (toks s1)(tok \<mapsto> e)" "room {256..<4194304} a 1 3899995 s2"
    using room_alloc [OF 1(5) _ _ _ _ al] by auto
  have re: "te_owner e = as_owner_id a" "te_rights e = ?r" "te_frames e = 1" "te_map_count e = 0" using e(1) by (simp_all add: ram_entry_def)
  have r2: "reachable [a] s2" by (rule reachable_step [OF r ks_alloc [OF al]])
  have uv: "user_va ?v" by (simp add: user_va_def)
  obtain R M where ok: "pt_ok [as_pml4_phys a \<mapsto> as_owner_id a] R M s1" using roomD(1) [OF 1(5)] by (rule pt_invE)
  have ok2: "pt_ok [as_pml4_phys a \<mapsto> as_owner_id a] R M s2" by (rule pt_ok_alloc [OF ok alloc_inv(1) [OF roomD(1) [OF 1(5)] al]])
  have "mmu (xm_mem s2) (as_pml4_phys a) ?v = None"
    using 1(8) uv mmu_space [OF ok _ uv, of "as_pml4_phys a"] mmu_space [OF ok2 _ uv, of "as_pml4_phys a"] by simp
  then obtain s3 where mp: "xas_map (Some a) ?v tok (XPERM_R OR XPERM_X) s2 = (XAS_OK, s3)"
    using room_map [OF e(3), of "XPERM_R OR XPERM_X" ?v e tok] e(2) re by (auto simp: legal_perms_def need_rights_def)
  have "\<exists>msg c r s''. xproc_run_ctx (Some ([a] ! 0)) (Some (xctx_init XAS_USER_BASE 0)) (Some clear_result) False [Trap (exit_frame\<lparr>f_rax := XSYS_LOG, f_rip := XAS_USER_TOP\<rparr>) 0] s3 = Some (Inr msg, c, r, s'')"
    by (rule last_page_halts [OF r2, of 0 tok s3, THEN conjunct2]) (use mp 1(3) in \<open>simp_all add: exit_frame_def xctx_init_def canonical_def\<close>)
  then have "\<exists>msg c r s''. xproc_run_ctx (Some a) (Some (xctx_init XAS_USER_BASE 0)) (Some clear_result) False [Trap (exit_frame\<lparr>f_rax := XSYS_LOG, f_rip := XAS_USER_TOP\<rparr>) 0] s3 = Some (Inr msg, c, r, s'')" by simp
  then show ?case using r2 mp by blast
qed

end
