(* ===== verification/Exfs.thy ===== *)
theory Exfs
  imports Gmap
begin

text \<open>
  Model of \<open>core/exfs/exfs.c\<close>, the copy-on-write file system over the group map. \<open>Exfs\<close> is the static
  struct \<open>V\<close>: one volume with its device, free-space map, inode table, the extent pool that all files
  share, the blocks to be released by the next commit, and the scratch buffers. A file pointer is the
  index of its inode. The sizes of the bounded tables (extent counts, pool offsets, chain lengths) are
  natural numbers: the code keeps each below the length of its table. Block numbers, lengths and byte
  offsets keep their width. A C string is its bytes.
\<close>

section \<open>Data\<close>

record ExfsExtent =
  ex_start :: u64
  ex_len :: u32

record ExfsFile =
  ff_used :: bool
  ff_type :: u32
  ff_size :: u64
  ff_name :: bytes
  ff_n :: nat
  ff_ext_off :: nat
  ff_ext_cap :: nat
  ff_nchain :: nat
  ff_chain :: "u64 list"
  ff_dirty :: bool

record 'd Exfs =
  v_dev :: "'d BlkDev option"
  v_spb :: u32
  v_total :: u64
  v_gen :: u64
  v_itab_start :: u64
  v_mounted :: bool
  v_broken :: bool
  v_dirty :: bool
  v_gm :: GMap
  v_hint :: u64
  v_files :: "ExfsFile list"
  v_pool :: "ExfsExtent list"
  v_pool_used :: bytes
  v_defer :: "ExfsExtent list"
  v_ndefer :: nat
  v_fresh :: "ExfsExtent list"
  v_stage :: "ExfsExtent list"
  v_nstage :: nat
  v_page :: bytes
  v_itab :: bytes

abbreviation EXFS_NAME_MAX :: nat where "EXFS_NAME_MAX \<equiv> 95"
abbreviation EXFS_INL :: nat where "EXFS_INL \<equiv> 8"
abbreviation EXFS_IND_EXT :: nat where "EXFS_IND_EXT \<equiv> 254"
abbreviation EXFS_MAX_EXT :: nat where "EXFS_MAX_EXT \<equiv> 2048"
abbreviation EXFS_MAX_CHAIN :: nat where "EXFS_MAX_CHAIN \<equiv> 16"
abbreviation EXFS_DEFER_MAX :: nat where "EXFS_DEFER_MAX \<equiv> 8192"
abbreviation EXFS_POOL_EXT :: nat where "EXFS_POOL_EXT \<equiv> 16384"
abbreviation INODE_BYTES :: nat where "INODE_BYTES \<equiv> 256"
abbreviation POOL_MIN_CAP :: nat where "POOL_MIN_CAP \<equiv> 8"
abbreviation EXFS_TYPE_FILE :: u32 where "EXFS_TYPE_FILE \<equiv> 0"
abbreviation EXFS_TYPE_DIR :: u32 where "EXFS_TYPE_DIR \<equiv> 1"

abbreviation EXFS_OK :: int where "EXFS_OK \<equiv> 0"
abbreviation EXFS_ENOENT :: int where "EXFS_ENOENT \<equiv> -1"
abbreviation EXFS_ENOSPC :: int where "EXFS_ENOSPC \<equiv> -2"
abbreviation EXFS_EIO :: int where "EXFS_EIO \<equiv> -3"
abbreviation EXFS_ENOFS :: int where "EXFS_ENOFS \<equiv> -4"
abbreviation EXFS_EEXIST :: int where "EXFS_EEXIST \<equiv> -5"
abbreviation EXFS_EINVAL :: int where "EXFS_EINVAL \<equiv> -6"
abbreviation EXFS_EBROKEN :: int where "EXFS_EBROKEN \<equiv> -7"
abbreviation EXFS_ENOMEM :: int where "EXFS_ENOMEM \<equiv> -8"
abbreviation EXFS_EISDIR :: int where "EXFS_EISDIR \<equiv> -9"
abbreviation EXFS_ENOTEMPTY :: int where "EXFS_ENOTEMPTY \<equiv> -10"
abbreviation EXFS_ENOTDIR :: int where "EXFS_ENOTDIR \<equiv> -11"

section \<open>Blocks\<close>

definition itab_area :: "u64 \<Rightarrow> u64" where
  "itab_area gen = (if gen AND 1 \<noteq> 0 then EXFS_ITAB_AREA1 else EXFS_ITAB_AREA0)"

definition blk_put :: "u64 \<Rightarrow> bytes \<Rightarrow> 'd Exfs \<Rightarrow> int \<times> 'd Exfs" where
  "blk_put b buf V =
     (let (rc, d) = blk_write (v_dev V) (b * ucast (v_spb V)) (v_spb V) (Some buf)
      in (if rc = BLK_OK then EXFS_OK else EXFS_EIO, V\<lparr>v_dev := d\<rparr>))"

definition blk_got :: "u64 \<Rightarrow> bytes \<Rightarrow> 'd Exfs \<Rightarrow> int \<times> bytes \<times> 'd Exfs" where
  "blk_got b buf V =
     (let (rc, buf, d) = blk_read (v_dev V) (b * ucast (v_spb V)) (v_spb V) (Some buf)
      in (if rc = BLK_OK then EXFS_OK else EXFS_EIO, the buf, V\<lparr>v_dev := d\<rparr>))"

definition geometry :: "'d BlkDev \<Rightarrow> 'd Exfs \<Rightarrow> int \<times> 'd Exfs" where
  "geometry d V =
     (let ss = blk_sector_size (Some d) in
      if ss = 0 \<or> 4096 mod ss \<noteq> 0 then (EXFS_ENOFS, V)
      else (let V = V\<lparr>v_dev := Some d, v_spb := 4096 div ss, v_total := (blk_sector_count (Some d) * ucast ss) div 4096\<rparr>
            in (if v_total V < EXFS_DATA_START + 16 \<or> v_total V > EXFS_MAX_BLOCKS then EXFS_ENOFS else EXFS_OK, V)))"

section \<open>Free space\<close>

definition take_extent :: "u64 \<Rightarrow> ExfsExtent \<Rightarrow> 'd Exfs \<Rightarrow> u32 \<times> ExfsExtent \<times> 'd Exfs" where
  "take_extent need e V =
     (let (rc, start, len, m, D) = gmap_take (v_gm V) (the (v_dev V)) (v_hint V) need;
          V = V\<lparr>v_gm := m, v_dev := Some D\<rparr>
      in if rc \<noteq> GMAP_OK then (0, e, V)
         else (ucast len, \<lparr>ex_start = start, ex_len = ucast len\<rparr>, V\<lparr>v_hint := start + len\<rparr>))"

definition release_ext :: "ExfsExtent \<Rightarrow> 'd Exfs \<Rightarrow> int \<times> 'd Exfs" where
  "release_ext e V =
     (let (rc, m, D) = gmap_release (v_gm V) (the (v_dev V)) (ex_start e) (ucast (ex_len e)) in (rc, V\<lparr>v_gm := m, v_dev := Some D\<rparr>))"

definition release_fresh :: "nat \<Rightarrow> 'd Exfs \<Rightarrow> 'd Exfs" where
  "release_fresh n V = fold (\<lambda>i V. snd (release_ext (v_fresh V ! i) V)) [0..<n] V"

section \<open>The extent pool\<close>

definition upd_file :: "nat \<Rightarrow> (ExfsFile \<Rightarrow> ExfsFile) \<Rightarrow> 'd Exfs \<Rightarrow> 'd Exfs" where
  "upd_file i g V = V\<lparr>v_files := (v_files V)[i := g (v_files V ! i)]\<rparr>"

definition FEXT :: "'d Exfs \<Rightarrow> ExfsFile \<Rightarrow> nat \<Rightarrow> ExfsExtent" where
  "FEXT V f k = v_pool V ! (ff_ext_off f + k)"

definition pool_is_used :: "'d Exfs \<Rightarrow> nat \<Rightarrow> bool" where
  "pool_is_used V i = bit_of (v_pool_used V) i"

definition pool_mark :: "nat \<Rightarrow> nat \<Rightarrow> bool \<Rightarrow> 'd Exfs \<Rightarrow> 'd Exfs" where
  "pool_mark off cap on V = V\<lparr>v_pool_used := fold (\<lambda>i b. bit_put b (off + i) on) [0..<cap] (v_pool_used V)\<rparr>"

fun pool_scan :: "bytes \<Rightarrow> nat \<Rightarrow> nat \<Rightarrow> nat list \<Rightarrow> nat option" where
  "pool_scan used cap run [] = None"
| "pool_scan used cap run (i # is) =
     (if bit_of used i then pool_scan used cap 0 is
      else if Suc run = cap then Some (i + 1 - cap)
      else pool_scan used cap (Suc run) is)"

definition pool_find :: "nat \<Rightarrow> 'd Exfs \<Rightarrow> nat option" where
  "pool_find cap V = pool_scan (v_pool_used V) cap 0 [0..<EXFS_POOL_EXT]"

text \<open>The insertion sort of \<open>pool_compact\<close>, on the sorted prefix with its last element first.\<close>

fun order_insert :: "(nat \<Rightarrow> nat) \<Rightarrow> nat \<Rightarrow> nat list \<Rightarrow> nat list" where
  "order_insert key x [] = [x]"
| "order_insert key x (y # ys) = (if key y > key x then y # order_insert key x ys else x # y # ys)"

definition compact_order :: "'d Exfs \<Rightarrow> nat list" where
  "compact_order V =
     rev (fold (order_insert (\<lambda>i. ff_ext_off (v_files V ! i)))
            (filter (\<lambda>i. ff_used (v_files V ! i) \<and> ff_ext_cap (v_files V ! i) > 0) [0..<EXFS_INODES]) [])"

definition compact_one :: "nat \<Rightarrow> nat \<times> 'd Exfs \<Rightarrow> nat \<times> 'd Exfs" where
  "compact_one i = (\<lambda>(cursor, V).
     (let f = v_files V ! i;
          V = (if ff_ext_off f \<noteq> cursor
               then upd_file i (\<lambda>f. f\<lparr>ff_ext_off := cursor\<rparr>)
                      (V\<lparr>v_pool := fold (\<lambda>k p. p[cursor + k := p ! (ff_ext_off f + k)]) [0..<ff_n f] (v_pool V)\<rparr>)
               else V)
      in (cursor + ff_ext_cap f, pool_mark cursor (ff_ext_cap f) True V)))"

definition pool_compact :: "'d Exfs \<Rightarrow> 'd Exfs" where
  "pool_compact V =
     snd (fold compact_one (compact_order V) (0, V\<lparr>v_pool_used := fill_bytes (v_pool_used V) 0 (EXFS_POOL_EXT div 8) 0\<rparr>))"

text \<open>Doubling from a positive start; the second conjunct only makes the definition total.\<close>

function slice_grow :: "nat \<Rightarrow> nat \<Rightarrow> nat" where
  "slice_grow c n = (if c < n \<and> 0 < c then slice_grow (2 * c) n else c)"
  by pat_completeness auto
termination by (relation "measure (\<lambda>(c, n). n - c)") auto

declare slice_grow.simps [simp del]

definition slice_cap_for :: "nat \<Rightarrow> nat" where
  "slice_cap_for n = slice_grow POOL_MIN_CAP n"

definition pool_reserve :: "nat \<Rightarrow> 'd Exfs \<Rightarrow> (nat \<times> nat) option \<times> 'd Exfs" where
  "pool_reserve n V =
     (if n = 0 then (Some (0, 0), V)
      else (let cap = slice_cap_for n in
        case pool_find cap V of
          Some off \<Rightarrow> (Some (off, cap), pool_mark off cap True V)
        | None \<Rightarrow> (let V = pool_compact V in
            case pool_find cap V of
              Some off \<Rightarrow> (Some (off, cap), pool_mark off cap True V)
            | None \<Rightarrow> (None, V))))"

definition pool_release :: "nat \<Rightarrow> nat \<Rightarrow> 'd Exfs \<Rightarrow> 'd Exfs" where
  "pool_release off cap V = pool_mark off cap False V"

section \<open>The inode table\<close>

definition put_ext :: "nat \<Rightarrow> ExfsExtent \<Rightarrow> bytes \<Rightarrow> bytes" where
  "put_ext off e p = put32 (put64 p off (ex_start e)) (off + 8) (ex_len e)"

definition get_ext :: "bytes \<Rightarrow> nat \<Rightarrow> ExfsExtent" where
  "get_ext p off = \<lparr>ex_start = get64 p off, ex_len = get32 p (off + 8)\<rparr>"

definition inode_encode :: "'d Exfs \<Rightarrow> ExfsFile \<Rightarrow> bytes" where
  "inode_encode V f =
     (let r = replicate INODE_BYTES 0;
          r = put32 r 0 (if ff_used f then 1 else 0);
          r = put32 r 4 (ff_type f);
          r = put64 r 8 (ff_size f);
          r = copy_bytes r 16 (ff_name f) 0 (EXFS_NAME_MAX + 1);
          r = put64 r 112 (if ff_nchain f \<noteq> 0 then ff_chain f ! 0 else 0);
          ninl = (if ff_n f < EXFS_INL then ff_n f else EXFS_INL);
          r = put32 r 120 (of_nat ninl)
      in fold (\<lambda>i r. put_ext (128 + i * 16) (FEXT V f i) r) [0..<ninl] r)"

definition stage_exts :: "bytes \<Rightarrow> nat \<Rightarrow> nat \<Rightarrow> ExfsFile \<times> 'd Exfs \<Rightarrow> ExfsFile \<times> 'd Exfs" where
  "stage_exts p off cnt fV = fold (\<lambda>j (f, V). (f\<lparr>ff_n := Suc (ff_n f)\<rparr>, V\<lparr>v_stage := (v_stage V)[ff_n f := get_ext p (off + j * 16)]\<rparr>)) [0..<cnt] fV"

function decode_chain :: "u64 \<Rightarrow> ExfsFile \<Rightarrow> 'd Exfs \<Rightarrow> int \<times> ExfsFile \<times> 'd Exfs" where
  "decode_chain blk f V =
     (if blk = 0 then (EXFS_OK, f, V)
      else if ff_nchain f \<ge> EXFS_MAX_CHAIN then (EXFS_ENOFS, f, V)
      else (let (rc, page, V) = blk_got blk (v_page V) V; V = V\<lparr>v_page := page\<rparr> in
        if rc \<noteq> EXFS_OK then (EXFS_EIO, f, V)
        else (let next = get64 page 0; cnt = unat (get32 page 8) in
          if cnt > EXFS_IND_EXT \<or> ff_n f + cnt > EXFS_MAX_EXT then (EXFS_ENOFS, f, V)
          else (let n = ff_nchain f; (g, V) = stage_exts page 16 cnt (f, V)
                in decode_chain next (g\<lparr>ff_chain := (ff_chain g)[n := blk], ff_nchain := Suc n\<rparr>) V))))"
  by pat_completeness auto
termination by (relation "measure (\<lambda>(blk, f, V). EXFS_MAX_CHAIN - ff_nchain f)") auto

declare decode_chain.simps [simp del]

definition inode_decode :: "bytes \<Rightarrow> ExfsFile \<Rightarrow> 'd Exfs \<Rightarrow> int \<times> ExfsFile \<times> 'd Exfs" where
  "inode_decode r f V =
     (let f = f\<lparr>ff_used := get32 r 0 \<noteq> 0, ff_type := get32 r 4, ff_size := get64 r 8,
                ff_name := (copy_bytes (ff_name f) 0 r 16 (EXFS_NAME_MAX + 1))[EXFS_NAME_MAX := NUL],
                ff_dirty := False, ff_nchain := 0, ff_n := 0, ff_ext_off := 0, ff_ext_cap := 0\<rparr>
      in if \<not> ff_used f then (EXFS_OK, f, V)
         else (let ninl = get32 r 120 in
           if ninl > 8 then (EXFS_ENOFS, f, V)
           else (let (f, V) = stage_exts r 128 (unat ninl) (f, V) in decode_chain (get64 r 112) f V)))"

section \<open>Deferred release\<close>

definition defer_push :: "u64 \<Rightarrow> u32 \<Rightarrow> 'd Exfs \<Rightarrow> int \<times> 'd Exfs" where
  "defer_push start len V =
     (if v_ndefer V \<ge> EXFS_DEFER_MAX then (EXFS_ENOMEM, V)
      else (EXFS_OK, V\<lparr>v_defer := (v_defer V)[v_ndefer V := \<lparr>ex_start = start, ex_len = len\<rparr>], v_ndefer := Suc (v_ndefer V)\<rparr>))"

definition defer_chain :: "nat \<Rightarrow> 'd Exfs \<Rightarrow> 'd Exfs" where
  "defer_chain i V = fold (\<lambda>k V. snd (defer_push (ff_chain (v_files V ! i) ! k) 1 V)) [0..<ff_nchain (v_files V ! i)] V"

definition defer_file :: "nat \<Rightarrow> 'd Exfs \<Rightarrow> int \<times> 'd Exfs" where
  "defer_file i V =
     (let f = v_files V ! i; need = ff_n f + ff_nchain f in
      if v_ndefer V + need > EXFS_DEFER_MAX then (EXFS_ENOMEM, V)
      else (let V = fold (\<lambda>k V. snd (defer_push (ex_start (FEXT V f k)) (ex_len (FEXT V f k)) V)) [0..<ff_n f] V;
                V = defer_chain i V;
                V = pool_release (ff_ext_off f) (ff_ext_cap f) V
            in (EXFS_OK, upd_file i (\<lambda>f. f\<lparr>ff_ext_off := 0, ff_ext_cap := 0, ff_n := 0, ff_nchain := 0\<rparr>) V)))"

fun apply_loop :: "nat list \<Rightarrow> 'd Exfs \<Rightarrow> int \<times> 'd Exfs" where
  "apply_loop [] V = (EXFS_OK, V\<lparr>v_ndefer := 0\<rparr>)"
| "apply_loop (i # is) V =
     (let (rc, V) = release_ext (v_defer V ! i) V in if rc \<noteq> GMAP_OK then (EXFS_EIO, V) else apply_loop is V)"

definition apply_deferred :: "'d Exfs \<Rightarrow> int \<times> 'd Exfs" where
  "apply_deferred V = apply_loop [0..<v_ndefer V] V"

section \<open>Names\<close>

definition find_file :: "bytes \<Rightarrow> 'd Exfs \<Rightarrow> nat option" where
  "find_file name V = find (\<lambda>i. ff_used (v_files V ! i) \<and> str_eq (ff_name (v_files V ! i)) name) [0..<EXFS_INODES]"

definition name_ok :: "bytes \<Rightarrow> bool" where
  "name_ok name \<longleftrightarrow> at name 0 = BAR \<and> \<not> (slen name < 2 \<or> slen name > EXFS_NAME_MAX) \<and> at name (slen name - 1) \<noteq> BAR \<and>
     \<not> list_ex (\<lambda>i. at name i = BAR \<and> at name (i - 1) = BAR) [1..<slen name]"

definition is_root :: "bytes \<Rightarrow> bool" where
  "is_root name \<longleftrightarrow> at name 0 = BAR \<and> at name 1 = NUL"

definition last_bar :: "bytes \<Rightarrow> nat option" where
  "last_bar name = fold (\<lambda>i l. if at name i = BAR then Some i else l) [0..<slen name] None"

text \<open>Only called on names that \<open>name_ok\<close> accepts, which hold a bar.\<close>

definition parent_ok :: "bytes \<Rightarrow> 'd Exfs \<Rightarrow> bool" where
  "parent_ok name V =
     (case last_bar name of
        None \<Rightarrow> False
      | Some l \<Rightarrow> if l = 0 then True
                  else (case find_file (take l name @ [NUL]) V of
                     None \<Rightarrow> False
                   | Some i \<Rightarrow> ff_type (v_files V ! i) = EXFS_TYPE_DIR))"

definition make_node :: "bytes \<Rightarrow> u32 \<Rightarrow> 'd Exfs \<Rightarrow> int \<times> 'd Exfs" where
  "make_node name ty V =
     (case find (\<lambda>i. \<not> ff_used (v_files V ! i)) [0..<EXFS_INODES] of
        None \<Rightarrow> (EXFS_ENOSPC, V)
      | Some i \<Rightarrow> (EXFS_OK, (upd_file i (\<lambda>f. f\<lparr>ff_used := True, ff_type := ty, ff_size := 0, ff_n := 0, ff_ext_off := 0, ff_ext_cap := 0,
                     ff_nchain := 0, ff_dirty := True, ff_name := copy_cstr (ff_name f) name\<rparr>) V)\<lparr>v_dirty := True\<rparr>))"

definition has_children :: "bytes \<Rightarrow> 'd Exfs \<Rightarrow> bool" where
  "has_children dir V =
     list_ex (\<lambda>i. ff_used (v_files V ! i) \<and> at (ff_name (v_files V ! i)) (slen dir) = BAR \<and>
        list_all (\<lambda>k. at (ff_name (v_files V ! i)) k = at dir k) [0..<slen dir]) [0..<EXFS_INODES]"

end
