(* ===== verification/Exfs_Ops.thy ===== *)
theory Exfs_Ops
  imports Exfs
begin

text \<open>
  The public operations of \<open>core/exfs/exfs.c\<close>: the commit with its six steps, the life cycle of a
  volume, the operations on names, and reading and writing content. A callback is a transformer of
  the caller's state. Loops over files and blocks are recursion over the list of their indices.
\<close>

section \<open>The commit\<close>

definition mark_broken :: "'d Exfs \<Rightarrow> 'd Exfs" where
  "mark_broken V = V\<lparr>v_broken := True\<rparr>"

definition nind_of :: "nat \<Rightarrow> nat" where
  "nind_of n = (n - EXFS_INL + EXFS_IND_EXT - 1) div EXFS_IND_EXT"

text \<open>Step 0: the chain blocks that are needed, or nothing where a file would need too many.\<close>

fun commit_need :: "ExfsFile list \<Rightarrow> u64 \<Rightarrow> u64 option" where
  "commit_need [] need = Some need"
| "commit_need (f # fs) need =
     (if \<not> ff_used f \<or> \<not> ff_dirty f \<or> ff_n f \<le> EXFS_INL then commit_need fs need
      else if nind_of (ff_n f) > EXFS_MAX_CHAIN then None
      else commit_need fs (need + of_nat (nind_of (ff_n f))))"

fun chain_take :: "nat \<Rightarrow> nat list \<Rightarrow> 'd Exfs \<Rightarrow> int \<times> 'd Exfs" where
  "chain_take i [] V = (EXFS_OK, V)"
| "chain_take i (k # ks) V =
     (let (l, e, V) = take_extent 1 \<lparr>ex_start = 0, ex_len = 0\<rparr> V in
      if l \<noteq> 1 then (EXFS_ENOSPC, mark_broken V)
      else chain_take i ks (upd_file i (\<lambda>f. f\<lparr>ff_chain := (ff_chain f)[k := ex_start e]\<rparr>) V))"

definition chain_page :: "'d Exfs \<Rightarrow> ExfsFile \<Rightarrow> nat \<Rightarrow> nat \<Rightarrow> bytes" where
  "chain_page V f nind k =
     (let first = EXFS_INL + k * EXFS_IND_EXT;
          cnt = (if ff_n f - first > EXFS_IND_EXT then EXFS_IND_EXT else ff_n f - first);
          p = fill_bytes (v_page V) 0 EXFS_BLOCK 0;
          p = put64 p 0 (if k + 1 < nind then ff_chain f ! (k + 1) else 0);
          p = put32 p 8 (of_nat cnt)
      in fold (\<lambda>j p. put_ext (16 + j * 16) (FEXT V f (first + j)) p) [0..<cnt] p)"

fun chain_write :: "nat \<Rightarrow> nat \<Rightarrow> nat list \<Rightarrow> 'd Exfs \<Rightarrow> int \<times> 'd Exfs" where
  "chain_write i nind [] V = (EXFS_OK, V)"
| "chain_write i nind (k # ks) V =
     (let p = chain_page V (v_files V ! i) nind k;
          (rc, V) = blk_put (ff_chain (v_files V ! i) ! k) p (V\<lparr>v_page := p\<rparr>)
      in if rc \<noteq> EXFS_OK then (EXFS_EIO, mark_broken V) else chain_write i nind ks V)"

text \<open>Step 1, over the files.\<close>

fun commit_chains :: "nat list \<Rightarrow> 'd Exfs \<Rightarrow> int \<times> 'd Exfs" where
  "commit_chains [] V = (EXFS_OK, V)"
| "commit_chains (i # is) V =
     (if \<not> ff_used (v_files V ! i) \<or> \<not> ff_dirty (v_files V ! i) then commit_chains is V
      else (let n = ff_n (v_files V ! i); nind = (if n > EXFS_INL then nind_of n else 0);
                (rc, V) = chain_take i [0..<nind] V in
        if rc \<noteq> EXFS_OK then (rc, V)
        else (let V = upd_file i (\<lambda>f. f\<lparr>ff_nchain := nind\<rparr>) V; (rc, V) = chain_write i nind [0..<nind] V in
          if rc \<noteq> EXFS_OK then (rc, V) else commit_chains is V)))"

text \<open>Step 4.\<close>

definition itab_fill :: "'d Exfs \<Rightarrow> 'd Exfs" where
  "itab_fill V = V\<lparr>v_itab := fold (\<lambda>i t. copy_bytes t (i * INODE_BYTES) (inode_encode V (v_files V ! i)) 0 INODE_BYTES) [0..<EXFS_INODES] (v_itab V)\<rparr>"

fun itab_write :: "u64 \<Rightarrow> nat list \<Rightarrow> 'd Exfs \<Rightarrow> int \<times> 'd Exfs" where
  "itab_write area [] V = (EXFS_OK, V)"
| "itab_write area (b # bs) V =
     (let (rc, V) = blk_put (area + of_nat b) (take EXFS_BLOCK (drop (b * EXFS_BLOCK) (v_itab V))) V
      in if rc \<noteq> EXFS_OK then (EXFS_EIO, mark_broken V) else itab_write area bs V)"

definition commit_fields :: "'d Exfs \<Rightarrow> u64 \<Rightarrow> SbFields" where
  "commit_fields V gen =
     (case gmap_export (v_gm V) (replicate SB_MAX_GROUPS 0) (replicate SB_MAX_GROUPS 0) of (slot, free) \<Rightarrow>
        \<lparr>sb_gen = gen, sb_itab = itab_area gen, sb_nitab = 8, sb_ninodes = 128, sb_total = v_total V,
         sb_ngroups = gm_ngroups (v_gm V), sb_slot = slot, sb_free = free\<rparr>)"

text \<open>Steps 5 and 6.\<close>

definition commit_sb :: "u64 \<Rightarrow> 'd Exfs \<Rightarrow> int \<times> 'd Exfs" where
  "commit_sb gen V =
     (let (rc, page) = sb_encode (v_page V) (commit_fields V gen); V = V\<lparr>v_page := page\<rparr> in
      if rc \<noteq> SB_OK then (EXFS_EIO, mark_broken V)
      else (let (rc, V) = blk_put (gen AND 1) (v_page V) V in
        if rc \<noteq> EXFS_OK then (EXFS_EIO, mark_broken V)
        else (EXFS_OK, V\<lparr>v_gm := gmap_commit (v_gm V), v_gen := gen, v_itab_start := itab_area gen,
                v_files := map (\<lambda>f. f\<lparr>ff_dirty := False\<rparr>) (v_files V), v_dirty := False\<rparr>)))"

definition gm_flush :: "'d Exfs \<Rightarrow> int \<times> 'd Exfs" where
  "gm_flush V = (let (rc, m, D) = gmap_flush (v_gm V) (the (v_dev V)) in (rc, V\<lparr>v_gm := m, v_dev := Some D\<rparr>))"

definition exfs_commit :: "'d Exfs \<Rightarrow> int \<times> 'd Exfs" where
  "exfs_commit V =
     (if \<not> v_mounted V then (EXFS_ENOFS, V)
      else if v_broken V then (EXFS_EBROKEN, V)
      else if \<not> v_dirty V then (EXFS_OK, V)
      else (case commit_need (v_files V) 0 of
        None \<Rightarrow> (EXFS_ENOMEM, V)
      | Some need \<Rightarrow>
        if need > gmap_free_total (v_gm V) then (EXFS_ENOSPC, V)
        else (let (rc, V) = commit_chains [0..<EXFS_INODES] V in
          if rc \<noteq> EXFS_OK then (rc, V)
          else (let (rc, V) = apply_deferred V in
            if rc \<noteq> EXFS_OK then (EXFS_EIO, mark_broken V)
            else (let (rc, V) = gm_flush V in
              if rc \<noteq> GMAP_OK then (EXFS_EIO, mark_broken V)
              else (let gen = v_gen V + 1;
                        (rc, V) = itab_write (itab_area gen) [0..<EXFS_ITAB_BLOCKS] (itab_fill V) in
                if rc \<noteq> EXFS_OK then (rc, V) else commit_sb gen V))))))"

section \<open>Life cycle\<close>

definition exfs_format :: "'d BlkDev option \<Rightarrow> bytes \<Rightarrow> 'd Exfs \<Rightarrow> int \<times> 'd Exfs" where
  "exfs_format d scratch V =
     (case d of None \<Rightarrow> (EXFS_ENOFS, V)
      | Some D \<Rightarrow>
        (let (rc, V) = geometry D V in
         if rc \<noteq> EXFS_OK then (EXFS_ENOFS, V)
         else (let (rc, m) = gmap_init (Some (v_gm V)) (Some D) (v_total V) GMAP_GROUP_MAX; V = V\<lparr>v_gm := the m\<rparr> in
           if rc \<noteq> GMAP_OK then (EXFS_ENOFS, V)
           else (let (rc, m, D) = gmap_format (v_gm V) D scratch; V = V\<lparr>v_gm := m, v_dev := Some D\<rparr> in
             if rc \<noteq> GMAP_OK then (EXFS_EIO, V)
             else (let V = V\<lparr>v_files := map (\<lambda>f. f\<lparr>ff_used := False, ff_ext_off := 0, ff_ext_cap := 0\<rparr>) (v_files V),
                         v_pool_used := fill_bytes (v_pool_used V) 0 (EXFS_POOL_EXT div 8) 0, v_ndefer := 0, v_gen := 0, v_itab_start := 0,
                         v_hint := EXFS_DATA_START, v_broken := False, v_mounted := True, v_dirty := True\<rparr>;
                       V = snd (make_node (cs ''|user'') EXFS_TYPE_DIR V);
                       V = snd (make_node (cs ''|root'') EXFS_TYPE_DIR V);
                       V = snd (make_node (cs ''|bin'') EXFS_TYPE_DIR V);
                       V = snd (make_node (cs ''|boot'') EXFS_TYPE_DIR V)
                   in exfs_commit V)))))"

definition sb0 :: SbFields where
  "sb0 = \<lparr>sb_gen = 0, sb_itab = 0, sb_nitab = 0, sb_ninodes = 0, sb_total = 0, sb_ngroups = 0,
     sb_slot = replicate SB_MAX_GROUPS 0, sb_free = replicate SB_MAX_GROUPS 0\<rparr>"

text \<open>The loop over the two superblocks.\<close>

fun sb_best :: "nat list \<Rightarrow> SbFields option \<Rightarrow> 'd Exfs \<Rightarrow> SbFields option \<times> 'd Exfs" where
  "sb_best [] best V = (best, V)"
| "sb_best (s # ss) best V =
     (let (rc, page, V) = blk_got (of_nat s) (v_page V) V; V = V\<lparr>v_page := page\<rparr> in
      if rc \<noteq> EXFS_OK then sb_best ss best V
      else (let (rc, f) = sb_decode page sb0 in
        if rc \<noteq> SB_OK then sb_best ss best V
        else sb_best ss (if best = None \<or> sb_gen f > sb_gen (the best) then Some f else best) V))"

fun itab_read :: "u64 \<Rightarrow> nat list \<Rightarrow> 'd Exfs \<Rightarrow> int \<times> 'd Exfs" where
  "itab_read area [] V = (EXFS_OK, V)"
| "itab_read area (b # bs) V =
     (let (rc, buf, V) = blk_got (area + of_nat b) (take EXFS_BLOCK (drop (b * EXFS_BLOCK) (v_itab V))) V;
          V = V\<lparr>v_itab := copy_bytes (v_itab V) (b * EXFS_BLOCK) buf 0 EXFS_BLOCK\<rparr>
      in if rc \<noteq> EXFS_OK then (EXFS_EIO, V) else itab_read area bs V)"

definition extents_ok :: "'d Exfs \<Rightarrow> ExfsFile \<Rightarrow> bool" where
  "extents_ok V f \<longleftrightarrow>
     list_all (\<lambda>k. \<not> (ff_chain f ! k < EXFS_DATA_START \<or> ff_chain f ! k \<ge> v_total V)) [0..<ff_nchain f] \<and>
     list_all (\<lambda>k. ex_len (FEXT V f k) \<noteq> 0 \<and> \<not> ex_start (FEXT V f k) < EXFS_DATA_START \<and>
        \<not> ex_start (FEXT V f k) + ucast (ex_len (FEXT V f k)) > v_total V) [0..<ff_n f]"

fun mount_files :: "nat list \<Rightarrow> 'd Exfs \<Rightarrow> int \<times> 'd Exfs" where
  "mount_files [] V = (EXFS_OK, V)"
| "mount_files (i # is) V =
     (let (rc, f, V) = inode_decode (take INODE_BYTES (drop (i * INODE_BYTES) (v_itab V))) (v_files V ! i) V;
          V = upd_file i (\<lambda>_. f) V in
      if rc \<noteq> EXFS_OK then (EXFS_ENOFS, V)
      else if \<not> ff_used f then mount_files is V
      else (let (r, V) = pool_reserve (ff_n f) V in
        case r of
          None \<Rightarrow> (EXFS_ENOMEM, V)
        | Some (roff, rcap) \<Rightarrow>
            (let V = V\<lparr>v_pool := fold (\<lambda>k p. p[roff + k := v_stage V ! k]) [0..<ff_n f] (v_pool V)\<rparr>;
                 V = upd_file i (\<lambda>f. f\<lparr>ff_ext_off := roff, ff_ext_cap := rcap\<rparr>) V in
             if \<not> extents_ok V (v_files V ! i) then (EXFS_ENOFS, V) else mount_files is V)))"

definition exfs_mount :: "'d BlkDev option \<Rightarrow> 'd Exfs \<Rightarrow> int \<times> 'd Exfs" where
  "exfs_mount d V =
     (let V = V\<lparr>v_mounted := False\<rparr> in
      case d of None \<Rightarrow> (EXFS_ENOFS, V)
      | Some D \<Rightarrow>
        (let (rc, V) = geometry D V in
         if rc \<noteq> EXFS_OK then (EXFS_ENOFS, V)
         else (let (rc, m) = gmap_init (Some (v_gm V)) (Some D) (v_total V) GMAP_GROUP_MAX; V = V\<lparr>v_gm := the m\<rparr> in
           if rc \<noteq> GMAP_OK then (EXFS_ENOFS, V)
           else (let (best, V) = sb_best [0..<2] None V in
             case best of None \<Rightarrow> (EXFS_ENOFS, V)
             | Some best \<Rightarrow>
               if sb_total best \<noteq> v_total V \<or> sb_ngroups best \<noteq> gm_ngroups (v_gm V) then (EXFS_ENOFS, V)
               else (let (rc, V) = itab_read (sb_itab best) [0..<EXFS_ITAB_BLOCKS] V in
                 if rc \<noteq> EXFS_OK then (EXFS_EIO, V)
                 else (let V = V\<lparr>v_gm := gmap_import (v_gm V) (sb_slot best) (sb_free best),
                           v_pool_used := fill_bytes (v_pool_used V) 0 (EXFS_POOL_EXT div 8) 0,
                           v_files := map (\<lambda>f. f\<lparr>ff_ext_off := 0, ff_ext_cap := 0\<rparr>) (v_files V)\<rparr>;
                           (rc, V) = mount_files [0..<EXFS_INODES] V in
                   if rc \<noteq> EXFS_OK then (rc, V)
                   else (EXFS_OK, V\<lparr>v_gen := sb_gen best, v_itab_start := sb_itab best, v_ndefer := 0, v_hint := EXFS_DATA_START,
                           v_broken := False, v_dirty := False, v_mounted := True\<rparr>)))))))"

definition exfs_unmount :: "'d Exfs \<Rightarrow> int \<times> 'd Exfs" where
  "exfs_unmount V =
     (if \<not> v_mounted V then (EXFS_ENOFS, V)
      else (let (rc, V) = exfs_commit V in if rc \<noteq> EXFS_OK then (rc, V) else (EXFS_OK, V\<lparr>v_mounted := False\<rparr>)))"

definition exfs_is_mounted :: "'d Exfs \<Rightarrow> bool" where
  "exfs_is_mounted V \<longleftrightarrow> v_mounted V \<and> \<not> v_broken V"

definition exfs_is_used :: "u64 \<Rightarrow> 'd Exfs \<Rightarrow> int \<times> 'd Exfs" where
  "exfs_is_used block V =
     (if \<not> v_mounted V then (EXFS_ENOFS, V)
      else (let (rc, m, D) = gmap_is_used (v_gm V) (the (v_dev V)) block in (rc, V\<lparr>v_gm := m, v_dev := Some D\<rparr>)))"

section \<open>Operations on names\<close>

definition add_node :: "bytes \<Rightarrow> u32 \<Rightarrow> 'd Exfs \<Rightarrow> int \<times> 'd Exfs" where
  "add_node name ty V =
     (if \<not> v_mounted V then (EXFS_ENOFS, V)
      else if v_broken V then (EXFS_EBROKEN, V)
      else if \<not> name_ok name then (EXFS_EINVAL, V)
      else if find_file name V \<noteq> None then (EXFS_EEXIST, V)
      else if \<not> parent_ok name V then (EXFS_ENOENT, V)
      else make_node name ty V)"

definition exfs_create :: "bytes \<Rightarrow> 'd Exfs \<Rightarrow> int \<times> 'd Exfs" where
  "exfs_create name V = add_node name EXFS_TYPE_FILE V"

definition exfs_mkdir :: "bytes \<Rightarrow> 'd Exfs \<Rightarrow> int \<times> 'd Exfs" where
  "exfs_mkdir name V = add_node name EXFS_TYPE_DIR V"

definition exfs_delete :: "bytes \<Rightarrow> 'd Exfs \<Rightarrow> int \<times> 'd Exfs" where
  "exfs_delete name V =
     (if \<not> v_mounted V then (EXFS_ENOFS, V)
      else if v_broken V then (EXFS_EBROKEN, V)
      else (case find_file name V of
        None \<Rightarrow> (EXFS_ENOENT, V)
      | Some i \<Rightarrow>
        if ff_type (v_files V ! i) = EXFS_TYPE_DIR \<and> has_children name V then (EXFS_ENOTEMPTY, V)
        else (let (rc, V) = defer_file i V in
          if rc \<noteq> EXFS_OK then (rc, V)
          else (EXFS_OK, (upd_file i (\<lambda>f. f\<lparr>ff_used := False, ff_dirty := True\<rparr>) V)\<lparr>v_dirty := True\<rparr>))))"

definition exfs_stat :: "bytes \<Rightarrow> 'd Exfs \<Rightarrow> int" where
  "exfs_stat name V =
     (if is_root name then uint EXFS_TYPE_DIR
      else (case find_file name V of None \<Rightarrow> EXFS_ENOENT | Some i \<Rightarrow> sint (ff_type (v_files V ! i))))"

definition exfs_size :: "bytes \<Rightarrow> 'd Exfs \<Rightarrow> int" where
  "exfs_size name V =
     (if \<not> v_mounted V then EXFS_ENOFS
      else (case find_file name V of
        None \<Rightarrow> EXFS_ENOENT
      | Some i \<Rightarrow> if ff_type (v_files V ! i) \<noteq> EXFS_TYPE_FILE then EXFS_EISDIR else sint (ff_size (v_files V ! i))))"

fun starts_with :: "bytes \<Rightarrow> bytes \<Rightarrow> bool" where
  "starts_with s [] = True"
| "starts_with s (p # ps) = (if p = NUL then True else if at s 0 \<noteq> p then False else starts_with (drop 1 s) ps)"

definition list_one :: "(bytes \<Rightarrow> int \<Rightarrow> 's \<Rightarrow> 's) \<Rightarrow> bytes \<Rightarrow> ExfsFile \<Rightarrow> int \<times> 's \<Rightarrow> int \<times> 's" where
  "list_one cb pre g = (\<lambda>(count, st).
     (let rest = drop (length pre) (ff_name g) in
      if \<not> ff_used g \<or> \<not> starts_with (ff_name g) pre then (count, st)
      else if at rest 0 = NUL then (count, st)
      else if BAR \<in> set (cstr rest) then (count, st)
      else (count + 1, cb rest (sint (ff_type g)) st)))"

definition exfs_list :: "bytes \<Rightarrow> (bytes \<Rightarrow> int \<Rightarrow> 's \<Rightarrow> 's) \<Rightarrow> 'd Exfs \<Rightarrow> 's \<Rightarrow> int \<times> 's" where
  "exfs_list dir cb V st =
     (if \<not> v_mounted V then (EXFS_ENOFS, st)
      else (case (if is_root dir then None else Some (find_file dir V)) of
        Some None \<Rightarrow> (EXFS_ENOENT, st)
      | r \<Rightarrow>
        if r \<noteq> None \<and> ff_type (v_files V ! the (the r)) \<noteq> EXFS_TYPE_DIR then (EXFS_EINVAL, st)
        else (let pre = (if is_root dir then [BAR] else cstr dir @ [BAR])
              in fold (\<lambda>i. list_one cb pre (v_files V ! i)) [0..<EXFS_INODES] (0, st))))"

end
