(* ===== verification/Exfs_Data.thy ===== *)
theory Exfs_Data
  imports Exfs_Ops
begin

text \<open>
  Reading and writing file content, and the read-only views, of \<open>core/exfs/exfs.c\<close>. A write takes
  fresh blocks, fills them, and only then changes the inode in memory; the old blocks go to the
  deferred list.
\<close>

section \<open>Extent lists\<close>

definition stage_add :: "u64 \<Rightarrow> u64 \<Rightarrow> 'd Exfs \<Rightarrow> int \<times> 'd Exfs" where
  "stage_add start len V =
     (let l = v_stage V ! (v_nstage V - 1) in
      if v_nstage V > 0 \<and> ex_start l + ucast (ex_len l) = start \<and> ucast (ex_len l) + len \<le> 0xFFFFFFFF
      then (EXFS_OK, V\<lparr>v_stage := (v_stage V)[v_nstage V - 1 := l\<lparr>ex_len := ex_len l + ucast len\<rparr>]\<rparr>)
      else if v_nstage V \<ge> EXFS_MAX_EXT then (EXFS_ENOMEM, V)
      else (EXFS_OK, V\<lparr>v_stage := (v_stage V)[v_nstage V := \<lparr>ex_start = start, ex_len = ucast len\<rparr>], v_nstage := Suc (v_nstage V)\<rparr>))"

text \<open>The walk over the extents with the logical position; \<open>act\<close> is \<open>stage_add\<close> in mode 0 and
  \<open>defer_push\<close> in mode 1.\<close>

fun walk_loop :: "(u64 \<Rightarrow> u64 \<Rightarrow> 'd Exfs \<Rightarrow> int \<times> 'd Exfs) \<Rightarrow> ExfsFile \<Rightarrow> u64 \<Rightarrow> u64 \<Rightarrow> u64 \<Rightarrow> nat list \<Rightarrow> 'd Exfs \<Rightarrow> int \<times> 'd Exfs" where
  "walk_loop act f lo hi lpos [] V = (EXFS_OK, V)"
| "walk_loop act f lo hi lpos (i # is) V =
     (if \<not> lpos < hi then (EXFS_OK, V)
      else (let elen = ucast (ex_len (FEXT V f i));
                a = (if lpos > lo then lpos else lo);
                b = (if lpos + elen < hi then lpos + elen else hi);
                (rc, V) = (if a < b then act (ex_start (FEXT V f i) + (a - lpos)) (b - a) V else (EXFS_OK, V))
            in if rc \<noteq> EXFS_OK then (EXFS_ENOMEM, V) else walk_loop act f lo hi (lpos + elen) is V))"

definition walk_old :: "ExfsFile \<Rightarrow> u64 \<Rightarrow> u64 \<Rightarrow> bool \<Rightarrow> 'd Exfs \<Rightarrow> int \<times> 'd Exfs" where
  "walk_old f lo hi mode V =
     walk_loop (if mode then (\<lambda>phys n. defer_push phys (ucast n)) else stage_add) f lo hi 0 [0..<ff_n f] V"

fun phys_loop :: "'d Exfs \<Rightarrow> ExfsFile \<Rightarrow> u64 \<Rightarrow> u64 \<Rightarrow> nat list \<Rightarrow> u64 option" where
  "phys_loop V f l lpos [] = None"
| "phys_loop V f l lpos (i # is) =
     (if l < lpos + ucast (ex_len (FEXT V f i)) then Some (ex_start (FEXT V f i) + (l - lpos))
      else phys_loop V f l (lpos + ucast (ex_len (FEXT V f i))) is)"

definition old_phys :: "'d Exfs \<Rightarrow> ExfsFile \<Rightarrow> u64 \<Rightarrow> u64 option" where
  "old_phys V f l = phys_loop V f l 0 [0..<ff_n f]"

section \<open>Fresh blocks\<close>

text \<open>The loop that collects blocks for a write; on failure what it took is given back.\<close>

function take_fresh :: "u64 \<Rightarrow> nat \<Rightarrow> u64 \<Rightarrow> 'd Exfs \<Rightarrow> int \<times> nat \<times> 'd Exfs" where
  "take_fresh need nf got V =
     (if \<not> got < need then (EXFS_OK, nf, V)
      else if nf \<ge> EXFS_MAX_EXT then (EXFS_ENOMEM, nf, release_fresh nf V)
      else (let (l, e, V) = take_extent (need - got) \<lparr>ex_start = 0, ex_len = 0\<rparr> V in
        if l = 0 then (EXFS_ENOSPC, nf, release_fresh nf V)
        else take_fresh need (Suc nf) (got + ucast l) (V\<lparr>v_fresh := (v_fresh V)[nf := e]\<rparr>)))"
  by pat_completeness auto
termination by (relation "measure (\<lambda>(need, nf, got, V). EXFS_MAX_EXT - nf)") auto

declare take_fresh.simps [simp del]

section \<open>Replacing the content\<close>

definition fresh_blocks :: "'d Exfs \<Rightarrow> nat \<Rightarrow> u64 list" where
  "fresh_blocks V nf =
     concat (map (\<lambda>i. map (\<lambda>k. ex_start (v_fresh V ! i) + of_nat k) [0..<unat (ex_len (v_fresh V ! i))]) [0..<nf])"

text \<open>The data loop: one block after the other, \<open>pos\<close> bytes of the buffer used, \<open>left\<close> to go.\<close>

fun write_data :: "u64 list \<Rightarrow> bytes \<Rightarrow> nat \<Rightarrow> u64 \<Rightarrow> 'd Exfs \<Rightarrow> int \<times> 'd Exfs" where
  "write_data [] src pos left V = (EXFS_OK, V)"
| "write_data (b # bs) src pos left V =
     (let n = (if left < 4096 then left else 4096);
          page = map (\<lambda>j. if j < unat n then src ! (pos + j) else 0) [0..<EXFS_BLOCK];
          (rc, V) = blk_put b page (V\<lparr>v_page := page\<rparr>)
      in if rc \<noteq> EXFS_OK then (EXFS_EIO, V) else write_data bs src (pos + unat n) (left - n) V)"

definition exfs_write :: "bytes \<Rightarrow> bytes \<Rightarrow> u64 \<Rightarrow> 'd Exfs \<Rightarrow> int \<times> 'd Exfs" where
  "exfs_write name buf len V =
     (if \<not> v_mounted V then (EXFS_ENOFS, V)
      else if v_broken V then (EXFS_EBROKEN, V)
      else (case find_file name V of
        None \<Rightarrow> (EXFS_ENOENT, V)
      | Some i \<Rightarrow>
        if ff_type (v_files V ! i) \<noteq> EXFS_TYPE_FILE then (EXFS_EISDIR, V)
        else (let need = (len + 4096 - 1) div 4096; (rc, nf, V) = take_fresh need 0 0 V in
          if rc \<noteq> EXFS_OK then (rc, V)
          else if v_ndefer V + ff_n (v_files V ! i) + ff_nchain (v_files V ! i) > EXFS_DEFER_MAX then (EXFS_ENOMEM, release_fresh nf V)
          else (let (r, V) = pool_reserve nf V in
            case r of
              None \<Rightarrow> (EXFS_ENOMEM, release_fresh nf V)
            | Some (roff, rcap) \<Rightarrow>
              (let (rc, V) = write_data (fresh_blocks V nf) buf 0 len V in
               if rc \<noteq> EXFS_OK then (EXFS_EIO, release_fresh nf (pool_release roff rcap V))
               else (let V = snd (defer_file i V);
                         V = V\<lparr>v_pool := fold (\<lambda>k p. p[roff + k := v_fresh V ! k]) [0..<nf] (v_pool V)\<rparr>;
                         V = upd_file i (\<lambda>f. f\<lparr>ff_ext_off := roff, ff_ext_cap := rcap, ff_n := nf, ff_size := len, ff_dirty := True\<rparr>) V
                     in (EXFS_OK, V\<lparr>v_dirty := True\<rparr>)))))))"

section \<open>Changing a range\<close>

definition file_blocks :: "'d Exfs \<Rightarrow> ExfsFile \<Rightarrow> u64" where
  "file_blocks V f = fold (\<lambda>i n. n + ucast (ex_len (FEXT V f i))) [0..<ff_n f] 0"

fun stage_fresh :: "nat list \<Rightarrow> 'd Exfs \<Rightarrow> int \<times> 'd Exfs" where
  "stage_fresh [] V = (EXFS_OK, V)"
| "stage_fresh (i # is) V =
     (let (rc, V) = stage_add (ex_start (v_fresh V ! i)) (ucast (ex_len (v_fresh V ! i))) V
      in if rc \<noteq> EXFS_OK then (EXFS_ENOMEM, V) else stage_fresh is V)"

text \<open>The new list: old blocks before \<open>W0\<close>, the fresh runs, old blocks after \<open>L1\<close>.\<close>

definition build_stage :: "ExfsFile \<Rightarrow> nat \<Rightarrow> u64 \<Rightarrow> u64 \<Rightarrow> u64 \<Rightarrow> 'd Exfs \<Rightarrow> int \<times> 'd Exfs" where
  "build_stage f nf W0 L1 oldb V =
     (let (rc, V) = walk_old f 0 W0 False (V\<lparr>v_nstage := 0\<rparr>) in
      if rc \<noteq> EXFS_OK then (EXFS_ENOMEM, V)
      else (let (rc, V) = stage_fresh [0..<nf] V in
        if rc \<noteq> EXFS_OK then (EXFS_ENOMEM, V)
        else (let (rc, V) = walk_old f (L1 + 1) oldb False V in (if rc \<noteq> EXFS_OK then EXFS_ENOMEM else EXFS_OK, V))))"

text \<open>The page for logical block \<open>l\<close>: the old bytes below the old size unless the block is replaced
  whole, then the bytes of the buffer that fall into it.\<close>

definition range_page :: "ExfsFile \<Rightarrow> u64 \<Rightarrow> u64 \<Rightarrow> bytes \<Rightarrow> u64 \<Rightarrow> u64 \<Rightarrow> 'd Exfs \<Rightarrow> int \<times> 'd Exfs" where
  "range_page f off len src oldb l V =
     (let bs = l * 4096; be = bs + 4096; end = off + len;
          whole = (off \<le> bs \<and> end \<ge> be);
          (rc, V) =
            (if \<not> whole \<and> l < oldb
             then (case old_phys V f l of
                     None \<Rightarrow> (EXFS_EIO, V)
                   | Some op \<Rightarrow>
                     (let (rc, page, V) = blk_got op (v_page V) V; V = V\<lparr>v_page := page\<rparr> in
                      if rc \<noteq> EXFS_OK then (EXFS_EIO, V)
                      else (let zero_from = (if ff_size f > bs then ff_size f - bs else 0)
                            in (EXFS_OK, V\<lparr>v_page := fill_bytes (v_page V) (unat zero_from) (EXFS_BLOCK - unat zero_from) 0\<rparr>))))
             else (EXFS_OK, V\<lparr>v_page := fill_bytes (v_page V) 0 EXFS_BLOCK 0\<rparr>))
      in if rc \<noteq> EXFS_OK then (EXFS_EIO, V)
         else (let a = (if off > bs then off else bs); z = (if end < be then end else be)
               in (EXFS_OK, V\<lparr>v_page := copy_bytes (v_page V) (unat (a - bs)) src (unat (a - off)) (unat z - unat a)\<rparr>)))"

fun range_data :: "ExfsFile \<Rightarrow> u64 \<Rightarrow> u64 \<Rightarrow> bytes \<Rightarrow> u64 \<Rightarrow> nat list \<Rightarrow> nat \<Rightarrow> u64 \<Rightarrow> 'd Exfs \<Rightarrow> int \<times> 'd Exfs" where
  "range_data f off len src oldb [] fi fk V = (EXFS_OK, V)"
| "range_data f off len src oldb (l # ls) fi fk V =
     (let (rc, V) = range_page f off len src oldb (of_nat l) V in
      if rc \<noteq> EXFS_OK then (EXFS_EIO, V)
      else (let (rc, V) = blk_put (ex_start (v_fresh V ! fi) + fk) (v_page V) V in
        if rc \<noteq> EXFS_OK then (EXFS_EIO, V)
        else if fk + 1 = ucast (ex_len (v_fresh V ! fi)) then range_data f off len src oldb ls (Suc fi) 0 V
        else range_data f off len src oldb ls fi (fk + 1) V))"

definition range_finish :: "nat \<Rightarrow> u64 \<Rightarrow> u64 \<Rightarrow> u64 \<Rightarrow> nat \<Rightarrow> nat \<Rightarrow> u64 \<Rightarrow> 'd Exfs \<Rightarrow> 'd Exfs" where
  "range_finish i W0 L1 oldb roff rcap end V =
     (let f = v_files V ! i;
          V = snd (walk_old f W0 (if L1 + 1 < oldb then L1 + 1 else oldb) True V);
          V = defer_chain i V;
          V = pool_release (ff_ext_off f) (ff_ext_cap f) V;
          V = V\<lparr>v_pool := fold (\<lambda>k p. p[roff + k := v_stage V ! k]) [0..<v_nstage V] (v_pool V)\<rparr>;
          V = upd_file i (\<lambda>f. f\<lparr>ff_ext_off := roff, ff_ext_cap := rcap, ff_nchain := 0, ff_n := v_nstage V,
                 ff_size := (if end > ff_size f then end else ff_size f), ff_dirty := True\<rparr>) V
      in V\<lparr>v_dirty := True\<rparr>)"

definition exfs_write_at :: "bytes \<Rightarrow> u64 \<Rightarrow> bytes \<Rightarrow> u64 \<Rightarrow> 'd Exfs \<Rightarrow> int \<times> 'd Exfs" where
  "exfs_write_at name off buf len V =
     (if \<not> v_mounted V then (EXFS_ENOFS, V)
      else if v_broken V then (EXFS_EBROKEN, V)
      else (case find_file name V of
        None \<Rightarrow> (EXFS_ENOENT, V)
      | Some i \<Rightarrow>
        if ff_type (v_files V ! i) \<noteq> EXFS_TYPE_FILE then (EXFS_EISDIR, V)
        else if len = 0 then (EXFS_OK, V)
        else if off + len < off then (EXFS_EINVAL, V)
        else (let oldb = file_blocks V (v_files V ! i); L0 = off div 4096; L1 = (off + len - 1) div 4096;
                  W0 = (if L0 < oldb then L0 else oldb); nfresh = L1 - W0 + 1 in
          if nfresh > gmap_free_total (v_gm V) then (EXFS_ENOSPC, V)
          else if v_ndefer V + ff_n (v_files V ! i) + ff_nchain (v_files V ! i) + 1 > EXFS_DEFER_MAX then (EXFS_ENOMEM, V)
          else (let (rc, nf, V) = take_fresh nfresh 0 0 V in
            if rc \<noteq> EXFS_OK then (rc, V)
            else (let (rc, V) = build_stage (v_files V ! i) nf W0 L1 oldb V in
              if rc \<noteq> EXFS_OK then (EXFS_ENOMEM, release_fresh nf V)
              else (let (r, V) = pool_reserve (v_nstage V) V in
                case r of
                  None \<Rightarrow> (EXFS_ENOMEM, release_fresh nf V)
                | Some (roff, rcap) \<Rightarrow>
                  (let (rc, V) = range_data (v_files V ! i) off len buf oldb [unat W0..<Suc (unat L1)] 0 0 V in
                   if rc \<noteq> EXFS_OK then (EXFS_EIO, release_fresh nf (pool_release roff rcap V))
                   else (EXFS_OK, range_finish i W0 L1 oldb roff rcap (off + len) V))))))))"

section \<open>Reading\<close>

text \<open>The search for the extent of logical block \<open>l\<close>: its index and the blocks before it.\<close>

fun read_seek :: "'d Exfs \<Rightarrow> ExfsFile \<Rightarrow> u64 \<Rightarrow> u64 \<Rightarrow> nat list \<Rightarrow> (nat \<times> u64) option" where
  "read_seek V f l base [] = None"
| "read_seek V f l base (i # is) =
     (if base + ucast (ex_len (FEXT V f i)) \<le> l then read_seek V f l (base + ucast (ex_len (FEXT V f i))) is else Some (i, base))"

text \<open>The read loop; \<open>inblk\<close> is below the block size from the start, which the guard only records.\<close>

function read_loop :: "ExfsFile \<Rightarrow> nat \<Rightarrow> nat \<Rightarrow> u64 \<Rightarrow> nat \<Rightarrow> nat \<Rightarrow> bytes \<Rightarrow> 'd Exfs \<Rightarrow> int \<times> bytes \<times> 'd Exfs" where
  "read_loop f want i k inblk got dst V =
     (if \<not> (got < want \<and> inblk < EXFS_BLOCK) then (sint (of_nat got :: u64), dst, V)
      else if i = ff_n f then (EXFS_EIO, dst, V)
      else (let (rc, page, V) = blk_got (ex_start (FEXT V f i) + k) (v_page V) V; V = V\<lparr>v_page := page\<rparr> in
        if rc \<noteq> EXFS_OK then (EXFS_EIO, dst, V)
        else (let avail = EXFS_BLOCK - inblk; n = (if want - got < avail then want - got else avail);
                  dst = copy_bytes dst got page inblk n
              in if k + 1 = ucast (ex_len (FEXT V f i)) then read_loop f want (Suc i) 0 0 (got + n) dst V
                 else read_loop f want i (k + 1) 0 (got + n) dst V)))"
  by pat_completeness auto
termination by (relation "measure (\<lambda>(f, want, i, k, inblk, got, dst, V). want - got)") auto

declare read_loop.simps [simp del]

definition exfs_read_at :: "bytes \<Rightarrow> u64 \<Rightarrow> bytes \<Rightarrow> u64 \<Rightarrow> 'd Exfs \<Rightarrow> int \<times> bytes \<times> 'd Exfs" where
  "exfs_read_at name off buf cap V =
     (if \<not> v_mounted V then (EXFS_ENOFS, buf, V)
      else (case find_file name V of
        None \<Rightarrow> (EXFS_ENOENT, buf, V)
      | Some x \<Rightarrow>
        (let f = v_files V ! x in
         if ff_type f \<noteq> EXFS_TYPE_FILE then (EXFS_EISDIR, buf, V)
         else if off \<ge> ff_size f then (0, buf, V)
         else (let want = (if ff_size f - off < cap then ff_size f - off else cap); l = off div 4096; inblk = off mod 4096 in
           case read_seek V f l 0 [0..<ff_n f] of
             None \<Rightarrow> (EXFS_EIO, buf, V)
           | Some (i, base) \<Rightarrow> read_loop f (unat want) i (l - base) (unat inblk) 0 buf V))))"

definition exfs_read :: "bytes \<Rightarrow> bytes \<Rightarrow> u64 \<Rightarrow> 'd Exfs \<Rightarrow> int \<times> bytes \<times> 'd Exfs" where
  "exfs_read name buf cap V = exfs_read_at name 0 buf cap V"

section \<open>Views\<close>

definition exfs_extents :: "'d Exfs \<Rightarrow> ExfsFile \<Rightarrow> ExfsExtent list" where
  "exfs_extents V f = (if ff_n f \<noteq> 0 then map (FEXT V f) [0..<ff_n f] else [])"

definition exfs_lookup :: "bytes \<Rightarrow> 'd Exfs \<Rightarrow> ExfsFile option" where
  "exfs_lookup name V = map_option (\<lambda>i. v_files V ! i) (find_file name V)"

definition exfs_file :: "u32 \<Rightarrow> 'd Exfs \<Rightarrow> ExfsFile option" where
  "exfs_file i V = (if unat i < EXFS_INODES then Some (v_files V ! unat i) else None)"

definition exfs_total_blocks :: "'d Exfs \<Rightarrow> u64" where
  "exfs_total_blocks V = v_total V"

definition exfs_free_blocks :: "'d Exfs \<Rightarrow> u64" where
  "exfs_free_blocks V = gmap_free_total (v_gm V)"

definition exfs_generation :: "'d Exfs \<Rightarrow> u64" where
  "exfs_generation V = v_gen V"

definition exfs_itab_start :: "'d Exfs \<Rightarrow> u64" where
  "exfs_itab_start V = v_itab_start V"

end
