(* ===== verification/Spec2Isabelle.thy ===== *)
theory Spec2Isabelle
  imports Dev Gmap_Props Machine_Props Exfs_Data
begin

text \<open>
  Verification of XASMOS, an exokernel for amd64 with a copy-on-write file system. Paths below are
  relative to \<open>src/source/\<close>; \<open>xeret/\<close> stands for \<open>arch/amd64/kernel/xeret/\<close>.

  \<^bold>\<open>The program.\<close> The firmware entry hands a memory map to \<open>kernel_main\<close>, which sets up the frame
  allocator, the token ledger, the page tables, the descriptor tables and the timer. A program owns memory
  only through tokens of the ledger; it maps them into its address space, and the kernel runs it in ring 3
  until it exits, yields, faults or loses its quantum. Executables are checked by a validator and placed by a
  loader that allocates and maps in one transaction. Beside the kernel proper stand the block layer,
  the registry of devices, and the file system EXFS on its superblock and its group map of free blocks.

  \<^bold>\<open>State.\<close> C integers are words of their width, buffers are lists of bytes. The static variables of the kernel's
  files form one machine record that grows along the call graph: \<open>Xmach\<close> (memory, frame bitmap) in \<open>Xmem\<close>,
  then \<open>Ledger\<close>, \<open>Paging\<close>, \<open>Sys\<close>, \<open>Lapic\<close>, \<open>Idt\<close> and \<open>Proc\<close>, each an extension of the one before, so an operation of an
  early file is polymorphic in what later files add. Physical memory is one byte per address and holds
  the page tables; the kernel's own image, its statics and its stack are not in it. Pointers to table
  entries are indices; a pointer that may be null is an option. Every error code is the code's integer. A
  function that takes a spinlock is one step: one processor runs the kernel, with interrupts off.

  \<^bold>\<open>Theories.\<close>

  \<^item> \<open>Xasmos_Prelude\<close>, \<open>Xmem\<close>: word and list lemmas, memory with 64-bit loads and stores.
  \<^item> \<open>Blk\<close>: \<open>core/blk/\<close>. The locales \<open>blk_medium\<close> (what the layers above may assume of a device that can fail) and
    \<open>blk_reliable\<close> (one that does not fail) are interpreted on the RAM disk.
  \<^item> \<open>Dev\<close>: \<open>core/dev/dev.c\<close>, with the proof that it implements a finite map.
  \<^item> \<open>Sb\<close>: \<open>core/exfs/sb.c\<close>, round trip and detection of a changed byte.
  \<^item> \<open>Gmap\<close>: \<open>core/exfs/gmap.c\<close>. \<open>Gmap_Cache\<close> has the invariant \<open>gm_st\<close> and the bitmap \<open>cur_bits\<close> a map stands for, and shows
    that loading, evicting and flushing do not change it; \<open>Gmap_Alloc\<close> gives \<open>gmap_take\<close> and \<open>gmap_release\<close> as
    operations on the set of used blocks; \<open>Gmap_Commit\<close> treats flush, commit, import and format; \<open>Gmap_Live\<close> the
    sequences \<open>gm_step\<close> and success on a reliable medium; \<open>Gmap_Props\<close> the properties.
  \<^item> \<open>Exfs\<close>, \<open>Exfs_Ops\<close>, \<open>Exfs_Data\<close>: \<open>core/exfs/exfs.c\<close>, all operations, executable. The theories prove termination
    of the loops.
  \<^item> \<open>Phys\<close>: \<open>xeret/mem/physical.c\<close>. The locale \<open>frame_pool\<close> is the contract of an allocator of runs of frames, interpreted for
    single frames and for huge frames.
  \<^item> \<open>Ledger\<close>: \<open>xeret/mem/token_ledger.c\<close>; \<open>Ledger_Inv\<close> the invariant and the effect of each operation on the map \<open>toks\<close> of live
    tokens; \<open>Ledger_Props\<close> the properties and the locale \<open>token_store\<close>, interpreted for both allocators.
  \<^item> \<open>Paging\<close>: \<open>xeret/mem/paging.c\<close>. \<open>Paging_Tree\<close> sees the tables as trees with a role for every table frame, \<open>Paging_Map\<close> gives the page
    operations on the leaves, \<open>Paging_Recs\<close> ties leaves, mapping records and tokens together, \<open>Paging_Space\<close> joins all in the
    invariant \<open>pt_ok\<close>, which \<open>Paging_Life\<close>, \<open>Paging_Step\<close> and \<open>Paging_Frame\<close> show for every operation. \<open>Paging_Mmu\<close> has the processor's page
    walk \<open>mmu\<close>, written from the architecture and not from the code; \<open>Paging_View\<close> and \<open>Paging_Walk\<close> relate it to the leaves;
    \<open>Paging_Kernel\<close> and \<open>Paging_Mmio\<close> cover the kernel's half, \<open>Paging_Live\<close> when the operations succeed.
  \<^item> \<open>Exb\<close>, \<open>Exb_Props\<close>: \<open>core/exb/exb.c\<close>, the validator and its checksum.
  \<^item> \<open>Sys\<close>, \<open>Sys_Inv\<close>: \<open>xeret/sys.c\<close>, system calls, quotas and teardown.
  \<^item> \<open>Lapic\<close>, \<open>Idt\<close>: \<open>xeret/lapic.c\<close>, \<open>xeret/gdt.c\<close>, \<open>xeret/idt.c\<close>.
  \<^item> \<open>Load\<close>: \<open>core/exb/load.c\<close> over an abstract backend, and \<open>xeret/load_amd64.c\<close>. \<open>Load_Inv\<close> proves the transaction inside the locale
    \<open>load_machine\<close>, the contract of \<open>xload_backend.h\<close>; \<open>Load_Amd64\<close> interprets it on this machine; \<open>Load_Live\<close> shows loads that succeed.
  \<^item> \<open>Proc\<close>, \<open>Proc_Inv\<close>: \<open>xeret/proc.c\<close>, running a program. \<open>Boot\<close>: \<open>xeret/main.c\<close>.
  \<^item> \<open>Kernel\<close>: the step relation \<open>kstep\<close> of the whole kernel, any operation on any arguments and any run of a program that comes
    back, with its invariant. \<open>Kernel_Props\<close>, \<open>Space_Props\<close> and \<open>Machine_Props\<close> state properties of every state reachable from \<open>kernel_main\<close>.

  \<^bold>\<open>What the theorems show.\<close> Over all reachable states: what a program reaches through the page walk is memory of
  its own live tokens, within their rights and never writable and executable; programs of different owners
  share no frame, and no store of a program changes a translation; a run gives the processor back with the kernel's
  registers, stack and tables; teardown returns everything; mapping, revocation and loading have exactly the
  effect they promise, and none when they fail; quotas hold; foreign tokens cannot be probed. For each
  component: allocation is sound and complete, released tokens stay dead, accepted executables are
  well-formed and the validator reads within bounds, corrupted superblocks and files are rejected, and the
  group map allocates exactly, survives a crash between commits and is restored by a mount.

  \<^bold>\<open>Conditions and limits.\<close> A program is the list of its stores and traps. The statement that its run comes back
  asks that the addresses it traps at be canonical; without that it is false, as \<open>last_page_halts\<close> shows on
  a mapping of the last user page. The registers \<open>xmm6\<close> to \<open>xmm15\<close>, which \<open>xproc_enter_asm\<close> does not save, are not in the state.
  Frames the firmware reports as free are free for the model, also where the kernel's image might lie. The
  framebuffer's frames are those the code's rounding reserves.

  \<^bold>\<open>Bounds and fuel.\<close> No definition uses fuel. \<open>reap_loop\<close> is a \<open>partial_function\<close>, and \<open>xproc_reap_complete\<close> proves that it returns. A run
  of a program is None when the list of its actions ends before it leaves ring 3, and \<open>program_contained\<close> says when it is not.
  The wait in \<open>calibrate\<close> has the bound of the code. All other loops are structural or have a termination proof. A
  token's generation has 32 bits, so a released token is shown to stay dead for \<open>2 ^ 32 - 2\<close> further releases.

  \<^bold>\<open>Parameters.\<close> What \<open>CPUID\<close>, the timer and the ports answer, the addresses the linker chooses (\<open>Layout\<close>), the memory map of the
  firmware, and the uninitialised structure that \<open>xload_exb\<close> passes to the validator.

  \<^bold>\<open>Not modelled.\<close> Serial port, framebuffer console, keyboard, PCI enumeration and the NVMe driver (device
  input and output; the driver is seen through \<open>blk_medium\<close>); the firmware entry \<open>efi_main.c\<close> (calls to UEFI
  services); the shell with its utilities and the bootstrap that calls it (console programs over the modelled
  operations); \<open>path.c\<close>, \<open>xqueue.c\<close> and \<open>xerlibc\<close>; spinlocks and other processors; caches and the TLB, apart from
  the order of the code's flushes; \<open>diag_trigger\<close>; the host tools.
\<close>

end
